(* ===== verification/Prelude.thy ===== *)
theory Prelude
  imports Main "HOL-Library.Word" "HOL-Library.Monad_Syntax"
begin

unbundle bit_operations_syntax

text \<open>
  Shared vocabulary of the development: the machine integers of the firmware, memory
  reads and copies with C's bounds made explicit, little-endian field readers, the
  wrap-around comparison of radio times, and the collections of simplification rules the
  component theories use.  Code that can leave the C standard (a read outside an object, a
  division by zero) is a function into option: \<open>None\<close> is that undefined execution, and
  every branch the code itself takes is a \<open>Some\<close>.  A pointer that may be NULL is an
  option as well, which its definition says.
\<close>

section \<open>Machine integers\<close>

type_synonym u8 = "8 word"
type_synonym u16 = "16 word"
type_synonym u32 = "32 word"
type_synonym u64 = "64 word"

named_theorems mem_simps \<open>bounded reads and copies\<close>
named_theorems time_simps \<open>wrap-around comparison of radio times\<close>
named_theorems enum_simps \<open>numeric codes of the C enumerations\<close>

text \<open>A mask before a truncation to its width has no effect.\<close>

lemma word_FF_mask: "(0xFF :: u16) = mask 8" "(0xFF :: u32) = mask 8" "(0xFFFF :: u32) = mask 16"
  by (simp_all add: mask_eq_exp_minus_1)

lemma ucast_and_mask [simp]:
  "ucast ((w :: u16) AND 0xFF) = (ucast w :: u8)"
  "ucast ((v :: u32) AND 0xFF) = (ucast v :: u8)"
  "ucast ((v :: u32) AND 0xFFFF) = (ucast v :: u16)"
  unfolding word_FF_mask by (rule bit_word_eqI; auto simp: bit_simps)+

section \<open>Memory\<close>

text \<open>
  \<open>rd buf i\<close> is the C expression \<open>buf[i]\<close>; \<open>rds buf i n\<close> is the source of a
  \<open>memcpy(.., buf + i, n)\<close>; \<open>overwrite dst i src\<close> is its destination.
\<close>

definition rd :: "u8 list \<Rightarrow> nat \<Rightarrow> u8 option" where
  "rd buf i = (if i < length buf then Some (buf ! i) else None)"

definition rds :: "u8 list \<Rightarrow> nat \<Rightarrow> nat \<Rightarrow> u8 list option" where
  "rds buf i n = (if i + n \<le> length buf then Some (take n (drop i buf)) else None)"

definition overwrite :: "'a list \<Rightarrow> nat \<Rightarrow> 'a list \<Rightarrow> 'a list" where
  "overwrite dst i src = take i dst @ src @ drop (i + length src) dst"

text \<open>\<open>wr buf i b\<close> is \<open>buf[i] = b\<close>.\<close>

definition wr :: "u8 list \<Rightarrow> nat \<Rightarrow> u8 \<Rightarrow> u8 list option" where
  "wr buf i b = (if i < length buf then Some (buf[i := b]) else None)"

lemma wr_Some [mem_simps, simp]: "i < length buf \<Longrightarrow> wr buf i b = Some (buf[i := b])"
  by (simp add: wr_def)

lemma rd_Some [mem_simps, simp]: "i < length buf \<Longrightarrow> rd buf i = Some (buf ! i)"
  by (simp add: rd_def)

lemma rd_None_iff [mem_simps]: "rd buf i = None \<longleftrightarrow> length buf \<le> i"
  by (auto simp: rd_def)

lemma rds_Some [mem_simps, simp]: "i + n \<le> length buf \<Longrightarrow> rds buf i n = Some (take n (drop i buf))"
  by (simp add: rds_def)

lemma rds_None_iff [mem_simps]: "rds buf i n = None \<longleftrightarrow> length buf < i + n"
  by (auto simp: rds_def)

lemma rds_eq_Some_length: "rds buf i n = Some bs \<Longrightarrow> length bs = n"
  by (auto simp: rds_def split: if_splits)

lemma length_overwrite [simp]:
  "i + length src \<le> length dst \<Longrightarrow> length (overwrite dst i src) = length dst"
  by (simp add: overwrite_def)

lemma overwrite_exact: "length src = length dst \<Longrightarrow> overwrite dst 0 src = src"
  by (simp add: overwrite_def)

lemma take_overwrite_0 [mem_simps]: "take (length src) (overwrite dst 0 src) = src"
  by (simp add: overwrite_def)

text \<open>The indices of a byte-indexed table, in a form that simplification unfolds.\<close>

lemma upt_256: "[0..<256] = 0 # 1 # [2..<256]"
  by (simp add: upt_rec)

text \<open>A table filled entry by entry.\<close>

lemma length_fold_update [simp]: "length (fold (\<lambda>i t. t[k i := v i]) is t) = length t"
  by (induction "is" arbitrary: t) simp_all

lemma fold_update_other:
  "j \<notin> k ` set is \<Longrightarrow> fold (\<lambda>i t. t[k i := v i]) is t ! j = t ! j"
  by (induction "is" arbitrary: t) auto

lemma fold_update_nth:
  assumes "distinct is" "inj_on k (set is)" "\<forall>i\<in>set is. k i < length t" "i \<in> set is"
  shows "fold (\<lambda>i t. t[k i := v i]) is t ! k i = v i"
  using assms
proof (induction "is" arbitrary: t)
  case Nil
  then show ?case by simp
next
  case (Cons x xs)
  then show ?case
    by (cases "i = x") (auto simp: fold_update_other)
qed

section \<open>Little-endian fields\<close>

text \<open>The values the code obtains with \<open>memcpy\<close> or a cast of the byte pointer.\<close>

definition le16 :: "u8 \<Rightarrow> u8 \<Rightarrow> u16" where
  "le16 b0 b1 = ucast b0 OR push_bit 8 (ucast b1)"

definition le32 :: "u8 \<Rightarrow> u8 \<Rightarrow> u8 \<Rightarrow> u8 \<Rightarrow> u32" where
  "le32 b0 b1 b2 b3 =
     ucast b0 OR push_bit 8 (ucast b1) OR push_bit 16 (ucast b2) OR push_bit 24 (ucast b3)"

text \<open>A five byte channel map copied into a zeroed 64-bit variable.\<close>

definition le40 :: "u8 \<Rightarrow> u8 \<Rightarrow> u8 \<Rightarrow> u8 \<Rightarrow> u8 \<Rightarrow> u64" where
  "le40 b0 b1 b2 b3 b4 =
     ucast b0 OR push_bit 8 (ucast b1) OR push_bit 16 (ucast b2) OR push_bit 24 (ucast b3)
     OR push_bit 32 (ucast b4)"

definition bytes16 :: "u16 \<Rightarrow> u8 list" where
  "bytes16 w = [ucast w, ucast (drop_bit 8 w)]"

definition bytes32 :: "u32 \<Rightarrow> u8 list" where
  "bytes32 w = [ucast w, ucast (drop_bit 8 w), ucast (drop_bit 16 w), ucast (drop_bit 24 w)]"

definition rd16 :: "u8 list \<Rightarrow> nat \<Rightarrow> u16 option" where
  "rd16 buf i = do { b0 \<leftarrow> rd buf i; b1 \<leftarrow> rd buf (i + 1); Some (le16 b0 b1) }"

definition rd32 :: "u8 list \<Rightarrow> nat \<Rightarrow> u32 option" where
  "rd32 buf i = do { b0 \<leftarrow> rd buf i; b1 \<leftarrow> rd buf (i + 1); b2 \<leftarrow> rd buf (i + 2); b3 \<leftarrow> rd buf (i + 3);
     Some (le32 b0 b1 b2 b3) }"

definition rd40 :: "u8 list \<Rightarrow> nat \<Rightarrow> u64 option" where
  "rd40 buf i = do { b0 \<leftarrow> rd buf i; b1 \<leftarrow> rd buf (i + 1); b2 \<leftarrow> rd buf (i + 2); b3 \<leftarrow> rd buf (i + 3);
     b4 \<leftarrow> rd buf (i + 4); Some (le40 b0 b1 b2 b3 b4) }"

lemma rd16_Some [mem_simps, simp]:
  "i + 2 \<le> length buf \<Longrightarrow> rd16 buf i = Some (le16 (buf ! i) (buf ! (i + 1)))"
  by (simp add: rd16_def)

lemma rd32_Some [mem_simps, simp]:
  "i + 4 \<le> length buf \<Longrightarrow>
     rd32 buf i = Some (le32 (buf ! i) (buf ! (i + 1)) (buf ! (i + 2)) (buf ! (i + 3)))"
  by (simp add: rd32_def)

lemma rd40_Some [mem_simps, simp]:
  "i + 5 \<le> length buf \<Longrightarrow>
     rd40 buf i = Some (le40 (buf ! i) (buf ! (i + 1)) (buf ! (i + 2)) (buf ! (i + 3)) (buf ! (i + 4)))"
  by (simp add: rd40_def)

lemma length_bytes16 [simp]: "length (bytes16 w) = 2"
  by (simp add: bytes16_def)

lemma length_bytes32 [simp]: "length (bytes32 w) = 4"
  by (simp add: bytes32_def)

lemma le16_bytes16: "le16 (bytes16 w ! 0) (bytes16 w ! 1) = w"
  by (rule bit_word_eqI) (auto simp: le16_def bytes16_def bit_simps)

lemma le32_bytes32:
  "le32 (bytes32 w ! 0) (bytes32 w ! 1) (bytes32 w ! 2) (bytes32 w ! 3) = w"
proof (rule bit_word_eqI)
  fix n assume "n < LENGTH(32)"
  then show "bit (le32 (bytes32 w ! 0) (bytes32 w ! 1) (bytes32 w ! 2) (bytes32 w ! 3)) n = bit w n"
    by (cases "n < 24"; cases "n < 16") (auto simp: le32_def bytes32_def bit_simps)
qed

section \<open>Radio time\<close>

text \<open>
  Radio times are 32-bit counters that wrap; the code compares two of them through the
  top bit of their difference.  \<open>since t x\<close> is how long after \<open>t\<close> the time \<open>x\<close> is.  For
  times less than half the range after a common base, the code's tests are comparisons of
  these numbers.
\<close>

definition since :: "u32 \<Rightarrow> u32 \<Rightarrow> nat" where
  "since t x = unat (x - t)"

lemma since_self [simp]: "since t t = 0"
  by (simp add: since_def)

lemma unat_diff_since:
  "unat (x - y) = (if since t y \<le> since t x then since t x - since t y else 2 ^ 32 + since t x - since t y)"
proof -
  have "x - y = (x - t) - (y - t)" by simp
  then show ?thesis
    using unat_sub_if_size [of "x - t" "y - t"] by (auto simp: since_def word_size)
qed

lemma since_bound: "since t x < 2 ^ 32"
  using unsigned_less [of "x - t"] by (simp add: since_def)

lemma not_before_iff [time_simps]:
  "since t x < 0x80000000 \<Longrightarrow> since t y < 0x80000000 \<Longrightarrow> x - y < 0x80000000 \<longleftrightarrow> since t y \<le> since t x"
  by (auto simp: word_less_nat_alt unat_diff_since [of x y t])

lemma before_iff [time_simps]:
  "since t x < 0x80000000 \<Longrightarrow> since t y < 0x80000000 \<Longrightarrow> 0x80000000 \<le> x - y \<longleftrightarrow> since t x < since t y"
  using not_before_iff [of t x y] by (auto simp: not_less)

lemma sint_neg_iff: "sint (w :: u32) < 0 \<longleftrightarrow> 0x80000000 \<le> w"
proof -
  have "sint w < 0 \<longleftrightarrow> bit w 31"
    using bit_last_iff [of w] by simp
  also have "\<dots> \<longleftrightarrow> odd (unat w div 2 ^ 31)"
  proof -
    have "bit w 31 = bit (unat w) 31"
      by (simp add: bit_unsigned_iff)
    then show ?thesis
      by (simp only: bit_iff_odd)
  qed
  also have "\<dots> \<longleftrightarrow> 2 ^ 31 \<le> unat w"
  proof -
    have "unat w < 2 ^ 32"
      using unsigned_less [of w] by simp
    then show ?thesis
      by (cases "2 ^ 31 \<le> unat w") (auto simp: div_if)
  qed
  finally show ?thesis
    by (simp add: word_le_nat_alt)
qed

lemma sint_diff_neg_iff [time_simps]:
  "since t x < 0x80000000 \<Longrightarrow> since t y < 0x80000000 \<Longrightarrow> sint (x - y) < 0 \<longleftrightarrow> since t x < since t y"
  by (simp add: sint_neg_iff before_iff)

lemma since_inject: "since t x = since t y \<longleftrightarrow> x = y"
proof
  assume "since t x = since t y"
  then have "x - t = y - t"
    by (simp add: since_def word_unat_eq_iff)
  then show "x = y" by simp
qed simp

lemma sint_diff_le_iff [time_simps]:
  assumes "since t x < 0x80000000" "since t y < 0x80000000"
  shows "sint (x - y) \<le> 0 \<longleftrightarrow> since t x \<le> since t y"
proof -
  have "sint (x - y) = 0 \<longleftrightarrow> x - y = 0"
    by (metis signed_0 signed_word_eqI)
  then have "sint (x - y) = 0 \<longleftrightarrow> x = y"
    by simp
  then show ?thesis
    using sint_diff_neg_iff [OF assms] since_inject [of t x y] by linarith
qed

lemma since_add: "since t x + unat d < 2 ^ 32 \<Longrightarrow> since t (x + d) = since t x + unat d"
proof -
  assume "since t x + unat d < 2 ^ 32"
  moreover have "x + d - t = (x - t) + d" by simp
  then have "unat (x + d - t) = (unat (x - t) + unat d) mod 2 ^ 32"
    by (simp only: unat_word_ariths) simp
  ultimately show ?thesis
    by (simp add: since_def)
qed

section \<open>The library's sort\<close>

text \<open>
  \<open>qsort\<close> with a comparison function: a permutation of the array in which no element is
  followed by a smaller one.  An insertion sort stands for it; the order of elements that
  compare equal is the library's choice and nothing proved here depends on it.
\<close>

fun insort_cmp :: "('a \<Rightarrow> 'a \<Rightarrow> int) \<Rightarrow> 'a \<Rightarrow> 'a list \<Rightarrow> 'a list" where
  "insort_cmp cmp x [] = [x]"
| "insort_cmp cmp x (y # ys) = (if cmp x y \<le> 0 then x # y # ys else y # insort_cmp cmp x ys)"

definition qsort :: "('a \<Rightarrow> 'a \<Rightarrow> int) \<Rightarrow> 'a list \<Rightarrow> 'a list" where
  "qsort cmp xs = foldr (insort_cmp cmp) xs []"

lemma set_insort_cmp [simp]: "set (insort_cmp cmp x ys) = insert x (set ys)"
  by (induction ys) auto

lemma length_insort_cmp [simp]: "length (insort_cmp cmp x ys) = Suc (length ys)"
  by (induction ys) auto

lemma set_qsort [simp]: "set (qsort cmp xs) = set xs"
  by (induction xs) (auto simp: qsort_def)

lemma length_qsort [simp]: "length (qsort cmp xs) = length xs"
  by (induction xs) (auto simp: qsort_def)

lemma sorted_insort_cmp:
  assumes "\<And>a b. a \<in> insert x (set ys) \<Longrightarrow> b \<in> insert x (set ys) \<Longrightarrow> cmp a b \<le> 0 \<longleftrightarrow> (key a :: nat) \<le> key b"
    and "sorted (map key ys)"
  shows "sorted (map key (insort_cmp cmp x ys))"
  using assms by (induction ys) (auto simp: not_le)

lemma sorted_qsort:
  "(\<And>a b. a \<in> set xs \<Longrightarrow> b \<in> set xs \<Longrightarrow> cmp a b \<le> 0 \<longleftrightarrow> (key a :: nat) \<le> key b) \<Longrightarrow>
     sorted (map key (qsort cmp xs))"
proof (induction xs)
  case Nil
  then show ?case by (simp add: qsort_def)
next
  case (Cons x xs)
  have "sorted (map key (insort_cmp cmp x (qsort cmp xs)))"
    using Cons by (intro sorted_insort_cmp) auto
  then show ?case by (simp add: qsort_def)
qed

text \<open>Under a total comparison the result has no two neighbours out of order, and is a fixed point.\<close>

lemma successively_insort_cmp:
  assumes "\<And>a b. cmp a b \<le> 0 \<or> cmp b a \<le> 0" "successively (\<lambda>a b. cmp a b \<le> 0) ys"
  shows "successively (\<lambda>a b. cmp a b \<le> 0) (insort_cmp cmp x ys)"
  using assms(2)
proof (induction ys)
  case (Cons y ys)
  then show ?case
    using assms(1) [of x y] by (cases ys) auto
qed simp

lemma qsort_sorted: "successively (\<lambda>a b. cmp a b \<le> 0) xs \<Longrightarrow> qsort cmp xs = xs"
proof (induction xs)
  case (Cons x xs)
  then show ?case
    by (cases xs) (simp_all add: qsort_def)
qed (simp add: qsort_def)

lemma qsort_again:
  assumes "\<And>a b. cmp a b \<le> 0 \<or> cmp b a \<le> 0"
  shows "qsort cmp (qsort cmp xs) = qsort cmp xs"
proof (rule qsort_sorted, induction xs)
  case (Cons x xs)
  then show ?case
    using successively_insort_cmp [OF assms] by (simp add: qsort_def)
qed (simp add: qsort_def)

end
