(* ===== verification/Ring.thy ===== *)
theory Ring
  imports Prelude
begin

text \<open>
  The queue discipline shared by the firmware's three eight-slot circular buffers
  (conf_queue.c, TXQueue.c and the frame queue of PacketTask.c): free-running 32-bit head
  and tail counters, masked with 7 to find a slot.  The first part lifts such a buffer to
  the list of its entries, oldest first.  The second part is the interface the rest of the
  development uses: a bounded first-in first-out queue that drops what does not fit.
\<close>

unbundle bit_operations_syntax

section \<open>Counters and slots\<close>

definition slot_of :: "u32 \<Rightarrow> nat" where
  "slot_of c = unat (c AND 7)"

definition ring_size :: "u32 \<Rightarrow> u32 \<Rightarrow> nat" where
  "ring_size h t = unat (h - t)"

definition ring_list :: "'a list \<Rightarrow> u32 \<Rightarrow> u32 \<Rightarrow> 'a list" where
  "ring_list slots h t = map (\<lambda>i. slots ! slot_of (t + of_nat i)) [0..<ring_size h t]"

lemma slot_of_mod: "slot_of c = unat c mod 8"
proof -
  have "c AND 7 = take_bit 3 c"
    by (simp add: take_bit_eq_mask mask_numeral)
  then have "slot_of c = take_bit 3 (unat c)"
    unfolding slot_of_def by (simp only: unsigned_take_bit_eq)
  then show ?thesis
    by (simp add: take_bit_eq_mod)
qed

lemma slot_of_less [simp]: "slot_of c < 8"
  by (simp add: slot_of_mod)

lemma slot_of_add: "slot_of (t + of_nat i) = (unat t + i) mod 8"
  by (simp add: slot_of_mod unat_word_ariths unat_of_nat mod_mod_cancel mod_add_right_eq)

lemma slot_of_head: "slot_of h = (unat t + ring_size h t) mod 8"
proof -
  have "h = t + of_nat (ring_size h t)"
    by (simp add: ring_size_def)
  then show ?thesis
    by (metis slot_of_add)
qed

lemma ring_size_push: "ring_size h t < 8 \<Longrightarrow> ring_size (h + 1) t = Suc (ring_size h t)"
proof -
  assume a: "ring_size h t < 8"
  have "unat (1 + (h - t)) = Suc (unat (h - t))"
    using a by (simp add: ring_size_def unat_word_ariths)
  then show ?thesis
    by (simp add: ring_size_def algebra_simps)
qed

lemma ring_size_pop: "0 < ring_size h t \<Longrightarrow> Suc (ring_size h (t + 1)) = ring_size h t"
proof -
  assume "0 < ring_size h t"
  then have "h - t \<noteq> 0" by (auto simp: ring_size_def)
  then have "unat (1 + (h - t - 1)) = Suc (unat (h - t - 1))"
    by (intro unatSuc) auto
  then show ?thesis by (simp add: ring_size_def diff_diff_eq add.commute)
qed

lemma length_ring_list [simp]: "length (ring_list slots h t) = ring_size h t"
  by (simp add: ring_list_def)

lemma ring_list_empty_iff: "ring_list slots h t = [] \<longleftrightarrow> h = t"
  by (auto simp: ring_list_def ring_size_def unat_eq_zero)

lemma slot_distinct:
  assumes "i < n" "n < 8"
  shows "(a + i) mod 8 \<noteq> (a + n) mod (8::nat)"
proof
  assume "(a + i) mod 8 = (a + n) mod 8"
  then have "8 dvd a + n - (a + i)"
    using assms by (subst mod_eq_dvd_iff_nat [symmetric]) simp_all
  then have "8 dvd n - i" by simp
  then show False
    using assms by (auto dest: dvd_imp_le)
qed

lemma ring_list_push:
  assumes len: "length slots = 8" and room: "ring_size h t < 8"
  shows "ring_list (slots[slot_of h := x]) (h + 1) t = ring_list slots h t @ [x]"
proof -
  have "slots[slot_of h := x] ! slot_of (t + of_nat i) = slots ! slot_of (t + of_nat i)"
    if "i < ring_size h t" for i
    using slot_distinct [OF that room, of "unat t"]
    by (simp add: slot_of_add slot_of_head [of h t])
  moreover have "slots[slot_of h := x] ! slot_of (t + of_nat (ring_size h t)) = x"
    using len by (simp add: slot_of_add slot_of_head [of h t])
  ultimately show ?thesis
    by (simp add: ring_list_def ring_size_push [OF room])
qed

lemma ring_list_pop:
  assumes "0 < ring_size h t"
  shows "ring_list slots h (t + 1) = tl (ring_list slots h t)"
proof (rule nth_equalityI)
  show "length (ring_list slots h (t + 1)) = length (tl (ring_list slots h t))"
    using ring_size_pop [OF assms] by simp
  fix i assume "i < length (ring_list slots h (t + 1))"
  then have i: "i < ring_size h (t + 1)" by simp
  then have "Suc i < ring_size h t"
    using ring_size_pop [OF assms] by simp
  then show "ring_list slots h (t + 1) ! i = tl (ring_list slots h t) ! i"
    using i by (simp add: ring_list_def nth_tl add.assoc)
qed

lemma ring_list_hd: "0 < ring_size h t \<Longrightarrow> hd (ring_list slots h t) = slots ! slot_of t"
  by (simp add: ring_list_def hd_map upt_conv_Cons)

lemma ring_list_last:
  assumes "0 < ring_size h t"
  shows "last (ring_list slots h t) = slots ! slot_of (h - 1)"
proof -
  have *: "t + of_nat (ring_size h t - 1) = h - 1"
    using assms by (simp add: ring_size_def of_nat_diff Suc_leI)
  have "last (ring_list slots h t) = slots ! slot_of (t + of_nat (ring_size h t - 1))"
    using assms by (simp add: ring_list_def last_map last_conv_nth del: of_nat_diff)
  then show ?thesis
    by (simp only: *)
qed

text \<open>Two of the three queues also mask the size, which their invariant makes harmless.\<close>

lemma masked_size: "ring_size h t \<le> 7 \<Longrightarrow> unat ((h - t) AND 7) = ring_size h t"
  using slot_of_mod [of "h - t"] by (simp add: slot_of_def ring_size_def)

lemma masked_full:
  assumes "ring_size h t \<le> 7"
  shows "(h - t) AND 7 = 7 \<longleftrightarrow> ring_size h t = 7"
proof -
  have "(h - t) AND 7 = 7 \<longleftrightarrow> unat ((h - t) AND 7) = unat (7 :: u32)"
    by (rule word_unat_eq_iff)
  then show ?thesis
    by (simp add: masked_size [OF assms])
qed

section \<open>The interface: a bounded queue that drops what does not fit\<close>

text \<open>
  What the clients of a ring rely on: an insertion appends the entry, in the form the queue
  stores it (\<open>view\<close>), when fewer than \<open>cap\<close> entries are queued and changes nothing
  otherwise, and a removal takes the oldest entry.  \<open>ok\<close> says which entries the callers
  may insert.  The clients' own result, proved here once, is about whole runs: whatever
  order insertions and removals come in, the entries leave the queue in the order in which
  they were accepted, none of them lost, duplicated or invented.
\<close>

datatype 'a queue_op = Put 'a | Take

text \<open>One operation, the entries a run delivers and accepts, and the run itself.\<close>

fun queue_step :: "('q \<Rightarrow> 'b list) \<Rightarrow> ('a \<Rightarrow> 'q \<Rightarrow> 'q) \<Rightarrow> ('q \<Rightarrow> 'q) \<Rightarrow> 'a queue_op \<Rightarrow> 'q \<Rightarrow> 'q" where
  "queue_step items put rem (Put x) q = put x q"
| "queue_step items put rem Take q = (if items q = [] then q else rem q)"

fun queue_run :: "('q \<Rightarrow> 'b list) \<Rightarrow> ('a \<Rightarrow> 'q \<Rightarrow> 'q) \<Rightarrow> ('q \<Rightarrow> 'q) \<Rightarrow> 'a queue_op list \<Rightarrow> 'q \<Rightarrow> 'q" where
  "queue_run items put rem [] q = q"
| "queue_run items put rem (x # ops) q = queue_run items put rem ops (queue_step items put rem x q)"

fun delivered :: "('q \<Rightarrow> 'b list) \<Rightarrow> ('a \<Rightarrow> 'q \<Rightarrow> 'q) \<Rightarrow> ('q \<Rightarrow> 'q) \<Rightarrow> 'a queue_op list \<Rightarrow> 'q \<Rightarrow> 'b list" where
  "delivered items put rem [] q = []"
| "delivered items put rem (Put x # ops) q = delivered items put rem ops (put x q)"
| "delivered items put rem (Take # ops) q =
     (if items q = [] then [] else [hd (items q)])
     @ delivered items put rem ops (queue_step items put rem Take q)"

fun accepted ::
  "nat \<Rightarrow> ('q \<Rightarrow> 'b list) \<Rightarrow> ('a \<Rightarrow> 'q \<Rightarrow> 'q) \<Rightarrow> ('q \<Rightarrow> 'q) \<Rightarrow> 'a queue_op list \<Rightarrow> 'q \<Rightarrow> 'a list" where
  "accepted cap items put rem [] q = []"
| "accepted cap items put rem (Put x # ops) q =
     (if length (items q) < cap then [x] else []) @ accepted cap items put rem ops (put x q)"
| "accepted cap items put rem (Take # ops) q =
     accepted cap items put rem ops (queue_step items put rem Take q)"

fun op_ok :: "('a \<Rightarrow> bool) \<Rightarrow> 'a queue_op \<Rightarrow> bool" where
  "op_ok ok (Put x) = ok x"
| "op_ok ok Take = True"

locale bounded_fifo =
  fixes inv :: "'q \<Rightarrow> bool"
    and items :: "'q \<Rightarrow> 'b list"
    and ok :: "'a \<Rightarrow> bool"
    and view :: "'a \<Rightarrow> 'b"
    and put :: "'a \<Rightarrow> 'q \<Rightarrow> 'q"
    and rem :: "'q \<Rightarrow> 'q"
    and cap :: nat
  assumes bound: "inv q \<Longrightarrow> length (items q) \<le> cap"
    and inv_put: "inv q \<Longrightarrow> ok x \<Longrightarrow> inv (put x q)"
    and inv_rem: "inv q \<Longrightarrow> items q \<noteq> [] \<Longrightarrow> inv (rem q)"
    and put_items: "inv q \<Longrightarrow> ok x \<Longrightarrow>
          items (put x q) = (if length (items q) < cap then items q @ [view x] else items q)"
    and rem_items: "inv q \<Longrightarrow> items q \<noteq> [] \<Longrightarrow> items (rem q) = tl (items q)"
begin

lemma inv_step: "inv q \<Longrightarrow> op_ok ok x \<Longrightarrow> inv (queue_step items put rem x q)"
  by (cases x) (auto simp: inv_put inv_rem)

lemma inv_run: "inv q \<Longrightarrow> list_all (op_ok ok) ops \<Longrightarrow> inv (queue_run items put rem ops q)"
  by (induction ops arbitrary: q) (auto simp: inv_step)

lemma run_bound: "inv q \<Longrightarrow> list_all (op_ok ok) ops \<Longrightarrow> length (items (queue_run items put rem ops q)) \<le> cap"
  by (simp add: bound inv_run)

lemma fifo:
  "inv q \<Longrightarrow> list_all (op_ok ok) ops \<Longrightarrow>
     delivered items put rem ops q @ items (queue_run items put rem ops q)
     = items q @ map view (accepted cap items put rem ops q)"
proof (induction ops arbitrary: q)
  case Nil
  then show ?case by simp
next
  case (Cons x ops)
  have "op_ok ok x" "list_all (op_ok ok) ops"
    using Cons.prems(2) by simp_all
  note IH = Cons.IH [OF inv_step [OF Cons.prems(1) this(1)] this(2)]
  show ?case
  proof (cases x)
    case (Put a)
    then show ?thesis
      using IH Cons.prems by (simp add: put_items)
  next
    case Take
    then show ?thesis
      using IH Cons.prems by (cases "items q") (auto simp: rem_items)
  qed
qed

end

end
