(* ===== verification/Radio_Types.thy ===== *)
theory Radio_Types
  imports Prelude
begin

text \<open>
  The data types every component of the firmware shares: the enumerations and the frame
  of RadioWrapper.h, and the PDU types, sniffer states and connection parameters of
  RadioTask.h and RadioTask.c.  Enumerations are datatypes with the source's constructors
  and a numeric code where the code uses the value as an integer; bit fields keep their
  width as words of that width.
\<close>

unbundle bit_operations_syntax

section \<open>Physical layer modes\<close>

datatype phy_mode = PHY_1M | PHY_2M | PHY_CODED_S8 | PHY_CODED_S2

fun phy_code :: "phy_mode \<Rightarrow> nat" where
  "phy_code PHY_1M = 0"
| "phy_code PHY_2M = 1"
| "phy_code PHY_CODED_S8 = 2"
| "phy_code PHY_CODED_S2 = 3"

text \<open>The cast of a number to \<open>PHY_Mode\<close>, as stored in a two bit field.\<close>

definition phy_of_code :: "nat \<Rightarrow> phy_mode" where
  "phy_of_code n =
     (if n mod 4 = 0 then PHY_1M else if n mod 4 = 1 then PHY_2M
      else if n mod 4 = 2 then PHY_CODED_S8 else PHY_CODED_S2)"

lemma phy_of_code_code [enum_simps, simp]: "phy_of_code (phy_code p) = p"
  by (cases p) (simp_all add: phy_of_code_def)

lemma phy_code_less [enum_simps, simp]: "phy_code p < 4"
  by (cases p) simp_all

lemma phy_code_of_code [enum_simps]: "n < 4 \<Longrightarrow> phy_code (phy_of_code n) = n"
  by (auto simp: phy_of_code_def)

lemma phy_code_inject [enum_simps]: "phy_code p = phy_code q \<longleftrightarrow> p = q"
  by (metis phy_of_code_code)

text \<open>The code compares modes by their value (\<open>> PHY_CODED_S2\<close>).\<close>

instantiation phy_mode :: linorder
begin

definition less_eq_phy_mode :: "phy_mode \<Rightarrow> phy_mode \<Rightarrow> bool" where
  "p \<le> q \<longleftrightarrow> phy_code p \<le> phy_code q"

definition less_phy_mode :: "phy_mode \<Rightarrow> phy_mode \<Rightarrow> bool" where
  "p < q \<longleftrightarrow> phy_code p < phy_code q"

instance
  by standard (auto simp: less_eq_phy_mode_def less_phy_mode_def phy_code_inject)

end

section \<open>Advertising modes and PDU types\<close>

datatype adv_mode = LEGACY_CONNECTABLE | LEGACY_DIRECT | LEGACY_NON_CONNECTABLE | LEGACY_SCANNABLE

datatype adv_ext_mode = EXT_NON_CONNECTABLE | EXT_CONNECTABLE | EXT_SCANNABLE

fun adv_mode_code :: "adv_mode \<Rightarrow> nat" where
  "adv_mode_code LEGACY_CONNECTABLE = 0"
| "adv_mode_code LEGACY_DIRECT = 1"
| "adv_mode_code LEGACY_NON_CONNECTABLE = 2"
| "adv_mode_code LEGACY_SCANNABLE = 3"

fun adv_ext_mode_code :: "adv_ext_mode \<Rightarrow> nat" where
  "adv_ext_mode_code EXT_NON_CONNECTABLE = 0"
| "adv_ext_mode_code EXT_CONNECTABLE = 1"
| "adv_ext_mode_code EXT_SCANNABLE = 2"

text \<open>The casts of a command byte to the enumerations, checked by the caller.\<close>

definition adv_mode_of_code :: "nat \<Rightarrow> adv_mode" where
  "adv_mode_of_code n =
     (if n = 0 then LEGACY_CONNECTABLE else if n = 1 then LEGACY_DIRECT
      else if n = 2 then LEGACY_NON_CONNECTABLE else LEGACY_SCANNABLE)"

definition adv_ext_mode_of_code :: "nat \<Rightarrow> adv_ext_mode" where
  "adv_ext_mode_of_code n =
     (if n = 0 then EXT_NON_CONNECTABLE else if n = 1 then EXT_CONNECTABLE else EXT_SCANNABLE)"

text \<open>\<open>AdvPDUType\<close>: the code compares these with the four low bits of a header byte.\<close>

abbreviation (input) "ADV_IND \<equiv> (0 :: u8)"
abbreviation (input) "ADV_DIRECT_IND \<equiv> (1 :: u8)"
abbreviation (input) "ADV_NONCONN_IND \<equiv> (2 :: u8)"
abbreviation (input) "SCAN_REQ \<equiv> (3 :: u8)"
abbreviation (input) "SCAN_RSP \<equiv> (4 :: u8)"
abbreviation (input) "CONNECT_IND \<equiv> (5 :: u8)"
abbreviation (input) "ADV_SCAN_IND \<equiv> (6 :: u8)"
abbreviation (input) "ADV_EXT_IND \<equiv> (7 :: u8)"
abbreviation (input) "AUX_CONNECT_RSP \<equiv> (8 :: u8)"

section \<open>Frames\<close>

text \<open>
  \<open>BLE_Frame\<close>.  \<open>f_pData\<close> holds the bytes from the pointer to the end of the buffer it
  points into, which may be more than \<open>f_length\<close>.
\<close>

record ble_frame =
  f_timestamp :: u32
  f_length :: "14 word"
  f_crcError :: bool
  f_direction :: "1 word"
  f_eventCtr :: u16
  f_rssi :: u8
  f_channel :: "6 word"
  f_phy :: phy_mode
  f_pData :: "u8 list"

text \<open>Channels of the messages that are not received packets (PacketTask.h).\<close>

abbreviation (input) "MSGCHAN_DEBUG \<equiv> (40 :: 6 word)"
abbreviation (input) "MSGCHAN_MARKER \<equiv> (41 :: 6 word)"
abbreviation (input) "MSGCHAN_STATE \<equiv> (42 :: 6 word)"
abbreviation (input) "MSGCHAN_MEASURE \<equiv> (43 :: 6 word)"

text \<open>The number of bytes a frame claims, as the code's integer arithmetic sees it.\<close>

definition flen :: "ble_frame \<Rightarrow> nat" where
  "flen f = unat (f_length f)"

section \<open>Sniffer states and connection parameters\<close>

datatype sniffer_state =
  STATIC | ADVERT_SEEK | ADVERT_HOP | DATA | PAUSED | INITIATING | CENTRAL | PERIPHERAL
  | ADVERTISING | SCANNING | ADVERTISING_EXT

fun state_code :: "sniffer_state \<Rightarrow> u8" where
  "state_code STATIC = 0"
| "state_code ADVERT_SEEK = 1"
| "state_code ADVERT_HOP = 2"
| "state_code DATA = 3"
| "state_code PAUSED = 4"
| "state_code INITIATING = 5"
| "state_code CENTRAL = 6"
| "state_code PERIPHERAL = 7"
| "state_code ADVERTISING = 8"
| "state_code SCANNING = 9"
| "state_code ADVERTISING_EXT = 10"

record radio_config =
  chanMap :: u64
  hopIntervalTicks :: u32
  connTimeoutTicks :: u32
  rc_offset :: u16
  peripheralLatency :: u16
  rc_phy :: phy_mode
  intervalCertain :: bool
  chanMapCertain :: bool
  winOffsetCertain :: bool

end
