(* ===== verification/Conf_Queue.thy ===== *)
theory Conf_Queue
  imports Ring Radio_Types
begin

text \<open>
  conf_queue.c: the queue of connection parameter changes that wait for their instant.
  Two arrays of eight slots share a head and a tail counter.  The list of waiting changes
  is \<open>conf_items\<close>; the operations refine insertion at its end, removal of a due first
  entry and reading of its last entry.
\<close>

unbundle bit_operations_syntax

section \<open>State and operations\<close>

record conf_queue =
  configs :: "radio_config list"
  nextInstants :: "u16 list"
  cq_head :: u32
  cq_tail :: u32

definition rconf_qsize :: "conf_queue \<Rightarrow> u32" where
  "rconf_qsize q = cq_head q - cq_tail q"

definition rconf_reset :: "conf_queue \<Rightarrow> conf_queue" where
  "rconf_reset q = q\<lparr>cq_head := 0, cq_tail := 0\<rparr>"

definition rconf_enqueue :: "u16 \<Rightarrow> radio_config \<Rightarrow> conf_queue \<Rightarrow> conf_queue" where
  "rconf_enqueue nextInstant conf q =
     (let qsz = rconf_qsize q
      in if qsz \<ge> 7 then q
         else let h = slot_of (cq_head q)
              in q\<lparr>cq_head := cq_head q + 1,
                   nextInstants := (nextInstants q)[h := nextInstant],
                   configs := (configs q)[h := conf]\<rparr>)"

text \<open>The test on the oldest entry: its instant is now, or lies in the past half of the counter's range.\<close>

definition instant_due :: "u16 \<Rightarrow> u16 \<Rightarrow> bool" where
  "instant_due nextInstant connEventCount \<longleftrightarrow>
     nextInstant = connEventCount \<or> nextInstant - connEventCount \<ge> 0x8000"

definition rconf_drop :: "conf_queue \<Rightarrow> conf_queue" where
  "rconf_drop q = q\<lparr>cq_tail := cq_tail q + 1\<rparr>"

text \<open>The returned flag, the value behind the \<open>conf\<close> pointer, and the queue.\<close>

definition rconf_dequeue :: "u16 \<Rightarrow> radio_config \<Rightarrow> conf_queue \<Rightarrow> bool \<times> radio_config \<times> conf_queue" where
  "rconf_dequeue connEventCount conf q =
     (if rconf_qsize q = 0 then (False, conf, q)
      else let t = slot_of (cq_tail q)
           in if instant_due (nextInstants q ! t) connEventCount
              then (True, configs q ! t, rconf_drop q)
              else (False, conf, q))"

text \<open>NULL when the queue is empty.\<close>

definition rconf_latest :: "conf_queue \<Rightarrow> radio_config option" where
  "rconf_latest q =
     (if rconf_qsize q = 0 then None else Some (configs q ! slot_of (cq_head q - 1)))"

section \<open>The queue as a list\<close>

definition conf_queue_ok :: "conf_queue \<Rightarrow> bool" where
  "conf_queue_ok q \<longleftrightarrow>
     length (configs q) = 8 \<and> length (nextInstants q) = 8 \<and> ring_size (cq_head q) (cq_tail q) \<le> 7"

definition conf_items :: "conf_queue \<Rightarrow> (u16 \<times> radio_config) list" where
  "conf_items q = ring_list (zip (nextInstants q) (configs q)) (cq_head q) (cq_tail q)"

lemma rconf_qsize_nat: "unat (rconf_qsize q) = ring_size (cq_head q) (cq_tail q)"
  by (simp add: rconf_qsize_def ring_size_def)

lemma rconf_qsize_zero: "rconf_qsize q = 0 \<longleftrightarrow> conf_items q = []"
  by (simp add: rconf_qsize_def conf_items_def ring_list_empty_iff)

lemma length_conf_items: "length (conf_items q) = ring_size (cq_head q) (cq_tail q)"
  by (simp add: conf_items_def)

lemma rconf_full: "rconf_qsize q \<ge> 7 \<longleftrightarrow> 7 \<le> length (conf_items q)"
  by (simp add: word_le_nat_alt rconf_qsize_nat length_conf_items)

lemma conf_queue_ok_enqueue: "conf_queue_ok q \<Longrightarrow> conf_queue_ok (rconf_enqueue i c q)"
  by (auto simp: conf_queue_ok_def rconf_enqueue_def Let_def rconf_full length_conf_items ring_size_push)

lemma conf_queue_ok_reset: "conf_queue_ok q \<Longrightarrow> conf_queue_ok (rconf_reset q)"
  by (simp add: conf_queue_ok_def rconf_reset_def ring_size_def)

lemma conf_items_nonempty: "conf_items q \<noteq> [] \<longleftrightarrow> 0 < ring_size (cq_head q) (cq_tail q)"
  by (metis length_conf_items length_greater_0_conv)

lemma conf_queue_ok_drop: "conf_queue_ok q \<Longrightarrow> conf_items q \<noteq> [] \<Longrightarrow> conf_queue_ok (rconf_drop q)"
  using ring_size_pop [of "cq_head q" "cq_tail q"]
  by (simp add: conf_queue_ok_def rconf_drop_def conf_items_nonempty)

lemma conf_items_enqueue:
  "conf_queue_ok q \<Longrightarrow>
     conf_items (rconf_enqueue i c q) = (if length (conf_items q) < 7 then conf_items q @ [(i, c)] else conf_items q)"
  by (simp add: conf_queue_ok_def rconf_enqueue_def Let_def rconf_full length_conf_items not_le)
    (simp add: conf_items_def ring_list_push zip_update)

lemma conf_items_drop:
  "conf_items q \<noteq> [] \<Longrightarrow> conf_items (rconf_drop q) = tl (conf_items q)"
  by (simp add: conf_items_nonempty) (simp add: rconf_drop_def conf_items_def ring_list_pop)

lemma conf_items_reset: "conf_items (rconf_reset q) = []"
  by (simp add: rconf_reset_def conf_items_def ring_list_empty_iff)

lemma conf_items_hd:
  assumes "conf_queue_ok q" "conf_items q \<noteq> []"
  shows "hd (conf_items q) = (nextInstants q ! slot_of (cq_tail q), configs q ! slot_of (cq_tail q))"
proof -
  have "0 < ring_size (cq_head q) (cq_tail q)"
    using assms(2) by (simp add: conf_items_nonempty)
  then show ?thesis
    using assms(1) by (simp add: conf_items_def ring_list_hd conf_queue_ok_def)
qed

lemma conf_items_last:
  assumes "conf_queue_ok q" "conf_items q \<noteq> []"
  shows "snd (last (conf_items q)) = configs q ! slot_of (cq_head q - 1)"
proof -
  have "0 < ring_size (cq_head q) (cq_tail q)"
    using assms(2) by (simp add: conf_items_nonempty)
  then show ?thesis
    using assms(1) by (simp add: conf_items_def ring_list_last conf_queue_ok_def)
qed

interpretation confq: bounded_fifo conf_queue_ok conf_items "\<lambda>_. True" "\<lambda>x. x"
  "\<lambda>(i, c). rconf_enqueue i c" rconf_drop 7
proof
  show "length (conf_items q) \<le> 7" if "conf_queue_ok q" for q
    using that by (simp add: conf_queue_ok_def length_conf_items)
qed (auto simp: conf_queue_ok_enqueue conf_queue_ok_drop conf_items_enqueue conf_items_drop)

section \<open>Behaviour\<close>

lemma rconf_dequeue_empty: "conf_items q = [] \<Longrightarrow> rconf_dequeue n c q = (False, c, q)"
  by (simp add: rconf_dequeue_def rconf_qsize_zero)

lemma rconf_dequeue_Cons:
  "conf_queue_ok q \<Longrightarrow> conf_items q = (i, e) # rest \<Longrightarrow>
     rconf_dequeue n c q = (if instant_due i n then (True, e, rconf_drop q) else (False, c, q))"
  using conf_items_hd [of q] by (simp add: rconf_dequeue_def rconf_qsize_zero Let_def)

lemma rconf_latest_items:
  "conf_queue_ok q \<Longrightarrow> rconf_latest q = (if conf_items q = [] then None else Some (snd (last (conf_items q))))"
  by (simp add: rconf_latest_def rconf_qsize_zero conf_items_last)

lemma instant_due_later:
  assumes "0 < d" "d < 0x8000"
  shows "\<not> instant_due (n + of_nat d) n" "instant_due n (n + of_nat d)"
proof -
  have *: "unat (of_nat d :: u16) = d"
    using assms by (simp add: unat_of_nat)
  then have "(of_nat d :: u16) \<noteq> 0"
    using assms by auto
  then show "\<not> instant_due (n + of_nat d) n"
    using assms * by (simp add: instant_due_def word_le_nat_alt)
  have "unat (- (of_nat d :: u16)) = 0x10000 - d"
    using unat_sub_if_size [of 0 "of_nat d :: u16"] assms * by (simp add: word_size)
  then show "instant_due n (n + of_nat d)"
    using assms by (auto simp: instant_due_def word_le_nat_alt)
qed

lemma conf_queue_ok_dequeue: "conf_queue_ok q \<Longrightarrow> conf_queue_ok (snd (snd (rconf_dequeue n c q)))"
  by (cases "conf_items q") (auto simp: rconf_dequeue_empty rconf_dequeue_Cons conf_queue_ok_drop)

text \<open>
  Dequeueing refines the list of waiting changes: it hands out exactly the oldest
  change, and only when that change is due; otherwise it leaves the queue and the caller's
  parameters alone.
\<close>

theorem rconf_dequeue_refines:
  assumes "conf_queue_ok q" and "rconf_dequeue n c q = (taken, d, q')"
  shows "conf_queue_ok q' \<and>
    (case conf_items q of
       [] \<Rightarrow> \<not> taken \<and> d = c \<and> q' = q
     | (i, e) # rest \<Rightarrow>
         if instant_due i n then taken \<and> d = e \<and> conf_items q' = rest
         else \<not> taken \<and> d = c \<and> q' = q)"
  using assms conf_queue_ok_dequeue [OF assms(1), of n c]
  by (cases "conf_items q")
    (auto simp: rconf_dequeue_empty rconf_dequeue_Cons conf_items_drop split: if_splits)

lemma rconf_dequeue_refines_witness:
  "let c = \<lparr>chanMap = 0x1FFFFFFFFF, hopIntervalTicks = 96000, connTimeoutTicks = 0, rc_offset = 0,
     peripheralLatency = 0, rc_phy = PHY_1M, intervalCertain = True, chanMapCertain = True, winOffsetCertain = True\<rparr>
   in case rconf_dequeue 5 c \<lparr>configs = replicate 8 c, nextInstants = replicate 8 5, cq_head = 1, cq_tail = 0\<rparr> of
     (taken, d, q') \<Rightarrow> taken \<and> d = c"
  (is "let c = ?c in _ c")
proof -
  define c where "c = ?c"
  let ?q = "\<lparr>configs = replicate 8 c, nextInstants = replicate 8 5, cq_head = 1, cq_tail = 0\<rparr>"
  obtain taken d q' where r: "rconf_dequeue 5 c ?q = (taken, d, q')"
    by (metis prod_cases3)
  have "conf_queue_ok ?q" "conf_items ?q = [(5, c)]"
    by (simp_all add: conf_queue_ok_def ring_size_def conf_items_def ring_list_def slot_of_def)
  then show ?thesis
    unfolding Let_def c_def [symmetric] using rconf_dequeue_refines [OF _ r] r by (simp add: instant_due_def)
qed

text \<open>
  A change queued for an instant fewer than 32768 connection events ahead, once it is
  the oldest, is refused at every event before its instant and handed out at the instant
  itself, also when the 16-bit event counter wraps in between.
\<close>

theorem rconf_applied_at_instant:
  assumes "conf_queue_ok q" and "conf_items q = (n + of_nat d, e) # rest" and "d < 0x8000"
  shows "(\<forall>k < d. rconf_dequeue (n + of_nat k) c q = (False, c, q)) \<and>
         rconf_dequeue (n + of_nat d) c q = (True, e, rconf_drop q)"
proof -
  have "\<not> instant_due (n + of_nat d) (n + of_nat k)" if "k < d" for k
    using instant_due_later(1) [of "d - k" "n + of_nat k"] that assms(3) by (simp add: algebra_simps)
  then show ?thesis
    by (simp add: rconf_dequeue_Cons [OF assms(1,2)] instant_due_def)
qed

lemma rconf_applied_at_instant_witness:
  "let c = \<lparr>chanMap = 0x1FFFFFFFFF, hopIntervalTicks = 96000, connTimeoutTicks = 0, rc_offset = 0,
     peripheralLatency = 0, rc_phy = PHY_1M, intervalCertain = True, chanMapCertain = True, winOffsetCertain = True\<rparr>
   in rconf_dequeue 2 c \<lparr>configs = replicate 8 c, nextInstants = replicate 8 2, cq_head = 1, cq_tail = 0\<rparr> =
     (True, c, rconf_drop \<lparr>configs = replicate 8 c, nextInstants = replicate 8 2, cq_head = 1, cq_tail = 0\<rparr>)"
  (is "let c = ?c in _ c")
proof -
  define c where "c = ?c"
  let ?q = "\<lparr>configs = replicate 8 c, nextInstants = replicate 8 2, cq_head = 1, cq_tail = 0\<rparr>"
  have "conf_queue_ok ?q" "conf_items ?q = [(0xFFFF + of_nat 3, c)]"
    by (simp_all add: conf_queue_ok_def ring_size_def conf_items_def ring_list_def slot_of_def)
  moreover have two: "0xFFFF + of_nat 3 = (2 :: u16)"
    by simp
  ultimately show ?thesis
    unfolding Let_def c_def [symmetric] using rconf_applied_at_instant [of ?q "0xFFFF" 3 c "[]" c] unfolding two by simp
qed

end
