(* ===== verification/Tx_Queue.thy ===== *)
theory Tx_Queue
  imports Ring Radio_Types
begin

text \<open>
  TXQueue.c: the queue of link layer PDUs the host wants transmitted.  Each of the eight
  radio entries owns a slice of 258 bytes of \<open>packet_buf\<close>: a header byte, at most 255 body
  bytes and the two bytes of the connection event the PDU is meant for.  The entry's state
  field also belongs to the radio core; the constants the code does not name are \<open>DATA_ENTRY_OTHER\<close>.
\<close>

unbundle bit_operations_syntax

section \<open>State\<close>

datatype entry_status = DATA_ENTRY_PENDING | DATA_ENTRY_ACTIVE | DATA_ENTRY_BUSY | DATA_ENTRY_OTHER

datatype entry_type = DATA_ENTRY_TYPE_GEN | DATA_ENTRY_TYPE_PTR

text \<open>\<open>rfc_dataEntryPointer_t\<close>, with links as indices and the slice \<open>pData\<close> points to.\<close>

record tx_entry =
  te_next :: nat
  te_status :: entry_status
  te_type :: entry_type
  te_lenSz :: u8
  te_length :: u16
  te_data :: "u8 list"

record tx_queue =
  tx_entries :: "tx_entry list"
  tx_head :: u32
  tx_tail :: u32

text \<open>\<open>dataQueue_t\<close>: the current and last entries, NULL when nothing is queued.\<close>

record data_queue =
  pCurrEntry :: "nat option"
  pLastEntry :: "nat option"

definition TX_PACKET_SIZE :: nat where "TX_PACKET_SIZE = 258"

section \<open>Operations\<close>

definition TXQueue_init_entry :: "nat \<Rightarrow> tx_entry \<Rightarrow> tx_entry" where
  "TXQueue_init_entry i e =
     e\<lparr>te_next := (i + 1) mod 8, te_status := DATA_ENTRY_PENDING, te_type := DATA_ENTRY_TYPE_PTR,
       te_lenSz := 0, te_length := 0\<rparr>"

definition TXQueue_init :: "tx_queue \<Rightarrow> tx_queue" where
  "TXQueue_init q =
     q\<lparr>tx_head := 0, tx_tail := 0,
       tx_entries := map (\<lambda>i. TXQueue_init_entry i (tx_entries q ! i)) [0..<8]\<rparr>"

text \<open>
  \<open>len\<close> is the byte count the caller passes, \<open>data\<close> the bytes behind its pointer; the
  copy of more bytes than there are is undefined.
\<close>

definition TXQueue_insert :: "u8 \<Rightarrow> u8 \<Rightarrow> u8 list \<Rightarrow> u16 \<Rightarrow> tx_queue \<Rightarrow> (bool \<times> tx_queue) option" where
  "TXQueue_insert len llid data eventCtr q =
     (if (tx_head q - tx_tail q) AND 7 = 7 then Some (False, q)
      else let h = slot_of (tx_head q); e = tx_entries q ! h
           in if te_status e = DATA_ENTRY_ACTIVE \<or> te_status e = DATA_ENTRY_BUSY then Some (False, q)
              else do {
                body \<leftarrow> rds data 0 (unat len);
                let d = te_data e;
                let d = d[0 := llid AND 0x3];
                let d = overwrite d 1 body;
                let d = overwrite d (unat len + 1) (bytes16 eventCtr);
                let e = e\<lparr>te_status := DATA_ENTRY_PENDING, te_length := 1 + ucast len, te_data := d\<rparr>;
                Some (True, q\<lparr>tx_entries := (tx_entries q)[h := e], tx_head := tx_head q + 1\<rparr>)
              })"

definition TXQueue_take :: "tx_queue \<Rightarrow> u32 \<times> data_queue" where
  "TXQueue_take q =
     (let qsize = (tx_head q - tx_tail q) AND 7
      in if qsize \<noteq> 0
         then (qsize, \<lparr>pCurrEntry = Some (slot_of (tx_tail q)), pLastEntry = Some (slot_of (tx_head q - 1))\<rparr>)
         else (qsize, \<lparr>pCurrEntry = None, pLastEntry = None\<rparr>))"

definition TXQueue_flush :: "u32 \<Rightarrow> tx_queue \<Rightarrow> tx_queue" where
  "TXQueue_flush numEntries q =
     (let qsize = (tx_head q - tx_tail q) AND 7;
          n = (if numEntries > qsize then qsize else numEntries)
      in q\<lparr>tx_tail := tx_tail q + n\<rparr>)"

section \<open>The queue as a list of PDUs\<close>

text \<open>
  What the queue holds is the header bits, body and event of each PDU, as
  \<open>reactToTransmitted\<close> (RadioTask.c) later reads them out of the entry.
\<close>

type_synonym tx_pdu = "u8 \<times> u8 list \<times> u16"

definition tx_content :: "tx_entry \<Rightarrow> tx_pdu" where
  "tx_content e =
     (let n = unat (te_length e); d = te_data e
      in (d ! 0, take (n - 1) (drop 1 d), le16 (d ! n) (d ! (n + 1))))"

definition tx_items :: "tx_queue \<Rightarrow> tx_pdu list" where
  "tx_items q = map tx_content (ring_list (tx_entries q) (tx_head q) (tx_tail q))"

definition tx_entry_ok :: "tx_entry \<Rightarrow> bool" where
  "tx_entry_ok e \<longleftrightarrow> length (te_data e) = TX_PACKET_SIZE \<and> te_type e = DATA_ENTRY_TYPE_PTR
     \<and> te_status e \<noteq> DATA_ENTRY_ACTIVE \<and> te_status e \<noteq> DATA_ENTRY_BUSY"

definition tx_queue_ok :: "tx_queue \<Rightarrow> bool" where
  "tx_queue_ok q \<longleftrightarrow> length (tx_entries q) = 8 \<and> list_all tx_entry_ok (tx_entries q)
     \<and> ring_size (tx_head q) (tx_tail q) \<le> 7"

definition tx_pdu_ok :: "tx_pdu \<Rightarrow> bool" where
  "tx_pdu_ok p = (case p of (llid, data, ev) \<Rightarrow> length data \<le> 255)"

definition tx_view :: "tx_pdu \<Rightarrow> tx_pdu" where
  "tx_view p = (case p of (llid, data, ev) \<Rightarrow> (llid AND 3, data, ev))"

definition tx_put :: "tx_pdu \<Rightarrow> tx_queue \<Rightarrow> tx_queue" where
  "tx_put p q = (case p of (llid, data, ev) \<Rightarrow> snd (the (TXQueue_insert (of_nat (length data)) llid data ev q)))"

lemma length_tx_items: "length (tx_items q) = ring_size (tx_head q) (tx_tail q)"
  by (simp add: tx_items_def)

lemma tx_items_nonempty: "tx_items q \<noteq> [] \<longleftrightarrow> 0 < ring_size (tx_head q) (tx_tail q)"
  by (metis length_tx_items length_greater_0_conv)

text \<open>The bytes an insertion leaves in its entry are read back as the PDU it was given.\<close>

lemma tx_content_stored:
  assumes "length d = TX_PACKET_SIZE" "length body \<le> 255"
  shows "tx_content (e\<lparr>te_length := 1 + ucast (of_nat (length body) :: u8),
           te_data := overwrite (overwrite (d[0 := x]) 1 body) (length body + 1) (bytes16 ev)\<rparr>) = (x, body, ev)"
proof -
  let ?d = "overwrite (overwrite (d[0 := x]) 1 body) (length body + 1) (bytes16 ev)"
  obtain y ys where d: "d = y # ys"
    using assms(1) by (cases d) (auto simp: TX_PACKET_SIZE_def)
  have D: "?d = x # body @ bytes16 ev @ drop (length body + 2) ys"
    using assms by (simp add: d overwrite_def TX_PACKET_SIZE_def)
  have n: "unat (1 + ucast (of_nat (length body) :: u8) :: u16) = length body + 1"
    using assms(2) by (simp add: unat_word_ariths unat_of_nat unsigned_ucast_eq take_bit_nat_eq_self)
  have "le16 (bytes16 ev ! 0) (bytes16 ev ! 1) = ev"
    by (rule le16_bytes16)
  then show ?thesis
    unfolding tx_content_def D by (simp add: n nth_append)
qed

lemma TXQueue_insert_room:
  assumes "tx_queue_ok q" "length data \<le> 255" "length (tx_items q) < 7"
  shows "\<exists>e. TXQueue_insert (of_nat (length data)) llid data ev q =
      Some (True, q\<lparr>tx_entries := (tx_entries q)[slot_of (tx_head q) := e], tx_head := tx_head q + 1\<rparr>)
    \<and> tx_entry_ok e \<and> tx_content e = (llid AND 3, data, ev)"
proof -
  let ?e = "tx_entries q ! slot_of (tx_head q)"
  have ok: "tx_entry_ok ?e"
    using assms(1) by (simp add: tx_queue_ok_def list_all_length)
  have "unat (of_nat (length data) :: u8) = length data"
    using assms(2) by (simp add: unat_of_nat)
  moreover have "(tx_head q - tx_tail q) AND 7 \<noteq> 7"
    using assms(1,3) by (simp add: masked_full tx_queue_ok_def length_tx_items)
  ultimately show ?thesis
    using ok assms(2) tx_content_stored
        [where d = "te_data ?e" and body = data and e = "?e\<lparr>te_status := DATA_ENTRY_PENDING\<rparr>"
            and ev = ev and x = "llid AND 3"]
    by (auto simp: TXQueue_insert_def Let_def tx_entry_ok_def TX_PACKET_SIZE_def)
qed

lemma TXQueue_insert_full:
  "tx_queue_ok q \<Longrightarrow> length (tx_items q) = 7 \<Longrightarrow> TXQueue_insert len llid data ev q = Some (False, q)"
  by (simp add: TXQueue_insert_def masked_full tx_queue_ok_def length_tx_items)

lemma tx_put_room:
  assumes "tx_queue_ok q" "tx_pdu_ok p" "length (tx_items q) < 7"
  shows "tx_queue_ok (tx_put p q)" "tx_items (tx_put p q) = tx_items q @ [tx_view p]"
proof -
  obtain llid data ev where p: "p = (llid, data, ev)" by (cases p)
  then have "length data \<le> 255"
    using assms(2) by (simp add: tx_pdu_ok_def)
  from TXQueue_insert_room [OF assms(1) this assms(3), of llid ev]
  obtain e where e: "tx_put p q = q\<lparr>tx_entries := (tx_entries q)[slot_of (tx_head q) := e], tx_head := tx_head q + 1\<rparr>"
    "tx_entry_ok e" "tx_content e = tx_view p"
    by (auto simp: tx_put_def p tx_view_def)
  show "tx_queue_ok (tx_put p q)"
    using assms(1,3) e
    by (auto simp: tx_queue_ok_def length_tx_items ring_size_push list_all_length nth_list_update)
  show "tx_items (tx_put p q) = tx_items q @ [tx_view p]"
    using assms(1,3) e by (simp add: tx_queue_ok_def length_tx_items) (simp add: tx_items_def ring_list_push)
qed

lemma tx_put_full: "tx_queue_ok q \<Longrightarrow> length (tx_items q) = 7 \<Longrightarrow> tx_put p q = q"
  by (simp add: tx_put_def TXQueue_insert_full split: prod.split)

lemma tx_queue_ok_bound: "tx_queue_ok q \<Longrightarrow> length (tx_items q) \<le> 7"
  by (simp add: tx_queue_ok_def length_tx_items)

lemma TXQueue_flush_1:
  assumes "tx_queue_ok q" "tx_items q \<noteq> []"
  shows "TXQueue_flush 1 q = q\<lparr>tx_tail := tx_tail q + 1\<rparr>"
proof -
  have "\<not> 1 > (tx_head q - tx_tail q) AND 7"
    using assms masked_size [of "tx_head q" "tx_tail q"]
    by (simp add: tx_queue_ok_def tx_items_nonempty word_less_nat_alt)
  then show ?thesis
    by (simp add: TXQueue_flush_def Let_def)
qed

interpretation txq: bounded_fifo tx_queue_ok tx_items tx_pdu_ok tx_view tx_put "TXQueue_flush 1" 7
proof
  fix q p
  assume q: "tx_queue_ok q"
  show "length (tx_items q) \<le> 7"
    by (rule tx_queue_ok_bound [OF q])
  show "tx_queue_ok (tx_put p q)" if "tx_pdu_ok p"
    using tx_put_room(1) [OF q that] tx_put_full [OF q] tx_queue_ok_bound [OF q] q
    by (cases "length (tx_items q) = 7") auto
  show "tx_items (tx_put p q) = (if length (tx_items q) < 7 then tx_items q @ [tx_view p] else tx_items q)"
    if "tx_pdu_ok p"
    using tx_put_room(2) [OF q that] tx_put_full [OF q] tx_queue_ok_bound [OF q] by auto
  assume ne: "tx_items q \<noteq> []"
  show "tx_queue_ok (TXQueue_flush 1 q)"
    using q ne ring_size_pop [of "tx_head q" "tx_tail q"]
    by (simp add: TXQueue_flush_1 tx_queue_ok_def tx_items_nonempty)
  show "tx_items (TXQueue_flush 1 q) = tl (tx_items q)"
    using q ne by (simp add: TXQueue_flush_1 tx_items_nonempty) (simp add: tx_items_def ring_list_pop map_tl)
qed

section \<open>Behaviour\<close>

lemma TXQueue_init_ok:
  assumes "length (tx_entries q) = 8" "\<forall>e \<in> set (tx_entries q). length (te_data e) = TX_PACKET_SIZE"
  shows "tx_queue_ok (TXQueue_init q)" "tx_items (TXQueue_init q) = []"
  using assms
  by (auto simp: tx_queue_ok_def TXQueue_init_def TXQueue_init_entry_def tx_entry_ok_def tx_items_def
      ring_size_def ring_list_empty_iff list_all_iff)

text \<open>
  The PDUs the host queues leave the transmit queue in the order in which they were
  accepted, each with its header bits masked to two, its whole body and its connection
  event, whatever the interleaving of insertions and releases; at most seven are held.
\<close>

theorem TXQueue_fifo:
  assumes "tx_queue_ok q" and "list_all (op_ok tx_pdu_ok) ops"
  shows "delivered tx_items tx_put (TXQueue_flush 1) ops q
           @ tx_items (queue_run tx_items tx_put (TXQueue_flush 1) ops q)
         = tx_items q @ map tx_view (accepted 7 tx_items tx_put (TXQueue_flush 1) ops q)"
  using assms by (rule txq.fifo)

lemma TXQueue_fifo_witness:
  "delivered tx_items tx_put (TXQueue_flush 1) [Put (2, [7], 0), Take]
     (TXQueue_init \<lparr>tx_entries = replicate 8 \<lparr>te_next = 0, te_status = DATA_ENTRY_PENDING,
        te_type = DATA_ENTRY_TYPE_GEN, te_lenSz = 0, te_length = 0, te_data = replicate TX_PACKET_SIZE 0\<rparr>,
        tx_head = 0, tx_tail = 0\<rparr>)
   @ tx_items (queue_run tx_items tx_put (TXQueue_flush 1) [Put (2, [7], 0), Take]
     (TXQueue_init \<lparr>tx_entries = replicate 8 \<lparr>te_next = 0, te_status = DATA_ENTRY_PENDING,
        te_type = DATA_ENTRY_TYPE_GEN, te_lenSz = 0, te_length = 0, te_data = replicate TX_PACKET_SIZE 0\<rparr>,
        tx_head = 0, tx_tail = 0\<rparr>)) = [(2, [7], 0)]"
  (is "?d @ ?r = _")
proof -
  let ?q = "\<lparr>tx_entries = replicate 8 \<lparr>te_next = 0, te_status = DATA_ENTRY_PENDING,
    te_type = DATA_ENTRY_TYPE_GEN, te_lenSz = 0, te_length = 0, te_data = replicate TX_PACKET_SIZE 0\<rparr>,
    tx_head = 0, tx_tail = 0\<rparr>"
  have ok: "tx_queue_ok (TXQueue_init ?q)" "tx_items (TXQueue_init ?q) = []"
    by (rule TXQueue_init_ok; simp)+
  have "?d @ ?r = tx_items (TXQueue_init ?q) @ map tx_view
      (accepted 7 tx_items tx_put (TXQueue_flush 1) [Put (2, [7], 0), Take] (TXQueue_init ?q))"
    by (rule TXQueue_fifo [OF ok(1)]) (simp add: tx_pdu_ok_def)
  then show ?thesis
    by (simp only: ok(2)) (simp add: ok(2) tx_view_def)
qed

text \<open>
  \<open>TXQueue_take\<close> reports how many PDUs are queued and hands the radio the entries of
  the oldest and the youngest of them, or two NULL pointers when there is none.
\<close>

lemma TXQueue_take_window:
  assumes "tx_queue_ok q" and "TXQueue_take q = (n, dq)"
  shows "unat n = length (tx_items q) \<and>
    (if tx_items q = [] then pCurrEntry dq = None \<and> pLastEntry dq = None
     else (\<exists>c l. pCurrEntry dq = Some c \<and> pLastEntry dq = Some l \<and> c < 8 \<and> l < 8 \<and>
             tx_content (tx_entries q ! c) = hd (tx_items q) \<and>
             tx_content (tx_entries q ! l) = last (tx_items q)))"
proof -
  have size: "unat ((tx_head q - tx_tail q) AND 7) = length (tx_items q)"
    using assms(1) by (simp add: tx_queue_ok_def masked_size length_tx_items)
  then have zero: "(tx_head q - tx_tail q) AND 7 = 0 \<longleftrightarrow> tx_items q = []"
    by (metis length_0_conv unat_eq_zero)
  show ?thesis
  proof (cases "tx_items q = []")
    case True
    then show ?thesis
      using assms(2) size zero by (auto simp: TXQueue_take_def Let_def)
  next
    case False
    then have pos: "0 < ring_size (tx_head q) (tx_tail q)"
      by (simp add: tx_items_nonempty)
    then have ne: "ring_list (tx_entries q) (tx_head q) (tx_tail q) \<noteq> []"
      using False by (auto simp: tx_items_def)
    have "hd (tx_items q) = tx_content (tx_entries q ! slot_of (tx_tail q))"
      "last (tx_items q) = tx_content (tx_entries q ! slot_of (tx_head q - 1))"
      using ne pos by (simp_all add: tx_items_def hd_map last_map ring_list_hd ring_list_last)
    then show ?thesis
      using assms(2) size zero False by (auto simp: TXQueue_take_def Let_def)
  qed
qed

end
