(* ===== verification/Aux_Sched.thy ===== *)
theory Aux_Sched
  imports Radio_Types
begin

text \<open>
  AuxAdvScheduler.c: the schedule of auxiliary advertisements the radio is to listen for.
  The array \<open>aux_events\<close> is modelled by the list of its first \<open>num_aux_events\<close> elements,
  the only ones the code reads.  The first part translates the operations, the second shows
  what they promise: the schedule stays sorted and within its eight slots, an accepted
  event is covered by the schedule and no earlier coverage is lost, and the scheduler
  always returns the most recently started event and a time that is not in the past.
\<close>

unbundle bit_operations_syntax

section \<open>State and operations\<close>

record aux_info =
  ae_chan :: u8
  ae_phy :: phy_mode
  ae_time :: u32
  ae_duration :: u32

type_synonym aux_sched = "aux_info list"

definition MAX_AUX_EVENTS :: nat where "MAX_AUX_EVENTS = 8"

definition sched_event_cmp_fn :: "aux_info \<Rightarrow> aux_info \<Rightarrow> int" where
  "sched_event_cmp_fn a b = sint (ae_time a - ae_time b)"

definition resort_sched :: "aux_sched \<Rightarrow> aux_sched" where
  "resort_sched xs = qsort sched_event_cmp_fn xs"

text \<open>The outcome of comparing a new event with a scheduled one on the same channel and PHY.\<close>

datatype overlap = Disjoint | Stretch_start u32 | Replace | Covered | Stretch_end u32

definition overlap_check :: "aux_info \<Rightarrow> aux_info \<Rightarrow> overlap" where
  "overlap_check e event =
     (let start_a = ae_time e;
          end_a = ae_time e + ae_duration e;
          start_b = ae_time event;
          end_b = ae_time event + ae_duration event;
          offset = (if start_b - start_a \<ge> 0x80000000 then start_b else start_a);
          start_a = start_a - offset;
          start_b = start_b - offset;
          end_a = end_a - offset;
          end_b = end_b - offset
      in if start_b < start_a
         then (if end_b < start_a then Disjoint
               else if end_b < end_a then Stretch_start (start_a - start_b)
               else Replace)
         else if start_b < end_a
         then (if end_b < end_a then Covered else Stretch_end (end_b - end_a))
         else Disjoint)"

text \<open>The loop of \<open>insert_event_sorted\<close> from index \<open>i\<close> on.\<close>

function insert_event_from :: "nat \<Rightarrow> aux_info \<Rightarrow> aux_sched \<Rightarrow> nat \<Rightarrow> bool \<times> aux_sched" where
  "insert_event_from i event elist max_events =
     (if i < length elist
      then let e = elist ! i;
               ov = (if ae_chan e = ae_chan event \<and> ae_phy e = ae_phy event
                     then overlap_check e event else Disjoint)
           in case ov of
                Stretch_start d \<Rightarrow>
                  (True, resort_sched (elist[i := e\<lparr>ae_duration := ae_duration e + d, ae_time := ae_time event\<rparr>]))
              | Replace \<Rightarrow> (True, resort_sched (elist[i := event]))
              | Covered \<Rightarrow> (True, elist)
              | Stretch_end d \<Rightarrow> (True, elist[i := e\<lparr>ae_duration := ae_duration e + d\<rparr>])
              | Disjoint \<Rightarrow>
                  if length elist = max_events then (False, elist)
                  else if ae_time e - ae_time event < 0x80000000
                  then (True, take i elist @ event # drop i elist)
                  else insert_event_from (Suc i) event elist max_events
      else if length elist = max_events then (False, elist)
      else (True, elist @ [event]))"
  by pat_completeness auto
termination
  by (relation "measure (\<lambda>(i, event, elist, max_events). length elist - i)") auto

declare insert_event_from.simps [simp del]

definition insert_event_sorted :: "aux_info \<Rightarrow> aux_sched \<Rightarrow> nat \<Rightarrow> bool \<times> aux_sched" where
  "insert_event_sorted event elist max_events = insert_event_from 0 event elist max_events"

definition sched_list_pop :: "aux_sched \<Rightarrow> nat \<Rightarrow> aux_sched" where
  "sched_list_pop elist index =
     (if index \<ge> length elist then elist else take index elist @ drop (index + 1) elist)"

definition AuxAdvScheduler_insert :: "u8 \<Rightarrow> phy_mode \<Rightarrow> u32 \<Rightarrow> u32 \<Rightarrow> aux_sched \<Rightarrow> bool \<times> aux_sched" where
  "AuxAdvScheduler_insert chan phy radio_time duration xs =
     insert_event_sorted
       \<lparr>ae_chan = chan, ae_phy = phy, ae_time = radio_time, ae_duration = duration\<rparr> xs MAX_AUX_EVENTS"

definition event_past :: "u32 \<Rightarrow> aux_info \<Rightarrow> bool" where
  "event_past cur e \<longleftrightarrow> ae_time e + ae_duration e - cur \<ge> 0x80000000"

text \<open>The loop steps back after a removal, so the index moves on only past a kept event.\<close>

function sched_clear_from :: "nat \<Rightarrow> u32 \<Rightarrow> aux_sched \<Rightarrow> aux_sched" where
  "sched_clear_from i cur xs =
     (if i < length xs
      then if event_past cur (xs ! i) then sched_clear_from i cur (sched_list_pop xs i)
           else sched_clear_from (Suc i) cur xs
      else xs)"
  by pat_completeness auto
termination
  by (relation "measure (\<lambda>(i, cur, xs). length xs - i)") (auto simp: sched_list_pop_def)

declare sched_clear_from.simps [simp del]

definition sched_clear_past :: "u32 \<Rightarrow> aux_sched \<Rightarrow> aux_sched" where
  "sched_clear_past cur xs = sched_clear_from 0 cur xs"

text \<open>The inner loop of \<open>AuxAdvScheduler_next\<close>: the last of the leading events that have started.\<close>

fun last_started :: "u32 \<Rightarrow> nat \<Rightarrow> nat \<Rightarrow> aux_sched \<Rightarrow> nat" where
  "last_started now best i [] = best"
| "last_started now best i (e # es) =
     (if sint (ae_time e - now) \<le> 0 then last_started now i (Suc i) es else best)"

text \<open>The returned time, the values behind the \<open>chan\<close> and \<open>phy\<close> pointers, the cleaned schedule.\<close>

definition AuxAdvScheduler_next :: "u32 \<Rightarrow> aux_sched \<Rightarrow> u32 \<times> u8 \<times> phy_mode \<times> aux_sched" where
  "AuxAdvScheduler_next radio_time xs0 =
     (let xs = sched_clear_past radio_time xs0;
          time_to_soonest_aux = (if xs \<noteq> [] then ae_time (xs ! 0) - radio_time else 0x7FFFFFFF)
      in if sint time_to_soonest_aux \<le> 0
         then let event_to_use = last_started radio_time 0 1 (tl xs);
                  e = xs ! event_to_use;
                  etime = ae_time e + ae_duration e;
                  etime = (if length xs > event_to_use + 1
                           then let next_start = ae_time (xs ! (event_to_use + 1))
                                in if sint (next_start - etime) < 0 then next_start else etime
                           else etime)
              in (etime, ae_chan e, ae_phy e, xs)
         else (radio_time + time_to_soonest_aux, 0xFF, PHY_1M, xs))"

definition AuxAdvScheduler_reset :: "aux_sched \<Rightarrow> aux_sched" where
  "AuxAdvScheduler_reset xs = []"

section \<open>Schedules within half the clock's range\<close>

text \<open>
  Times are read relative to a base \<open>t\<close> so that the counter's wrap-around disappears.
  An event is in the window when it starts and ends less than half the range after the base.
\<close>

definition ev_start :: "u32 \<Rightarrow> aux_info \<Rightarrow> nat" where
  "ev_start t e = since t (ae_time e)"

definition ev_end :: "u32 \<Rightarrow> aux_info \<Rightarrow> nat" where
  "ev_end t e = since t (ae_time e) + unat (ae_duration e)"

definition ev_ok :: "u32 \<Rightarrow> aux_info \<Rightarrow> bool" where
  "ev_ok t e \<longleftrightarrow> ev_end t e < 0x80000000"

definition sched_ok :: "u32 \<Rightarrow> aux_sched \<Rightarrow> bool" where
  "sched_ok t xs \<longleftrightarrow>
     length xs \<le> MAX_AUX_EVENTS \<and> (\<forall>e \<in> set xs. ev_ok t e) \<and> sorted (map (ev_start t) xs)"

text \<open>\<open>e\<close> is listened for whenever \<open>x\<close> would be.\<close>

definition covers :: "u32 \<Rightarrow> aux_info \<Rightarrow> aux_info \<Rightarrow> bool" where
  "covers t e x \<longleftrightarrow> ae_chan e = ae_chan x \<and> ae_phy e = ae_phy x \<and>
     ev_start t e \<le> ev_start t x \<and> ev_end t x \<le> ev_end t e"

lemma ev_start_le_end: "ev_start t e \<le> ev_end t e"
  by (simp add: ev_start_def ev_end_def)

lemma ev_ok_start: "ev_ok t e \<Longrightarrow> since t (ae_time e) < 0x80000000"
  using ev_start_le_end [of t e] by (simp add: ev_ok_def ev_start_def)

lemma since_end: "ev_ok t e \<Longrightarrow> since t (ae_time e + ae_duration e) = ev_end t e"
  by (simp add: ev_ok_def ev_end_def since_add)

lemma covers_refl: "covers t e e"
  by (simp add: covers_def)

lemma cmp_start: "ev_ok t a \<Longrightarrow> ev_ok t b \<Longrightarrow> sched_event_cmp_fn a b \<le> 0 \<longleftrightarrow> ev_start t a \<le> ev_start t b"
  by (simp add: sched_event_cmp_fn_def sint_diff_le_iff ev_ok_start ev_start_def)

lemma sched_ok_resort:
  assumes "length xs \<le> MAX_AUX_EVENTS" "\<forall>e \<in> set xs. ev_ok t e"
  shows "sched_ok t (resort_sched xs)"
proof -
  have "sorted (map (ev_start t) (qsort sched_event_cmp_fn xs))"
    using assms(2) by (intro sorted_qsort) (simp add: cmp_start)
  then show ?thesis
    using assms by (simp add: sched_ok_def resort_sched_def)
qed

lemma set_resort [simp]: "set (resort_sched xs) = set xs"
  by (simp add: resort_sched_def)

lemma offset_less:
  assumes "since t z \<le> since t x" "since t z \<le> since t y"
  shows "x - z < y - z \<longleftrightarrow> since t x < since t y"
  using assms unat_diff_since [of x z t] unat_diff_since [of y z t] by (auto simp: word_less_nat_alt)

text \<open>The offset arithmetic computes the overlap of the two intervals.\<close>

lemma overlap_check_cases:
  assumes "ev_ok t e" "ev_ok t b"
  shows "overlap_check e b =
    (if ev_start t b < ev_start t e
     then (if ev_end t b < ev_start t e then Disjoint
           else if ev_end t b < ev_end t e then Stretch_start (ae_time e - ae_time b)
           else Replace)
     else if ev_start t b < ev_end t e
     then (if ev_end t b < ev_end t e then Covered
           else Stretch_end (ae_time b + ae_duration b - (ae_time e + ae_duration e)))
     else Disjoint)"
proof -
  note ends = since_end [OF assms(1)] since_end [OF assms(2)]
  note le = ev_start_le_end [of t e] ev_start_le_end [of t b]
  have off: "(ae_time b - ae_time e \<ge> 0x80000000) = (ev_start t b < ev_start t e)"
    using assms by (simp add: before_iff ev_ok_start ev_start_def)
  let ?o = "if ev_start t b < ev_start t e then ae_time b else ae_time e"
  have o: "since t ?o \<le> since t x"
    if "x \<in> {ae_time e, ae_time b, ae_time e + ae_duration e, ae_time b + ae_duration b}" for x
    using that ends le by (auto simp: ev_start_def)
  have starts: "ae_time b - ?o < ae_time e - ?o \<longleftrightarrow> ev_start t b < ev_start t e"
    using offset_less [OF o o] by (simp add: ev_start_def)
  have gap: "ae_time b + ae_duration b - ?o < ae_time e - ?o \<longleftrightarrow> ev_end t b < ev_start t e"
    using offset_less [OF o o] ends by (simp add: ev_start_def)
  have e_e: "ae_time b + ae_duration b - ?o < ae_time e + ae_duration e - ?o \<longleftrightarrow> ev_end t b < ev_end t e"
    using offset_less [OF o o] ends by simp
  have s_e: "ae_time b - ?o < ae_time e + ae_duration e - ?o \<longleftrightarrow> ev_start t b < ev_end t e"
    using offset_less [OF o o] ends by (simp add: ev_start_def)
  have d: "x - ?o - (y - ?o) = x - y" for x y
    by simp
  show ?thesis
    unfolding overlap_check_def Let_def off starts gap e_e s_e d ..
qed

section \<open>Insertion\<close>

text \<open>What an insertion promises: order and bounds kept, the event covered, nothing lost.\<close>

definition insert_spec :: "u32 \<Rightarrow> aux_info \<Rightarrow> aux_sched \<Rightarrow> bool \<times> aux_sched \<Rightarrow> bool" where
  "insert_spec t event xs r = (case r of (done, ys) \<Rightarrow>
     sched_ok t ys \<and> (\<forall>x \<in> set xs. \<exists>e \<in> set ys. covers t e x) \<and>
     (if done then \<exists>e \<in> set ys. covers t e event else ys = xs))"

lemma self_covered: "set xs \<subseteq> set ys \<Longrightarrow> \<forall>x \<in> set xs. \<exists>e \<in> set ys. covers t e x"
  using covers_refl by blast

lemma insert_spec_refused: "sched_ok t xs \<Longrightarrow> insert_spec t event xs (False, xs)"
  using self_covered [of xs xs] by (simp add: insert_spec_def)

lemma coverage_update:
  assumes "i < length xs" "covers t e' (xs ! i)"
  shows "\<forall>x \<in> set xs. \<exists>e \<in> set (xs[i := e']). covers t e x"
proof
  fix x assume "x \<in> set xs"
  then obtain j where j: "j < length xs" "x = xs ! j"
    by (auto simp: in_set_conv_nth)
  show "\<exists>e \<in> set (xs[i := e']). covers t e x"
  proof (cases "j = i")
    case True
    then show ?thesis
      using assms j set_update_memI [OF assms(1)] by blast
  next
    case False
    then have "xs[i := e'] ! j = x"
      using j by simp
    then show ?thesis
      using j covers_refl by (metis length_list_update nth_mem)
  qed
qed

lemma insert_spec_update:
  assumes "sched_ok t xs" "i < length xs" "ev_ok t e'" "covers t e' (xs ! i)" "covers t e' event"
  shows "insert_spec t event xs (True, resort_sched (xs[i := e']))"
    and "ev_start t e' = ev_start t (xs ! i) \<Longrightarrow> insert_spec t event xs (True, xs[i := e'])"
proof -
  have all: "\<forall>e \<in> set (xs[i := e']). ev_ok t e"
    using assms by (auto simp: sched_ok_def dest!: set_update_subset_insert [THEN subsetD])
  have mem: "e' \<in> set (xs[i := e'])"
    using assms(2) by (rule set_update_memI)
  have len: "length (xs[i := e']) \<le> MAX_AUX_EVENTS"
    using assms(1) by (simp add: sched_ok_def)
  show "insert_spec t event xs (True, resort_sched (xs[i := e']))"
    using sched_ok_resort [OF len all] coverage_update [OF assms(2,4)] mem assms(5)
    by (auto simp: insert_spec_def)
  assume "ev_start t e' = ev_start t (xs ! i)"
  then have "map (ev_start t) (xs[i := e']) = map (ev_start t) xs"
    using assms(2) by (metis list_update_id map_update nth_map)
  then show "insert_spec t event xs (True, xs[i := e'])"
    using all coverage_update [OF assms(2,4)] mem assms(1,5)
    by (auto simp: insert_spec_def sched_ok_def)
qed

lemma insert_spec_insert:
  assumes "sched_ok t xs" "ev_ok t event" "length xs < MAX_AUX_EVENTS"
    and "\<forall>j < i. ev_start t (xs ! j) < ev_start t event" "i \<le> length xs"
    and "i < length xs \<Longrightarrow> ev_start t event \<le> ev_start t (xs ! i)"
  shows "insert_spec t event xs (True, take i xs @ event # drop i xs)"
proof -
  have srt: "sorted (map (ev_start t) xs)"
    using assms(1) by (simp add: sched_ok_def)
  have "ev_start t x \<le> ev_start t event" if "x \<in> set (take i xs)" for x
    using that assms(4,5) by (auto simp: in_set_conv_nth less_imp_le)
  moreover have "ev_start t event \<le> ev_start t x" if x: "x \<in> set (drop i xs)" for x
  proof -
    obtain k where k: "i + k < length xs" "x = xs ! (i + k)"
    proof -
      obtain k where "k < length (drop i xs)" "x = drop i xs ! k"
        using x by (auto simp: in_set_conv_nth)
      then show ?thesis
        using that [of k] by simp
    qed
    then have "ev_start t (xs ! i) \<le> ev_start t (xs ! (i + k))"
      using sorted_nth_mono [OF srt, of i "i + k"] by simp
    then show ?thesis
      using assms(6) k by simp
  qed
  moreover have "sorted (map (ev_start t) (take i xs))" "sorted (map (ev_start t) (drop i xs))"
    using srt by (simp_all add: sorted_wrt_take sorted_wrt_drop flip: take_map drop_map)
  moreover have "ev_start t x \<le> ev_start t y" if "x \<in> set (take i xs)" "y \<in> set (drop i xs)" for x y
    using calculation that by (meson le_trans)
  ultimately have "sorted (map (ev_start t) (take i xs @ event # drop i xs))"
    by (auto simp: sorted_append)
  moreover have S: "set (take i xs @ event # drop i xs) = insert event (set xs)"
    using set_append [of "take i xs" "drop i xs"] by auto
  moreover have "\<forall>x \<in> set xs. \<exists>e \<in> set (take i xs @ event # drop i xs). covers t e x"
    by (rule self_covered) (simp only: S, blast)
  ultimately show ?thesis
    using assms(1-3) covers_refl [of t event] unfolding insert_spec_def sched_ok_def by auto
qed

lemma unat_add_diff:
  assumes "unat d + (since t x - since t y) < 2 ^ 32" "since t y \<le> since t x"
  shows "unat (d + (x - y)) = unat d + (since t x - since t y)"
proof -
  have "unat (x - y) = since t x - since t y"
    using assms(2) unat_diff_since [of x y t] by simp
  then show ?thesis
    using assms(1) by (simp add: unat_word_ariths)
qed

lemma stretch_start:
  assumes "ev_ok t e" "ev_ok t b" "ev_start t b < ev_start t e"
  defines "e' \<equiv> e\<lparr>ae_duration := ae_duration e + (ae_time e - ae_time b), ae_time := ae_time b\<rparr>"
  shows "ev_start t e' = ev_start t b" "ev_end t e' = ev_end t e"
proof -
  have "unat (ae_duration e + (ae_time e - ae_time b)) = unat (ae_duration e) + (ev_start t e - ev_start t b)"
    using assms(1,3) unat_add_diff [of "ae_duration e" t "ae_time e" "ae_time b"]
    by (simp add: ev_ok_def ev_end_def ev_start_def)
  then show "ev_start t e' = ev_start t b" "ev_end t e' = ev_end t e"
    using assms(3) by (simp_all add: e'_def ev_end_def ev_start_def)
qed

lemma stretch_end:
  assumes "ev_ok t e" "ev_ok t b" "ev_end t e \<le> ev_end t b"
  defines "e' \<equiv> e\<lparr>ae_duration := ae_duration e + (ae_time b + ae_duration b - (ae_time e + ae_duration e))\<rparr>"
  shows "ev_start t e' = ev_start t e" "ev_end t e' = ev_end t b"
proof -
  have "unat (ae_duration e + (ae_time b + ae_duration b - (ae_time e + ae_duration e)))
      = unat (ae_duration e) + (ev_end t b - ev_end t e)"
    using assms(1-3) unat_add_diff [of "ae_duration e" t "ae_time b + ae_duration b" "ae_time e + ae_duration e"]
    by (simp add: since_end ev_ok_def) (simp add: ev_end_def)
  then show "ev_start t e' = ev_start t e" "ev_end t e' = ev_end t b"
    using assms(3) by (simp_all add: e'_def ev_end_def ev_start_def)
qed

lemma insert_spec_covered:
  "sched_ok t xs \<Longrightarrow> i < length xs \<Longrightarrow> covers t (xs ! i) event \<Longrightarrow> insert_spec t event xs (True, xs)"
  using self_covered [of xs xs] by (auto simp: insert_spec_def)

lemma insert_event_merge:
  assumes "sched_ok t xs" "ev_ok t event" "i < length xs"
    and same: "ae_chan (xs ! i) = ae_chan event" "ae_phy (xs ! i) = ae_phy event"
    and ov: "overlap_check (xs ! i) event \<noteq> Disjoint"
  shows "insert_spec t event xs (insert_event_from i event xs m)"
proof -
  let ?e = "xs ! i"
  have e: "ev_ok t ?e"
    using assms(1,3) by (simp add: sched_ok_def)
  note cases = overlap_check_cases [OF e assms(2)] and less = ev_start_le_end [of t ?e] ev_start_le_end [of t event]
  note unfold = insert_event_from.simps [of i event xs m] and upd = insert_spec_update [OF assms(1,3)]
  show ?thesis
  proof (cases "overlap_check ?e event")
    case (Stretch_start d)
    then have c: "ev_start t event < ev_start t ?e" "ev_end t event < ev_end t ?e" "d = ae_time ?e - ae_time event"
      by (auto simp: cases split: if_splits)
    show ?thesis
      using assms(1-3) e same Stretch_start c stretch_start [OF e assms(2) c(1)]
      by (auto simp: unfold Let_def covers_def ev_ok_def intro!: upd(1))
  next
    case Replace
    then have c: "ev_start t event < ev_start t ?e" "ev_end t ?e \<le> ev_end t event"
      by (auto simp: cases split: if_splits)
    show ?thesis
      using assms(2,3) same Replace c covers_refl by (auto simp: unfold Let_def covers_def intro!: upd(1))
  next
    case Covered
    then have c: "ev_start t ?e \<le> ev_start t event" "ev_end t event < ev_end t ?e"
      by (auto simp: cases split: if_splits)
    then have "covers t ?e event"
      using same by (simp add: covers_def)
    then show ?thesis
      using assms(1,3) same Covered by (simp add: unfold Let_def insert_spec_covered)
  next
    case (Stretch_end d)
    then have c: "ev_start t ?e \<le> ev_start t event" "ev_end t ?e \<le> ev_end t event"
      "d = ae_time event + ae_duration event - (ae_time ?e + ae_duration ?e)"
      by (auto simp: cases split: if_splits)
    show ?thesis
      using assms(2,3) same Stretch_end c stretch_end [OF e assms(2) c(2)]
      by (auto simp: unfold Let_def covers_def ev_ok_def intro!: upd(2))
  qed (use ov in simp)
qed

lemma insert_event_from_spec:
  assumes "sched_ok t xs" "ev_ok t event" "i \<le> length xs"
    and "\<forall>j < i. ev_start t (xs ! j) < ev_start t event"
  shows "insert_spec t event xs (insert_event_from i event xs MAX_AUX_EVENTS)"
  using assms
proof (induction "length xs - i" arbitrary: i)
  case 0
  then show ?case
    using insert_spec_insert [of t xs event i] insert_spec_refused [of t xs event]
    by (auto simp: insert_event_from.simps [of i] sched_ok_def)
next
  case (Suc n)
  let ?e = "xs ! i"
  have i: "i < length xs" and e: "ev_ok t ?e"
    using Suc.hyps(2) Suc.prems(1) by (auto simp: sched_ok_def)
  show ?case
  proof (cases "ae_chan ?e = ae_chan event \<and> ae_phy ?e = ae_phy event \<and> overlap_check ?e event \<noteq> Disjoint")
    case True
    then show ?thesis
      using insert_event_merge [OF Suc.prems(1,2) i] by simp
  next
    case False
    have before: "(ae_time ?e - ae_time event < 0x80000000) = (ev_start t event \<le> ev_start t ?e)"
      using e Suc.prems(2) by (simp add: not_before_iff ev_ok_start ev_start_def)
    have step: "insert_event_from i event xs MAX_AUX_EVENTS =
        (if length xs = MAX_AUX_EVENTS then (False, xs)
         else if ev_start t event \<le> ev_start t ?e then (True, take i xs @ event # drop i xs)
         else insert_event_from (Suc i) event xs MAX_AUX_EVENTS)"
      using i False by (auto simp: insert_event_from.simps [of i] Let_def before)
    show ?thesis
    proof (cases "length xs = MAX_AUX_EVENTS")
      case True
      then show ?thesis
        using Suc.prems(1) by (simp add: step insert_spec_refused)
    next
      case False
      then have "length xs < MAX_AUX_EVENTS"
        using Suc.prems(1) by (simp add: sched_ok_def)
      then show ?thesis
        using False Suc i insert_spec_insert [of t xs event i]
        by (auto simp: step less_Suc_eq not_le)
    qed
  qed
qed

text \<open>
  An insertion keeps the schedule sorted by start time and within its eight slots, and
  no previously scheduled listening interval is lost; when it reports success some
  scheduled event on the same channel and PHY covers the whole new event, and when it
  reports failure the schedule is unchanged.
\<close>

theorem AuxAdvScheduler_insert_covers:
  assumes "sched_ok t xs" and "since t radio_time + unat duration < 0x80000000"
    and "AuxAdvScheduler_insert chan phy radio_time duration xs = (ok, ys)"
  shows "sched_ok t ys \<and>
    (\<forall>x \<in> set xs. \<exists>e \<in> set ys. covers t e x) \<and>
    (if ok then \<exists>e \<in> set ys. covers t e
          \<lparr>ae_chan = chan, ae_phy = phy, ae_time = radio_time, ae_duration = duration\<rparr>
     else ys = xs)"
proof -
  let ?ev = "\<lparr>ae_chan = chan, ae_phy = phy, ae_time = radio_time, ae_duration = duration\<rparr>"
  have "ev_ok t ?ev"
    using assms(2) by (simp add: ev_ok_def ev_end_def)
  then have "insert_spec t ?ev xs (ok, ys)"
    using insert_event_from_spec [of t xs ?ev 0] assms(1,3)
    by (simp add: AuxAdvScheduler_insert_def insert_event_sorted_def)
  then show ?thesis
    by (simp add: insert_spec_def)
qed

section \<open>Cleaning up\<close>

lemma sched_clear_from_filter:
  "sched_clear_from i cur xs = take i xs @ filter (\<lambda>e. \<not> event_past cur e) (drop i xs)"
proof (induction i cur xs rule: sched_clear_from.induct)
  case (1 i cur xs)
  show ?case
  proof (cases "i < length xs")
    case True
    then have "drop i xs = xs ! i # drop (Suc i) xs"
      by (rule Cons_nth_drop_Suc [symmetric])
    then show ?thesis
      using 1 True
      by (subst sched_clear_from.simps) (auto simp: sched_list_pop_def take_Suc_conv_app_nth)
  next
    case False
    then show ?thesis
      by (subst sched_clear_from.simps) simp
  qed
qed

lemma sched_clear_past_filter: "sched_clear_past cur xs = filter (\<lambda>e. \<not> event_past cur e) xs"
  by (simp add: sched_clear_past_def sched_clear_from_filter)

lemma sched_ok_clear: "sched_ok t xs \<Longrightarrow> sched_ok t (sched_clear_past cur xs)"
  by (auto simp: sched_ok_def sched_clear_past_filter intro: order_trans [OF length_filter_le] sorted_filter)

lemma event_past_iff:
  "ev_ok t e \<Longrightarrow> since t cur < 0x80000000 \<Longrightarrow> event_past cur e \<longleftrightarrow> ev_end t e < since t cur"
  using before_iff [of t "ae_time e + ae_duration e" cur]
  by (simp add: event_past_def since_end ev_ok_def)

section \<open>The next thing to listen for\<close>

lemma last_started_take:
  "last_started now best i es =
     (case length (takeWhile (\<lambda>e. sint (ae_time e - now) \<le> 0) es) of 0 \<Rightarrow> best | Suc k \<Rightarrow> i + k)"
  by (induction now best i es rule: last_started.induct) (auto split: nat.splits)

lemma AuxAdvScheduler_insert_covers_witness:
  "\<exists>e\<in>set (snd (AuxAdvScheduler_insert 5 PHY_1M 1000 400 [])). covers 0 e
     \<lparr>ae_chan = 5, ae_phy = PHY_1M, ae_time = 1000, ae_duration = 400\<rparr>"
proof -
  have r: "AuxAdvScheduler_insert 5 PHY_1M 1000 400 [] =
      (True, [\<lparr>ae_chan = 5, ae_phy = PHY_1M, ae_time = 1000, ae_duration = 400\<rparr>])"
    by (simp add: AuxAdvScheduler_insert_def insert_event_sorted_def insert_event_from.simps MAX_AUX_EVENTS_def)
  show ?thesis
    using AuxAdvScheduler_insert_covers [OF _ _ r, of 0] by (simp add: r sched_ok_def since_def)
qed

text \<open>
  The contract of the scheduler's answer: \<open>live\<close> is the schedule without past events, the
  chosen event is the one started last, and until the returned time nothing else starts.
\<close>

definition next_spec :: "u32 \<Rightarrow> nat \<Rightarrow> aux_sched \<Rightarrow> u32 \<Rightarrow> u8 \<Rightarrow> phy_mode \<Rightarrow> bool" where
  "next_spec t now live etime chan phy \<longleftrightarrow>
     now \<le> since t etime \<and>
     (\<forall>x \<in> set live. \<not> (now < ev_start t x \<and> ev_start t x < since t etime)) \<and>
     (if \<exists>e \<in> set live. ev_start t e \<le> now
      then \<exists>e \<in> set live. ev_start t e \<le> now \<and> since t etime \<le> ev_end t e \<and>
             chan = ae_chan e \<and> phy = ae_phy e \<and>
             (\<forall>x \<in> set live. ev_start t x \<le> now \<longrightarrow> ev_start t x \<le> ev_start t e)
      else chan = 0xFF \<and> phy = PHY_1M)"

lemma next_spec_busy:
  assumes "sched_ok t ys" "\<forall>e \<in> set ys. now \<le> ev_end t e" "k < length ys"
    and started: "\<forall>j \<le> k. ev_start t (ys ! j) \<le> now"
    and pending: "k + 1 < length ys \<Longrightarrow> now < ev_start t (ys ! (k + 1))"
    and etime: "since t etime = (if k + 1 < length ys \<and> ev_start t (ys ! (k + 1)) < ev_end t (ys ! k)
      then ev_start t (ys ! (k + 1)) else ev_end t (ys ! k))"
  shows "next_spec t now ys etime (ae_chan (ys ! k)) (ae_phy (ys ! k))"
proof -
  have srt: "sorted (map (ev_start t) ys)"
    using assms(1) by (simp add: sched_ok_def)
  have mono: "ev_start t (ys ! i) \<le> ev_start t (ys ! j)" if "i \<le> j" "j < length ys" for i j
    using sorted_nth_mono [OF srt, of i j] that by simp
  have here: "ys ! k \<in> set ys" "ev_start t (ys ! k) \<le> now"
    using assms(3) started by simp_all
  have latest: "ev_start t x \<le> ev_start t (ys ! k)" if x: "x \<in> set ys" and le: "ev_start t x \<le> now" for x
  proof -
    obtain j where j: "j < length ys" "x = ys ! j"
      using x by (auto simp: in_set_conv_nth)
    then have "j \<le> k"
      using mono [of "k + 1" j] pending le by (cases "j \<le> k") auto
    then show ?thesis
      using mono [of j k] assms(3) j by simp
  qed
  have quiet: "\<not> (now < ev_start t x \<and> ev_start t x < since t etime)" if x: "x \<in> set ys" for x
  proof -
    obtain j where j: "j < length ys" "x = ys ! j"
      using x by (auto simp: in_set_conv_nth)
    show ?thesis
    proof (cases "j \<le> k")
      case True
      then show ?thesis
        using started j by (simp add: not_less)
    next
      case False
      then show ?thesis
        using mono [of "k + 1" j] j etime by (auto split: if_splits)
    qed
  qed
  have "now \<le> since t etime" "since t etime \<le> ev_end t (ys ! k)"
    using etime pending assms(2) here(1) by (auto split: if_splits)
  then show ?thesis
    using here latest quiet by (auto simp: next_spec_def)
qed

lemma last_started_spec:
  assumes "ys \<noteq> []" "\<forall>e \<in> set ys. ev_ok t e" "since t now < 0x80000000" "ev_start t (hd ys) \<le> since t now"
  defines "k \<equiv> last_started now 0 1 (tl ys)"
  shows "k < length ys" "\<forall>j \<le> k. ev_start t (ys ! j) \<le> since t now"
    "k + 1 < length ys \<Longrightarrow> since t now < ev_start t (ys ! (k + 1))"
proof -
  obtain y zs where ys: "ys = y # zs"
    using assms(1) by (cases ys) auto
  let ?P = "\<lambda>e. sint (ae_time e - now) \<le> 0"
  have P: "?P e = (ev_start t e \<le> since t now)" if "e \<in> set ys" for e
    using that assms(2,3) by (simp add: sint_diff_le_iff ev_ok_start ev_start_def)
  have k: "k = length (takeWhile ?P zs)"
    by (simp add: k_def ys last_started_take split: nat.split)
  have le: "k \<le> length zs"
    by (simp add: k length_takeWhile_le)
  then show "k < length ys"
    by (simp add: ys)
  show "\<forall>j \<le> k. ev_start t (ys ! j) \<le> since t now"
  proof (intro allI impI)
    fix j assume "j \<le> k"
    show "ev_start t (ys ! j) \<le> since t now"
    proof (cases j)
      case 0
      then show ?thesis using assms(4) by (simp add: ys)
    next
      case (Suc i)
      then have "i < length (takeWhile ?P zs)" "i < length zs"
        using \<open>j \<le> k\<close> le k by simp_all
      then have "?P (zs ! i)" "zs ! i \<in> set ys"
        by (metis nth_mem set_takeWhileD takeWhile_nth, simp add: ys)
      then show ?thesis
        using P Suc by (simp add: ys)
    qed
  qed
  assume "k + 1 < length ys"
  then have "k < length zs" by (simp add: ys)
  then have "\<not> ?P (zs ! k)" "zs ! k \<in> set ys"
    using nth_length_takeWhile [of ?P zs] k by (auto simp: ys)
  then show "since t now < ev_start t (ys ! (k + 1))"
    using P by (simp add: ys)
qed

text \<open>
  For a schedule and a current time within half the clock's range, the scheduler drops
  exactly the past events and then answers with the event that started last, or with
  channel 255 and PHY 1M when none has started; the returned time is not in the past, not
  after the end of the chosen event, and no scheduled event starts between now and then.
\<close>

theorem AuxAdvScheduler_next_answers:
  assumes "sched_ok t xs" and "since t now < 0x80000000"
    and "AuxAdvScheduler_next now xs = (etime, chan, phy, ys)"
  shows "ys = filter (\<lambda>e. since t now \<le> ev_end t e) xs \<and> sched_ok t ys \<and>
         next_spec t (since t now) ys etime chan phy"
proof -
  let ?ys = "sched_clear_past now xs" and ?now = "since t now"
  have okx: "\<forall>e \<in> set xs. ev_ok t e"
    using assms(1) by (simp add: sched_ok_def)
  then have live: "?ys = filter (\<lambda>e. ?now \<le> ev_end t e) xs"
    unfolding sched_clear_past_filter by (intro filter_cong) (auto simp: event_past_iff assms(2))
  have ok: "sched_ok t ?ys" and oky: "\<forall>e \<in> set ?ys. ev_ok t e"
    using assms(1) sched_ok_clear by (auto simp: sched_ok_def)
  have srt: "sorted (map (ev_start t) ?ys)"
    using ok by (simp add: sched_ok_def)
  have head: "(sint ((if ?ys \<noteq> [] then ae_time (?ys ! 0) - now else 0x7FFFFFFF)) \<le> 0)
      = (?ys \<noteq> [] \<and> ev_start t (hd ?ys) \<le> ?now)"
    using oky assms(2) by (auto simp: hd_conv_nth sint_diff_le_iff ev_ok_start ev_start_def)
  have ys: "ys = ?ys"
    using assms(3) by (auto simp: AuxAdvScheduler_next_def Let_def split: if_splits)
  have "next_spec t ?now ?ys etime chan phy"
  proof (cases "?ys \<noteq> [] \<and> ev_start t (hd ?ys) \<le> ?now")
    case True
    define k where "k = last_started now 0 1 (tl ?ys)"
    note k = last_started_spec [OF conjunct1 [OF True] oky assms(2) conjunct2 [OF True], folded k_def]
    have ends: "\<forall>e \<in> set ?ys. ?now \<le> ev_end t e"
      by (simp add: live)
    let ?e = "?ys ! k" and ?n = "?ys ! (k + 1)"
    have e: "ev_ok t ?e"
      using oky k(1) by simp
    have "(sint (ae_time ?n - (ae_time ?e + ae_duration ?e)) < 0) = (ev_start t ?n < ev_end t ?e)"
      if "k + 1 < length ?ys"
      using that oky e sint_diff_neg_iff [of t "ae_time ?n" "ae_time ?e + ae_duration ?e"]
      by (simp add: since_end ev_ok_start) (simp add: ev_ok_def ev_start_def)
    then have et: "since t etime = (if k + 1 < length ?ys \<and> ev_start t ?n < ev_end t ?e then ev_start t ?n else ev_end t ?e)"
      and cp: "chan = ae_chan ?e" "phy = ae_phy ?e"
      using assms(3) True head e unfolding k_def
      by (auto simp: AuxAdvScheduler_next_def Let_def since_end ev_start_def split: if_splits)
    show ?thesis
      using next_spec_busy [OF ok ends k et] by (simp add: cp)
  next
    case False
    then have none: "\<forall>e \<in> set ?ys. ?now < ev_start t e"
      using srt by (cases ?ys) auto
    have ans: "chan = 0xFF" "phy = PHY_1M" "etime = (if ?ys \<noteq> [] then ae_time (?ys ! 0) else now + 0x7FFFFFFF)"
      using assms(3) False head by (auto simp: AuxAdvScheduler_next_def Let_def split: if_splits)
    show ?thesis
    proof (cases ?ys)
      case Nil
      then show ?thesis
        using ans assms(2) since_add [of t now "0x7FFFFFFF"] by (simp add: next_spec_def)
    next
      case (Cons y zs)
      then have "etime = ae_time y" "\<forall>e \<in> set ?ys. ev_start t y \<le> ev_start t e" "?now < ev_start t y"
        using ans srt none by auto
      then show ?thesis
        using ans none by (auto simp: next_spec_def ev_start_def)
    qed
  qed
  then show ?thesis
    using live ok by (simp add: ys)
qed

lemma AuxAdvScheduler_next_answers_witness:
  "AuxAdvScheduler_next 0 [] = (0x7FFFFFFF, 0xFF, PHY_1M, []) \<and> next_spec 0 0 [] 0x7FFFFFFF 0xFF PHY_1M"
proof -
  have r: "AuxAdvScheduler_next 0 [] = (0x7FFFFFFF, 0xFF, PHY_1M, [])"
    by (simp add: AuxAdvScheduler_next_def Let_def sched_clear_past_def sched_clear_from.simps)
  show ?thesis
    using AuxAdvScheduler_next_answers [OF _ _ r, of 0] by (simp add: r sched_ok_def since_def)
qed

end
