(* ===== verification/Adv_Cache.thy ===== *)
theory Adv_Cache
  imports Prelude
begin

text \<open>
  adv_header_cache.c: the header bytes of recently seen connectable advertisements, kept so
  that the ChSel bit of an advertiser can be looked up when a connection request arrives.
  Sixteen slots are written round robin and searched backwards from the newest.  The
  lemmas give the cache's contents as a list, newest first, and show that the search visits
  fifteen of the sixteen slots.
\<close>

unbundle bit_operations_syntax

section \<open>State and operations\<close>

record adv_cache =
  macs :: "u8 list list"
  headers :: "u8 list"
  cache_pos :: nat

definition adv_cache_init :: adv_cache where
  "adv_cache_init = \<lparr>macs = replicate 16 (replicate 6 0), headers = replicate 16 0, cache_pos = 0\<rparr>"

definition adv_cache_store :: "u8 list \<Rightarrow> u8 \<Rightarrow> adv_cache \<Rightarrow> adv_cache" where
  "adv_cache_store mac hdr c =
     c\<lparr>macs := (macs c)[cache_pos c := mac], headers := (headers c)[cache_pos c := hdr],
       cache_pos := (cache_pos c + 1) mod 16\<rparr>"

text \<open>The search loop; \<open>None\<close> would be a search that does not end.\<close>

partial_function (option) adv_cache_search :: "u8 list \<Rightarrow> adv_cache \<Rightarrow> nat \<Rightarrow> u8 option" where
  "adv_cache_search mac c pos =
     (if mac = macs c ! pos then Some (headers c ! pos)
      else let pos = (pos + 15) mod 16
           in if pos \<noteq> cache_pos c then adv_cache_search mac c pos else Some 0xFF)"

definition adv_cache_fetch :: "u8 list \<Rightarrow> adv_cache \<Rightarrow> u8 option" where
  "adv_cache_fetch mac c = adv_cache_search mac c ((cache_pos c + 15) mod 16)"

section \<open>The cache as a list, newest first\<close>

definition adv_cache_ok :: "adv_cache \<Rightarrow> bool" where
  "adv_cache_ok c \<longleftrightarrow> length (macs c) = 16 \<and> length (headers c) = 16 \<and> cache_pos c < 16"

definition cache_slot :: "adv_cache \<Rightarrow> nat \<Rightarrow> u8 list \<times> u8" where
  "cache_slot c k = (let i = (cache_pos c + 15 - k) mod 16 in (macs c ! i, headers c ! i))"

definition recent :: "adv_cache \<Rightarrow> (u8 list \<times> u8) list" where
  "recent c = map (cache_slot c) [0..<15]"

lemma adv_cache_init_ok: "adv_cache_ok adv_cache_init"
  by (simp add: adv_cache_ok_def adv_cache_init_def)

lemma adv_cache_store_ok: "adv_cache_ok c \<Longrightarrow> adv_cache_ok (adv_cache_store mac hdr c)"
  by (simp add: adv_cache_ok_def adv_cache_store_def)

lemma cache_slot_store_0:
  assumes "adv_cache_ok c"
  shows "cache_slot (adv_cache_store mac hdr c) 0 = (mac, hdr)"
proof -
  have "((cache_pos c + 1) mod 16 + 15 - 0) mod 16 = cache_pos c"
    using assms by (simp add: adv_cache_ok_def mod_simps)
  then show ?thesis
    using assms by (simp add: cache_slot_def adv_cache_store_def adv_cache_ok_def Let_def)
qed

lemma cache_index:
  "p < 16 \<Longrightarrow> k < 16 \<Longrightarrow> (p + 15 - k) mod 16 = (if k < p then p - Suc k else p + 15 - k)" for p k :: nat
  by (auto simp: mod_if)

lemma cache_slot_store_Suc:
  assumes "adv_cache_ok c" "k < 15"
  shows "cache_slot (adv_cache_store mac hdr c) (Suc k) = cache_slot c k"
proof -
  have p: "cache_pos c < 16"
    using assms(1) by (simp add: adv_cache_ok_def)
  have "(cache_pos c + 1) mod 16 < 16" by simp
  then have "((cache_pos c + 1) mod 16 + 15 - Suc k) mod 16 = (cache_pos c + 15 - k) mod 16"
    using p assms(2) by (subst (1 2) cache_index) (auto simp: mod_if split: if_splits)
  moreover have "(cache_pos c + 15 - k) mod 16 \<noteq> cache_pos c"
    using p assms(2) by (subst cache_index) auto
  ultimately show ?thesis
    by (simp add: cache_slot_def adv_cache_store_def Let_def)
qed

lemma recent_store:
  assumes "adv_cache_ok c"
  shows "recent (adv_cache_store mac hdr c) = (mac, hdr) # take 14 (recent c)"
proof -
  have "[0..<15] = 0 # map Suc [0..<14]"
    by (simp add: upt_conv_Cons map_Suc_upt)
  moreover have "take 14 (recent c) = map (cache_slot c) [0..<14]"
    by (simp add: recent_def take_map)
  ultimately show ?thesis
    using assms by (simp add: recent_def cache_slot_store_0 cache_slot_store_Suc)
qed

section \<open>Fetching\<close>

lemma adv_cache_search_slots:
  assumes "adv_cache_ok c" "k < 15"
  shows "adv_cache_search mac c ((cache_pos c + 15 - k) mod 16) =
    Some (case map_of (map (cache_slot c) [k..<15]) mac of Some h \<Rightarrow> h | None \<Rightarrow> 0xFF)"
  using assms(2)
proof (induction "14 - k" arbitrary: k)
  case 0
  then have k: "k = 14" by simp
  have "((cache_pos c + 1) mod 16 + 15) mod 16 = cache_pos c"
    using assms(1) by (simp add: adv_cache_ok_def mod_simps)
  then show ?case
    by (subst adv_cache_search.simps) (simp add: k cache_slot_def Let_def)
next
  case (Suc n)
  let ?i = "(cache_pos c + 15 - k) mod 16"
  have p: "cache_pos c < 16"
    using assms(1) by (simp add: adv_cache_ok_def)
  have next_i: "(?i + 15) mod 16 = (cache_pos c + 15 - Suc k) mod 16"
    using p Suc.hyps(2) Suc.prems by (simp add: cache_index) (auto simp: mod_if)
  have "(cache_pos c + 15 - Suc k) mod 16 \<noteq> cache_pos c"
    using p Suc.hyps(2) Suc.prems by (subst cache_index) auto
  moreover have "[k..<15] = k # [Suc k..<15]"
    using Suc.prems by (simp add: upt_conv_Cons)
  moreover have "cache_slot c k = (macs c ! ?i, headers c ! ?i)"
    by (simp add: cache_slot_def Let_def)
  ultimately show ?case
    using Suc.hyps(1) [of "Suc k"] Suc.hyps(2)
    by (subst adv_cache_search.simps) (simp add: next_i Let_def)
qed

lemma adv_cache_fetch_recent:
  "adv_cache_ok c \<Longrightarrow>
     adv_cache_fetch mac c = Some (case map_of (recent c) mac of Some h \<Rightarrow> h | None \<Rightarrow> 0xFF)"
  using adv_cache_search_slots [of c 0 mac] by (simp add: adv_cache_fetch_def recent_def)

text \<open>The state after a run of stores, oldest first.\<close>

definition store_all :: "(u8 list \<times> u8) list \<Rightarrow> adv_cache \<Rightarrow> adv_cache" where
  "store_all xs c = fold (\<lambda>(mac, hdr). adv_cache_store mac hdr) xs c"

lemma recent_store_all:
  "adv_cache_ok c \<Longrightarrow>
     adv_cache_ok (store_all xs c) \<and> recent (store_all xs c) = take 15 (rev xs @ recent c)"
proof (induction xs arbitrary: c)
  case Nil
  then show ?case by (simp add: store_all_def recent_def)
next
  case (Cons x xs)
  obtain mac hdr where x: "x = (mac, hdr)" by (cases x)
  have "store_all (x # xs) c = store_all xs (adv_cache_store mac hdr c)"
    by (simp add: store_all_def x)
  then show ?case
    using Cons.IH [OF adv_cache_store_ok [OF Cons.prems, of mac hdr]] Cons.prems
    by (simp add: recent_store x take_Cons' min_def)
qed

section \<open>Properties\<close>

lemma map_of_replicate:
  "map_of (replicate n (k, v)) x = (if x = k \<and> n \<noteq> 0 then Some v else None)"
  by (induction n) auto

lemma recent_init: "recent adv_cache_init = replicate 15 (replicate 6 0, 0)"
  by (simp add: recent_def cache_slot_def adv_cache_init_def Let_def map_replicate_const
        list_eq_iff_nth_eq)

lemma map_of_append_None: "map_of xs k = None \<Longrightarrow> map_of (xs @ ys) k = map_of ys k"
  by (simp add: map_of_append map_add_def)

lemma map_of_append_Some: "map_of xs k = Some v \<Longrightarrow> map_of (xs @ ys) k = Some v"
  by (simp add: map_of_append map_add_def)

lemma fetch_store_all:
  assumes "mac \<noteq> replicate 6 0"
  shows "adv_cache_fetch mac (store_all xs adv_cache_init) =
    Some (case map_of (take 15 (rev xs)) mac of Some h \<Rightarrow> h | None \<Rightarrow> 0xFF)"
proof -
  let ?blank = "replicate (15 - length xs) (replicate 6 0 :: u8 list, 0 :: u8)"
  have ok: "adv_cache_ok (store_all xs adv_cache_init)"
    and r: "recent (store_all xs adv_cache_init) = take 15 (rev xs) @ ?blank"
    using recent_store_all [OF adv_cache_init_ok, of xs] by (simp_all add: recent_init)
  have "map_of (take 15 (rev xs) @ ?blank) mac = map_of (take 15 (rev xs)) mac"
    using assms
    by (cases "map_of (take 15 (rev xs)) mac")
       (simp_all add: map_of_append_None map_of_append_Some map_of_replicate)
  then show ?thesis
    by (simp only: adv_cache_fetch_recent [OF ok] r)
qed

text \<open>
  A lookup made after any sequence of stores always returns, and for an address other
  than all zeroes it returns the header of the latest store of that address among the last
  fifteen stores, and the impossible header 0xFF when none of them stored it.
\<close>

theorem adv_cache_fetch_latest:
  "mac \<noteq> replicate 6 0 \<Longrightarrow>
     adv_cache_fetch mac (store_all xs adv_cache_init) =
     Some (case map_of (take 15 (rev xs)) mac of Some h \<Rightarrow> h | None \<Rightarrow> 0xFF)"
  by (rule fetch_store_all)

lemma zero_mac: "replicate 6 0 = [0, 0, 0, 0, 0, 0 :: u8]"
  by (simp add: numeral_eq_Suc)

lemma adv_cache_fetch_latest_witness:
  "adv_cache_fetch [1, 2, 3, 4, 5, 6]
     (store_all [([1, 2, 3, 4, 5, 6], 0x20), ([9, 9, 9, 9, 9, 9], 0)] adv_cache_init) = Some 0x20"
  using adv_cache_fetch_latest
    [of "[1, 2, 3, 4, 5, 6]" "[([1, 2, 3, 4, 5, 6], 0x20), ([9, 9, 9, 9, 9, 9], 0)]"]
  by (simp add: zero_mac)

text \<open>
  The sixteenth slot is stored but never examined, and a zero address hits a slot that was
  never written.
\<close>

lemma adv_cache_oldest_lost:
  "adv_cache_fetch [1, 0, 0, 0, 0, 0]
     (store_all (([1, 0, 0, 0, 0, 0], 0x20) # replicate 15 ([2, 0, 0, 0, 0, 0], 0)) adv_cache_init)
   = Some 0xFF"
  by (subst fetch_store_all) (simp_all add: numeral_eq_Suc)

lemma adv_cache_zero_hit: "adv_cache_fetch (replicate 6 0) adv_cache_init = Some 0"
  by (simp add: adv_cache_fetch_recent [OF adv_cache_init_ok] recent_init map_of_replicate)

end
