(* ===== verification/Csa.thy ===== *)
theory Csa
  imports Prelude
begin

text \<open>
  The two channel selection algorithms: csa2.c, and \<open>computeMap1\<close> of RadioTask.c.  Both take
  the unmapped channel of an event when the channel map has it and otherwise pick one of the
  used channels; the locale \<open>channel_selection\<close> states that contract, and both algorithms are
  shown to meet it for every map that has at least one channel.
\<close>

unbundle bit_operations_syntax

section \<open>Channel Selection Algorithm #2 (csa2.c)\<close>

record csa2_state =
  csa2_chanMap :: u64
  csa2_numUsedChannels :: u8
  csa2_remapping_table :: "u8 list"
  channelIdentifier :: u16

definition csa2_init :: csa2_state where
  "csa2_init = \<lparr>csa2_chanMap = 0, csa2_numUsedChannels = 0,
     csa2_remapping_table = replicate 37 0, channelIdentifier = 0\<rparr>"

definition R2 :: "u8 \<Rightarrow> u8 list" where
  "R2 n = [n, n + 2 * 64, n + 1 * 64, n + 3 * 64]"

definition R4 :: "u8 \<Rightarrow> u8 list" where
  "R4 n = R2 n @ R2 (n + 2 * 16) @ R2 (n + 1 * 16) @ R2 (n + 3 * 16)"

definition R6 :: "u8 \<Rightarrow> u8 list" where
  "R6 n = R4 n @ R4 (n + 2 * 4) @ R4 (n + 1 * 4) @ R4 (n + 3 * 4)"

definition bitReverseTable :: "u8 list" where
  "bitReverseTable = R6 0 @ R6 2 @ R6 1 @ R6 3"

definition csa2_perm :: "u16 \<Rightarrow> u16" where
  "csa2_perm b =
     (let byte0 = ucast (b AND 0xFF) :: u8; byte1 = ucast (drop_bit 8 b) :: u8
      in ucast (bitReverseTable ! unat byte0) OR push_bit 8 (ucast (bitReverseTable ! unat byte1)))"

definition csa2_mam :: "u16 \<Rightarrow> u16 \<Rightarrow> u16" where
  "csa2_mam a b = (let u = ucast a * 17 + ucast b :: u32 in ucast (u AND 0xFFFF))"

definition csa2_eprn :: "u16 \<Rightarrow> u16 \<Rightarrow> u16" where
  "csa2_eprn channel_id counter =
     (let u = counter; u = u XOR channel_id;
          u = csa2_perm u; u = csa2_mam u channel_id;
          u = csa2_perm u; u = csa2_mam u channel_id;
          u = csa2_perm u; u = csa2_mam u channel_id
      in u XOR channel_id)"

text \<open>The body of the counting loop; the table keeps the entries past the used ones.\<close>

definition csa2_count :: "u64 \<Rightarrow> nat \<Rightarrow> u8 \<times> u8 list \<Rightarrow> u8 \<times> u8 list" where
  "csa2_count chmap i = (\<lambda>(num, table).
     if chmap AND push_bit i 1 \<noteq> 0 then (num + 1, table[unat num := of_nat i]) else (num, table))"

definition csa2_computeMapping :: "u32 \<Rightarrow> u64 \<Rightarrow> csa2_state \<Rightarrow> csa2_state" where
  "csa2_computeMapping accessAddress chmap st =
     (let lower = ucast (accessAddress AND 0xFFFF) :: u16;
          upper = ucast (drop_bit 16 accessAddress) :: u16;
          (num, table) = fold (csa2_count chmap) [0..<37] (0, csa2_remapping_table st)
      in st\<lparr>csa2_numUsedChannels := num, csa2_remapping_table := table,
            channelIdentifier := lower XOR upper, csa2_chanMap := chmap\<rparr>)"

definition csa2_computeChannel :: "u32 \<Rightarrow> csa2_state \<Rightarrow> u8" where
  "csa2_computeChannel connEventCounter st =
     (let e_prn = csa2_eprn (channelIdentifier st) (ucast (connEventCounter AND 0xFFFF));
          mod_eprn = unat e_prn mod 37
      in if csa2_chanMap st AND push_bit mod_eprn 1 \<noteq> 0 then of_nat mod_eprn
         else csa2_remapping_table st ! (unat (csa2_numUsedChannels st) * unat e_prn div 2 ^ 16))"

section \<open>Channel Selection Algorithm #1 (RadioTask.c)\<close>

text \<open>The remapping table is a local array here; the remainder by zero is \<open>None\<close>.\<close>

definition map1_entry :: "u64 \<Rightarrow> u8 list \<Rightarrow> nat \<Rightarrow> u8 option" where
  "map1_entry chmap remapping_table i =
     (if chmap AND push_bit i 1 \<noteq> 0 then Some (of_nat i)
      else let numUsedChannels = length remapping_table
           in if numUsedChannels = 0 then None else Some (remapping_table ! (i mod numUsedChannels)))"

definition remap1 :: "u64 \<Rightarrow> u8 list" where
  "remap1 chmap = fold (\<lambda>i table. if chmap AND push_bit i 1 \<noteq> 0 then table @ [of_nat i] else table) [0..<37] []"

definition computeMap1 :: "u64 \<Rightarrow> u8 list option" where
  "computeMap1 chmap = those (map (map1_entry chmap (remap1 chmap)) [0..<37])"

section \<open>Used channels\<close>

definition used_channels :: "u64 \<Rightarrow> nat list" where
  "used_channels chmap = [i \<leftarrow> [0..<37]. bit chmap i]"

lemma and_push_bit_iff: "chmap AND push_bit i 1 \<noteq> 0 \<longleftrightarrow> bit (chmap :: u64) i"
  by (simp add: and_exp_eq_0_iff_not_bit)

lemma set_used_channels: "set (used_channels chmap) = {i. i < 37 \<and> bit chmap i}"
  by (auto simp: used_channels_def)

lemma length_used_channels: "length (used_channels chmap) \<le> 37"
  using length_filter_le [of "bit chmap" "[0..<37]"] by (simp add: used_channels_def)

lemma used_channels_less: "i \<in> set (used_channels chmap) \<Longrightarrow> i < 37"
  by (simp add: set_used_channels)

lemma unat_of_nat_channel: "i < 37 \<Longrightarrow> unat (of_nat i :: u8) = i"
  by (simp add: unat_of_nat)

lemma remap1_used: "remap1 chmap = map of_nat (used_channels chmap)"
proof -
  have "fold (\<lambda>i table. if chmap AND push_bit i 1 \<noteq> 0 then table @ [of_nat i] else table) xs acc
      = acc @ map of_nat (filter (bit chmap) xs)" for xs :: "nat list" and acc :: "u8 list"
    by (induction xs arbitrary: acc) (simp_all add: and_exp_eq_0_iff_not_bit)
  from this [of "[0..<37]" "[]"] show ?thesis
    by (simp add: remap1_def used_channels_def)
qed

section \<open>The contract of a channel selection\<close>

locale channel_selection =
  fixes unmapped :: "'k \<Rightarrow> nat"
    and select :: "u64 \<Rightarrow> 'k \<Rightarrow> nat"
  assumes unmapped_less: "unmapped k < 37"
    and select_unmapped: "bit chmap (unmapped k) \<Longrightarrow> select chmap k = unmapped k"
    and select_used: "used_channels chmap \<noteq> [] \<Longrightarrow> select chmap k \<in> set (used_channels chmap)"
begin

lemma select_less: "used_channels chmap \<noteq> [] \<Longrightarrow> select chmap k < 37"
  by (rule used_channels_less [OF select_used])

lemma select_full: "\<forall>i<37. bit chmap i \<Longrightarrow> select chmap k = unmapped k"
  by (simp add: select_unmapped unmapped_less)

lemma select_restrict:
  assumes "\<forall>i<37. bit m i \<longrightarrow> bit m' i" "used_channels m \<noteq> []" "select m' k \<in> set (used_channels m)"
    "select m' k = unmapped k"
  shows "select m k = select m' k"
  using assms select_unmapped [of m k] by (simp add: set_used_channels)

lemma select_map_change:
  assumes "bit m (unmapped k)" "bit m' (unmapped k)"
  shows "select m k = select m' k"
  using assms by (simp add: select_unmapped)

lemma never_unused:
  assumes "used_channels m \<noteq> []" "\<not> bit m i"
  shows "select m k \<noteq> i"
  using assms select_used [of m k] by (auto simp: set_used_channels)

end

section \<open>Algorithm #1 meets the contract\<close>

definition csa1_select :: "u64 \<Rightarrow> nat \<Rightarrow> nat" where
  "csa1_select chmap k = (case computeMap1 chmap of Some table \<Rightarrow> unat (table ! (k mod 37)) | None \<Rightarrow> 37)"

lemma those_map_Some:
  "(\<And>x. x \<in> set xs \<Longrightarrow> f x = Some (g x)) \<Longrightarrow> those (map f xs) = Some (map g xs)"
  by (induction xs) simp_all

lemma computeMap1_eq:
  assumes "used_channels chmap \<noteq> []"
  shows "computeMap1 chmap = Some (map (\<lambda>i. of_nat
    (if bit chmap i then i else used_channels chmap ! (i mod length (used_channels chmap)))) [0..<37])"
  unfolding computeMap1_def
  using assms by (intro those_map_Some) (simp add: map1_entry_def and_exp_eq_0_iff_not_bit remap1_used)

lemma those_None: "x \<in> set xs \<Longrightarrow> x = None \<Longrightarrow> those xs = None"
  by (induction xs) (auto split: option.splits)

lemma computeMap1_empty:
  assumes "used_channels chmap = []"
  shows "computeMap1 chmap = None"
proof -
  have "\<not> bit chmap 0"
    using set_used_channels [of chmap] assms by auto
  then have "map1_entry chmap (remap1 chmap) 0 = None"
    using assms and_push_bit_iff [of chmap 0] by (simp add: map1_entry_def remap1_used)
  then have "None \<in> set (map (map1_entry chmap (remap1 chmap)) [0..<37])"
    unfolding set_map by (intro image_eqI [where x = 0]) simp_all
  then show ?thesis
    unfolding computeMap1_def by (rule those_None) simp
qed

lemma csa1_select_eq:
  assumes "used_channels chmap \<noteq> []"
  shows "csa1_select chmap k = (if bit chmap (k mod 37) then k mod 37
    else used_channels chmap ! (k mod 37 mod length (used_channels chmap)))"
proof -
  let ?u = "used_channels chmap"
  have "k mod 37 mod length ?u < length ?u"
    using assms by simp
  then have "?u ! (k mod 37 mod length ?u) < 37"
    by (intro used_channels_less [of _ chmap] nth_mem)
  then show ?thesis
    using assms by (simp add: csa1_select_def computeMap1_eq unat_of_nat_channel)
qed

interpretation csa1: channel_selection "\<lambda>k :: nat. k mod 37" csa1_select
proof
  fix k :: nat and chmap :: u64
  show "k mod 37 < 37" by simp
  show "csa1_select chmap k = k mod 37" if "bit chmap (k mod 37)"
  proof -
    have "k mod 37 \<in> set (used_channels chmap)"
      using that by (simp add: set_used_channels)
    then have "used_channels chmap \<noteq> []" by auto
    then show ?thesis using that by (simp add: csa1_select_eq)
  qed
  show "csa1_select chmap k \<in> set (used_channels chmap)" if ne: "used_channels chmap \<noteq> []"
  proof -
    have "k mod 37 mod length (used_channels chmap) < length (used_channels chmap)"
      using ne by simp
    then have "used_channels chmap ! (k mod 37 mod length (used_channels chmap)) \<in> set (used_channels chmap)"
      by (rule nth_mem)
    then show ?thesis
      using ne by (simp add: csa1_select_eq set_used_channels)
  qed
qed

section \<open>Algorithm #2 meets the contract\<close>

lemma csa2_count_fold:
  assumes "length table = 37" "length used + length xs \<le> 37"
    "take (length used) table = map of_nat used" "num = of_nat (length used)"
  shows "\<exists>table'. fold (csa2_count chmap) xs (num, table) =
      (of_nat (length (used @ filter (bit chmap) xs)), table') \<and> length table' = 37 \<and>
      take (length (used @ filter (bit chmap) xs)) table' = map of_nat (used @ filter (bit chmap) xs)"
  using assms
proof (induction xs arbitrary: num table used)
  case Nil
  then show ?case by simp
next
  case (Cons x xs)
  show ?case
  proof (cases "bit chmap x")
    case False
    then show ?thesis
      using Cons.IH [of table used num] Cons.prems by (simp add: csa2_count_def and_exp_eq_0_iff_not_bit)
  next
    case True
    let ?table = "table[length used := of_nat x]"
    have "unat num = length used"
      using Cons.prems by (simp add: unat_of_nat)
    moreover have "take (length (used @ [x])) ?table = map of_nat (used @ [x])"
      using Cons.prems by (simp add: take_Suc_conv_app_nth)
    moreover have "num + 1 = of_nat (length (used @ [x]))"
      using Cons.prems by simp
    ultimately show ?thesis
      using Cons.IH [of ?table "used @ [x]" "num + 1"] Cons.prems True
      by (simp add: csa2_count_def and_exp_eq_0_iff_not_bit)
  qed
qed

definition csa2_ok :: "csa2_state \<Rightarrow> bool" where
  "csa2_ok st \<longleftrightarrow> length (csa2_remapping_table st) = 37"

definition csa2_ready :: "csa2_state \<Rightarrow> bool" where
  "csa2_ready st \<longleftrightarrow> csa2_ok st \<and>
     csa2_numUsedChannels st = of_nat (length (used_channels (csa2_chanMap st))) \<and>
     take (length (used_channels (csa2_chanMap st))) (csa2_remapping_table st)
       = map of_nat (used_channels (csa2_chanMap st))"

lemma csa2_computeMapping_ready:
  assumes "csa2_ok st"
  shows "csa2_ready (csa2_computeMapping aa chmap st) \<and>
    csa2_chanMap (csa2_computeMapping aa chmap st) = chmap \<and>
    channelIdentifier (csa2_computeMapping aa chmap st) = ucast aa XOR ucast (drop_bit 16 aa)"
proof -
  obtain table where t: "fold (csa2_count chmap) [0..<37] (0, csa2_remapping_table st) =
      (of_nat (length (used_channels chmap)), table)" "length table = 37"
    "take (length (used_channels chmap)) table = map of_nat (used_channels chmap)"
    using csa2_count_fold [of "csa2_remapping_table st" "[]" "[0..<37]" 0 chmap] assms
    by (auto simp: csa2_ok_def used_channels_def)
  then show ?thesis
    by (simp add: csa2_computeMapping_def csa2_ready_def csa2_ok_def Let_def)
qed

text \<open>The event's pseudo-random number selects the channel.\<close>

definition csa2_select :: "u64 \<Rightarrow> u16 \<Rightarrow> nat" where
  "csa2_select chmap e_prn =
     (let used = used_channels chmap; mod_eprn = unat e_prn mod 37
      in if bit chmap mod_eprn then mod_eprn
         else used ! (length used * unat e_prn div 2 ^ 16))"

lemma csa2_index_less: "n \<noteq> 0 \<Longrightarrow> n * unat (e :: u16) div 2 ^ 16 < n"
proof -
  assume "n \<noteq> 0"
  moreover have "unat e < 2 ^ 16"
    using unsigned_less [of e] by simp
  ultimately have "n * unat e < n * 2 ^ 16"
    by (simp add: mult_less_cancel1)
  then show "n * unat e div 2 ^ 16 < n"
    by (simp add: less_mult_imp_div_less)
qed

interpretation csa2: channel_selection "\<lambda>e :: u16. unat e mod 37" csa2_select
proof
  fix e :: u16 and chmap :: u64
  show "unat e mod 37 < 37" by simp
  show "csa2_select chmap e = unat e mod 37" if "bit chmap (unat e mod 37)"
    using that by (simp add: csa2_select_def Let_def)
  show "csa2_select chmap e \<in> set (used_channels chmap)" if "used_channels chmap \<noteq> []"
  proof (cases "bit chmap (unat e mod 37)")
    case True
    then show ?thesis by (simp add: csa2_select_def Let_def set_used_channels)
  next
    case False
    have "length (used_channels chmap) * unat e div 2 ^ 16 < length (used_channels chmap)"
      using that by (intro csa2_index_less) simp
    then show ?thesis
      using False by (simp add: csa2_select_def Let_def)
  qed
qed

lemma csa2_computeChannel_select:
  assumes "csa2_ready st" "used_channels (csa2_chanMap st) \<noteq> []"
  shows "unat (csa2_computeChannel n st) =
    csa2_select (csa2_chanMap st) (csa2_eprn (channelIdentifier st) (ucast n))"
proof -
  let ?u = "used_channels (csa2_chanMap st)" and ?e = "csa2_eprn (channelIdentifier st) (ucast n)"
  show ?thesis
  proof (cases "bit (csa2_chanMap st) (unat ?e mod 37)")
    case True
    then show ?thesis
      by (simp add: csa2_computeChannel_def csa2_select_def Let_def and_exp_eq_0_iff_not_bit
          unat_of_nat_channel)
  next
    case False
    have num: "unat (csa2_numUsedChannels st) = length ?u"
      using assms(1) length_used_channels [of "csa2_chanMap st"]
      by (simp add: csa2_ready_def unat_of_nat)
    have i: "length ?u * unat ?e div 2 ^ 16 < length ?u"
      using assms(2) by (intro csa2_index_less) simp
    then have "csa2_remapping_table st ! (length ?u * unat ?e div 2 ^ 16)
        = of_nat (?u ! (length ?u * unat ?e div 2 ^ 16))"
      using assms(1) nth_take [OF i, of "csa2_remapping_table st"] by (simp add: csa2_ready_def)
    moreover have "?u ! (length ?u * unat ?e div 2 ^ 16) < 37"
      using i by (intro used_channels_less [of _ "csa2_chanMap st"] nth_mem)
    ultimately show ?thesis
      using False by (simp add: csa2_computeChannel_def csa2_select_def num Let_def
          and_exp_eq_0_iff_not_bit unat_of_nat_channel)
  qed
qed

section \<open>The pseudo-random number\<close>

text \<open>The bits of a byte, lowest first.\<close>

definition bits8 :: "nat \<Rightarrow> bool list" where
  "bits8 n = [odd n, odd (n div 2), odd (n div 4), odd (n div 8), odd (n div 16), odd (n div 32),
     odd (n div 64), odd (n div 128)]"

lemma bitReverse_bits: "map (bits8 \<circ> unat) bitReverseTable = map (rev \<circ> bits8) [0..<256]"
  unfolding upt_256
  by (simp add: bitReverseTable_def R6_def R4_def R2_def upt_rec_numeral bits8_def)

lemma less_8_cases: "(k :: nat) < 8 \<Longrightarrow> k \<in> {0, 1, 2, 3, 4, 5, 6, 7}"
  by auto

lemma bit_byte: "bit (b :: u8) k = odd (unat b div 2 ^ k)"
proof -
  have "bit b k = bit (unat b) k"
    by (auto simp: bit_unsigned_iff dest: bit_imp_le_length)
  then show ?thesis
    by (simp only: bit_iff_odd)
qed

lemma bits8_nth: "k < 8 \<Longrightarrow> bits8 (unat (b :: u8)) ! k = bit b k"
  using less_8_cases [of k] by (auto simp: bits8_def bit_byte)

lemma length_bits8: "length (bits8 n) = 8"
  by (simp add: bits8_def)

lemma length_bitReverseTable: "length bitReverseTable = 256"
  using arg_cong [OF bitReverse_bits, of length] by simp

lemma bit_table:
  assumes "k < 8"
  shows "bit (bitReverseTable ! unat (b :: u8)) k = bit b (7 - k)"
proof -
  have b: "unat b < 256"
    using unsigned_less [of b] by simp
  have "bits8 (unat (bitReverseTable ! unat b)) = rev (bits8 (unat b))"
    using arg_cong [OF bitReverse_bits, of "\<lambda>xs. xs ! unat b"] b by (simp add: length_bitReverseTable)
  then have "bits8 (unat (bitReverseTable ! unat b)) ! k = rev (bits8 (unat b)) ! k"
    by simp
  moreover have "rev (bits8 (unat b)) ! k = bits8 (unat b) ! (7 - k)"
    using assms by (simp add: rev_nth length_bits8)
  ultimately show ?thesis
    using assms by (simp add: bits8_nth)
qed

lemma bit_csa2_perm:
  "k < 16 \<Longrightarrow> bit (csa2_perm b) k = bit b (if k < 8 then 7 - k else 23 - k)"
  by (cases "k < 8") (auto simp: csa2_perm_def Let_def bit_simps bit_table dest: bit_imp_le_length)

lemma csa2_perm_perm: "csa2_perm (csa2_perm b) = b"
proof (rule bit_word_eqI)
  fix k assume k: "k < LENGTH(16)"
  show "bit (csa2_perm (csa2_perm b)) k = bit b k"
  proof (cases "k < 8")
    case True
    then have "7 - k < 8" "7 - k < 16" "7 - (7 - k) = k" by arith+
    then show ?thesis using True by (simp add: bit_csa2_perm)
  next
    case False
    then have "\<not> 23 - k < 8" "23 - k < 16" "23 - (23 - k) = k" using k by simp_all
    then show ?thesis using False k by (simp add: bit_csa2_perm)
  qed
qed

lemma csa2_mam_eq: "csa2_mam a b = a * 17 + b"
proof -
  have "unat a < 65536" "unat b < 65536"
    using unsigned_less [of a] unsigned_less [of b] by simp_all
  then have "unat (ucast (ucast a * 17 + ucast b :: u32) :: u16) = (unat a * 17 + unat b) mod 2 ^ 16"
    by (simp add: unsigned_ucast_eq take_bit_eq_mod unat_word_ariths)
  also have "\<dots> = unat (a * 17 + b)"
    by (simp add: unat_word_ariths mod_simps)
  finally show ?thesis
    by (simp add: csa2_mam_def word_unat_eq_iff)
qed

lemma csa2_mam_inject: "csa2_mam a c = csa2_mam b c \<longleftrightarrow> a = b"
proof
  have inv: "17 * 61681 = (1 :: u16)"
    by (rule word_uint_eqI) simp
  assume "csa2_mam a c = csa2_mam b c"
  then have "a * 17 * 61681 = b * 17 * 61681"
    by (simp only: csa2_mam_eq add_right_cancel)
  then have "a * (17 * 61681) = b * (17 * 61681)"
    by (simp only: mult.assoc)
  then show "a = b"
    by (simp only: inv mult_1_right)
qed simp

lemma csa2_perm_inject: "csa2_perm a = csa2_perm b \<longleftrightarrow> a = b"
  by (metis csa2_perm_perm)

lemma xor_right_cancel: "(a :: u16) XOR c = b XOR c \<longleftrightarrow> a = b"
  by (metis xor.assoc xor.right_neutral xor_self_eq)

lemma csa2_eprn_inject: "csa2_eprn c m = csa2_eprn c n \<longleftrightarrow> m = n"
  by (simp add: csa2_eprn_def csa2_mam_inject csa2_perm_inject xor_right_cancel)

section \<open>Properties\<close>

text \<open>
  C36. After \<open>csa2_computeMapping\<close> with a channel map that has at least one channel, every
  event's channel is a used data channel, is the unmapped channel of the event whenever the
  map has it, and is otherwise the used channel at the scaled pseudo-random index.
\<close>

theorem csa2_computeChannel_ok:
  assumes "csa2_ok st" "used_channels chmap \<noteq> []"
  shows "unat (csa2_computeChannel n (csa2_computeMapping aa chmap st)) =
      csa2_select chmap (csa2_eprn (ucast aa XOR ucast (drop_bit 16 aa)) (ucast n)) \<and>
    unat (csa2_computeChannel n (csa2_computeMapping aa chmap st)) \<in> set (used_channels chmap)"
  using csa2_computeMapping_ready [OF assms(1), of aa chmap]
    csa2_computeChannel_select [of "csa2_computeMapping aa chmap st" n] assms(2)
    csa2.select_used [OF assms(2)]
  by simp

lemma used_channels_low: "used_channels 0x1F \<noteq> []"
proof -
  have "0 \<in> set (used_channels 0x1F)"
    by (simp add: set_used_channels)
  then show ?thesis by auto
qed

lemma csa2_computeChannel_ok_witness:
  "unat (csa2_computeChannel 1 (csa2_computeMapping 0x8E89BED6 0x1F csa2_init)) \<in> set (used_channels 0x1F)"
proof -
  have "csa2_ok csa2_init"
    by (simp add: csa2_ok_def csa2_init_def)
  then show ?thesis
    by (rule conjunct2 [OF csa2_computeChannel_ok [OF _ used_channels_low]])
qed

text \<open>
  The sample data of the Bluetooth Core Specification (Vol 6, Part C, 3.1): access address
  0x8E89BED6 with all channels used gives channels 25, 20, 6, 21 for events 0 to 3.
\<close>

lemma csa2_samples:
  "map (\<lambda>e. unat (csa2_eprn 0x305F e) mod 37) [0, 1, 2, 3] = [25, 20, 6, 21]"
  by (simp add: csa2_eprn_def csa2_mam_eq csa2_perm_def bitReverseTable_def R6_def R4_def R2_def)

text \<open>
  For a given access address the pseudo-random number of Channel Selection Algorithm
  #2 is a bijection of the sixteen-bit event counter: no value is skipped or repeated until
  the counter wraps.
\<close>

theorem csa2_eprn_bij: "bij (csa2_eprn channel_id)"
proof -
  have "inj (csa2_eprn channel_id)"
    by (simp add: inj_def csa2_eprn_inject)
  then show ?thesis
    by (simp add: bij_def finite_UNIV_inj_surj)
qed

text \<open>
  \<open>computeMap1\<close> builds, for every map with at least one channel, a table of 37 used
  channels in which a used channel maps to itself and an unused one to the used channel
  whose index is its remainder; an empty map makes it divide by zero.
\<close>

theorem computeMap1_ok:
  "computeMap1 chmap =
     (if used_channels chmap = [] then None
      else Some (map (\<lambda>i. of_nat (csa1_select chmap i)) [0..<37])) \<and>
   (used_channels chmap \<noteq> [] \<longrightarrow> csa1_select chmap i \<in> set (used_channels chmap)) \<and>
   (bit chmap (i mod 37) \<longrightarrow> csa1_select chmap i = i mod 37)"
proof -
  have "used_channels chmap \<noteq> [] \<longrightarrow> csa1_select chmap i \<in> set (used_channels chmap)"
    by (simp add: csa1.select_used)
  moreover have "bit chmap (i mod 37) \<longrightarrow> csa1_select chmap i = i mod 37"
    by (simp add: csa1.select_unmapped)
  moreover have "computeMap1 chmap = Some (map (\<lambda>i. of_nat (csa1_select chmap i)) [0..<37])"
    if "used_channels chmap \<noteq> []"
    using that by (simp add: computeMap1_eq csa1_select_eq)
  ultimately show ?thesis
    by (simp add: computeMap1_empty)
qed

lemma computeMap1_ok_witness:
  "csa1_select 0x1F 7 \<in> set (used_channels 0x1F) \<and> csa1_select 0x1F 4 = 4"
  using computeMap1_ok [of "0x1F" 7] computeMap1_ok [of "0x1F" 4] used_channels_low by simp

end
