(* ===== verification/Aes.thy ===== *)
theory Aes
  imports Prelude
begin

text \<open>
  sw_aes128.c: the software AES-128 used to resolve private addresses.  A 16 byte state is a
  list; the key schedule appends to the list of round key bytes where the code advances its
  pointers.  Decryption is shown to invert encryption for every 176 round key bytes, which
  rests on the linearity of \<open>mul2\<close> and on the two S-boxes being inverse tables.
\<close>

unbundle bit_operations_syntax

abbreviation (input) AES_BLOCK_SIZE :: nat where
  "AES_BLOCK_SIZE \<equiv> 16"

abbreviation (input) AES_ROUNDS :: nat where
  "AES_ROUNDS \<equiv> 10"

abbreviation (input) AES_ROUND_KEY_SIZE :: nat where
  "AES_ROUND_KEY_SIZE \<equiv> 176"

section \<open>Tables\<close>

definition RC :: "u8 list" where
  "RC = [0x01, 0x02, 0x04, 0x08, 0x10, 0x20, 0x40, 0x80, 0x1B, 0x36]"

definition SBOX :: "u8 list" where
  "SBOX = [
    0x63, 0x7C, 0x77, 0x7B, 0xF2, 0x6B, 0x6F, 0xC5, 0x30, 0x01, 0x67, 0x2B, 0xFE, 0xD7, 0xAB, 0x76,
    0xCA, 0x82, 0xC9, 0x7D, 0xFA, 0x59, 0x47, 0xF0, 0xAD, 0xD4, 0xA2, 0xAF, 0x9C, 0xA4, 0x72, 0xC0,
    0xB7, 0xFD, 0x93, 0x26, 0x36, 0x3F, 0xF7, 0xCC, 0x34, 0xA5, 0xE5, 0xF1, 0x71, 0xD8, 0x31, 0x15,
    0x04, 0xC7, 0x23, 0xC3, 0x18, 0x96, 0x05, 0x9A, 0x07, 0x12, 0x80, 0xE2, 0xEB, 0x27, 0xB2, 0x75,
    0x09, 0x83, 0x2C, 0x1A, 0x1B, 0x6E, 0x5A, 0xA0, 0x52, 0x3B, 0xD6, 0xB3, 0x29, 0xE3, 0x2F, 0x84,
    0x53, 0xD1, 0x00, 0xED, 0x20, 0xFC, 0xB1, 0x5B, 0x6A, 0xCB, 0xBE, 0x39, 0x4A, 0x4C, 0x58, 0xCF,
    0xD0, 0xEF, 0xAA, 0xFB, 0x43, 0x4D, 0x33, 0x85, 0x45, 0xF9, 0x02, 0x7F, 0x50, 0x3C, 0x9F, 0xA8,
    0x51, 0xA3, 0x40, 0x8F, 0x92, 0x9D, 0x38, 0xF5, 0xBC, 0xB6, 0xDA, 0x21, 0x10, 0xFF, 0xF3, 0xD2,
    0xCD, 0x0C, 0x13, 0xEC, 0x5F, 0x97, 0x44, 0x17, 0xC4, 0xA7, 0x7E, 0x3D, 0x64, 0x5D, 0x19, 0x73,
    0x60, 0x81, 0x4F, 0xDC, 0x22, 0x2A, 0x90, 0x88, 0x46, 0xEE, 0xB8, 0x14, 0xDE, 0x5E, 0x0B, 0xDB,
    0xE0, 0x32, 0x3A, 0x0A, 0x49, 0x06, 0x24, 0x5C, 0xC2, 0xD3, 0xAC, 0x62, 0x91, 0x95, 0xE4, 0x79,
    0xE7, 0xC8, 0x37, 0x6D, 0x8D, 0xD5, 0x4E, 0xA9, 0x6C, 0x56, 0xF4, 0xEA, 0x65, 0x7A, 0xAE, 0x08,
    0xBA, 0x78, 0x25, 0x2E, 0x1C, 0xA6, 0xB4, 0xC6, 0xE8, 0xDD, 0x74, 0x1F, 0x4B, 0xBD, 0x8B, 0x8A,
    0x70, 0x3E, 0xB5, 0x66, 0x48, 0x03, 0xF6, 0x0E, 0x61, 0x35, 0x57, 0xB9, 0x86, 0xC1, 0x1D, 0x9E,
    0xE1, 0xF8, 0x98, 0x11, 0x69, 0xD9, 0x8E, 0x94, 0x9B, 0x1E, 0x87, 0xE9, 0xCE, 0x55, 0x28, 0xDF,
    0x8C, 0xA1, 0x89, 0x0D, 0xBF, 0xE6, 0x42, 0x68, 0x41, 0x99, 0x2D, 0x0F, 0xB0, 0x54, 0xBB, 0x16]"

definition INV_SBOX :: "u8 list" where
  "INV_SBOX = [
    0x52, 0x09, 0x6A, 0xD5, 0x30, 0x36, 0xA5, 0x38, 0xBF, 0x40, 0xA3, 0x9E, 0x81, 0xF3, 0xD7, 0xFB,
    0x7C, 0xE3, 0x39, 0x82, 0x9B, 0x2F, 0xFF, 0x87, 0x34, 0x8E, 0x43, 0x44, 0xC4, 0xDE, 0xE9, 0xCB,
    0x54, 0x7B, 0x94, 0x32, 0xA6, 0xC2, 0x23, 0x3D, 0xEE, 0x4C, 0x95, 0x0B, 0x42, 0xFA, 0xC3, 0x4E,
    0x08, 0x2E, 0xA1, 0x66, 0x28, 0xD9, 0x24, 0xB2, 0x76, 0x5B, 0xA2, 0x49, 0x6D, 0x8B, 0xD1, 0x25,
    0x72, 0xF8, 0xF6, 0x64, 0x86, 0x68, 0x98, 0x16, 0xD4, 0xA4, 0x5C, 0xCC, 0x5D, 0x65, 0xB6, 0x92,
    0x6C, 0x70, 0x48, 0x50, 0xFD, 0xED, 0xB9, 0xDA, 0x5E, 0x15, 0x46, 0x57, 0xA7, 0x8D, 0x9D, 0x84,
    0x90, 0xD8, 0xAB, 0x00, 0x8C, 0xBC, 0xD3, 0x0A, 0xF7, 0xE4, 0x58, 0x05, 0xB8, 0xB3, 0x45, 0x06,
    0xD0, 0x2C, 0x1E, 0x8F, 0xCA, 0x3F, 0x0F, 0x02, 0xC1, 0xAF, 0xBD, 0x03, 0x01, 0x13, 0x8A, 0x6B,
    0x3A, 0x91, 0x11, 0x41, 0x4F, 0x67, 0xDC, 0xEA, 0x97, 0xF2, 0xCF, 0xCE, 0xF0, 0xB4, 0xE6, 0x73,
    0x96, 0xAC, 0x74, 0x22, 0xE7, 0xAD, 0x35, 0x85, 0xE2, 0xF9, 0x37, 0xE8, 0x1C, 0x75, 0xDF, 0x6E,
    0x47, 0xF1, 0x1A, 0x71, 0x1D, 0x29, 0xC5, 0x89, 0x6F, 0xB7, 0x62, 0x0E, 0xAA, 0x18, 0xBE, 0x1B,
    0xFC, 0x56, 0x3E, 0x4B, 0xC6, 0xD2, 0x79, 0x20, 0x9A, 0xDB, 0xC0, 0xFE, 0x78, 0xCD, 0x5A, 0xF4,
    0x1F, 0xDD, 0xA8, 0x33, 0x88, 0x07, 0xC7, 0x31, 0xB1, 0x12, 0x10, 0x59, 0x27, 0x80, 0xEC, 0x5F,
    0x60, 0x51, 0x7F, 0xA9, 0x19, 0xB5, 0x4A, 0x0D, 0x2D, 0xE5, 0x7A, 0x9F, 0x93, 0xC9, 0x9C, 0xEF,
    0xA0, 0xE0, 0x3B, 0x4D, 0xAE, 0x2A, 0xF5, 0xB0, 0xC8, 0xEB, 0xBB, 0x3C, 0x83, 0x53, 0x99, 0x61,
    0x17, 0x2B, 0x04, 0x7E, 0xBA, 0x77, 0xD6, 0x26, 0xE1, 0x69, 0x14, 0x63, 0x55, 0x21, 0x0C, 0x7D]"

section \<open>Round functions\<close>

definition mul2 :: "u8 \<Rightarrow> u8" where
  "mul2 a = (if a AND 0x80 \<noteq> 0 then push_bit 1 a XOR 0x1B else push_bit 1 a)"

definition shift_rows :: "u8 list \<Rightarrow> u8 list" where
  "shift_rows state =
     (let temp = state ! 1; state = state[1 := state ! 5]; state = state[5 := state ! 9];
          state = state[9 := state ! 13]; state = state[13 := temp];
          temp = state ! 2; state = state[2 := state ! 10]; state = state[10 := temp];
          temp = state ! 6; state = state[6 := state ! 14]; state = state[14 := temp];
          temp = state ! 15; state = state[15 := state ! 11]; state = state[11 := state ! 7];
          state = state[7 := state ! 3]
      in state[3 := temp])"

definition inv_shift_rows :: "u8 list \<Rightarrow> u8 list" where
  "inv_shift_rows state =
     (let temp = state ! 13; state = state[13 := state ! 9]; state = state[9 := state ! 5];
          state = state[5 := state ! 1]; state = state[1 := temp];
          temp = state ! 14; state = state[14 := state ! 6]; state = state[6 := temp];
          temp = state ! 10; state = state[10 := state ! 2]; state = state[2 := temp];
          temp = state ! 3; state = state[3 := state ! 7]; state = state[7 := state ! 11];
          state = state[11 := state ! 15]
      in state[15 := temp])"

definition sub_bytes :: "u8 list \<Rightarrow> u8 list \<Rightarrow> u8 list" where
  "sub_bytes box state = map (\<lambda>b. box ! unat b) state"

definition add_round_key :: "u8 list \<Rightarrow> u8 list \<Rightarrow> u8 list" where
  "add_round_key roundkeys state = map2 (XOR) state (take AES_BLOCK_SIZE roundkeys)"

definition mix_column :: "u8 \<Rightarrow> u8 \<Rightarrow> u8 \<Rightarrow> u8 \<Rightarrow> u8 list" where
  "mix_column s0 s1 s2 s3 =
     (let t = s0 XOR s1 XOR s2 XOR s3
      in [mul2 (s0 XOR s1) XOR s0 XOR t, mul2 (s1 XOR s2) XOR s1 XOR t,
          mul2 (s2 XOR s3) XOR s2 XOR t, mul2 (s3 XOR s0) XOR s3 XOR t])"

definition inv_mix_column :: "u8 \<Rightarrow> u8 \<Rightarrow> u8 \<Rightarrow> u8 \<Rightarrow> u8 list" where
  "inv_mix_column s0 s1 s2 s3 =
     (let t = s0 XOR s1 XOR s2 XOR s3;
          p0 = t XOR s0 XOR mul2 (s0 XOR s1); p1 = t XOR s1 XOR mul2 (s1 XOR s2);
          p2 = t XOR s2 XOR mul2 (s2 XOR s3); p3 = t XOR s3 XOR mul2 (s3 XOR s0);
          u = mul2 (mul2 (s0 XOR s2)); v = mul2 (mul2 (s1 XOR s3)); t = mul2 (u XOR v)
      in [p0 XOR (t XOR u), p1 XOR (t XOR v), p2 XOR (t XOR u), p3 XOR (t XOR v)])"

text \<open>The loops over the four columns of a state.\<close>

definition columns :: "(u8 \<Rightarrow> u8 \<Rightarrow> u8 \<Rightarrow> u8 \<Rightarrow> u8 list) \<Rightarrow> u8 list \<Rightarrow> u8 list" where
  "columns mix state =
     concat (map (\<lambda>i. mix (state ! i) (state ! (i + 1)) (state ! (i + 2)) (state ! (i + 3))) [0, 4, 8, 12])"

section \<open>Key schedule\<close>

definition key_schedule_round :: "u8 list \<Rightarrow> nat \<Rightarrow> u8 list" where
  "key_schedule_round roundkeys i =
     (let n = length roundkeys;
          temp3 = SBOX ! unat (roundkeys ! (n - 4));
          temp0 = SBOX ! unat (roundkeys ! (n - 3));
          temp1 = SBOX ! unat (roundkeys ! (n - 2));
          temp2 = SBOX ! unat (roundkeys ! (n - 1));
          temp0 = temp0 XOR RC ! i;
          roundkeys = roundkeys @ [temp0 XOR roundkeys ! (n - 16), temp1 XOR roundkeys ! (n - 15),
            temp2 XOR roundkeys ! (n - 14), temp3 XOR roundkeys ! (n - 13)]
      in fold (\<lambda>_ rks. rks @ [rks ! (length rks - 4) XOR rks ! (length rks - 16)]) [4..<16] roundkeys)"

definition aes_key_schedule_128 :: "u8 list \<Rightarrow> u8 list" where
  "aes_key_schedule_128 key = foldl key_schedule_round (take 16 key) [0..<AES_ROUNDS]"

section \<open>Encryption and decryption\<close>

text \<open>The nine inner rounds, from the round keys that are left.\<close>

fun encrypt_rounds :: "nat \<Rightarrow> u8 list \<Rightarrow> u8 list \<Rightarrow> u8 list" where
  "encrypt_rounds 0 roundkeys ciphertext =
     add_round_key roundkeys (shift_rows (sub_bytes SBOX ciphertext))"
| "encrypt_rounds (Suc j) roundkeys ciphertext =
     encrypt_rounds j (drop 16 roundkeys)
       (add_round_key roundkeys (columns mix_column (shift_rows (sub_bytes SBOX ciphertext))))"

definition aes_encrypt_128 :: "u8 list \<Rightarrow> u8 list \<Rightarrow> u8 list" where
  "aes_encrypt_128 roundkeys plaintext =
     encrypt_rounds (AES_ROUNDS - 1) (drop 16 roundkeys) (add_round_key roundkeys plaintext)"

text \<open>The inner rounds use the sixteen round key bytes at \<open>16 * j\<close>, from the last to the first.\<close>

fun decrypt_rounds :: "nat \<Rightarrow> u8 list \<Rightarrow> u8 list \<Rightarrow> u8 list" where
  "decrypt_rounds 0 roundkeys plaintext = add_round_key roundkeys plaintext"
| "decrypt_rounds (Suc j) roundkeys plaintext =
     decrypt_rounds j roundkeys
       (sub_bytes INV_SBOX (inv_shift_rows (columns inv_mix_column
         (add_round_key (drop (16 * Suc j) roundkeys) plaintext))))"

definition aes_decrypt_128 :: "u8 list \<Rightarrow> u8 list \<Rightarrow> u8 list" where
  "aes_decrypt_128 roundkeys ciphertext =
     decrypt_rounds (AES_ROUNDS - 1) roundkeys
       (sub_bytes INV_SBOX (inv_shift_rows (add_round_key (drop 160 roundkeys) ciphertext)))"

section \<open>Each step is inverted\<close>

lemma inv_sbox_sbox: "map (\<lambda>b. INV_SBOX ! unat b) SBOX = map of_nat [0..<256]"
  unfolding upt_256 by (simp add: SBOX_def INV_SBOX_def upt_rec_numeral)

lemma length_SBOX: "length SBOX = 256"
  by (simp add: SBOX_def)

lemma inv_sbox: "INV_SBOX ! unat (SBOX ! unat b) = (b :: u8)"
proof -
  have "unat b < 256"
    using unsigned_less [of b] by simp
  then show ?thesis
    using arg_cong [OF inv_sbox_sbox, of "\<lambda>xs. xs ! unat b"] by (simp add: length_SBOX)
qed

lemma sub_bytes_inverse: "sub_bytes INV_SBOX (sub_bytes SBOX state) = state"
  by (simp add: sub_bytes_def inv_sbox comp_def)

lemma list16:
  assumes "length xs = 16"
  obtains s0 s1 s2 s3 s4 s5 s6 s7 s8 s9 s10 s11 s12 s13 s14 s15
  where "xs = [s0, s1, s2, s3, s4, s5, s6, s7, s8, s9, s10, s11, s12, s13, s14, s15]"
  using assms by (auto simp: numeral_eq_Suc length_Suc_conv)

lemma inv_shift_rows_shift_rows: "length s = 16 \<Longrightarrow> inv_shift_rows (shift_rows s) = s"
  by (erule list16) (simp add: inv_shift_rows_def shift_rows_def)

lemma length_shift_rows [simp]: "length (shift_rows s) = length s"
  by (simp add: shift_rows_def Let_def)

lemma length_inv_shift_rows [simp]: "length (inv_shift_rows s) = length s"
  by (simp add: inv_shift_rows_def Let_def)

lemma xor_cancel: "(a :: u8) XOR (a XOR b) = b"
  by (metis xor.assoc xor.left_neutral xor_self_eq)

lemmas xor_ac = xor.assoc xor.commute xor.left_commute xor_cancel

lemma mul2_xor: "mul2 (a XOR b) = mul2 a XOR mul2 b"
proof -
  have "(a :: u8) AND 0x80 \<noteq> 0 \<longleftrightarrow> bit a 7" for a
    using and_exp_eq_0_iff_not_bit [of a 7] by simp
  then have m: "mul2 a = (if bit a 7 then push_bit 1 a XOR 0x1B else push_bit 1 a)" for a
    by (simp only: mul2_def)
  show ?thesis
    by (auto simp: m bit_xor_iff push_bit_xor xor_ac)
qed

lemma inv_mix_mix:
  "mix_column s0 s1 s2 s3 = [c0, c1, c2, c3] \<Longrightarrow> inv_mix_column c0 c1 c2 c3 = [s0, s1, s2, s3]"
  by (auto simp: mix_column_def inv_mix_column_def Let_def mul2_xor xor_ac)

lemma list4_mix: "\<exists>c0 c1 c2 c3. mix_column s0 s1 s2 s3 = [c0, c1, c2, c3]"
  by (simp add: mix_column_def Let_def)

lemma columns_inverse:
  "length s = 16 \<Longrightarrow> columns inv_mix_column (columns mix_column s) = s"
proof (erule list16)
  fix s0 s1 s2 s3 s4 s5 s6 s7 s8 s9 s10 s11 s12 s13 s14 s15
  assume s: "s = [s0, s1, s2, s3, s4, s5, s6, s7, s8, s9, s10, s11, s12, s13, s14, s15]"
  obtain a0 a1 a2 a3 where a: "mix_column s0 s1 s2 s3 = [a0, a1, a2, a3]"
    using list4_mix by blast
  obtain b0 b1 b2 b3 where b: "mix_column s4 s5 s6 s7 = [b0, b1, b2, b3]"
    using list4_mix by blast
  obtain c0 c1 c2 c3 where c: "mix_column s8 s9 s10 s11 = [c0, c1, c2, c3]"
    using list4_mix by blast
  obtain d0 d1 d2 d3 where d: "mix_column s12 s13 s14 s15 = [d0, d1, d2, d3]"
    using list4_mix by blast
  show ?thesis
    by (simp add: columns_def s a b c d inv_mix_mix [OF a] inv_mix_mix [OF b] inv_mix_mix [OF c]
        inv_mix_mix [OF d])
qed

lemma length_mix_column: "length (mix_column s0 s1 s2 s3) = 4"
  by (simp add: mix_column_def Let_def)

lemma length_inv_mix_column: "length (inv_mix_column s0 s1 s2 s3) = 4"
  by (simp add: inv_mix_column_def Let_def)

lemma length_columns [simp]:
  "length (columns mix_column s) = 16" "length (columns inv_mix_column s) = 16"
  by (simp_all add: columns_def length_mix_column length_inv_mix_column)

lemma length_sub_bytes [simp]: "length (sub_bytes box s) = length s"
  by (simp add: sub_bytes_def)

lemma length_add_round_key [simp]: "length (add_round_key rks s) = min (length s) (min (length rks) 16)"
  by (simp add: add_round_key_def)

lemma add_round_key_twice:
  "length s = 16 \<Longrightarrow> 16 \<le> length rks \<Longrightarrow> add_round_key rks (add_round_key rks s) = s"
  by (rule nth_equalityI) (simp_all add: add_round_key_def xor.assoc)

section \<open>Decryption inverts encryption\<close>

text \<open>The state after the first j inner rounds, built from the last round.\<close>

fun enc_inner :: "nat \<Rightarrow> u8 list \<Rightarrow> u8 list \<Rightarrow> u8 list" where
  "enc_inner 0 rks s = s"
| "enc_inner (Suc j) rks s =
     add_round_key (drop (16 * j) rks) (columns mix_column (shift_rows (sub_bytes SBOX (enc_inner j rks s))))"

lemma enc_inner_front:
  "enc_inner (Suc j) rks s =
     enc_inner j (drop 16 rks) (add_round_key rks (columns mix_column (shift_rows (sub_bytes SBOX s))))"
proof (induction j)
  case (Suc j)
  then have "enc_inner (Suc (Suc j)) rks s = add_round_key (drop (16 * j) (drop 16 rks))
      (columns mix_column (shift_rows (sub_bytes SBOX (enc_inner (Suc j) rks s))))"
    by (simp add: add.commute)
  then show ?case
    unfolding Suc.IH by simp
qed simp

lemma encrypt_rounds_inner:
  "encrypt_rounds j rks s =
     add_round_key (drop (16 * j) rks) (shift_rows (sub_bytes SBOX (enc_inner j rks s)))"
proof (induction j arbitrary: rks s)
  case (Suc j)
  then show ?case
    by (simp add: enc_inner_front add.commute del: enc_inner.simps)
qed simp

lemma length_enc_inner:
  "length s = 16 \<Longrightarrow> 16 * j \<le> length rks \<Longrightarrow> length (enc_inner j rks s) = 16"
  by (cases j) simp_all

lemma decrypt_enc_inner:
  "length s = 16 \<Longrightarrow> 16 * Suc j \<le> length rks \<Longrightarrow>
     decrypt_rounds j rks (enc_inner j (drop 16 rks) s) = add_round_key rks s"
proof (induction j)
  case (Suc j)
  have "length (enc_inner j (drop 16 rks) s) = 16"
    using Suc.prems by (simp add: length_enc_inner)
  then show ?case
    using Suc by (simp add: add_round_key_twice columns_inverse inv_shift_rows_shift_rows
        sub_bytes_inverse add.commute)
qed simp

lemma decrypt_encrypt:
  assumes "length rks = AES_ROUND_KEY_SIZE" "length p = AES_BLOCK_SIZE"
  shows "aes_decrypt_128 rks (aes_encrypt_128 rks p) = p"
proof -
  let ?s = "add_round_key rks p"
  have "length (enc_inner 9 (drop 16 rks) ?s) = 16"
    using assms by (intro length_enc_inner) simp_all
  then have "aes_decrypt_128 rks (aes_encrypt_128 rks p) = decrypt_rounds 9 rks (enc_inner 9 (drop 16 rks) ?s)"
    using assms by (simp add: aes_decrypt_128_def aes_encrypt_128_def encrypt_rounds_inner
        add_round_key_twice inv_shift_rows_shift_rows sub_bytes_inverse)
  also have "\<dots> = add_round_key rks ?s"
    using assms by (intro decrypt_enc_inner) simp_all
  finally show ?thesis
    using assms by (simp add: add_round_key_twice)
qed

lemma length_aes_encrypt:
  "length rks = AES_ROUND_KEY_SIZE \<Longrightarrow> length p = AES_BLOCK_SIZE \<Longrightarrow>
     length (aes_encrypt_128 rks p) = AES_BLOCK_SIZE"
  by (simp add: aes_encrypt_128_def encrypt_rounds_inner length_enc_inner)

section \<open>The key schedule fills its 176 bytes\<close>

lemma length_fold_append:
  "length (fold (\<lambda>_ rks. rks @ [f rks]) xs rks) = length rks + length xs"
  by (induction xs arbitrary: rks) simp_all

lemma length_key_schedule_round: "length (key_schedule_round rks i) = length rks + 16"
  unfolding key_schedule_round_def Let_def length_fold_append length_append by simp

lemma length_key_schedule:
  "16 \<le> length key \<Longrightarrow> length (aes_key_schedule_128 key) = AES_ROUND_KEY_SIZE"
proof -
  assume "16 \<le> length key"
  moreover have "length (foldl key_schedule_round rks xs) = length rks + 16 * length xs" for rks xs
    by (induction xs arbitrary: rks) (simp_all add: length_key_schedule_round)
  ultimately show ?thesis
    by (simp add: aes_key_schedule_128_def)
qed

section \<open>The contract of a block cipher\<close>

locale block_cipher =
  fixes schedule :: "'b list \<Rightarrow> 'b list"
    and encrypt decrypt :: "'b list \<Rightarrow> 'b list \<Rightarrow> 'b list"
    and key_size block_size schedule_size :: nat
  assumes length_schedule: "length key = key_size \<Longrightarrow> length (schedule key) = schedule_size"
    and length_encrypt: "length rks = schedule_size \<Longrightarrow> length p = block_size \<Longrightarrow>
      length (encrypt rks p) = block_size"
    and decrypt_encrypt: "length rks = schedule_size \<Longrightarrow> length p = block_size \<Longrightarrow>
      decrypt rks (encrypt rks p) = p"
begin

lemma encrypt_inject:
  assumes "length key = key_size" "length p = block_size" "length q = block_size"
  shows "encrypt (schedule key) p = encrypt (schedule key) q \<longleftrightarrow> p = q"
  using decrypt_encrypt [OF length_schedule [OF assms(1)] assms(2)]
    decrypt_encrypt [OF length_schedule [OF assms(1)] assms(3)] by metis

end

interpretation aes: block_cipher aes_key_schedule_128 aes_encrypt_128 aes_decrypt_128
  16 AES_BLOCK_SIZE AES_ROUND_KEY_SIZE
proof (rule block_cipher.intro)
  fix key :: "u8 list"
  assume "length key = 16"
  then show "length (aes_key_schedule_128 key) = AES_ROUND_KEY_SIZE"
    by (intro length_key_schedule) simp
next
  fix rks p :: "u8 list"
  assume "length rks = AES_ROUND_KEY_SIZE" "length p = AES_BLOCK_SIZE"
  then show "length (aes_encrypt_128 rks p) = AES_BLOCK_SIZE"
    by (rule length_aes_encrypt)
next
  fix rks p :: "u8 list"
  assume "length rks = AES_ROUND_KEY_SIZE" "length p = AES_BLOCK_SIZE"
  then show "aes_decrypt_128 rks (aes_encrypt_128 rks p) = p"
    by (rule decrypt_encrypt)
qed

section \<open>Properties\<close>

text \<open>
  C40. For every 16 byte key and block, decrypting with the scheduled round keys gives back
  the encrypted block.
\<close>

theorem aes_decrypt_encrypt:
  "length key = 16 \<Longrightarrow> length p = AES_BLOCK_SIZE \<Longrightarrow>
     aes_decrypt_128 (aes_key_schedule_128 key) (aes_encrypt_128 (aes_key_schedule_128 key) p) = p"
  by (rule aes.decrypt_encrypt [OF aes.length_schedule])

lemma aes_decrypt_encrypt_witness:
  "aes_decrypt_128 (aes_key_schedule_128 (replicate 16 0x2B))
     (aes_encrypt_128 (aes_key_schedule_128 (replicate 16 0x2B)) (replicate 16 7)) = replicate 16 7"
  by (rule aes_decrypt_encrypt [OF length_replicate length_replicate])

end
