(* ===== verification/Rpa.thy ===== *)
theory Rpa
  imports Aes
begin

text \<open>
  rpa_resolver.c: matching a resolvable private address against an identity key, with the
  round keys of the last key and the last matching hash kept between calls.  The lemmas show
  that the cache never changes an answer, except for the all-zero key before any other key
  was used, which the initial state takes for the key it already scheduled.
\<close>

unbundle bit_operations_syntax

section \<open>State and operations\<close>

record rpa_state =
  last_irk :: "u8 list"
  last_roundKeys :: "u8 list"
  last_prand :: u32
  last_hash :: u32

text \<open>The initial values of the static variables.\<close>

definition rpa_init :: rpa_state where
  "rpa_init = \<lparr>last_irk = replicate 16 0, last_roundKeys = replicate 176 0, last_prand = 0, last_hash = 0\<rparr>"

definition ah_block :: "u32 \<Rightarrow> u8 list" where
  "ah_block prand = replicate 13 0 @
     [ucast (drop_bit 16 (prand AND 0xFF0000)), ucast (drop_bit 8 (prand AND 0xFF00)), ucast (prand AND 0xFF)]"

definition ah_result :: "u8 list \<Rightarrow> u32" where
  "ah_result res = ucast (res ! 15) OR push_bit 8 (ucast (res ! 14)) OR push_bit 16 (ucast (res ! 13))"

definition BLE_ah :: "u8 list \<Rightarrow> u32 \<Rightarrow> rpa_state \<Rightarrow> u32 \<times> rpa_state" where
  "BLE_ah irk prand st =
     (let r = ah_block prand
      in if irk \<noteq> last_irk st then
           let st = st\<lparr>last_roundKeys := aes_key_schedule_128 irk, last_irk := irk, last_prand := 0xFFFFFFFF\<rparr>
           in (ah_result (aes_encrypt_128 (last_roundKeys st) r), st)
         else if prand = last_prand st then (last_hash st, st)
         else (ah_result (aes_encrypt_128 (last_roundKeys st) r), st))"

definition rpa_hash :: "u8 list \<Rightarrow> u32" where
  "rpa_hash rpa = le32 (rpa ! 0) (rpa ! 1) (rpa ! 2) 0"

definition rpa_prand :: "u8 list \<Rightarrow> u32" where
  "rpa_prand rpa = le32 (rpa ! 3) (rpa ! 4) (rpa ! 5) 0"

definition rpa_match :: "u8 list \<Rightarrow> u8 list \<Rightarrow> rpa_state \<Rightarrow> bool \<times> rpa_state" where
  "rpa_match irk rpa st =
     (if rpa ! 5 AND 0xC0 \<noteq> 0x40 then (False, st)
      else let hash = rpa_hash rpa; prand = rpa_prand rpa;
               (h, st) = BLE_ah irk prand st; valid = (hash = h)
           in (valid, if valid then st\<lparr>last_prand := prand, last_hash := hash\<rparr> else st))"

section \<open>What a match means\<close>

definition ah :: "u8 list \<Rightarrow> u32 \<Rightarrow> u32" where
  "ah irk prand = ah_result (aes_encrypt_128 (aes_key_schedule_128 irk) (ah_block prand))"

definition rpa_resolves :: "u8 list \<Rightarrow> u8 list \<Rightarrow> bool" where
  "rpa_resolves irk rpa \<longleftrightarrow> rpa ! 5 AND 0xC0 = 0x40 \<and> rpa_hash rpa = ah irk (rpa_prand rpa)"

text \<open>
  The cache is either still the one before any nonzero key, or holds the schedule of its key
  and, unless invalidated, a correct pair of number and hash.
\<close>

definition rpa_untouched :: "rpa_state \<Rightarrow> bool" where
  "rpa_untouched st \<longleftrightarrow> last_irk st = replicate 16 0 \<and> last_roundKeys st = replicate 176 0"

definition rpa_cached :: "rpa_state \<Rightarrow> bool" where
  "rpa_cached st \<longleftrightarrow> last_roundKeys st = aes_key_schedule_128 (last_irk st) \<and>
     (last_prand st < 0x1000000 \<longrightarrow> last_hash st = ah (last_irk st) (last_prand st))"

definition rpa_ok :: "rpa_state \<Rightarrow> bool" where
  "rpa_ok st \<longleftrightarrow> rpa_untouched st \<or> rpa_cached st"

lemma rpa_init_ok: "rpa_ok rpa_init"
  by (simp add: rpa_ok_def rpa_untouched_def rpa_init_def)

lemma rpa_prand_less: "rpa_prand rpa < 0x1000000"
proof -
  have "rpa_prand rpa = rpa_prand rpa AND mask 24"
    unfolding rpa_prand_def
    by (rule bit_word_eqI) (auto simp: le32_def bit_simps dest: bit_imp_le_length)
  then have "rpa_prand rpa < 2 ^ 24"
    using and_mask_less' [of 24 "rpa_prand rpa"] by simp
  then show ?thesis by simp
qed

lemma BLE_ah_cached:
  assumes "rpa_ok st" "irk \<noteq> replicate 16 0 \<or> rpa_cached st" "prand < 0x1000000"
  shows "fst (BLE_ah irk prand st) = ah irk prand \<and> rpa_cached (snd (BLE_ah irk prand st)) \<and>
    last_irk (snd (BLE_ah irk prand st)) = irk"
proof (cases "irk = last_irk st")
  case False
  then show ?thesis
    by (simp add: BLE_ah_def ah_def rpa_cached_def)
next
  case True
  then have "rpa_cached st"
    using assms(1,2) by (auto simp: rpa_ok_def rpa_untouched_def)
  then show ?thesis
    using True assms(3) by (auto simp: BLE_ah_def ah_def rpa_cached_def)
qed

lemma rpa_match_cached:
  assumes "rpa_ok st" "irk \<noteq> replicate 16 0 \<or> rpa_cached st"
  shows "fst (rpa_match irk rpa st) = rpa_resolves irk rpa \<and> rpa_ok (snd (rpa_match irk rpa st))"
proof (cases "rpa ! 5 AND 0xC0 = 0x40")
  case False
  then show ?thesis
    using assms(1) by (simp add: rpa_match_def rpa_resolves_def)
next
  case True
  obtain h st' where h: "BLE_ah irk (rpa_prand rpa) st = (h, st')"
    by (cases "BLE_ah irk (rpa_prand rpa) st")
  have "h = ah irk (rpa_prand rpa)" "rpa_cached st'" "last_irk st' = irk"
    using BLE_ah_cached [OF assms rpa_prand_less, of rpa] by (simp_all add: h)
  then show ?thesis
    using True by (auto simp: rpa_match_def rpa_resolves_def h rpa_ok_def rpa_cached_def Let_def)
qed

lemma rpa_match_ok: "rpa_ok st \<Longrightarrow> rpa_ok (snd (rpa_match irk rpa st))"
proof (cases "irk \<noteq> replicate 16 0 \<or> rpa_cached st")
  case True
  then show "rpa_ok st \<Longrightarrow> ?thesis" by (simp add: rpa_match_cached)
next
  case False
  assume "rpa_ok st"
  then have "rpa_untouched st" "irk = last_irk st"
    using False by (simp_all add: rpa_ok_def rpa_untouched_def)
  then show ?thesis
    by (simp add: rpa_match_def BLE_ah_def Let_def rpa_ok_def rpa_untouched_def)
qed

text \<open>A run of matches.\<close>

definition rpa_run :: "(u8 list \<times> u8 list) list \<Rightarrow> rpa_state" where
  "rpa_run calls = foldl (\<lambda>st (irk, rpa). snd (rpa_match irk rpa st)) rpa_init calls"

lemma rpa_run_ok: "rpa_ok (rpa_run calls)"
proof -
  have "rpa_ok st \<Longrightarrow> rpa_ok (foldl (\<lambda>st (irk, rpa). snd (rpa_match irk rpa st)) st calls)" for st
    by (induction calls arbitrary: st) (auto intro: rpa_match_ok)
  then show ?thesis
    by (simp add: rpa_run_def rpa_init_ok)
qed

text \<open>One key never enciphers the blocks of two different random parts alike.\<close>

lemma length_ah_block: "length (ah_block prand) = AES_BLOCK_SIZE"
  by (simp add: ah_block_def)

lemma ah_block_inject:
  assumes "p < 0x1000000" "q < 0x1000000" "ah_block p = ah_block q"
  shows "p = q"
proof (rule bit_word_eqI)
  fix n assume n: "n < LENGTH(32)"
  have masks: "(0xFF0000 :: u32) = push_bit 16 (mask 8)" "(0xFF00 :: u32) = push_bit 8 (mask 8)"
    by (simp_all add: mask_eq_exp_minus_1)
  have unat_top: "take_bit 24 r = r" if "r < 0x1000000" for r :: u32
  proof -
    have "unat r < 2 ^ 24" using that by (simp add: word_less_nat_alt)
    then have "unat (take_bit 24 r) = unat r"
      by (simp add: unsigned_take_bit_eq take_bit_nat_eq_self del: take_bit_numeral_minus_numeral_word)
    then show ?thesis by (simp add: word_unat_eq_iff)
  qed
  have top: "\<not> bit r n" if "r < 0x1000000" "24 \<le> n" for r :: u32
  proof -
    have "take_bit 24 r = r"
      using that(1) by (rule unat_top)
    then show ?thesis
      using that(2) by (metis bit_take_bit_iff not_le)
  qed
  have "ucast p = (ucast q :: u8)" "ucast (drop_bit 8 (p AND 0xFF00)) = (ucast (drop_bit 8 (q AND 0xFF00)) :: u8)"
    "ucast (drop_bit 16 (p AND 0xFF0000)) = (ucast (drop_bit 16 (q AND 0xFF0000)) :: u8)"
    using assms(3) by (simp_all add: ah_block_def)
  then have "bit (ucast p :: u8) n = bit (ucast q :: u8) n"
    "bit (ucast (drop_bit 8 (p AND 0xFF00)) :: u8) (n - 8) = bit (ucast (drop_bit 8 (q AND 0xFF00)) :: u8) (n - 8)"
    "bit (ucast (drop_bit 16 (p AND 0xFF0000)) :: u8) (n - 16) = bit (ucast (drop_bit 16 (q AND 0xFF0000)) :: u8) (n - 16)"
    by simp_all
  then show "bit p n = bit q n"
    using n top [OF assms(1)] top [OF assms(2)] unfolding masks
    by (cases "n < 8"; cases "n < 16"; cases "n < 24") (auto simp: bit_simps)
qed

lemma ah_cipher_inject:
  assumes "length irk = 16" "p < 0x1000000" "q < 0x1000000"
    "aes_encrypt_128 (aes_key_schedule_128 irk) (ah_block p) = aes_encrypt_128 (aes_key_schedule_128 irk) (ah_block q)"
  shows "p = q"
  using assms aes.encrypt_inject [OF assms(1) length_ah_block length_ah_block] ah_block_inject by blast

section \<open>Properties\<close>

text \<open>
  Whatever addresses and keys were matched before, the cached resolver answers for a
  key that is not all zeroes exactly as the definition of a resolvable private address does.
\<close>

theorem rpa_match_resolves:
  "irk \<noteq> replicate 16 0 \<Longrightarrow> fst (rpa_match irk rpa (rpa_run calls)) = rpa_resolves irk rpa"
  using rpa_match_cached [OF rpa_run_ok] by simp

lemma rpa_match_resolves_witness:
  "fst (rpa_match (replicate 16 1) [1, 2, 3, 4, 5, 0xC0] (rpa_run [])) =
     rpa_resolves (replicate 16 1) [1, 2, 3, 4, 5, 0xC0]"
  by (rule rpa_match_resolves) (simp add: numeral_eq_Suc)

text \<open>
  Before any other key, the all-zero key is matched with round keys that were never
  scheduled: the hash that is compared is not the one of the key.
\<close>

lemma rpa_zero_key_unscheduled:
  assumes "rpa ! 5 AND 0xC0 = 0x40"
  shows "fst (rpa_match (replicate 16 0) rpa rpa_init) \<longleftrightarrow>
    rpa_hash rpa = ah_result (aes_encrypt_128 (replicate 176 0) (ah_block (rpa_prand rpa)))"
proof -
  have "rpa_prand rpa \<noteq> 0"
  proof
    assume "rpa_prand rpa = 0"
    then have "bit (rpa_prand rpa) 22 = False" by simp
    moreover have "bit (rpa_prand rpa) 22 = bit (rpa ! 5) 6"
      by (auto simp: rpa_prand_def le32_def bit_simps dest: bit_imp_le_length)
    moreover have "bit (rpa ! 5 AND 0xC0) 6" unfolding assms by simp
    ultimately show False by (simp add: bit_and_iff)
  qed
  then show ?thesis
    using assms by (simp add: rpa_match_def BLE_ah_def rpa_init_def Let_def)
qed

end
