(* ===== verification/Firmware_State.thy ===== *)
theory Firmware_State
  imports Conf_Queue Tx_Queue Aux_Sched Adv_Cache Csa Rpa
begin

text \<open>
  The state of the firmware: the static variables of PacketTask.c, the two delay triggers,
  RadioWrapper.c and RadioTask.c, with the states of the components they use, in one record
  built in layers.  The hardware is a trace of the requests the code makes, in order, and a
  radio clock whose successive readings are arbitrary.
\<close>

unbundle bit_operations_syntax

section \<open>Hardware\<close>

text \<open>
  Direct radio commands, the two one-shot clocks (with their timeout in clock ticks), posts of
  the packet semaphore, sleeps of the radio task, transmit power and reset.
\<close>

datatype hw_event =
  Direct_cmd u32
  | Hop_timeout u32 | Hop_start | Hop_stop
  | Stop_timeout u32 | Stop_start | Stop_stop
  | Packet_posted
  | Task_sleep u32
  | Set_tx_power u16
  | System_reset

text \<open>Constants of the generated board configuration, which no operation assigns.\<close>

record board =
  tickPeriod :: u32
  txPowerTable :: "(u8 \<times> u16) list"

record hw_state =
  board_conf :: board
  rf_clock :: "nat \<Rightarrow> u32"
  clock_reads :: nat
  hw_trace :: "hw_event list"

definition RF_getCurrentTime :: "'a hw_state_scheme \<Rightarrow> u32 \<times> 'a hw_state_scheme" where
  "RF_getCurrentTime st = (rf_clock st (clock_reads st), st\<lparr>clock_reads := clock_reads st + 1\<rparr>)"

definition emit :: "hw_event \<Rightarrow> 'a hw_state_scheme \<Rightarrow> 'a hw_state_scheme" where
  "emit e st = st\<lparr>hw_trace := hw_trace st @ [e]\<rparr>"

section \<open>PacketTask.c\<close>

text \<open>Each of the eight queued frames owns a slice of \<open>packet_buf\<close>, its \<open>f_pData\<close>.\<close>

abbreviation (input) JANKY_QUEUE_SIZE :: nat where
  "JANKY_QUEUE_SIZE \<equiv> 8"

abbreviation (input) PACKET_SIZE :: nat where
  "PACKET_SIZE \<equiv> 260"

record packet_state = hw_state +
  minRssi :: u8
  targMac :: "u8 list"
  filterMacs :: bool
  targIrk :: "u8 list"
  filterRpas :: bool
  rpa_st :: rpa_state
  s_frames :: "ble_frame list"
  queue_head :: u32
  queue_tail :: u32

section \<open>DelayHopTrigger.c, DelayStopTrigger.c and RadioWrapper.c\<close>

text \<open>The sequence state the central and peripheral commands share with the radio.\<close>

record seq_stat =
  lastRxSn :: bool
  lastTxSn :: bool
  nextTxSn :: bool
  bFirstPkt :: bool
  bAutoEmpty :: bool
  bLlCtrlTx :: bool
  bLlCtrlAckRx :: bool
  bLlCtrlAckPending :: bool

record wrapper_state = packet_state +
  hop_pending :: bool
  hop_target_ticks :: u32
  stop_pending :: bool
  stop_target_ticks :: u32
  configured :: bool
  ble4_cmd :: bool
  master_seqStat :: seq_stat
  slave_seqStat :: seq_stat

section \<open>RadioTask.c\<close>

record adv_state = wrapper_state +
  snifferState :: sniffer_state
  sniffDoneState :: sniffer_state
  statChan :: u8
  statPHY :: phy_mode
  statCRCI :: u32
  fastAdvHop :: bool
  gotLegacy38 :: bool
  gotLegacy39 :: bool
  gotAuxConnReq :: bool
  lastAdvTimestamp :: u32
  sniffScanRspLen :: u32
  postponed :: bool
  advHopEnabled :: bool
  auxAdvEnabled :: bool
  followConnections :: bool
  validateCrc :: bool
  adv_cache_st :: adv_cache
  aux_events :: aux_sched

record conn_state = adv_state +
  mapping_table :: "u8 list"
  csa2_st :: csa2_state
  rconf :: radio_config
  rconf_queue :: conf_queue
  accessAddress :: u32
  curUnmapped :: u8
  hopIncrement :: u8
  crcInit :: u32
  nextHopTime :: u32
  connEventCount :: u32
  connTimeoutTime :: u32
  use_csa2 :: bool
  ll_encryption :: bool
  firstPacket :: bool
  anchorOffset :: "u32 list"
  aoInd :: u32
  lastAnchorTicks :: u32
  intervalTicks :: "u32 list"
  itInd :: u32
  chanMapTestMask :: u64
  moreData :: u8
  g_pkt_dir :: u8

record fw = conn_state +
  numParamPairs :: u32
  preloadedParamIndex :: u32
  connParamPairs :: "u16 list"
  connUpdateInstant :: u16
  prevInterval :: u16
  timeDelta :: u16
  ignoreEncPhyChange :: bool
  preloadedPhy :: phy_mode
  instaHop :: bool
  ourAddrRandom :: bool
  peerAddrRandom :: bool
  ourAddr :: "u8 list"
  peerAddr :: "u8 list"
  connReqLLData :: "u8 list"
  s_advMode :: adv_mode
  s_advExtMode :: adv_ext_mode
  s_primaryAdvPhy :: phy_mode
  s_secondaryAdvPhy :: phy_mode
  s_advIntervalMs :: u16
  s_adi :: u16
  s_secondaryAdvChan :: u8
  s_advLen :: u8
  s_advData :: "u8 list"
  s_scanRspLen :: u8
  s_scanRspData :: "u8 list"
  tx_q :: tx_queue

abbreviation (input) BLE_ADV_AA :: u32 where
  "BLE_ADV_AA \<equiv> 0x8E89BED6"

abbreviation (input) AO_TARG :: u32 where
  "AO_TARG \<equiv> 2000"

abbreviation (input) LISTEN_TICKS_MIN :: u32 where
  "LISTEN_TICKS_MIN \<equiv> 2000"

abbreviation (input) MAX_PARAM_PAIRS :: nat where
  "MAX_PARAM_PAIRS \<equiv> 4"

section \<open>Initial values\<close>

text \<open>
  The initialisers of the static variables; the ones without an initialiser are zero.  The
  frame queue is shown as \<open>PacketTask_init\<close> leaves it, with its buffers attached.
\<close>

definition frame_init :: ble_frame where
  "frame_init = \<lparr>f_timestamp = 0, f_length = 0, f_crcError = False, f_direction = 0, f_eventCtr = 0,
     f_rssi = 0, f_channel = 0, f_phy = PHY_1M, f_pData = replicate PACKET_SIZE 0\<rparr>"

definition rconf_init :: radio_config where
  "rconf_init = \<lparr>chanMap = 0, hopIntervalTicks = 0, connTimeoutTicks = 0, rc_offset = 0,
     peripheralLatency = 0, rc_phy = PHY_1M, intervalCertain = False, chanMapCertain = False,
     winOffsetCertain = False\<rparr>"

definition seq_stat_init :: seq_stat where
  "seq_stat_init = \<lparr>lastRxSn = False, lastTxSn = False, nextTxSn = False, bFirstPkt = False,
     bAutoEmpty = False, bLlCtrlTx = False, bLlCtrlAckRx = False, bLlCtrlAckPending = False\<rparr>"

definition tx_entry_init :: tx_entry where
  "tx_entry_init = \<lparr>te_next = 0, te_status = DATA_ENTRY_PENDING, te_type = DATA_ENTRY_TYPE_GEN,
     te_lenSz = 0, te_length = 0, te_data = replicate TX_PACKET_SIZE 0\<rparr>"

definition fw_init :: "board \<Rightarrow> (nat \<Rightarrow> u32) \<Rightarrow> fw" where
  "fw_init brd clk = \<lparr>
     board_conf = brd, rf_clock = clk, clock_reads = 0, hw_trace = [],
     minRssi = 0x80, targMac = replicate 6 0, filterMacs = False, targIrk = replicate 16 0,
     filterRpas = False, rpa_st = rpa_init, s_frames = replicate JANKY_QUEUE_SIZE frame_init,
     queue_head = 0, queue_tail = 0,
     hop_pending = False, hop_target_ticks = 0, stop_pending = False, stop_target_ticks = 0,
     configured = False, ble4_cmd = False, master_seqStat = seq_stat_init, slave_seqStat = seq_stat_init,
     snifferState = STATIC, sniffDoneState = STATIC, statChan = 37, statPHY = PHY_1M,
     statCRCI = 0x555555, fastAdvHop = False, gotLegacy38 = False, gotLegacy39 = False,
     gotAuxConnReq = False, lastAdvTimestamp = 0, sniffScanRspLen = 26, postponed = False,
     advHopEnabled = False, auxAdvEnabled = False, followConnections = True, validateCrc = True,
     adv_cache_st = adv_cache_init, aux_events = [],
     mapping_table = replicate 37 0, csa2_st = csa2_init, rconf = rconf_init,
     rconf_queue = \<lparr>configs = replicate 8 rconf_init, nextInstants = replicate 8 0, cq_head = 0, cq_tail = 0\<rparr>,
     accessAddress = BLE_ADV_AA, curUnmapped = 0, hopIncrement = 0, crcInit = 0, nextHopTime = 0,
     connEventCount = 0, connTimeoutTime = 0, use_csa2 = False, ll_encryption = False,
     firstPacket = False, anchorOffset = replicate 4 0, aoInd = 0, lastAnchorTicks = 0,
     intervalTicks = replicate 3 0, itInd = 0, chanMapTestMask = 0, moreData = 0, g_pkt_dir = 0,
     numParamPairs = 0, preloadedParamIndex = 0, connParamPairs = replicate 8 0,
     connUpdateInstant = 0, prevInterval = 0, timeDelta = 0, ignoreEncPhyChange = False,
     preloadedPhy = PHY_2M, instaHop = True, ourAddrRandom = False, peerAddrRandom = False,
     ourAddr = replicate 6 0, peerAddr = replicate 6 0, connReqLLData = replicate 22 0,
     s_advMode = LEGACY_CONNECTABLE, s_advExtMode = EXT_NON_CONNECTABLE, s_primaryAdvPhy = PHY_1M,
     s_secondaryAdvPhy = PHY_1M, s_advIntervalMs = 100, s_adi = 0, s_secondaryAdvChan = 0,
     s_advLen = 0, s_advData = replicate 254 0, s_scanRspLen = 0, s_scanRspData = replicate 31 0,
     tx_q = \<lparr>tx_entries = replicate 8 tx_entry_init, tx_head = 0, tx_tail = 0\<rparr>\<rparr>"

end
