(* ===== verification/Triggers.thy ===== *)
theory Triggers
  imports Firmware_State
begin

text \<open>
  DelayHopTrigger.c and DelayStopTrigger.c, with the two radio requests of RadioWrapper.c
  they make: one-shot clocks that move the advertising receiver to its next channel, or stop
  the radio, after a delay.
\<close>

unbundle bit_operations_syntax

section \<open>The radio requests\<close>

definition RadioWrapper_trigAdv3 :: "'a wrapper_state_scheme \<Rightarrow> 'a wrapper_state_scheme" where
  "RadioWrapper_trigAdv3 st = emit (Direct_cmd 0x04040001) st"

definition RadioWrapper_stop :: "'a wrapper_state_scheme \<Rightarrow> 'a wrapper_state_scheme" where
  "RadioWrapper_stop st = emit (Direct_cmd 0x04020001) st"

section \<open>Delayed hop\<close>

definition DelayHopTrigger_trig :: "u32 \<Rightarrow> 'a wrapper_state_scheme \<Rightarrow> 'a wrapper_state_scheme" where
  "DelayHopTrigger_trig delay_us st =
     (if delay_us = 0 then RadioWrapper_trigAdv3 st
      else let st = emit (Hop_timeout (delay_us div tickPeriod (board_conf st))) st;
               st = st\<lparr>hop_pending := True\<rparr>;
               (now, st) = RF_getCurrentTime st;
               st = st\<lparr>hop_target_ticks := now + delay_us * 4\<rparr>
           in emit Hop_start st)"

definition DelayHopTrigger_postpone :: "u32 \<Rightarrow> 'a wrapper_state_scheme \<Rightarrow> 'a wrapper_state_scheme" where
  "DelayHopTrigger_postpone delay_us st =
     (if \<not> hop_pending st then st
      else let st = emit Hop_stop st;
               (now, st) = RF_getCurrentTime st;
               new_delay_ticks = hop_target_ticks st - now + delay_us * 4;
               st = emit (Hop_timeout (drop_bit 2 new_delay_ticks div tickPeriod (board_conf st))) st
           in emit Hop_start st)"

definition DelayHopTrigger_tick :: "'a wrapper_state_scheme \<Rightarrow> 'a wrapper_state_scheme" where
  "DelayHopTrigger_tick st = RadioWrapper_trigAdv3 (st\<lparr>hop_pending := False\<rparr>)"

section \<open>Delayed stop\<close>

definition DelayStopTrigger_trig :: "u32 \<Rightarrow> 'a wrapper_state_scheme \<Rightarrow> 'a wrapper_state_scheme" where
  "DelayStopTrigger_trig delay_us st =
     (if delay_us = 0
      then let st = (if stop_pending st then (emit Stop_stop st)\<lparr>stop_pending := False\<rparr> else st)
           in RadioWrapper_stop st
      else let (now, st) = RF_getCurrentTime st;
               new_target_ticks = now + delay_us * 4
           in if stop_pending st \<and> stop_target_ticks st - new_target_ticks > 0x80000000 then st
              else let st = emit Stop_stop st;
                       st = emit (Stop_timeout (delay_us div tickPeriod (board_conf st))) st;
                       st = st\<lparr>stop_pending := True, stop_target_ticks := new_target_ticks\<rparr>
                   in emit Stop_start st)"

definition DelayStopTrigger_tick :: "'a wrapper_state_scheme \<Rightarrow> 'a wrapper_state_scheme" where
  "DelayStopTrigger_tick st = RadioWrapper_stop (st\<lparr>stop_pending := False\<rparr>)"

section \<open>A pending stop is never put off\<close>

text \<open>
  A run of stop requests, ticks of the clock apart; the clock has fired when the target
  of a pending stop is reached.
\<close>

lemma stop_target_min:
  assumes "since t (stop_target_ticks st) < 0x80000000"
    and "since t (rf_clock st (clock_reads st) + delay_us * 4) < 0x80000000"
    and "stop_pending st" "delay_us \<noteq> 0"
  shows "since t (stop_target_ticks (DelayStopTrigger_trig delay_us st)) =
    min (since t (stop_target_ticks st)) (since t (rf_clock st (clock_reads st) + delay_us * 4))
    \<and> stop_pending (DelayStopTrigger_trig delay_us st)"
proof -
  let ?new = "rf_clock st (clock_reads st) + delay_us * 4"
  have "stop_target_ticks st - ?new > 0x80000000 \<Longrightarrow> since t (stop_target_ticks st) < since t ?new"
    using before_iff [OF assms(1,2)] order_less_imp_le by blast
  moreover have "since t ?new \<le> since t (stop_target_ticks st)"
    if "\<not> stop_target_ticks st - ?new > 0x80000000"
  proof (cases "stop_target_ticks st - ?new = 0x80000000")
    case True
    then show ?thesis
      using before_iff [OF assms(1,2)] unat_diff_since [of "stop_target_ticks st" ?new t] assms(1,2)
      by (auto split: if_splits)
  next
    case False
    then show ?thesis
      using not_before_iff [OF assms(1,2)] that by (metis linorder_cases)
  qed
  ultimately show ?thesis
    using assms(3,4) unfolding DelayStopTrigger_trig_def RF_getCurrentTime_def emit_def
    by (auto simp: Let_def min_def)
qed

text \<open>
  Asking for a stop never delays one that is pending: with all times within half the
  range of the counter, the stop that is pending afterwards is due at the earlier of the two
  times, and a request without delay stops the radio at once.
\<close>

lemma DelayStopTrigger_never_later:
  assumes "since t (stop_target_ticks st) < 0x80000000"
    and "since t (rf_clock st (clock_reads st) + delay_us * 4) < 0x80000000"
    and "stop_pending st"
  shows "if delay_us = 0
    then Direct_cmd 0x04020001 \<in> set (hw_trace (DelayStopTrigger_trig delay_us st)) \<and>
         \<not> stop_pending (DelayStopTrigger_trig delay_us st)
    else stop_pending (DelayStopTrigger_trig delay_us st) \<and>
         since t (stop_target_ticks (DelayStopTrigger_trig delay_us st)) =
           min (since t (stop_target_ticks st)) (since t (rf_clock st (clock_reads st) + delay_us * 4))"
proof (cases "delay_us = 0")
  case True
  then show ?thesis
    by (simp add: DelayStopTrigger_trig_def RadioWrapper_stop_def emit_def Let_def)
next
  case False
  then show ?thesis
    using stop_target_min [OF assms(1-3)] by simp
qed

end
