(* ===== verification/Radio_Wrapper.thy ===== *)
theory Radio_Wrapper
  imports Triggers
begin

text \<open>
  RFQueue.c and RadioWrapper.c: the receive queue, the radio commands and the receive
  interrupt.  A radio command runs until it ends and its frames arrive meanwhile through the
  callback, so a function that runs one is split at that point: its first part yields the
  command with every field the code writes, its second part maps the radio's final status
  to the return code.  A chain of commands is the list of the commands in their order.  Every caller
  passes \<open>indicatePacket\<close> as the callback.  The fields of the command templates that the
  code does not assign come from the generated radio configuration and are left out.
\<close>

unbundle bit_operations_syntax

section \<open>The receive queue (RFQueue.c)\<close>

record rf_entry =
  re_offset :: nat
  re_next :: nat
  re_pending :: bool
  re_length :: u16

record rf_queue =
  rq_entries :: "rf_entry list"
  rq_current :: nat
  readEntry :: nat

abbreviation (input) RF_QUEUE_DATA_ENTRY_HEADER_SIZE :: nat where
  "RF_QUEUE_DATA_ENTRY_HEADER_SIZE \<equiv> 8"

definition RF_QUEUE_QUEUE_ALIGN_PADDING :: "nat \<Rightarrow> nat" where
  "RF_QUEUE_QUEUE_ALIGN_PADDING len = 4 - (len + RF_QUEUE_DATA_ENTRY_HEADER_SIZE) mod 4"

definition RF_QUEUE_DATA_ENTRY_BUFFER_SIZE :: "nat \<Rightarrow> nat \<Rightarrow> nat \<Rightarrow> nat" where
  "RF_QUEUE_DATA_ENTRY_BUFFER_SIZE numEntries dataSize appendedBytes =
     numEntries * (RF_QUEUE_DATA_ENTRY_HEADER_SIZE + dataSize + appendedBytes
       + RF_QUEUE_QUEUE_ALIGN_PADDING (dataSize + appendedBytes))"

text \<open>Offsets are from the start of the buffer; \<open>None\<close> is the return code 1.\<close>

definition RFQueue_defineQueue :: "nat \<Rightarrow> nat \<Rightarrow> nat \<Rightarrow> rf_queue option" where
  "RFQueue_defineQueue buf_len numEntries len =
     (if buf_len < numEntries * (len + RF_QUEUE_DATA_ENTRY_HEADER_SIZE + RF_QUEUE_QUEUE_ALIGN_PADDING len)
      then None
      else let pad = 4 - (len + RF_QUEUE_DATA_ENTRY_HEADER_SIZE) mod 4;
               entries = map (\<lambda>i. let buf = i * (RF_QUEUE_DATA_ENTRY_HEADER_SIZE + len + pad)
                 in \<lparr>re_offset = buf, re_next = buf + 8 + len + pad, re_pending = True,
                     re_length = of_nat len\<rparr>) [0..<numEntries]
           in Some \<lparr>rq_entries = entries[numEntries - 1 := (entries ! (numEntries - 1))\<lparr>re_next := 0\<rparr>],
                    rq_current = 0, readEntry = 0\<rparr>)"

text \<open>The entry at an offset.\<close>

definition entry_index :: "rf_queue \<Rightarrow> nat \<Rightarrow> nat option" where
  "entry_index q off = find (\<lambda>i. re_offset (rq_entries q ! i) = off) [0..<length (rq_entries q)]"

definition RFQueue_nextEntry :: "rf_queue \<Rightarrow> rf_queue option" where
  "RFQueue_nextEntry q = do {
     i \<leftarrow> entry_index q (readEntry q);
     let e = (rq_entries q ! i)\<lparr>re_pending := True\<rparr>;
     Some (q\<lparr>rq_entries := (rq_entries q)[i := e], readEntry := re_next e\<rparr>) }"

section \<open>Commands\<close>

datatype errno = EINVAL | ENODEV | ENOMEM | ENOLINK

datatype trigger_type = TRIG_NOW | TRIG_NEVER | TRIG_ABSTIME | TRIG_REL_PREVEND

datatype cond_rule = COND_ALWAYS | COND_NEVER | COND_STOP_ON_FALSE

text \<open>The final status of a radio command, as far as the code distinguishes it.\<close>

datatype rf_status =
  BLE_DONE_OK | BLE_DONE_RXTIMEOUT | BLE_DONE_NOSYNC | BLE_DONE_ENDED | BLE_DONE_STOPPED
  | BLE_DONE_CONNECT | BLE_DONE_CONNECT_CHSEL0 | BLE_STATUS_OTHER

record rx_config =
  bAutoFlushIgnored :: bool
  bAutoFlushCrcErr :: bool
  bAutoFlushEmpty :: bool
  bIncludeLenByte :: bool
  bIncludeCrc :: bool
  bAppendRssi :: bool
  bAppendStatus :: bool
  bAppendTimestamp :: bool

definition rx_config_of :: "bool \<Rightarrow> rx_config" where
  "rx_config_of flush_crc_err = \<lparr>bAutoFlushIgnored = True, bAutoFlushCrcErr = flush_crc_err,
     bAutoFlushEmpty = False, bIncludeLenByte = True, bIncludeCrc = False, bAppendRssi = True,
     bAppendStatus = True, bAppendTimestamp = True\<rparr>"

record phy_params =
  mainMode :: nat
  coding :: nat

definition mainMode_of :: "phy_mode \<Rightarrow> nat" where
  "mainMode_of phy = (if phy = PHY_CODED_S2 then 2 else phy_code phy)"

text \<open>\<open>None\<close> is a field left as the template has it.\<close>

record generic_rx =
  rx_channel :: u32
  rx_whitening :: u32
  rx_phy :: phy_params
  rx_accessAddress :: u32
  rx_crcInit :: "u8 \<times> u8 \<times> u8"
  rx_bRepeat :: bool
  rx_rxConfig :: rx_config
  rx_endTrigger :: trigger_type
  rx_endEnaCmd :: "bool option"
  rx_endTime :: u32
  rx_condition :: "cond_rule option"

definition crc_bytes :: "u32 \<Rightarrow> u8 \<times> u8 \<times> u8" where
  "crc_bytes crc = (ucast (crc AND 0xFF), ucast (drop_bit 8 crc AND 0xFF), ucast (drop_bit 16 crc AND 0xFF))"

definition end_trigger :: "bool \<Rightarrow> u32 \<Rightarrow> trigger_type \<times> u32" where
  "end_trigger forever timeout = (if forever then (TRIG_NEVER, 0) else (TRIG_ABSTIME, timeout))"

definition RadioWrapper_recvFrames ::
  "phy_mode \<Rightarrow> u32 \<Rightarrow> u32 \<Rightarrow> u32 \<Rightarrow> u32 \<Rightarrow> bool \<Rightarrow> bool \<Rightarrow> fw \<Rightarrow> errno + generic_rx list \<times> fw" where
  "RadioWrapper_recvFrames phy chan accessAddr crc timeout forever validate st =
     (if \<not> configured st \<or> chan \<ge> 40 then Inl EINVAL
      else let st = st\<lparr>ble4_cmd := False\<rparr>;
               (endTrigger, endTime) = end_trigger forever timeout
           in Inr ([\<lparr>rx_channel = chan, rx_whitening = 0x40 + chan,
                 rx_phy = \<lparr>mainMode = mainMode_of phy, coding = 0\<rparr>,
                 rx_accessAddress = accessAddr, rx_crcInit = crc_bytes crc, rx_bRepeat = True,
                 rx_rxConfig = rx_config_of validate, rx_endTrigger = endTrigger, rx_endEnaCmd = None,
                 rx_endTime = endTime, rx_condition = None\<rparr>], st))"

text \<open>The chain 37, 38, 39, with 38 left out when \<open>delay1\<close> is zero.\<close>

definition RadioWrapper_recvAdv3 :: "u32 \<Rightarrow> u32 \<Rightarrow> bool \<Rightarrow> fw \<Rightarrow> errno + generic_rx list \<times> fw" where
  "RadioWrapper_recvAdv3 delay1 delay2 validate st =
     (if \<not> configured st then Inl EINVAL
      else let st = st\<lparr>ble4_cmd := False\<rparr>;
               common = \<lparr>rx_channel = 0, rx_whitening = 0, rx_phy = \<lparr>mainMode = phy_code PHY_1M, coding = 0\<rparr>,
                 rx_accessAddress = 0x8E89BED6, rx_crcInit = (0x55, 0x55, 0x55), rx_bRepeat = True,
                 rx_rxConfig = rx_config_of validate, rx_endTrigger = TRIG_NEVER, rx_endEnaCmd = Some False,
                 rx_endTime = 0, rx_condition = Some COND_ALWAYS\<rparr>;
               sniff37 = common\<lparr>rx_channel := 37, rx_endTrigger := TRIG_NEVER, rx_endEnaCmd := Some True\<rparr>;
               sniff38 = common\<lparr>rx_channel := 38, rx_endTrigger := TRIG_REL_PREVEND, rx_endTime := delay1\<rparr>;
               sniff39 = common\<lparr>rx_channel := 39, rx_condition := Some COND_NEVER,
                 rx_endTrigger := TRIG_REL_PREVEND, rx_endTime := delay2\<rparr>
           in Inr (if delay1 > 0 then [sniff37, sniff38, sniff39] else [sniff37, sniff39], st))"

record scanner_cmd =
  sc_legacy :: bool
  sc_channel :: u32
  sc_whitening :: u32
  sc_phy :: "phy_params option"
  sc_bActiveScan :: bool
  sc_deviceAddrType :: bool
  sc_rpaFilterPolicy :: bool
  sc_backoffCount :: nat
  sc_deviceAddress :: "u8 list"
  sc_rxConfig :: rx_config
  sc_endTrigger :: trigger_type
  sc_endTime :: u32
  sc_timeoutTrigger :: trigger_type

definition RadioWrapper_scan ::
  "phy_mode \<Rightarrow> u32 \<Rightarrow> u32 \<Rightarrow> bool \<Rightarrow> u8 list \<Rightarrow> bool \<Rightarrow> bool \<Rightarrow> fw \<Rightarrow> errno + scanner_cmd \<times> fw" where
  "RadioWrapper_scan phy chan timeout forever scanAddr scanRandom validate st =
     (if \<not> configured st \<or> chan < 37 \<or> chan > 39 then Inl EINVAL
      else let st = st\<lparr>ble4_cmd := False\<rparr>;
               (endTrigger, endTime) = end_trigger forever timeout
           in Inr (\<lparr>sc_legacy = False, sc_channel = chan, sc_whitening = 0x40 + chan,
                 sc_phy = Some \<lparr>mainMode = mainMode_of phy, coding = (if phy = PHY_CODED_S2 then 6 else 4)\<rparr>,
                 sc_bActiveScan = True, sc_deviceAddrType = scanRandom, sc_rpaFilterPolicy = True,
                 sc_backoffCount = 1, sc_deviceAddress = scanAddr, sc_rxConfig = rx_config_of validate,
                 sc_endTrigger = endTrigger, sc_endTime = endTime, sc_timeoutTrigger = TRIG_NEVER\<rparr>, st))"

definition RadioWrapper_scanLegacy ::
  "u32 \<Rightarrow> u32 \<Rightarrow> bool \<Rightarrow> u8 list \<Rightarrow> bool \<Rightarrow> bool \<Rightarrow> fw \<Rightarrow> errno + scanner_cmd \<times> fw" where
  "RadioWrapper_scanLegacy chan timeout forever scanAddr scanRandom validate st =
     (if \<not> configured st \<or> chan < 37 \<or> chan > 39 then Inl EINVAL
      else let st = st\<lparr>ble4_cmd := True\<rparr>;
               (endTrigger, endTime) = end_trigger forever timeout
           in Inr (\<lparr>sc_legacy = True, sc_channel = chan, sc_whitening = 0x40 + chan, sc_phy = None,
                 sc_bActiveScan = True, sc_deviceAddrType = scanRandom, sc_rpaFilterPolicy = True,
                 sc_backoffCount = 1, sc_deviceAddress = scanAddr, sc_rxConfig = rx_config_of validate,
                 sc_endTrigger = endTrigger, sc_endTime = endTime, sc_timeoutTrigger = TRIG_NEVER\<rparr>, st))"

section \<open>Connections\<close>

record data_cmd =
  dc_channel :: u32
  dc_whitening :: u32
  dc_phy :: phy_params
  dc_txQueue :: data_queue
  dc_accessAddress :: u32
  dc_crcInit :: "u8 \<times> u8 \<times> u8"
  dc_maxRxPktLen :: u8
  dc_rxConfig :: rx_config
  dc_seqStat :: seq_stat
  dc_startTrigger :: trigger_type
  dc_startTime :: "u32 option"
  dc_endTrigger :: trigger_type
  dc_endTime :: u32
  dc_timeout :: "(trigger_type \<times> u32) option"

text \<open>The settings of the central and the peripheral command; \<open>startTime\<close> zero is now.\<close>

definition data_cmd_of ::
  "phy_mode \<Rightarrow> u32 \<Rightarrow> u32 \<Rightarrow> u32 \<Rightarrow> u32 \<Rightarrow> data_queue \<Rightarrow> u32 \<Rightarrow> seq_stat \<Rightarrow> (trigger_type \<times> u32) option \<Rightarrow> data_cmd" where
  "data_cmd_of phy chan accessAddr crc timeout txQueue startTime seqStat rxTimeout =
     \<lparr>dc_channel = chan, dc_whitening = 0x40 + chan,
      dc_phy = \<lparr>mainMode = mainMode_of phy, coding = (if phy = PHY_CODED_S2 then 1 else 0)\<rparr>,
      dc_txQueue = txQueue, dc_accessAddress = accessAddr, dc_crcInit = crc_bytes crc,
      dc_maxRxPktLen = 0xFF, dc_rxConfig = rx_config_of True, dc_seqStat = seqStat,
      dc_startTrigger = (if startTime = 0 then TRIG_NOW else TRIG_ABSTIME),
      dc_startTime = (if startTime = 0 then None else Some startTime),
      dc_endTrigger = TRIG_ABSTIME, dc_endTime = timeout, dc_timeout = rxTimeout\<rparr>"

definition RadioWrapper_central ::
  "phy_mode \<Rightarrow> u32 \<Rightarrow> u32 \<Rightarrow> u32 \<Rightarrow> u32 \<Rightarrow> data_queue \<Rightarrow> u32 \<Rightarrow> fw \<Rightarrow> errno + data_cmd \<times> fw" where
  "RadioWrapper_central phy chan accessAddr crc timeout txQueue startTime st =
     (if \<not> configured st \<or> chan \<ge> 37 then Inl EINVAL
      else let st = st\<lparr>ble4_cmd := False\<rparr>
           in Inr (data_cmd_of phy chan accessAddr crc timeout txQueue startTime (master_seqStat st) None, st))"

definition RadioWrapper_peripheral ::
  "phy_mode \<Rightarrow> u32 \<Rightarrow> u32 \<Rightarrow> u32 \<Rightarrow> u32 \<Rightarrow> data_queue \<Rightarrow> u32 \<Rightarrow> fw \<Rightarrow> errno + data_cmd \<times> fw" where
  "RadioWrapper_peripheral phy chan accessAddr crc timeout txQueue startTime st =
     (if \<not> configured st \<or> chan \<ge> 37 then Inl EINVAL
      else let st = st\<lparr>ble4_cmd := False\<rparr>
           in Inr (data_cmd_of phy chan accessAddr crc timeout txQueue startTime (slave_seqStat st)
                     (Some (TRIG_ABSTIME, timeout)), st))"

text \<open>The return code of both, from the final status.\<close>

definition data_cmd_result :: "rf_status \<Rightarrow> errno + int" where
  "data_cmd_result status =
     (if status \<in> {BLE_DONE_OK, BLE_DONE_ENDED, BLE_DONE_STOPPED} then Inr 0 else Inl ENOLINK)"

definition seq_stat_reset :: seq_stat where
  "seq_stat_reset = \<lparr>lastRxSn = True, lastTxSn = True, nextTxSn = False, bFirstPkt = True,
     bAutoEmpty = False, bLlCtrlTx = False, bLlCtrlAckRx = False, bLlCtrlAckPending = False\<rparr>"

definition RadioWrapper_resetSeqStat :: "fw \<Rightarrow> fw" where
  "RadioWrapper_resetSeqStat st = st\<lparr>master_seqStat := seq_stat_reset, slave_seqStat := seq_stat_reset\<rparr>"

record initiator_cmd =
  in_channel :: u32
  in_whitening :: u32
  in_phy :: phy_params
  in_rxConfig :: rx_config
  in_bUseWhiteList :: bool
  in_bDynamicWinOffset :: bool
  in_deviceAddrType :: bool
  in_peerAddrType :: bool
  in_bStrictLenFilter :: bool
  in_chSel :: bool
  in_connectReqLen :: nat
  in_connectReqData :: "u8 list"
  in_deviceAddress :: "u8 list"
  in_peerAddress :: "u8 list"
  in_connectTime :: u32
  in_endTrigger :: trigger_type
  in_endTime :: u32

definition RadioWrapper_initiate ::
  "phy_mode \<Rightarrow> u32 \<Rightarrow> u32 \<Rightarrow> bool \<Rightarrow> u8 list \<Rightarrow> bool \<Rightarrow> u8 list \<Rightarrow> bool \<Rightarrow> u8 list \<Rightarrow> fw
    \<Rightarrow> errno + initiator_cmd \<times> fw" where
  "RadioWrapper_initiate phy chan timeout forever initAddr initRandom peerAddress peerRandom connReqData st =
     (if \<not> configured st then Inl EINVAL
      else let st = st\<lparr>ble4_cmd := False\<rparr>;
               (now, st) = RF_getCurrentTime st;
               (endTrigger, endTime) = end_trigger forever timeout
           in Inr (\<lparr>in_channel = chan, in_whitening = 0x40 + chan,
                 in_phy = \<lparr>mainMode = mainMode_of phy, coding = (if phy = PHY_CODED_S2 then 6 else 4)\<rparr>,
                 in_rxConfig = rx_config_of True, in_bUseWhiteList = False, in_bDynamicWinOffset = True,
                 in_deviceAddrType = initRandom, in_peerAddrType = peerRandom, in_bStrictLenFilter = True,
                 in_chSel = True, in_connectReqLen = 22, in_connectReqData = connReqData,
                 in_deviceAddress = initAddr, in_peerAddress = peerAddress, in_connectTime = now + 4000,
                 in_endTrigger = endTrigger, in_endTime = endTime\<rparr>, st))"

text \<open>
  The PHY of the connection and the return code, from the final status, the listening time
  the radio reports (zero when no auxiliary packet was received) and its PHY field.
\<close>

definition initiate_phy :: "rf_status \<Rightarrow> u32 \<Rightarrow> nat \<Rightarrow> phy_mode" where
  "initiate_phy status rxListenTime phyMode =
     (if status = BLE_DONE_CONNECT_CHSEL0 then PHY_1M
      else if rxListenTime = 0 then PHY_1M else phy_of_code phyMode)"

definition initiate_result :: "rf_status \<Rightarrow> u32 \<Rightarrow> int" where
  "initiate_result status rxListenTime =
     (case status of
        BLE_DONE_CONNECT \<Rightarrow> if rxListenTime \<noteq> 0 then 2 else 1
      | BLE_DONE_CONNECT_CHSEL0 \<Rightarrow> 0
      | BLE_DONE_RXTIMEOUT \<Rightarrow> -1
      | BLE_DONE_ENDED \<Rightarrow> -1
      | BLE_DONE_STOPPED \<Rightarrow> -1
      | BLE_DONE_NOSYNC \<Rightarrow> -2
      | _ \<Rightarrow> -3)"

section \<open>Advertising\<close>

record adv_params =
  ap_rxConfig :: rx_config
  ap_deviceAddrType :: bool
  ap_chSel :: bool
  ap_advLen :: u8
  ap_scanRspLen :: u8
  ap_advData :: "u8 list"
  ap_scanRspData :: "u8 list"
  ap_deviceAddress :: "u8 list"
  ap_endTrigger :: trigger_type

record adv_cmd =
  ac_commandNo :: u16
  ac_condition :: cond_rule
  ac_channel :: u32
  ac_params :: adv_params

text \<open>The callback flag is set before the mode is checked, as in the code.\<close>

definition RadioWrapper_advertise3 ::
  "u8 list \<Rightarrow> bool \<Rightarrow> u8 list \<Rightarrow> u8 \<Rightarrow> u8 list \<Rightarrow> u8 \<Rightarrow> adv_mode \<Rightarrow> fw \<Rightarrow> (errno + adv_cmd list) \<times> fw" where
  "RadioWrapper_advertise3 advAddr advRandom advData advLen scanRspData scanRspLen mode st =
     (if \<not> configured st then (Inl EINVAL, st)
      else let st = st\<lparr>ble4_cmd := True\<rparr>;
               params = \<lparr>ap_rxConfig = rx_config_of True, ap_deviceAddrType = advRandom, ap_chSel = True,
                 ap_advLen = advLen, ap_scanRspLen = scanRspLen, ap_advData = advData,
                 ap_scanRspData = scanRspData, ap_deviceAddress = advAddr, ap_endTrigger = TRIG_NEVER\<rparr>;
               chain = (\<lambda>no. [\<lparr>ac_commandNo = no, ac_condition = COND_STOP_ON_FALSE, ac_channel = 37, ac_params = params\<rparr>,
                 \<lparr>ac_commandNo = no, ac_condition = COND_STOP_ON_FALSE, ac_channel = 38, ac_params = params\<rparr>,
                 \<lparr>ac_commandNo = no, ac_condition = COND_NEVER, ac_channel = 39, ac_params = params\<rparr>])
           in (case mode of
                 LEGACY_CONNECTABLE \<Rightarrow> Inr (chain 0x1803)
               | LEGACY_NON_CONNECTABLE \<Rightarrow> Inr (chain 0x1805)
               | LEGACY_SCANNABLE \<Rightarrow> Inr (chain 0x1806)
               | LEGACY_DIRECT \<Rightarrow> Inl EINVAL, st))"

definition advertise3_result :: "rf_status \<Rightarrow> rf_status \<Rightarrow> rf_status \<Rightarrow> int" where
  "advertise3_result status37 status38 status39 =
     (if BLE_DONE_CONNECT \<in> {status37, status38, status39} then 1
      else if BLE_DONE_CONNECT_CHSEL0 \<in> {status37, status38, status39} then 0 else -1)"

record ext_adv_pkt =
  ep_extHdrLen :: nat
  ep_advMode :: nat
  ep_extHdrFlags :: u8
  ep_bSkipAdvA :: bool
  ep_bSkipTargetA :: bool
  ep_extHeader :: "u8 list"
  ep_advDataLen :: u8
  ep_advData :: "u8 list"

definition ext_adv_pkt_zero :: ext_adv_pkt where
  "ext_adv_pkt_zero = \<lparr>ep_extHdrLen = 0, ep_advMode = 0, ep_extHdrFlags = 0, ep_bSkipAdvA = False,
     ep_bSkipTargetA = False, ep_extHeader = [], ep_advDataLen = 0, ep_advData = []\<rparr>"

text \<open>The three primary channel commands share their parameters; the last one runs the auxiliary command.\<close>

record adv_ext_cmd =
  ae_primaryChannels :: "u32 list"
  ae_primaryPhy :: phy_params
  ae_primaryDeviceAddrType :: bool
  ae_auxPtrTargetTime :: u32
  ae_primaryPkt :: ext_adv_pkt
  ae_auxStartTime :: u32
  ae_auxChannel :: u32
  ae_auxPhy :: phy_params
  ae_auxRxConfig :: rx_config
  ae_auxPkt :: ext_adv_pkt
  ae_auxRspPkt :: ext_adv_pkt
  ae_deviceAddress :: "u8 list"

definition ext_phy :: "phy_mode \<Rightarrow> phy_params" where
  "ext_phy phy = \<lparr>mainMode = mainMode_of phy, coding = (if phy = PHY_CODED_S2 then 7 else 4)\<rparr>"

definition ext_header :: "u16 \<Rightarrow> u32 \<Rightarrow> phy_mode \<Rightarrow> u8 list" where
  "ext_header adi secondaryChan secondaryPhy =
     bytes16 adi @ [ucast (secondaryChan OR 0x40), 0,
       (if secondaryPhy = PHY_CODED_S2 then push_bit 5 2 else push_bit 5 (of_nat (phy_code secondaryPhy)))]"

definition aux_target_delay :: "phy_mode \<Rightarrow> u32" where
  "aux_target_delay primaryPhy =
     (if primaryPhy = PHY_1M then 2 * 4000 else if primaryPhy = PHY_CODED_S8 then 5 * 4000 else 3 * 4000)"

definition RadioWrapper_advertiseExt3 ::
  "u8 list \<Rightarrow> bool \<Rightarrow> u8 list \<Rightarrow> u8 \<Rightarrow> adv_ext_mode \<Rightarrow> phy_mode \<Rightarrow> phy_mode \<Rightarrow> u32 \<Rightarrow> u16 \<Rightarrow> fw
    \<Rightarrow> errno + adv_ext_cmd \<times> fw" where
  "RadioWrapper_advertiseExt3 advAddr advRandom advData advLen mode primaryPhy secondaryPhy secondaryChan adi st =
     (if \<not> configured st \<or> primaryPhy = PHY_2M \<or> secondaryChan > 36
         \<or> adv_ext_mode_code mode > adv_ext_mode_code EXT_SCANNABLE then Inl EINVAL
      else let st = st\<lparr>ble4_cmd := False\<rparr>;
               (now, st) = RF_getCurrentTime st;
               target = now + aux_target_delay primaryPhy;
               extHdr = ext_header adi secondaryChan secondaryPhy;
               advPkt = ext_adv_pkt_zero\<lparr>ep_extHdrLen := 6, ep_advMode := adv_ext_mode_code mode,
                 ep_extHdrFlags := 0x18, ep_extHeader := extHdr\<rparr>;
               advPkt2 = ext_adv_pkt_zero\<lparr>ep_extHdrLen := 9, ep_advMode := adv_ext_mode_code mode,
                 ep_extHdrFlags := 0x09, ep_bSkipAdvA := True, ep_extHeader := extHdr\<rparr>;
               advPkt2 = (if mode \<noteq> EXT_SCANNABLE
                 then advPkt2\<lparr>ep_advDataLen := advLen, ep_advData := advData\<rparr> else advPkt2);
               advPkt3 = (case mode of
                   EXT_CONNECTABLE \<Rightarrow> ext_adv_pkt_zero\<lparr>ep_extHdrLen := 13, ep_advMode := 0,
                     ep_extHdrFlags := 0x03, ep_bSkipAdvA := True, ep_bSkipTargetA := True\<rparr>
                 | EXT_SCANNABLE \<Rightarrow> ext_adv_pkt_zero\<lparr>ep_extHdrLen := 9, ep_advMode := 0,
                     ep_extHdrFlags := 0x09, ep_bSkipAdvA := True, ep_extHeader := extHdr,
                     ep_advDataLen := advLen, ep_advData := advData\<rparr>
                 | EXT_NON_CONNECTABLE \<Rightarrow> ext_adv_pkt_zero)
           in Inr (\<lparr>ae_primaryChannels = [37, 38, 39], ae_primaryPhy = ext_phy primaryPhy,
                 ae_primaryDeviceAddrType = advRandom, ae_auxPtrTargetTime = target, ae_primaryPkt = advPkt,
                 ae_auxStartTime = target, ae_auxChannel = secondaryChan, ae_auxPhy = ext_phy secondaryPhy,
                 ae_auxRxConfig = rx_config_of True, ae_auxPkt = advPkt2, ae_auxRspPkt = advPkt3,
                 ae_deviceAddress = advAddr\<rparr>, st))"

definition advertiseExt3_result :: "rf_status \<Rightarrow> int" where
  "advertiseExt3_result aux_status = (if aux_status = BLE_DONE_CONNECT then 0 else -1)"

section \<open>Setup and transmit power\<close>

text \<open>\<open>handle_ok\<close> is whether the driver could be opened; the buffer is sized for the queue it holds.\<close>

definition RadioWrapper_init :: "bool \<Rightarrow> fw \<Rightarrow> (errno + int) \<times> rf_queue option \<times> fw" where
  "RadioWrapper_init handle_ok st =
     (if configured st then (Inr 0, None, st)
      else if \<not> handle_ok then (Inl ENODEV, None, st)
      else case RFQueue_defineQueue (RF_QUEUE_DATA_ENTRY_BUFFER_SIZE 2 257 7) 2 (257 + 7) of
             None \<Rightarrow> (Inl ENOMEM, None, st)
           | Some q \<Rightarrow> (Inr 0, Some q, st\<lparr>configured := True\<rparr>))"

definition RadioWrapper_close :: "fw \<Rightarrow> (errno + int) \<times> fw" where
  "RadioWrapper_close st =
     (if \<not> configured st then (Inl EINVAL, st) else (Inr 0, st\<lparr>configured := False\<rparr>))"

text \<open>The search loop over the power table, with the value to use when no entry is enough.\<close>

fun tx_power_value :: "u8 \<Rightarrow> u16 \<Rightarrow> (u8 \<times> u16) list \<Rightarrow> u16" where
  "tx_power_value dbm value [] = value"
| "tx_power_value dbm value ((p, v) # table) =
     (if sint p \<ge> sint dbm then v else tx_power_value dbm value table)"

definition RadioWrapper_setTxPower :: "u8 \<Rightarrow> fw \<Rightarrow> fw option" where
  "RadioWrapper_setTxPower dbm st =
     (let table = txPowerTable (board_conf st)
      in if table = [] then None
         else Some (emit (Set_tx_power (tx_power_value dbm (snd (last table)) table)) st))"

section \<open>The receive interrupt\<close>

text \<open>
  The frame built from the data bytes of a finished entry.  The pointer handed to the
  callback reaches to the end of the entry's data.
\<close>

definition rx_frame :: "bool \<Rightarrow> u8 list \<Rightarrow> ble_frame option" where
  "rx_frame ble4 packet = do {
     len \<leftarrow> rd packet 1;
     let l = unat len + 2;
     rssi \<leftarrow> rd packet l;
     status \<leftarrow> rd packet (l + 1);
     (phy, timestamp) \<leftarrow>
       (if ble4 then do { t \<leftarrow> rd32 packet (l + 2); Some (PHY_1M, t) }
        else do { p \<leftarrow> rd packet (l + 2); t \<leftarrow> rd32 packet (l + 3); Some (phy_of_code (unat (p AND 0x3)), t) });
     Some \<lparr>f_timestamp = timestamp, f_length = of_nat l, f_crcError = (status AND 0x80 \<noteq> 0),
           f_direction = 0, f_eventCtr = 0, f_rssi = rssi, f_channel = ucast (status AND 0x3F),
           f_phy = phy, f_pData = packet\<rparr> }"

section \<open>Layout of the receive queue\<close>

lemma RFQueue_defineQueue_entries:
  assumes "RFQueue_defineQueue buf_len n len = Some q" "0 < n"
    "sz = RF_QUEUE_DATA_ENTRY_HEADER_SIZE + len + (4 - (len + RF_QUEUE_DATA_ENTRY_HEADER_SIZE) mod 4)"
  shows "length (rq_entries q) = n" "i < n \<Longrightarrow> re_offset (rq_entries q ! i) = i * sz"
    "i < n \<Longrightarrow> re_next (rq_entries q ! i) = (if Suc i = n then 0 else Suc i * sz)"
    "n * sz \<le> buf_len" "readEntry q = 0"
proof -
  define pad where "pad = 4 - (len + 8) mod 4"
  define f where "f i = \<lparr>re_offset = i * (8 + len + pad), re_next = i * (8 + len + pad) + 8 + len + pad,
    re_pending = True, re_length = of_nat len\<rparr>" for i
  have sz: "sz = 8 + len + pad"
    by (simp add: assms(3) pad_def)
  have "\<not> buf_len < n * (len + 8 + pad)" and
    q: "rq_entries q = (map f [0..<n])[n - 1 := (map f [0..<n] ! (n - 1))\<lparr>re_next := 0\<rparr>]" "readEntry q = 0"
    using assms(1)
    unfolding RFQueue_defineQueue_def RF_QUEUE_QUEUE_ALIGN_PADDING_def Let_def pad_def [symmetric] f_def [symmetric]
    by (auto split: if_splits)
  then show "n * sz \<le> buf_len"
    by (simp add: sz add.commute add.left_commute)
  show "length (rq_entries q) = n" "readEntry q = 0"
    by (simp_all add: q)
  show "re_offset (rq_entries q ! i) = i * sz" if "i < n"
    using that by (simp add: q(1) nth_list_update f_def sz)
  show "re_next (rq_entries q ! i) = (if Suc i = n then 0 else Suc i * sz)" if "i < n"
    using that by (auto simp add: q(1) nth_list_update f_def sz)
qed

lemma entry_index_offset:
  assumes "RFQueue_defineQueue buf_len n len = Some q" "i < n"
  shows "entry_index q (re_offset (rq_entries q ! i)) = Some i"
proof -
  define sz where "sz = 8 + len + (4 - (len + 8) mod 4)"
  have n: "0 < n" using assms(2) by simp
  note e = RFQueue_defineQueue_entries [OF assms(1) n sz_def]
  have "0 < sz" by (simp add: sz_def)
  then have "re_offset (rq_entries q ! j) \<noteq> re_offset (rq_entries q ! i)" if "j < i" for j
    using that e(2) [of j] e(2) [of i] assms(2) by simp
  then show ?thesis
    using assms(2) e(1) unfolding entry_index_def find_Some_iff
    by (intro exI [of _ i]) simp
qed

text \<open>
  A queue that \<open>RFQueue_defineQueue\<close> accepts lies inside its buffer, its entries with
  their headers and data do not overlap, and every entry links to the next, the last to the first.
\<close>

theorem RFQueue_defineQueue_layout:
  assumes "RFQueue_defineQueue buf_len n len = Some q" "i < n"
  shows "re_offset (rq_entries q ! i) + RF_QUEUE_DATA_ENTRY_HEADER_SIZE + len \<le> buf_len \<and>
    (\<forall>j<n. i < j \<longrightarrow> re_offset (rq_entries q ! i) + RF_QUEUE_DATA_ENTRY_HEADER_SIZE + len
       \<le> re_offset (rq_entries q ! j)) \<and>
    re_next (rq_entries q ! i) = re_offset (rq_entries q ! (Suc i mod n))"
proof -
  define sz where "sz = 8 + len + (4 - (len + 8) mod 4)"
  have n: "0 < n" using assms(2) by simp
  note e = RFQueue_defineQueue_entries [OF assms(1) n sz_def]
  have step: "i * sz + 8 + len \<le> j * sz" if "i < j" for j
  proof -
    have "Suc i * sz \<le> j * sz"
      using that by (intro mult_right_mono) simp_all
    then have "sz + i * sz \<le> j * sz" by simp
    moreover have "8 + len \<le> sz" by (simp add: sz_def)
    ultimately show ?thesis by linarith
  qed
  have "i * sz + 8 + len \<le> buf_len"
    using step [OF assms(2)] e(4) by linarith
  moreover have "re_next (rq_entries q ! i) = re_offset (rq_entries q ! (Suc i mod n))"
    using assms(2) n e(2,3) by (cases "Suc i = n") auto
  ultimately show ?thesis
    using step e(2) assms(2) by simp
qed

lemma RFQueue_defineQueue_layout_witness:
  "\<exists>q. RFQueue_defineQueue (RF_QUEUE_DATA_ENTRY_BUFFER_SIZE 2 257 7) 2 264 = Some q \<and>
     re_next (rq_entries q ! 1) = re_offset (rq_entries q ! 0)"
proof -
  obtain q where q: "RFQueue_defineQueue (RF_QUEUE_DATA_ENTRY_BUFFER_SIZE 2 257 7) 2 264 = Some q"
    by (simp add: RFQueue_defineQueue_def RF_QUEUE_DATA_ENTRY_BUFFER_SIZE_def
        RF_QUEUE_QUEUE_ALIGN_PADDING_def Let_def)
  then show ?thesis
    using RFQueue_defineQueue_layout [OF q, of 1] by simp
qed

text \<open>The interrupt moves through the entries in order and comes back to the first.\<close>

lemma RFQueue_nextEntry_cycles:
  assumes "RFQueue_defineQueue buf_len n len = Some q" "i < n" "readEntry q = re_offset (rq_entries q ! i)"
  shows "map_option readEntry (RFQueue_nextEntry q) = Some (re_next (rq_entries q ! i))"
  using entry_index_offset [OF assms(1,2)] assms(3) by (simp add: RFQueue_nextEntry_def)

section \<open>The bytes of a received entry\<close>

lemma rx_frame_Some:
  assumes "264 \<le> length packet"
  defines "l \<equiv> unat (packet ! 1) + 2"
  shows "rx_frame ble4 packet = Some \<lparr>
    f_timestamp = (if ble4 then le32 (packet ! (l + 2)) (packet ! (l + 3)) (packet ! (l + 4)) (packet ! (l + 5))
      else le32 (packet ! (l + 3)) (packet ! (l + 4)) (packet ! (l + 5)) (packet ! (l + 6))),
    f_length = of_nat l, f_crcError = (packet ! (l + 1) AND 0x80 \<noteq> 0), f_direction = 0, f_eventCtr = 0,
    f_rssi = packet ! l, f_channel = ucast (packet ! (l + 1) AND 0x3F),
    f_phy = (if ble4 then PHY_1M else phy_of_code (unat (packet ! (l + 2) AND 0x3))), f_pData = packet\<rparr>"
proof -
  have "unat (packet ! 1) < 256"
    using unsigned_less [of "packet ! 1"] by simp
  then have "l + 7 \<le> length packet"
    using assms(1) by (simp add: l_def)
  then have "rd packet 1 = Some (packet ! 1)" "rd packet l = Some (packet ! l)"
    "rd packet (l + 1) = Some (packet ! (l + 1))" "rd packet (l + 2) = Some (packet ! (l + 2))"
    "rd32 packet (l + 2) = Some (le32 (packet ! (l + 2)) (packet ! (l + 3)) (packet ! (l + 4)) (packet ! (l + 5)))"
    "rd32 packet (l + 3) = Some (le32 (packet ! (l + 3)) (packet ! (l + 4)) (packet ! (l + 5)) (packet ! (l + 6)))"
    using rd32_Some [of "l + 2" packet] rd32_Some [of "l + 3" packet]
    by (simp_all add: numeral_eq_Suc)
  then show ?thesis
    by (cases ble4) (simp_all only: rx_frame_def bind.bind_lunit Let_def l_def [symmetric] if_True if_False
        prod.case simp_thms)
qed

text \<open>An entry as the radio writes it.\<close>

definition rx_entry :: "bool \<Rightarrow> u8 \<Rightarrow> u8 list \<Rightarrow> u8 \<Rightarrow> u8 \<Rightarrow> u8 \<Rightarrow> u32 \<Rightarrow> u8 list" where
  "rx_entry ble4 hdr body rssi status phy timestamp =
     hdr # of_nat (length body) # body @ [rssi, status] @ (if ble4 then [] else [phy]) @ bytes32 timestamp"

text \<open>
  The receive interrupt never reads outside an entry of 264 bytes, and gives back what
  the radio wrote: from an entry with a body of at most 255 bytes it builds the frame with
  that header and body, signal strength, channel, CRC flag, PHY and time stamp.
\<close>

theorem rx_frame_entry:
  assumes "length body \<le> 255" "264 \<le> length (rx_entry ble4 hdr body rssi status phy timestamp @ pad)"
  shows "\<exists>f. rx_frame ble4 (rx_entry ble4 hdr body rssi status phy timestamp @ pad) = Some f \<and>
    flen f = length body + 2 \<and> take (flen f) (f_pData f) = hdr # of_nat (length body) # body \<and>
    f_rssi f = rssi \<and> f_channel f = ucast (status AND 0x3F) \<and> f_crcError f = (status AND 0x80 \<noteq> 0) \<and>
    f_phy f = (if ble4 then PHY_1M else phy_of_code (unat (phy AND 0x3))) \<and> f_timestamp f = timestamp"
proof -
  define p n where "p = rx_entry ble4 hdr body rssi status phy timestamp @ pad" and "n = length body + 2"
  have l: "unat (p ! 1) + 2 = n"
    using assms(1) by (simp add: p_def n_def rx_entry_def unat_of_nat)
  have fl: "unat (of_nat n :: 14 word) = n"
    using assms(1) unfolding unat_of_nat n_def by simp
  have at: "p ! (n + i) = ([rssi, status] @ (if ble4 then [] else [phy]) @ bytes32 timestamp @ pad) ! i" for i
    by (simp add: p_def n_def rx_entry_def nth_append)
  have head: "take n p = hdr # of_nat (length body) # body"
    by (simp add: p_def n_def rx_entry_def)
  have "264 \<le> length p"
    using assms(2) by (simp only: p_def)
  note f = rx_frame_Some [OF this, unfolded l]
  show ?thesis
  proof (cases ble4)
    case True
    then have "p ! n = rssi" "p ! (n + 1) = status" "p ! (n + 2) = bytes32 timestamp ! 0"
      "p ! (n + 3) = bytes32 timestamp ! 1" "p ! (n + 4) = bytes32 timestamp ! 2"
      "p ! (n + 5) = bytes32 timestamp ! 3"
      using at [of 0] at [of 1] at [of 2] at [of 3] at [of 4] at [of 5] by (simp_all add: bytes32_def)
    then show ?thesis
      unfolding p_def [symmetric] f using True fl head le32_bytes32 [of timestamp]
      by (simp add: flen_def n_def)
  next
    case False
    then have "p ! n = rssi" "p ! (n + 1) = status" "p ! (n + 2) = phy" "p ! (n + 3) = bytes32 timestamp ! 0"
      "p ! (n + 4) = bytes32 timestamp ! 1" "p ! (n + 5) = bytes32 timestamp ! 2"
      "p ! (n + 6) = bytes32 timestamp ! 3"
      using at [of 0] at [of 1] at [of 2] at [of 3] at [of 4] at [of 5] at [of 6]
      by (simp_all add: bytes32_def)
    then show ?thesis
      unfolding p_def [symmetric] f using False fl head le32_bytes32 [of timestamp]
      by (simp add: flen_def n_def)
  qed
qed

lemma rx_frame_entry_witness:
  "\<exists>f. rx_frame False (rx_entry False 0x40 [1, 2, 3] 200 37 1 1000 @ replicate 300 0) = Some f \<and>
     f_timestamp f = 1000 \<and> flen f = 5"
  using rx_frame_entry [of "[1, 2, 3]" False "0x40" 200 37 1 1000 "replicate 300 0"]
  by fastforce

section \<open>Transmit power\<close>

lemma tx_power_value_find:
  "tx_power_value dbm value table =
     (case find (\<lambda>(p, v). sint dbm \<le> sint p) table of Some (p, v) \<Rightarrow> v | None \<Rightarrow> value)"
  by (induction table) auto

end
