(* ===== verification/Base64.thy ===== *)
theory Base64
  imports Prelude
begin

text \<open>
  base64.c: the encoder and decoder of the serial protocol.  Buffers are byte lists; a
  source buffer is the list of its \<open>src_len\<close> bytes.  The decoder's destination is a buffer of
  a given size, and a write past its end is \<open>None\<close>.  The decoding table is built by the first
  call and never changed afterwards, so every call is modelled with the built table.
\<close>

unbundle bit_operations_syntax

section \<open>Tables\<close>

text \<open>The letters A-Z and a-z, the digits, plus and slash; the pad is the equals sign.\<close>

definition enc_table :: "u8 list" where
  "enc_table = map of_nat ([65..<91] @ [97..<123] @ [48..<58] @ [43, 47])"

abbreviation (input) pad_char :: u8 where
  "pad_char \<equiv> 61"

definition dec_table_build :: "u8 list" where
  "dec_table_build =
     fold (\<lambda>i table. table[unat (enc_table ! i) := of_nat i]) [0..<64] (replicate 256 0xFF)"

section \<open>Encoding\<close>

definition enc_char :: "u32 \<Rightarrow> nat \<Rightarrow> u8" where
  "enc_char triplet s = enc_table ! unat (drop_bit s triplet AND 0x3F)"

definition encode_triplet :: "u8 \<Rightarrow> u8 \<Rightarrow> u8 \<Rightarrow> u8 list" where
  "encode_triplet byte0 byte1 byte2 =
     (let triplet = push_bit 16 (ucast byte0) OR push_bit 8 (ucast byte1) OR ucast byte2 :: u32
      in [enc_char triplet 18, enc_char triplet 12, enc_char triplet 6, enc_char triplet 0])"

fun base64_encode_loop :: "u8 list \<Rightarrow> u8 list" where
  "base64_encode_loop [] = []"
| "base64_encode_loop [b0] = encode_triplet b0 0 0"
| "base64_encode_loop [b0, b1] = encode_triplet b0 b1 0"
| "base64_encode_loop (b0 # b1 # b2 # src) = encode_triplet b0 b1 b2 @ base64_encode_loop src"

definition base64_encode :: "u8 list \<Rightarrow> u8 list" where
  "base64_encode src =
     (let dst = base64_encode_loop src; j = length dst
      in if length src mod 3 = 1 then dst[j - 1 := pad_char, j - 2 := pad_char]
         else if length src mod 3 = 2 then dst[j - 1 := pad_char]
         else dst)"

section \<open>Decoding\<close>

definition dec_char :: "u8 \<Rightarrow> u32" where
  "dec_char c = (if c = pad_char then 0 else ucast (dec_table_build ! unat c))"

definition put_byte :: "nat \<Rightarrow> u32 \<Rightarrow> u8 list \<times> nat \<Rightarrow> (u8 list \<times> nat) option" where
  "put_byte dst_len b = (\<lambda>(dst, j).
     if j < dst_len then do { dst \<leftarrow> wr dst j (ucast (b AND 0xFF)); Some (dst, j + 1) } else Some (dst, j))"

text \<open>The loop over groups of four characters, with the error it stores.\<close>

fun base64_decode_loop :: "u8 list \<Rightarrow> nat \<Rightarrow> u8 list \<times> nat \<Rightarrow> (u8 list \<times> int) option" where
  "base64_decode_loop (c0 # c1 # c2 # c3 # src) dst_len st =
     (let byte0 = dec_char c0; byte1 = dec_char c1; byte2 = dec_char c2; byte3 = dec_char c3
      in if (byte0 OR byte1 OR byte2 OR byte3) AND 0xC0 \<noteq> 0 then Some (fst st, -2)
         else let triplet = push_bit 18 byte0 OR push_bit 12 byte1 OR push_bit 6 byte2 OR byte3
              in do { st \<leftarrow> put_byte dst_len (drop_bit 16 triplet) st;
                      st \<leftarrow> put_byte dst_len (drop_bit 8 triplet) st;
                      st \<leftarrow> put_byte dst_len triplet st;
                      base64_decode_loop src dst_len st })"
| "base64_decode_loop _ dst_len st = Some (fst st, 0)"

definition decoded_length :: "u8 list \<Rightarrow> nat" where
  "decoded_length src =
     (let dst_len = length src div 4 * 3
      in if src \<noteq> [] \<and> src ! (length src - 1) = pad_char
         then (if src ! (length src - 2) = pad_char then dst_len - 1 - 1 else dst_len - 1)
         else dst_len)"

text \<open>The destination, the error code and the returned length.\<close>

definition base64_decode :: "u8 list \<Rightarrow> u8 list \<Rightarrow> (u8 list \<times> int \<times> nat) option" where
  "base64_decode dst src =
     (if length src mod 4 \<noteq> 0 then Some (dst, -1, 0)
      else let dst_len = decoded_length src
           in do { (dst, err) \<leftarrow> base64_decode_loop src dst_len (dst, 0);
                   Some (dst, err, if err < 0 then 0 else dst_len) })"

section \<open>The tables are inverse\<close>

lemma length_enc_table: "length enc_table = 64"
  by (simp add: enc_table_def)

lemma unat_enc_table:
  "map unat enc_table = [65..<91] @ [97..<123] @ [48..<58] @ [43, 47]"
  by (simp add: enc_table_def unat_of_nat)

lemma distinct_enc_table: "distinct (map unat enc_table)"
  unfolding unat_enc_table by simp

lemma enc_table_not_pad: "i < 64 \<Longrightarrow> enc_table ! i \<noteq> pad_char"
proof
  assume "i < 64" "enc_table ! i = pad_char"
  then have "unat pad_char \<in> set (map unat enc_table)"
    by (metis image_eqI length_enc_table nth_mem set_map)
  then show False
    unfolding unat_enc_table by simp
qed

lemma enc_table_inj: "inj_on (\<lambda>i. unat (enc_table ! i)) (set [0..<64])"
proof (rule inj_onI)
  fix i j :: nat
  assume "i \<in> set [0..<64]" "j \<in> set [0..<64]" "unat (enc_table ! i) = unat (enc_table ! j)"
  then show "i = j"
    using nth_eq_iff_index_eq [OF distinct_enc_table, of i j] by (simp add: length_enc_table)
qed

lemma dec_enc_table:
  assumes "i < 64"
  shows "dec_table_build ! unat (enc_table ! i) = of_nat i"
proof -
  have "unat (c :: u8) < 256" for c
    using unsigned_less [of c] by simp
  then show ?thesis
    unfolding dec_table_build_def using assms by (intro fold_update_nth enc_table_inj) auto
qed

lemma dec_char_enc_table: "i < 64 \<Longrightarrow> dec_char (enc_table ! i) = of_nat i"
  using enc_table_not_pad [of i]
  by (simp only: dec_char_def if_False dec_enc_table)
     (simp add: word_unat_eq_iff unat_of_nat unsigned_ucast_eq take_bit_eq_mod)

lemma sextet_less: "unat ((t :: u32) AND 0x3F) < 64"
proof -
  have "t AND 0x3F = t AND mask 6"
    by (simp add: mask_eq_exp_minus_1)
  then show ?thesis
    using and_mask_less' [of 6 t] by (simp add: word_less_nat_alt)
qed

lemma dec_enc_char: "dec_char (enc_char t s) = drop_bit s t AND 0x3F"
  by (simp add: enc_char_def dec_char_enc_table sextet_less)

lemma enc_char_not_pad: "enc_char t s \<noteq> pad_char"
  by (simp add: enc_char_def enc_table_not_pad sextet_less)

section \<open>The shape of an encoding\<close>

abbreviation triplet :: "u8 \<Rightarrow> u8 \<Rightarrow> u8 \<Rightarrow> u32" where
  "triplet b0 b1 b2 \<equiv> push_bit 16 (ucast b0) OR push_bit 8 (ucast b1) OR ucast b2"

lemma length_encode_triplet [simp]: "length (encode_triplet b0 b1 b2) = 4"
  by (simp add: encode_triplet_def Let_def)

lemma length_base64_encode_loop: "length (base64_encode_loop src) = (length src + 2) div 3 * 4"
proof (induction src rule: base64_encode_loop.induct)
  case (4 b0 b1 b2 src)
  have "(length (b0 # b1 # b2 # src) + 2) div 3 = (length src + 2) div 3 + 1"
    by simp
  then show ?case
    using 4 by (simp only: base64_encode_loop.simps length_append length_encode_triplet
      add_mult_distrib mult_1 add.commute)
qed auto

lemma base64_encode_simps:
  "base64_encode [] = []"
  "base64_encode [b0] =
     [enc_char (triplet b0 0 0) 18, enc_char (triplet b0 0 0) 12, pad_char, pad_char]"
  "base64_encode [b0, b1] =
     [enc_char (triplet b0 b1 0) 18, enc_char (triplet b0 b1 0) 12, enc_char (triplet b0 b1 0) 6, pad_char]"
  "base64_encode (b0 # b1 # b2 # src) = encode_triplet b0 b1 b2 @ base64_encode src"
proof -
  show "base64_encode [] = []"
    by (simp add: base64_encode_def)
  show "base64_encode [b0] =
     [enc_char (triplet b0 0 0) 18, enc_char (triplet b0 0 0) 12, pad_char, pad_char]"
    by (simp add: base64_encode_def encode_triplet_def Let_def)
  show "base64_encode [b0, b1] =
     [enc_char (triplet b0 b1 0) 18, enc_char (triplet b0 b1 0) 12, enc_char (triplet b0 b1 0) 6, pad_char]"
    by (simp add: base64_encode_def encode_triplet_def Let_def)
  have "length src mod 3 \<noteq> 0 \<Longrightarrow> 4 \<le> length (base64_encode_loop src)"
    by (cases src) (auto simp: length_base64_encode_loop)
  then show "base64_encode (b0 # b1 # b2 # src) = encode_triplet b0 b1 b2 @ base64_encode src"
    by (auto simp: base64_encode_def Let_def list_update_append mod_Suc_eq)
qed

lemma length_base64_encode: "length (base64_encode src) = (length src + 2) div 3 * 4"
  by (simp add: base64_encode_def Let_def length_base64_encode_loop)

section \<open>Decoding an encoding\<close>

lemma triplet_bytes:
  "ucast (drop_bit 16 (triplet b0 b1 b2) AND 0xFF) = b0"
  "ucast (drop_bit 8 (triplet b0 b1 b2) AND 0xFF) = b1"
  "ucast (triplet b0 b1 b2 AND 0xFF) = b2"
  by (rule bit_word_eqI; auto simp: bit_simps dest: bit_imp_le_length)+

lemma mask6: "(0x3F :: u32) = mask 6"
  by (simp add: mask_eq_exp_minus_1)

lemma bit_sextet:
  "bit (push_bit s (drop_bit s t AND 0x3F)) n \<longleftrightarrow> s \<le> n \<and> n < s + 6 \<and> n < 32 \<and> bit (t :: u32) n"
  unfolding mask6 by (auto simp: bit_simps)

lemma bit_triplet: "bit (triplet b0 b1 b2) n \<Longrightarrow> n < 24"
  by (auto simp: bit_simps dest: bit_imp_le_length)

lemma triplet_sextets:
  "push_bit 18 (drop_bit 18 (triplet b0 b1 b2) AND 0x3F) OR push_bit 12 (drop_bit 12 (triplet b0 b1 b2) AND 0x3F)
   OR push_bit 6 (drop_bit 6 (triplet b0 b1 b2) AND 0x3F) OR push_bit 0 (drop_bit 0 (triplet b0 b1 b2) AND 0x3F)
   = triplet b0 b1 b2"
proof -
  have "push_bit 18 (drop_bit 18 t AND 0x3F) OR push_bit 12 (drop_bit 12 t AND 0x3F)
     OR push_bit 6 (drop_bit 6 t AND 0x3F) OR push_bit 0 (drop_bit 0 t AND 0x3F) = t"
    if "\<And>n. bit t n \<Longrightarrow> n < 24" for t :: u32
  proof (rule bit_word_eqI)
    fix n assume "n < LENGTH(32)"
    then show "bit (push_bit 18 (drop_bit 18 t AND 0x3F) OR push_bit 12 (drop_bit 12 t AND 0x3F)
       OR push_bit 6 (drop_bit 6 t AND 0x3F) OR push_bit 0 (drop_bit 0 t AND 0x3F)) n = bit t n"
      using that [of n] unfolding bit_or_iff bit_sextet by auto
  qed
  from this [of "triplet b0 b1 b2"] bit_triplet [of b0 b1 b2] show ?thesis by blast
qed

lemma sextets_valid:
  "((a AND 0x3F) OR (b AND 0x3F) OR (c AND 0x3F) OR (d AND 0x3F)) AND 0xC0 = (0 :: u32)"
  by (simp add: word_ao_dist and.assoc)

lemma put_byte_in:
  "j < dst_len \<Longrightarrow> j < length dst \<Longrightarrow>
     put_byte dst_len b (dst, j) = Some (dst[j := ucast (b AND 0xFF)], Suc j)"
  by (simp add: put_byte_def)

lemma put_byte_out: "dst_len \<le> j \<Longrightarrow> put_byte dst_len b (dst, j) = Some (dst, j)"
  by (simp add: put_byte_def)

lemma decode_group:
  fixes b0 b1 b2 defines "t \<equiv> triplet b0 b1 b2"
  assumes "dec_char c0 = drop_bit 18 t AND 0x3F" "dec_char c1 = drop_bit 12 t AND 0x3F"
    "dec_char c2 = drop_bit 6 t AND 0x3F" "dec_char c3 = drop_bit 0 t AND 0x3F"
  shows "base64_decode_loop (c0 # c1 # c2 # c3 # src) dst_len st =
    do { st \<leftarrow> put_byte dst_len (drop_bit 16 t) st; st \<leftarrow> put_byte dst_len (drop_bit 8 t) st;
         st \<leftarrow> put_byte dst_len t st; base64_decode_loop src dst_len st }"
proof -
  have "push_bit 18 (dec_char c0) OR push_bit 12 (dec_char c1) OR push_bit 6 (dec_char c2) OR dec_char c3 = t"
    using triplet_sextets [of b0 b1 b2] by (simp add: assms)
  moreover have "(dec_char c0 OR dec_char c1 OR dec_char c2 OR dec_char c3) AND 0xC0 = 0"
    unfolding assms by (rule sextets_valid)
  ultimately show ?thesis
    by (simp add: Let_def)
qed

lemma overwrite_Cons:
  "j < length dst \<Longrightarrow> overwrite dst j (b # bs) = overwrite (dst[j := b]) (Suc j) bs"
  by (simp add: overwrite_def take_Suc_conv_app_nth)

lemma overwrite_Nil: "overwrite dst j [] = dst"
  by (simp add: overwrite_def)

lemma sextet_zero: "triplet b0 b1 0 AND 0x3F = 0" "drop_bit 6 (triplet b0 0 0) AND 0x3F = 0"
  unfolding mask6 by (rule bit_word_eqI; auto simp: bit_simps dest: bit_imp_le_length)+

lemma sextet_zero_single:
  "drop_bit 6 (push_bit 16 (ucast (b0 :: u8) :: u32)) AND 0x3F = 0"
  "push_bit 16 (ucast b0 :: u32) AND 0x3F = 0"
  "ucast (drop_bit 16 (push_bit 16 (ucast b0 :: u32))) = b0"
  unfolding mask6 by (rule bit_word_eqI; auto simp: bit_simps dest: bit_imp_le_length)+

lemma sextet_zero_double:
  "(push_bit 16 (ucast (b0 :: u8)) OR push_bit 8 (ucast (b1 :: u8)) :: u32) AND 0x3F = 0"
  "ucast (drop_bit 16 (push_bit 16 (ucast b0) OR push_bit 8 (ucast b1) :: u32)) = b0"
  "ucast (drop_bit 8 (push_bit 16 (ucast b0) OR push_bit 8 (ucast b1) :: u32)) = b1"
  unfolding mask6 by (rule bit_word_eqI; auto simp: bit_simps dest: bit_imp_le_length)+

lemma dec_pad: "dec_char pad_char = 0"
  by (simp add: dec_char_def)

lemma base64_decode_loop_encode:
  "j + length src \<le> length dst \<Longrightarrow>
     base64_decode_loop (base64_encode src) (j + length src) (dst, j) = Some (overwrite dst j src, 0)"
proof (induction src arbitrary: dst j rule: base64_encode_loop.induct)
  case 1
  then show ?case by (simp add: base64_encode_simps overwrite_def)
next
  case (2 b0)
  then show ?case
    unfolding base64_encode_simps
    by (subst decode_group [where ?b0.0 = b0 and ?b1.0 = 0 and ?b2.0 = 0])
       (simp_all add: dec_enc_char dec_pad sextet_zero_single put_byte_in put_byte_out
         overwrite_Cons overwrite_Nil del: push_bit_or drop_bit_or)
next
  case (3 b0 b1)
  then show ?case
    unfolding base64_encode_simps
    by (subst decode_group [where ?b0.0 = b0 and ?b1.0 = b1 and ?b2.0 = 0])
       (simp_all add: dec_enc_char dec_pad sextet_zero_double put_byte_in put_byte_out
         overwrite_Cons overwrite_Nil del: push_bit_or drop_bit_or)
next
  case (4 b0 b1 b2 src)
  have bytes: "ucast (drop_bit 16 (triplet b0 b1 b2)) = b0"
    "ucast (drop_bit 8 (triplet b0 b1 b2)) = b1" "ucast (triplet b0 b1 b2) = b2"
    using triplet_bytes [of b0 b1 b2] by simp_all
  show ?case
    using 4(1) [of "Suc (Suc (Suc j))" "dst[j := b0, Suc j := b1, Suc (Suc j) := b2]"] 4(2)
    unfolding base64_encode_simps encode_triplet_def Let_def append_Cons append_Nil
    by (subst decode_group [where ?b0.0 = b0 and ?b1.0 = b1 and ?b2.0 = b2])
       (simp_all add: dec_enc_char put_byte_in bytes overwrite_Cons del: push_bit_or drop_bit_or)
qed

lemma decoded_length_append:
  assumes "length quad = 4" "length src mod 4 = 0" "src \<noteq> []"
  shows "decoded_length (quad @ src) = 3 + decoded_length src"
proof -
  have four: "4 \<le> length src"
    using assms(2,3) by (cases "length src < 4") auto
  have "(quad @ src) ! (length (quad @ src) - 1) = src ! (length src - 1)"
    "(quad @ src) ! (length (quad @ src) - 2) = src ! (length src - 2)"
    using assms(1,3) four by (simp_all add: nth_append)
  moreover have "length (quad @ src) div 4 * 3 = 3 + length src div 4 * 3"
  proof -
    have "(4 + length src) div 4 = 1 + length src div 4" by simp
    then show ?thesis using assms(1) by (simp only: length_append) simp
  qed
  moreover have "3 \<le> length src div 4 * 3"
    using four by simp
  ultimately show ?thesis
    using assms(3) by (simp add: decoded_length_def Let_def)
qed

lemma length_encode_mod: "length (base64_encode src) mod 4 = 0"
  by (simp add: length_base64_encode)

lemma base64_encode_Nil_iff: "base64_encode src = [] \<longleftrightarrow> src = []"
  by (cases src rule: base64_encode_loop.cases) (simp_all add: base64_encode_simps encode_triplet_def Let_def)

lemma decoded_length_triplet: "decoded_length (encode_triplet b0 b1 b2) = 3"
  by (simp add: decoded_length_def encode_triplet_def Let_def enc_char_not_pad)

lemma decoded_length_encode: "decoded_length (base64_encode src) = length src"
proof (induction src rule: base64_encode_loop.induct)
  case (4 b0 b1 b2 src)
  then show ?case
    by (cases "src = []")
       (simp_all add: base64_encode_simps decoded_length_append length_encode_mod
         base64_encode_Nil_iff decoded_length_triplet)
qed (simp_all add: base64_encode_simps decoded_length_def enc_char_not_pad)

lemma base64_decode_encode:
  "length src \<le> length dst \<Longrightarrow>
     base64_decode dst (base64_encode src) = Some (overwrite dst 0 src, 0, length src)"
  using base64_decode_loop_encode [of 0 src dst]
  by (simp add: base64_decode_def length_encode_mod decoded_length_encode)

section \<open>What the decoder accepts\<close>

definition valid_char :: "u8 \<Rightarrow> bool" where
  "valid_char c \<longleftrightarrow> c = pad_char \<or> c \<in> set enc_table"

lemma dec_table_unused:
  assumes "c \<notin> set enc_table"
  shows "dec_table_build ! unat c = 0xFF"
proof -
  have "unat c \<notin> (\<lambda>i. unat (enc_table ! i)) ` set [0..<64]"
    using assms by (auto simp: length_enc_table dest!: word_unat_eq_iff [THEN iffD2] nth_mem)
  moreover have "unat c < 256"
    using unsigned_less [of c] by simp
  ultimately show ?thesis
    by (simp add: dec_table_build_def fold_update_other)
qed

lemma dec_char_valid:
  "dec_char c AND 0xC0 = 0 \<longleftrightarrow> valid_char c"
proof (cases "c = pad_char \<or> c \<notin> set enc_table")
  case True
  then show ?thesis
    by (auto simp: dec_char_def valid_char_def dec_table_unused)
next
  case False
  then obtain i where "i < 64" "c = enc_table ! i"
    by (auto simp: in_set_conv_nth length_enc_table)
  moreover have "of_nat i = (of_nat i :: u32) AND 0x3F" if "i < 64"
    using that unfolding mask6 take_bit_eq_mask [symmetric]
    by (simp add: word_unat_eq_iff unat_of_nat unsigned_take_bit_eq take_bit_eq_mod unat_mod)
  ultimately have "dec_char c = (dec_char c AND 0x3F)"
    by (simp add: dec_char_enc_table)
  then have "dec_char c AND 0xC0 = dec_char c AND (0x3F AND 0xC0)"
    by (metis and.assoc)
  then show ?thesis
    using False by (simp add: valid_char_def)
qed

lemma group_valid:
  "(a OR b OR c OR d) AND 0xC0 = (0 :: u32) \<longleftrightarrow>
     a AND 0xC0 = 0 \<and> b AND 0xC0 = 0 \<and> c AND 0xC0 = 0 \<and> d AND 0xC0 = 0"
  by (simp add: word_ao_dist or_eq_0_iff)

lemma put_byte_bounded:
  assumes "dst_len \<le> length dst" "j \<le> dst_len"
  shows "\<exists>dst' j'. put_byte dst_len b (dst, j) = Some (dst', j') \<and> length dst' = length dst \<and>
    j' \<le> dst_len \<and> drop dst_len dst' = drop dst_len dst"
  using assms by (auto simp: put_byte_def)

lemma base64_decode_loop_total:
  "dst_len \<le> length dst \<Longrightarrow> j \<le> dst_len \<Longrightarrow> length src = 4 * n \<Longrightarrow>
   \<exists>dst'. base64_decode_loop src dst_len (dst, j) =
       Some (dst', if \<forall>c\<in>set src. valid_char c then 0 else -2) \<and>
     length dst' = length dst \<and> drop dst_len dst' = drop dst_len dst"
proof (induction n arbitrary: src dst j)
  case 0
  then show ?case by simp
next
  case (Suc n)
  have "length src = Suc (Suc (Suc (Suc (4 * n))))"
    using Suc.prems(3) by simp
  then obtain c0 c1 c2 c3 rest where src: "src = c0 # c1 # c2 # c3 # rest"
    unfolding length_Suc_conv by blast
  let ?t = "push_bit 18 (dec_char c0) OR push_bit 12 (dec_char c1) OR push_bit 6 (dec_char c2) OR dec_char c3"
  show ?case
  proof (cases "valid_char c0 \<and> valid_char c1 \<and> valid_char c2 \<and> valid_char c3")
    case False
    then show ?thesis
      by (auto simp: src Let_def group_valid dec_char_valid)
  next
    case True
    obtain d1 j1 where 1: "put_byte dst_len (drop_bit 16 ?t) (dst, j) = Some (d1, j1)"
      "length d1 = length dst" "j1 \<le> dst_len" "drop dst_len d1 = drop dst_len dst"
      using put_byte_bounded [OF Suc.prems(1,2)] by blast
    then obtain d2 j2 where 2: "put_byte dst_len (drop_bit 8 ?t) (d1, j1) = Some (d2, j2)"
      "length d2 = length dst" "j2 \<le> dst_len" "drop dst_len d2 = drop dst_len dst"
      using put_byte_bounded [of dst_len d1 j1 "drop_bit 8 ?t"] Suc.prems(1) by auto
    then obtain d3 j3 where 3: "put_byte dst_len ?t (d2, j2) = Some (d3, j3)"
      "length d3 = length dst" "j3 \<le> dst_len" "drop dst_len d3 = drop dst_len dst"
      using put_byte_bounded [of dst_len d2 j2 ?t] Suc.prems(1) by auto
    have ok: "\<not> ((dec_char c0 OR dec_char c1 OR dec_char c2 OR dec_char c3) AND 0xC0 \<noteq> 0)"
      using True by (simp add: group_valid dec_char_valid)
    have "base64_decode_loop src dst_len (dst, j) = base64_decode_loop rest dst_len (d3, j3)"
      using ok 1(1) 2(1) 3(1)
      by (simp only: src base64_decode_loop.simps Let_def if_False bind.bind_lunit)
    then show ?thesis
      using Suc.IH [of d3 j3 rest] Suc.prems 3 True by (simp add: src)
  qed
qed

lemma base64_decode_total:
  assumes "length src mod 4 = 0" "decoded_length src \<le> length dst"
  shows "\<exists>dst'. base64_decode dst src =
      (if \<forall>c\<in>set src. valid_char c then Some (dst', 0, decoded_length src) else Some (dst', -2, 0)) \<and>
    length dst' = length dst \<and> drop (decoded_length src) dst' = drop (decoded_length src) dst"
proof -
  obtain n where "length src = 4 * n"
    using assms(1) by (metis mod_0_imp_dvd dvdE)
  then obtain dst' where "base64_decode_loop src (decoded_length src) (dst, 0) =
      Some (dst', if \<forall>c\<in>set src. valid_char c then 0 else -2)"
    "length dst' = length dst" "drop (decoded_length src) dst' = drop (decoded_length src) dst"
    using base64_decode_loop_total [of "decoded_length src" dst 0 src n] assms(2) by auto
  then show ?thesis
    using assms(1) by (intro exI [of _ dst']) (simp add: base64_decode_def Let_def)
qed

section \<open>Properties\<close>

text \<open>
  C37. Decoding the encoding of any message gives the message back, without an error, with
  its length, and leaves the rest of the destination buffer alone.
\<close>

theorem base64_roundtrip:
  "length src \<le> length dst \<Longrightarrow>
     base64_decode dst (base64_encode src) = Some (overwrite dst 0 src, 0, length src)"
  by (rule base64_decode_encode)

lemma base64_roundtrip_witness:
  "base64_decode [0, 0, 0, 0] (base64_encode [7, 250]) = Some ([7, 250, 0, 0], 0, 2)"
  using base64_roundtrip [of "[7, 250]" "[0, 0, 0, 0]"] by (simp add: overwrite_def)

text \<open>
  The decoder never writes outside a destination that has room for the decoded length,
  and its error is -1 exactly for a length that is not a multiple of four and -2 exactly
  when some character is neither a digit of the alphabet nor a pad.
\<close>

theorem base64_decode_errors:
  assumes "decoded_length src \<le> length dst"
  shows "\<exists>dst'. length dst' = length dst \<and> drop (decoded_length src) dst' = drop (decoded_length src) dst \<and>
    base64_decode dst src =
     (if length src mod 4 \<noteq> 0 then Some (dst, -1, 0)
      else if \<exists>c\<in>set src. \<not> valid_char c then Some (dst', -2, 0)
      else Some (dst', 0, decoded_length src))"
proof (cases "length src mod 4 = 0")
  case True
  then show ?thesis
    using base64_decode_total [OF True assms] by (auto split: if_splits)
next
  case False
  then show ?thesis
    by (auto simp: base64_decode_def)
qed

lemma base64_decode_errors_witness:
  "\<exists>dst'. base64_decode [0, 0, 0] [65, 65, 13, 65] = Some (dst', -2, 0)"
proof -
  have "13 \<notin> set enc_table"
    by (simp add: enc_table_def)
  then show ?thesis
    using base64_decode_errors [of "[65, 65, 13, 65]" "[0, 0, 0]"]
    by (auto simp: decoded_length_def valid_char_def)
qed

end
