(* ===== verification/Messenger.thy ===== *)
theory Messenger
  imports Base64
begin

text \<open>
  messenger.c: framed messages over the serial port.  A message is base64 text ended by
  CRLF, and its first decoded byte is the number of four-character groups.  The UART driver
  is outside the sources: the bytes the host sends are a list, a timed read is given the
  number of bytes that arrive before its timeout, and a write the number of bytes it
  accepts.  A blocking read on an exhausted input does not return, which is \<open>None\<close>.
\<close>

unbundle bit_operations_syntax

abbreviation (input) MESSAGE_MAX :: nat where
  "MESSAGE_MAX \<equiv> 300"

abbreviation (input) b64_size :: nat where
  "b64_size \<equiv> MESSAGE_MAX * 4 div 3 + 2"

abbreviation (input) CR :: u8 where
  "CR \<equiv> 13"

abbreviation (input) LF :: u8 where
  "LF \<equiv> 10"

section \<open>The driver's reads\<close>

fun UART2_read1 :: "u8 list \<Rightarrow> (u8 \<times> u8 list) option" where
  "UART2_read1 [] = None"
| "UART2_read1 (b # inp) = Some (b, inp)"

definition UART2_readTimeout :: "nat \<Rightarrow> nat \<Rightarrow> u8 list \<Rightarrow> u8 list \<times> u8 list" where
  "UART2_readTimeout arrived n inp = (let k = min n arrived in (take k inp, drop k inp))"

section \<open>Receiving\<close>

text \<open>
  The two nested loops of \<open>_recv_crlf\<close>: \<open>recv_outer\<close> is entered with the flag clear,
  \<open>recv_inner\<close> with the last byte a carriage return.
\<close>

fun recv_outer :: "u8 list \<Rightarrow> u8 list option" and recv_inner :: "bool \<Rightarrow> u8 list \<Rightarrow> u8 list option" where
  "recv_outer [] = None"
| "recv_outer (b # inp) = (if b = CR then recv_inner False inp else recv_outer inp)"
| "recv_inner finished [] = None"
| "recv_inner finished (b # inp) =
     (let finished = (if b = LF then True else finished)
      in if b = CR then recv_inner finished inp
         else if finished then Some inp else recv_outer inp)"

definition recv_crlf :: "u8 list \<Rightarrow> u8 list option" where
  "recv_crlf inp = recv_outer inp"

text \<open>The result: the code, the two buffers and the unread input.\<close>

type_synonym recv_result = "int \<times> u8 list \<times> u8 list \<times> u8 list"

definition recv_fail :: "int \<Rightarrow> u8 list \<Rightarrow> u8 list \<Rightarrow> u8 list \<Rightarrow> recv_result option" where
  "recv_fail code b64_buf dst_buf inp = do { inp \<leftarrow> recv_crlf inp; Some (code, b64_buf, dst_buf, inp) }"

text \<open>The second read, with the number of bytes it asks for and those it gets.\<close>

definition recv_more :: "nat \<Rightarrow> nat \<Rightarrow> u8 list \<Rightarrow> nat \<times> u8 list \<times> u8 list" where
  "recv_more arrived word_cnt inp =
     (if word_cnt > 1 then let bytes_to_read = (word_cnt - 1) * 4
        in (bytes_to_read, UART2_readTimeout arrived bytes_to_read inp)
      else (0, [], inp))"

text \<open>The terminator check and the conversion to binary.\<close>

definition recv_tail :: "nat \<Rightarrow> u8 list \<Rightarrow> u8 list \<Rightarrow> u8 list \<Rightarrow> recv_result option" where
  "recv_tail word_cnt b64_buf dst_buf inp = do {
     let last_byte = word_cnt * 4;
     c0 \<leftarrow> rd b64_buf last_byte;
     c1 \<leftarrow> rd b64_buf (last_byte + 1);
     if c0 \<noteq> CR \<or> c1 \<noteq> LF then recv_fail (-5) b64_buf dst_buf inp
     else do {
       (dst_buf, dec_stat, dec_len) \<leftarrow> base64_decode dst_buf (take last_byte b64_buf);
       if dec_stat < 0 then recv_fail (dec_stat - 10) b64_buf dst_buf inp
       else Some (int dec_len, b64_buf, dst_buf, inp) }}"

text \<open>From the length check to the end, with the word count in the first decoded byte.\<close>

definition recv_body :: "nat \<Rightarrow> u8 list \<Rightarrow> u8 list \<Rightarrow> u8 list \<Rightarrow> recv_result option" where
  "recv_body arrived b64_buf dst_buf inp = do {
     w \<leftarrow> rd dst_buf 0;
     let word_cnt = unat w;
     if word_cnt * 3 > MESSAGE_MAX then recv_fail (-3) b64_buf dst_buf inp
     else do {
       let (bytes_to_read, bs, inp) = recv_more arrived word_cnt inp;
       if 6 + bytes_to_read > length b64_buf then None
       else do {
         let b64_buf = overwrite b64_buf 6 bs;
         if length bs < bytes_to_read then recv_fail (-4) b64_buf dst_buf inp
         else recv_tail word_cnt b64_buf dst_buf inp }}}"

definition messenger_recv :: "(nat \<Rightarrow> nat) \<Rightarrow> u8 list \<Rightarrow> u8 list \<Rightarrow> u8 list \<Rightarrow> recv_result option" where
  "messenger_recv arrived b64_buf dst_buf inp = do {
     (b, inp) \<leftarrow> UART2_read1 inp;
     let (bs, inp) = UART2_readTimeout (arrived 0) 5 inp;
     if length b64_buf < 6 then None
     else do {
       let b64_buf = overwrite b64_buf 0 (b # bs);
       if length bs < 5 then recv_fail (-1) b64_buf dst_buf inp
       else do {
         (dst_buf, dec_stat, dec_len) \<leftarrow> base64_decode dst_buf (take 4 b64_buf);
         if dec_stat < 0 then recv_fail (-2) b64_buf dst_buf inp
         else recv_body (arrived 1) b64_buf dst_buf inp
       }}}"

section \<open>Sending\<close>

text \<open>
  \<open>uart_write k n\<close> is the number of bytes the driver's k-th write accepts of the n offered;
  the loop ends only if the driver makes progress.
\<close>

partial_function (option) send_loop ::
    "(nat \<Rightarrow> nat \<Rightarrow> nat) \<Rightarrow> nat \<Rightarrow> u8 list \<Rightarrow> u8 list \<Rightarrow> u8 list option" where
  "send_loop uart_write k remaining wire =
     (if remaining = [] then Some wire
      else let sent = uart_write k (length remaining)
           in send_loop uart_write (k + 1) (drop sent remaining) (wire @ take sent remaining))"

definition messenger_send :: "(nat \<Rightarrow> nat \<Rightarrow> nat) \<Rightarrow> u8 list \<Rightarrow> u8 list option" where
  "messenger_send uart_write src =
     (let enc = base64_encode src
      in if length enc + 2 > b64_size then None
         else send_loop uart_write 0 (enc @ [CR, LF]) [])"

section \<open>Receiving returns\<close>

lemma recv_outer_inner_returns:
  "(\<exists>zs. recv_outer (xs @ CR # LF # ys) = Some (zs @ ys)) \<and>
   (\<forall>finished. \<exists>zs. recv_inner finished (xs @ CR # LF # ys) = Some (zs @ ys))"
proof (induction xs)
  case Nil
  then show ?case
    by (auto intro: exI [of _ "[]"])
next
  case (Cons x xs)
  have "\<exists>zs. xs @ CR # LF # ys = zs @ ys"
    by (rule exI [of _ "xs @ [CR, LF]"]) simp
  then show ?case
    using Cons by (auto simp: Let_def)
qed

lemma recv_fail_returns:
  "\<exists>zs. recv_fail code b64_buf dst_buf (xs @ CR # LF # ys) = Some (code, b64_buf, dst_buf, zs @ ys)"
  using recv_outer_inner_returns [of xs ys] by (auto simp: recv_fail_def recv_crlf_def)

text \<open>A receive that ends: its code, with the buffers still of their size.\<close>

definition recv_returns :: "u8 list \<Rightarrow> recv_result option \<Rightarrow> bool" where
  "recv_returns ys r \<longleftrightarrow> (\<exists>code b64_buf dst_buf zs. r = Some (code, b64_buf, dst_buf, zs @ ys) \<and>
     length b64_buf = b64_size \<and> length dst_buf = MESSAGE_MAX \<and>
     (code \<in> {-1, -2, -3, -4, -5, -12} \<or> 0 \<le> code \<and> code \<le> int MESSAGE_MAX))"

lemma recv_fail_recv_returns:
  assumes "length b64_buf = b64_size" "length dst_buf = MESSAGE_MAX" "code \<in> {-1, -2, -3, -4, -5, -12}"
  shows "recv_returns ys (recv_fail code b64_buf dst_buf (xs @ CR # LF # ys))"
  using assms recv_fail_returns [of code b64_buf dst_buf xs ys] unfolding recv_returns_def by blast

lemma decoded_length_le: "decoded_length src \<le> length src div 4 * 3"
  by (simp add: decoded_length_def Let_def)

lemma recv_more_prefix:
  assumes "word_cnt \<le> 100" "396 \<le> length xs"
  obtains k n where "k \<le> n" "n = (word_cnt - 1) * 4"
    "recv_more arrived word_cnt (xs @ ys) = (n, take k xs, drop k xs @ ys)"
proof (cases "word_cnt > 1")
  case True
  then show ?thesis
    using assms that [of "min ((word_cnt - 1) * 4) arrived" "(word_cnt - 1) * 4"]
    by (simp add: recv_more_def UART2_readTimeout_def Let_def)
next
  case False
  then show ?thesis
    using that [of 0 0] by (simp add: recv_more_def)
qed

lemma recv_tail_returns:
  assumes "length b64_buf = b64_size" "length dst_buf = MESSAGE_MAX" "word_cnt \<le> 100"
  shows "recv_returns ys (recv_tail word_cnt b64_buf dst_buf (xs @ CR # LF # ys))"
proof -
  let ?src = "take (word_cnt * 4) b64_buf"
  have len: "length ?src = word_cnt * 4"
    using assms by simp
  then have le: "decoded_length ?src \<le> MESSAGE_MAX"
    using decoded_length_le [of ?src] assms(3) by simp
  obtain d where d: "length d = MESSAGE_MAX"
    "base64_decode dst_buf ?src = Some (d, -2, 0) \<or>
     base64_decode dst_buf ?src = Some (d, 0, decoded_length ?src)"
    using base64_decode_total [of ?src dst_buf] assms(2) len le by (auto split: if_splits)
  have success: "recv_returns ys (Some (int (decoded_length ?src), b64_buf, d, xs @ CR # LF # ys))"
    using assms(1) d(1) le unfolding recv_returns_def
    by (intro exI [of _ "int (decoded_length ?src)"] exI [of _ b64_buf] exI [of _ d]
        exI [of _ "xs @ [CR, LF]"]) simp
  have "recv_tail word_cnt b64_buf dst_buf (xs @ CR # LF # ys) =
    (if b64_buf ! (word_cnt * 4) \<noteq> CR \<or> b64_buf ! (word_cnt * 4 + 1) \<noteq> LF
     then recv_fail (-5) b64_buf dst_buf (xs @ CR # LF # ys)
     else if base64_decode dst_buf ?src = Some (d, -2, 0) then recv_fail (-12) b64_buf d (xs @ CR # LF # ys)
     else Some (int (decoded_length ?src), b64_buf, d, xs @ CR # LF # ys))"
    using assms d(2) by (auto simp: recv_tail_def Let_def)
  then show ?thesis
    using assms d(1) success by (simp add: recv_fail_recv_returns)
qed

lemma recv_body_returns:
  assumes "length b64_buf = b64_size" "length dst_buf = MESSAGE_MAX" "396 \<le> length xs"
  shows "recv_returns ys (recv_body arrived b64_buf dst_buf (xs @ CR # LF # ys))"
proof (cases "unat (dst_buf ! 0) * 3 > MESSAGE_MAX")
  case True
  then show ?thesis
    using assms by (simp add: recv_body_def recv_fail_recv_returns)
next
  case False
  let ?word_cnt = "unat (dst_buf ! 0)"
  have wc: "?word_cnt \<le> 100"
    using False by simp
  then have "?word_cnt - 1 \<le> 99"
    by simp
  moreover obtain k n where k: "k \<le> n" "n = (?word_cnt - 1) * 4"
    "recv_more arrived ?word_cnt (xs @ CR # LF # ys) = (n, take k xs, drop k xs @ CR # LF # ys)"
    using recv_more_prefix [OF wc assms(3)] by blast
  ultimately have n: "n \<le> 396" by simp
  let ?b = "overwrite b64_buf 6 (take k xs)"
  have b: "length ?b = b64_size" "length (take k xs) = k"
    using assms(1,3) k(1) n by simp_all
  have "recv_body arrived b64_buf dst_buf (xs @ CR # LF # ys) =
    (if k < n then recv_fail (-4) ?b dst_buf (drop k xs @ CR # LF # ys)
     else recv_tail ?word_cnt ?b dst_buf (drop k xs @ CR # LF # ys))"
    using assms(1,2) False n b k(3) by (simp add: recv_body_def Let_def del: length_take)
  then show ?thesis
    using b assms(2) wc by (simp add: recv_fail_recv_returns recv_tail_returns)
qed

lemma messenger_recv_recv_returns:
  assumes "length b64_buf = b64_size" "length dst_buf = MESSAGE_MAX" "b64_size \<le> length xs"
  shows "recv_returns ys (messenger_recv arrived b64_buf dst_buf (xs @ CR # LF # ys))"
proof -
  obtain x xs' where xs: "xs = x # xs'" "401 \<le> length xs'"
    using assms(3) by (cases xs) auto
  define k where "k = min 5 (arrived 0)"
  let ?b = "overwrite b64_buf 0 (x # take k xs')"
  have k: "k \<le> 5" "length (take k xs') = k" "396 \<le> length (drop k xs')"
    using xs(2) by (simp_all add: k_def)
  have b: "length ?b = b64_size" "length (take 4 ?b) = 4"
    using assms(1) k by simp_all
  have read: "UART2_readTimeout (arrived 0) 5 (xs' @ CR # LF # ys) = (take k xs', drop k xs' @ CR # LF # ys)"
    using xs(2) by (simp add: UART2_readTimeout_def k_def Let_def)
  obtain d where d: "length d = MESSAGE_MAX"
    "base64_decode dst_buf (take 4 ?b) = Some (d, -2, 0) \<or>
     base64_decode dst_buf (take 4 ?b) = Some (d, 0, decoded_length (take 4 ?b))"
    using base64_decode_total [of "take 4 ?b" dst_buf] assms(2) b
      decoded_length_le [of "take 4 ?b"] by (auto split: if_splits)
  have "messenger_recv arrived b64_buf dst_buf (xs @ CR # LF # ys) =
    (if k < 5 then recv_fail (-1) ?b dst_buf (drop k xs' @ CR # LF # ys)
     else if base64_decode dst_buf (take 4 ?b) = Some (d, -2, 0)
       then recv_fail (-2) ?b d (drop k xs' @ CR # LF # ys)
     else recv_body (arrived 1) ?b d (drop k xs' @ CR # LF # ys))"
    using assms(1) d(2) k(2) by (auto simp: messenger_recv_def xs(1) read Let_def simp del: length_take)
  then show ?thesis
    using b(1) d(1) assms(2) k(3) by (simp add: recv_fail_recv_returns recv_body_returns del: length_drop)
qed

section \<open>Sending\<close>

definition progresses :: "(nat \<Rightarrow> nat \<Rightarrow> nat) \<Rightarrow> bool" where
  "progresses uart_write \<longleftrightarrow> (\<forall>k n. 0 < n \<longrightarrow> 0 < uart_write k n \<and> uart_write k n \<le> n)"

lemma send_loop_all:
  "progresses uart_write \<Longrightarrow> send_loop uart_write k remaining wire = Some (wire @ remaining)"
proof (induction "length remaining" arbitrary: k remaining wire rule: less_induct)
  case less
  show ?case
  proof (cases "remaining = []")
    case True
    then show ?thesis by (subst send_loop.simps) simp
  next
    case False
    let ?sent = "uart_write k (length remaining)"
    have "0 < ?sent"
      using less.prems False by (simp add: progresses_def)
    then have "length (drop ?sent remaining) < length remaining"
      using False by simp
    then have "send_loop uart_write (k + 1) (drop ?sent remaining) (wire @ take ?sent remaining)
        = Some (wire @ remaining)"
      using less.hyps less.prems by simp
    then show ?thesis
      using False by (subst send_loop.simps) (simp add: Let_def)
  qed
qed

lemma messenger_send_wire:
  assumes "progresses uart_write" "length src \<le> MESSAGE_MAX"
  shows "messenger_send uart_write src = Some (base64_encode src @ [CR, LF])"
proof -
  have "(length src + 2) div 3 \<le> 100"
    using assms(2) by simp
  then show ?thesis
    by (simp add: messenger_send_def Let_def length_base64_encode send_loop_all [OF assms(1)])
qed

section \<open>Sent messages are received\<close>

lemma take_4_encode: "src \<noteq> [] \<Longrightarrow> take 4 (base64_encode src) = base64_encode (take 3 src)"
  by (cases src rule: base64_encode_loop.cases)
     (simp_all add: base64_encode_simps encode_triplet_def Let_def numeral_eq_Suc)

text \<open>A message as the host builds it: its first byte is its number of groups.\<close>

definition well_framed :: "u8 list \<Rightarrow> bool" where
  "well_framed msg \<longleftrightarrow> msg \<noteq> [] \<and> length msg \<le> MESSAGE_MAX \<and> unat (msg ! 0) = (length msg + 2) div 3"

lemma overwrite_twice:
  "length as \<le> length bs \<Longrightarrow> overwrite (overwrite dst 0 as) 0 bs = overwrite dst 0 bs"
  by (simp add: overwrite_def)

lemma take_overwrite:
  "n \<le> length src \<Longrightarrow> take n (overwrite dst 0 src) = take n src"
  by (simp add: overwrite_def)

lemma overwrite_nth: "i < length src \<Longrightarrow> overwrite dst 0 src ! i = src ! i"
  by (simp add: overwrite_def nth_append)

lemma overwrite_extend:
  "overwrite (overwrite dst 0 as) (length as) bs = overwrite dst 0 (as @ bs)" if "length as + length bs \<le> length dst"
  using that by (simp add: overwrite_def add.commute)

lemma recv_tail_message:
  assumes "well_framed msg" "length b64_buf = b64_size" "length dst_buf = MESSAGE_MAX"
  shows "recv_tail (unat (msg ! 0)) (overwrite b64_buf 0 (base64_encode msg @ [CR, LF])) dst_buf inp =
    Some (int (length msg), overwrite b64_buf 0 (base64_encode msg @ [CR, LF]), overwrite dst_buf 0 msg, inp)"
proof -
  let ?e = "base64_encode msg @ [CR, LF]"
  have len: "length (base64_encode msg) = unat (msg ! 0) * 4" "length msg \<le> MESSAGE_MAX"
    using assms(1) by (simp_all add: well_framed_def length_base64_encode)
  then have fits: "unat (msg ! 0) * 4 + 2 \<le> b64_size"
    using assms(1) by (simp add: well_framed_def)
  have "overwrite b64_buf 0 ?e ! (unat (msg ! 0) * 4) = CR"
    "overwrite b64_buf 0 ?e ! (unat (msg ! 0) * 4 + 1) = LF"
    using overwrite_nth [of "unat (msg ! 0) * 4" ?e b64_buf]
      overwrite_nth [of "unat (msg ! 0) * 4 + 1" ?e b64_buf] len by (simp_all add: nth_append)
  moreover have "take (unat (msg ! 0) * 4) (overwrite b64_buf 0 ?e) = base64_encode msg"
    using len(1) by (simp add: take_overwrite)
  moreover have "length (overwrite b64_buf 0 ?e) = b64_size"
    using fits len(1) assms(2) by simp
  ultimately show ?thesis
    using len fits assms(3) by (simp add: recv_tail_def Let_def base64_decode_encode)
qed

lemma split_at: "n \<le> length xs \<Longrightarrow> \<exists>as bs. xs = as @ bs \<and> length as = n"
  by (metis append_take_drop_id length_take min.absorb2)

lemma messenger_recv_message:
  assumes "well_framed msg" "length b64_buf = b64_size" "length dst_buf = MESSAGE_MAX"
    "5 \<le> arrived 0" "b64_size \<le> arrived 1"
  shows "\<exists>b64_buf'. messenger_recv arrived b64_buf dst_buf (base64_encode msg @ CR # LF # ys) =
    Some (int (length msg), b64_buf', overwrite dst_buf 0 msg, ys)"
proof -
  let ?e = "base64_encode msg @ [CR, LF]" and ?w = "unat (msg ! 0)"
  have msg: "msg \<noteq> []" "length msg \<le> MESSAGE_MAX" "?w = (length msg + 2) div 3"
    using assms(1) by (simp_all add: well_framed_def)
  then have w: "1 \<le> ?w" "?w \<le> 100"
    by (cases msg; simp)+
  have len: "length ?e = ?w * 4 + 2"
    by (simp add: msg(3) length_base64_encode)
  obtain x as bs where e: "?e = x # as @ bs" "length as = 5"
  proof -
    obtain x e' where x: "?e = x # e'" "5 \<le> length e'"
      using len w(1) by (cases ?e) auto
    then show ?thesis
      using split_at [of 5 e'] that by metis
  qed
  have bs: "length bs = (?w - 1) * 4"
    using arg_cong [OF e(1), of length] len w(1) e(2) by simp
  let ?b = "overwrite b64_buf 0 (x # as)" and ?d = "overwrite dst_buf 0 (take 3 msg)"
  have b: "length ?b = b64_size" "length ?d = MESSAGE_MAX"
    using assms(2,3) e(2) by simp_all
  have quad: "take 4 ?b = base64_encode (take 3 msg)"
  proof -
    have "take 4 ?b = take 4 (x # as)"
      using e(2) by (simp add: take_overwrite)
    also have "\<dots> = take 4 ?e"
      using e by simp
    also have "\<dots> = take 4 (base64_encode msg)"
      using len w(1) by simp
    finally show ?thesis
      using take_4_encode [OF msg(1)] by simp
  qed
  have first: "?d ! 0 = msg ! 0"
    using msg(1) by (subst overwrite_nth) auto
  have more: "recv_more (arrived 1) ?w (bs @ ys) = (length bs, bs, ys)"
    using bs w assms(5) by (auto simp: recv_more_def UART2_readTimeout_def Let_def)
  have full: "overwrite ?b 6 bs = overwrite b64_buf 0 ?e"
    using overwrite_extend [of "x # as" bs b64_buf] e bs w assms(2) by simp
  have d: "overwrite ?d 0 msg = overwrite dst_buf 0 msg"
    by (simp add: overwrite_twice)
  have "?w - 1 \<le> 99" using w by simp
  then have "recv_body (arrived 1) ?b ?d (bs @ ys) =
      Some (int (length msg), overwrite b64_buf 0 ?e, overwrite dst_buf 0 msg, ys)"
    using recv_tail_message [OF assms(1,2) b(2), of ys] b first more full w d bs
    by (simp add: recv_body_def Let_def)
  moreover have inp: "base64_encode msg @ CR # LF # ys = x # as @ bs @ ys"
    using e(1) by (metis append.assoc append_Cons append_Nil)
  ultimately show ?thesis
    unfolding inp using assms(2-4) e(2) quad base64_decode_encode [of "take 3 msg" dst_buf]
    by (simp add: messenger_recv_def UART2_readTimeout_def Let_def)
qed

text \<open>What one side sends the other receives, and what follows is left unread.\<close>

lemma messenger_roundtrip:
  assumes "progresses uart_write" "well_framed msg"
    "length b64_buf = b64_size" "length dst_buf = MESSAGE_MAX" "5 \<le> arrived 0" "b64_size \<le> arrived 1"
  shows "\<exists>wire b64_buf'. messenger_send uart_write msg = Some wire \<and>
    messenger_recv arrived b64_buf dst_buf (wire @ ys) =
      Some (int (length msg), b64_buf', overwrite dst_buf 0 msg, ys)"
proof -
  have "messenger_send uart_write msg = Some (base64_encode msg @ [CR, LF])"
    using assms(1,2) by (intro messenger_send_wire) (simp_all add: well_framed_def)
  then show ?thesis
    using messenger_recv_message [of msg b64_buf dst_buf arrived ys] assms(2-6) by simp
qed

section \<open>Properties\<close>

text \<open>
  C38. A receive whose input contains a CRLF beyond the longest message always returns: it
  stays inside its buffers of 402 and 300 bytes, its code is one of the documented errors or
  a length of at most 300, and it leaves the input that follows the CRLF unread.
\<close>

theorem messenger_recv_total:
  assumes "length b64_buf = b64_size" "length dst_buf = MESSAGE_MAX" "b64_size \<le> length xs"
  shows "\<exists>code b64_buf' dst_buf' zs.
    messenger_recv arrived b64_buf dst_buf (xs @ CR # LF # ys) = Some (code, b64_buf', dst_buf', zs @ ys) \<and>
    length b64_buf' = b64_size \<and> length dst_buf' = MESSAGE_MAX \<and>
    (code \<in> {-1, -2, -3, -4, -5, -12} \<or> 0 \<le> code \<and> code \<le> int MESSAGE_MAX)"
  using messenger_recv_recv_returns [OF assms, of ys arrived] by (simp add: recv_returns_def)

lemma messenger_recv_total_witness:
  "\<exists>code b64_buf' dst_buf' zs.
    messenger_recv (\<lambda>_. 2) (replicate b64_size 0) (replicate MESSAGE_MAX 0)
      (replicate b64_size 65 @ [CR, LF, 7]) = Some (code, b64_buf', dst_buf', zs @ [7])"
  using messenger_recv_total [of "replicate b64_size 0" "replicate MESSAGE_MAX 0"
      "replicate b64_size 65" "\<lambda>_. 2" "[7]"]
  by fastforce

end
