(* ===== verification/Packet_Task.thy ===== *)
theory Packet_Task
  imports Radio_Wrapper Messenger
begin

text \<open>
  PacketTask.c, measurements.c and debug.c: the queue of frames on their way to the host,
  the address filters, the messages built from the frames, and the reports other components
  send through the queue.  \<open>enqueueFrame\<close> is the second half of \<open>indicatePacket\<close>, which is
  all a frame on channel 40 or above goes through; the first half needs \<open>reactToPDU\<close> and
  follows in the theory \<open>Radio_React\<close>.  Fields of such report frames that the code leaves
  indeterminate (the CRC flag and the direction) are shown as zero; \<open>report_message_stable\<close>
  states that no message depends on them.
\<close>

unbundle bit_operations_syntax

section \<open>The frame queue\<close>

definition enqueueFrame :: "ble_frame \<Rightarrow> 'a packet_state_scheme \<Rightarrow> 'a packet_state_scheme option" where
  "enqueueFrame frame st =
     (if flen frame > PACKET_SIZE then Some st
      else if (queue_head st - queue_tail st) AND 7 = 7 then Some st
      else do {
        bytes \<leftarrow> rds (f_pData frame) 0 (flen frame);
        let h = slot_of (queue_head st);
        let buf = overwrite (f_pData (s_frames st ! h)) 0 bytes;
        Some (emit Packet_posted
          (st\<lparr>queue_head := queue_head st + 1, s_frames := (s_frames st)[h := frame\<lparr>f_pData := buf\<rparr>]\<rparr>)) })"

section \<open>Messages\<close>

abbreviation (input) "MESSAGE_BLEFRAME \<equiv> (0x10 :: u8)"
abbreviation (input) "MESSAGE_DEBUG \<equiv> (0x11 :: u8)"
abbreviation (input) "MESSAGE_MARKER \<equiv> (0x12 :: u8)"
abbreviation (input) "MESSAGE_STATE \<equiv> (0x13 :: u8)"
abbreviation (input) "MESSAGE_MEASURE \<equiv> (0x14 :: u8)"

text \<open>The bytes from \<open>msg_buf + 1\<close> on.\<close>

definition message_body :: "ble_frame \<Rightarrow> u8 list option" where
  "message_body frame =
     (let timestamp_us = bytes32 (drop_bit 2 (f_timestamp frame));
          body = rds (f_pData frame) 0 (flen frame)
      in if f_channel frame = MSGCHAN_DEBUG then do { b \<leftarrow> body; Some (MESSAGE_DEBUG # b) }
         else if f_channel frame = MSGCHAN_MARKER then do { b \<leftarrow> body; Some (MESSAGE_MARKER # timestamp_us @ b) }
         else if f_channel frame = MSGCHAN_STATE then do { b \<leftarrow> rd (f_pData frame) 0; Some [MESSAGE_STATE, b] }
         else if f_channel frame = MSGCHAN_MEASURE then do { b \<leftarrow> body; Some (MESSAGE_MEASURE # of_nat (flen frame) # b) }
         else do {
           b \<leftarrow> body;
           let len_dir = (of_nat (flen frame) :: u16);
           let len_dir = len_dir OR push_bit 14 (of_bool (f_crcError frame));
           let len_dir = len_dir OR push_bit 15 (ucast (f_direction frame));
           Some (MESSAGE_BLEFRAME # timestamp_us @ bytes16 len_dir @ bytes16 (f_eventCtr frame) @
             [f_rssi frame, ucast (f_channel frame) OR push_bit 6 (of_nat (phy_code (f_phy frame)))] @ b) })"

text \<open>The message handed to \<open>messenger_send\<close>, if any.\<close>

definition sendPacket :: "ble_frame \<Rightarrow> u8 list option option" where
  "sendPacket frame =
     (if flen frame > PACKET_SIZE then Some None
      else do { body \<leftarrow> message_body frame;
                let n = length body + 1;
                Some (Some (of_nat ((n + 2) div 3) # body)) })"

text \<open>One round of the packet task, entered when the semaphore was posted.\<close>

definition packetTask_step :: "'a packet_state_scheme \<Rightarrow> (u8 list option \<times> 'a packet_state_scheme) option" where
  "packetTask_step st = do {
     msg \<leftarrow> sendPacket (s_frames st ! slot_of (queue_tail st));
     Some (msg, st\<lparr>queue_tail := queue_tail st + 1\<rparr>) }"

section \<open>Filters\<close>

definition setMinRssi :: "u8 \<Rightarrow> 'a packet_state_scheme \<Rightarrow> 'a packet_state_scheme" where
  "setMinRssi rssi st = st\<lparr>minRssi := rssi\<rparr>"

text \<open>The pointer arguments are NULL or at six, respectively sixteen, bytes.\<close>

definition setMacFilt :: "bool \<Rightarrow> u8 list option \<Rightarrow> 'a packet_state_scheme \<Rightarrow> 'a packet_state_scheme" where
  "setMacFilt filt mac st =
     (let st = (case mac of Some m \<Rightarrow> st\<lparr>targMac := m\<rparr> | None \<Rightarrow> st)
      in st\<lparr>filterMacs := filt, filterRpas := False\<rparr>)"

definition setRpaFilt :: "bool \<Rightarrow> u8 list option \<Rightarrow> 'a packet_state_scheme \<Rightarrow> 'a packet_state_scheme" where
  "setRpaFilt filt irk st =
     (let st = (case irk of Some k \<Rightarrow> st\<lparr>targIrk := k\<rparr> | None \<Rightarrow> st)
      in st\<lparr>filterRpas := filt, filterMacs := False\<rparr>)"

definition macOk :: "u8 list \<Rightarrow> bool \<Rightarrow> 'a packet_state_scheme \<Rightarrow> bool \<times> 'a packet_state_scheme" where
  "macOk mac isRandom st =
     (if filterMacs st then (mac = targMac st, st)
      else if filterRpas st
      then if isRandom then let (m, r) = rpa_match (targIrk st) mac (rpa_st st) in (m, st\<lparr>rpa_st := r\<rparr>)
           else (False, st)
      else (True, st))"

definition macFilterCheck :: "ble_frame \<Rightarrow> 'a packet_state_scheme \<Rightarrow> (bool \<times> 'a packet_state_scheme) option" where
  "macFilterCheck frame st =
     (if \<not> filterMacs st \<and> \<not> filterRpas st then Some (True, st)
      else if flen frame < 2 then Some (False, st)
      else do {
        h \<leftarrow> rd (f_pData frame) 0;
        let advType = h AND 0xF;
        if advType = ADV_IND \<or> advType = ADV_DIRECT_IND \<or> advType = ADV_NONCONN_IND
           \<or> advType = ADV_SCAN_IND \<or> advType = SCAN_RSP
        then if flen frame < 8 then Some (False, st)
             else do { mac \<leftarrow> rds (f_pData frame) 2 6; Some (macOk mac (h AND 0x40 \<noteq> 0) st) }
        else if advType = SCAN_REQ \<or> advType = CONNECT_IND
        then if flen frame < 14 then Some (False, st)
             else do { mac \<leftarrow> rds (f_pData frame) 8 6; Some (macOk mac (h AND 0x80 \<noteq> 0) st) }
        else if advType = ADV_EXT_IND \<or> advType = AUX_CONNECT_RSP
        then if flen frame < 3 then Some (False, st)
             else do {
               e \<leftarrow> rd (f_pData frame) 2;
               let extHdrLen = unat (e AND 0x3F);
               if flen frame < 3 + extHdrLen then Some (False, st)
               else if extHdrLen = 0 then Some (True, st)
               else do {
                 flags \<leftarrow> rd (f_pData frame) 3;
                 if flags AND 0x01 = 0 then Some (True, st)
                 else if extHdrLen < 7 then Some (False, st)
                 else do { mac \<leftarrow> rds (f_pData frame) 4 6; Some (macOk mac (h AND 0x40 \<noteq> 0) st) }}}
        else Some (False, st) })"

section \<open>Reports\<close>

text \<open>A frame that carries a report on channel 40 or above.\<close>

definition report_frame :: "6 word \<Rightarrow> u32 \<Rightarrow> nat \<Rightarrow> u8 list \<Rightarrow> ble_frame" where
  "report_frame chan timestamp len buf =
     \<lparr>f_timestamp = timestamp, f_length = of_nat len, f_crcError = False, f_direction = 0, f_eventCtr = 0,
      f_rssi = 0, f_channel = chan, f_phy = PHY_1M, f_pData = buf\<rparr>"

definition reportMeasurement :: "u8 list \<Rightarrow> 'a packet_state_scheme \<Rightarrow> 'a packet_state_scheme option" where
  "reportMeasurement buf st = enqueueFrame (report_frame MSGCHAN_MEASURE 0 (length buf) buf) st"

definition reportMeasInterval :: "u16 \<Rightarrow> 'a packet_state_scheme \<Rightarrow> 'a packet_state_scheme option" where
  "reportMeasInterval interval st = reportMeasurement [0, ucast (interval AND 0xFF), ucast (drop_bit 8 interval)] st"

definition reportMeasChanMap :: "u64 \<Rightarrow> 'a packet_state_scheme \<Rightarrow> 'a packet_state_scheme option" where
  "reportMeasChanMap chmap st =
     reportMeasurement (1 # map (\<lambda>i. ucast (drop_bit (8 * i) chmap)) [0..<5]) st"

definition reportMeasAdvHop :: "u32 \<Rightarrow> 'a packet_state_scheme \<Rightarrow> 'a packet_state_scheme option" where
  "reportMeasAdvHop hop_us st = reportMeasurement (2 # bytes32 hop_us) st"

definition reportMeasWinOffset :: "u16 \<Rightarrow> 'a packet_state_scheme \<Rightarrow> 'a packet_state_scheme option" where
  "reportMeasWinOffset offset st = reportMeasurement [3, ucast (offset AND 0xFF), ucast (drop_bit 8 offset)] st"

definition reportMeasDeltaInstant :: "u16 \<Rightarrow> 'a packet_state_scheme \<Rightarrow> 'a packet_state_scheme option" where
  "reportMeasDeltaInstant delta st = reportMeasurement [4, ucast (delta AND 0xFF), ucast (drop_bit 8 delta)] st"

definition reportVersion :: "'a packet_state_scheme \<Rightarrow> 'a packet_state_scheme option" where
  "reportVersion st = reportMeasurement [5, 1, 10, 0, 0] st"

text \<open>
  \<open>dprintf\<close>, given the whole text the format expands to: the buffer gets at most 127
  characters and a terminator, the frame the length of the whole text.
\<close>

definition dprintf :: "u8 list \<Rightarrow> 'a packet_state_scheme \<Rightarrow> 'a packet_state_scheme option" where
  "dprintf txt st =
     (let buf = (if length txt < 128 then txt @ replicate (128 - length txt) 0 else take 127 txt @ [0])
      in enqueueFrame (report_frame MSGCHAN_DEBUG 0 (length txt) buf) st)"

definition ascii :: "string \<Rightarrow> u8 list" where
  "ascii s = map of_char s"

section \<open>The queue as a list\<close>

definition frame_view :: "ble_frame \<Rightarrow> ble_frame" where
  "frame_view f = f\<lparr>f_pData := take (flen f) (f_pData f)\<rparr>"

definition frame_ok :: "ble_frame \<Rightarrow> bool" where
  "frame_ok f \<longleftrightarrow> flen f \<le> PACKET_SIZE \<and> flen f \<le> length (f_pData f)"

definition packet_queue_ok :: "'a packet_state_scheme \<Rightarrow> bool" where
  "packet_queue_ok st \<longleftrightarrow> length (s_frames st) = 8 \<and>
     (\<forall>f\<in>set (s_frames st). length (f_pData f) = PACKET_SIZE) \<and> ring_size (queue_head st) (queue_tail st) \<le> 7"

definition packet_items :: "'a packet_state_scheme \<Rightarrow> ble_frame list" where
  "packet_items st = map frame_view (ring_list (s_frames st) (queue_head st) (queue_tail st))"

definition packet_put :: "ble_frame \<Rightarrow> 'a packet_state_scheme \<Rightarrow> 'a packet_state_scheme" where
  "packet_put f st = the (enqueueFrame f st)"

definition packet_rem :: "'a packet_state_scheme \<Rightarrow> 'a packet_state_scheme" where
  "packet_rem st = snd (the (packetTask_step st))"

lemma flen_update [simp]: "flen (f\<lparr>f_pData := d\<rparr>) = flen f"
  by (simp add: flen_def)

lemma frame_view_stored: "flen f \<le> length (f_pData f) \<Longrightarrow>
    frame_view (f\<lparr>f_pData := overwrite d 0 (take (flen f) (f_pData f))\<rparr>) = frame_view f"
  by (simp add: frame_view_def overwrite_def)

lemma length_packet_items: "length (packet_items st) = ring_size (queue_head st) (queue_tail st)"
  by (simp add: packet_items_def)

lemma packet_items_nonempty: "packet_items st \<noteq> [] \<longleftrightarrow> 0 < ring_size (queue_head st) (queue_tail st)"
  by (metis length_packet_items length_greater_0_conv)

lemma enqueueFrame_full:
  assumes "packet_queue_ok st" "length (packet_items st) = 7"
  shows "enqueueFrame f st = Some st"
  using assms masked_full [of "queue_head st" "queue_tail st"]
  by (simp add: enqueueFrame_def packet_queue_ok_def length_packet_items)

lemma enqueueFrame_room:
  assumes "packet_queue_ok st" "length (packet_items st) < 7" "frame_ok f"
  shows "\<exists>st'. enqueueFrame f st = Some st' \<and> packet_queue_ok st' \<and> packet_items st' = packet_items st @ [frame_view f]"
proof -
  let ?h = "slot_of (queue_head st)"
  let ?d = "overwrite (f_pData (s_frames st ! ?h)) 0 (take (flen f) (f_pData f))"
  have slots: "length (s_frames st) = 8" "length (f_pData (s_frames st ! ?h)) = PACKET_SIZE"
    "ring_size (queue_head st) (queue_tail st) < 7"
    using assms(1,2) by (simp_all add: packet_queue_ok_def length_packet_items)
  then have room: "(queue_head st - queue_tail st) AND 7 \<noteq> 7"
    using masked_full [of "queue_head st" "queue_tail st"] by simp
  have len: "length ?d = PACKET_SIZE"
    using slots(2) assms(3) by (simp add: frame_ok_def)
  have "enqueueFrame f st = Some (emit Packet_posted
      (st\<lparr>queue_head := queue_head st + 1, s_frames := (s_frames st)[?h := f\<lparr>f_pData := ?d\<rparr>]\<rparr>))"
    using assms(3) room by (simp add: enqueueFrame_def frame_ok_def Let_def)
  moreover have "packet_queue_ok (emit Packet_posted
      (st\<lparr>queue_head := queue_head st + 1, s_frames := (s_frames st)[?h := f\<lparr>f_pData := ?d\<rparr>]\<rparr>))"
    using assms(1) slots len ring_size_push [of "queue_head st" "queue_tail st"]
    by (auto simp: packet_queue_ok_def emit_def dest!: subsetD [OF set_update_subset_insert])
  moreover have "packet_items (emit Packet_posted
      (st\<lparr>queue_head := queue_head st + 1, s_frames := (s_frames st)[?h := f\<lparr>f_pData := ?d\<rparr>]\<rparr>))
      = packet_items st @ [frame_view f]"
    using slots ring_list_push [of "s_frames st" "queue_head st" "queue_tail st"] assms(3)
    by (simp add: packet_items_def emit_def frame_view_stored frame_ok_def)
  ultimately show ?thesis by blast
qed

lemma message_body_Some: "flen f \<le> length (f_pData f) \<Longrightarrow> f_pData f \<noteq> [] \<Longrightarrow> \<exists>b. message_body f = Some b"
  by (auto simp: message_body_def Let_def)

lemma packetTask_step_Some:
  assumes "packet_queue_ok st"
  shows "\<exists>msg. packetTask_step st = Some (msg, st\<lparr>queue_tail := queue_tail st + 1\<rparr>)"
proof -
  let ?f = "s_frames st ! slot_of (queue_tail st)"
  have "length (f_pData ?f) = PACKET_SIZE"
    using assms by (simp add: packet_queue_ok_def)
  moreover from this have "f_pData ?f \<noteq> []"
    by auto
  ultimately have "\<exists>msg. sendPacket ?f = Some msg"
    using message_body_Some [of ?f] by (cases "flen ?f > PACKET_SIZE") (auto simp: sendPacket_def)
  then show ?thesis
    by (auto simp: packetTask_step_def)
qed

lemma packet_rem_tail: "packet_queue_ok st \<Longrightarrow> packet_rem st = st\<lparr>queue_tail := queue_tail st + 1\<rparr>"
  using packetTask_step_Some [of st] by (auto simp: packet_rem_def)

interpretation packetq: bounded_fifo packet_queue_ok packet_items frame_ok frame_view packet_put packet_rem 7
proof
  fix st :: "'a packet_state_scheme" and f
  assume ok: "packet_queue_ok st"
  then show "length (packet_items st) \<le> 7"
    by (simp add: packet_queue_ok_def length_packet_items)
  show "packet_queue_ok (packet_put f st)" "packet_items (packet_put f st) =
      (if length (packet_items st) < 7 then packet_items st @ [frame_view f] else packet_items st)"
    if "frame_ok f"
    using enqueueFrame_room [OF ok _ that] enqueueFrame_full [OF ok] ok
      \<open>length (packet_items st) \<le> 7\<close>
    by (cases "length (packet_items st) < 7"; auto simp: packet_put_def)+
  show "packet_queue_ok (packet_rem st)" "packet_items (packet_rem st) = tl (packet_items st)"
    if "packet_items st \<noteq> []"
  proof -
    have "0 < ring_size (queue_head st) (queue_tail st)"
      using that by (simp only: packet_items_nonempty)
    then show "packet_queue_ok (packet_rem st)" "packet_items (packet_rem st) = tl (packet_items st)"
      using ok ring_size_pop [of "queue_head st" "queue_tail st"]
        ring_list_pop [of "queue_head st" "queue_tail st" "s_frames st"]
      by (simp_all add: packet_rem_tail packet_queue_ok_def packet_items_def map_tl)
  qed
qed

section \<open>What the host reads\<close>

text \<open>The fields of a frame message, as the host's decoder takes them apart.\<close>

record host_frame =
  hf_timestamp_us :: u32
  hf_length :: nat
  hf_crcError :: bool
  hf_direction :: bool
  hf_eventCtr :: u16
  hf_rssi :: u8
  hf_channel :: nat
  hf_phy :: nat
  hf_body :: "u8 list"

definition host_decode :: "u8 list \<Rightarrow> host_frame option" where
  "host_decode msg = do {
     typ \<leftarrow> rd msg 1;
     ts \<leftarrow> rd32 msg 2;
     len_dir \<leftarrow> rd16 msg 6;
     ctr \<leftarrow> rd16 msg 8;
     rssi \<leftarrow> rd msg 10;
     cp \<leftarrow> rd msg 11;
     if typ \<noteq> MESSAGE_BLEFRAME then None
     else Some \<lparr>hf_timestamp_us = ts, hf_length = unat (len_dir AND 0x3FFF), hf_crcError = bit len_dir 14,
       hf_direction = bit len_dir 15, hf_eventCtr = ctr, hf_rssi = rssi,
       hf_channel = unat (cp AND 0x3F), hf_phy = unat (drop_bit 6 cp), hf_body = drop 12 msg\<rparr> }"

lemma bit_len_dir:
  fixes n :: nat and c :: bool and d :: "1 word"
  defines "w \<equiv> (of_nat n :: u16) OR push_bit 14 (of_bool c) OR push_bit 15 (ucast d)"
  assumes "n < 2 ^ 14"
  shows "unat (w AND 0x3FFF) = n" "bit w 14 = c" "bit w 15 = bit d 0"
proof -
  have small: "\<not> bit (of_nat n :: u16) k" if "14 \<le> k" for k
  proof -
    have "take_bit 14 (of_nat n :: u16) = of_nat n"
      using assms(2) by (simp add: take_bit_eq_mod word_unat_eq_iff unat_mod unat_of_nat)
    then show ?thesis
      using that by (metis bit_take_bit_iff not_le)
  qed
  show "bit w 14 = c" "bit w 15 = bit d 0"
    using small [of 14] small [of 15] by (auto simp: w_def bit_simps)
  have m: "(0x3FFF :: u16) = mask 14"
    by (simp add: mask_eq_exp_minus_1)
  have "w AND 0x3FFF = of_nat n"
  proof (rule bit_word_eqI)
    fix k assume "k < LENGTH(16)"
    then show "bit (w AND 0x3FFF) k = bit (of_nat n :: u16) k"
      using small [of k] unfolding m by (cases "k < 14") (auto simp: w_def bit_simps)
  qed
  then show "unat (w AND 0x3FFF) = n"
    using assms(2) by (simp add: unat_of_nat)
qed

lemma bits_channel_phy:
  fixes ch :: "6 word" and p :: phy_mode
  defines "w \<equiv> ucast ch OR push_bit 6 (of_nat (phy_code p)) :: u8"
  shows "unat (w AND 0x3F) = unat ch" "unat (drop_bit 6 w) = phy_code p"
proof -
  have m: "(0x3F :: u8) = mask 6"
    by (simp add: mask_eq_exp_minus_1)
  have "unat ch < 64"
    using unsigned_less [of ch] by simp
  then have small: "unat ch < 256" by simp
  have "w AND 0x3F = ucast ch"
    unfolding m w_def by (rule bit_word_eqI) (auto simp: bit_simps dest: bit_imp_le_length)
  then show "unat (w AND 0x3F) = unat ch"
    by (simp add: unsigned_ucast_eq take_bit_nat_eq_self small)
  have "drop_bit 6 w = drop_bit 6 (push_bit 6 (of_nat (phy_code p)) :: u8)"
    unfolding w_def by (rule bit_word_eqI) (auto simp: bit_simps dest: bit_imp_le_length)
  then show "unat (drop_bit 6 w) = phy_code p"
    by (cases p) simp_all
qed

lemma le32_nth_bytes32: "le32 (ucast w) (ucast (drop_bit 8 w)) (ucast (drop_bit 16 w)) (ucast (drop_bit 24 w)) = w"
  using le32_bytes32 [of w] by (simp add: bytes32_def)

lemma le16_nth_bytes16: "le16 (ucast w) (ucast (drop_bit 8 w)) = w"
  using le16_bytes16 [of w] by (simp add: bytes16_def)

lemma sendPacket_ble:
  assumes "f_channel f \<notin> {MSGCHAN_DEBUG, MSGCHAN_MARKER, MSGCHAN_STATE, MSGCHAN_MEASURE}" "frame_ok f"
  shows "\<exists>msg. sendPacket f = Some (Some msg) \<and> well_framed msg \<and>
    host_decode msg = Some \<lparr>hf_timestamp_us = drop_bit 2 (f_timestamp f), hf_length = flen f,
      hf_crcError = f_crcError f, hf_direction = bit (f_direction f) 0, hf_eventCtr = f_eventCtr f,
      hf_rssi = f_rssi f, hf_channel = unat (f_channel f), hf_phy = phy_code (f_phy f),
      hf_body = take (flen f) (f_pData f)\<rparr>"
proof -
  define len_dir where "len_dir = (of_nat (flen f) :: u16) OR push_bit 14 (of_bool (f_crcError f))
    OR push_bit 15 (ucast (f_direction f))"
  define cp where "cp = ucast (f_channel f) OR push_bit 6 (of_nat (phy_code (f_phy f)) :: u8)"
  define body where "body = take (flen f) (f_pData f)"
  define msg where "msg = of_nat ((flen f + 14) div 3) # MESSAGE_BLEFRAME # bytes32 (drop_bit 2 (f_timestamp f))
    @ bytes16 len_dir @ bytes16 (f_eventCtr f) @ [f_rssi f, cp] @ body"
  have chan: "f_channel f \<noteq> MSGCHAN_DEBUG" "f_channel f \<noteq> MSGCHAN_MARKER" "f_channel f \<noteq> MSGCHAN_STATE"
    "f_channel f \<noteq> MSGCHAN_MEASURE"
    using assms(1) by auto
  have len: "flen f \<le> PACKET_SIZE" "length body = flen f"
    using assms(2) by (simp_all add: frame_ok_def body_def)
  have send: "sendPacket f = Some (Some msg)"
    using chan assms(2) len unfolding sendPacket_def message_body_def Let_def frame_ok_def msg_def
      len_dir_def cp_def
    by (simp add: body_def add.commute or.assoc)
  moreover have "well_framed msg"
    using len by (simp add: well_framed_def msg_def unat_of_nat)
  moreover have "flen f < 2 ^ 14"
    using len(1) by simp
  note bits = bit_len_dir [OF this, of "f_crcError f" "f_direction f", folded len_dir_def]
    bits_channel_phy [of "f_channel f" "f_phy f", folded cp_def]
  have "host_decode msg = Some \<lparr>hf_timestamp_us = drop_bit 2 (f_timestamp f), hf_length = flen f,
      hf_crcError = f_crcError f, hf_direction = bit (f_direction f) 0, hf_eventCtr = f_eventCtr f,
      hf_rssi = f_rssi f, hf_channel = unat (f_channel f), hf_phy = phy_code (f_phy f), hf_body = body\<rparr>"
    using le32_nth_bytes32 [of "drop_bit 2 (f_timestamp f)"]
    by (simp add: host_decode_def msg_def bytes32_def bytes16_def le16_nth_bytes16 bits)
  ultimately show ?thesis
    by (simp add: body_def)
qed

text \<open>The fields that the code leaves indeterminate in a report never reach the host.\<close>

lemma report_message_stable:
  assumes "40 \<le> f_channel f" "f_channel f \<le> 43"
  shows "sendPacket (f\<lparr>f_crcError := c, f_direction := d\<rparr>) = sendPacket f"
proof -
  have "unat (f_channel f) = 40 \<or> unat (f_channel f) = 41 \<or> unat (f_channel f) = 42 \<or> unat (f_channel f) = 43"
    using assms by (auto simp: word_le_nat_alt)
  then have "f_channel f = MSGCHAN_DEBUG \<or> f_channel f = MSGCHAN_MARKER \<or> f_channel f = MSGCHAN_STATE
      \<or> f_channel f = MSGCHAN_MEASURE"
    by (auto simp: word_unat_eq_iff)
  moreover have "flen (f\<lparr>f_crcError := c, f_direction := d\<rparr>) = flen f"
    by (simp add: flen_def)
  ultimately show ?thesis
    by (auto simp: sendPacket_def message_body_def)
qed

section \<open>Filtering reads only the frame\<close>

text \<open>
  Where a frame has the advertiser's address and whether it is random: the outer \<open>None\<close> is a
  frame too short or of no advertising type, the inner one an extended PDU without address.
\<close>

definition address_at :: "ble_frame \<Rightarrow> (nat \<times> bool) option option" where
  "address_at f =
     (let h = f_pData f ! 0; t = h AND 0xF; e = unat (f_pData f ! 2 AND 0x3F)
      in if flen f < 2 then None
         else if t \<in> {ADV_IND, ADV_DIRECT_IND, ADV_NONCONN_IND, ADV_SCAN_IND, SCAN_RSP}
         then if flen f < 8 then None else Some (Some (2, h AND 0x40 \<noteq> 0))
         else if t \<in> {SCAN_REQ, CONNECT_IND}
         then if flen f < 14 then None else Some (Some (8, h AND 0x80 \<noteq> 0))
         else if t \<in> {ADV_EXT_IND, AUX_CONNECT_RSP}
         then if flen f < 3 \<or> flen f < 3 + e then None
              else if e = 0 \<or> f_pData f ! 3 AND 0x01 = 0 then Some None
              else if e < 7 then None else Some (Some (4, h AND 0x40 \<noteq> 0))
         else None)"

lemma macFilterCheck_address:
  assumes len: "flen f \<le> length (f_pData f)" and filt: "filterMacs st \<or> filterRpas st"
  shows "macFilterCheck f st = Some (case address_at f of None \<Rightarrow> (False, st) | Some None \<Rightarrow> (True, st)
    | Some (Some (off, random)) \<Rightarrow> macOk (take 6 (drop off (f_pData f))) random st)"
proof -
  have r0: "rd (f_pData f) 0 = Some (f_pData f ! 0)" if "\<not> flen f < 2"
    using that len by (intro rd_Some) linarith
  have r2: "rd (f_pData f) 2 = Some (f_pData f ! 2)" if "\<not> flen f < 3"
    using that len by (intro rd_Some) linarith
  have r3: "rd (f_pData f) 3 = Some (f_pData f ! 3)" if "\<not> flen f < 3 + e" "e \<noteq> 0" for e
    using that len by (intro rd_Some) linarith
  have rs: "rds (f_pData f) off 6 = Some (take 6 (drop off (f_pData f)))" if "\<not> flen f < off + 6" for off
    using that len by (intro rds_Some) linarith
  have rs4: "rds (f_pData f) 4 6 = Some (take 6 (drop 4 (f_pData f)))" if "\<not> flen f < 3 + e" "\<not> e < 7" for e
    using that len by (intro rds_Some) linarith
  show ?thesis
    using filt rs [of 2] rs [of 8]
    by (cases "flen f < 2") (auto simp: macFilterCheck_def address_at_def Let_def r0 r2 r3 rs4)
qed

section \<open>Properties\<close>

text \<open>
  Frames reach the host in the order in which they were accepted: whatever order frames
  are queued and sent in, what was sent followed by what is still queued is the queue at the
  start followed by the frames accepted since, none lost, repeated or altered.
\<close>

theorem packet_queue_fifo:
  fixes st :: fw
  assumes "packet_queue_ok st" "list_all (op_ok frame_ok) ops"
  shows "delivered packet_items packet_put packet_rem ops st @ packet_items (queue_run packet_items packet_put packet_rem ops st)
    = packet_items st @ map frame_view (accepted 7 packet_items packet_put packet_rem ops st) \<and>
    length (packet_items (queue_run packet_items packet_put packet_rem ops st)) \<le> 7"
  using packetq.fifo [OF assms] packetq.run_bound [OF assms] by blast

lemma packet_queue_init: "packet_queue_ok (fw_init brd clk)"
  by (simp add: packet_queue_ok_def fw_init_def frame_init_def ring_size_def)

lemma packet_queue_fifo_witness:
  "length (packet_items (queue_run packet_items packet_put packet_rem
     [Put frame_init, Take, Take] (fw_init \<lparr>tickPeriod = 10, txPowerTable = []\<rparr> (\<lambda>_. 0)))) \<le> 7"
proof -
  have "list_all (op_ok frame_ok) [Put frame_init, Take, Take]"
    by (simp add: frame_ok_def flen_def frame_init_def)
  then show ?thesis
    using packet_queue_fifo [OF packet_queue_init] by blast
qed

text \<open>
  The address filter never reads past the length of the frame, and with the MAC filter on
  it lets through exactly the frames that carry the wanted address where their type puts it
  and the extended PDUs that carry none.
\<close>

theorem macFilterCheck_mac:
  assumes "flen f \<le> length (f_pData f)" "filterMacs st"
  shows "macFilterCheck f st = Some
    (address_at f = Some None \<or>
     (\<exists>off random. address_at f = Some (Some (off, random)) \<and> off + 6 \<le> flen f \<and>
       take 6 (drop off (f_pData f)) = targMac st), st)"
proof -
  have "off + 6 \<le> flen f" if "address_at f = Some (Some (off, random))" for off random
    using that by (auto simp: address_at_def Let_def split: if_splits)
  then show ?thesis
    using assms macFilterCheck_address [of f st]
    by (auto simp: macOk_def split: option.splits)
qed

lemma macFilterCheck_mac_witness:
  "\<exists>b. macFilterCheck (frame_init\<lparr>f_length := 8\<rparr>)
     (setMacFilt True (Some [0, 0, 0, 0, 0, 0]) (fw_init \<lparr>tickPeriod = 10, txPowerTable = []\<rparr> (\<lambda>_. 0))) =
     Some (b, setMacFilt True (Some [0, 0, 0, 0, 0, 0]) (fw_init \<lparr>tickPeriod = 10, txPowerTable = []\<rparr> (\<lambda>_. 0)))"
  using macFilterCheck_mac [of "frame_init\<lparr>f_length := 8\<rparr>"
      "setMacFilt True (Some [0, 0, 0, 0, 0, 0]) (fw_init \<lparr>tickPeriod = 10, txPowerTable = []\<rparr> (\<lambda>_. 0))"]
  by (simp add: flen_def frame_init_def setMacFilt_def)

end
