(* ===== verification/Radio_Conn.thy ===== *)
theory Radio_Conn
  imports Packet_Task
begin

text \<open>
  The connection half of RadioTask.c: following a connection event by event.  Channel
  maps, the start and end of a connection, the housekeeping after every connection event
  (\<open>afterConnEvent\<close>) and the reaction to data channel PDUs (\<open>reactToDataPDU\<close>).  \<open>None\<close> is an
  execution outside the C standard; the invariant and its preservation are in \<open>Radio_Inv\<close>.
\<close>

unbundle bit_operations_syntax

section \<open>Median\<close>

text \<open>The comparison's difference wraps; \<open>median\<close> leaves the array sorted.\<close>

definition compare_ticks :: "u32 \<Rightarrow> u32 \<Rightarrow> int" where
  "compare_ticks a b = sint (a - b)"

definition median :: "u32 list \<Rightarrow> u32 \<times> u32 list" where
  "median arr = (let arr = qsort compare_ticks arr in (arr ! (length arr div 2), arr))"

section \<open>States and maps\<close>

definition inDataState :: "fw \<Rightarrow> bool" where
  "inDataState st \<longleftrightarrow> (case snifferState st of DATA \<Rightarrow> True | CENTRAL \<Rightarrow> True | PERIPHERAL \<Rightarrow> True | _ \<Rightarrow> False)"

definition stateTransition :: "sniffer_state \<Rightarrow> fw \<Rightarrow> fw option" where
  "stateTransition newState st =
     enqueueFrame (report_frame MSGCHAN_STATE 0 1 [state_code newState]) (st\<lparr>snifferState := newState\<rparr>)"

definition getCurrChan :: "fw \<Rightarrow> u8 option" where
  "getCurrChan st =
     (if use_csa2 st then Some (csa2_computeChannel (connEventCount st) (csa2_st st))
      else rd (mapping_table st) (unat (curUnmapped st)))"

definition computeMaps :: "fw \<Rightarrow> fw option" where
  "computeMaps st =
     (if use_csa2 st
      then Some (st\<lparr>csa2_st := csa2_computeMapping (accessAddress st) (chanMap (rconf st)) (csa2_st st)\<rparr>)
      else do { table \<leftarrow> computeMap1 (chanMap (rconf st)); Some (st\<lparr>mapping_table := table\<rparr>) })"

definition set_rconf :: "(radio_config \<Rightarrow> radio_config) \<Rightarrow> fw \<Rightarrow> fw" where
  "set_rconf f st = st\<lparr>rconf := f (rconf st)\<rparr>"

definition advHopSeekMode :: "fw \<Rightarrow> fw option" where
  "advHopSeekMode st = do {
     let st = set_rconf (\<lambda>c. c\<lparr>hopIntervalTicks := 10 * 4000\<rparr>) st;
     let st = st\<lparr>connEventCount := 0, fastAdvHop := False\<rparr>;
     st \<leftarrow> stateTransition ADVERT_SEEK st;
     Some (RadioWrapper_stop (st\<lparr>advHopEnabled := True, sniffScanRspLen := 26\<rparr>)) }"

definition handleConnFinished :: "fw \<Rightarrow> fw option" where
  "handleConnFinished st = do {
     st \<leftarrow> stateTransition (sniffDoneState st) st;
     let st = st\<lparr>accessAddress := BLE_ADV_AA, aux_events := AuxAdvScheduler_reset (aux_events st)\<rparr>;
     if snifferState st \<noteq> PAUSED \<and> advHopEnabled st then advHopSeekMode st else Some st }"

section \<open>The start of a connection\<close>

text \<open>\<open>llData\<close> are the bytes from the pointer on; 22 of them are read.\<close>

definition transmit_window_delay :: "bool \<Rightarrow> phy_mode \<Rightarrow> u32" where
  "transmit_window_delay isAuxReq phy =
     (if \<not> isAuxReq then 5000
      else if phy = PHY_CODED_S8 \<or> phy = PHY_CODED_S2 then 15000 else 10000)"

definition handleConnReq :: "phy_mode \<Rightarrow> u32 \<Rightarrow> u8 list \<Rightarrow> bool \<Rightarrow> fw \<Rightarrow> fw option" where
  "handleConnReq phy connTime llData isAuxReq st = do {
     aa \<leftarrow> rd32 llData 0;
     hop \<leftarrow> rd llData 21;
     crc \<leftarrow> rd32 llData 4;
     let st = st\<lparr>accessAddress := aa, hopIncrement := hop AND 0x1F, crcInit := crc AND 0xFFFFFF,
       ll_encryption := False, curUnmapped := hop AND 0x1F\<rparr>;
     chmap \<leftarrow> rd40 llData 16;
     st \<leftarrow> computeMaps (set_rconf (\<lambda>c. c\<lparr>chanMap := chmap, chanMapCertain := True\<rparr>) st);
     let transmitWindowDelay = transmit_window_delay isAuxReq phy - AO_TARG;
     winOffset \<leftarrow> rd16 llData 8;
     interval \<leftarrow> rd16 llData 10;
     let hopTime = connTime + transmitWindowDelay + ucast winOffset * 5000 + ucast interval * 5000;
     latency \<leftarrow> rd16 llData 12;
     timeout \<leftarrow> rd16 llData 14;
     let st = set_rconf (\<lambda>c. c\<lparr>hopIntervalTicks := ucast interval * 5000, intervalCertain := True,
       winOffsetCertain := True, rc_phy := phy, peripheralLatency := latency,
       connTimeoutTicks := ucast timeout * 40000\<rparr>) st;
     Some (st\<lparr>nextHopTime := hopTime, connTimeoutTime := hopTime + hopIntervalTicks (rconf st) * 6,
       connEventCount := 0, preloadedParamIndex := 0, rconf_queue := rconf_reset (rconf_queue st)\<rparr>) }"

section \<open>After a connection event\<close>

text \<open>The measurement of an unknown channel map: a channel without a packet is struck out.\<close>

definition measure_chanMap :: "fw \<Rightarrow> fw option" where
  "measure_chanMap st = do {
     chan \<leftarrow> getCurrChan st;
     chanBit \<leftarrow> (if unat chan < 64 then Some (push_bit (unat chan) 1) else None);
     st \<leftarrow> (if firstPacket st \<and> chanMapTestMask st AND chanBit = 0
       then computeMaps (set_rconf (\<lambda>c. c\<lparr>chanMap := chanMap c AND NOT chanBit\<rparr>) st) else Some st);
     let st = st\<lparr>chanMapTestMask := chanMapTestMask st OR chanBit\<rparr>;
     if chanMapTestMask st = 0x1FFFFFFFFF
     then reportMeasChanMap (chanMap (rconf st)) (set_rconf (\<lambda>c. c\<lparr>chanMapCertain := True\<rparr>) st)
     else Some st }"

text \<open>The window offset, once the first packet after an update was seen.\<close>

definition measure_winOffset :: "fw \<Rightarrow> fw option" where
  "measure_winOffset st =
     (let winOffset = timeDelta st - prevInterval st
      in if intervalCertain (rconf st)
         then reportMeasWinOffset winOffset
           (set_rconf (\<lambda>c. c\<lparr>winOffsetCertain := True\<rparr>)
             (st\<lparr>nextHopTime := nextHopTime st + ucast winOffset * 5000\<rparr>))
         else let deltaInstant = ucast (connEventCount st - ucast (connUpdateInstant st)) :: u16
              in if timeDelta st \<noteq> prevInterval st
                 then do { st \<leftarrow> reportMeasWinOffset winOffset (set_rconf (\<lambda>c. c\<lparr>winOffsetCertain := True\<rparr>) st);
                           reportMeasDeltaInstant deltaInstant st }
                 else if deltaInstant > 12
                 then do {
                   let st = set_rconf (\<lambda>c. c\<lparr>winOffsetCertain := True, intervalCertain := True,
                     hopIntervalTicks := ucast (prevInterval st) * 5000\<rparr>) st;
                   let st = st\<lparr>nextHopTime := lastAnchorTicks st + hopIntervalTicks (rconf st)\<rparr>;
                   st \<leftarrow> reportMeasWinOffset 0 st;
                   st \<leftarrow> reportMeasDeltaInstant 0 st;
                   reportMeasInterval (prevInterval st) st }
                 else Some st)"

text \<open>The hop interval as the median of three measurements, to the nearest 1.25 ms.\<close>

definition measure_median :: "fw \<Rightarrow> fw option" where
  "measure_median st = do {
     let (medIntervalTicks, arr) = median (intervalTicks st);
     let interval = (medIntervalTicks + 2500) div 5000;
     let st = set_rconf (\<lambda>c. c\<lparr>hopIntervalTicks := interval * 5000, intervalCertain := True\<rparr>)
       (st\<lparr>intervalTicks := arr\<rparr>);
     st \<leftarrow> reportMeasInterval (ucast interval) st;
     Some (st\<lparr>anchorOffset := map (\<lambda>_. AO_TARG) (anchorOffset st),
       nextHopTime := lastAnchorTicks st + hopIntervalTicks (rconf st)\<rparr>) }"

definition measure_interval :: "fw \<Rightarrow> fw option" where
  "measure_interval st =
     (if firstPacket st \<and> intervalCertain (rconf st)
      then Some (st\<lparr>lastAnchorTicks := lastAnchorTicks st + hopIntervalTicks (rconf st)\<rparr>)
      else if \<not> firstPacket st \<and> \<not> winOffsetCertain (rconf st) then measure_winOffset st
      else if \<not> intervalCertain (rconf st) \<and> winOffsetCertain (rconf st) \<and> itInd st \<ge> 3 \<and> itInd st \<noteq> 0xFFFFFFFF
      then measure_median st
      else Some st)"

text \<open>From line 315 on: the next event, with a configuration change if one is due.\<close>

definition next_event :: "bool \<Rightarrow> fw \<Rightarrow> fw option" where
  "next_event peripheral st = do {
     let st = st\<lparr>curUnmapped := of_nat ((unat (curUnmapped st) + unat (hopIncrement st)) mod 37),
       connEventCount := connEventCount st + 1\<rparr>;
     let (changed, c, q) = rconf_dequeue (ucast (connEventCount st AND 0xFFFF)) (rconf st) (rconf_queue st);
     let st = st\<lparr>rconf := c, rconf_queue := q\<rparr>;
     st \<leftarrow> (if changed
       then do {
         let st = st\<lparr>nextHopTime := nextHopTime st + ucast (rc_offset (rconf st)) * 5000\<rparr>;
         st \<leftarrow> computeMaps st;
         let st = (if instaHop st \<and> \<not> intervalCertain (rconf st) then st\<lparr>itInd := 0xFFFFFFFF\<rparr> else st);
         Some (if \<not> chanMapCertain (rconf st) then st\<lparr>chanMapTestMask := 0\<rparr> else st) }
       else Some st);
     let st = (if peripheral \<and> intervalCertain (rconf st) \<and> connEventCount st AND 3 = 0
       then let (medAnchorOffset, arr) = median (anchorOffset st)
            in st\<lparr>anchorOffset := arr, nextHopTime := nextHopTime st + (medAnchorOffset - AO_TARG)\<rparr>
       else st);
     Some (st\<lparr>nextHopTime := nextHopTime st + hopIntervalTicks (rconf st)\<rparr>) }"

definition afterConnEvent :: "bool \<Rightarrow> bool \<Rightarrow> fw \<Rightarrow> fw option" where
  "afterConnEvent peripheral gotData st = do {
     let (curRadioTime, st) = RF_getCurrentTime st;
     if \<not> gotData \<and> connTimeoutTime st - curRadioTime > 0x80000000 then handleConnFinished st
     else do {
       let st = (if gotData then st\<lparr>connTimeoutTime := curRadioTime + connTimeoutTicks (rconf st)\<rparr> else st);
       st \<leftarrow> (if \<not> chanMapCertain (rconf st) \<and> peripheral then measure_chanMap st else Some st);
       st \<leftarrow> (if peripheral \<and> instaHop st then measure_interval st else Some st);
       next_event peripheral st }}"

section \<open>Data channel PDUs\<close>

text \<open>The clock synchronisation on the first packet of an event.\<close>

definition sync_anchor :: "ble_frame \<Rightarrow> fw \<Rightarrow> fw option" where
  "sync_anchor frame st =
     (if unat (aoInd st) \<ge> length (anchorOffset st) then None
      else let st = st\<lparr>anchorOffset := (anchorOffset st)[unat (aoInd st) :=
               f_timestamp frame + hopIntervalTicks (rconf st) - nextHopTime st],
               aoInd := (aoInd st + 1) AND 3, firstPacket := False\<rparr>;
             timeDeltaTicks = f_timestamp frame - lastAnchorTicks st;
             st = (if instaHop st
               then if \<not> winOffsetCertain (rconf st)
                    then st\<lparr>timeDelta := ucast ((timeDeltaTicks + 2500) div 5000)\<rparr>
                    else if \<not> intervalCertain (rconf st)
                    then let st = (if itInd st < 3
                           then st\<lparr>intervalTicks := (intervalTicks st)[unat (itInd st) := timeDeltaTicks]\<rparr> else st)
                         in st\<lparr>itInd := itInd st + 1\<rparr>
                    else st
               else st)
           in Some (st\<lparr>lastAnchorTicks := f_timestamp frame\<rparr>))"

definition enqueue_conf :: "u16 \<Rightarrow> radio_config \<Rightarrow> fw \<Rightarrow> fw" where
  "enqueue_conf instant c st = st\<lparr>rconf_queue := rconf_enqueue instant c (rconf_queue st)\<rparr>"

definition last_rconf :: "fw \<Rightarrow> radio_config" where
  "last_rconf st = (case rconf_latest (rconf_queue st) of Some c \<Rightarrow> c | None \<Rightarrow> rconf st)"

text \<open>An encrypted connection update: preloaded parameters, or a measurement, or nothing to follow.\<close>

definition encrypted_update :: "ble_frame \<Rightarrow> radio_config \<Rightarrow> fw \<Rightarrow> fw option" where
  "encrypted_update frame latest st = do {
     st \<leftarrow> (if numParamPairs st \<noteq> 0
       then do {
         let (plInd, st) = (if preloadedParamIndex st \<ge> numParamPairs st - 1
           then (numParamPairs st - 1, st)
           else (preloadedParamIndex st, st\<lparr>preloadedParamIndex := preloadedParamIndex st + 1\<rparr>));
         if unat plInd * 2 + 1 \<ge> length (connParamPairs st) then None
         else let interval = connParamPairs st ! (unat plInd * 2);
                  delta = connParamPairs st ! (unat plInd * 2 + 1);
                  next_rconf = latest\<lparr>chanMapCertain := True, rc_offset := 0,
                    hopIntervalTicks := ucast interval * 5000, intervalCertain := True, winOffsetCertain := False\<rparr>
              in Some (enqueue_conf (f_eventCtr frame + delta) next_rconf st) }
       else if snifferState st \<noteq> CENTRAL \<and> instaHop st
       then Some (enqueue_conf (f_eventCtr frame + 6)
              (latest\<lparr>chanMapCertain := True, rc_offset := 0, hopIntervalTicks := 240 * 5000,
                 intervalCertain := False, winOffsetCertain := False\<rparr>) st)
       else Some st);
     Some (st\<lparr>connUpdateInstant := f_eventCtr frame,
       prevInterval := ucast ((hopIntervalTicks latest + 2500) div 5000)\<rparr>) }"

text \<open>The guesses made from the length of an encrypted control PDU.\<close>

definition react_encrypted :: "ble_frame \<Rightarrow> u8 \<Rightarrow> radio_config \<Rightarrow> fw \<Rightarrow> fw option" where
  "react_encrypted frame datLen latest st =
     (if datLen = 9 \<and> \<not> ignoreEncPhyChange st \<and> rc_phy latest \<noteq> preloadedPhy st
      then Some (enqueue_conf (f_eventCtr frame + 7) (latest\<lparr>rc_offset := 0, rc_phy := preloadedPhy st\<rparr>) st)
      else if datLen = 12 \<and> snifferState st \<noteq> CENTRAL \<and> intervalCertain latest
      then Some (enqueue_conf (f_eventCtr frame + 9)
             (latest\<lparr>chanMap := 0x1FFFFFFFFF, chanMapCertain := False, rc_offset := 0, intervalCertain := True,
                winOffsetCertain := True, peripheralLatency := 10\<rparr>) st)
      else if datLen = 16 then encrypted_update frame latest st
      else Some st)"

definition conn_update_ind :: "ble_frame \<Rightarrow> radio_config \<Rightarrow> fw \<Rightarrow> fw option" where
  "conn_update_ind frame latest st = do {
     offset \<leftarrow> rd16 (f_pData frame) 4;
     interval \<leftarrow> rd16 (f_pData frame) 6;
     latency \<leftarrow> rd16 (f_pData frame) 6;
     timeout \<leftarrow> rd16 (f_pData frame) 10;
     nextInstant \<leftarrow> rd16 (f_pData frame) 12;
     let next_rconf = latest\<lparr>rc_offset := offset, hopIntervalTicks := ucast interval * 5000,
       intervalCertain := True, winOffsetCertain := True, peripheralLatency := latency,
       connTimeoutTicks := ucast timeout * 40000\<rparr>;
     let st = enqueue_conf nextInstant next_rconf st;
     Some (if numParamPairs st \<noteq> 0 \<and> preloadedParamIndex st < numParamPairs st - 1
           then st\<lparr>preloadedParamIndex := preloadedParamIndex st + 1\<rparr> else st) }"

definition channel_map_ind :: "ble_frame \<Rightarrow> radio_config \<Rightarrow> fw \<Rightarrow> fw option" where
  "channel_map_ind frame latest st = do {
     chmap \<leftarrow> rd40 (f_pData frame) 3;
     nextInstant \<leftarrow> rd16 (f_pData frame) 8;
     Some (enqueue_conf nextInstant (latest\<lparr>chanMap := chmap, chanMapCertain := True, rc_offset := 0\<rparr>) st) }"

definition phy_update_ind :: "ble_frame \<Rightarrow> radio_config \<Rightarrow> fw \<Rightarrow> fw option" where
  "phy_update_ind frame latest st = do {
     p \<leftarrow> rd (f_pData frame) 3;
     let phy = (if p AND 0x7 = 0x1 then PHY_1M else if p AND 0x7 = 0x2 then PHY_2M
       else if p AND 0x7 = 0x4 then PHY_CODED_S8 else rc_phy latest);
     nextInstant \<leftarrow> rd16 (f_pData frame) 5;
     Some (enqueue_conf nextInstant (latest\<lparr>rc_offset := 0, rc_phy := phy\<rparr>) st) }"

text \<open>The switch over the opcode of a readable control PDU.\<close>

definition react_control :: "ble_frame \<Rightarrow> u8 \<Rightarrow> u8 \<Rightarrow> radio_config \<Rightarrow> fw \<Rightarrow> fw option" where
  "react_control frame opcode datLen latest st =
     (if opcode = 0x00 then if datLen \<noteq> 12 then Some st else conn_update_ind frame latest st
      else if opcode = 0x01 then if datLen \<noteq> 8 then Some st else channel_map_ind frame latest st
      else if opcode = 0x02 then if datLen \<noteq> 2 then Some st else handleConnFinished st
      else if opcode = 0x05 then Some (st\<lparr>ll_encryption := True\<rparr>)
      else if opcode = 0x18 then if datLen \<noteq> 5 then Some st else phy_update_ind frame latest st
      else Some st)"

definition reactToDataPDU :: "ble_frame \<Rightarrow> bool \<Rightarrow> fw \<Rightarrow> fw option" where
  "reactToDataPDU frame transmit st = do {
     st \<leftarrow> (if firstPacket st \<and> \<not> transmit then sync_anchor frame st else Some st);
     let st = (if snifferState st = DATA then st\<lparr>g_pkt_dir := g_pkt_dir st XOR 1\<rparr> else st);
     if flen frame < 2 then Some st
     else do {
       h \<leftarrow> rd (f_pData frame) 0;
       datLen \<leftarrow> rd (f_pData frame) 1;
       opcode \<leftarrow> rd (f_pData frame) 2;
       let st = (if h AND 0x10 = 0
         then st\<lparr>moreData := moreData st AND NOT (push_bit (unat (g_pkt_dir st)) 1)\<rparr> else st);
       let st = (if ll_encryption st \<and> instaHop st \<and> moreData st = 0 \<and> snifferState st = DATA
         then RadioWrapper_stop st else st);
       if h AND 0x3 \<noteq> 0x3 then Some st
       else if int (flen frame) - 2 \<noteq> int (unat datLen) then Some st
       else let latest = last_rconf st
            in if ll_encryption st then react_encrypted frame datLen latest st
               else react_control frame opcode datLen latest st }}"

end
