(* ===== verification/Radio_React.thy ===== *)
theory Radio_React
  imports Radio_Conn
begin

text \<open>
  The advertising half of RadioTask.c: what a received advertising PDU makes the sniffer do
  (\<open>reactToPDU\<close>, \<open>reactToAdvExtPDU\<close>), and \<open>indicatePacket\<close> of PacketTask.c, through which every
  received frame goes.
\<close>

unbundle bit_operations_syntax

section \<open>Extended advertising\<close>

text \<open>
  The fields of the extended header, walked in order; \<open>ext_field\<close> is the width a flag adds.
  The result is whether the header is consistent, with the offset of the auxiliary pointer.
\<close>

definition ext_field :: "u8 \<Rightarrow> u8 \<Rightarrow> nat \<Rightarrow> nat" where
  "ext_field hdrFlags flag n = (if hdrFlags AND flag \<noteq> 0 then n else 0)"

definition ext_aux_ptr :: "u8 list \<Rightarrow> nat \<Rightarrow> (bool \<times> nat option) option" where
  "ext_aux_ptr pData advLen =
     (if advLen < 1 then Some (False, None)
      else do {
        b \<leftarrow> rd pData 2;
        let hdrBodyLen = unat (b AND 0x3F);
        if advLen < hdrBodyLen + 1 then Some (False, None)
        else if hdrBodyLen > 1
        then do {
          hdrFlags \<leftarrow> rd pData 3;
          let hdrPos = 4 + ext_field hdrFlags 0x01 6 + ext_field hdrFlags 0x02 6 + ext_field hdrFlags 0x04 1
            + ext_field hdrFlags 0x08 2;
          let pAuxPtr = (if hdrFlags AND 0x10 \<noteq> 0 then Some hdrPos else None);
          let hdrPos = hdrPos + ext_field hdrFlags 0x10 3 + ext_field hdrFlags 0x20 18 + ext_field hdrFlags 0x40 1;
          let hdrPos = (if hdrPos - 3 < hdrBodyLen then hdrPos + (hdrBodyLen - (hdrPos - 3)) else hdrPos);
          Some (if hdrPos - 2 > advLen then (False, None) else (True, pAuxPtr)) }
        else Some (True, None) })"

definition AUX_OFF_TARG_USEC :: u32 where
  "AUX_OFF_TARG_USEC = 500"

text \<open>Channel, PHY, start and duration of the auxiliary event a pointer announces.\<close>

definition aux_event :: "u32 \<Rightarrow> u8 \<Rightarrow> u8 \<Rightarrow> u8 \<Rightarrow> u8 \<times> phy_mode \<times> u32 \<times> u32" where
  "aux_event timestamp p0 p1 p2 =
     (let chan = p0 AND 0x3F;
          phy = (if drop_bit 5 p2 < 3 then phy_of_code (unat (drop_bit 5 p2)) else PHY_2M);
          offsetUsecMultiplier = (if p0 AND 0x80 \<noteq> 0 then 300 else 30) :: u16;
          auxOffset = ucast p1 + push_bit 8 (ucast (p2 AND 0x1F)) :: u16;
          auxOffsetUs = ucast auxOffset * ucast offsetUsecMultiplier :: u32;
          auxOffsetUs = (if auxOffsetUs < AUX_OFF_TARG_USEC then 0 else auxOffsetUs - AUX_OFF_TARG_USEC);
          radioTimeStart = timestamp + auxOffsetUs * 4;
          auxPeriod = (if phy = PHY_1M then (AUX_OFF_TARG_USEC + 3000) * 4
            else if phy = PHY_2M then (AUX_OFF_TARG_USEC + 1800) * 4
            else (AUX_OFF_TARG_USEC + 21000) * 4)
      in (chan, phy, radioTimeStart, auxPeriod))"

definition reactToAdvExtPDU :: "ble_frame \<Rightarrow> u8 \<Rightarrow> fw \<Rightarrow> fw option" where
  "reactToAdvExtPDU frame advLen st = do {
     (consistent, pAuxPtr) \<leftarrow> ext_aux_ptr (f_pData frame) (unat advLen);
     if \<not> consistent then Some st
     else case pAuxPtr of
       None \<Rightarrow> Some st
     | Some pos \<Rightarrow>
         if snifferState st = SCANNING then Some st
         else do {
           p0 \<leftarrow> rd (f_pData frame) pos;
           p1 \<leftarrow> rd (f_pData frame) (pos + 1);
           p2 \<leftarrow> rd (f_pData frame) (pos + 2);
           let (chan, phy, radioTimeStart, auxPeriod) = aux_event (f_timestamp frame) p0 p1 p2;
           let st = st\<lparr>aux_events := snd (AuxAdvScheduler_insert chan phy radioTimeStart auxPeriod (aux_events st))\<rparr>;
           let (now, st) = RF_getCurrentTime st;
           let ticksToStart = radioTimeStart - now;
           let ticksToStart = (if ticksToStart > 0x80000000 then 0 else ticksToStart);
           Some (if ticksToStart < 5000 * 4 then DelayStopTrigger_trig (drop_bit 2 ticksToStart) st
                 else DelayStopTrigger_trig 5000 st) }}"

section \<open>Legacy advertising\<close>

abbreviation (input) HOP_TUNE_LISTEN_LATENCY :: u32 where
  "HOP_TUNE_LISTEN_LATENCY \<equiv> 300"

text \<open>Measuring the hop interval between 37, 38 and 39.\<close>

definition seek_advert :: "ble_frame \<Rightarrow> fw \<Rightarrow> fw" where
  "seek_advert frame st =
     (if f_channel frame = 37 then RadioWrapper_trigAdv3 (st\<lparr>lastAdvTimestamp := f_timestamp frame\<rparr>)
      else if f_channel frame = 38 \<and> \<not> gotLegacy38 st \<or> f_channel frame = 39 \<and> \<not> gotLegacy39 st
      then let hopTicks = f_timestamp frame - lastAdvTimestamp st;
               st = st\<lparr>lastAdvTimestamp := f_timestamp frame, connEventCount := connEventCount st + 1\<rparr>;
               (hopTicks, st) = (if f_channel frame = 38 then (hopTicks, st\<lparr>gotLegacy38 := True\<rparr>)
                 else (if \<not> gotLegacy38 st then drop_bit 1 hopTicks else hopTicks, st\<lparr>gotLegacy39 := True\<rparr>))
           in if hopTicks < hopIntervalTicks (rconf st)
              then let st = set_rconf (\<lambda>c. c\<lparr>hopIntervalTicks := hopTicks\<rparr>) st
                   in if hopTicks - of_nat (flen frame * 32) < 380 * 4 then st\<lparr>fastAdvHop := True\<rparr> else st
              else st
      else st)"

text \<open>When to leave channel 37.\<close>

definition target_hop_time :: "bool \<Rightarrow> u8 \<Rightarrow> ble_frame \<Rightarrow> u32 \<Rightarrow> u32" where
  "target_hop_time follow pduType frame hopTicks =
     (if \<not> follow \<or> pduType = ADV_NONCONN_IND
      then f_timestamp frame + hopTicks - HOP_TUNE_LISTEN_LATENCY * 4
      else let hopDelay = hopTicks + (150 - HOP_TUNE_LISTEN_LATENCY) * 4;
               hopDelay = (if sint hopDelay > 510 * 4 then 510 * 4 else hopDelay)
           in f_timestamp frame + of_nat ((flen frame + 8) * 32) + hopDelay)"

definition hop_advert :: "u8 \<Rightarrow> ble_frame \<Rightarrow> fw \<Rightarrow> fw" where
  "hop_advert pduType frame st =
     (let targHopTime = target_hop_time (followConnections st) pduType frame (hopIntervalTicks (rconf st));
          (now, st) = RF_getCurrentTime st;
          timeRemaining = targHopTime - now;
          timeRemaining = (if timeRemaining \<ge> 0x80000000 then 0 else drop_bit 2 timeRemaining)
      in DelayHopTrigger_trig timeRemaining st)"

section \<open>Connection requests\<close>

definition choose_csa2 :: "ble_frame \<Rightarrow> bool \<Rightarrow> fw \<Rightarrow> fw option" where
  "choose_csa2 frame chSel st =
     (if snifferState st = ADVERTISING then Some (st\<lparr>use_csa2 := chSel\<rparr>)
      else let isAuxReq = f_channel frame < 37
           in if \<not> isAuxReq \<and> chSel
              then do {
                mac \<leftarrow> rds (f_pData frame) 8 6;
                adv_hdr \<leftarrow> adv_cache_fetch mac (adv_cache_st st);
                Some (st\<lparr>use_csa2 := (adv_hdr \<noteq> 0xFF \<and> adv_hdr AND 0x20 \<noteq> 0)\<rparr>) }
              else Some (st\<lparr>use_csa2 := isAuxReq\<rparr>))"

definition react_connect :: "ble_frame \<Rightarrow> bool \<Rightarrow> fw \<Rightarrow> fw option" where
  "react_connect frame chSel st = do {
     let isAuxReq = (f_channel frame < 37);
     st \<leftarrow> choose_csa2 frame chSel st;
     st \<leftarrow> handleConnReq (f_phy frame) (f_timestamp frame) (drop 14 (f_pData frame)) isAuxReq st;
     if snifferState st = ADVERTISING \<or> snifferState st = ADVERTISING_EXT
     then do { st \<leftarrow> stateTransition PERIPHERAL (RadioWrapper_resetSeqStat st); Some (RadioWrapper_stop st) }
     else if isAuxReq then Some (st\<lparr>gotAuxConnReq := True\<rparr>)
     else do { st \<leftarrow> stateTransition DATA st; Some (RadioWrapper_stop st) } }"

section \<open>Every received PDU\<close>

text \<open>From the postponement of a hop on (line 793); \<open>h\<close> is the header byte.\<close>

definition react_adv_type :: "ble_frame \<Rightarrow> u8 \<Rightarrow> u8 \<Rightarrow> fw \<Rightarrow> fw option" where
  "react_adv_type frame h advLen st = do {
     let pduType = h AND 0xF;
     let chSel = (h AND 0x20 \<noteq> 0);
     let st = (if pduType = SCAN_RSP then st\<lparr>sniffScanRspLen := of_nat (flen frame)\<rparr> else st);
     let st = (if pduType = SCAN_REQ \<and> f_channel frame = 37 \<and> snifferState st = ADVERT_HOP \<and> \<not> postponed st
       then (DelayHopTrigger_postpone (270 + sniffScanRspLen st * 8) st)\<lparr>postponed := True\<rparr> else st);
     if pduType = ADV_IND \<or> pduType = ADV_DIRECT_IND
     then do { mac \<leftarrow> rds (f_pData frame) 2 6;
               Some (st\<lparr>adv_cache_st := adv_cache_store mac h (adv_cache_st st)\<rparr>) }
     else if pduType = ADV_EXT_IND \<and> auxAdvEnabled st \<and> snifferState st \<noteq> ADVERT_SEEK
     then reactToAdvExtPDU frame advLen st
     else if pduType = CONNECT_IND \<and> followConnections st
     then if advLen \<noteq> 34 then Some st else react_connect frame chSel st
     else if gotAuxConnReq st \<and> pduType = AUX_CONNECT_RSP
     then do { st \<leftarrow> stateTransition DATA st; Some (RadioWrapper_stop st) }
     else Some st }"

definition reactToPDU :: "ble_frame \<Rightarrow> fw \<Rightarrow> fw option" where
  "reactToPDU frame st =
     (if \<not> inDataState st \<or> f_channel frame \<ge> 37
      then if flen frame < 2 then Some st
           else do {
             h \<leftarrow> rd (f_pData frame) 0;
             advLen \<leftarrow> rd (f_pData frame) 1;
             let pduType = h AND 0xF;
             if int (flen frame) - 2 < int (unat advLen) then Some st
             else let st = (if pduType = ADV_IND \<or> pduType = ADV_DIRECT_IND \<or> pduType = ADV_NONCONN_IND
                          \<or> pduType = ADV_SCAN_IND
                        then if snifferState st = ADVERT_SEEK then seek_advert frame st
                             else if snifferState st = ADVERT_HOP \<and> f_channel frame = 37
                             then hop_advert pduType frame st else st
                        else st)
                  in react_adv_type frame h advLen st }
      else reactToDataPDU frame False st)"

definition indicatePacket :: "ble_frame \<Rightarrow> fw \<Rightarrow> fw option" where
  "indicatePacket frame st =
     (if f_channel frame < 40
      then if \<not> inDataState st
           then if sint (f_rssi frame) < sint (minRssi st) then Some st
                else do {
                  (ok, st) \<leftarrow> macFilterCheck frame st;
                  if \<not> ok then Some st
                  else do { st \<leftarrow> (if \<not> f_crcError frame then reactToPDU frame st else Some st);
                            enqueueFrame frame st } }
           else let frame = frame\<lparr>f_direction := ucast (g_pkt_dir st), f_eventCtr := ucast (connEventCount st)\<rparr>
                in do { st \<leftarrow> (if \<not> f_crcError frame then reactToPDU frame st else Some st);
                        enqueueFrame frame st }
      else enqueueFrame frame st)"

end
