(* ===== verification/Radio_Loop.thy ===== *)
theory Radio_Loop
  imports Radio_React
begin

text \<open>
  The main loop of RadioTask.c.  One round of the loop blocks in a radio command or a
  sleep, while frames arrive and the host sends commands, so it is cut there:
  \<open>loop_begin\<close> runs from the top of the loop to the blocking call, \<open>loop_resume\<close> from its
  return to the next blocking call or back to the top.  The point in between is a \<open>loop_point\<close>;
  a command the wrapper refused stands for a call that returned at once.  What the radio
  reports when it is done is an \<open>rf_result\<close>.
\<close>

unbundle bit_operations_syntax

section \<open>Points of the loop\<close>

record rf_result =
  rr_status :: rf_status
  rr_status38 :: rf_status
  rr_status39 :: rf_status
  rr_numSent :: u32
  rr_connTime :: u32
  rr_rxListenTime :: u32
  rr_phyMode :: nat
  rr_stack :: "u8 list"

datatype loop_point =
  Idle
  | Rx_static "errno + generic_rx list"
  | Rx_seek "errno + generic_rx list"
  | Rx_hop "errno + generic_rx list"
  | Rx_data "errno + generic_rx list"
  | Rx_scan "errno + scanner_cmd"
  | Run_initiate "errno + initiator_cmd"
  | Run_central "errno + data_cmd" data_queue u32 u32 "(u16 \<times> u16 \<times> u8) option"
  | Run_peripheral "errno + data_cmd" data_queue
  | Run_advertise "errno + adv_cmd list" u32
  | Run_advertise_ext "errno + adv_ext_cmd" u32
  | Sleeping
  | Sleep_central bool
  | Sleep_peripheral bool

text \<open>A wrapper call: the command, or the error with the state unchanged.\<close>

definition issue :: "(errno + 'c \<times> fw) \<Rightarrow> fw \<Rightarrow> (errno + 'c) \<times> fw" where
  "issue r st = (case r of Inl e \<Rightarrow> (Inl e, st) | Inr (c, st') \<Rightarrow> (Inr c, st'))"

section \<open>Sniffing states\<close>

definition begin_static :: "fw \<Rightarrow> loop_point \<times> fw" where
  "begin_static st =
     (if auxAdvEnabled st
      then let (cur_t, st) = RF_getCurrentTime st;
               (etime, chan, phy, xs) = AuxAdvScheduler_next cur_t (aux_events st);
               st = st\<lparr>aux_events := xs\<rparr>
           in if etime - LISTEN_TICKS_MIN - cur_t \<ge> 0x80000000 then (Idle, st)
              else let (chan, phy, aa) = (if chan = 0xFF then (statChan st, statPHY st, accessAddress st)
                         else (chan, phy, BLE_ADV_AA));
                       (c, st) = issue (RadioWrapper_recvFrames phy (ucast chan) aa (statCRCI st) etime False
                         (validateCrc st) st) st
                   in (Rx_static c, st)
      else let (c, st) = issue (RadioWrapper_recvFrames (statPHY st) (ucast (statChan st)) (accessAddress st)
                 (statCRCI st) 0 True (validateCrc st) st) st
           in (Rx_static c, st))"

definition begin_seek :: "fw \<Rightarrow> loop_point \<times> fw" where
  "begin_seek st =
     (let st = st\<lparr>gotLegacy38 := False, gotLegacy39 := False\<rparr>;
          st = (if auxAdvEnabled st then DelayStopTrigger_trig (3 * 1000000) st else st);
          (c, st) = issue (RadioWrapper_recvAdv3
            (if connEventCount st = 0 \<or> fastAdvHop st then 0 else 450 * 4) (22 * 4000) (validateCrc st) st) st
      in (Rx_seek c, st))"

text \<open>\<open>finish_seek\<close> is lines 392 to 413, after the sniffing on the three channels has ended.\<close>

definition finish_seek :: "fw \<Rightarrow> fw option" where
  "finish_seek st =
     (if snifferState st \<noteq> ADVERT_SEEK then Some st
      else if \<not> gotLegacy38 st \<and> \<not> gotLegacy39 st \<and> auxAdvEnabled st
      then do {
        let st = set_rconf (\<lambda>c. c\<lparr>hopIntervalTicks := 688 * 4\<rparr>) st;
        st \<leftarrow> dprintf (ascii ''No legacy ads, jumping to ADVERT_HOP'') st;
        stateTransition ADVERT_HOP st }
      else do {
        let st = (if \<not> gotLegacy38 st \<and> \<not> gotLegacy39 st \<and> \<not> fastAdvHop st then st\<lparr>fastAdvHop := True\<rparr> else st);
        if connEventCount st \<ge> 5
        then do { st \<leftarrow> reportMeasAdvHop (drop_bit 2 (hopIntervalTicks (rconf st))) st;
                  stateTransition ADVERT_HOP st }
        else Some st })"

definition begin_hop :: "fw \<Rightarrow> loop_point \<times> fw" where
  "begin_hop st =
     (let st = st\<lparr>postponed := False\<rparr>;
          adv3 = (\<lambda>st. let (c, st) = issue (RadioWrapper_recvAdv3 (hopIntervalTicks (rconf st) - 60)
            (hopIntervalTicks (rconf st) + 5000) (validateCrc st) st) st in (Rx_hop c, st))
      in if auxAdvEnabled st
         then let (cur_t, st) = RF_getCurrentTime st;
                  (etime, chan, phy, xs) = AuxAdvScheduler_next cur_t (aux_events st);
                  st = st\<lparr>aux_events := xs\<rparr>
              in if etime - LISTEN_TICKS_MIN - cur_t \<ge> 0x80000000 then (Idle, st)
                 else if chan \<noteq> 0xFF
                 then let (c, st) = issue (RadioWrapper_recvFrames phy (ucast chan) BLE_ADV_AA 0x555555 etime
                            False (validateCrc st) st) st
                      in (Rx_hop c, st)
                 else let (now, st) = RF_getCurrentTime st
                      in adv3 (DelayStopTrigger_trig (drop_bit 2 (etime - now)) st)
         else adv3 st)"

definition time_extension :: "fw \<Rightarrow> u32" where
  "time_extension st = (if winOffsetCertain (rconf st) then 0 else hopIntervalTicks (rconf st))"

definition begin_data :: "fw \<Rightarrow> (loop_point \<times> fw) option" where
  "begin_data st = do {
     chan \<leftarrow> getCurrChan st;
     let st = st\<lparr>firstPacket := True, moreData := 0x3\<rparr>;
     let (c, st) = issue (RadioWrapper_recvFrames (rc_phy (rconf st)) (ucast chan) (accessAddress st) (crcInit st)
       (nextHopTime st + time_extension st) False (validateCrc st) st) st;
     Some (Rx_data c, st) }"

section \<open>Scanning and advertising\<close>

definition begin_scanning :: "fw \<Rightarrow> loop_point \<times> fw" where
  "begin_scanning st =
     (let (c, st) = issue
        (if auxAdvEnabled st
         then RadioWrapper_scan (statPHY st) (ucast (statChan st)) 0 True (ourAddr st) (ourAddrRandom st) (validateCrc st) st
         else RadioWrapper_scanLegacy (ucast (statChan st)) 0 True (ourAddr st) (ourAddrRandom st) (validateCrc st) st) st
      in (Rx_scan c, st))"

definition begin_advertising :: "fw \<Rightarrow> loop_point \<times> fw" where
  "begin_advertising st =
     (let (now, st) = RF_getCurrentTime st;
          sleep_ms = ucast (s_advIntervalMs st) + (now AND 0x7) :: u32;
          (c, st) = RadioWrapper_advertise3 (ourAddr st) (ourAddrRandom st) (s_advData st) (s_advLen st)
            (s_scanRspData st) (s_scanRspLen st) (s_advMode st) st
      in (Run_advertise c sleep_ms, st))"

definition begin_advertising_ext :: "fw \<Rightarrow> loop_point \<times> fw" where
  "begin_advertising_ext st =
     (let (now, st) = RF_getCurrentTime st;
          sleep_ms = ucast (s_advIntervalMs st) + (now AND 0x7) :: u32;
          (c, st) = issue (RadioWrapper_advertiseExt3 (ourAddr st) (ourAddrRandom st) (s_advData st) (s_advLen st)
            (s_advExtMode st) (s_primaryAdvPhy st) (s_secondaryAdvPhy st) (ucast (s_secondaryAdvChan st)) (s_adi st) st) st
      in (Run_advertise_ext c sleep_ms, st))"

definition finish_advertising :: "sniffer_state \<Rightarrow> u32 \<Rightarrow> fw \<Rightarrow> loop_point \<times> fw" where
  "finish_advertising state sleep_ms st =
     (if snifferState st = state then (Sleeping, emit (Task_sleep (sleep_ms * 100)) st) else (Idle, st))"

section \<open>Initiating\<close>

definition begin_initiating :: "fw \<Rightarrow> loop_point \<times> fw" where
  "begin_initiating st =
     (let st = st\<lparr>g_pkt_dir := 1\<rparr>;
          (c, st) = issue (RadioWrapper_initiate (statPHY st) (ucast (statChan st)) 0 True (ourAddr st)
            (ourAddrRandom st) (peerAddr st) (peerAddrRandom st) (connReqLLData st) st) st
      in (Run_initiate c, st))"

definition finish_initiating :: "errno + int \<Rightarrow> u32 \<Rightarrow> phy_mode \<Rightarrow> fw \<Rightarrow> fw option" where
  "finish_initiating status connTime connPhy st =
     (if snifferState st \<noteq> INITIATING then Some st
      else case status of
        Inl _ \<Rightarrow> handleConnFinished st
      | Inr n \<Rightarrow>
          if n < 0 then handleConnFinished st
          else do {
            st \<leftarrow> handleConnReq connPhy 0 (connReqLLData st) (n \<ge> 2) (st\<lparr>use_csa2 := (n \<ge> 1)\<rparr>);
            let st = st\<lparr>nextHopTime := connTime - AO_TARG + hopIntervalTicks (rconf st)\<rparr>;
            stateTransition CENTRAL (RadioWrapper_resetSeqStat st) })"

section \<open>What was transmitted\<close>

text \<open>
  The loop over the sent entries; \<open>f\<close> is the frame the code reuses, with its 40 byte buffer.
\<close>

fun transmitted_from :: "nat \<Rightarrow> nat \<Rightarrow> ble_frame \<Rightarrow> fw \<Rightarrow> fw option" where
  "transmitted_from 0 e f st = Some st"
| "transmitted_from (Suc n) e f st =
     (let entry = tx_entries (tx_q st) ! e; len = unat (te_length entry)
      in if len > 39 \<or> len < 1 \<or> te_data entry ! 0 AND 0x3 \<noteq> 0x3
         then transmitted_from n (te_next entry) f st
         else do {
           txEvent \<leftarrow> rd16 (te_data entry) len;
           body \<leftarrow> rds (te_data entry) 1 (len - 1);
           let pData = overwrite ((f_pData f)[0 := te_data entry ! 0, 1 := of_nat (len - 1)]) 2 body;
           let f = f\<lparr>f_eventCtr := (if txEvent \<noteq> 0 then txEvent else ucast (connEventCount st)),
             f_length := of_nat (len + 1), f_pData := pData\<rparr>;
           st \<leftarrow> reactToDataPDU f True st;
           transmitted_from n (te_next entry) f st })"

text \<open>\<open>stack\<close> is the indeterminate content of the local buffer.\<close>

definition reactToTransmitted :: "u8 list \<Rightarrow> data_queue \<Rightarrow> u32 \<Rightarrow> fw \<Rightarrow> fw option" where
  "reactToTransmitted stack pTXQ numEntries st = do {
     let (now, st) = RF_getCurrentTime st;
     chan \<leftarrow> getCurrChan st;
     let f = (report_frame (ucast chan) now 0 stack)\<lparr>f_phy := rc_phy (rconf st)\<rparr>;
     case pCurrEntry pTXQ of None \<Rightarrow> Some st | Some e \<Rightarrow> transmitted_from (unat numEntries) e f st }"

section \<open>Central and peripheral\<close>

text \<open>One attempt of the sweep over window offsets; \<open>n\<close> and \<open>max\<close> are the offset and its bound.\<close>

definition central_attempt :: "u8 \<Rightarrow> data_queue \<Rightarrow> u32 \<Rightarrow> u32 \<Rightarrow> u16 \<Rightarrow> u16 \<Rightarrow> fw \<Rightarrow> loop_point \<times> fw" where
  "central_attempt chan txq2 curHopTime numSent n maxOffset st =
     (let (c, st) = issue (RadioWrapper_central (rc_phy (rconf st)) (ucast chan) (accessAddress st) (crcInit st)
        (nextHopTime st + ucast n * 5000) \<lparr>pCurrEntry = None, pLastEntry = None\<rparr>
        (curHopTime + ucast n * 5000) st) st
      in (Run_central c txq2 curHopTime numSent (Some (n, maxOffset, chan)), st))"

definition begin_central :: "fw \<Rightarrow> (loop_point \<times> fw) option" where
  "begin_central st = do {
     chan \<leftarrow> getCurrChan st;
     let txq = snd (TXQueue_take (tx_q st));
     let st = st\<lparr>firstPacket := False, g_pkt_dir := 1\<rparr>;
     let curHopTime = nextHopTime st - hopIntervalTicks (rconf st) + AO_TARG;
     if winOffsetCertain (rconf st)
     then let (c, st) = issue (RadioWrapper_central (rc_phy (rconf st)) (ucast chan) (accessAddress st) (crcInit st)
                (nextHopTime st) txq curHopTime st) st
          in Some (Run_central c txq curHopTime 0 None, st)
     else Some (central_attempt chan txq curHopTime 0 0 (ucast (hopIntervalTicks (rconf st) div 5000)) st) }"

text \<open>From line 514 on, with the status and count of the last command.\<close>

definition after_central :: "u8 list \<Rightarrow> data_queue \<Rightarrow> u32 \<Rightarrow> bool \<Rightarrow> fw \<Rightarrow> (loop_point \<times> fw) option" where
  "after_central stack txq2 numSent gotData st =
     (if snifferState st \<noteq> CENTRAL then Some (Idle, st\<lparr>tx_q := TXQueue_flush numSent (tx_q st)\<rparr>)
      else do {
        st \<leftarrow> reactToTransmitted stack txq2 numSent st;
        let st = st\<lparr>tx_q := TXQueue_flush numSent (tx_q st)\<rparr>;
        let (now, st) = RF_getCurrentTime st;
        let rticksRemaining = nextHopTime st - now;
        if rticksRemaining < 0x7FFFFFFF \<and> rticksRemaining > 2000
        then Some (Sleep_central gotData, emit (Task_sleep (rticksRemaining div 40)) st)
        else do { st \<leftarrow> afterConnEvent False gotData st; Some (Idle, st) } })"

definition finish_central ::
  "rf_result \<Rightarrow> errno + data_cmd \<Rightarrow> data_queue \<Rightarrow> u32 \<Rightarrow> u32 \<Rightarrow> (u16 \<times> u16 \<times> u8) option \<Rightarrow> fw \<Rightarrow> (loop_point \<times> fw) option" where
  "finish_central r c txq2 curHopTime numSent sweep st =
     (let (status, numSent) = (case c of Inl e \<Rightarrow> (Inl e, numSent)
            | Inr _ \<Rightarrow> (data_cmd_result (rr_status r), rr_numSent r))
      in case sweep of
           None \<Rightarrow> after_central (rr_stack r) txq2 numSent (status = Inr 0) st
         | Some (n, maxOffset, chan) \<Rightarrow>
             if status = Inr 0
             then do {
               st \<leftarrow> reportMeasWinOffset n (set_rconf (\<lambda>c. c\<lparr>winOffsetCertain := True\<rparr>) st);
               after_central (rr_stack r) txq2 numSent True (st\<lparr>nextHopTime := nextHopTime st + ucast n * 5000\<rparr>) }
             else if n + 1 \<le> maxOffset \<and> snifferState st = CENTRAL
             then Some (central_attempt chan txq2 curHopTime numSent (n + 1) maxOffset st)
             else do {
               st \<leftarrow> (if n + 1 > maxOffset then dprintf (ascii ''Central failed to measure WinOffset'') st else Some st);
               after_central (rr_stack r) txq2 numSent False st })"

definition begin_peripheral :: "fw \<Rightarrow> (loop_point \<times> fw) option" where
  "begin_peripheral st = do {
     chan \<leftarrow> getCurrChan st;
     let txq = snd (TXQueue_take (tx_q st));
     let st = st\<lparr>firstPacket := True\<rparr>;
     let (c, st) = issue (RadioWrapper_peripheral (rc_phy (rconf st)) (ucast chan) (accessAddress st) (crcInit st)
       (nextHopTime st + time_extension st) txq 0 st) st;
     Some (Run_peripheral c txq, st) }"

definition finish_peripheral :: "rf_result \<Rightarrow> errno + data_cmd \<Rightarrow> data_queue \<Rightarrow> fw \<Rightarrow> (loop_point \<times> fw) option" where
  "finish_peripheral r c txq2 st =
     (let gotData = (case c of Inl _ \<Rightarrow> False | Inr _ \<Rightarrow> data_cmd_result (rr_status r) = Inr 0)
      in if snifferState st \<noteq> PERIPHERAL then Some (Idle, st\<lparr>tx_q := TXQueue_flush (rr_numSent r) (tx_q st)\<rparr>)
         else do {
           st \<leftarrow> reactToTransmitted (rr_stack r) txq2 (rr_numSent r) st;
           let st = st\<lparr>tx_q := TXQueue_flush (rr_numSent r) (tx_q st)\<rparr>;
           let (now, st) = RF_getCurrentTime st;
           let rticksRemaining = nextHopTime st - now;
           if rticksRemaining < 0x7FFFFFFF \<and> rticksRemaining > 2000 \<and> \<not> (ll_encryption st \<and> instaHop st)
           then Some (Sleep_peripheral gotData, emit (Task_sleep (rticksRemaining div 40)) st)
           else do { st \<leftarrow> afterConnEvent True gotData st; Some (Idle, st) } })"

section \<open>The loop\<close>

definition radio_task_start :: "bool \<Rightarrow> fw \<Rightarrow> fw" where
  "radio_task_start handle_ok st =
     (let (_, _, st) = RadioWrapper_init handle_ok st in st\<lparr>tx_q := TXQueue_init (tx_q st)\<rparr>)"

definition loop_begin :: "fw \<Rightarrow> (loop_point \<times> fw) option" where
  "loop_begin st =
     (let st = st\<lparr>g_pkt_dir := 0, gotAuxConnReq := False\<rparr>
      in case snifferState st of
           STATIC \<Rightarrow> Some (begin_static st)
         | ADVERT_SEEK \<Rightarrow> Some (begin_seek st)
         | ADVERT_HOP \<Rightarrow> Some (begin_hop st)
         | PAUSED \<Rightarrow> Some (Sleeping, emit (Task_sleep 100) st)
         | DATA \<Rightarrow> begin_data st
         | INITIATING \<Rightarrow> Some (begin_initiating st)
         | CENTRAL \<Rightarrow> begin_central st
         | PERIPHERAL \<Rightarrow> begin_peripheral st
         | ADVERTISING \<Rightarrow> Some (begin_advertising st)
         | SCANNING \<Rightarrow> Some (begin_scanning st)
         | ADVERTISING_EXT \<Rightarrow> Some (begin_advertising_ext st))"

text \<open>Resuming at a point goes on from there, and ends at the next blocking call or at the top.\<close>

definition loop_resume :: "rf_result \<Rightarrow> loop_point \<Rightarrow> fw \<Rightarrow> (loop_point \<times> fw) option" where
  "loop_resume r point st =
     (case point of
        Idle \<Rightarrow> loop_begin st
      | Rx_static _ \<Rightarrow> Some (Idle, st)
      | Rx_seek _ \<Rightarrow> do { st \<leftarrow> finish_seek st; Some (Idle, st) }
      | Rx_hop _ \<Rightarrow> Some (Idle, st)
      | Rx_data _ \<Rightarrow> do { st \<leftarrow> afterConnEvent True (\<not> firstPacket st) st; Some (Idle, st) }
      | Rx_scan _ \<Rightarrow> Some (Idle, st)
      | Run_initiate c \<Rightarrow> do {
          st \<leftarrow> finish_initiating
            (case c of Inl e \<Rightarrow> Inl e | Inr _ \<Rightarrow> Inr (initiate_result (rr_status r) (rr_rxListenTime r)))
            (rr_connTime r) (initiate_phy (rr_status r) (rr_rxListenTime r) (rr_phyMode r)) st;
          Some (Idle, st) }
      | Run_central c txq2 curHopTime numSent sweep \<Rightarrow> finish_central r c txq2 curHopTime numSent sweep st
      | Run_peripheral c txq2 \<Rightarrow> finish_peripheral r c txq2 st
      | Run_advertise _ sleep_ms \<Rightarrow> Some (finish_advertising ADVERTISING sleep_ms st)
      | Run_advertise_ext _ sleep_ms \<Rightarrow>
          Some (finish_advertising ADVERTISING_EXT sleep_ms
            (st\<lparr>s_secondaryAdvChan := of_nat ((unat (s_secondaryAdvChan st) + 1) mod 37)\<rparr>))
      | Sleeping \<Rightarrow> Some (Idle, st)
      | Sleep_central gotData \<Rightarrow> do { st \<leftarrow> afterConnEvent False gotData st; Some (Idle, st) }
      | Sleep_peripheral gotData \<Rightarrow> do { st \<leftarrow> afterConnEvent True gotData st; Some (Idle, st) })"

end
