(* ===== verification/Radio_Commands.thy ===== *)
theory Radio_Commands
  imports Radio_Loop
begin

text \<open>
  The operations of RadioTask.c the host's commands call: parameters of the sniffer, and
  the changes of its mode.  Pointer arguments are the bytes from the pointer on.
\<close>

unbundle bit_operations_syntax

section \<open>Parameters\<close>

definition setFollowConnections :: "bool \<Rightarrow> fw \<Rightarrow> fw" where
  "setFollowConnections follow st = st\<lparr>followConnections := follow\<rparr>"

definition pauseAfterSniffDone :: "bool \<Rightarrow> fw \<Rightarrow> fw" where
  "pauseAfterSniffDone do_pause st = st\<lparr>sniffDoneState := (if do_pause then PAUSED else STATIC)\<rparr>"

definition setAuxAdvEnabled :: "bool \<Rightarrow> fw \<Rightarrow> fw" where
  "setAuxAdvEnabled enable st =
     st\<lparr>auxAdvEnabled := enable, aux_events := AuxAdvScheduler_reset (aux_events st)\<rparr>"

definition setAddr :: "bool \<Rightarrow> u8 list \<Rightarrow> fw \<Rightarrow> fw option" where
  "setAddr isRandom addr st = do {
     a \<leftarrow> rds addr 0 6;
     Some (st\<lparr>ourAddrRandom := isRandom, ourAddr := a\<rparr>) }"

definition setAdvInterval :: "u32 \<Rightarrow> fw \<Rightarrow> fw" where
  "setAdvInterval intervalMs st = st\<lparr>s_advIntervalMs := ucast intervalMs\<rparr>"

definition setInstaHop :: "bool \<Rightarrow> fw \<Rightarrow> fw" where
  "setInstaHop enable st = st\<lparr>instaHop := enable\<rparr>"

definition preloadPhyUpdate :: "bool \<Rightarrow> phy_mode \<Rightarrow> fw \<Rightarrow> fw" where
  "preloadPhyUpdate ignore phy st = st\<lparr>ignoreEncPhyChange := ignore, preloadedPhy := phy\<rparr>"

definition setCrcValidation :: "bool \<Rightarrow> fw \<Rightarrow> fw" where
  "setCrcValidation validate st = st\<lparr>validateCrc := validate\<rparr>"

text \<open>The validation loop over the pairs of interval and instant: the first error, or 0.\<close>

fun check_pairs :: "u16 list \<Rightarrow> int" where
  "check_pairs (interval # delta # pairs) =
     (if interval < 6 \<or> interval > 3200 then -2
      else if delta < 6 \<or> delta > 0x7FFF then -3
      else check_pairs pairs)"
| "check_pairs _ = 0"

definition preloadConnParamUpdates :: "u16 list \<Rightarrow> u32 \<Rightarrow> fw \<Rightarrow> (int \<times> fw) option" where
  "preloadConnParamUpdates pairs numPairs st =
     (let n = 2 * unat numPairs
      in if numPairs > of_nat MAX_PARAM_PAIRS then Some (-1, st)
         else if n > length pairs then None
         else let status = check_pairs (take n pairs)
              in if status \<noteq> 0 then Some (status, st)
                 else Some (0, st\<lparr>connParamPairs := overwrite (connParamPairs st) 0 (take n pairs),
                        preloadedParamIndex := 0, numParamPairs := numPairs\<rparr>))"

section \<open>A marker in the stream of frames\<close>

definition sendMarker :: "u8 list \<Rightarrow> nat \<Rightarrow> fw \<Rightarrow> fw option" where
  "sendMarker markerData len st =
     (let (now, st) = RF_getCurrentTime st
      in enqueueFrame (report_frame MSGCHAN_MARKER now len markerData) st)"

section \<open>Changes of mode\<close>

definition setChanAAPHYCRCI :: "u8 \<Rightarrow> u32 \<Rightarrow> phy_mode \<Rightarrow> u32 \<Rightarrow> fw \<Rightarrow> fw option" where
  "setChanAAPHYCRCI chan aa phy crc st =
     (if chan > 39 then Some st
      else do {
        st \<leftarrow> stateTransition STATIC (st\<lparr>statPHY := phy, statChan := chan, statCRCI := crc AND 0xFFFFFF\<rparr>);
        Some (RadioWrapper_stop (st\<lparr>accessAddress := aa, advHopEnabled := False,
          aux_events := AuxAdvScheduler_reset (aux_events st)\<rparr>)) })"

text \<open>The three modes that transmit end with an empty transmit queue.\<close>

definition enter_transmitting :: "sniffer_state \<Rightarrow> fw \<Rightarrow> fw option" where
  "enter_transmitting state st = do {
     st \<leftarrow> stateTransition state st;
     let st = RadioWrapper_stop st;
     Some (st\<lparr>tx_q := TXQueue_init (tx_q st)\<rparr>) }"

definition initiateConn :: "bool \<Rightarrow> u8 list \<Rightarrow> u8 list \<Rightarrow> fw \<Rightarrow> fw option" where
  "initiateConn isRandom peer llData st = do {
     a \<leftarrow> rds peer 0 6;
     d \<leftarrow> rds llData 0 22;
     enter_transmitting INITIATING (st\<lparr>peerAddrRandom := isRandom, peerAddr := a, connReqLLData := d\<rparr>) }"

text \<open>\<open>memcpy (dst, src, n)\<close> into a static array.\<close>

definition copy_in :: "u8 list \<Rightarrow> u8 list \<Rightarrow> u8 \<Rightarrow> u8 list option" where
  "copy_in dst src n = do {
     bytes \<leftarrow> rds src 0 (unat n);
     if unat n \<le> length dst then Some (overwrite dst 0 bytes) else None }"

definition advertise :: "adv_mode \<Rightarrow> u8 list \<Rightarrow> u8 \<Rightarrow> u8 list \<Rightarrow> u8 \<Rightarrow> fw \<Rightarrow> fw option" where
  "advertise mode advData advLen scanRspData scanRspLen st = do {
     adv \<leftarrow> copy_in (s_advData st) advData advLen;
     rsp \<leftarrow> copy_in (s_scanRspData st) scanRspData scanRspLen;
     enter_transmitting ADVERTISING (st\<lparr>s_advMode := mode, s_advLen := advLen, s_scanRspLen := scanRspLen,
       s_advData := adv, s_scanRspData := rsp\<rparr>) }"

definition advertiseExtended :: "adv_ext_mode \<Rightarrow> u8 list \<Rightarrow> u8 \<Rightarrow> phy_mode \<Rightarrow> phy_mode \<Rightarrow> u16 \<Rightarrow> fw \<Rightarrow> fw option" where
  "advertiseExtended mode advData advLen primaryPhy secondaryPhy adi st = do {
     adv \<leftarrow> copy_in (s_advData st) advData advLen;
     enter_transmitting ADVERTISING_EXT (st\<lparr>s_advExtMode := mode, s_advLen := advLen,
       s_primaryAdvPhy := primaryPhy, s_secondaryAdvPhy := secondaryPhy, s_secondaryAdvChan := 0,
       s_adi := adi, s_advData := adv\<rparr>) }"

definition scan :: "fw \<Rightarrow> fw option" where
  "scan st = do { st \<leftarrow> stateTransition SCANNING st; Some (RadioWrapper_stop st) }"

definition setChanMap :: "u64 \<Rightarrow> fw \<Rightarrow> fw" where
  "setChanMap chmap st =
     (if \<not> inDataState st then st
      else let next_rconf = (last_rconf st)\<lparr>chanMap := chmap AND 0x1FFFFFFFFF, chanMapCertain := True, rc_offset := 0\<rparr>;
               nextInstant = ucast ((connEventCount st + 1) AND 0xFFFF)
           in enqueue_conf nextInstant next_rconf st)"

end
