(* ===== verification/Command_Task.thy ===== *)
theory Command_Task
  imports Radio_Commands
begin

text \<open>
  CommandTask.c: the task that receives messages from the host and carries out the
  commands in them.  \<open>ret\<close> is the length \<open>messenger_recv\<close> returned and \<open>buf\<close> the static
  message buffer, whose bytes beyond the length are those of earlier messages.  The switch is
  cut into four groups of opcodes; a command that fails a check leaves the state alone.
\<close>

unbundle bit_operations_syntax

abbreviation (input) "COMMAND_SETCHANAAPHY \<equiv> (0x10 :: u8)"
abbreviation (input) "COMMAND_PAUSEDONE \<equiv> (0x11 :: u8)"
abbreviation (input) "COMMAND_RSSIFILT \<equiv> (0x12 :: u8)"
abbreviation (input) "COMMAND_MACFILT \<equiv> (0x13 :: u8)"
abbreviation (input) "COMMAND_ADVHOP \<equiv> (0x14 :: u8)"
abbreviation (input) "COMMAND_FOLLOW \<equiv> (0x15 :: u8)"
abbreviation (input) "COMMAND_AUXADV \<equiv> (0x16 :: u8)"
abbreviation (input) "COMMAND_RESET \<equiv> (0x17 :: u8)"
abbreviation (input) "COMMAND_MARKER \<equiv> (0x18 :: u8)"
abbreviation (input) "COMMAND_TRANSMIT \<equiv> (0x19 :: u8)"
abbreviation (input) "COMMAND_CONNECT \<equiv> (0x1A :: u8)"
abbreviation (input) "COMMAND_SETADDR \<equiv> (0x1B :: u8)"
abbreviation (input) "COMMAND_ADVERTISE \<equiv> (0x1C :: u8)"
abbreviation (input) "COMMAND_ADVINTRVL \<equiv> (0x1D :: u8)"
abbreviation (input) "COMMAND_SETIRK \<equiv> (0x1E :: u8)"
abbreviation (input) "COMMAND_INSTAHOP \<equiv> (0x1F :: u8)"
abbreviation (input) "COMMAND_SETMAP \<equiv> (0x20 :: u8)"
abbreviation (input) "COMMAND_INTVL_PRELOAD \<equiv> (0x21 :: u8)"
abbreviation (input) "COMMAND_SCAN \<equiv> (0x22 :: u8)"
abbreviation (input) "COMMAND_PHY_PRELOAD \<equiv> (0x23 :: u8)"
abbreviation (input) "COMMAND_VERSION \<equiv> (0x24 :: u8)"
abbreviation (input) "COMMAND_ADV_EXT \<equiv> (0x25 :: u8)"
abbreviation (input) "COMMAND_CRC_VALID \<equiv> (0x26 :: u8)"
abbreviation (input) "COMMAND_TX_POWER \<equiv> (0x27 :: u8)"

section \<open>Helpers\<close>

text \<open>The decimal text of \<open>%d\<close>.\<close>

fun decimal :: "nat \<Rightarrow> u8 list" where
  "decimal n = (if n < 10 then [of_nat (48 + n)] else decimal (n div 10) @ [of_nat (48 + n mod 10)])"

declare decimal.simps [simp del]

definition decimal_int :: "int \<Rightarrow> u8 list" where
  "decimal_int i = (if i < 0 then ascii ''-'' @ decimal (nat (- i)) else decimal (nat i))"

text \<open>The buffer read as an array of 16-bit numbers.\<close>

fun as_u16s :: "u8 list \<Rightarrow> u16 list" where
  "as_u16s (b0 # b1 # bs) = le16 b0 b1 # as_u16s bs"
| "as_u16s _ = []"

text \<open>A byte as a truth value, and as a PHY.\<close>

definition flag :: "u8 \<Rightarrow> bool" where
  "flag b \<longleftrightarrow> b \<noteq> 0"

definition buf_phy :: "u8 \<Rightarrow> phy_mode" where
  "buf_phy b = phy_of_code (unat b)"

section \<open>The switch\<close>

definition command_sniff :: "u8 \<Rightarrow> int \<Rightarrow> u8 list \<Rightarrow> fw \<Rightarrow> fw option" where
  "command_sniff opcode ret buf st = do {
     b2 \<leftarrow> rd buf 2;
     if opcode = COMMAND_SETCHANAAPHY
     then if ret \<noteq> 12 then Some st
          else if b2 > 39 then Some st
          else do {
            b7 \<leftarrow> rd buf 7;
            if b7 > 3 then Some st
            else do { aa \<leftarrow> rd32 buf 3; crc \<leftarrow> rd32 buf 8; setChanAAPHYCRCI b2 aa (buf_phy b7) crc st } }
     else if opcode = COMMAND_PAUSEDONE
     then if ret \<noteq> 3 then Some st else Some (pauseAfterSniffDone (flag b2) st)
     else if opcode = COMMAND_RSSIFILT
     then if ret \<noteq> 3 then Some st else Some (setMinRssi b2 st)
     else if opcode = COMMAND_MACFILT
     then if ret = 8 then do { mac \<leftarrow> rds buf 2 6; Some (setMacFilt True (Some mac) st) }
          else Some (setMacFilt False None st)
     else if opcode = COMMAND_ADVHOP
     then if ret \<noteq> 2 then Some st else advHopSeekMode st
     else if opcode = COMMAND_FOLLOW
     then if ret \<noteq> 3 then Some st else Some (setFollowConnections (flag b2) st)
     else if opcode = COMMAND_AUXADV
     then if ret \<noteq> 3 then Some st else Some (setAuxAdvEnabled (flag b2) st)
     else Some st }"

definition command_transmit :: "u8 \<Rightarrow> int \<Rightarrow> u8 list \<Rightarrow> fw \<Rightarrow> fw option" where
  "command_transmit opcode ret buf st = do {
     b2 \<leftarrow> rd buf 2;
     if opcode = COMMAND_RESET
     then if ret \<noteq> 2 then Some st else Some (emit System_reset st)
     else if opcode = COMMAND_MARKER
     then if ret < 2 then Some st else sendMarker (drop 2 buf) (nat (ret - 2)) st
     else if opcode = COMMAND_TRANSMIT
     then if ret < 6 then Some st
          else do {
            len \<leftarrow> rd buf 5;
            if ret \<noteq> int (unat len) + 6 then Some st
            else do {
              llid \<leftarrow> rd buf 4;
              eventCtr \<leftarrow> rd16 buf 2;
              (queued, q) \<leftarrow> TXQueue_insert len llid (drop 6 buf) eventCtr (tx_q st);
              Some (st\<lparr>tx_q := q\<rparr>) } }
     else if opcode = COMMAND_CONNECT
     then if ret \<noteq> 31 then Some st else initiateConn (flag b2) (drop 3 buf) (drop 9 buf) st
     else if opcode = COMMAND_SETADDR
     then if ret \<noteq> 9 then Some st else setAddr (flag b2) (drop 3 buf) st
     else if opcode = COMMAND_ADVERTISE
     then if ret \<noteq> 67 then Some st
          else if b2 > 3 then Some st
          else do {
            advLen \<leftarrow> rd buf 3;
            if advLen > 31 then Some st
            else do {
              scanRspLen \<leftarrow> rd buf 35;
              if scanRspLen > 31 then Some st
              else advertise (adv_mode_of_code (unat b2)) (drop 4 buf) advLen (drop 36 buf) scanRspLen st } }
     else if opcode = COMMAND_ADVINTRVL
     then if ret \<noteq> 4 then Some st
          else do {
            intervalMs \<leftarrow> rd16 buf 2;
            if intervalMs < 20 then Some st else Some (setAdvInterval (ucast intervalMs) st) }
     else Some st }"

definition command_follow :: "u8 \<Rightarrow> int \<Rightarrow> u8 list \<Rightarrow> fw \<Rightarrow> fw option" where
  "command_follow opcode ret buf st = do {
     b2 \<leftarrow> rd buf 2;
     if opcode = COMMAND_SETIRK
     then if ret = 18 then do { irk \<leftarrow> rds buf 2 16; Some (setRpaFilt True (Some irk) st) }
          else Some (setRpaFilt False None st)
     else if opcode = COMMAND_INSTAHOP
     then if ret \<noteq> 3 then Some st else Some (setInstaHop (flag b2) st)
     else if opcode = COMMAND_SETMAP
     then if ret \<noteq> 7 then Some st else do { chmap \<leftarrow> rd40 buf 2; Some (setChanMap chmap st) }
     else if opcode = COMMAND_INTVL_PRELOAD
     then if ret < 2 \<or> ret > 18 then Some st
          else do {
            (status, st) \<leftarrow> preloadConnParamUpdates (as_u16s (drop 2 buf)) (of_int ((ret - 2) div 4)) st;
            if status < 0 then dprintf (ascii ''Invalid preload params: '' @ decimal_int status) st else Some st }
     else if opcode = COMMAND_SCAN
     then if ret \<noteq> 2 then Some st else scan st
     else if opcode = COMMAND_PHY_PRELOAD
     then if ret \<noteq> 3 then Some st
          else if b2 > 3 then Some (preloadPhyUpdate True PHY_1M st)
          else Some (preloadPhyUpdate False (buf_phy b2) st)
     else if opcode = COMMAND_VERSION
     then if ret \<noteq> 2 then Some st else reportVersion st
     else Some st }"

definition command_ext :: "u8 \<Rightarrow> int \<Rightarrow> u8 list \<Rightarrow> fw \<Rightarrow> fw option" where
  "command_ext opcode ret buf st = do {
     b2 \<leftarrow> rd buf 2;
     if opcode = COMMAND_ADV_EXT
     then if ret < 8 then Some st
          else if b2 > 2 then Some st
          else do {
            primary \<leftarrow> rd buf 3;
            secondary \<leftarrow> rd buf 4;
            adi \<leftarrow> rd16 buf 5;
            len \<leftarrow> rd buf 7;
            if primary > 3 \<or> primary = 1 then Some st
            else if secondary > 3 then Some st
            else if len > 245 then Some st
            else if ret \<noteq> int (unat len) + 8 then Some st
            else advertiseExtended (adv_ext_mode_of_code (unat b2)) (drop 8 buf) len (buf_phy primary)
              (buf_phy secondary) adi st }
     else if opcode = COMMAND_CRC_VALID
     then if ret \<noteq> 3 then Some st else Some (setCrcValidation (flag b2) st)
     else if opcode = COMMAND_TX_POWER
     then if ret \<noteq> 3 then Some st else RadioWrapper_setTxPower b2 st
     else Some st }"

definition command_dispatch :: "int \<Rightarrow> u8 list \<Rightarrow> fw \<Rightarrow> fw option" where
  "command_dispatch ret buf st =
     (if ret < 2 then Some st
      else do {
        opcode \<leftarrow> rd buf 1;
        if opcode < COMMAND_RESET then command_sniff opcode ret buf st
        else if opcode < COMMAND_SETIRK then command_transmit opcode ret buf st
        else if opcode < COMMAND_ADV_EXT then command_follow opcode ret buf st
        else command_ext opcode ret buf st })"

text \<open>One round of the task: the serial input and the two buffers, which are kept.\<close>

definition commandTask_step ::
  "(nat \<Rightarrow> nat) \<Rightarrow> u8 list \<Rightarrow> u8 list \<Rightarrow> u8 list \<Rightarrow> fw \<Rightarrow> (u8 list \<times> u8 list \<times> u8 list \<times> fw) option" where
  "commandTask_step arrived b64_buf buf inp st = do {
     (ret, b64_buf, buf, inp) \<leftarrow> messenger_recv arrived b64_buf buf inp;
     st \<leftarrow> command_dispatch ret buf st;
     Some (b64_buf, buf, inp, st) }"

end
