(* ===== verification/Radio_Inv.thy ===== *)
theory Radio_Inv
  imports Command_Task Triggers
begin

text \<open>
  The invariant of the firmware's state and its preservation by every operation of
  RadioTask.c.  An operation is a function into option whose \<open>None\<close> is an execution outside
  the C standard; \<open>outcome b m P\<close> states that \<open>m\<close> ends in \<open>P\<close>, or is undefined and \<open>b\<close>
  allows it.  Every lemma is proved for both values of \<open>b\<close> at once: with \<open>b\<close> it is
  preservation from any state, without it it is also absence of undefined behaviour, from
  states where Channel Selection Algorithm #1 has a channel to choose (\<open>maps_ok\<close>).
\<close>

unbundle bit_operations_syntax

section \<open>Outcomes\<close>

definition outcome :: "bool \<Rightarrow> 'a option \<Rightarrow> ('a \<Rightarrow> bool) \<Rightarrow> bool" where
  "outcome b m P \<longleftrightarrow> (case m of None \<Rightarrow> b | Some x \<Rightarrow> P x)"

lemma outcome_Some [simp]: "outcome b (Some x) P = P x"
  by (simp add: outcome_def)

lemma outcome_None [simp]: "outcome b None P = b"
  by (simp add: outcome_def)

lemma outcome_bind: "outcome b (m \<bind> f) P = outcome b m (\<lambda>x. outcome b (f x) P)"
  by (cases m) simp_all

lemma outcome_mono: "outcome b m P \<Longrightarrow> (\<And>x. P x \<Longrightarrow> Q x) \<Longrightarrow> outcome b m Q"
  by (cases m) simp_all

lemma outcome_total: "outcome False m P \<Longrightarrow> \<exists>x. m = Some x \<and> P x"
  by (cases m) simp_all

lemma outcome_preserved: "outcome True m P \<Longrightarrow> m = Some x \<Longrightarrow> P x"
  by simp

section \<open>Channel maps\<close>

definition map_usable :: "u64 \<Rightarrow> bool" where
  "map_usable chmap \<longleftrightarrow> used_channels chmap \<noteq> []"

definition channel_table_ok :: "u8 list \<Rightarrow> bool" where
  "channel_table_ok table \<longleftrightarrow> length table = 37 \<and> (\<forall>c\<in>set table. unat c < 37)"

definition csa2_wf :: "csa2_state \<Rightarrow> bool" where
  "csa2_wf st \<longleftrightarrow> channel_table_ok (csa2_remapping_table st) \<and> unat (csa2_numUsedChannels st) \<le> 37"

lemma channel_table_nth: "channel_table_ok table \<Longrightarrow> i < 37 \<Longrightarrow> unat (table ! i) < 37"
  by (simp add: channel_table_ok_def)

lemma channel_table_update: "channel_table_ok table \<Longrightarrow> unat c < 37 \<Longrightarrow> channel_table_ok (table[i := c])"
  by (auto simp: channel_table_ok_def dest!: subsetD [OF set_update_subset_insert])

lemma csa2_count_wf:
  assumes "\<forall>i\<in>set xs. i < 37" "channel_table_ok table" "unat num + length xs \<le> 37"
  shows "case fold (csa2_count chmap) xs (num, table) of
    (num', table') \<Rightarrow> channel_table_ok table' \<and> unat num' \<le> unat num + length xs"
  using assms
proof (induction xs arbitrary: num table)
  case Nil
  then show ?case by simp
next
  case (Cons x xs)
  have "unat (num + 1) = unat num + 1"
    using Cons.prems(3) by (simp add: unat_word_ariths)
  moreover have "channel_table_ok (table[unat num := of_nat x])"
    using Cons.prems by (simp add: channel_table_update unat_of_nat)
  ultimately show ?case
    using Cons.IH [of "table[unat num := of_nat x]" "num + 1"] Cons.IH [of table num] Cons.prems
    by (auto simp: csa2_count_def split: prod.splits)
qed

lemma csa2_computeMapping_wf: "csa2_wf st \<Longrightarrow> csa2_wf (csa2_computeMapping aa chmap st)"
  using csa2_count_wf [of "[0..<37]" "csa2_remapping_table st" 0 chmap]
  by (auto simp: csa2_wf_def csa2_computeMapping_def Let_def split: prod.splits)

lemma csa2_computeChannel_less:
  assumes "csa2_wf st"
  shows "unat (csa2_computeChannel n st) < 37"
proof -
  define num e where "num = unat (csa2_numUsedChannels st)"
    and "e = csa2_eprn (channelIdentifier st) (ucast n)"
  have "num \<le> 37"
    using assms by (simp add: csa2_wf_def num_def)
  then have "num * unat e div 65536 < 37"
    using csa2_index_less [of num e] by (cases "num = 0") simp_all
  then have "unat (csa2_remapping_table st ! (num * unat e div 65536)) < 37"
    using assms by (simp add: csa2_wf_def channel_table_nth)
  then show ?thesis
    by (simp add: csa2_computeChannel_def Let_def flip: e_def num_def) (simp add: unat_of_nat)
qed

lemma computeMap1_table:
  assumes "computeMap1 chmap = Some table"
  shows "channel_table_ok table"
proof -
  have usable: "used_channels chmap \<noteq> []"
    using assms computeMap1_empty by fastforce
  then have "used_channels chmap ! (i mod length (used_channels chmap)) < 37" for i
    by (intro used_channels_less [where chmap = chmap] nth_mem) simp
  then show ?thesis
    using assms computeMap1_eq [OF usable]
    by (auto simp: channel_table_ok_def unat_of_nat_channel)
qed

lemma computeMap1_defined: "map_usable chmap \<Longrightarrow> \<exists>table. computeMap1 chmap = Some table"
  by (simp add: map_usable_def computeMap1_eq)

lemma used_channels_strike:
  assumes "2 \<le> length (used_channels chmap)"
  shows "map_usable (chmap AND NOT (push_bit n 1))"
proof -
  have d: "distinct (used_channels chmap)"
    by (simp add: used_channels_def)
  then have "card (set (used_channels chmap)) \<ge> 2"
    using assms by (simp add: distinct_card)
  then have "\<not> set (used_channels chmap) \<subseteq> {n}"
    using card_mono [of "{n}" "set (used_channels chmap)"] by auto
  then obtain i where "i \<in> set (used_channels chmap)" "i \<noteq> n"
    by auto
  then have "i \<in> set (used_channels (chmap AND NOT (push_bit n 1)))"
    by (auto simp: set_used_channels bit_simps)
  then show ?thesis
    by (auto simp: map_usable_def)
qed

section \<open>The invariant\<close>

definition board_ok :: "board \<Rightarrow> bool" where
  "board_ok brd \<longleftrightarrow> tickPeriod brd \<noteq> 0 \<and> txPowerTable brd \<noteq> []"

definition tx_links_ok :: "tx_queue \<Rightarrow> bool" where
  "tx_links_ok q \<longleftrightarrow> (\<forall>e\<in>set (tx_entries q). te_next e < 8)"

definition arrays_ok :: "fw \<Rightarrow> bool" where
  "arrays_ok st \<longleftrightarrow> length (anchorOffset st) = 4 \<and> unat (aoInd st) < 4 \<and> length (intervalTicks st) = 3 \<and>
     length (connParamPairs st) = 8 \<and> unat (numParamPairs st) \<le> 4 \<and>
     length (ourAddr st) = 6 \<and> length (peerAddr st) = 6 \<and> length (connReqLLData st) = 22 \<and>
     length (s_advData st) = 254 \<and> length (s_scanRspData st) = 31 \<and>
     unat (s_advLen st) \<le> 254 \<and> unat (s_scanRspLen st) \<le> 31"

definition radio_ok :: "fw \<Rightarrow> bool" where
  "radio_ok st \<longleftrightarrow> board_ok (board_conf st) \<and> packet_queue_ok st \<and> conf_queue_ok (rconf_queue st) \<and>
     tx_queue_ok (tx_q st) \<and> tx_links_ok (tx_q st) \<and> csa2_wf (csa2_st st) \<and>
     channel_table_ok (mapping_table st) \<and> unat (curUnmapped st) < 37 \<and> arrays_ok st \<and>
     adv_cache_ok (adv_cache_st st) \<and> rpa_ok (rpa_st st) \<and>
     (sniffDoneState st = STATIC \<or> sniffDoneState st = PAUSED)"

text \<open>
  Channel Selection Algorithm #1 has a channel to choose: now, after every queued change,
  after every queued transmission of a channel map, and after a connection request.
\<close>

definition queued_maps_ok :: "fw \<Rightarrow> bool" where
  "queued_maps_ok st \<longleftrightarrow> (\<forall>x\<in>set (conf_items (rconf_queue st)). map_usable (chanMap (snd x)))"

definition conf_maps_ok :: "fw \<Rightarrow> bool" where
  "conf_maps_ok st \<longleftrightarrow> map_usable (chanMap (rconf st)) \<and> queued_maps_ok st"

definition map_at :: "u8 list \<Rightarrow> nat \<Rightarrow> u64" where
  "map_at bs i = le40 (bs ! i) (bs ! (i + 1)) (bs ! (i + 2)) (bs ! (i + 3)) (bs ! (i + 4))"

definition tx_maps_ok :: "tx_queue \<Rightarrow> bool" where
  "tx_maps_ok q \<longleftrightarrow> (\<forall>e\<in>set (tx_entries q).
     te_length e = 9 \<and> te_data e ! 0 AND 0x3 = 0x3 \<and> te_data e ! 1 = 0x01 \<longrightarrow> map_usable (map_at (te_data e) 2))"

definition maps_ok :: "fw \<Rightarrow> bool" where
  "maps_ok st \<longleftrightarrow> (\<not> use_csa2 st \<longrightarrow> queued_maps_ok st) \<and>
     ((inDataState st \<or> gotAuxConnReq st) \<and> \<not> use_csa2 st \<longrightarrow> conf_maps_ok st) \<and>
     (snifferState st = INITIATING \<longrightarrow> map_usable (map_at (connReqLLData st) 16)) \<and> tx_maps_ok (tx_q st)"

text \<open>The measurement of a channel map may strike out one more channel.\<close>

definition strike_ok :: "fw \<Rightarrow> bool" where
  "strike_ok st \<longleftrightarrow> chanMapCertain (rconf st) \<or> use_csa2 st \<or> 2 \<le> length (used_channels (chanMap (rconf st)))"

text \<open>
  The invariant.  The flag \<open>b\<close> gives up the parts about maps; without \<open>c\<close> a strike is safe
  too, and without \<open>d\<close> the maps are usable in whatever mode the sniffer is.
\<close>

definition inv :: "bool \<Rightarrow> bool \<Rightarrow> bool \<Rightarrow> fw \<Rightarrow> bool" where
  "inv b c d st \<longleftrightarrow> radio_ok st \<and> (b \<or> maps_ok st) \<and> (b \<or> c \<or> strike_ok st) \<and>
     (b \<or> d \<or> use_csa2 st \<or> conf_maps_ok st)"

lemma inv_weaken: "inv b c d st \<Longrightarrow> inv b True d st"
  by (auto simp: inv_def)

lemma inv_weaken_d: "inv b c d st \<Longrightarrow> inv b c True st"
  by (auto simp: inv_def)

lemma inv_data: "inv b c d st \<Longrightarrow> inDataState st \<Longrightarrow> inv b c False st"
  by (auto simp: inv_def maps_ok_def)

lemmas inv_defs = inv_def radio_ok_def maps_ok_def strike_ok_def conf_maps_ok_def queued_maps_ok_def inDataState_def arrays_ok_def
  packet_queue_ok_def

section \<open>Updates outside the invariant\<close>

lemma inv_hw [simp]:
  "inv b c d (st\<lparr>clock_reads := n\<rparr>) = inv b c d st"
  "inv b c d (st\<lparr>hw_trace := tr\<rparr>) = inv b c d st"
  "inv b c d (emit e st) = inv b c d st"
  "inv b c d (st\<lparr>hop_pending := p\<rparr>) = inv b c d st"
  "inv b c d (st\<lparr>hop_target_ticks := w\<rparr>) = inv b c d st"
  "inv b c d (st\<lparr>stop_pending := p\<rparr>) = inv b c d st"
  "inv b c d (st\<lparr>stop_target_ticks := w\<rparr>) = inv b c d st"
  "inv b c d (st\<lparr>configured := p\<rparr>) = inv b c d st"
  "inv b c d (st\<lparr>ble4_cmd := p\<rparr>) = inv b c d st"
  "inv b c d (st\<lparr>master_seqStat := s\<rparr>) = inv b c d st"
  "inv b c d (st\<lparr>slave_seqStat := s\<rparr>) = inv b c d st"
  by (simp_all add: inv_defs emit_def)

lemma inv_filter [simp]:
  "inv b c d (st\<lparr>minRssi := r\<rparr>) = inv b c d st"
  "inv b c d (st\<lparr>targMac := l\<rparr>) = inv b c d st"
  "inv b c d (st\<lparr>filterMacs := p\<rparr>) = inv b c d st"
  "inv b c d (st\<lparr>targIrk := l\<rparr>) = inv b c d st"
  "inv b c d (st\<lparr>filterRpas := p\<rparr>) = inv b c d st"
  by (simp_all add: inv_defs)

lemma inv_adv [simp]:
  "inv b c d (st\<lparr>statChan := v\<rparr>) = inv b c d st"
  "inv b c d (st\<lparr>statPHY := ph\<rparr>) = inv b c d st"
  "inv b c d (st\<lparr>statCRCI := w\<rparr>) = inv b c d st"
  "inv b c d (st\<lparr>fastAdvHop := p\<rparr>) = inv b c d st"
  "inv b c d (st\<lparr>gotLegacy38 := p\<rparr>) = inv b c d st"
  "inv b c d (st\<lparr>gotLegacy39 := p\<rparr>) = inv b c d st"
  "inv b c d (st\<lparr>lastAdvTimestamp := w\<rparr>) = inv b c d st"
  "inv b c d (st\<lparr>sniffScanRspLen := w\<rparr>) = inv b c d st"
  "inv b c d (st\<lparr>postponed := p\<rparr>) = inv b c d st"
  "inv b c d (st\<lparr>advHopEnabled := p\<rparr>) = inv b c d st"
  "inv b c d (st\<lparr>auxAdvEnabled := p\<rparr>) = inv b c d st"
  "inv b c d (st\<lparr>followConnections := p\<rparr>) = inv b c d st"
  "inv b c d (st\<lparr>validateCrc := p\<rparr>) = inv b c d st"
  "inv b c d (st\<lparr>aux_events := xs\<rparr>) = inv b c d st"
  by (simp_all add: inv_defs)

lemma inv_conn [simp]:
  "inv b c d (st\<lparr>accessAddress := w\<rparr>) = inv b c d st"
  "inv b c d (st\<lparr>hopIncrement := v\<rparr>) = inv b c d st"
  "inv b c d (st\<lparr>crcInit := w\<rparr>) = inv b c d st"
  "inv b c d (st\<lparr>nextHopTime := w\<rparr>) = inv b c d st"
  "inv b c d (st\<lparr>connEventCount := w\<rparr>) = inv b c d st"
  "inv b c d (st\<lparr>connTimeoutTime := w\<rparr>) = inv b c d st"
  "inv b c d (st\<lparr>ll_encryption := p\<rparr>) = inv b c d st"
  "inv b c d (st\<lparr>firstPacket := p\<rparr>) = inv b c d st"
  "inv b c d (st\<lparr>lastAnchorTicks := w\<rparr>) = inv b c d st"
  "inv b c d (st\<lparr>itInd := w\<rparr>) = inv b c d st"
  "inv b c d (st\<lparr>chanMapTestMask := m\<rparr>) = inv b c d st"
  "inv b c d (st\<lparr>moreData := v\<rparr>) = inv b c d st"
  "inv b c d (st\<lparr>g_pkt_dir := v\<rparr>) = inv b c d st"
  by (simp_all add: inv_defs)

lemma inv_fw [simp]:
  "inv b c d (st\<lparr>preloadedParamIndex := w\<rparr>) = inv b c d st"
  "inv b c d (st\<lparr>connUpdateInstant := h\<rparr>) = inv b c d st"
  "inv b c d (st\<lparr>prevInterval := h\<rparr>) = inv b c d st"
  "inv b c d (st\<lparr>timeDelta := h\<rparr>) = inv b c d st"
  "inv b c d (st\<lparr>ignoreEncPhyChange := p\<rparr>) = inv b c d st"
  "inv b c d (st\<lparr>preloadedPhy := ph\<rparr>) = inv b c d st"
  "inv b c d (st\<lparr>instaHop := p\<rparr>) = inv b c d st"
  "inv b c d (st\<lparr>ourAddrRandom := p\<rparr>) = inv b c d st"
  "inv b c d (st\<lparr>peerAddrRandom := p\<rparr>) = inv b c d st"
  "inv b c d (st\<lparr>s_advMode := am\<rparr>) = inv b c d st"
  "inv b c d (st\<lparr>s_advExtMode := em\<rparr>) = inv b c d st"
  "inv b c d (st\<lparr>s_primaryAdvPhy := ph\<rparr>) = inv b c d st"
  "inv b c d (st\<lparr>s_secondaryAdvPhy := ph\<rparr>) = inv b c d st"
  "inv b c d (st\<lparr>s_advIntervalMs := h\<rparr>) = inv b c d st"
  "inv b c d (st\<lparr>s_adi := h\<rparr>) = inv b c d st"
  "inv b c d (st\<lparr>s_secondaryAdvChan := v\<rparr>) = inv b c d st"
  by (simp_all add: inv_defs)

section \<open>Reports\<close>

lemma enqueueFrame_shape:
  assumes "packet_queue_ok st" "flen f \<le> length (f_pData f)"
  shows "\<exists>tr fs h. enqueueFrame f st = Some (st\<lparr>hw_trace := tr, s_frames := fs, queue_head := h\<rparr>) \<and>
    packet_queue_ok (st\<lparr>hw_trace := tr, s_frames := fs, queue_head := h\<rparr>)"
proof -
  have st: "st = st\<lparr>hw_trace := hw_trace st, s_frames := s_frames st, queue_head := queue_head st\<rparr>"
    by simp
  consider "flen f > PACKET_SIZE" | "length (packet_items st) = 7" | "frame_ok f" "length (packet_items st) < 7"
    using assms(2) length_packet_items [of st] assms(1) by (fastforce simp: frame_ok_def packet_queue_ok_def)
  then show ?thesis
  proof cases
    case 1
    then have "enqueueFrame f st = Some st"
      by (simp add: enqueueFrame_def)
    then show ?thesis using assms(1) st by metis
  next
    case 2
    then show ?thesis
      using enqueueFrame_full [OF assms(1) 2, of f] assms(1) st by metis
  next
    case 3
    then obtain st' where st': "enqueueFrame f st = Some st'" "packet_queue_ok st'"
      using enqueueFrame_room [OF assms(1) 3(2,1)] by blast
    then have "st' = st\<lparr>hw_trace := hw_trace st', s_frames := s_frames st', queue_head := queue_head st'\<rparr>"
      by (auto simp: enqueueFrame_def emit_def Let_def split: if_splits option.splits bind_splits)
    then show ?thesis
      using st' by metis
  qed
qed

lemma inv_packets:
  "inv b c d st \<Longrightarrow> packet_queue_ok (st\<lparr>hw_trace := tr, s_frames := fs, queue_head := h\<rparr>) \<Longrightarrow>
     inv b c d (st\<lparr>hw_trace := tr, s_frames := fs, queue_head := h\<rparr>)"
  by (simp add: inv_defs)

lemma inv_queue: "inv b c d st \<Longrightarrow> packet_queue_ok st"
  by (simp add: inv_def radio_ok_def)

lemma inv_enqueueFrame:
  assumes "inv b c d st" "flen f \<le> length (f_pData f)"
  shows "outcome b' (enqueueFrame f st) (inv b c d)"
  using enqueueFrame_shape [OF inv_queue [OF assms(1)] assms(2)] inv_packets [OF assms(1)] by auto

named_theorems keeps \<open>preservation of the invariant\<close>

lemma keep_bind:
  "outcome b m (inv b' c d) \<Longrightarrow> (\<And>st. inv b' c d st \<Longrightarrow> outcome b (f st) P) \<Longrightarrow> outcome b (m \<bind> f) P"
  by (cases m) simp_all

lemma inv_report [keeps]:
  "inv b c d st \<Longrightarrow> n \<le> length buf \<Longrightarrow> n < 2 ^ 14 \<Longrightarrow> outcome b' (enqueueFrame (report_frame chan t n buf) st) (inv b c d)"
  by (rule inv_enqueueFrame) (simp_all add: report_frame_def flen_def unat_of_nat)

lemma inv_measurement [keeps]:
  "inv b c d st \<Longrightarrow> outcome b' (reportMeasInterval i st) (inv b c d)"
  "inv b c d st \<Longrightarrow> outcome b' (reportMeasChanMap m st) (inv b c d)"
  "inv b c d st \<Longrightarrow> outcome b' (reportMeasAdvHop h st) (inv b c d)"
  "inv b c d st \<Longrightarrow> outcome b' (reportMeasWinOffset i st) (inv b c d)"
  "inv b c d st \<Longrightarrow> outcome b' (reportMeasDeltaInstant i st) (inv b c d)"
  "inv b c d st \<Longrightarrow> outcome b' (reportVersion st) (inv b c d)"
  by (simp_all add: reportMeasInterval_def reportMeasChanMap_def reportMeasAdvHop_def reportMeasWinOffset_def
      reportMeasDeltaInstant_def reportVersion_def reportMeasurement_def keeps)

lemma inv_dprintf [keeps]: "inv b c d st \<Longrightarrow> length txt < 128 \<Longrightarrow> outcome b' (dprintf txt st) (inv b c d)"
  by (simp add: dprintf_def Let_def inv_report)

text \<open>A change of state keeps the invariant if the maps it relies on are usable.\<close>

definition enter_ok :: "sniffer_state \<Rightarrow> fw \<Rightarrow> bool" where
  "enter_ok s st \<longleftrightarrow>
     (s \<in> {DATA, CENTRAL, PERIPHERAL} \<and> \<not> use_csa2 st \<longrightarrow> conf_maps_ok st) \<and>
     (s = INITIATING \<longrightarrow> map_usable (map_at (connReqLLData st) 16))"

lemma inv_enter:
  assumes "inv b c d st" "b \<or> enter_ok s st"
  shows "inv b c d (st\<lparr>snifferState := s\<rparr>)"
  using assms by (cases s) (auto simp: inv_defs enter_ok_def)

lemma inv_stateTransition:
  "inv b c d st \<Longrightarrow> b \<or> enter_ok s st \<Longrightarrow> outcome b' (stateTransition s st) (inv b c d)"
  unfolding stateTransition_def by (intro inv_report inv_enter) simp_all

lemma stateTransition_shape:
  assumes "inv b c d st"
  shows "\<exists>tr fs h. stateTransition s st = Some (st\<lparr>snifferState := s, hw_trace := tr, s_frames := fs, queue_head := h\<rparr>)"
  using enqueueFrame_shape [of "st\<lparr>snifferState := s\<rparr>" "report_frame MSGCHAN_STATE 0 1 [state_code s]"] inv_queue [OF assms]
  by (auto simp: stateTransition_def report_frame_def flen_def packet_queue_ok_def)

lemma enter_static [simp]:
  "enter_ok STATIC st" "enter_ok ADVERT_SEEK st" "enter_ok ADVERT_HOP st" "enter_ok PAUSED st"
  "enter_ok ADVERTISING st" "enter_ok SCANNING st" "enter_ok ADVERTISING_EXT st"
  by (simp_all add: enter_ok_def)

section \<open>Time and the triggers\<close>

lemma inv_RF_getCurrentTime [simp]: "inv b c d (snd (RF_getCurrentTime st)) = inv b c d st"
  by (simp add: RF_getCurrentTime_def)

lemma inv_RadioWrapper_stop [simp]: "inv b c d (RadioWrapper_stop st) = inv b c d st"
  by (simp add: RadioWrapper_stop_def)

lemma inv_trigAdv3 [simp]: "inv b c d (RadioWrapper_trigAdv3 st) = inv b c d st"
  by (simp add: RadioWrapper_trigAdv3_def)

lemma inv_resetSeqStat [simp]: "inv b c d (RadioWrapper_resetSeqStat st) = inv b c d st"
  by (simp add: RadioWrapper_resetSeqStat_def)

lemma inv_hop_trigger [simp]:
  "inv b c d (DelayHopTrigger_trig us st) = inv b c d st"
  "inv b c d (DelayHopTrigger_postpone us st) = inv b c d st"
  "inv b c d (DelayHopTrigger_tick st) = inv b c d st"
  by (simp_all add: DelayHopTrigger_trig_def DelayHopTrigger_postpone_def DelayHopTrigger_tick_def
      RF_getCurrentTime_def Let_def)

lemma inv_stop_trigger [simp]:
  "inv b c d (DelayStopTrigger_trig us st) = inv b c d st"
  "inv b c d (DelayStopTrigger_tick st) = inv b c d st"
  by (simp_all add: DelayStopTrigger_trig_def DelayStopTrigger_tick_def RF_getCurrentTime_def Let_def)

text \<open>Changes of the parameters that leave the channel map alone.\<close>

lemma inv_set_rconf [simp]:
  "inv b c d (set_rconf (\<lambda>c. c\<lparr>hopIntervalTicks := t\<rparr>) st) = inv b c d st"
  "inv b c d (set_rconf (\<lambda>c. c\<lparr>winOffsetCertain := p\<rparr>) st) = inv b c d st"
  "inv b c d (set_rconf (\<lambda>c. c\<lparr>hopIntervalTicks := t, intervalCertain := p\<rparr>) st) = inv b c d st"
  "inv b c d (set_rconf (\<lambda>c. c\<lparr>winOffsetCertain := p, intervalCertain := q, hopIntervalTicks := t\<rparr>) st) = inv b c d st"
  by (simp_all add: set_rconf_def inv_defs)

lemma inv_certain: "inv b c d st \<Longrightarrow> inv b c' d (set_rconf (\<lambda>c. c\<lparr>chanMapCertain := True\<rparr>) st)"
  by (simp add: set_rconf_def inv_defs)

section \<open>The end of a connection\<close>

lemma inv_advHopSeekMode [keeps]: "inv b c d st \<Longrightarrow> outcome b' (advHopSeekMode st) (inv b c d)"
  by (simp add: advHopSeekMode_def Let_def outcome_bind, rule outcome_mono, rule inv_stateTransition) simp_all

lemma inv_handleConnFinished [keeps]:
  assumes "inv b c d st"
  shows "outcome b' (handleConnFinished st) (inv b c d)"
proof -
  have "enter_ok (sniffDoneState st) st"
    using assms by (auto simp: inv_def radio_ok_def)
  then show ?thesis
    using inv_stateTransition [OF assms, of "sniffDoneState st"] unfolding handleConnFinished_def
    by (intro keep_bind) (auto simp: Let_def intro!: inv_advHopSeekMode)
qed

section \<open>Maps and queued changes\<close>

lemma conf_items_enqueue_subset:
  "conf_queue_ok q \<Longrightarrow> set (conf_items (rconf_enqueue i c q)) \<subseteq> insert (i, c) (set (conf_items q))"
  by (auto simp: conf_items_enqueue)

lemma last_rconf_usable: "conf_queue_ok (rconf_queue st) \<Longrightarrow> conf_maps_ok st \<Longrightarrow> map_usable (chanMap (last_rconf st))"
  by (force simp: last_rconf_def rconf_latest_items conf_maps_ok_def queued_maps_ok_def dest!: last_in_set [of "conf_items (rconf_queue st)"]
      split: if_splits)

lemma enqueue_conf_maps:
  assumes "conf_queue_ok (rconf_queue st)" "conf_maps_ok st" "map_usable (chanMap conf)"
  shows "conf_maps_ok (enqueue_conf i conf st)"
  using assms conf_items_enqueue_subset [OF assms(1), of i conf]
  by (auto simp: conf_maps_ok_def queued_maps_ok_def enqueue_conf_def)

lemma inv_enqueue_conf:
  assumes "inv b c False st" "b \<or> use_csa2 st \<or> map_usable (chanMap conf)"
  shows "inv b c False (enqueue_conf i conf st)"
proof -
  have q: "conf_queue_ok (rconf_queue st)"
    using assms(1) by (simp add: inv_def radio_ok_def)
  then have "conf_queue_ok (rconf_enqueue i conf (rconf_queue st))"
    by (rule conf_queue_ok_enqueue)
  moreover have "b \<or> use_csa2 st \<or> conf_maps_ok (enqueue_conf i conf st)"
    using enqueue_conf_maps [OF q] assms by (auto simp: inv_def)
  moreover from this have "b \<or> use_csa2 st \<or> queued_maps_ok (enqueue_conf i conf st)"
    by (auto simp: conf_maps_ok_def)
  ultimately show ?thesis
    using assms(1) by (simp add: inv_def radio_ok_def maps_ok_def strike_ok_def enqueue_conf_def inDataState_def
        arrays_ok_def packet_queue_ok_def) blast
qed

lemma inv_enqueue_latest:
  assumes "inv b c False st" "chanMap conf = chanMap (last_rconf st) \<or> map_usable (chanMap conf)"
  shows "inv b c False (enqueue_conf i conf st)"
  using assms last_rconf_usable [of st] by (intro inv_enqueue_conf) (auto simp: inv_def radio_ok_def)

lemma full_map_usable [simp]: "map_usable 0x1FFFFFFFFF"
proof -
  have "0 \<in> set (used_channels 0x1FFFFFFFFF)"
    by (simp add: set_used_channels)
  then show ?thesis by (auto simp: map_usable_def)
qed

lemma inv_computeMaps:
  assumes "inv b c d st" "b \<or> use_csa2 st \<or> map_usable (chanMap (rconf st))"
  shows "outcome b (computeMaps st) (inv b c d)"
proof (cases "use_csa2 st")
  case True
  then show ?thesis
    using assms(1) by (auto simp: computeMaps_def inv_defs csa2_computeMapping_wf)
next
  case False
  then show ?thesis
    using assms computeMap1_table computeMap1_defined [of "chanMap (rconf st)"]
    by (cases "computeMap1 (chanMap (rconf st))") (auto simp: computeMaps_def inv_defs)
qed

lemma getCurrChan_less:
  assumes "inv b c d st"
  shows "\<exists>chan. getCurrChan st = Some chan \<and> unat chan < 37"
proof -
  have "csa2_wf (csa2_st st)" "channel_table_ok (mapping_table st)" "unat (curUnmapped st) < 37"
    using assms by (simp_all add: inv_def radio_ok_def)
  then show ?thesis
    by (simp add: getCurrChan_def csa2_computeChannel_less channel_table_nth rd_def) (simp add: channel_table_ok_def)
qed

section \<open>The start of a connection\<close>

text \<open>What a connection request leaves behind: the maps of the new connection are usable.\<close>

definition conn_started :: "bool \<Rightarrow> fw \<Rightarrow> fw \<Rightarrow> bool" where
  "conn_started b st st' \<longleftrightarrow> chanMapCertain (rconf st') \<and> tx_q st' = tx_q st \<and> (b \<or> use_csa2 st' \<or> conf_maps_ok st') \<and> snifferState st' = snifferState st \<and>
     gotAuxConnReq st' = gotAuxConnReq st \<and> use_csa2 st' = use_csa2 st \<and> connReqLLData st' = connReqLLData st"

lemma map_at_read: "i + 5 \<le> length buf \<Longrightarrow> rd40 buf i = Some (map_at buf i)"
  by (simp add: map_at_def)

text \<open>The invariant apart from the maps: what holds while a connection request is handled.\<close>

lemma inv_from_radio: "radio_ok st \<Longrightarrow> inv True c d st"
  by (simp add: inv_def)

lemma radio_from_inv: "inv b c d st \<Longrightarrow> radio_ok st"
  by (simp add: inv_def)

lemma radio_computeMaps:
  assumes "radio_ok st"
  shows "outcome b (computeMaps st) (\<lambda>st'. radio_ok st' \<and> (\<exists>m t. st' = st\<lparr>csa2_st := m, mapping_table := t\<rparr>)) \<or>
    \<not> use_csa2 st \<and> \<not> map_usable (chanMap (rconf st)) \<and> computeMaps st = None"
proof -
  have "outcome True (computeMaps st) (inv True True d)"
    using assms by (intro inv_computeMaps) (simp_all add: inv_from_radio)
  moreover have "st' = st\<lparr>csa2_st := csa2_st st', mapping_table := mapping_table st'\<rparr>"
    if "computeMaps st = Some st'" for st'
    using that by (auto simp: computeMaps_def split: if_splits bind_splits)
  moreover have "\<not> use_csa2 st \<and> \<not> map_usable (chanMap (rconf st))" if "computeMaps st = None"
    using that computeMap1_defined [of "chanMap (rconf st)"] by (auto simp: computeMaps_def split: if_splits)
  ultimately show ?thesis
    by (cases "computeMaps st") (auto simp: inv_def)
qed

lemma radio_handleConnReq:
  assumes ok: "radio_ok st" and len: "22 \<le> length ll" and maps: "b \<or> use_csa2 st \<or> map_usable (map_at ll 16)"
  shows "outcome b (handleConnReq phy t ll aux st) (\<lambda>st'. radio_ok st' \<and> conn_started b st st')"
proof -
  define hop where "hop = ll ! 21 AND 0x1F"
  define st1 where "st1 = set_rconf (\<lambda>c. c\<lparr>chanMap := map_at ll 16, chanMapCertain := True\<rparr>)
    (st\<lparr>accessAddress := le32 (ll ! 0) (ll ! 1) (ll ! 2) (ll ! 3), hopIncrement := hop,
      crcInit := le32 (ll ! 4) (ll ! 5) (ll ! 6) (ll ! 7) AND 0xFFFFFF, ll_encryption := False, curUnmapped := hop\<rparr>)"
  have "hop \<le> 0x1F"
    unfolding hop_def by (rule word_and_le1)
  then have "radio_ok st1"
    using ok by (simp add: st1_def set_rconf_def radio_ok_def arrays_ok_def packet_queue_ok_def word_le_nat_alt)
  moreover have st1: "use_csa2 st1 = use_csa2 st" "chanMap (rconf st1) = map_at ll 16"
    by (simp_all add: st1_def set_rconf_def)
  ultimately have step: "outcome b (computeMaps st1)
      (\<lambda>st'. radio_ok st' \<and> (\<exists>m t. st' = st1\<lparr>csa2_st := m, mapping_table := t\<rparr>))"
    using radio_computeMaps [of st1 b] maps by auto
  have reads: "rd32 ll 0 = Some (le32 (ll ! 0) (ll ! 1) (ll ! 2) (ll ! 3))" "rd ll 21 = Some (ll ! 21)"
    "rd32 ll 4 = Some (le32 (ll ! 4) (ll ! 5) (ll ! 6) (ll ! 7))" "rd40 ll 16 = Some (map_at ll 16)"
    "rd16 ll 8 = Some (le16 (ll ! 8) (ll ! 9))" "rd16 ll 10 = Some (le16 (ll ! 10) (ll ! 11))"
    "rd16 ll 12 = Some (le16 (ll ! 12) (ll ! 13))" "rd16 ll 14 = Some (le16 (ll ! 14) (ll ! 15))"
    using len map_at_read [of 16 ll] rd32_Some [of 0 ll] rd32_Some [of 4 ll] by (simp_all add: numeral_eq_Suc)
  show ?thesis
    unfolding handleConnReq_def reads bind.bind_lunit Let_def hop_def [symmetric] st1_def [symmetric]
      outcome_bind outcome_Some
    by (rule outcome_mono [OF step], elim conjE exE, insert maps)
      (auto simp: conn_started_def st1_def set_rconf_def radio_ok_def arrays_ok_def packet_queue_ok_def
        conf_maps_ok_def queued_maps_ok_def conf_items_reset conf_queue_ok_reset)
qed

lemma inv_conn_started:
  "inv b c d st \<Longrightarrow> radio_ok st' \<Longrightarrow> conn_started b st st' \<Longrightarrow> inv b c' d' st'"
  by (auto simp: inv_def maps_ok_def strike_ok_def conn_started_def inDataState_def conf_maps_ok_def)

section \<open>After a connection event\<close>

lemma inv_measure_chanMap:
  assumes "inv b False d st" "\<not> chanMapCertain (rconf st)"
  shows "outcome b (measure_chanMap st) (inv b True d)"
proof -
  obtain chan where chan: "getCurrChan st = Some chan" "unat chan < 37"
    using getCurrChan_less [OF assms(1)] by blast
  define bt where "bt = (push_bit (unat chan) 1 :: u64)"
  have weak: "inv b True d st"
    using assms(1) by (rule inv_weaken)
  have strike: "outcome b (if firstPacket st \<and> chanMapTestMask st AND bt = 0
       then computeMaps (set_rconf (\<lambda>c. c\<lparr>chanMap := chanMap c AND NOT bt\<rparr>) st) else Some st) (inv b True d)"
  proof -
    have "b \<or> use_csa2 st \<or> map_usable (chanMap (rconf st) AND NOT bt)"
      using assms used_channels_strike [of "chanMap (rconf st)" "unat chan"]
      by (auto simp: inv_def strike_ok_def bt_def)
    moreover from this have "inv b True d (set_rconf (\<lambda>c. c\<lparr>chanMap := chanMap c AND NOT bt\<rparr>) st)"
      using weak by (auto simp: set_rconf_def inv_def radio_ok_def maps_ok_def conf_maps_ok_def queued_maps_ok_def inDataState_def
          arrays_ok_def packet_queue_ok_def)
    ultimately show ?thesis
      using weak inv_computeMaps [of b True d "set_rconf (\<lambda>c. c\<lparr>chanMap := chanMap c AND NOT bt\<rparr>) st"]
      by (simp add: set_rconf_def)
  qed
  have eq: "measure_chanMap st =
    (if firstPacket st \<and> chanMapTestMask st AND bt = 0
       then computeMaps (set_rconf (\<lambda>c. c\<lparr>chanMap := chanMap c AND NOT bt\<rparr>) st) else Some st) \<bind>
    (\<lambda>st. let st = st\<lparr>chanMapTestMask := chanMapTestMask st OR bt\<rparr>
       in if chanMapTestMask st = 0x1FFFFFFFFF
          then reportMeasChanMap (chanMap (rconf st)) (set_rconf (\<lambda>c. c\<lparr>chanMapCertain := True\<rparr>) st)
          else Some st)"
    using chan by (simp add: measure_chanMap_def bt_def)
  show ?thesis
    unfolding eq by (rule keep_bind [OF strike]) (simp add: Let_def inv_measurement inv_certain)
qed

lemma inv_anchorOffset: "inv b c d st \<Longrightarrow> length l = length (anchorOffset st) \<Longrightarrow> inv b c d (st\<lparr>anchorOffset := l\<rparr>)"
  by (simp add: inv_defs)

lemma inv_intervalTicks: "inv b c d st \<Longrightarrow> length l = length (intervalTicks st) \<Longrightarrow> inv b c d (st\<lparr>intervalTicks := l\<rparr>)"
  by (simp add: inv_defs)

lemma inv_lengths: "inv b c d st \<Longrightarrow> length (anchorOffset st) = 4" "inv b c d st \<Longrightarrow> length (intervalTicks st) = 3"
  "inv b c d st \<Longrightarrow> length (connParamPairs st) = 8" "inv b c d st \<Longrightarrow> unat (numParamPairs st) \<le> 4"
  "inv b c d st \<Longrightarrow> unat (aoInd st) < 4" "inv b c d st \<Longrightarrow> length (connReqLLData st) = 22"
  by (simp_all add: inv_def radio_ok_def arrays_ok_def)

lemma inv_measure_winOffset: "inv b c d st \<Longrightarrow> outcome b' (measure_winOffset st) (inv b c d)"
  unfolding measure_winOffset_def Let_def
  by (auto intro!: keep_bind [where b' = b and c = c and d = d] inv_measurement)

lemma inv_measure_median: "inv b c d st \<Longrightarrow> outcome b' (measure_median st) (inv b c d)"
  unfolding measure_median_def Let_def
  by (auto simp: median_def Let_def intro!: keep_bind [where b' = b and c = c and d = d] inv_measurement inv_intervalTicks
      inv_anchorOffset)

lemma inv_measure_interval [keeps]: "inv b c d st \<Longrightarrow> outcome b' (measure_interval st) (inv b c d)"
  by (simp add: measure_interval_def inv_measure_winOffset inv_measure_median)

lemma dequeue_items:
  assumes "conf_queue_ok q" "rconf_dequeue n conf q = (changed, conf', q')"
  shows "set (conf_items q') \<subseteq> set (conf_items q) \<and>
    (if changed then conf' \<in> snd ` set (conf_items q) else conf' = conf)"
  using assms by (cases "conf_items q")
    (auto simp: rconf_dequeue_empty rconf_dequeue_Cons conf_items_drop split: if_splits)

lemma inv_dequeue:
  assumes "inv b c d st" "rconf_dequeue n (rconf st) (rconf_queue st) = (changed, conf, q)"
  shows "inv b True d (st\<lparr>rconf := conf, rconf_queue := q\<rparr>) \<and> (changed \<longrightarrow> b \<or> use_csa2 st \<or> map_usable (chanMap conf))"
proof -
  let ?st = "st\<lparr>rconf := conf, rconf_queue := q\<rparr>"
  have ok: "conf_queue_ok (rconf_queue st)"
    using assms(1) by (simp add: inv_def radio_ok_def)
  have q: "conf_queue_ok q"
    using conf_queue_ok_dequeue [OF ok, of n "rconf st"] assms(2) by simp
  have queued: "queued_maps_ok ?st \<and> (changed \<longrightarrow> map_usable (chanMap conf))" if "queued_maps_ok st"
    using dequeue_items [OF ok assms(2)] that by (cases changed) (auto simp: queued_maps_ok_def)
  have conf: "conf_maps_ok ?st" if "conf_maps_ok st"
    using dequeue_items [OF ok assms(2)] queued that by (cases changed) (auto simp: conf_maps_ok_def)
  have "radio_ok ?st"
    using assms(1) q by (simp add: inv_def radio_ok_def arrays_ok_def packet_queue_ok_def)
  moreover have "b \<or> maps_ok ?st"
    using assms(1) queued conf by (simp add: inv_def maps_ok_def inDataState_def) blast
  moreover have "b \<or> d \<or> use_csa2 st \<or> conf_maps_ok ?st"
    using assms(1) conf by (auto simp: inv_def)
  moreover have "b \<or> use_csa2 st \<or> queued_maps_ok st"
    using assms(1) by (auto simp: inv_def maps_ok_def)
  ultimately show ?thesis
    using queued by (auto simp: inv_def)
qed

lemma inv_next_event:
  assumes "inv b c d st"
  shows "outcome b (next_event peripheral st) (inv b True d)"
proof -
  define st1 where "st1 = st\<lparr>curUnmapped := of_nat ((unat (curUnmapped st) + unat (hopIncrement st)) mod 37),
    connEventCount := connEventCount st + 1\<rparr>"
  obtain changed conf q where d: "rconf_dequeue (ucast (connEventCount st1 AND 0xFFFF)) (rconf st1) (rconf_queue st1)
      = (changed, conf, q)"
    by (metis prod_cases3)
  have "unat (of_nat ((unat (curUnmapped st) + unat (hopIncrement st)) mod 37) :: u8) < 37"
    by (subst unat_of_nat_channel) simp_all
  then have st1: "inv b c d st1"
    using assms(1) unfolding st1_def by (simp add: inv_defs)
  define st2 where "st2 = st1\<lparr>rconf := conf, rconf_queue := q\<rparr>"
  define st3 where "st3 = st2\<lparr>nextHopTime := nextHopTime st2 + ucast (rc_offset (rconf st2)) * 5000\<rparr>"
  have st2: "inv b True d st2" "changed \<Longrightarrow> b \<or> use_csa2 st \<or> map_usable (chanMap conf)"
    using inv_dequeue [OF st1 d] assms unfolding st2_def
    by (auto simp: inv_def maps_ok_def conf_maps_ok_def queued_maps_ok_def st1_def)
  define applied where "applied = (if changed then computeMaps st3 \<bind>
         (\<lambda>st. let st = (if instaHop st \<and> \<not> intervalCertain (rconf st) then st\<lparr>itInd := 0xFFFFFFFF\<rparr> else st)
           in Some (if \<not> chanMapCertain (rconf st) then st\<lparr>chanMapTestMask := 0\<rparr> else st))
       else Some st2)"
  have step: "outcome b applied (inv b True d)"
  proof (cases changed)
    case True
    then have "outcome b (computeMaps st3) (inv b True d)"
      using st2 by (intro inv_computeMaps) (auto simp: st3_def st2_def st1_def)
    then show ?thesis
      using True by (auto simp: applied_def Let_def intro!: keep_bind)
  next
    case False
    then show ?thesis using st2(1) by (simp add: applied_def)
  qed
  have "next_event peripheral st = applied \<bind> (\<lambda>st.
     let st = (if peripheral \<and> intervalCertain (rconf st) \<and> connEventCount st AND 3 = 0
       then let (medAnchorOffset, arr) = median (anchorOffset st)
            in st\<lparr>anchorOffset := arr, nextHopTime := nextHopTime st + (medAnchorOffset - AO_TARG)\<rparr>
       else st)
     in Some (st\<lparr>nextHopTime := nextHopTime st + hopIntervalTicks (rconf st)\<rparr>))"
    unfolding next_event_def Let_def st1_def [symmetric] d prod.case st2_def [symmetric] st3_def [symmetric]
      applied_def by simp
  then show ?thesis
    by (simp add: median_def Let_def keep_bind [OF step] inv_anchorOffset)
qed

lemma inv_afterConnEvent:
  assumes "inv b False d st"
  shows "outcome b (afterConnEvent peripheral gotData st) (inv b True d)"
proof -
  obtain t st0 where t: "RF_getCurrentTime st = (t, st0)"
    by (cases "RF_getCurrentTime st")
  define st1 where "st1 = (if gotData then st0\<lparr>connTimeoutTime := t + connTimeoutTicks (rconf st0)\<rparr> else st0)"
  have st0: "inv b False d st0"
    using assms t by (auto simp: RF_getCurrentTime_def)
  then have st1: "inv b False d st1" "inv b True d st1" "inv b True d st0"
    using inv_weaken [OF st0] by (auto simp: st1_def)
  have "outcome b (if \<not> chanMapCertain (rconf st1) \<and> peripheral then measure_chanMap st1 else Some st1) (inv b True d)"
    using inv_measure_chanMap [OF st1(1)] st1(2) by simp
  then have "outcome b ((if \<not> chanMapCertain (rconf st1) \<and> peripheral then measure_chanMap st1 else Some st1) \<bind>
      (\<lambda>st. (if peripheral \<and> instaHop st then measure_interval st else Some st) \<bind> next_event peripheral)) (inv b True d)"
    by (rule keep_bind) (rule keep_bind [where b' = b and c = True and d = d], simp add: inv_measure_interval, rule inv_next_event)
  moreover have "outcome b (handleConnFinished st0) (inv b True d)"
    by (rule inv_handleConnFinished [OF st1(3)])
  ultimately show ?thesis
    by (auto simp: afterConnEvent_def t st1_def Let_def)
qed

end
