(* ===== verification/Link_Spec.thy ===== *)
theory Link_Spec
  imports Radio_Inv
begin

text \<open>
  What following a connection means, apart from how RadioTask.c stores it: a link has an
  event counter, an unmapped channel, parameters and a list of changes waiting for their
  instants, and each event's channel is a function of them.  \<open>next_event\<close> and
  \<open>getCurrChan\<close> implement this, and a channel map update takes effect at its instant.
\<close>

unbundle bit_operations_syntax

section \<open>The abstract link\<close>

record link =
  lk_count :: u32
  lk_unmapped :: nat
  lk_time :: u32
  lk_conf :: radio_config
  lk_waiting :: "(u16 \<times> radio_config) list"

text \<open>The parameters and the waiting changes at event \<open>n\<close>, and whether a change was made.\<close>

definition link_change :: "u32 \<Rightarrow> link \<Rightarrow> bool \<times> radio_config \<times> (u16 \<times> radio_config) list" where
  "link_change n l = (case lk_waiting l of
     (i, e) # rest \<Rightarrow> if instant_due i (ucast n) then (True, e, rest) else (False, lk_conf l, lk_waiting l)
   | [] \<Rightarrow> (False, lk_conf l, []))"

text \<open>The step from one event to the next, by the hop increment and the hop interval.\<close>

definition link_step :: "nat \<Rightarrow> link \<Rightarrow> link" where
  "link_step hop l =
     (let n = lk_count l + 1; (changed, c, waiting) = link_change n l
      in \<lparr>lk_count = n, lk_unmapped = (lk_unmapped l + hop) mod 37,
          lk_time = lk_time l + (if changed then ucast (rc_offset c) * 5000 else 0) + hopIntervalTicks c,
          lk_conf = c, lk_waiting = waiting\<rparr>)"

text \<open>
  A peripheral or observer that knows the hop interval moves its time at every fourth event, by
  how far the middle one of the last four anchors was from its target.
\<close>

definition anchor_error :: "bool \<Rightarrow> u32 list \<Rightarrow> link \<Rightarrow> u32" where
  "anchor_error peripheral anchors l =
     (if peripheral \<and> intervalCertain (lk_conf l) \<and> lk_count l AND 3 = 0 then fst (median anchors) - AO_TARG else 0)"

definition link_event :: "bool \<Rightarrow> u32 list \<Rightarrow> nat \<Rightarrow> link \<Rightarrow> link" where
  "link_event peripheral anchors hop l =
     (let l = link_step hop l in l\<lparr>lk_time := lk_time l + anchor_error peripheral anchors l\<rparr>)"

definition link_channel :: "bool \<Rightarrow> u32 \<Rightarrow> link \<Rightarrow> nat" where
  "link_channel csa2 aa l =
     (if csa2 then csa2_select (chanMap (lk_conf l)) (csa2_eprn (ucast aa XOR ucast (drop_bit 16 aa)) (ucast (lk_count l)))
      else csa1_select (chanMap (lk_conf l)) (lk_unmapped l))"

lemma link_channel_used: "map_usable (chanMap (lk_conf l)) \<Longrightarrow> link_channel csa2 aa l \<in> set (used_channels (chanMap (lk_conf l)))"
  by (simp add: link_channel_def map_usable_def csa1.select_used csa2.select_used)

section \<open>The code's state as a link\<close>

definition link_of :: "fw \<Rightarrow> link" where
  "link_of st = \<lparr>lk_count = connEventCount st, lk_unmapped = unat (curUnmapped st), lk_time = nextHopTime st,
     lk_conf = rconf st, lk_waiting = conf_items (rconf_queue st)\<rparr>"

text \<open>The tables are those of the current channel map.\<close>

definition tables_ok :: "fw \<Rightarrow> bool" where
  "tables_ok st \<longleftrightarrow>
     (if use_csa2 st
      then csa2_ready (csa2_st st) \<and> csa2_chanMap (csa2_st st) = chanMap (rconf st) \<and>
        channelIdentifier (csa2_st st) = ucast (accessAddress st) XOR ucast (drop_bit 16 (accessAddress st))
      else computeMap1 (chanMap (rconf st)) = Some (mapping_table st))"

definition link_ok :: "fw \<Rightarrow> bool" where
  "link_ok st \<longleftrightarrow> conf_queue_ok (rconf_queue st) \<and> unat (curUnmapped st) < 37 \<and> csa2_ok (csa2_st st) \<and> tables_ok st"

lemma computeMap1_nth:
  assumes "computeMap1 chmap = Some table" "k < 37"
  shows "rd table k = Some (of_nat (csa1_select chmap k)) \<and> csa1_select chmap k < 37"
proof -
  have ne: "used_channels chmap \<noteq> []"
    using assms(1) computeMap1_empty by fastforce
  then have "table = map (\<lambda>i. of_nat (csa1_select chmap i)) [0..<37]"
    using assms(1) by (auto simp: computeMap1_eq csa1_select_eq)
  then show ?thesis
    using assms(2) csa1.select_less [OF ne] by simp
qed

lemma getCurrChan_link:
  assumes "link_ok st" "map_usable (chanMap (rconf st))"
  shows "\<exists>ch. getCurrChan st = Some ch \<and> unat ch = link_channel (use_csa2 st) (accessAddress st) (link_of st)"
proof (cases "use_csa2 st")
  case True
  then show ?thesis
    using assms csa2_computeChannel_select [of "csa2_st st" "connEventCount st"]
    by (simp add: getCurrChan_def link_ok_def tables_ok_def link_channel_def link_of_def map_usable_def)
next
  case False
  then show ?thesis
    using assms computeMap1_nth [of "chanMap (rconf st)" "mapping_table st" "unat (curUnmapped st)"]
    by (simp add: getCurrChan_def link_ok_def tables_ok_def link_channel_def link_of_def unat_of_nat_channel)
qed

lemma computeMaps_tables:
  assumes "computeMaps st = Some st'" "csa2_ok (csa2_st st)"
  shows "tables_ok st' \<and> csa2_ok (csa2_st st')"
  using assms csa2_computeMapping_ready [OF assms(2), of "accessAddress st" "chanMap (rconf st)"]
  by (auto simp: computeMaps_def tables_ok_def csa2_ready_def split: if_splits bind_splits)

lemma computeMaps_frame:
  "computeMaps st = Some st' \<Longrightarrow> st' = st\<lparr>csa2_st := csa2_st st', mapping_table := mapping_table st'\<rparr>"
  by (auto simp: computeMaps_def split: if_splits bind_splits)

lemma rconf_dequeue_change:
  assumes "conf_queue_ok (rconf_queue st)" "rconf_dequeue (ucast n) (rconf st) (rconf_queue st) = (changed, c, q)"
  shows "link_change n (link_of st) = (changed, c, conf_items q) \<and> conf_queue_ok q \<and> (\<not> changed \<longrightarrow> c = rconf st)"
  using assms conf_queue_ok_drop [OF assms(1)] conf_items_drop [of "rconf_queue st"]
  by (cases "conf_items (rconf_queue st)")
    (auto simp: link_change_def link_of_def rconf_dequeue_empty rconf_dequeue_Cons split: if_splits)

section \<open>Events\<close>

text \<open>Sorting sorted anchors again does not change them, whatever the wrapping comparison makes of the rest.\<close>

lemma compare_ticks_total: "compare_ticks a b \<le> 0 \<or> compare_ticks b a \<le> 0"
proof (rule ccontr)
  assume "\<not> (compare_ticks a b \<le> 0 \<or> compare_ticks b a \<le> 0)"
  then have pos: "0 < sint (a - b)" "0 < sint (b - a)"
    by (simp_all add: compare_ticks_def not_le)
  then have "\<not> 0x80000000 \<le> a - b" "\<not> 0x80000000 \<le> b - a"
    using sint_neg_iff [of "a - b"] sint_neg_iff [of "b - a"] by auto
  then have less: "unat (a - b) < 0x80000000" "unat (b - a) < 0x80000000"
    by (simp_all add: word_le_nat_alt)
  have "unat ((a - b) + (b - a)) = (unat (a - b) + unat (b - a)) mod 2 ^ 32"
    by (subst unat_word_ariths) simp
  then have "unat (a - b) = 0"
    using less by simp
  then have "a - b = 0"
    by (simp only: unat_eq_zero)
  then show False
    using pos(1) by simp
qed

lemma median_again: "fst (median (snd (median xs))) = fst (median xs)"
proof -
  have "qsort compare_ticks (qsort compare_ticks xs) = qsort compare_ticks xs"
    by (rule qsort_again) (rule compare_ticks_total)
  then show ?thesis
    by (simp add: median_def Let_def)
qed

text \<open>The correction \<open>next_event\<close> makes to the anchor point, with the sorted samples.\<close>

definition anchor_correction :: "bool \<Rightarrow> fw \<Rightarrow> u32" where
  "anchor_correction peripheral st =
     (if peripheral \<and> intervalCertain (rconf st) \<and> connEventCount st AND 3 = 0
      then fst (median (anchorOffset st)) - AO_TARG else 0)"

text \<open>What the end of \<open>next_event\<close> changes beside the time of the next event.\<close>

definition event_tail :: "bool \<Rightarrow> bool \<Rightarrow> fw \<Rightarrow> fw" where
  "event_tail peripheral changed st = st\<lparr>
     anchorOffset := (if peripheral \<and> intervalCertain (rconf st) \<and> connEventCount st AND 3 = 0
       then snd (median (anchorOffset st)) else anchorOffset st),
     itInd := (if changed \<and> instaHop st \<and> \<not> intervalCertain (rconf st) then 0xFFFFFFFF else itInd st),
     chanMapTestMask := (if changed \<and> \<not> chanMapCertain (rconf st) then 0 else chanMapTestMask st),
     nextHopTime := nextHopTime st + anchor_correction peripheral st + hopIntervalTicks (rconf st)\<rparr>"

lemma next_event_shape:
  assumes "rconf_dequeue (ucast (connEventCount st + 1)) (rconf st) (rconf_queue st) = (changed, c, q)"
  defines "st1 \<equiv> st\<lparr>curUnmapped := of_nat ((unat (curUnmapped st) + unat (hopIncrement st)) mod 37),
    connEventCount := connEventCount st + 1, rconf := c, rconf_queue := q\<rparr>"
  shows "next_event peripheral st = map_option (event_tail peripheral changed)
    (if changed then computeMaps (st1\<lparr>nextHopTime := nextHopTime st + ucast (rc_offset c) * 5000\<rparr>) else Some st1)"
proof -
  define close where "close = (\<lambda>st :: fw. st\<lparr>nextHopTime := nextHopTime st + hopIntervalTicks (rconf st)\<rparr>)"
  define tune where "tune = (\<lambda>st :: fw. if peripheral \<and> intervalCertain (rconf st) \<and> connEventCount st AND 3 = 0
      then let (medAnchorOffset, arr) = median (anchorOffset st)
           in st\<lparr>anchorOffset := arr, nextHopTime := nextHopTime st + (medAnchorOffset - AO_TARG)\<rparr>
      else st)"
  define mark where "mark = (\<lambda>st :: fw. let st = (if instaHop st \<and> \<not> intervalCertain (rconf st) then st\<lparr>itInd := 0xFFFFFFFF\<rparr> else st)
      in if \<not> chanMapCertain (rconf st) then st\<lparr>chanMapTestMask := 0\<rparr> else st)"
  define s1 where "s1 = st\<lparr>curUnmapped := of_nat ((unat (curUnmapped st) + unat (hopIncrement st)) mod 37),
    connEventCount := connEventCount st + 1\<rparr>"
  have d: "rconf_dequeue (ucast (connEventCount s1 AND 0xFFFF)) (rconf s1) (rconf_queue s1) = (changed, c, q)"
    using assms(1) by (simp add: s1_def)
  have s2: "s1\<lparr>rconf := c, rconf_queue := q\<rparr> = st1"
    by (simp add: s1_def st1_def)
  have s3: "st1\<lparr>nextHopTime := nextHopTime st1 + ucast (rc_offset (rconf st1)) * 5000\<rparr> =
      st1\<lparr>nextHopTime := nextHopTime st + ucast (rc_offset c) * 5000\<rparr>"
    by (simp add: st1_def)
  have "next_event peripheral st = (if changed
      then computeMaps (st1\<lparr>nextHopTime := nextHopTime st + ucast (rc_offset c) * 5000\<rparr>) \<bind> (\<lambda>st. Some (mark st))
      else Some st1) \<bind> (\<lambda>st. Some (close (tune st)))"
    unfolding next_event_def Let_def s1_def [symmetric] d prod.case s2 s3 close_def tune_def mark_def by (rule refl)
  moreover have tuned: "close (tune st) = event_tail peripheral False st" for st :: fw
  proof (cases "peripheral \<and> intervalCertain (rconf st) \<and> connEventCount st AND 3 = 0")
    case True
    show ?thesis
      unfolding close_def tune_def event_tail_def anchor_correction_def if_P [OF True] by (simp add: case_prod_beta)
  next
    case False
    show ?thesis
      unfolding close_def tune_def event_tail_def anchor_correction_def if_not_P [OF False] by simp
  qed
  moreover have "event_tail peripheral False (mark st) = event_tail peripheral True st" for st :: fw
  proof -
    have "mark st = st\<lparr>itInd := (if instaHop st \<and> \<not> intervalCertain (rconf st) then 0xFFFFFFFF else itInd st),
        chanMapTestMask := (if \<not> chanMapCertain (rconf st) then 0 else chanMapTestMask st)\<rparr>"
      by (simp add: mark_def)
    then show ?thesis
      by (simp add: event_tail_def anchor_correction_def)
  qed
  ultimately show ?thesis
    by (cases changed) (simp_all add: map_conv_bind_option comp_def)
qed

lemma unat_hop: "unat (of_nat ((u + h) mod 37) :: u8) = (u + h) mod 37"
  by (rule unat_of_nat_channel) simp

lemma event_tail_tables: "tables_ok (event_tail peripheral changed st) = tables_ok st"
  by (simp add: tables_ok_def event_tail_def)

text \<open>Fields an event leaves alone.\<close>

definition same_link :: "fw \<Rightarrow> fw \<Rightarrow> bool" where
  "same_link st st' \<longleftrightarrow> use_csa2 st' = use_csa2 st \<and> accessAddress st' = accessAddress st \<and>
     hopIncrement st' = hopIncrement st \<and> snifferState st' = snifferState st"

lemma next_event_link:
  assumes "link_ok st" "next_event peripheral st = Some st'"
  shows "link_ok st' \<and> same_link st st' \<and> fst (median (anchorOffset st')) = fst (median (anchorOffset st)) \<and>
    link_of st' = link_event peripheral (anchorOffset st) (unat (hopIncrement st)) (link_of st)"
proof -
  obtain changed c q where d: "rconf_dequeue (ucast (connEventCount st + 1)) (rconf st) (rconf_queue st) = (changed, c, q)"
    by (metis prod_cases3)
  define st2 where "st2 = st\<lparr>curUnmapped := of_nat ((unat (curUnmapped st) + unat (hopIncrement st)) mod 37),
    connEventCount := connEventCount st + 1, rconf := c, rconf_queue := q,
    nextHopTime := nextHopTime st + (if changed then ucast (rc_offset c) * 5000 else 0)\<rparr>"
  have q: "link_change (connEventCount st + 1) (link_of st) = (changed, c, conf_items q)" "conf_queue_ok q"
    "\<not> changed \<Longrightarrow> c = rconf st"
    using rconf_dequeue_change [OF _ d] assms(1) by (auto simp: link_ok_def)
  obtain st3 where st3: "st' = event_tail peripheral changed st3" "(if changed then computeMaps st2 else Some st2) = Some st3"
    using assms(2) next_event_shape [OF d, of peripheral] unfolding st2_def
    by (cases changed) auto
  have same: "\<exists>m t. st3 = st2\<lparr>csa2_st := m, mapping_table := t\<rparr>" "tables_ok st3 \<and> csa2_ok (csa2_st st3)"
  proof -
    show "\<exists>m t. st3 = st2\<lparr>csa2_st := m, mapping_table := t\<rparr>"
    proof (cases changed)
      case True
      then show ?thesis
        using st3(2) computeMaps_frame [of st2 st3] assms(1) by (auto simp: st2_def link_ok_def)
    next
      case False
      then show ?thesis
        using st3(2) by (intro exI [of _ "csa2_st st2"] exI [of _ "mapping_table st2"]) simp
    qed
    show "tables_ok st3 \<and> csa2_ok (csa2_st st3)"
    proof (cases changed)
      case True
      then show ?thesis
        using st3(2) computeMaps_tables [of st2 st3] assms(1) by (auto simp: st2_def link_ok_def)
    next
      case False
      then show ?thesis
        using st3(2) assms(1) q(3) by (auto simp: st2_def link_ok_def tables_ok_def)
    qed
  qed
  then obtain m t where st3_eq: "st3 = st2\<lparr>csa2_st := m, mapping_table := t\<rparr>"
    by blast
  have "link_ok st'"
    using same(2) q(2) unat_hop [of "unat (curUnmapped st)" "unat (hopIncrement st)"]
    by (simp add: st3(1) link_ok_def event_tail_tables) (simp add: event_tail_def st3_eq st2_def)
  moreover have "same_link st st'"
    by (simp add: same_link_def st3(1) event_tail_def st3_eq st2_def)
  moreover have "link_of st' = link_event peripheral (anchorOffset st) (unat (hopIncrement st)) (link_of st)"
    using q(1) unat_hop [of "unat (curUnmapped st)" "unat (hopIncrement st)"]
    by (simp add: link_event_def link_step_def anchor_error_def anchor_correction_def Let_def st3(1) event_tail_def link_of_def)
      (auto simp: st3_eq st2_def)
  moreover have "fst (median (anchorOffset st')) = fst (median (anchorOffset st))"
    by (simp add: st3(1) event_tail_def st3_eq st2_def median_again)
  ultimately show ?thesis
    by blast
qed

text \<open>The event happens unless an empty map is made current under algorithm #1.\<close>

lemma next_event_defined:
  assumes "link_ok st" "use_csa2 st \<or> (\<forall>x\<in>set (conf_items (rconf_queue st)). map_usable (chanMap (snd x)))"
  shows "\<exists>st'. next_event peripheral st = Some st'"
proof -
  obtain changed c q where d: "rconf_dequeue (ucast (connEventCount st + 1)) (rconf st) (rconf_queue st) = (changed, c, q)"
    by (metis prod_cases3)
  have "changed \<Longrightarrow> c \<in> snd ` set (conf_items (rconf_queue st))"
    using rconf_dequeue_change [OF _ d] assms(1)
    by (auto simp: link_ok_def link_change_def link_of_def split: list.splits if_splits)
  then have "changed \<Longrightarrow> use_csa2 st \<or> map_usable (chanMap c)"
    using assms(2) by auto
  then show ?thesis
    using next_event_shape [OF d, of peripheral] computeMap1_defined [of "chanMap c"]
    by (cases changed) (auto simp: computeMaps_def)
qed

section \<open>Runs of events\<close>

fun next_events :: "bool \<Rightarrow> nat \<Rightarrow> fw \<Rightarrow> fw option" where
  "next_events peripheral 0 st = Some st"
| "next_events peripheral (Suc k) st = next_events peripheral k st \<bind> next_event peripheral"

text \<open>The same for the link, with the anchors seen up to now.\<close>

fun link_run :: "bool \<Rightarrow> u32 list \<Rightarrow> nat \<Rightarrow> nat \<Rightarrow> link \<Rightarrow> link" where
  "link_run peripheral anchors hop 0 l = l"
| "link_run peripheral anchors hop (Suc k) l = link_event peripheral anchors hop (link_run peripheral anchors hop k l)"

lemma same_link_trans: "same_link st st' \<Longrightarrow> same_link st' st'' \<Longrightarrow> same_link st st''"
  by (simp add: same_link_def)

lemma link_change_waiting: "set (snd (snd (link_change n l))) \<subseteq> set (lk_waiting l)"
  by (cases "lk_waiting l") (auto simp: link_change_def split: if_splits)

lemma link_event_waiting: "set (lk_waiting (link_event peripheral anchors hop l)) \<subseteq> set (lk_waiting l)"
  using link_change_waiting [of "lk_count l + 1" l] by (simp add: link_event_def link_step_def Let_def case_prod_beta)

lemma link_run_waiting: "set (lk_waiting (link_run peripheral anchors hop k l)) \<subseteq> set (lk_waiting l)"
  using link_event_waiting by (induction k) fastforce+

lemma link_event_median:
  "fst (median anchors) = fst (median anchors') \<Longrightarrow> link_event peripheral anchors hop l = link_event peripheral anchors' hop l"
  by (simp add: link_event_def anchor_error_def Let_def cong: if_cong)

lemma next_events_link:
  assumes "link_ok st" "use_csa2 st \<or> (\<forall>x\<in>set (conf_items (rconf_queue st)). map_usable (chanMap (snd x)))"
  shows "\<exists>st'. next_events peripheral k st = Some st' \<and> link_ok st' \<and> same_link st st' \<and>
    fst (median (anchorOffset st')) = fst (median (anchorOffset st)) \<and>
    link_of st' = link_run peripheral (anchorOffset st) (unat (hopIncrement st)) k (link_of st)"
proof (induction k)
  case 0
  show ?case
    using assms(1) by (auto simp: same_link_def)
next
  case (Suc k)
  then obtain st' where st': "next_events peripheral k st = Some st'" "link_ok st'" "same_link st st'"
    "fst (median (anchorOffset st')) = fst (median (anchorOffset st))"
    "link_of st' = link_run peripheral (anchorOffset st) (unat (hopIncrement st)) k (link_of st)"
    by blast
  have "set (conf_items (rconf_queue st')) \<subseteq> set (conf_items (rconf_queue st))"
    using link_run_waiting [of peripheral "anchorOffset st" "unat (hopIncrement st)" k "link_of st"] st'(5) [symmetric]
    by (simp add: link_of_def)
  then have "use_csa2 st' \<or> (\<forall>x\<in>set (conf_items (rconf_queue st')). map_usable (chanMap (snd x)))"
    using assms(2) st'(3) by (auto simp: same_link_def)
  then obtain st'' where event: "next_event peripheral st' = Some st''"
    using next_event_defined [OF st'(2)] by blast
  then show ?case
    using next_event_link [OF st'(2) event] st' link_event_median [OF st'(4)] by (auto simp: same_link_def)
qed

lemma link_event_quiet:
  assumes "lk_waiting l = []"
  shows "link_event peripheral anchors hop l = l\<lparr>lk_count := lk_count l + 1, lk_unmapped := (lk_unmapped l + hop) mod 37,
    lk_time := lk_time l + hopIntervalTicks (lk_conf l) +
      (if peripheral \<and> intervalCertain (lk_conf l) \<and> (lk_count l + 1) AND 3 = 0 then fst (median anchors) - AO_TARG else 0)\<rparr>"
  using assms by (simp add: link_event_def link_step_def link_change_def anchor_error_def)

text \<open>The 16-bit event counter of the air protocol is the truncated 32-bit one.\<close>

lemma counter_add: "ucast ((a :: u32) + b) = (ucast a + ucast b :: u16)"
  by (rule word_unat_eq_iff [THEN iffD2])
    (simp add: unsigned_ucast_eq unat_word_ariths take_bit_eq_mod mod_mod_cancel mod_simps)

lemma counter_of_nat: "ucast (of_nat k :: u32) = (of_nat k :: u16)"
  by (rule word_unat_eq_iff [THEN iffD2]) (simp add: unsigned_ucast_eq unsigned_of_nat take_bit_eq_mod mod_mod_cancel)

text \<open>A run with at most one change, waiting for an instant \<open>d\<close> events ahead.\<close>

lemma link_run_change:
  assumes "lk_waiting l = [(ucast (lk_count l) + of_nat d, e)]" "0 < d" "d < 0x8000" "lk_unmapped l < 37"
  shows "lk_count (link_run peripheral anchors hop k l) = lk_count l + of_nat k \<and>
    lk_unmapped (link_run peripheral anchors hop k l) = (lk_unmapped l + k * hop) mod 37 \<and>
    lk_conf (link_run peripheral anchors hop k l) = (if k < d then lk_conf l else e) \<and>
    lk_waiting (link_run peripheral anchors hop k l) = (if k < d then lk_waiting l else [])"
proof (induction k)
  case 0
  show ?case
    using assms(2,4) by simp
next
  case (Suc k)
  let ?l = "link_run peripheral anchors hop k l"
  have n: "ucast (lk_count ?l + 1) = ucast (lk_count l) + (of_nat (Suc k) :: u16)"
    using Suc by (simp add: counter_add counter_of_nat algebra_simps)
  have due: "instant_due (ucast (lk_count l) + of_nat d) (ucast (lk_count ?l + 1)) \<longleftrightarrow> Suc k = d" if "k < d"
  proof (cases "Suc k = d")
    case False
    then have "\<not> instant_due (ucast (lk_count l) + of_nat (Suc k) + of_nat (d - Suc k)) (ucast (lk_count l) + of_nat (Suc k))"
      using that assms(3) by (intro instant_due_later) simp_all
    moreover have "ucast (lk_count l) + of_nat (Suc k) + of_nat (d - Suc k) = (ucast (lk_count l) + of_nat d :: u16)"
      using that False by (simp flip: of_nat_add add: add.assoc)
    ultimately have "\<not> instant_due (ucast (lk_count l) + of_nat d) (ucast (lk_count l) + of_nat (Suc k))"
      by metis
    then show ?thesis
      using False unfolding n by blast
  qed (simp add: n instant_due_def)
  have "lk_unmapped (link_event peripheral anchors hop ?l) = (lk_unmapped l + Suc k * hop) mod 37"
    using Suc by (simp add: link_event_def link_step_def Let_def case_prod_beta mod_simps algebra_simps)
  moreover have "link_change (lk_count ?l + 1) ?l = (if k < d then if Suc k = d then (True, e, [])
      else (False, lk_conf l, lk_waiting l) else (False, e, []))"
    using Suc due assms(1) by (auto simp: link_change_def)
  ultimately show ?case
    using Suc by (auto simp: link_event_def link_step_def Let_def algebra_simps)
qed

text \<open>With nothing waiting the time goes on by the interval, and by the correction at every fourth event.\<close>

definition corrections :: "u32 \<Rightarrow> nat \<Rightarrow> nat" where
  "corrections n k = length (filter (\<lambda>j. (n + of_nat j) AND 3 = 0) [1..<Suc k])"

lemma corrections_simps [simp]:
  "corrections n 0 = 0"
  "corrections n (Suc k) = corrections n k + (if (n + of_nat (Suc k)) AND 3 = 0 then 1 else 0)"
  by (simp_all add: corrections_def)

lemma link_run_quiet:
  assumes "lk_waiting l = []" "lk_unmapped l < 37"
  shows "link_run peripheral anchors hop k l = l\<lparr>lk_count := lk_count l + of_nat k,
    lk_unmapped := (lk_unmapped l + k * hop) mod 37,
    lk_time := lk_time l + of_nat k * hopIntervalTicks (lk_conf l) +
      (if peripheral \<and> intervalCertain (lk_conf l)
       then of_nat (corrections (lk_count l) k) * (fst (median anchors) - AO_TARG) else 0)\<rparr>"
proof (induction k)
  case (Suc k)
  then show ?case
    using assms by (simp add: link_event_quiet mod_simps algebra_simps)
qed (use assms in simp)

section \<open>Control PDUs\<close>

text \<open>An LL control PDU of the announced length: what is done before its opcode is looked at.\<close>

definition control_pdu :: "ble_frame \<Rightarrow> bool" where
  "control_pdu f \<longleftrightarrow> flen f = unat (f_pData f ! 1) + 2 \<and> flen f \<le> length (f_pData f) \<and> 3 \<le> length (f_pData f) \<and>
     f_pData f ! 0 AND 0x3 = 0x3"

text \<open>What is noted of a data PDU: its direction and flag, and the anchor if it is the first of an event.\<close>

definition noted :: "fw \<Rightarrow> fw \<Rightarrow> bool" where
  "noted st st' \<longleftrightarrow> st' = st\<lparr>g_pkt_dir := g_pkt_dir st', moreData := moreData st', hw_trace := hw_trace st',
     anchorOffset := anchorOffset st', aoInd := aoInd st', firstPacket := firstPacket st', timeDelta := timeDelta st',
     intervalTicks := intervalTicks st', itInd := itInd st', lastAnchorTicks := lastAnchorTicks st'\<rparr>"

lemma notedE:
  assumes "noted st st'"
  obtains dir md tr ao ai fp td it ii lt where "st' = st\<lparr>g_pkt_dir := dir, moreData := md, hw_trace := tr, anchorOffset := ao,
    aoInd := ai, firstPacket := fp, timeDelta := td, intervalTicks := it, itInd := ii, lastAnchorTicks := lt\<rparr>"
  using assms that unfolding noted_def by blast

lemma last_rconf_noted: "noted st st' \<Longrightarrow> last_rconf st' = last_rconf st"
  by (erule notedE) (simp add: last_rconf_def cong: option.case_cong)

lemma sync_anchor_noted:
  assumes "unat (aoInd st) < length (anchorOffset st)"
  shows "\<exists>st'. sync_anchor f st = Some st' \<and> noted st st'"
  using assms by (simp add: sync_anchor_def noted_def Let_def)

lemma react_control_pdu:
  assumes "control_pdu f" "arrays_ok st"
  shows "\<exists>st'. noted st st' \<and> reactToDataPDU f transmit st =
    (if ll_encryption st then react_encrypted f (f_pData f ! 1) (last_rconf st) st'
     else react_control f (f_pData f ! 2) (f_pData f ! 1) (last_rconf st) st')"
proof -
  define h n opc where "h = f_pData f ! 0" and "n = f_pData f ! 1" and "opc = f_pData f ! 2"
  obtain st0 where st0: "(if firstPacket st \<and> \<not> transmit then sync_anchor f st else Some st) = Some st0" "noted st st0"
    using sync_anchor_noted [of st f] assms(2) by (cases "firstPacket st \<and> \<not> transmit") (auto simp: arrays_ok_def noted_def)
  define st1 where "st1 = (if snifferState st0 = DATA then st0\<lparr>g_pkt_dir := g_pkt_dir st0 XOR 1\<rparr> else st0)"
  define st2 where "st2 = (if h AND 0x10 = 0
    then st1\<lparr>moreData := moreData st1 AND NOT (push_bit (unat (g_pkt_dir st1)) 1)\<rparr> else st1)"
  define st3 where "st3 = (if ll_encryption st2 \<and> instaHop st2 \<and> moreData st2 = 0 \<and> snifferState st2 = DATA
    then RadioWrapper_stop st2 else st2)"
  have "noted st0 st3"
    by (simp add: noted_def st3_def st2_def st1_def RadioWrapper_stop_def emit_def)
  then have st3: "noted st st3"
    using st0(2) by (elim notedE) (simp add: noted_def)
  then have "ll_encryption st3 = ll_encryption st" "last_rconf st3 = last_rconf st"
    by (auto elim: notedE simp: last_rconf_noted)
  moreover have reads: "rd (f_pData f) 0 = Some h" "rd (f_pData f) 1 = Some n" "rd (f_pData f) 2 = Some opc"
    using assms(1) unfolding h_def n_def opc_def by (auto simp: control_pdu_def intro!: rd_Some)
  moreover have "\<not> flen f < 2" "\<not> h AND 0x3 \<noteq> 0x3" "\<not> int (flen f) - 2 \<noteq> int (unat n)"
    using assms(1) by (simp_all add: control_pdu_def h_def n_def)
  then have "reactToDataPDU f transmit st =
      (if ll_encryption st3 then react_encrypted f n (last_rconf st3) st3 else react_control f opc n (last_rconf st3) st3)"
    unfolding reactToDataPDU_def st0(1) reads bind.bind_lunit Let_def st1_def [symmetric] st2_def [symmetric] st3_def [symmetric]
    by (simp only: if_False simp_thms)
  ultimately show ?thesis
    using st3 by (auto simp: n_def opc_def)
qed

text \<open>A link on the channels 0 to 4, for the examples.\<close>

definition example_link :: fw where
  "example_link = (fw_init \<lparr>tickPeriod = 10, txPowerTable = []\<rparr> (\<lambda>_. 0))
     \<lparr>rconf := rconf_init\<lparr>chanMap := 0x1F, hopIntervalTicks := 96000\<rparr>, hopIncrement := 7,
      mapping_table := the (computeMap1 0x1F)\<rparr>"

lemma example_link_ok:
  "link_ok example_link" "conf_items (rconf_queue example_link) = []" "rconf example_link = rconf_init\<lparr>chanMap := 0x1F, hopIntervalTicks := 96000\<rparr>"
  "\<not> use_csa2 example_link" "arrays_ok example_link" "\<not> ll_encryption example_link" "connEventCount example_link = 0"
  "hopIncrement example_link = 7" "curUnmapped example_link = 0" "map_usable 0x1F"
proof -
  have usable: "map_usable 0x1F"
    using used_channels_low by (simp add: map_usable_def)
  obtain table where "computeMap1 0x1F = Some table"
    using computeMap1_defined [OF usable] by blast
  then show "link_ok example_link"
    by (simp add: link_ok_def tables_ok_def example_link_def fw_init_def conf_queue_ok_def ring_size_def
        csa2_ok_def csa2_init_def)
qed (use used_channels_low in \<open>simp_all add: example_link_def fw_init_def rconf_init_def conf_items_def
      ring_list_empty_iff map_usable_def arrays_ok_def\<close>)

section \<open>Properties\<close>

text \<open>
  C6. \<open>next_event\<close> implements the abstract link over any number of events between which nothing
  else happens: from a state whose tables belong to its channel map, with only usable maps
  waiting if algorithm #1 is in use, the code reaches a state of the same kind whose counter,
  unmapped channel, time, parameters and waiting changes are those of the link.  Its time goes on
  by the interval, by the window offset of a change, and, for a peripheral or observer that knows
  the interval, at every fourth event by what the middle one of the last four anchors was late.
\<close>

theorem next_events_refine:
  assumes "link_ok st" "use_csa2 st \<or> (\<forall>x\<in>set (conf_items (rconf_queue st)). map_usable (chanMap (snd x)))"
  shows "\<exists>st'. next_events peripheral k st = Some st' \<and> link_ok st' \<and>
    link_of st' = link_run peripheral (anchorOffset st) (unat (hopIncrement st)) k (link_of st)"
  using next_events_link [OF assms, of peripheral k] by blast

lemma next_events_refine_witness:
  "\<exists>st'. next_events True 3 example_link = Some st' \<and>
     link_of st' = link_run True (anchorOffset example_link) 7 3 (link_of example_link)"
  using next_events_refine [OF example_link_ok(1), of True 3] example_link_ok(2,8) by auto

text \<open>
  C7. With no change waiting and a map that names a channel, the k-th event from now is on the
  channel that the channel selection algorithm in use gives for that event and the map, which is a
  used channel.  It is k hop intervals away, and for a peripheral or observer that knows the
  interval as many corrections of the anchor away as there are multiples of four among the
  counters of these events.
\<close>

theorem event_channels:
  assumes "link_ok st" "conf_items (rconf_queue st) = []" "map_usable (chanMap (rconf st))"
  shows "\<exists>st' ch. next_events peripheral k st = Some st' \<and> getCurrChan st' = Some ch \<and>
    unat ch \<in> set (used_channels (chanMap (rconf st))) \<and>
    unat ch = (if use_csa2 st
      then csa2_select (chanMap (rconf st))
        (csa2_eprn (ucast (accessAddress st) XOR ucast (drop_bit 16 (accessAddress st))) (ucast (connEventCount st) + of_nat k))
      else csa1_select (chanMap (rconf st)) ((unat (curUnmapped st) + k * unat (hopIncrement st)) mod 37)) \<and>
    nextHopTime st' = nextHopTime st + of_nat k * hopIntervalTicks (rconf st) +
      (if peripheral \<and> intervalCertain (rconf st)
       then of_nat (corrections (connEventCount st) k) * (fst (median (anchorOffset st)) - AO_TARG) else 0)"
proof -
  obtain st' where st': "next_events peripheral k st = Some st'" "link_ok st'" "same_link st st'"
    "link_of st' = link_run peripheral (anchorOffset st) (unat (hopIncrement st)) k (link_of st)"
    using next_events_link [OF assms(1), of peripheral k] assms(2) by auto
  have "lk_waiting (link_of st) = []" "lk_unmapped (link_of st) < 37"
    using assms(1,2) by (simp_all add: link_of_def link_ok_def)
  note run = st'(4) [unfolded link_run_quiet [OF this]]
  then have conf: "rconf st' = rconf st"
    by (simp add: link_of_def)
  then obtain ch where "getCurrChan st' = Some ch" "unat ch = link_channel (use_csa2 st') (accessAddress st') (link_of st')"
    using getCurrChan_link [OF st'(2)] assms(3) by auto
  moreover have "link_channel (use_csa2 st') (accessAddress st') (link_of st') \<in> set (used_channels (chanMap (rconf st)))"
    using link_channel_used [of "link_of st'"] assms(3) conf by (simp add: link_of_def)
  moreover have "link_channel (use_csa2 st') (accessAddress st') (link_of st') = (if use_csa2 st
      then csa2_select (chanMap (rconf st))
        (csa2_eprn (ucast (accessAddress st) XOR ucast (drop_bit 16 (accessAddress st))) (ucast (connEventCount st) + of_nat k))
      else csa1_select (chanMap (rconf st)) ((unat (curUnmapped st) + k * unat (hopIncrement st)) mod 37))"
    using st'(3) unfolding run by (simp add: link_channel_def same_link_def link_of_def counter_add counter_of_nat)
  moreover have "nextHopTime st' = nextHopTime st + of_nat k * hopIntervalTicks (rconf st) +
      (if peripheral \<and> intervalCertain (rconf st)
       then of_nat (corrections (connEventCount st) k) * (fst (median (anchorOffset st)) - AO_TARG) else 0)"
    using arg_cong [OF run, of lk_time] by (simp add: link_of_def)
  ultimately show ?thesis
    using st'(1) by auto
qed

lemma event_channels_witness:
  "\<exists>st' ch. next_events False 2 example_link = Some st' \<and> getCurrChan st' = Some ch \<and> unat ch = csa1_select 0x1F 14 \<and>
     nextHopTime st' = nextHopTime example_link + 192000"
  using event_channels [OF example_link_ok(1,2), of False 2] example_link_ok(3,4,8,9,10) by auto

text \<open>
  A readable LL_CHANNEL_MAP_IND for an instant fewer than 32768 events ahead, received with
  no other change waiting, takes effect exactly at its instant: every event before it uses the
  old map, every event from it on the new one, and all of them a channel of their map.
\<close>

theorem channel_map_update_at_instant:
  assumes "link_ok st" "conf_items (rconf_queue st) = []" "map_usable (chanMap (rconf st))"
    and "arrays_ok st" "\<not> ll_encryption st"
    and "flen f = 10" "10 \<le> length (f_pData f)" "f_pData f ! 0 AND 0x3 = 0x3" "f_pData f ! 1 = 8" "f_pData f ! 2 = 0x01"
    and "le16 (f_pData f ! 8) (f_pData f ! 9) = ucast (connEventCount st) + of_nat d" "0 < d" "d < 0x8000"
    and "map_usable (map_at (f_pData f) 3)"
  shows "\<exists>st1. reactToDataPDU f transmit st = Some st1 \<and>
    (\<forall>k. \<exists>st' ch. next_events peripheral k st1 = Some st' \<and> getCurrChan st' = Some ch \<and>
       chanMap (rconf st') = (if k < d then chanMap (rconf st) else map_at (f_pData f) 3) \<and>
       unat ch \<in> set (used_channels (chanMap (rconf st'))))"
proof -
  define e where "e = (rconf st)\<lparr>chanMap := map_at (f_pData f) 3, chanMapCertain := True, rc_offset := 0\<rparr>"
  have q: "conf_queue_ok (rconf_queue st)"
    using assms(1) by (simp add: link_ok_def)
  have "last_rconf st = rconf st"
    using assms(2) q by (simp add: last_rconf_def rconf_latest_items)
  then have ind: "channel_map_ind f (last_rconf st) st0 = Some (enqueue_conf (ucast (connEventCount st) + of_nat d) e st0)" for st0
    using assms(6,7,11) by (simp add: channel_map_ind_def map_at_def e_def)
  have "control_pdu f"
    using assms(6-9) by (simp add: control_pdu_def)
  then obtain st0 where st0: "noted st st0" "reactToDataPDU f transmit st =
      (if ll_encryption st then react_encrypted f (f_pData f ! 1) (last_rconf st) st0
       else react_control f (f_pData f ! 2) (f_pData f ! 1) (last_rconf st) st0)"
    using react_control_pdu assms(4) by blast
  have react: "reactToDataPDU f transmit st = Some (enqueue_conf (ucast (connEventCount st) + of_nat d) e st0)"
    unfolding st0(2) using assms(5,9,10) by (simp add: react_control_def ind)
  define st1 where "st1 = enqueue_conf (ucast (connEventCount st) + of_nat d) e st0"
  obtain dir md tr ao ai fp td it ii lt where "st0 = st\<lparr>g_pkt_dir := dir, moreData := md, hw_trace := tr, anchorOffset := ao,
      aoInd := ai, firstPacket := fp, timeDelta := td, intervalTicks := it, itInd := ii, lastAnchorTicks := lt\<rparr>"
    by (rule notedE [OF st0(1)])
  note st1_eq = st1_def [unfolded this]
  have ok: "link_ok st1" and waiting: "conf_items (rconf_queue st1) = [(ucast (connEventCount st) + of_nat d, e)]"
    using assms(1,2) q by (simp_all add: st1_eq enqueue_conf_def link_ok_def tables_ok_def conf_queue_ok_enqueue conf_items_enqueue)
  have "\<exists>st' ch. next_events peripheral k st1 = Some st' \<and> getCurrChan st' = Some ch \<and>
       chanMap (rconf st') = (if k < d then chanMap (rconf st) else map_at (f_pData f) 3) \<and>
       unat ch \<in> set (used_channels (chanMap (rconf st')))" for k
  proof -
    obtain st' where st': "next_events peripheral k st1 = Some st'" "link_ok st'"
      "link_of st' = link_run peripheral (anchorOffset st1) (unat (hopIncrement st1)) k (link_of st1)"
      using next_events_link [OF ok, of peripheral k] waiting assms(14) by (auto simp: e_def)
    have "lk_conf (link_of st') = (if k < d then lk_conf (link_of st1) else e)"
      unfolding st'(3) using waiting assms(1,12,13)
      by (intro link_run_change [THEN conjunct2, THEN conjunct2, THEN conjunct1])
        (simp_all add: link_of_def st1_eq enqueue_conf_def link_ok_def)
    then have conf: "chanMap (rconf st') = (if k < d then chanMap (rconf st) else map_at (f_pData f) 3)"
      by (simp add: link_of_def st1_eq enqueue_conf_def e_def)
    then have usable: "map_usable (chanMap (rconf st'))"
      using assms(3,14) by simp
    then show ?thesis
      using getCurrChan_link [OF st'(2)] link_channel_used [of "link_of st'"] st'(1) conf
      by (auto simp: link_of_def)
  qed
  then show ?thesis
    using react by (auto simp: st1_def)
qed

lemma channel_map_update_at_instant_witness:
  "\<exists>st1. reactToDataPDU ((frame_init\<lparr>f_length := 10\<rparr>)\<lparr>f_pData := [3, 8, 1, 1, 0, 0, 0, 0, 6, 0]\<rparr>) False example_link = Some st1 \<and>
     (\<exists>st' ch. next_events True 6 st1 = Some st' \<and> getCurrChan st' = Some ch \<and> unat ch = 0)"
proof -
  let ?f = "(frame_init\<lparr>f_length := 10\<rparr>)\<lparr>f_pData := [3, 8, 1, 1, 0, 0, 0, 0, 6, 0]\<rparr>"
  have m: "map_at (f_pData ?f) 3 = 1"
    by (simp add: map_at_def le40_def)
  have u: "used_channels 1 = [0]"
    by (simp add: used_channels_def upt_rec bit_1_iff)
  have "\<exists>st1. reactToDataPDU ?f False example_link = Some st1 \<and>
    (\<forall>k. \<exists>st' ch. next_events True k st1 = Some st' \<and> getCurrChan st' = Some ch \<and>
       chanMap (rconf st') = (if k < 6 then chanMap (rconf example_link) else map_at (f_pData ?f) 3) \<and>
       unat ch \<in> set (used_channels (chanMap (rconf st'))))"
    by (rule channel_map_update_at_instant [where d = 6])
      (use example_link_ok m u in \<open>simp_all add: flen_def le16_def map_usable_def\<close>)
  then obtain st1 st' ch where "reactToDataPDU ?f False example_link = Some st1" "next_events True 6 st1 = Some st'"
    "getCurrChan st' = Some ch" "unat ch \<in> set (used_channels 1)"
    using m by fastforce
  then show ?thesis
    using u by auto
qed

end
