(* ===== verification/Conn_Start.thy ===== *)
theory Conn_Start
  imports Link_Spec
begin

text \<open>
  The start and the end of a connection: a connection request in the format of the air
  protocol, the link \<open>handleConnReq\<close> makes of it, what ends a link and what does not, and the
  changes of parameters the two sides agree on.
\<close>

unbundle bit_operations_syntax

section \<open>The LL data of a connection request\<close>

record ll_data =
  ll_aa :: u32
  ll_crc :: u32
  ll_winSize :: u8
  ll_winOffset :: u16
  ll_interval :: u16
  ll_latency :: u16
  ll_timeout :: u16
  ll_map :: u64
  ll_hop :: u8
  ll_sca :: u8

definition bytes24 :: "u32 \<Rightarrow> u8 list" where
  "bytes24 w = [ucast w, ucast (drop_bit 8 w), ucast (drop_bit 16 w)]"

definition bytes40 :: "u64 \<Rightarrow> u8 list" where
  "bytes40 w = [ucast w, ucast (drop_bit 8 w), ucast (drop_bit 16 w), ucast (drop_bit 24 w), ucast (drop_bit 32 w)]"

definition ll_bytes :: "ll_data \<Rightarrow> u8 list" where
  "ll_bytes d = bytes32 (ll_aa d) @ bytes24 (ll_crc d) @ [ll_winSize d] @ bytes16 (ll_winOffset d) @
     bytes16 (ll_interval d) @ bytes16 (ll_latency d) @ bytes16 (ll_timeout d) @ bytes40 (ll_map d) @
     [ll_hop d OR push_bit 5 (ll_sca d)]"

text \<open>The fields have their widths on the air.\<close>

definition ll_ok :: "ll_data \<Rightarrow> bool" where
  "ll_ok d \<longleftrightarrow> take_bit 24 (ll_crc d) = ll_crc d \<and> take_bit 40 (ll_map d) = ll_map d \<and> take_bit 5 (ll_hop d) = ll_hop d"

lemma take_bit_nth: "take_bit k w = w \<Longrightarrow> bit w n \<Longrightarrow> n < k" for w :: "'a :: len word"
  by (metis bit_take_bit_iff)

lemma le16_bytes: "le16 (ucast w) (ucast (drop_bit 8 w)) = w"
  using le16_bytes16 [of w] by (simp add: bytes16_def)

lemma le32_bytes: "le32 (ucast w) (ucast (drop_bit 8 w)) (ucast (drop_bit 16 w)) (ucast (drop_bit 24 w)) = w"
  using le32_bytes32 [of w] by (simp add: bytes32_def)

lemma le32_crc:
  assumes "take_bit 24 w = w"
  shows "le32 (ucast w) (ucast (drop_bit 8 w)) (ucast (drop_bit 16 w)) x AND 0xFFFFFF = w"
proof (rule bit_word_eqI)
  have mask: "(0xFFFFFF :: u32) = mask 24"
    by (simp add: mask_eq_exp_minus_1)
  fix n assume "n < LENGTH(32)"
  then show "bit (le32 (ucast w) (ucast (drop_bit 8 w)) (ucast (drop_bit 16 w)) x AND 0xFFFFFF) n = bit w n"
    unfolding mask using take_bit_nth [OF assms, of n]
    by (cases "n < 8"; cases "n < 16"; cases "n < 24") (auto simp: le32_def bit_simps)
qed

lemma le40_bytes:
  assumes "take_bit 40 w = w"
  shows "le40 (ucast w) (ucast (drop_bit 8 w)) (ucast (drop_bit 16 w)) (ucast (drop_bit 24 w)) (ucast (drop_bit 32 w)) = w"
proof (rule bit_word_eqI)
  fix n assume "n < LENGTH(64)"
  then show "bit (le40 (ucast w) (ucast (drop_bit 8 w)) (ucast (drop_bit 16 w)) (ucast (drop_bit 24 w)) (ucast (drop_bit 32 w))) n = bit w n"
    using take_bit_nth [OF assms, of n]
    by (cases "n < 8"; cases "n < 16"; cases "n < 24"; cases "n < 32"; cases "n < 40") (auto simp: le40_def bit_simps)
qed

lemma hop_bits:
  assumes "take_bit 5 w = w"
  shows "(w OR push_bit 5 s) AND 0x1F = (w :: u8)" "unat w < 32"
proof -
  have mask: "(0x1F :: u8) = mask 5"
    by (simp add: mask_eq_exp_minus_1)
  show "(w OR push_bit 5 s) AND 0x1F = w"
    unfolding mask by (rule bit_word_eqI) (use take_bit_nth [OF assms] in \<open>auto simp: bit_simps\<close>)
  have "unat (take_bit 5 w) < 32"
    using take_bit_nat_less_exp [of 5 "unat w"] by (subst unsigned_take_bit_eq) simp
  then show "unat w < 32"
    using assms by simp
qed

text \<open>What the code reads at its offsets.\<close>

lemma ll_bytes_reads:
  assumes "ll_ok d"
  shows "rd32 (ll_bytes d) 0 = Some (ll_aa d)" "\<exists>crc. rd32 (ll_bytes d) 4 = Some crc \<and> crc AND 0xFFFFFF = ll_crc d"
    "rd16 (ll_bytes d) 8 = Some (ll_winOffset d)" "rd16 (ll_bytes d) 10 = Some (ll_interval d)"
    "rd16 (ll_bytes d) 12 = Some (ll_latency d)" "rd16 (ll_bytes d) 14 = Some (ll_timeout d)"
    "rd40 (ll_bytes d) 16 = Some (ll_map d)" "\<exists>h. rd (ll_bytes d) 21 = Some h \<and> h AND 0x1F = ll_hop d"
  using assms
  by (simp_all add: ll_bytes_def bytes32_def bytes24_def bytes16_def bytes40_def le16_bytes le32_bytes le32_crc le40_bytes
      hop_bits ll_ok_def)

section \<open>The link of a connection request\<close>

definition start_link :: "phy_mode \<Rightarrow> u32 \<Rightarrow> bool \<Rightarrow> u16 \<Rightarrow> ll_data \<Rightarrow> link" where
  "start_link phy t aux offset d =
     \<lparr>lk_count = 0, lk_unmapped = unat (ll_hop d),
      lk_time = t + (transmit_window_delay aux phy - AO_TARG) + ucast (ll_winOffset d) * 5000 + ucast (ll_interval d) * 5000,
      lk_conf = \<lparr>chanMap = ll_map d, hopIntervalTicks = ucast (ll_interval d) * 5000,
        connTimeoutTicks = ucast (ll_timeout d) * 40000, rc_offset = offset, peripheralLatency = ll_latency d,
        rc_phy = phy, intervalCertain = True, chanMapCertain = True, winOffsetCertain = True\<rparr>,
      lk_waiting = []\<rparr>"

lemma handleConnReq_link:
  assumes "ll_ok d" "conf_queue_ok (rconf_queue st)" "csa2_ok (csa2_st st)" "use_csa2 st \<or> map_usable (ll_map d)"
  shows "\<exists>st'. handleConnReq phy t (ll_bytes d) aux st = Some st' \<and> link_ok st' \<and>
    accessAddress st' = ll_aa d \<and> crcInit st' = ll_crc d \<and> hopIncrement st' = ll_hop d \<and> use_csa2 st' = use_csa2 st \<and>
    \<not> ll_encryption st' \<and> link_of st' = start_link phy t aux (rc_offset (rconf st)) d"
proof -
  obtain crc h where rd: "rd32 (ll_bytes d) 4 = Some crc" "crc AND 0xFFFFFF = ll_crc d"
    "rd (ll_bytes d) 21 = Some h" "h AND 0x1F = ll_hop d"
    using ll_bytes_reads(2,8) [OF assms(1)] by blast
  note reads = ll_bytes_reads(1,3-7) [OF assms(1)] rd(1,3)
  define st1 where "st1 = st\<lparr>accessAddress := ll_aa d, hopIncrement := ll_hop d, crcInit := ll_crc d,
    ll_encryption := False, curUnmapped := ll_hop d, rconf := (rconf st)\<lparr>chanMap := ll_map d, chanMapCertain := True\<rparr>\<rparr>"
  have "\<exists>st2. computeMaps st1 = Some st2"
    using assms(4) computeMap1_defined [of "ll_map d"] by (auto simp: computeMaps_def st1_def)
  then obtain st2 where st2: "computeMaps st1 = Some st2"
    by blast
  have tables: "tables_ok st2" "csa2_ok (csa2_st st2)" and
    eq: "st2 = st1\<lparr>csa2_st := csa2_st st2, mapping_table := mapping_table st2\<rparr>"
    using computeMaps_tables [OF st2] computeMaps_frame [OF st2] assms(3) by (simp_all add: st1_def)
  then obtain m tb where st2_eq: "st2 = st1\<lparr>csa2_st := m, mapping_table := tb\<rparr>"
    by blast
  have "unat (ll_hop d) < 37"
    using hop_bits(2) [of "ll_hop d"] assms(1) by (simp add: ll_ok_def)
  moreover have "handleConnReq phy t (ll_bytes d) aux st = Some (st2\<lparr>
      rconf := lk_conf (start_link phy t aux (rc_offset (rconf st)) d),
      nextHopTime := lk_time (start_link phy t aux (rc_offset (rconf st)) d),
      connTimeoutTime := lk_time (start_link phy t aux (rc_offset (rconf st)) d) + ucast (ll_interval d) * 5000 * 6,
      connEventCount := 0, preloadedParamIndex := 0, rconf_queue := rconf_reset (rconf_queue st)\<rparr>)"
    unfolding handleConnReq_def reads bind.bind_lunit Let_def rd(2,4) set_rconf_def
    by (simp add: st2 flip: st1_def) (simp add: st2_eq st1_def start_link_def)
  ultimately show ?thesis
    using tables assms(2) unfolding st2_eq st1_def
    by (cases "use_csa2 st")
      (simp_all add: link_ok_def conf_queue_ok_reset conf_items_reset link_of_def start_link_def tables_ok_def)
qed

section \<open>Control PDUs that change the parameters\<close>

text \<open>An LL_CONNECTION_UPDATE_IND, as the air protocol lays it out after the PDU header.\<close>

definition conn_update_bytes :: "u8 \<Rightarrow> u16 \<Rightarrow> u16 \<Rightarrow> u16 \<Rightarrow> u16 \<Rightarrow> u16 \<Rightarrow> u8 list" where
  "conn_update_bytes winSize offset interval latency timeout instant =
     [0x00, winSize] @ bytes16 offset @ bytes16 interval @ bytes16 latency @ bytes16 timeout @ bytes16 instant"

lemma length_conn_update_bytes [simp]: "length (conn_update_bytes w off i l t n) = 12"
  by (simp add: conn_update_bytes_def)

lemma enqueue_conf_items:
  "conf_queue_ok (rconf_queue st) \<Longrightarrow> conf_items (rconf_queue (enqueue_conf i c st)) =
     conf_items (rconf_queue st) @ (if length (conf_items (rconf_queue st)) < 7 then [(i, c)] else [])"
  by (simp add: enqueue_conf_def conf_items_enqueue)

section \<open>The end of a connection\<close>

text \<open>What reports and measurements leave alone.\<close>

definition same_conn :: "fw \<Rightarrow> fw \<Rightarrow> bool" where
  "same_conn st st' \<longleftrightarrow> snifferState st' = snifferState st \<and> connEventCount st' = connEventCount st \<and>
     connTimeoutTime st' = connTimeoutTime st"

lemma same_conn_refl [simp]: "same_conn st st"
  by (simp add: same_conn_def)

lemma same_conn_trans: "same_conn st st' \<Longrightarrow> same_conn st' st'' \<Longrightarrow> same_conn st st''"
  by (simp add: same_conn_def)

lemma same_conn_bind:
  "outcome True m (same_conn st) \<Longrightarrow> (\<And>st'. same_conn st st' \<Longrightarrow> outcome True (f st') (same_conn st)) \<Longrightarrow>
     outcome True (m \<bind> f) (same_conn st)"
  by (cases m) simp_all

lemma enqueueFrame_frame:
  "enqueueFrame f st = Some st' \<Longrightarrow>
     st' = st\<lparr>hw_trace := hw_trace st', s_frames := s_frames st', queue_head := queue_head st'\<rparr>"
  by (auto simp: enqueueFrame_def emit_def Let_def split: if_splits bind_splits)

lemma same_conn_enqueueFrame: "same_conn st0 st \<Longrightarrow> outcome True (enqueueFrame f st) (same_conn st0)"
proof (cases "enqueueFrame f st")
  case (Some st')
  assume "same_conn st0 st"
  moreover have "same_conn st st'"
    by (subst enqueueFrame_frame [OF Some]) (simp add: same_conn_def)
  ultimately show ?thesis
    using Some by (auto intro: same_conn_trans)
qed simp

lemma same_conn_reports:
  assumes "same_conn st0 st"
  shows "outcome True (reportMeasInterval i st) (same_conn st0)" "outcome True (reportMeasChanMap m st) (same_conn st0)"
    "outcome True (reportMeasWinOffset i st) (same_conn st0)" "outcome True (reportMeasDeltaInstant i st) (same_conn st0)"
  using assms
  by (simp_all add: reportMeasInterval_def reportMeasChanMap_def reportMeasWinOffset_def reportMeasDeltaInstant_def
      reportMeasurement_def same_conn_enqueueFrame)

lemma same_conn_set_rconf [simp]: "same_conn st0 (set_rconf f st) = same_conn st0 st"
  by (simp add: same_conn_def set_rconf_def)

lemma same_conn_computeMaps: "same_conn st0 st \<Longrightarrow> outcome True (computeMaps st) (same_conn st0)"
  by (cases "computeMap1 (chanMap (rconf st))") (auto simp: computeMaps_def same_conn_def)

lemma same_conn_updates [simp]:
  "same_conn st0 (st\<lparr>chanMapTestMask := v\<rparr>) = same_conn st0 st" "same_conn st0 (st\<lparr>nextHopTime := t\<rparr>) = same_conn st0 st"
  "same_conn st0 (st\<lparr>lastAnchorTicks := t\<rparr>) = same_conn st0 st" "same_conn st0 (st\<lparr>intervalTicks := l\<rparr>) = same_conn st0 st"
  "same_conn st0 (st\<lparr>anchorOffset := l\<rparr>) = same_conn st0 st" "same_conn st0 (st\<lparr>itInd := t\<rparr>) = same_conn st0 st"
  by (simp_all add: same_conn_def)

lemma same_conn_measure_chanMap: "outcome True (measure_chanMap st) (same_conn st)"
  unfolding measure_chanMap_def Let_def
  by (cases "getCurrChan st") (auto intro!: same_conn_bind same_conn_computeMaps same_conn_reports)

lemma same_conn_measure_interval: "same_conn st0 st \<Longrightarrow> outcome True (measure_interval st) (same_conn st0)"
  unfolding measure_interval_def measure_winOffset_def measure_median_def Let_def
  by (auto simp: median_def Let_def intro!: same_conn_bind same_conn_reports)

lemma next_event_conn:
  assumes "next_event peripheral st = Some st'"
  shows "snifferState st' = snifferState st \<and> connEventCount st' = connEventCount st + 1 \<and> connTimeoutTime st' = connTimeoutTime st"
proof -
  obtain changed c q where d: "rconf_dequeue (ucast (connEventCount st + 1)) (rconf st) (rconf_queue st) = (changed, c, q)"
    by (metis prod_cases3)
  define st1 where "st1 = st\<lparr>curUnmapped := of_nat ((unat (curUnmapped st) + unat (hopIncrement st)) mod 37),
    connEventCount := connEventCount st + 1, rconf := c, rconf_queue := q\<rparr>"
  obtain st2 where st2: "st' = event_tail peripheral changed st2"
    "(if changed then computeMaps (st1\<lparr>nextHopTime := nextHopTime st + ucast (rc_offset c) * 5000\<rparr>) else Some st1) = Some st2"
    using assms next_event_shape [OF d, of peripheral] unfolding st1_def [symmetric] by (cases changed) auto
  have "snifferState st2 = snifferState st1 \<and> connEventCount st2 = connEventCount st1 \<and> connTimeoutTime st2 = connTimeoutTime st1"
  proof (cases changed)
    case True
    then obtain m t where "st2 = st1\<lparr>nextHopTime := nextHopTime st + ucast (rc_offset c) * 5000, csa2_st := m, mapping_table := t\<rparr>"
      using st2(2) computeMaps_frame by fastforce
    then show ?thesis by simp
  qed (use st2(2) in simp)
  then show ?thesis
    by (simp add: st2(1) event_tail_def st1_def)
qed

text \<open>The state after a connection.\<close>

definition conn_over :: "fw \<Rightarrow> fw \<Rightarrow> bool" where
  "conn_over st st' \<longleftrightarrow> accessAddress st' = BLE_ADV_AA \<and> aux_events st' = [] \<and>
     snifferState st' = (if sniffDoneState st \<noteq> PAUSED \<and> advHopEnabled st then ADVERT_SEEK else sniffDoneState st)"

lemma stateTransition_frame:
  assumes "stateTransition s st = Some st'"
  shows "st' = st\<lparr>snifferState := s, hw_trace := hw_trace st', s_frames := s_frames st', queue_head := queue_head st'\<rparr>"
  using enqueueFrame_frame [OF assms [unfolded stateTransition_def]] by simp

lemma handleConnFinished_over:
  assumes "handleConnFinished st = Some st'"
  shows "conn_over st st'"
proof -
  obtain st1 where st1: "stateTransition (sniffDoneState st) st = Some st1"
    using assms by (auto simp: handleConnFinished_def split: bind_splits)
  obtain tr fs h where eq: "st1 = st\<lparr>snifferState := sniffDoneState st, hw_trace := tr, s_frames := fs, queue_head := h\<rparr>"
    using stateTransition_frame [OF st1] by metis
  show ?thesis
  proof (cases "sniffDoneState st \<noteq> PAUSED \<and> advHopEnabled st")
    case False
    then show ?thesis
      using assms st1 eq by (auto simp: handleConnFinished_def conn_over_def AuxAdvScheduler_reset_def Let_def)
  next
    case True
    define st2 where "st2 = (set_rconf (\<lambda>c. c\<lparr>hopIntervalTicks := 10 * 4000\<rparr>)
      (st1\<lparr>accessAddress := BLE_ADV_AA, aux_events := []\<rparr>))\<lparr>connEventCount := 0, fastAdvHop := False\<rparr>"
    have "stateTransition ADVERT_SEEK st2 \<bind>
        (\<lambda>st. Some (RadioWrapper_stop (st\<lparr>advHopEnabled := True, sniffScanRspLen := 26\<rparr>))) = Some st'"
      using assms st1 True eq
      by (simp add: handleConnFinished_def advHopSeekMode_def AuxAdvScheduler_reset_def Let_def st2_def)
    then obtain st3 where st3: "stateTransition ADVERT_SEEK st2 = Some st3"
      "st' = RadioWrapper_stop (st3\<lparr>advHopEnabled := True, sniffScanRspLen := 26\<rparr>)"
      by (auto split: bind_splits)
    obtain tr' fs' h' where "st3 = st2\<lparr>snifferState := ADVERT_SEEK, hw_trace := tr', s_frames := fs', queue_head := h'\<rparr>"
      using stateTransition_frame [OF st3(1)] by metis
    then show ?thesis
      using True by (simp add: conn_over_def st3(2) RadioWrapper_stop_def emit_def st2_def set_rconf_def)
  qed
qed

lemma stateTransition_defined:
  assumes "packet_queue_ok st"
  shows "\<exists>st'. stateTransition s st = Some st' \<and> packet_queue_ok st'"
proof -
  have "packet_queue_ok (st\<lparr>snifferState := s\<rparr>)"
    using assms by (simp add: packet_queue_ok_def)
  then show ?thesis
    using enqueueFrame_shape [of "st\<lparr>snifferState := s\<rparr>" "report_frame MSGCHAN_STATE 0 1 [state_code s]"]
    by (auto simp: stateTransition_def report_frame_def flen_def)
qed

lemma handleConnFinished_defined:
  assumes "packet_queue_ok st"
  shows "\<exists>st'. handleConnFinished st = Some st'"
proof -
  obtain st1 where st1: "stateTransition (sniffDoneState st) st = Some st1" "packet_queue_ok st1"
    using stateTransition_defined [OF assms] by blast
  define st2 where "st2 = (set_rconf (\<lambda>c. c\<lparr>hopIntervalTicks := 10 * 4000\<rparr>)
    (st1\<lparr>accessAddress := BLE_ADV_AA, aux_events := []\<rparr>))\<lparr>connEventCount := 0, fastAdvHop := False\<rparr>"
  have "packet_queue_ok st2"
    using st1(2) by (simp add: st2_def packet_queue_ok_def set_rconf_def)
  then obtain st3 where "stateTransition ADVERT_SEEK st2 = Some st3"
    using stateTransition_defined by blast
  then show ?thesis
    by (simp add: handleConnFinished_def st1(1) advHopSeekMode_def AuxAdvScheduler_reset_def Let_def st2_def)
qed

section \<open>Properties\<close>

text \<open>
  C9. A connection request of the air protocol makes the link it describes: access address,
  CRC seed, hop increment, channel map and the parameters are those sent, the first anchor is
  the transmit window offset plus one interval after the request's window delay, nothing is
  waiting, encryption is off, and the tables are those of the map.
\<close>

theorem handleConnReq_starts_link:
  assumes "ll_ok d" "conf_queue_ok (rconf_queue st)" "csa2_ok (csa2_st st)" "use_csa2 st \<or> map_usable (ll_map d)"
  shows "\<exists>st'. handleConnReq phy t (ll_bytes d) aux st = Some st' \<and> link_ok st' \<and>
    accessAddress st' = ll_aa d \<and> crcInit st' = ll_crc d \<and> hopIncrement st' = ll_hop d \<and> use_csa2 st' = use_csa2 st \<and>
    \<not> ll_encryption st' \<and> link_of st' = start_link phy t aux (rc_offset (rconf st)) d"
  by (rule handleConnReq_link [OF assms])

lemma handleConnReq_starts_link_witness:
  "\<exists>st'. handleConnReq PHY_1M 1000 (ll_bytes \<lparr>ll_aa = 0x12345678, ll_crc = 0xABCDEF, ll_winSize = 3, ll_winOffset = 2,
       ll_interval = 24, ll_latency = 0, ll_timeout = 100, ll_map = 0x1F, ll_hop = 7, ll_sca = 5\<rparr>) False example_link = Some st' \<and>
     link_ok st' \<and> crcInit st' = 0xABCDEF \<and> nextHopTime st' = 134000"
proof -
  let ?d = "\<lparr>ll_aa = 0x12345678, ll_crc = 0xABCDEF, ll_winSize = 3, ll_winOffset = 2,
    ll_interval = 24, ll_latency = 0, ll_timeout = 100, ll_map = 0x1F, ll_hop = 7, ll_sca = 5\<rparr>"
  have "\<exists>st'. handleConnReq PHY_1M 1000 (ll_bytes ?d) False example_link = Some st' \<and> link_ok st' \<and>
    accessAddress st' = ll_aa ?d \<and> crcInit st' = ll_crc ?d \<and> hopIncrement st' = ll_hop ?d \<and>
    use_csa2 st' = use_csa2 example_link \<and> \<not> ll_encryption st' \<and>
    link_of st' = start_link PHY_1M 1000 False (rc_offset (rconf example_link)) ?d"
    by (rule handleConnReq_starts_link)
      (use example_link_ok in \<open>simp_all add: ll_ok_def link_ok_def take_bit_eq_mod\<close>)
  then show ?thesis
    by (auto simp: link_of_def start_link_def transmit_window_delay_def)
qed

text \<open>
  C10. On a link that is not encrypted, an LL_CONNECTION_UPDATE_IND, the first packet of an event or
  not, received or transmitted, is queued last, for its instant, with its window offset, interval
  and timeout and the rest of the newest parameters; only if seven changes wait already it is
  dropped.  The latency queued is a second copy of the interval, not the latency that was sent.
\<close>

theorem connection_update_queued:
  assumes "conf_queue_ok (rconf_queue st)" "arrays_ok st" "\<not> ll_encryption st"
    and "f_pData f = [h, 12] @ conn_update_bytes w off interval latency timeout instant" "flen f = 14" "h AND 0x3 = 0x3"
  shows "\<exists>st'. reactToDataPDU f transmit st = Some st' \<and> conf_items (rconf_queue st') = conf_items (rconf_queue st) @
    (if length (conf_items (rconf_queue st)) < 7
     then [(instant, (last_rconf st)\<lparr>rc_offset := off, hopIntervalTicks := ucast interval * 5000, intervalCertain := True,
       winOffsetCertain := True, peripheralLatency := interval, connTimeoutTicks := ucast timeout * 40000\<rparr>)]
     else [])"
proof -
  have pdu: "control_pdu f" "f_pData f ! 1 = 12" "f_pData f ! 2 = 0"
    using assms(4-6) by (simp_all add: control_pdu_def conn_update_bytes_def)
  obtain st0 where react: "noted st st0" "reactToDataPDU f transmit st = conn_update_ind f (last_rconf st) st0"
    using react_control_pdu [OF pdu(1) assms(2)] assms(3) pdu(2,3) by (auto simp: react_control_def)
  have reads: "rd16 (f_pData f) 4 = Some off" "rd16 (f_pData f) 6 = Some interval" "rd16 (f_pData f) 10 = Some timeout"
    "rd16 (f_pData f) 12 = Some instant"
    using assms(4) by (simp_all add: conn_update_bytes_def bytes16_def le16_bytes)
  have "rconf_queue st0 = rconf_queue st"
    using react(1) by (auto elim: notedE)
  then show ?thesis
    using assms(1) by (simp add: react(2) conn_update_ind_def reads Let_def enqueue_conf_items)
qed

lemma connection_update_queued_witness:
  "\<exists>st' c. reactToDataPDU ((frame_init\<lparr>f_length := 14\<rparr>)\<lparr>f_pData := [3, 12] @ conn_update_bytes 1 0 40 9 200 77\<rparr>) False
     example_link = Some st' \<and> conf_items (rconf_queue st') = [(77, c)] \<and> peripheralLatency c = 40"
proof -
  let ?f = "(frame_init\<lparr>f_length := 14\<rparr>)\<lparr>f_pData := [3, 12] @ conn_update_bytes 1 0 40 9 200 77\<rparr>"
  note link = example_link_ok(1,2,5,6)
  have "conf_queue_ok (rconf_queue example_link)"
    using link(1) by (simp add: link_ok_def)
  from connection_update_queued [OF this link(3,4), of ?f 3 1 0 40 9 200 77 False] show ?thesis
    using link(2) by (auto simp: flen_def)
qed

text \<open>
  C11. On a link that is not encrypted, an LL_TERMINATE_IND, the first packet of an event or not,
  received or transmitted, ends the connection: the sniffer goes back to the advertising access
  address with nothing auxiliary scheduled, and to the state chosen for the end of a connection,
  except that it seeks the hop interval if it was hopping along and is not to pause.
\<close>

theorem terminate_ends_connection:
  assumes "packet_queue_ok st" "arrays_ok st" "\<not> ll_encryption st"
    and "control_pdu f" "f_pData f ! 1 = 2" "f_pData f ! 2 = 0x02"
  shows "\<exists>st'. reactToDataPDU f transmit st = Some st' \<and> accessAddress st' = BLE_ADV_AA \<and> aux_events st' = [] \<and>
    snifferState st' = (if sniffDoneState st \<noteq> PAUSED \<and> advHopEnabled st then ADVERT_SEEK else sniffDoneState st)"
proof -
  obtain st0 where st0: "noted st st0" "reactToDataPDU f transmit st = handleConnFinished st0"
    using react_control_pdu [OF assms(4,2)] assms(3,5,6) by (auto simp: react_control_def)
  have "packet_queue_ok st0"
    using st0(1) assms(1) by (auto elim: notedE simp: packet_queue_ok_def)
  then obtain st' where "handleConnFinished st0 = Some st'" "conn_over st0 st'"
    using handleConnFinished_defined handleConnFinished_over by blast
  then show ?thesis
    using st0 by (auto elim!: notedE simp: conn_over_def)
qed

lemma terminate_ends_connection_witness:
  "\<exists>st'. reactToDataPDU ((frame_init\<lparr>f_length := 4\<rparr>)\<lparr>f_pData := [3, 2, 2, 0x13]\<rparr>) False example_link = Some st' \<and>
     accessAddress st' = BLE_ADV_AA \<and> snifferState st' = STATIC"
proof -
  have "packet_queue_ok example_link" "sniffDoneState example_link = STATIC" "\<not> advHopEnabled example_link"
    by (simp_all add: example_link_def fw_init_def packet_queue_ok_def frame_init_def ring_size_def)
  then show ?thesis
    using terminate_ends_connection [of example_link "(frame_init\<lparr>f_length := 4\<rparr>)\<lparr>f_pData := [3, 2, 2, 0x13]\<rparr>" False]
      example_link_ok(5,6) by (auto simp: control_pdu_def flen_def conn_over_def)
qed

text \<open>
  C12. After a connection event without a packet and with the supervision timeout passed, the
  connection is over; otherwise the sniffer stays in its mode, counts one event, and restarts
  the timeout exactly when it got a packet.
\<close>

theorem afterConnEvent_supervises:
  assumes "afterConnEvent peripheral gotData st = Some st'"
  shows "if \<not> gotData \<and> connTimeoutTime st - rf_clock st (clock_reads st) > 0x80000000
    then conn_over st st'
    else snifferState st' = snifferState st \<and> connEventCount st' = connEventCount st + 1 \<and>
      connTimeoutTime st' = (if gotData then rf_clock st (clock_reads st) + connTimeoutTicks (rconf st) else connTimeoutTime st)"
proof -
  define now where "now = rf_clock st (clock_reads st)"
  define st0 where "st0 = st\<lparr>clock_reads := Suc (clock_reads st)\<rparr>"
  have clock: "RF_getCurrentTime st = (now, st0)"
    by (simp add: RF_getCurrentTime_def now_def st0_def)
  have same: "conn_over st0 st' = conn_over st st'" "connTimeoutTime st0 = connTimeoutTime st"
    by (simp_all add: st0_def conn_over_def)
  show ?thesis
  proof (cases "\<not> gotData \<and> connTimeoutTime st - now > 0x80000000")
    case True
    then have "handleConnFinished st0 = Some st'"
      using assms by (simp add: afterConnEvent_def clock same(2))
    then show ?thesis
      using True handleConnFinished_over same(1) by (simp add: now_def)
  next
    case False
    define st1 where "st1 = (if gotData then st0\<lparr>connTimeoutTime := now + connTimeoutTicks (rconf st0)\<rparr> else st0)"
    have "afterConnEvent peripheral gotData st =
        (if \<not> chanMapCertain (rconf st1) \<and> peripheral then measure_chanMap st1 else Some st1) \<bind>
        (\<lambda>st. (if peripheral \<and> instaHop st then measure_interval st else Some st) \<bind> next_event peripheral)"
      unfolding afterConnEvent_def clock Let_def prod.case same(2) st1_def if_not_P [OF False] by simp
    then obtain st2 st3 where steps: "(if \<not> chanMapCertain (rconf st1) \<and> peripheral then measure_chanMap st1 else Some st1) = Some st2"
      "(if peripheral \<and> instaHop st2 then measure_interval st2 else Some st2) = Some st3" "next_event peripheral st3 = Some st'"
      using assms by (auto split: bind_splits)
    have "same_conn st1 st2"
      using steps(1) outcome_preserved [OF same_conn_measure_chanMap] by (auto split: if_splits)
    then have "same_conn st1 st3"
      using steps(2) outcome_preserved [OF same_conn_measure_interval] by (auto split: if_splits)
    then show ?thesis
      using False next_event_conn [OF steps(3)] by (auto simp: same_conn_def st1_def st0_def now_def)
  qed
qed

lemma afterConnEvent_supervises_witness:
  "\<exists>st'. afterConnEvent False False (example_link\<lparr>snifferState := DATA, connTimeoutTime := 0xFFFFFFFF\<rparr>) = Some st' \<and>
     snifferState st' = STATIC"
proof -
  let ?st = "example_link\<lparr>snifferState := DATA, connTimeoutTime := 0xFFFFFFFF\<rparr>"
  have st: "packet_queue_ok ?st" "sniffDoneState ?st = STATIC" "\<not> advHopEnabled ?st" "rf_clock ?st = (\<lambda>_. 0)"
    by (simp_all add: example_link_def fw_init_def packet_queue_ok_def frame_init_def ring_size_def)
  have "packet_queue_ok (?st\<lparr>clock_reads := Suc (clock_reads ?st)\<rparr>)"
    using st(1) by (simp add: packet_queue_ok_def)
  then obtain st' where st': "afterConnEvent False False ?st = Some st'"
    using handleConnFinished_defined st(4) by (auto simp: afterConnEvent_def RF_getCurrentTime_def)
  then show ?thesis
    using afterConnEvent_supervises [OF st'] st by (auto simp: conn_over_def)
qed

end
