(* ===== verification/Radio_Safe.thy ===== *)
theory Radio_Safe
  imports Radio_Inv
begin

text \<open>
  The invariant through the handlers that frames, commands and the main loop enter:
  \<open>indicatePacket\<close> with everything a frame can set off, \<open>command_dispatch\<close>, and \<open>loop_resume\<close>.
  For each the conditions are stated under which it also stays inside the C standard.
\<close>

unbundle bit_operations_syntax

section \<open>Data channel PDUs\<close>

text \<open>The buffer of a frame holds what the frame claims, and at least an opcode.\<close>

definition data_frame_ok :: "ble_frame \<Rightarrow> bool" where
  "data_frame_ok f \<longleftrightarrow> flen f \<le> length (f_pData f) \<and> 3 \<le> length (f_pData f)"

text \<open>A channel map update names a channel.\<close>

definition data_map_ok :: "ble_frame \<Rightarrow> bool" where
  "data_map_ok f \<longleftrightarrow> (flen f = 10 \<and> f_pData f ! 0 AND 0x3 = 0x3 \<and> f_pData f ! 1 = 8 \<and> f_pData f ! 2 = 0x01
     \<longrightarrow> map_usable (map_at (f_pData f) 3))"

lemma inv_aoInd: "inv b c d st \<Longrightarrow> inv b c d (st\<lparr>aoInd := x AND 3\<rparr>)"
proof -
  assume "inv b c d st"
  moreover have "x AND 3 \<le> 3"
    by (rule word_and_le1)
  then have "unat (x AND 3) < 4"
    by (simp add: word_le_nat_alt)
  ultimately show ?thesis
    by (simp add: inv_defs)
qed

lemma inv_sync_anchor:
  assumes "inv b c d st"
  shows "outcome b' (sync_anchor f st) (inv b c d)"
proof -
  let ?l = "(anchorOffset st)[unat (aoInd st) := f_timestamp f + hopIntervalTicks (rconf st) - nextHopTime st]"
  have "inv b c d (st\<lparr>anchorOffset := ?l, aoInd := (aoInd st + 1) AND 3\<rparr>)"
    using inv_aoInd [OF inv_anchorOffset [OF assms, of ?l]] by simp
  moreover have "unat (aoInd st) < length (anchorOffset st)"
    using inv_lengths [OF assms] by simp
  ultimately show ?thesis
    by (simp add: sync_anchor_def Let_def inv_intervalTicks)
qed

lemma last_rconf_cong [simp]:
  "last_rconf (st\<lparr>preloadedParamIndex := w\<rparr>) = last_rconf st"
  "rconf_queue (enqueue_conf i conf st) = rconf_enqueue i conf (rconf_queue st)"
  by (simp_all add: last_rconf_def enqueue_conf_def split: option.split)

lemma inv_encrypted_update:
  assumes "inv b c False st"
  shows "outcome b (encrypted_update f (last_rconf st) st) (inv b c False)"
proof -
  have len: "length (connParamPairs st) = 8" "unat (numParamPairs st) \<le> 4"
    using inv_lengths [OF assms] by simp_all
  have "unat (numParamPairs st - 1) < 4" if "numParamPairs st \<noteq> 0"
    using that len(2) by (simp add: unat_minus_one)
  moreover have "unat (preloadedParamIndex st) < 4" if "numParamPairs st \<noteq> 0"
      "\<not> preloadedParamIndex st \<ge> numParamPairs st - 1"
    using that len(2) by (simp add: unat_minus_one word_le_nat_alt)
  ultimately show ?thesis
    using assms len(1) unfolding encrypted_update_def
    by (auto simp: Let_def split: prod.splits intro!: inv_enqueue_latest [where c = c])
qed

lemma inv_react_encrypted:
  assumes "inv b c False st"
  shows "outcome b (react_encrypted f datLen (last_rconf st) st) (inv b c False)"
  using assms by (auto simp: react_encrypted_def inv_encrypted_update intro!: inv_enqueue_latest [where c = c])

lemma inv_conn_update_ind:
  assumes "inv b c False st" "14 \<le> length (f_pData f)"
  shows "outcome b (conn_update_ind f (last_rconf st) st) (inv b c False)"
  using assms by (auto simp: conn_update_ind_def Let_def intro!: inv_enqueue_latest [where c = c])

lemma inv_channel_map_ind:
  assumes "inv b c False st" "10 \<le> length (f_pData f)" "b \<or> map_usable (map_at (f_pData f) 3)"
  shows "outcome b (channel_map_ind f (last_rconf st) st) (inv b c False)"
proof -
  have "rd40 (f_pData f) 3 = Some (map_at (f_pData f) 3)"
    using assms(2) by (intro map_at_read) simp
  then show ?thesis
    using assms by (auto simp: channel_map_ind_def Let_def intro!: inv_enqueue_conf [where c = c])
qed

lemma inv_phy_update_ind:
  assumes "inv b c False st" "7 \<le> length (f_pData f)"
  shows "outcome b (phy_update_ind f (last_rconf st) st) (inv b c False)"
  using assms by (auto simp: phy_update_ind_def Let_def intro!: inv_enqueue_latest [where c = c])

lemma inv_react_control:
  assumes "inv b c False st" "flen f \<le> length (f_pData f)" "int (flen f) - 2 = int (unat datLen)"
    "datLen = 8 \<and> opcode = 0x01 \<longrightarrow> b \<or> map_usable (map_at (f_pData f) 3)"
  shows "outcome b (react_control f opcode datLen (last_rconf st) st) (inv b c False)"
proof -
  have "14 \<le> length (f_pData f)" if "datLen = 12"
    using assms(2,3) that by simp
  moreover have "10 \<le> length (f_pData f)" if "datLen = 8"
    using assms(2,3) that by simp
  moreover have "7 \<le> length (f_pData f)" if "datLen = 5"
    using assms(2,3) that by simp
  ultimately show ?thesis
    using assms(1,4)
    by (simp add: react_control_def inv_conn_update_ind inv_channel_map_ind inv_phy_update_ind inv_handleConnFinished)
qed

lemma inv_reactToDataPDU:
  assumes "inv b c False st" "data_frame_ok f" "b \<or> data_map_ok f"
  shows "outcome b (reactToDataPDU f tr st) (inv b c False)"
proof -
  define h n opc where "h = f_pData f ! 0" and "n = f_pData f ! 1" and "opc = f_pData f ! 2"
  define tog :: "fw \<Rightarrow> fw" where
    "tog st = (if snifferState st = DATA then st\<lparr>g_pkt_dir := g_pkt_dir st XOR 1\<rparr> else st)" for st
  define more :: "fw \<Rightarrow> fw" where
    "more st = (if h AND 0x10 = 0 then st\<lparr>moreData := moreData st AND NOT (push_bit (unat (g_pkt_dir st)) 1)\<rparr> else st)" for st
  define hop :: "fw \<Rightarrow> fw" where
    "hop st = (if ll_encryption st \<and> instaHop st \<and> moreData st = 0 \<and> snifferState st = DATA
       then RadioWrapper_stop st else st)" for st
  define switch :: "fw \<Rightarrow> fw option" where
    "switch st = (if h AND 0x3 \<noteq> 0x3 then Some st
       else if int (flen f) - 2 \<noteq> int (unat n) then Some st
       else if ll_encryption st then react_encrypted f n (last_rconf st) st
       else react_control f opc n (last_rconf st) st)" for st
  have reads: "rd (f_pData f) 0 = Some h" "rd (f_pData f) 1 = Some n" "rd (f_pData f) 2 = Some opc"
    using assms(2) unfolding h_def n_def opc_def by (auto simp: data_frame_ok_def intro!: rd_Some)
  have eq: "reactToDataPDU f tr st = (if firstPacket st \<and> \<not> tr then sync_anchor f st else Some st) \<bind>
      (\<lambda>st. if flen f < 2 then Some (tog st) else switch (hop (more (tog st))))"
    unfolding reactToDataPDU_def reads bind.bind_lunit Let_def tog_def more_def hop_def switch_def by simp
  have map: "n = 8 \<and> opc = 0x01 \<longrightarrow> b \<or> map_usable (map_at (f_pData f) 3)"
    if "int (flen f) - 2 = int (unat n)" "h AND 0x3 = 0x3"
    using assms(3) that by (auto simp: data_map_ok_def h_def n_def opc_def)
  have switch: "outcome b (switch st) (inv b c False)" if "inv b c False st" for st
    using that map assms(2) by (auto simp: switch_def data_frame_ok_def intro!: inv_react_encrypted inv_react_control)
  show ?thesis
    unfolding eq using assms(1)
    by (intro keep_bind [where b' = b and c = c and d = False])
      (auto simp: inv_sync_anchor tog_def more_def hop_def intro!: switch)
qed

section \<open>Advertising PDUs\<close>

text \<open>A received frame has the whole receive entry behind it.\<close>

definition rx_ok :: "ble_frame \<Rightarrow> bool" where
  "rx_ok f \<longleftrightarrow> flen f \<le> length (f_pData f) \<and> 264 \<le> length (f_pData f)"

text \<open>A connection request names a channel.\<close>

definition conn_map_ok :: "ble_frame \<Rightarrow> bool" where
  "conn_map_ok f \<longleftrightarrow> (f_pData f ! 0 AND 0xF = CONNECT_IND \<and> f_pData f ! 1 = 34 \<longrightarrow> map_usable (map_at (f_pData f) 30))"

text \<open>The walk over the extended header ends inside the advertised length.\<close>

lemma ext_aux_ptr_inside:
  assumes "advLen + 2 \<le> length pData"
  shows "\<exists>ok ptr. ext_aux_ptr pData advLen = Some (ok, ptr) \<and> (\<forall>pos. ok \<and> ptr = Some pos \<longrightarrow> pos + 3 \<le> advLen + 2)"
proof -
  define n flags where "n = unat (pData ! 2 AND 0x3F)" and "flags = pData ! 3"
  have r2: "rd pData 2 = Some (pData ! 2)" if "\<not> advLen < 1"
    using assms that by (intro rd_Some) linarith
  show ?thesis
  proof (cases "advLen < 1 \<or> advLen < n + 1 \<or> \<not> n > 1")
    case True
    then show ?thesis
      using r2 by (cases "advLen < 1") (auto simp: ext_aux_ptr_def Let_def n_def)
  next
    case False
    then have r: "rd pData 2 = Some (pData ! 2)" "rd pData 3 = Some flags"
      using assms unfolding flags_def by (intro r2, linarith, intro rd_Some, linarith)
    define pos where "pos = 4 + ext_field flags 0x01 6 + ext_field flags 0x02 6 + ext_field flags 0x04 1
      + ext_field flags 0x08 2"
    define last where "last = pos + ext_field flags 0x10 3 + ext_field flags 0x20 18 + ext_field flags 0x40 1"
    define end_pos where "end_pos = (if last - 3 < n then last + (n - (last - 3)) else last)"
    have "ext_aux_ptr pData advLen = Some (if end_pos - 2 > advLen then (False, None)
        else (True, if flags AND 0x10 \<noteq> 0 then Some pos else None))"
      using False unfolding ext_aux_ptr_def r bind.bind_lunit Let_def n_def [symmetric] pos_def [symmetric]
        last_def [symmetric] end_pos_def [symmetric] by (simp only: if_False de_Morgan_disj simp_thms if_True)
    moreover have "pos + 3 \<le> advLen + 2" if "flags AND 0x10 \<noteq> 0" "\<not> end_pos - 2 > advLen"
    proof -
      have "pos + 3 \<le> last"
        using that(1) by (simp add: last_def ext_field_def)
      moreover have "last \<le> end_pos"
        unfolding end_pos_def by (auto simp: not_less)
      ultimately show ?thesis
        using that(2) by linarith
    qed
    ultimately show ?thesis
      by (cases "end_pos - 2 > advLen") auto
  qed
qed

lemma inv_reactToAdvExtPDU:
  assumes "inv b c d st" "unat advLen + 2 \<le> length (f_pData f)"
  shows "outcome b (reactToAdvExtPDU f advLen st) (inv b c d)"
proof -
  obtain ok ptr where e: "ext_aux_ptr (f_pData f) (unat advLen) = Some (ok, ptr)"
    "\<And>pos. ok \<Longrightarrow> ptr = Some pos \<Longrightarrow> pos + 3 \<le> unat advLen + 2"
    using ext_aux_ptr_inside [OF assms(2)] by blast
  have reads: "rd (f_pData f) pos = Some (f_pData f ! pos)" "rd (f_pData f) (pos + 1) = Some (f_pData f ! (pos + 1))"
    "rd (f_pData f) (pos + 2) = Some (f_pData f ! (pos + 2))" if "ok" "ptr = Some pos" for pos
    using e(2) [OF that] assms(2) by (auto intro!: rd_Some)
  show ?thesis
  proof (cases "ok \<and> ptr \<noteq> None \<and> snifferState st \<noteq> SCANNING")
    case False
    then show ?thesis
      using assms(1) by (auto simp: reactToAdvExtPDU_def e(1) split: option.split)
  next
    case True
    then obtain pos where pos: "ok" "ptr = Some pos" "snifferState st \<noteq> SCANNING" by blast
    obtain chan phy t0 dur where ev: "aux_event (f_timestamp f) (f_pData f ! pos) (f_pData f ! (pos + 1)) (f_pData f ! (pos + 2))
        = (chan, phy, t0, dur)"
      by (metis prod_cases4)
    show ?thesis
      unfolding reactToAdvExtPDU_def e(1) bind.bind_lunit prod.case pos(2) option.case reads [OF pos(1,2)] Let_def ev
        RF_getCurrentTime_def
      using pos(1,3) assms(1) by simp
  qed
qed

lemma inv_seek_advert [simp]: "inv b c d (seek_advert f st) = inv b c d st"
  by (simp add: seek_advert_def Let_def)

lemma inv_hop_advert [simp]: "inv b c d (hop_advert t f st) = inv b c d st"
  by (simp add: hop_advert_def Let_def RF_getCurrentTime_def)

lemma radio_update_csa2 [simp]: "radio_ok (st\<lparr>use_csa2 := v\<rparr>) = radio_ok st"
  by (simp add: radio_ok_def arrays_ok_def packet_queue_ok_def)

lemma radio_update_aux [simp]: "radio_ok (st\<lparr>gotAuxConnReq := v\<rparr>) = radio_ok st"
  by (simp add: radio_ok_def arrays_ok_def packet_queue_ok_def)

lemma choose_csa2_shape:
  assumes "radio_ok st" "14 \<le> length (f_pData f)"
  shows "\<exists>v. choose_csa2 f chSel st = Some (st\<lparr>use_csa2 := v\<rparr>)"
  using assms adv_cache_fetch_recent [of "adv_cache_st st"]
  by (auto simp: choose_csa2_def radio_ok_def Let_def)

lemma inv_handleConnReq:
  assumes "inv b c d st" "22 \<le> length ll" "b \<or> v \<or> map_usable (map_at ll 16)"
  shows "outcome b (handleConnReq phy t ll aux (st\<lparr>use_csa2 := v\<rparr>))
    (\<lambda>st'. inv b c False st' \<and> snifferState st' = snifferState st \<and> (b \<or> use_csa2 st' \<or> conf_maps_ok st'))"
proof -
  have "outcome b (handleConnReq phy t ll aux (st\<lparr>use_csa2 := v\<rparr>))
      (\<lambda>st'. radio_ok st' \<and> conn_started b (st\<lparr>use_csa2 := v\<rparr>) st')"
    using assms by (intro radio_handleConnReq) (auto simp: radio_from_inv)
  then show ?thesis
  proof (rule outcome_mono, elim conjE)
    fix st'
    assume "radio_ok st'" and s: "conn_started b (st\<lparr>use_csa2 := v\<rparr>) st'"
    moreover have "conn_started b (st\<lparr>use_csa2 := use_csa2 st'\<rparr>) st'"
      using s by (auto simp: conn_started_def)
    ultimately show "inv b c False st' \<and> snifferState st' = snifferState st \<and> (b \<or> use_csa2 st' \<or> conf_maps_ok st')"
      using assms(1)
      by (auto simp: inv_def maps_ok_def strike_ok_def conn_started_def inDataState_def conf_maps_ok_def)
  qed
qed

lemma enter_conn: "b \<or> use_csa2 st \<or> conf_maps_ok st \<Longrightarrow> s \<noteq> INITIATING \<Longrightarrow> b \<or> enter_ok s st"
  by (auto simp: enter_ok_def)

lemma conf_maps_reset [simp]:
  "conf_maps_ok (RadioWrapper_resetSeqStat st) = conf_maps_ok st"
  "use_csa2 (RadioWrapper_resetSeqStat st) = use_csa2 st"
  by (simp_all add: RadioWrapper_resetSeqStat_def conf_maps_ok_def queued_maps_ok_def)

lemma inv_gotAux: "inv b c False st \<Longrightarrow> inv b c False (st\<lparr>gotAuxConnReq := True\<rparr>)"
  by (auto simp: inv_defs)

lemma inv_stop: "outcome b m (inv b c d) \<Longrightarrow> outcome b (m \<bind> (\<lambda>st. Some (RadioWrapper_stop st))) (inv b c d)"
  by (cases m) simp_all

lemma inv_react_connect:
  assumes "inv b c d st" "36 \<le> length (f_pData f)" "b \<or> map_usable (map_at (f_pData f) 30)"
  shows "outcome b (react_connect f chSel st) (inv b c False)"
proof -
  obtain v where v: "choose_csa2 f chSel st = Some (st\<lparr>use_csa2 := v\<rparr>)"
    using choose_csa2_shape [of st f chSel] assms by (auto simp: radio_from_inv)
  have "map_at (drop 14 (f_pData f)) 16 = map_at (f_pData f) 30"
    using assms(2) by (simp add: map_at_def)
  then have "outcome b (handleConnReq (f_phy f) (f_timestamp f) (drop 14 (f_pData f)) (f_channel f < 37) (st\<lparr>use_csa2 := v\<rparr>))
    (\<lambda>st'. inv b c False st' \<and> snifferState st' = snifferState st \<and> (b \<or> use_csa2 st' \<or> conf_maps_ok st'))"
    using assms by (intro inv_handleConnReq) auto
  then show ?thesis
    unfolding react_connect_def v Let_def bind.bind_lunit outcome_bind
    by (rule outcome_mono)
      (auto simp: inv_gotAux enter_ok_def outcome_bind [symmetric] intro!: inv_stop inv_stateTransition)
qed

lemma inv_adv_cache: "inv b c d st \<Longrightarrow> inv b c d (st\<lparr>adv_cache_st := adv_cache_store mac h (adv_cache_st st)\<rparr>)"
  by (simp add: inv_defs adv_cache_store_ok)

text \<open>While a connection request waits for its response the maps are usable too.\<close>

lemma inv_waiting: "inv b c d st \<Longrightarrow> gotAuxConnReq st \<Longrightarrow> b \<or> use_csa2 st \<or> conf_maps_ok st"
  by (auto simp: inv_def maps_ok_def)

lemma hop_trigger_frame [simp]:
  "gotAuxConnReq (DelayHopTrigger_postpone us st) = gotAuxConnReq st"
  by (simp add: DelayHopTrigger_postpone_def RF_getCurrentTime_def emit_def Let_def)

lemma inv_react_adv_type:
  assumes "inv b c d st" "264 \<le> length (f_pData f)" "h = f_pData f ! 0" "advLen = f_pData f ! 1" "b \<or> conn_map_ok f"
  shows "outcome b (react_adv_type f h advLen st) (inv b c d)"
proof -
  define pre :: "fw \<Rightarrow> fw" where "pre st =
    (let st = (if h AND 0xF = SCAN_RSP then st\<lparr>sniffScanRspLen := of_nat (flen f)\<rparr> else st)
     in if h AND 0xF = SCAN_REQ \<and> f_channel f = 37 \<and> snifferState st = ADVERT_HOP \<and> \<not> postponed st
        then (DelayHopTrigger_postpone (270 + sniffScanRspLen st * 8) st)\<lparr>postponed := True\<rparr> else st)" for st
  have pre: "inv b c d (pre st)"
    using assms(1) by (simp add: pre_def Let_def)
  have mac: "\<exists>m. rds (f_pData f) 2 6 = Some m"
    using assms(2) by simp
  have "unat advLen < 256"
    using unsigned_less [of advLen] by simp
  then have len: "unat advLen + 2 \<le> length (f_pData f)"
    using assms(2) by linarith
  have map: "b \<or> map_usable (map_at (f_pData f) 30)" if "h AND 0xF = CONNECT_IND" "advLen = 34"
    using assms(3-5) that by (auto simp: conn_map_ok_def)
  have conn: "outcome b (react_connect f chSel (pre st)) (inv b c d)" if "h AND 0xF = CONNECT_IND" "advLen = 34" for chSel
    using inv_react_connect [OF pre _ map [OF that], of chSel] assms(2)
    by (auto intro: outcome_mono simp: inv_def)
  have data: "outcome b (stateTransition DATA (pre st)) (inv b c d)" if "gotAuxConnReq (pre st)"
    using pre inv_waiting [OF pre that] by (intro inv_stateTransition) (auto simp: enter_ok_def)
  have eq: "react_adv_type f h advLen st =
     (if h AND 0xF = ADV_IND \<or> h AND 0xF = ADV_DIRECT_IND
     then do { mac \<leftarrow> rds (f_pData f) 2 6;
               Some ((pre st)\<lparr>adv_cache_st := adv_cache_store mac h (adv_cache_st (pre st))\<rparr>) }
     else if h AND 0xF = ADV_EXT_IND \<and> auxAdvEnabled (pre st) \<and> snifferState (pre st) \<noteq> ADVERT_SEEK
     then reactToAdvExtPDU f advLen (pre st)
     else if h AND 0xF = CONNECT_IND \<and> followConnections (pre st)
     then if advLen \<noteq> 34 then Some (pre st) else react_connect f (h AND 0x20 \<noteq> 0) (pre st)
     else if gotAuxConnReq (pre st) \<and> h AND 0xF = AUX_CONNECT_RSP
     then do { st \<leftarrow> stateTransition DATA (pre st); Some (RadioWrapper_stop st) }
     else Some (pre st))"
    unfolding react_adv_type_def pre_def Let_def by (rule refl)
  show ?thesis
    unfolding eq using pre mac len
    by (auto simp: inv_adv_cache inv_reactToAdvExtPDU conn intro!: inv_stop data)
qed

section \<open>Every received PDU\<close>

definition rx_map_ok :: "fw \<Rightarrow> ble_frame \<Rightarrow> bool" where
  "rx_map_ok st f \<longleftrightarrow> (if inDataState st \<and> f_channel f < 37 then data_map_ok f else conn_map_ok f)"

lemma inv_reactToPDU:
  assumes "inv b c d st" "rx_ok f" "b \<or> rx_map_ok st f"
  shows "outcome b (reactToPDU f st) (inv b c d)"
proof (cases "inDataState st \<and> f_channel f < 37")
  case True
  then have "outcome b (reactToDataPDU f False st) (inv b c False)"
    using assms inv_data [OF assms(1)] by (intro inv_reactToDataPDU) (auto simp: rx_map_ok_def rx_ok_def data_frame_ok_def)
  then have "outcome b (reactToDataPDU f False st) (inv b c d)"
    by (rule outcome_mono) (auto simp: inv_def)
  moreover have "\<not> 37 \<le> f_channel f"
    using True by (simp add: not_le)
  ultimately show ?thesis
    using True by (simp add: reactToPDU_def)
next
  case False
  have reads: "rd (f_pData f) 0 = Some (f_pData f ! 0)" "rd (f_pData f) 1 = Some (f_pData f ! 1)"
    using assms(2) by (auto simp: rx_ok_def intro!: rd_Some)
  have "outcome b (react_adv_type f (f_pData f ! 0) (f_pData f ! 1) st') (inv b c d)" if "inv b c d st'" for st'
    using that False assms(2,3) by (intro inv_react_adv_type) (auto simp: rx_ok_def rx_map_ok_def)
  then show ?thesis
    using False assms(1) unfolding reactToPDU_def reads bind.bind_lunit Let_def
    by (auto simp: not_le)
qed

lemma macFilterCheck_total:
  assumes "flen f \<le> length (f_pData f)" "rpa_ok (rpa_st st)"
  shows "\<exists>ok r. macFilterCheck f st = Some (ok, st\<lparr>rpa_st := r\<rparr>) \<and> rpa_ok r"
proof -
  have same: "\<exists>r. st = st\<lparr>rpa_st := r\<rparr> \<and> rpa_ok r"
    using assms(2) by (intro exI [of _ "rpa_st st"]) simp
  have "\<exists>ok r. macOk mac random st = (ok, st\<lparr>rpa_st := r\<rparr>) \<and> rpa_ok r" for mac random
    using same rpa_match_ok [OF assms(2), of "targIrk st" mac]
    by (auto simp: macOk_def split: prod.split)
  then show ?thesis
    using macFilterCheck_address [OF assms(1), of st] same
    by (cases "filterMacs st \<or> filterRpas st") (auto simp: macFilterCheck_def split: option.split)
qed

lemma inv_rpa: "inv b c d st \<Longrightarrow> rpa_ok r \<Longrightarrow> inv b c d (st\<lparr>rpa_st := r\<rparr>)"
  by (simp add: inv_defs)

lemma rx_map_ok_frame [simp]:
  "rx_map_ok st (f\<lparr>f_direction := v, f_eventCtr := w\<rparr>) = rx_map_ok st f"
  "rx_map_ok (st\<lparr>rpa_st := r\<rparr>) f = rx_map_ok st f"
  "rx_ok (f\<lparr>f_direction := v, f_eventCtr := w\<rparr>) = rx_ok f"
  by (simp_all add: rx_map_ok_def data_map_ok_def conn_map_ok_def rx_ok_def flen_def inDataState_def)

theorem inv_indicatePacket:
  assumes "inv b c d st" "rx_ok f" "b \<or> rx_map_ok st f"
  shows "outcome b (indicatePacket f st) (inv b c d)"
proof -
  have len: "flen f \<le> length (f_pData f)"
    using assms(2) by (simp add: rx_ok_def)
  have enq: "outcome b (enqueueFrame f' st') (inv b c d)" if "inv b c d st'" "flen f' \<le> length (f_pData f')" for f' st'
    using that by (rule inv_enqueueFrame)
  have react: "outcome b ((if crc then reactToPDU f' st' else Some st') \<bind> enqueueFrame f') (inv b c d)"
    if "inv b c d st'" "rx_ok f'" "b \<or> rx_map_ok st' f'" for crc f' st'
    using that by (intro keep_bind [where b' = b and c = c and d = d])
      (auto simp: rx_ok_def intro!: inv_reactToPDU enq)
  obtain ok r where m: "macFilterCheck f st = Some (ok, st\<lparr>rpa_st := r\<rparr>)" "rpa_ok r"
    using macFilterCheck_total [OF len, of st] assms(1) by (auto simp: inv_def radio_ok_def)
  show ?thesis
    using assms len enq react react [of "st\<lparr>rpa_st := r\<rparr>" f] inv_rpa [OF assms(1) m(2)]
    by (simp add: indicatePacket_def m Let_def)
qed

section \<open>Commands\<close>

lemma inv_scan [keeps]: "inv b c d st \<Longrightarrow> outcome b (scan st) (inv b c d)"
  unfolding scan_def by (intro inv_stop inv_stateTransition) simp_all

lemma inv_tx: "inv b c d st \<Longrightarrow> tx_queue_ok q \<Longrightarrow> tx_links_ok q \<Longrightarrow> b \<or> tx_maps_ok q \<Longrightarrow> inv b c d (st\<lparr>tx_q := q\<rparr>)"
  by (auto simp: inv_defs)

lemma inv_tx_queue: "inv b c d st \<Longrightarrow> tx_queue_ok (tx_q st)" "inv b c d st \<Longrightarrow> tx_links_ok (tx_q st)"
  "inv b c d st \<Longrightarrow> b \<or> tx_maps_ok (tx_q st)"
  by (auto simp: inv_def radio_ok_def maps_ok_def)

lemma tx_entries_init:
  "set (tx_entries (TXQueue_init q)) = (\<lambda>i. TXQueue_init_entry i (tx_entries q ! i)) ` {0..<8}"
  by (simp add: TXQueue_init_def)

lemma tx_init_links: "tx_links_ok (TXQueue_init q)" "tx_maps_ok (TXQueue_init q)"
  by (auto simp: tx_links_ok_def tx_maps_ok_def tx_entries_init TXQueue_init_entry_def)

lemma inv_tx_init: "inv b c d st \<Longrightarrow> inv b c d (st\<lparr>tx_q := TXQueue_init (tx_q st)\<rparr>)"
  using TXQueue_init_ok [of "tx_q st"] inv_tx_queue [of b c d st]
  by (intro inv_tx) (auto simp: tx_init_links tx_queue_ok_def list_all_iff tx_entry_ok_def)

lemma inv_enter_transmitting:
  assumes "inv b c d st" "b \<or> enter_ok s st"
  shows "outcome b (enter_transmitting s st) (inv b c d)"
  unfolding enter_transmitting_def
  by (rule keep_bind [OF inv_stateTransition [OF assms]]) (simp add: Let_def inv_tx_init)

text \<open>Parameters of the initiator: only the INITIATING state reads them.\<close>

lemma inv_initiateConn:
  assumes "inv b c d st" "6 \<le> length peer" "22 \<le> length ll" "b \<or> map_usable (map_at ll 16)"
  shows "outcome b (initiateConn r peer ll st) (inv b c d)"
proof -
  let ?st = "st\<lparr>peerAddrRandom := r, peerAddr := take 6 peer, connReqLLData := take 22 ll\<rparr>"
  have "map_at (take 22 ll) 16 = map_at ll 16"
    using assms(3) by (simp add: map_at_def)
  then have "inv b c d ?st" "b \<or> enter_ok INITIATING ?st"
    using assms by (auto simp: inv_defs enter_ok_def)
  from inv_enter_transmitting [OF this] show ?thesis
    using assms(2,3) by (simp add: initiateConn_def)
qed

lemma copy_in_Some:
  "unat n \<le> length src \<Longrightarrow> unat n \<le> length dst \<Longrightarrow> \<exists>l. copy_in dst src n = Some l \<and> length l = length dst"
  by (simp add: copy_in_def overwrite_def)

lemma inv_adv_data: "inv b c d st \<Longrightarrow> length (s_advData st) = 254" "inv b c d st \<Longrightarrow> length (s_scanRspData st) = 31"
  by (simp_all add: inv_def radio_ok_def arrays_ok_def)

lemma inv_advertise:
  assumes "inv b c d st" "unat n \<le> 31" "31 \<le> length adv" "unat m \<le> 31" "31 \<le> length rsp"
  shows "outcome b (advertise mode adv n rsp m st) (inv b c d)"
proof -
  obtain a r where ar: "copy_in (s_advData st) adv n = Some a" "length a = 254"
    "copy_in (s_scanRspData st) rsp m = Some r" "length r = 31"
    using copy_in_Some [of n adv "s_advData st"] copy_in_Some [of m rsp "s_scanRspData st"] assms
      inv_adv_data [OF assms(1)] by auto
  have "inv b c d (st\<lparr>s_advMode := mode, s_advLen := n, s_scanRspLen := m, s_advData := a, s_scanRspData := r\<rparr>)"
    using assms(1,2,4) ar(2,4) by (simp add: inv_defs)
  then show ?thesis
    unfolding advertise_def ar bind.bind_lunit by (rule inv_enter_transmitting) simp
qed

lemma inv_advertiseExtended:
  assumes "inv b c d st" "unat n \<le> 245" "unat n \<le> length adv"
  shows "outcome b (advertiseExtended mode adv n p1 p2 adi st) (inv b c d)"
proof -
  obtain a where a: "copy_in (s_advData st) adv n = Some a" "length a = 254"
    using copy_in_Some [of n adv "s_advData st"] assms inv_adv_data [OF assms(1)] by auto
  have "inv b c d (st\<lparr>s_advExtMode := mode, s_advLen := n, s_primaryAdvPhy := p1, s_secondaryAdvPhy := p2,
      s_secondaryAdvChan := 0, s_adi := adi, s_advData := a\<rparr>)"
    using assms(1,2) a(2) by (simp add: inv_defs)
  then show ?thesis
    unfolding advertiseExtended_def a bind.bind_lunit by (rule inv_enter_transmitting) simp
qed

lemma inv_setChanMap:
  assumes "inv b c d st" "b \<or> map_usable chmap"
  shows "inv b c d (setChanMap chmap st)"
proof (cases "inDataState st")
  case True
  have m: "(0x1FFFFFFFFF :: u64) = mask 37"
    by (simp add: mask_eq_exp_minus_1)
  have "used_channels (chmap AND 0x1FFFFFFFFF) = used_channels chmap"
    unfolding used_channels_def m by (rule filter_cong) (auto simp: bit_simps)
  then have "b \<or> map_usable (chmap AND 0x1FFFFFFFFF)"
    using assms(2) by (simp add: map_usable_def)
  then have "inv b c False (setChanMap chmap st)"
    using True inv_data [OF assms(1) True] by (auto simp: setChanMap_def Let_def intro!: inv_enqueue_conf)
  then show ?thesis
    by (auto simp: inv_def)
qed (use assms in \<open>simp add: setChanMap_def\<close>)

lemma inv_preload:
  assumes "inv b c d st" "2 * unat n \<le> length pairs"
  shows "\<exists>status st'. preloadConnParamUpdates pairs n st = Some (status, st') \<and> inv b c d st'"
proof -
  have "inv b c d (st\<lparr>connParamPairs := overwrite (connParamPairs st) 0 (take (2 * unat n) pairs),
      preloadedParamIndex := 0, numParamPairs := n\<rparr>)" if "unat n \<le> 4"
    using assms that by (simp add: inv_defs)
  then show ?thesis
    using assms by (auto simp: preloadConnParamUpdates_def Let_def word_less_nat_alt not_less)
qed

text \<open>A command that names channels names one.\<close>

definition command_map_ok :: "u8 list \<Rightarrow> bool" where
  "command_map_ok buf \<longleftrightarrow>
     (buf ! 1 = COMMAND_CONNECT \<longrightarrow> map_usable (map_at buf 25)) \<and>
     (buf ! 1 = COMMAND_SETMAP \<longrightarrow> map_usable (map_at buf 2)) \<and>
     (buf ! 1 = COMMAND_TRANSMIT \<and> buf ! 5 = 8 \<and> buf ! 4 AND 0x3 = 0x3 \<and> buf ! 6 = 0x01
        \<longrightarrow> map_usable (map_at buf 7))"

lemma set_update_subset: "x \<in> set (xs[i := y]) \<Longrightarrow> x = y \<or> x \<in> set xs"
  using set_update_subset_insert by fast

lemma tx_insert_entry:
  fixes len :: u8
  assumes "tx_entry_ok e" "length body = unat len"
    "d = overwrite (overwrite ((te_data e)[0 := llid AND 0x3]) 1 body) (unat len + 1) (bytes16 ev)"
  shows "length d = TX_PACKET_SIZE" "d ! 0 = llid AND 0x3" "k < unat len \<Longrightarrow> d ! Suc k = body ! k"
proof -
  have "unat len < 256"
    using unsigned_less [of len] by simp
  then have len: "length body \<le> 255"
    using assms(2) by simp
  obtain y ys where y: "te_data e = y # ys" "length ys = 257"
    using assms(1) by (cases "te_data e") (auto simp: tx_entry_ok_def TX_PACKET_SIZE_def)
  have D: "d = (llid AND 0x3) # body @ bytes16 ev @ drop (length body + 2) ys"
    using y len assms(2,3) by (simp add: overwrite_def)
  show "length d = TX_PACKET_SIZE" "d ! 0 = llid AND 0x3" "k < unat len \<Longrightarrow> d ! Suc k = body ! k"
    using y len assms(2) by (simp_all add: D TX_PACKET_SIZE_def nth_append)
qed

lemma tx_insert_inv:
  assumes "tx_queue_ok q" "tx_links_ok q" "b \<or> tx_maps_ok q" "unat len \<le> length data"
    "b \<or> (len = 8 \<and> llid AND 0x3 = 0x3 \<and> data ! 0 = 0x01 \<longrightarrow> map_usable (map_at data 1))"
  shows "\<exists>ok q'. TXQueue_insert len llid data ev q = Some (ok, q') \<and> tx_queue_ok q' \<and> tx_links_ok q' \<and> (b \<or> tx_maps_ok q')"
proof (cases "length (tx_items q) < 7")
  case False
  then have "length (tx_items q) = 7"
    using tx_queue_ok_bound [OF assms(1)] by simp
  then show ?thesis
    using TXQueue_insert_full [OF assms(1), of len llid data ev] assms
    by (intro exI [of _ False] exI [of _ q]) simp
next
  case True
  let ?h = "slot_of (tx_head q)"
  define e where "e = tx_entries q ! ?h"
  have e: "tx_entry_ok e" "te_next e < 8"
    using assms(1,2) by (simp_all add: e_def tx_queue_ok_def tx_links_ok_def list_all_length)
  define d where "d = overwrite (overwrite ((te_data e)[0 := llid AND 0x3]) 1 (take (unat len) data)) (unat len + 1) (bytes16 ev)"
  define e' where "e' = e\<lparr>te_status := DATA_ENTRY_PENDING, te_length := 1 + ucast len, te_data := d\<rparr>"
  have b: "length (take (unat len) data) = unat len"
    using assms(4) by simp
  note d = tx_insert_entry [OF e(1) b d_def]
  have "(tx_head q - tx_tail q) AND 7 \<noteq> 7"
    using assms(1) True by (simp add: masked_full tx_queue_ok_def length_tx_items)
  then have ins: "TXQueue_insert len llid data ev q =
      Some (True, q\<lparr>tx_entries := (tx_entries q)[?h := e'], tx_head := tx_head q + 1\<rparr>)"
    using e(1) assms(4) by (simp add: TXQueue_insert_def Let_def e_def e'_def d_def tx_entry_ok_def)
  have ok: "tx_entry_ok e'" "te_next e' < 8"
    using e d(1) by (simp_all add: e'_def tx_entry_ok_def)
  have "map_usable (map_at d 2)" if "\<not> b" "1 + ucast len = (9 :: u16)" "d ! 0 AND 0x3 = 0x3" "d ! 1 = 0x01"
  proof -
    have "unat len < 256"
      using unsigned_less [of len] by simp
    then have "unat (1 + ucast len :: u16) = unat len + 1"
      by (simp add: unat_word_ariths unsigned_ucast_eq take_bit_nat_eq_self)
    then have len: "unat len = 8"
      using that(2) by simp
    then have "len = 8"
      by (simp add: word_unat_eq_iff)
    moreover have "d ! Suc k = data ! k" if "k < 8" for k
      using d(3) [of k] that len by simp
    from this [of 0] this [of 1] this [of 2] this [of 3] this [of 4] this [of 5]
    have "d ! 1 = data ! 0" "map_at d 2 = map_at data 1"
      by (simp_all add: map_at_def numeral_eq_Suc)
    ultimately show ?thesis
      using assms(5) that d(2) by (simp add: and.assoc)
  qed
  then have "b \<or> tx_maps_ok (q\<lparr>tx_entries := (tx_entries q)[?h := e'], tx_head := tx_head q + 1\<rparr>)"
    using assms(3) by (auto simp: tx_maps_ok_def e'_def dest!: set_update_subset)
  moreover have "tx_queue_ok (q\<lparr>tx_entries := (tx_entries q)[?h := e'], tx_head := tx_head q + 1\<rparr>)"
    using assms(1) True ok(1)
    by (auto simp: tx_queue_ok_def length_tx_items ring_size_push list_all_iff dest!: set_update_subset)
  moreover have "tx_links_ok (q\<lparr>tx_entries := (tx_entries q)[?h := e'], tx_head := tx_head q + 1\<rparr>)"
    using assms(2) ok(2) by (auto simp: tx_links_ok_def dest!: set_update_subset)
  ultimately show ?thesis
    using ins by auto
qed

lemma inv_insert:
  assumes "inv b c d st" "unat len \<le> length data"
    "b \<or> (len = 8 \<and> llid AND 0x3 = 0x3 \<and> data ! 0 = 0x01 \<longrightarrow> map_usable (map_at data 1))"
  shows "\<exists>ok q. TXQueue_insert len llid data ev (tx_q st) = Some (ok, q) \<and> inv b c d (st\<lparr>tx_q := q\<rparr>)"
  using tx_insert_inv [OF inv_tx_queue [OF assms(1)] assms(2,3), of ev] inv_tx [OF assms(1)] by blast

lemma inv_params [simp]:
  "inv b c d (setFollowConnections p st) = inv b c d st"
  "inv b c d (setAuxAdvEnabled p st) = inv b c d st"
  "inv b c d (setAdvInterval w st) = inv b c d st"
  "inv b c d (setInstaHop p st) = inv b c d st"
  "inv b c d (preloadPhyUpdate p ph st) = inv b c d st"
  "inv b c d (setCrcValidation p st) = inv b c d st"
  "inv b c d (setMinRssi v st) = inv b c d st"
  "inv b c d (setMacFilt p mac st) = inv b c d st"
  "inv b c d (setRpaFilt p irk st) = inv b c d st"
  by (simp_all add: setFollowConnections_def setAuxAdvEnabled_def setAdvInterval_def setInstaHop_def
      preloadPhyUpdate_def setCrcValidation_def setMinRssi_def setMacFilt_def setRpaFilt_def split: option.split)

lemma inv_pause: "inv b c d st \<Longrightarrow> inv b c d (pauseAfterSniffDone p st)"
  by (simp add: pauseAfterSniffDone_def inv_defs)

lemma inv_setAddr: "inv b c d st \<Longrightarrow> 6 \<le> length a \<Longrightarrow> outcome b (setAddr r a st) (inv b c d)"
  by (simp add: setAddr_def inv_defs)

lemma inv_setChanAAPHYCRCI [keeps]: "inv b c d st \<Longrightarrow> outcome b (setChanAAPHYCRCI ch aa ph crc st) (inv b c d)"
  unfolding setChanAAPHYCRCI_def by (auto simp: Let_def intro!: keep_bind [where b' = b and c = c and d = d] inv_stateTransition)

lemma inv_sendMarker:
  "inv b c d st \<Longrightarrow> n \<le> length m \<Longrightarrow> n < 2 ^ 14 \<Longrightarrow> outcome b (sendMarker m n st) (inv b c d)"
  by (simp add: sendMarker_def RF_getCurrentTime_def Let_def inv_report)

lemma inv_setTxPower: "inv b c d st \<Longrightarrow> outcome b (RadioWrapper_setTxPower p st) (inv b c d)"
  by (auto simp: RadioWrapper_setTxPower_def Let_def) (simp add: inv_def radio_ok_def board_ok_def)

lemma inv_command_sniff:
  assumes "inv b c d st" "length buf = 300"
  shows "outcome b (command_sniff opcode ret buf st) (inv b c d)"
proof -
  have "rd buf 2 = Some (buf ! 2)" "rd buf 7 = Some (buf ! 7)" "rds buf 2 6 = Some (take 6 (drop 2 buf))"
    "\<exists>aa. rd32 buf 3 = Some aa" "\<exists>crc. rd32 buf 8 = Some crc"
    using assms(2) by (simp_all)
  then show ?thesis
    using assms(1) by (auto simp: command_sniff_def Let_def inv_pause inv_setChanAAPHYCRCI inv_advHopSeekMode)
qed

lemma inv_command_transmit:
  assumes "inv b c d st" "length buf = 300" "ret \<le> 300" "b \<or> command_map_ok buf" "opcode = buf ! 1"
  shows "outcome b (command_transmit opcode ret buf st) (inv b c d)"
proof -
  have reads: "rd buf 2 = Some (buf ! 2)" "rd buf 3 = Some (buf ! 3)" "rd buf 4 = Some (buf ! 4)"
    "rd buf 5 = Some (buf ! 5)" "rd buf 35 = Some (buf ! 35)" "\<exists>w. rd16 buf 2 = Some w"
    using assms(2) by simp_all
  have 1: "outcome b (sendMarker (drop 2 buf) (nat (ret - 2)) st) (inv b c d)"
    using assms(1-3) by (intro inv_sendMarker) auto
  have 2: "outcome b (TXQueue_insert (buf ! 5) (buf ! 4) (drop 6 buf) ev (tx_q st) \<bind>
      (\<lambda>(queued, q). Some (st\<lparr>tx_q := q\<rparr>))) (inv b c d)" if "opcode = COMMAND_TRANSMIT" for ev
  proof -
    have "unat (buf ! 5) < 256"
      using unsigned_less [of "buf ! 5"] by simp
    moreover have "map_at (drop 6 buf) 1 = map_at buf 7"
      using assms(2) by (simp add: map_at_def)
    ultimately have "\<exists>ok q. TXQueue_insert (buf ! 5) (buf ! 4) (drop 6 buf) ev (tx_q st) = Some (ok, q) \<and>
        inv b c d (st\<lparr>tx_q := q\<rparr>)"
      using assms that by (intro inv_insert) (auto simp: command_map_ok_def)
    then show ?thesis by auto
  qed
  have 3: "outcome b (initiateConn r (drop 3 buf) (drop 9 buf) st) (inv b c d)" if "opcode = COMMAND_CONNECT" for r
  proof -
    have "map_at (drop 9 buf) 16 = map_at buf 25"
      using assms(2) by (simp add: map_at_def)
    then show ?thesis
      using assms that by (intro inv_initiateConn) (auto simp: command_map_ok_def)
  qed
  have 4: "outcome b (setAddr r (drop 3 buf) st) (inv b c d)" for r
    using assms(1,2) by (intro inv_setAddr) simp_all
  have 5: "outcome b (advertise mode (drop 4 buf) (buf ! 3) (drop 36 buf) (buf ! 35) st) (inv b c d)"
    if "\<not> buf ! 3 > 31" "\<not> buf ! 35 > 31" for mode
    using assms(1,2) that by (intro inv_advertise) (simp_all add: not_less word_le_nat_alt)
  show ?thesis
    unfolding command_transmit_def reads bind.bind_lunit
    using assms(1) 1 2 3 4 5 reads(6) by (auto simp: Let_def split: prod.split)
qed

lemma length_as_u16s: "length (as_u16s bs) = length bs div 2"
  by (induction bs rule: as_u16s.induct) simp_all

lemma check_pairs_range: "check_pairs ps \<in> {0, -2, -3}"
  by (induction ps rule: check_pairs.induct) auto

lemma preload_status:
  assumes "preloadConnParamUpdates ps n st = Some (status, st')"
  shows "status \<in> {0, -1, -2, -3}"
  using assms check_pairs_range [of "take (2 * unat n) ps"]
  by (auto simp: preloadConnParamUpdates_def Let_def split: if_splits)

lemma length_status_text: "status \<in> {0, -1, -2, -3} \<Longrightarrow> length (decimal_int status) \<le> 2"
  by (auto simp: decimal_int_def ascii_def decimal.simps)

lemma inv_command_follow:
  assumes "inv b c d st" "length buf = 300" "b \<or> command_map_ok buf" "opcode = buf ! 1"
  shows "outcome b (command_follow opcode ret buf st) (inv b c d)"
proof -
  have reads: "rd buf 2 = Some (buf ! 2)" "rds buf 2 16 = Some (take 16 (drop 2 buf))"
    "rd40 buf 2 = Some (map_at buf 2)"
    using assms(2) map_at_read [of 2 buf] by simp_all
  define preload where "preload = preloadConnParamUpdates (as_u16s (drop 2 buf)) (of_int ((ret - 2) div 4)) st \<bind>
      (\<lambda>(status, st). if status < 0 then dprintf (ascii ''Invalid preload params: '' @ decimal_int status) st
        else Some st)"
  have 1: "outcome b preload (inv b c d)" if "\<not> (ret < 2 \<or> ret > 18)"
  proof -
    define n where "n = nat ((ret - 2) div 4)"
    have "0 \<le> (ret - 2) div 4" "(ret - 2) div 4 \<le> 4"
      using that by presburger+
    then have "n \<le> 4"
      by (simp add: n_def)
    moreover have "(of_int ((ret - 2) div 4) :: u32) = of_nat n"
      using \<open>0 \<le> (ret - 2) div 4\<close> by (simp add: n_def of_nat_nat)
    ultimately have "2 * unat (of_int ((ret - 2) div 4) :: u32) \<le> length (as_u16s (drop 2 buf))"
      using assms(2) by (simp add: unat_of_nat length_as_u16s)
    from inv_preload [OF assms(1) this]
    obtain status st' where p: "preloadConnParamUpdates (as_u16s (drop 2 buf)) (of_int ((ret - 2) div 4)) st = Some (status, st')"
      "inv b c d st'" by blast
    have "length (ascii ''Invalid preload params: '' @ decimal_int status) < 128"
      using length_status_text [OF preload_status [OF p(1)]] by (simp add: ascii_def)
    then show ?thesis
      using p by (simp add: preload_def inv_dprintf)
  qed
  have 2: "inv b c d (setChanMap (map_at buf 2) st)" if "opcode = COMMAND_SETMAP"
    using assms that by (intro inv_setChanMap) (auto simp: command_map_ok_def)
  show ?thesis
    unfolding command_follow_def reads bind.bind_lunit preload_def [symmetric]
    using assms(1) 1 2 by (simp add: Let_def inv_scan inv_measurement)
qed

lemma inv_command_ext:
  assumes "inv b c d st" "length buf = 300"
  shows "outcome b (command_ext opcode ret buf st) (inv b c d)"
proof -
  have reads: "rd buf 2 = Some (buf ! 2)" "rd buf 3 = Some (buf ! 3)" "rd buf 4 = Some (buf ! 4)"
    "rd buf 7 = Some (buf ! 7)" "\<exists>w. rd16 buf 5 = Some w"
    using assms(2) by simp_all
  have "outcome b (advertiseExtended mode (drop 8 buf) (buf ! 7) p1 p2 adi st) (inv b c d)"
    if "\<not> buf ! 7 > 245" for mode p1 p2 adi
    using assms that by (intro inv_advertiseExtended) (simp_all add: not_less word_le_nat_alt)
  then show ?thesis
    unfolding command_ext_def reads bind.bind_lunit
    using assms(1) reads(5) by (auto simp: Let_def inv_setTxPower)
qed

theorem inv_command_dispatch:
  assumes "inv b c d st" "length buf = 300" "ret \<le> 300" "b \<or> command_map_ok buf"
  shows "outcome b (command_dispatch ret buf st) (inv b c d)"
proof -
  have "rd buf 1 = Some (buf ! 1)"
    using assms(2) by simp
  then show ?thesis
    using assms by (simp add: command_dispatch_def inv_command_sniff inv_command_transmit inv_command_follow
        inv_command_ext)
qed

end
