(* ===== verification/Radio_System.thy ===== *)
theory Radio_System
  imports Radio_Safe
begin

text \<open>
  The invariant through the main loop, and the whole firmware as a transition system: frames
  arrive, the loop goes on, clocks fire, the packet task sends and the host commands, in any
  order.  Every reachable state satisfies the invariant, and a step from a reachable state
  whose channel maps are usable stays inside the C standard.
\<close>

unbundle bit_operations_syntax

section \<open>What was transmitted\<close>

lemma tx_entry_inv:
  assumes "inv b c d st" "e < 8"
  defines "entry \<equiv> tx_entries (tx_q st) ! e"
  shows "length (te_data entry) = 258" "te_next entry < 8"
    "b \<or> (te_length entry = 9 \<and> te_data entry ! 0 AND 0x3 = 0x3 \<and> te_data entry ! 1 = 0x01
       \<longrightarrow> map_usable (map_at (te_data entry) 2))"
proof -
  have q: "tx_queue_ok (tx_q st)" "tx_links_ok (tx_q st)" "b \<or> tx_maps_ok (tx_q st)"
    using inv_tx_queue [OF assms(1)] by blast+
  then have "entry \<in> set (tx_entries (tx_q st))"
    using assms(2) by (simp add: entry_def tx_queue_ok_def)
  then show "length (te_data entry) = 258" "te_next entry < 8"
    "b \<or> (te_length entry = 9 \<and> te_data entry ! 0 AND 0x3 = 0x3 \<and> te_data entry ! 1 = 0x01
       \<longrightarrow> map_usable (map_at (te_data entry) 2))"
    using q by (auto simp: tx_queue_ok_def tx_links_ok_def tx_maps_ok_def list_all_iff tx_entry_ok_def TX_PACKET_SIZE_def)
qed

text \<open>The frame rebuilt from a sent entry.\<close>

definition sent_frame :: "tx_entry \<Rightarrow> u16 \<Rightarrow> ble_frame \<Rightarrow> ble_frame" where
  "sent_frame entry ev f =
     (let len = unat (te_length entry)
      in f\<lparr>f_eventCtr := ev, f_length := of_nat (len + 1),
           f_pData := overwrite ((f_pData f)[0 := te_data entry ! 0, 1 := of_nat (len - 1)]) 2
             (take (len - 1) (drop 1 (te_data entry)))\<rparr>)"

lemma sent_frame_bytes:
  assumes "length (f_pData f) = 40" "length (te_data entry) = 258" "unat (te_length entry) = len" "1 \<le> len" "len \<le> 39"
  shows "flen (sent_frame entry ev f) = len + 1" "length (f_pData (sent_frame entry ev f)) = 40"
    "f_pData (sent_frame entry ev f) ! 0 = te_data entry ! 0" "f_pData (sent_frame entry ev f) ! 1 = of_nat (len - 1)"
    "k < len - 1 \<Longrightarrow> f_pData (sent_frame entry ev f) ! (k + 2) = te_data entry ! (k + 1)"
proof -
  obtain x y rest where p: "f_pData f = x # y # rest" "length rest = 38"
    using assms(1) by (cases "f_pData f"; cases "tl (f_pData f)") auto
  have "f_pData (sent_frame entry ev f) =
      te_data entry ! 0 # of_nat (len - 1) # take (len - 1) (drop 1 (te_data entry)) @ drop (len - 1) rest"
    using p assms by (simp add: sent_frame_def overwrite_def Let_def)
  then show "length (f_pData (sent_frame entry ev f)) = 40"
    "f_pData (sent_frame entry ev f) ! 0 = te_data entry ! 0" "f_pData (sent_frame entry ev f) ! 1 = of_nat (len - 1)"
    "k < len - 1 \<Longrightarrow> f_pData (sent_frame entry ev f) ! (k + 2) = te_data entry ! (k + 1)"
    using p assms by (simp_all add: nth_append)
  have "unat (of_nat (len + 1) :: 14 word) = len + 1"
    unfolding unat_of_nat using assms(5) by simp
  then show "flen (sent_frame entry ev f) = len + 1"
    using assms(3) by (simp add: flen_def sent_frame_def Let_def)
qed

lemma sent_frame_map:
  assumes "length (f_pData f) = 40" "length (te_data entry) = 258" "1 \<le> unat (te_length entry)" "unat (te_length entry) \<le> 39"
    "te_length entry = 9 \<and> te_data entry ! 0 AND 0x3 = 0x3 \<and> te_data entry ! 1 = 0x01 \<longrightarrow> map_usable (map_at (te_data entry) 2)"
  shows "data_map_ok (sent_frame entry ev f)"
proof -
  note b = sent_frame_bytes [OF assms(1,2) refl assms(3,4), where ev = ev]
  have "te_length entry = 9 \<and> te_data entry ! 1 = 0x01 \<and> map_at (f_pData (sent_frame entry ev f)) 3 = map_at (te_data entry) 2"
    if "flen (sent_frame entry ev f) = 10" "f_pData (sent_frame entry ev f) ! 2 = 0x01"
  proof -
    have len: "unat (te_length entry) = 9"
      using b(1) that(1) by simp
    have "f_pData (sent_frame entry ev f) ! (k + 2) = te_data entry ! (k + 1)" if "k < 8" for k
      using b(5) [of k] len that by simp
    moreover have "te_length entry = 9"
      using len by (simp add: word_unat_eq_iff)
    ultimately show ?thesis
      using that(2) by (simp add: map_at_def numeral_eq_Suc)
  qed
  then show ?thesis
    using assms(5) b(3) by (auto simp: data_map_ok_def)
qed

lemma inv_transmitted_from:
  assumes "inv b c False st" "e < 8" "length (f_pData f) = 40"
  shows "outcome b (transmitted_from n e f st) (inv b c False)"
  using assms
proof (induction n arbitrary: e f st)
  case 0
  then show ?case by simp
next
  case (Suc n)
  define entry where "entry = tx_entries (tx_q st) ! e"
  note t = tx_entry_inv [OF Suc.prems(1,2), folded entry_def]
  show ?case
  proof (cases "unat (te_length entry) > 39 \<or> unat (te_length entry) < 1 \<or> te_data entry ! 0 AND 0x3 \<noteq> 0x3")
    case True
    then show ?thesis
      using Suc.IH [OF Suc.prems(1) t(2) Suc.prems(3)] by (simp add: Let_def entry_def)
  next
    case False
    then have len: "1 \<le> unat (te_length entry)" "unat (te_length entry) \<le> 39"
      by simp_all
    obtain ev where ev: "rd16 (te_data entry) (unat (te_length entry)) = Some ev"
      using len t(1) by simp
    have body: "rds (te_data entry) 1 (unat (te_length entry) - 1) = Some (take (unat (te_length entry) - 1) (drop 1 (te_data entry)))"
      using len t(1) by (intro rds_Some) simp
    define f' where "f' = sent_frame entry (if ev \<noteq> 0 then ev else ucast (connEventCount st)) f"
    note b = sent_frame_bytes [OF Suc.prems(3) t(1) refl len, folded f'_def]
    have eq: "transmitted_from (Suc n) e f st = reactToDataPDU f' True st \<bind> transmitted_from n (te_next entry) f'"
      using False ev body by (simp add: Let_def entry_def [symmetric] f'_def sent_frame_def)
    have "data_frame_ok f'" "b \<or> data_map_ok f'"
      using b len t(3) sent_frame_map [OF Suc.prems(3) t(1) len]
      by (auto simp: data_frame_ok_def f'_def sent_frame_bytes [OF Suc.prems(3) t(1) refl len])
    then have "outcome b (reactToDataPDU f' True st) (inv b c False)"
      by (rule inv_reactToDataPDU [OF Suc.prems(1)])
    then show ?thesis
      unfolding eq
    proof (rule keep_bind)
      fix st' assume "inv b c False st'"
      moreover have "length (f_pData f') = 40"
        by (simp add: f'_def sent_frame_bytes [OF Suc.prems(3) t(1) refl len])
      ultimately show "outcome b (transmitted_from n (te_next entry) f' st') (inv b c False)"
        using t(2) by (intro Suc.IH)
    qed
  qed
qed

definition txq_ok :: "data_queue \<Rightarrow> bool" where
  "txq_ok q \<longleftrightarrow> (\<forall>e. pCurrEntry q = Some e \<longrightarrow> e < 8)"

lemma TXQueue_take_ok: "txq_ok (snd (TXQueue_take q))"
  by (simp add: txq_ok_def TXQueue_take_def Let_def)

lemma inv_reactToTransmitted:
  assumes "inv b c False st" "txq_ok q" "length stack = 40"
  shows "outcome b (reactToTransmitted stack q n st) (inv b c False)"
proof -
  obtain t st0 where t: "RF_getCurrentTime st = (t, st0)" "inv b c False st0"
    using assms(1) by (cases "RF_getCurrentTime st") (auto simp: RF_getCurrentTime_def)
  obtain chan where "getCurrChan st0 = Some chan"
    using getCurrChan_less [OF t(2)] by blast
  then show ?thesis
    using assms(2,3) t by (auto simp: reactToTransmitted_def Let_def txq_ok_def report_frame_def
        intro!: inv_transmitted_from split: option.split)
qed

lemma inv_flush:
  assumes "inv b c d st"
  shows "inv b c d (st\<lparr>tx_q := TXQueue_flush n (tx_q st)\<rparr>)"
proof (rule inv_tx [OF assms])
  let ?q = "tx_q st"
  have q: "tx_queue_ok ?q" "tx_links_ok ?q" "b \<or> tx_maps_ok ?q"
    using inv_tx_queue [OF assms] by blast+
  have size: "unat ((tx_head ?q - tx_tail ?q) AND 7) = ring_size (tx_head ?q) (tx_tail ?q)"
    using q(1) by (intro masked_size) (simp add: tx_queue_ok_def)
  define k where "k = (if n > (tx_head ?q - tx_tail ?q) AND 7 then (tx_head ?q - tx_tail ?q) AND 7 else n)"
  have "unat k \<le> ring_size (tx_head ?q) (tx_tail ?q)"
    by (auto simp: k_def size [symmetric] not_less word_le_nat_alt)
  then have "ring_size (tx_head ?q) (tx_tail ?q + k) \<le> 7"
    using q(1) unat_sub [of k "tx_head ?q - tx_tail ?q"]
    by (simp add: ring_size_def tx_queue_ok_def word_le_nat_alt diff_diff_eq le_trans [OF diff_le_self])
  then show "tx_queue_ok (TXQueue_flush n ?q)"
    using q(1) by (simp add: TXQueue_flush_def Let_def tx_queue_ok_def flip: k_def)
  show "tx_links_ok (TXQueue_flush n ?q)" "b \<or> tx_maps_ok (TXQueue_flush n ?q)"
    using q(2,3) by (simp_all add: TXQueue_flush_def Let_def tx_links_ok_def tx_maps_ok_def)
qed

section \<open>Blocking calls\<close>

text \<open>A command leaves the invariant alone, whether the wrapper takes it or not.\<close>

lemma issue_inv:
  assumes "\<And>x st'. r = Inr (x, st') \<Longrightarrow> inv b c d st'" "inv b c d st"
  shows "inv b c d (snd (issue r st))"
  using assms by (cases r) (auto simp: issue_def)

lemmas wrapper_defs = RadioWrapper_recvFrames_def RadioWrapper_recvAdv3_def RadioWrapper_scan_def RadioWrapper_scanLegacy_def
  RadioWrapper_central_def RadioWrapper_peripheral_def RadioWrapper_initiate_def RadioWrapper_advertise3_def
  RadioWrapper_advertiseExt3_def

lemma inv_issue [simp]:
  assumes "inv b c d st"
  shows "inv b c d (snd (issue (RadioWrapper_recvFrames ph ch aa crc t fv v st) st))"
    "inv b c d (snd (issue (RadioWrapper_recvAdv3 w1 w2 v st) st))"
    "inv b c d (snd (issue (RadioWrapper_scan ph ch t fv a r v st) st))"
    "inv b c d (snd (issue (RadioWrapper_scanLegacy ch t fv a r v st) st))"
    "inv b c d (snd (issue (RadioWrapper_central ph ch aa crc t q t' st) st))"
    "inv b c d (snd (issue (RadioWrapper_peripheral ph ch aa crc t q t' st) st))"
    "inv b c d (snd (issue (RadioWrapper_initiate ph ch t fv a r a' r' l st) st))"
    "inv b c d (snd (issue (RadioWrapper_advertiseExt3 a r l n em p1 p2 ch' adi st) st))"
  using assms
  by (intro issue_inv; auto simp: wrapper_defs Let_def RF_getCurrentTime_def split: if_splits prod.splits)+

lemma inv_advertise3 [simp]: "inv b c d st \<Longrightarrow> inv b c d (snd (RadioWrapper_advertise3 a r l n l' m md st))"
  by (auto simp: RadioWrapper_advertise3_def Let_def split: adv_mode.split)

section \<open>The main loop\<close>

fun point_ok :: "loop_point \<Rightarrow> bool" where
  "point_ok (Run_central c q t n sweep) = txq_ok q"
| "point_ok (Run_peripheral c q) = txq_ok q"
| "point_ok p = True"

definition point_inv :: "bool \<Rightarrow> bool \<Rightarrow> bool \<Rightarrow> loop_point \<times> fw \<Rightarrow> bool" where
  "point_inv b c d = (\<lambda>(p, st). point_ok p \<and> inv b c d st)"

lemma point_inv_Pair [simp]: "point_inv b c d (p, st) \<longleftrightarrow> point_ok p \<and> inv b c d st"
  by (simp add: point_inv_def)

lemma inv_begin:
  assumes "inv b c d st"
  shows "point_inv b c d (begin_static st)" "point_inv b c d (begin_seek st)" "point_inv b c d (begin_hop st)"
    "point_inv b c d (begin_scanning st)" "point_inv b c d (begin_advertising st)"
    "point_inv b c d (begin_advertising_ext st)" "point_inv b c d (begin_initiating st)"
    "point_inv b c d (finish_advertising s ms st)"
  using assms
  by (simp_all add: begin_static_def begin_seek_def begin_hop_def begin_scanning_def begin_advertising_def
      begin_advertising_ext_def begin_initiating_def finish_advertising_def RF_getCurrentTime_def case_prod_beta Let_def
      if_split [of "point_inv b c d"] if_split [of "\<lambda>x. inv b c d (snd (issue x st))"])

lemma inv_begin_data: "inv b c d st \<Longrightarrow> outcome b' (begin_data st) (point_inv b c d)"
  using getCurrChan_less [of b c d st] by (auto simp: begin_data_def case_prod_beta Let_def)

lemma inv_central_attempt: "inv b c d st \<Longrightarrow> txq_ok q \<Longrightarrow> point_inv b c d (central_attempt ch q t n k m st)"
  by (simp add: central_attempt_def case_prod_beta Let_def)

lemma inv_begin_central: "inv b c d st \<Longrightarrow> outcome b' (begin_central st) (point_inv b c d)"
  using getCurrChan_less [of b c d st] TXQueue_take_ok [of "tx_q st"]
  by (auto simp: begin_central_def case_prod_beta Let_def inv_central_attempt)

lemma inv_begin_peripheral: "inv b c d st \<Longrightarrow> outcome b' (begin_peripheral st) (point_inv b c d)"
  using getCurrChan_less [of b c d st] TXQueue_take_ok [of "tx_q st"]
  by (auto simp: begin_peripheral_def case_prod_beta Let_def)

lemma inv_loop_begin:
  assumes "inv b c d st"
  shows "outcome b' (loop_begin st) (point_inv b c d)"
proof -
  have "inv b c d (st\<lparr>g_pkt_dir := 0, gotAuxConnReq := False\<rparr>)"
    using assms by (auto simp: inv_defs)
  then show ?thesis
    by (cases "snifferState st") (simp_all add: loop_begin_def Let_def inv_begin inv_begin_data inv_begin_central
        inv_begin_peripheral)
qed

lemma inv_finish_seek: "inv b c d st \<Longrightarrow> outcome b (finish_seek st) (inv b c d)"
  by (auto simp: finish_seek_def Let_def ascii_def
      intro!: keep_bind [where b' = b and c = c and d = d] inv_dprintf inv_measurement inv_stateTransition)

lemma inv_finish_initiating:
  assumes "inv b c d st"
  shows "outcome b (finish_initiating status t ph st) (inv b c d)"
proof (cases "snifferState st = INITIATING \<and> (\<exists>n. status = Inr n \<and> 0 \<le> n)")
  case True
  then obtain n where n: "snifferState st = INITIATING" "status = Inr n" "0 \<le> n" by blast
  have "b \<or> (n \<ge> 1) \<or> map_usable (map_at (connReqLLData st) 16)"
    using assms n(1) by (auto simp: inv_def maps_ok_def)
  then have "outcome b (handleConnReq ph 0 (connReqLLData st) (n \<ge> 2) (st\<lparr>use_csa2 := (n \<ge> 1)\<rparr>))
      (\<lambda>st'. inv b c False st' \<and> snifferState st' = snifferState st \<and> (b \<or> use_csa2 st' \<or> conf_maps_ok st'))"
    using assms inv_lengths(6) [OF assms] by (intro inv_handleConnReq) auto
  then have "outcome b (finish_initiating status t ph st) (inv b c False)"
    unfolding finish_initiating_def using n
    by (simp add: Let_def outcome_bind)
      (rule outcome_mono, assumption, rule inv_stateTransition,
        auto simp: enter_ok_def conf_maps_ok_def queued_maps_ok_def RadioWrapper_resetSeqStat_def)
  then show ?thesis
    by (rule outcome_mono) (auto simp: inv_def)
next
  case False
  then show ?thesis
    using assms by (auto simp: finish_initiating_def not_le inv_handleConnFinished split: sum.split)
qed

lemma inv_mono: "inv b c d st \<Longrightarrow> c \<le> c' \<Longrightarrow> d \<le> d' \<Longrightarrow> inv b c' d' st"
  by (auto simp: inv_def)

lemma inv_clock: "inv b c d st \<Longrightarrow> RF_getCurrentTime st = (t, st') \<Longrightarrow> inv b c d st'"
  by (auto simp: RF_getCurrentTime_def)

lemma point_bind:
  "outcome b m (inv b c d) \<Longrightarrow> (\<And>st. inv b c d st \<Longrightarrow> point_inv b c' d' (f st)) \<Longrightarrow>
     outcome b (m \<bind> (\<lambda>st. Some (f st))) (point_inv b c' d')"
  by (cases m) simp_all

lemma inv_weaken_point: "point_inv b c d x \<Longrightarrow> point_inv b True True x"
  by (cases x) (auto simp: inv_def)

lemma inv_after_event:
  assumes "inv b False d st"
  shows "outcome b (afterConnEvent per got st \<bind> (\<lambda>st. Some (Idle, st))) (point_inv b True d)"
  using inv_afterConnEvent [OF assms] by (rule point_bind) simp

lemma inv_after_central:
  assumes "inv b False d st" "txq_ok q" "length stack = 40"
  shows "outcome b (after_central stack q n got st) (point_inv b True True)"
proof (cases "snifferState st = CENTRAL")
  case False
  then show ?thesis
    using inv_flush [OF assms(1)] by (auto simp: after_central_def inv_def)
next
  case True
  then have "inv b False False st"
    using inv_data [OF assms(1)] by (simp add: inDataState_def)
  then have "outcome b (reactToTransmitted stack q n st) (inv b False False)"
    using assms(2,3) by (rule inv_reactToTransmitted)
  then show ?thesis
    using True unfolding after_central_def
    by (auto simp: Let_def RF_getCurrentTime_def
        intro!: keep_bind [where b' = b and c = False and d = False] outcome_mono [OF inv_after_event]
          inv_mono [OF inv_flush] elim: inv_weaken_point)
qed

lemma inv_finish_central:
  assumes "inv b False d st" "txq_ok q" "length (rr_stack r) = 40"
  shows "outcome b (finish_central r cmd q t n sweep st) (point_inv b True True)"
proof -
  have after: "outcome b (after_central (rr_stack r) q m got st') (point_inv b True True)" if "inv b False d st'" for m got st'
    using that assms(2,3) by (rule inv_after_central)
  have attempt: "point_inv b True True (central_attempt ch q t m k mx st)" for ch m k mx
    using inv_central_attempt [OF assms(1,2)] inv_weaken_point by blast
  show ?thesis
    using assms(1) unfolding finish_central_def case_prod_beta Let_def
    by (auto simp: ascii_def intro!: after attempt keep_bind [where b' = b and c = False and d = d] inv_measurement inv_dprintf
        split: option.split)
qed

lemma inv_finish_peripheral:
  assumes "inv b False d st" "txq_ok q" "length (rr_stack r) = 40"
  shows "outcome b (finish_peripheral r cmd q st) (point_inv b True True)"
proof (cases "snifferState st = PERIPHERAL")
  case False
  then show ?thesis
    using inv_flush [OF assms(1)] by (auto simp: finish_peripheral_def Let_def inv_def)
next
  case True
  then have "inv b False False st"
    using inv_data [OF assms(1)] by (simp add: inDataState_def)
  then have "outcome b (reactToTransmitted (rr_stack r) q (rr_numSent r) st) (inv b False False)"
    using assms(2,3) by (rule inv_reactToTransmitted)
  then show ?thesis
    using True unfolding finish_peripheral_def
    by (auto simp: Let_def RF_getCurrentTime_def
        intro!: keep_bind [where b' = b and c = False and d = False] outcome_mono [OF inv_after_event]
          inv_mono [OF inv_flush] elim: inv_weaken_point)
qed

text \<open>The points where a connection event ends, and a silent channel may be struck out.\<close>

fun closes_event :: "loop_point \<Rightarrow> bool" where
  "closes_event (Rx_data c) = True"
| "closes_event (Run_central c q t n sweep) = True"
| "closes_event (Run_peripheral c q) = True"
| "closes_event (Sleep_central got) = True"
| "closes_event (Sleep_peripheral got) = True"
| "closes_event p = False"

lemma inv_loop_open:
  assumes "inv b c d st" "\<not> closes_event p"
  shows "outcome b (loop_resume r p st) (point_inv b True True)"
proof -
  have weak: "inv b True True st"
    using assms(1) by (rule inv_mono) simp_all
  have "outcome b (finish_seek st \<bind> (\<lambda>st. Some (Idle, st))) (point_inv b True True)"
    by (rule point_bind [OF inv_finish_seek [OF weak]]) simp
  moreover have "outcome b (finish_initiating s t ph st \<bind> (\<lambda>st. Some (Idle, st))) (point_inv b True True)" for s t ph
    by (rule point_bind [OF inv_finish_initiating [OF weak]]) simp
  ultimately show ?thesis
    using assms(2) weak inv_loop_begin [OF weak] inv_begin(8) [OF weak]
      inv_begin(8) [of b True True "st\<lparr>s_secondaryAdvChan := _\<rparr>"]
    by (cases p) (simp_all add: loop_resume_def)
qed

lemma inv_loop_close:
  assumes "inv b False d st" "closes_event p" "point_ok p" "length (rr_stack r) = 40"
  shows "outcome b (loop_resume r p st) (point_inv b True True)"
proof -
  have "outcome b (afterConnEvent per got st \<bind> (\<lambda>st. Some (Idle, st))) (point_inv b True True)" for per got
    by (rule outcome_mono [OF inv_after_event [OF assms(1)] inv_weaken_point])
  then show ?thesis
    using assms(2,3) inv_finish_central [OF assms(1) _ assms(4)] inv_finish_peripheral [OF assms(1) _ assms(4)]
    by (cases p) (simp_all add: loop_resume_def)
qed

lemma inv_loop_resume:
  assumes "inv b True d st" "b \<or> (closes_event p \<longrightarrow> strike_ok st)" "point_ok p" "length (rr_stack r) = 40"
  shows "outcome b (loop_resume r p st) (point_inv b True True)"
proof (cases "closes_event p")
  case True
  then have "inv b False d st"
    using assms(1,2) by (auto simp: inv_def)
  then show ?thesis
    using True assms(3,4) by (rule inv_loop_close)
qed (rule inv_loop_open [OF assms(1)])

end
