(* ===== verification/Firmware_System.thy ===== *)
theory Firmware_System
  imports Radio_System
begin

text \<open>
  The firmware as a transition system: frames arrive in the receive interrupt, the radio task
  comes back from a blocking call, the two delay clocks fire, the packet task sends a message
  and the command task takes one from the host, in any order.  A step is one run of one task
  or handler; it is not interrupted by another.  \<open>runs\<close> are the finite histories,
  \<open>step_invariant\<close> and \<open>safe_steps\<close> the two arguments made about them.
\<close>

unbundle bit_operations_syntax

section \<open>Histories\<close>

inductive runs :: "('e \<Rightarrow> 's \<Rightarrow> 's \<Rightarrow> bool) \<Rightarrow> 's \<Rightarrow> 'e list \<Rightarrow> 's \<Rightarrow> bool" for step s where
  runs_start: "runs step s [] s"
| runs_more: "runs step s es s' \<Longrightarrow> step e s' s'' \<Longrightarrow> runs step s (es @ [e]) s''"

locale step_invariant =
  fixes step :: "'e \<Rightarrow> 's \<Rightarrow> 's \<Rightarrow> bool" and I :: "'s \<Rightarrow> bool"
  assumes preserved: "I s \<Longrightarrow> step e s s' \<Longrightarrow> I s'"
begin

lemma runs_invariant: "runs step s es s' \<Longrightarrow> I s \<Longrightarrow> I s'"
  by (induction rule: runs.induct) (blast intro: preserved)+

end

text \<open>Steps taken under a condition, which is enough for the step to exist.\<close>

locale safe_steps =
  fixes step :: "'e \<Rightarrow> 's \<Rightarrow> 's \<Rightarrow> bool" and allowed :: "'e \<Rightarrow> 's \<Rightarrow> bool" and I :: "'s \<Rightarrow> bool"
  assumes kept: "I s \<Longrightarrow> allowed e s \<Longrightarrow> step e s s' \<Longrightarrow> I s'"
    and progress: "I s \<Longrightarrow> allowed e s \<Longrightarrow> \<exists>s'. step e s s'"

sublocale safe_steps \<subseteq> guarded: step_invariant "\<lambda>e s s'. allowed e s \<and> step e s s'" I
  by unfold_locales (blast intro: kept)

context safe_steps begin

lemma never_stuck:
  "runs (\<lambda>e s s'. allowed e s \<and> step e s s') s es s' \<Longrightarrow> I s \<Longrightarrow> allowed e s' \<Longrightarrow> \<exists>s''. step e s' s''"
  using guarded.runs_invariant progress by blast

end

section \<open>The steps of the firmware\<close>

text \<open>The state shared by the tasks, the point the radio task waits at, and the command task's buffers.\<close>

record system =
  sys_fw :: fw
  sys_point :: loop_point
  sys_b64 :: "u8 list"
  sys_msg :: "u8 list"

datatype event =
    Frame_received "u8 list"
  | Loop_resumes rf_result
  | Hop_fires
  | Stop_fires
  | Packet_sent
  | Command_received "nat \<Rightarrow> nat" "u8 list"

inductive sys_step :: "event \<Rightarrow> system \<Rightarrow> system \<Rightarrow> bool" where
  frame: "264 \<le> length packet \<Longrightarrow> rx_frame (ble4_cmd (sys_fw s)) packet = Some f \<Longrightarrow>
    indicatePacket f (sys_fw s) = Some st \<Longrightarrow> sys_step (Frame_received packet) s (s\<lparr>sys_fw := st\<rparr>)"
| loop: "length (rr_stack r) = 40 \<Longrightarrow> loop_resume r (sys_point s) (sys_fw s) = Some (p, st) \<Longrightarrow>
    sys_step (Loop_resumes r) s (s\<lparr>sys_fw := st, sys_point := p\<rparr>)"
| hop: "hop_pending (sys_fw s) \<Longrightarrow> sys_step Hop_fires s (s\<lparr>sys_fw := DelayHopTrigger_tick (sys_fw s)\<rparr>)"
| stop: "stop_pending (sys_fw s) \<Longrightarrow> sys_step Stop_fires s (s\<lparr>sys_fw := DelayStopTrigger_tick (sys_fw s)\<rparr>)"
| sent: "packet_items (sys_fw s) \<noteq> [] \<Longrightarrow> packetTask_step (sys_fw s) = Some (msg, st) \<Longrightarrow>
    sys_step Packet_sent s (s\<lparr>sys_fw := st\<rparr>)"
| command: "commandTask_step arrived (sys_b64 s) (sys_msg s) inp (sys_fw s) = Some (b64, buf, rest, st) \<Longrightarrow>
    sys_step (Command_received arrived inp) s (s\<lparr>sys_fw := st, sys_b64 := b64, sys_msg := buf\<rparr>)"

inductive_simps sys_step_simps:
  "sys_step (Frame_received packet) s s'" "sys_step (Loop_resumes r) s s'" "sys_step Hop_fires s s'"
  "sys_step Stop_fires s s'" "sys_step Packet_sent s s'" "sys_step (Command_received arrived inp) s s'"

text \<open>After \<open>radioTaskFunction\<close> has opened the radio, with the command buffers as declared.\<close>

definition sys_init :: "board \<Rightarrow> (nat \<Rightarrow> u32) \<Rightarrow> system" where
  "sys_init brd clk = \<lparr>sys_fw = radio_task_start True (fw_init brd clk), sys_point = Idle,
     sys_b64 = replicate b64_size 0, sys_msg = replicate MESSAGE_MAX 0\<rparr>"

text \<open>
  What comes from the serial port from a receive on: more bytes than the longest message has, with
  a terminator behind them.  A receive reads no further than it has to, so this only says that
  the host goes on sending.
\<close>

fun terminated :: "u8 list \<Rightarrow> bool" where
  "terminated (x # y # inp) \<longleftrightarrow> x = CR \<and> y = LF \<or> terminated (y # inp)"
| "terminated inp \<longleftrightarrow> False"

lemma terminated_split: "terminated inp \<Longrightarrow> \<exists>xs ys. inp = xs @ CR # LF # ys"
proof (induction inp rule: terminated.induct)
  case (1 x y inp)
  show ?case
  proof (cases "x = CR \<and> y = LF")
    case False
    then obtain xs ys where "y # inp = xs @ CR # LF # ys"
      using 1 by auto
    then show ?thesis
      by (intro exI [of _ "x # xs"] exI [of _ ys]) simp
  qed (auto intro: exI [of _ "[]"])
qed simp_all

text \<open>
  What the environment has to promise for a step to end with all reads and writes inside their
  objects and no division by zero.  Of the form of the inputs: an entry of the receive queue has
  its 264 bytes, the serial port goes on delivering, and a clock fires only when it is set.  Of
  their contents: channel maps received or configured name a channel, and the map measurement
  does not strike out the last one.  Nothing is assumed of the results of the firmware's own code.
\<close>

definition admissible :: "event \<Rightarrow> system \<Rightarrow> bool" where
  "admissible e s = (case e of
     Frame_received packet \<Rightarrow> 264 \<le> length packet \<and>
       (\<forall>f. rx_frame (ble4_cmd (sys_fw s)) packet = Some f \<longrightarrow> rx_map_ok (sys_fw s) f)
   | Loop_resumes r \<Rightarrow> length (rr_stack r) = 40 \<and> (closes_event (sys_point s) \<longrightarrow> strike_ok (sys_fw s))
   | Hop_fires \<Rightarrow> hop_pending (sys_fw s)
   | Stop_fires \<Rightarrow> stop_pending (sys_fw s)
   | Packet_sent \<Rightarrow> packet_items (sys_fw s) \<noteq> []
   | Command_received arrived inp \<Rightarrow> terminated (drop b64_size inp) \<and>
       (\<forall>ret b64 buf rest. messenger_recv arrived (sys_b64 s) (sys_msg s) inp = Some (ret, b64, buf, rest) \<longrightarrow>
          command_map_ok buf))"

definition sys_inv :: "bool \<Rightarrow> system \<Rightarrow> bool" where
  "sys_inv b s \<longleftrightarrow> inv b True True (sys_fw s) \<and> point_ok (sys_point s) \<and>
     length (sys_b64 s) = b64_size \<and> length (sys_msg s) = MESSAGE_MAX"

section \<open>The steps preserve the invariant\<close>

lemma recv_fail_shape: "recv_fail code b d inp = Some (ret, b', d', rest) \<Longrightarrow> ret = code \<and> b' = b \<and> d' = d"
  by (auto simp: recv_fail_def split: bind_splits)

lemma base64_decode_shape:
  assumes "length src mod 4 = 0" "length src \<le> 400" "length dst = 300"
    "base64_decode dst src = Some (dst', stat, n)"
  shows "length dst' = 300 \<and> n \<le> 300 \<and> stat \<le> 0"
proof -
  have "decoded_length src \<le> 300"
    using decoded_length_le [of src] assms(2) by simp
  then show ?thesis
    using base64_decode_total [OF assms(1), of dst] assms(3,4) by (auto split: if_splits)
qed

lemma recv_tail_shape:
  assumes "length b = 402" "length d = 300" "w \<le> 100" "recv_tail w b d inp = Some (ret, b', d', rest)"
  shows "length b' = 402 \<and> length d' = 300 \<and> ret \<le> 300"
proof (cases "b ! (w * 4) \<noteq> CR \<or> b ! (w * 4 + 1) \<noteq> LF")
  case True
  then have "recv_fail (-5) b d inp = Some (ret, b', d', rest)"
    using assms by (simp add: recv_tail_def Let_def)
  then show ?thesis
    using assms(1,2) by (auto dest: recv_fail_shape)
next
  case False
  then have eq: "recv_tail w b d inp = base64_decode d (take (w * 4) b) \<bind> (\<lambda>(d, stat, n).
      if stat < 0 then recv_fail (stat - 10) b d inp else Some (int n, b, d, inp))"
    using assms by (simp add: recv_tail_def Let_def)
  then obtain d1 stat n where d1: "base64_decode d (take (w * 4) b) = Some (d1, stat, n)"
    using assms(4) by (cases "base64_decode d (take (w * 4) b)") auto
  then have "length d1 = 300 \<and> n \<le> 300 \<and> stat \<le> 0"
    using assms(1,3) by (intro base64_decode_shape [OF _ _ assms(2)]) auto
  then show ?thesis
    using assms(1,4) eq d1 by (auto dest: recv_fail_shape split: if_splits)
qed

lemma recv_body_shape:
  assumes "length b = 402" "length d = 300" "recv_body arrived b d inp = Some (ret, b', d', rest)"
  shows "length b' = 402 \<and> length d' = 300 \<and> ret \<le> 300"
proof (cases "unat (d ! 0) * 3 > 300")
  case True
  then show ?thesis
    using assms by (auto simp: recv_body_def dest!: recv_fail_shape)
next
  case False
  let ?w = "unat (d ! 0)"
  obtain n bs inp' where more: "recv_more arrived ?w inp = (n, bs, inp')"
    by (cases "recv_more arrived ?w inp") auto
  then have "length bs \<le> n"
    by (auto simp: recv_more_def UART2_readTimeout_def Let_def split: if_splits)
  then show ?thesis
    using assms False more recv_tail_shape [of "overwrite b 6 bs" d ?w inp' ret b' d' rest]
    by (simp add: recv_body_def Let_def split: if_splits) (auto dest: recv_fail_shape)
qed

lemma messenger_recv_shape:
  assumes "length b = 402" "length d = 300" "messenger_recv arrived b d inp = Some (ret, b', d', rest)"
  shows "length b' = 402 \<and> length d' = 300 \<and> ret \<le> 300"
proof -
  obtain c inp1 where inp: "inp = c # inp1"
    using assms(3) by (cases inp) (auto simp: messenger_recv_def)
  obtain bs inp2 where read: "UART2_readTimeout (arrived 0) 5 inp1 = (bs, inp2)" "length bs \<le> 5"
    by (auto simp: UART2_readTimeout_def Let_def)
  define b1 where "b1 = overwrite b 0 (c # bs)"
  have len: "length b1 = 402" "length (take 4 b1) = 4"
    using assms(1) read(2) by (simp_all add: b1_def)
  have eq: "messenger_recv arrived b d inp =
      (if length bs < 5 then recv_fail (-1) b1 d inp2
       else do { (d, stat, n) \<leftarrow> base64_decode d (take 4 b1);
         if stat < 0 then recv_fail (-2) b1 d inp2 else recv_body (arrived 1) b1 d inp2 })"
    unfolding b1_def using assms(1) read by (simp add: messenger_recv_def inp Let_def)
  show ?thesis
  proof (cases "length bs < 5")
    case True
    then show ?thesis
      using assms len eq by (auto dest!: recv_fail_shape)
  next
    case False
    then obtain d1 stat n where d1: "base64_decode d (take 4 b1) = Some (d1, stat, n)"
      using assms(3) eq by (cases "base64_decode d (take 4 b1)") auto
    then have "length d1 = 300"
      using base64_decode_shape [OF _ _ assms(2) d1] len(2) by simp
    moreover have "(if stat < 0 then recv_fail (-2) b1 d1 inp2 else recv_body (arrived 1) b1 d1 inp2) =
        Some (ret, b', d', rest)"
      using assms(3) unfolding eq if_not_P [OF False] d1 by simp
    then have "(ret = -2 \<and> b' = b1 \<and> d' = d1) \<or> recv_body (arrived 1) b1 d1 inp2 = Some (ret, b', d', rest)"
      by (cases "stat < 0") (auto dest: recv_fail_shape)
    ultimately show ?thesis
      using len(1) by (elim disjE) (simp, rule recv_body_shape [OF len(1)])
  qed
qed

lemma inv_sent:
  assumes "inv b c d st" "packet_items st \<noteq> []"
  shows "\<exists>msg. packetTask_step st = Some (msg, st\<lparr>queue_tail := queue_tail st + 1\<rparr>)"
    "inv b c d (st\<lparr>queue_tail := queue_tail st + 1\<rparr>)"
proof -
  note ok = inv_queue [OF assms(1)]
  then show "\<exists>msg. packetTask_step st = Some (msg, st\<lparr>queue_tail := queue_tail st + 1\<rparr>)"
    by (rule packetTask_step_Some)
  have "packet_queue_ok (st\<lparr>queue_tail := queue_tail st + 1\<rparr>)"
    using packetq.inv_rem [OF ok assms(2)] packet_rem_tail [OF ok] by simp
  then show "inv b c d (st\<lparr>queue_tail := queue_tail st + 1\<rparr>)"
    using assms(1) by (simp add: inv_defs)
qed

lemma inv_commandTask:
  assumes "inv b c d st" "length b64 = 402" "length buf = 300"
    "messenger_recv arrived b64 buf inp = Some (ret, b64', buf', rest)" "b \<or> command_map_ok buf'"
  shows "outcome b (commandTask_step arrived b64 buf inp st)
    (\<lambda>(b64, buf, rest, st'). length b64 = 402 \<and> length buf = 300 \<and> inv b c d st')"
proof -
  have shape: "length b64' = 402 \<and> length buf' = 300 \<and> ret \<le> 300"
    using messenger_recv_shape [OF assms(2,3,4)] .
  then have "outcome b (command_dispatch ret buf' st) (inv b c d)"
    using assms(1,5) by (intro inv_command_dispatch) auto
  then show ?thesis
    using assms(4) shape by (cases "command_dispatch ret buf' st") (simp_all add: commandTask_step_def)
qed

lemma inv_ticks [simp]:
  "inv b c d (DelayHopTrigger_tick st) = inv b c d st" "inv b c d (DelayStopTrigger_tick st) = inv b c d st"
  by (simp_all add: DelayHopTrigger_tick_def DelayStopTrigger_tick_def RadioWrapper_trigAdv3_def RadioWrapper_stop_def)

lemma rx_frame_ok:
  assumes "264 \<le> length packet" "rx_frame ble4 packet = Some f"
  shows "rx_ok f"
proof -
  let ?l = "unat (packet ! 1) + 2"
  have "unat (packet ! 1) < 256"
    using unsigned_less [of "packet ! 1"] by simp
  moreover from this have "unat (of_nat ?l :: 14 word) = ?l"
    unfolding unat_of_nat by simp
  ultimately show ?thesis
    using assms by (auto simp: rx_frame_Some rx_ok_def flen_def)
qed

text \<open>The outcome of a step, with \<open>b\<close> as for the parts; under \<open>\<not> b\<close> the step exists.\<close>

lemma sys_step_outcome:
  assumes "sys_inv b s" "b \<or> admissible e s" "sys_step e s s'"
  shows "sys_inv b s'"
  using assms(3)
proof cases
  case (frame packet f st)
  have "b \<or> rx_map_ok (sys_fw s) f"
    using assms(2) frame by (auto simp: admissible_def)
  then have "outcome b (indicatePacket f (sys_fw s)) (inv b True True)"
    using assms(1) rx_frame_ok [OF frame(3,4)] by (intro inv_indicatePacket) (simp_all add: sys_inv_def)
  then show ?thesis
    using assms(1) frame by (simp add: sys_inv_def)
next
  case (loop r p st)
  have "b \<or> (closes_event (sys_point s) \<longrightarrow> strike_ok (sys_fw s))"
    using assms(2) loop by (auto simp: admissible_def)
  then have "outcome b (loop_resume r (sys_point s) (sys_fw s)) (point_inv b True True)"
    using assms(1) loop(3) by (intro inv_loop_resume [where d = True]) (simp_all add: sys_inv_def)
  then show ?thesis
    using assms(1) loop by (simp add: sys_inv_def)
next
  case (sent msg st)
  then show ?thesis
    using assms(1) inv_sent [of b True True "sys_fw s"] by (auto simp: sys_inv_def)
next
  case (command arrived inp b64 buf rest st)
  then obtain ret where recv: "messenger_recv arrived (sys_b64 s) (sys_msg s) inp = Some (ret, b64, buf, rest)"
    by (auto simp: commandTask_step_def split: bind_splits)
  then have "b \<or> command_map_ok buf"
    using assms(2) command(1) by (auto simp: admissible_def)
  then have "outcome b (commandTask_step arrived (sys_b64 s) (sys_msg s) inp (sys_fw s))
      (\<lambda>(b64, buf, rest, st'). length b64 = 402 \<and> length buf = 300 \<and> inv b True True st')"
    using assms(1) recv by (intro inv_commandTask) (auto simp: sys_inv_def)
  then show ?thesis
    using assms(1) command by (simp add: sys_inv_def)
qed (use assms(1) in \<open>simp_all add: sys_inv_def\<close>)

lemma admissible_step:
  assumes "sys_inv False s" "admissible e s"
  shows "\<exists>s'. sys_step e s s'"
proof (cases e)
  case (Frame_received packet)
  then have len: "264 \<le> length packet"
    using assms(2) by (simp add: admissible_def)
  then obtain f where f: "264 \<le> length packet" "rx_frame (ble4_cmd (sys_fw s)) packet = Some f" "rx_map_ok (sys_fw s) f"
    using assms(2) rx_frame_Some [OF len, of "ble4_cmd (sys_fw s)"] Frame_received by (simp add: admissible_def)
  then have "outcome False (indicatePacket f (sys_fw s)) (inv False True True)"
    using assms(1) rx_frame_ok [OF f(1,2)] by (intro inv_indicatePacket) (simp_all add: sys_inv_def)
  then show ?thesis
    using f Frame_received by (auto dest!: outcome_total simp: sys_step_simps)
next
  case (Loop_resumes r)
  then have "length (rr_stack r) = 40" "closes_event (sys_point s) \<longrightarrow> strike_ok (sys_fw s)"
    using assms(2) by (auto simp: admissible_def)
  then have "outcome False (loop_resume r (sys_point s) (sys_fw s)) (point_inv False True True)"
    using assms(1) by (intro inv_loop_resume [where d = True]) (simp_all add: sys_inv_def)
  then show ?thesis
    using Loop_resumes \<open>length (rr_stack r) = 40\<close> by (auto dest!: outcome_total simp: sys_step_simps)
next
  case Packet_sent
  then have "inv False True True (sys_fw s)" "packet_items (sys_fw s) \<noteq> []"
    using assms by (auto simp: sys_inv_def admissible_def)
  then show ?thesis
    using inv_sent(1) [of False True True "sys_fw s"] Packet_sent by (auto simp: sys_step_simps)
next
  case (Command_received arrived inp)
  then have "terminated (drop b64_size inp)" and ok: "\<And>ret b64 buf rest.
      messenger_recv arrived (sys_b64 s) (sys_msg s) inp = Some (ret, b64, buf, rest) \<Longrightarrow> command_map_ok buf"
    using assms(2) by (auto simp: admissible_def)
  then obtain xs ys where "drop b64_size inp = xs @ CR # LF # ys"
    using terminated_split by blast
  then have inp: "inp = (take b64_size inp @ xs) @ CR # LF # ys" "b64_size \<le> length (take b64_size inp @ xs)"
    using append_take_drop_id [of b64_size inp] by (simp_all, cases "length inp < b64_size") simp_all
  have "recv_returns ys (messenger_recv arrived (sys_b64 s) (sys_msg s) inp)"
    by (subst inp(1), rule messenger_recv_recv_returns) (use assms(1) inp(2) in \<open>simp_all add: sys_inv_def\<close>)
  then obtain ret b64 buf rest where recv: "messenger_recv arrived (sys_b64 s) (sys_msg s) inp = Some (ret, b64, buf, rest)"
    "command_map_ok buf"
    using ok by (auto simp: recv_returns_def)
  then have "outcome False (commandTask_step arrived (sys_b64 s) (sys_msg s) inp (sys_fw s))
      (\<lambda>(b64, buf, rest, st'). length b64 = 402 \<and> length buf = 300 \<and> inv False True True st')"
    using assms(1) by (intro inv_commandTask) (auto simp: sys_inv_def)
  then show ?thesis
    using Command_received by (auto dest!: outcome_total simp: sys_step_simps)
qed (use assms(2) in \<open>auto simp: admissible_def sys_step_simps\<close>)

interpretation firmware: step_invariant sys_step "sys_inv True"
  by unfold_locales (erule sys_step_outcome [rotated 2], simp_all)

interpretation firmware_safe: safe_steps sys_step admissible "sys_inv False"
  by unfold_locales (blast intro: sys_step_outcome admissible_step)+

section \<open>The initial state\<close>

lemma sys_inv_init:
  assumes "board_ok brd"
  shows "sys_inv False (sys_init brd clk)"
proof -
  let ?st = "fw_init brd clk"
  define st where "st = ?st\<lparr>tx_q := TXQueue_init (tx_q ?st)\<rparr>"
  have start: "radio_task_start True ?st = st \<or> radio_task_start True ?st = st\<lparr>configured := True\<rparr>"
    by (auto simp: radio_task_start_def RadioWrapper_init_def st_def Let_def split: option.split)
  have tx: "tx_queue_ok (TXQueue_init (tx_q ?st))"
    by (rule TXQueue_init_ok) (simp_all add: fw_init_def tx_entry_init_def)
  have links: "tx_links_ok (TXQueue_init (tx_q ?st))" "tx_maps_ok (TXQueue_init (tx_q ?st))"
    by (simp_all add: TXQueue_init_def TXQueue_init_entry_def tx_links_ok_def tx_maps_ok_def fw_init_def tx_entry_init_def)
  have "conf_queue_ok (rconf_queue ?st)" "packet_queue_ok ?st" "csa2_wf (csa2_st ?st)" "channel_table_ok (mapping_table ?st)"
    "arrays_ok ?st" "adv_cache_ok (adv_cache_st ?st)"
    by (simp_all add: fw_init_def conf_queue_ok_def packet_queue_ok_def frame_init_def csa2_wf_def csa2_init_def
        channel_table_ok_def arrays_ok_def adv_cache_ok_def adv_cache_init_def ring_size_def)
  moreover have "rpa_ok (rpa_st ?st)"
    by (simp add: fw_init_def rpa_init_ok)
  moreover have "conf_items (rconf_queue ?st) = []"
    by (simp add: conf_items_def fw_init_def ring_list_empty_iff ring_size_def)
  moreover have "board_conf ?st = brd" "curUnmapped ?st = 0" "sniffDoneState ?st = STATIC" "snifferState ?st = STATIC"
    "\<not> gotAuxConnReq ?st"
    by (simp_all add: fw_init_def)
  ultimately have "inv False True True (?st\<lparr>tx_q := TXQueue_init (tx_q ?st)\<rparr>)"
    using assms tx links
    by (simp add: inv_def radio_ok_def maps_ok_def inDataState_def queued_maps_ok_def packet_queue_ok_def arrays_ok_def)
  then have "inv False True True (radio_task_start True ?st)"
    using start unfolding st_def [symmetric] by auto
  then show ?thesis
    by (simp add: sys_inv_def sys_init_def)
qed

section \<open>Properties\<close>

text \<open>
  C1. From start-up, whatever frames, radio results, clocks, transmissions and commands came before,
  in any order, every task and handler that is run next finishes its run without a read or write
  outside an object and without a division by zero.  The conditions are on the environment:
  receive entries of 264 bytes, a serial port that goes on delivering, clocks that fire only when
  set, a packet task run only when a frame waits, channel maps from the air and the host that name a channel, and a map measurement that
  keeps one.  Signed products that overflow wrap (supervision timeouts above 53687 units).
\<close>

theorem firmware_never_stuck:
  assumes "board_ok brd"
    and "runs (\<lambda>e s s'. admissible e s \<and> sys_step e s s') (sys_init brd clk) es s"
    and "admissible e s"
  shows "\<exists>s'. sys_step e s s'"
  using firmware_safe.never_stuck [OF assms(2) sys_inv_init [OF assms(1)] assms(3)] .

lemma firmware_never_stuck_witness:
  "\<exists>s'. sys_step (Loop_resumes \<lparr>rr_status = BLE_STATUS_OTHER, rr_status38 = BLE_STATUS_OTHER, rr_status39 = BLE_STATUS_OTHER,
     rr_numSent = 0, rr_connTime = 0, rr_rxListenTime = 0, rr_phyMode = 0, rr_stack = replicate 40 0\<rparr>)
     (sys_init \<lparr>tickPeriod = 10, txPowerTable = [(0, 0)]\<rparr> (\<lambda>_. 0)) s'"
  by (rule firmware_never_stuck [OF _ runs_start])
    (simp_all add: board_ok_def admissible_def sys_init_def)

text \<open>
  C4. In every reachable state, whatever the frames and commands were, the radio task's data
  structures are well formed: the three rings hold at most seven elements, the links of the
  transmit queue, every array and every index into one are in bounds, the channel tables
  contain data channels only, and the caches are consistent.
\<close>

theorem firmware_invariant:
  assumes "board_ok brd" "runs sys_step (sys_init brd clk) es s"
  shows "radio_ok (sys_fw s) \<and> length (sys_b64 s) = b64_size \<and> length (sys_msg s) = MESSAGE_MAX"
proof -
  have "sys_inv True (sys_init brd clk)"
    using sys_inv_init [OF assms(1)] by (auto simp: sys_inv_def inv_def)
  then have "sys_inv True s"
    by (rule firmware.runs_invariant [OF assms(2)])
  then show ?thesis
    by (simp add: sys_inv_def inv_def)
qed

lemma firmware_invariant_witness:
  "\<exists>s. runs sys_step (sys_init \<lparr>tickPeriod = 10, txPowerTable = [(0, 0)]\<rparr> (\<lambda>_. 0))
     [Loop_resumes \<lparr>rr_status = BLE_STATUS_OTHER, rr_status38 = BLE_STATUS_OTHER, rr_status39 = BLE_STATUS_OTHER,
       rr_numSent = 0, rr_connTime = 0, rr_rxListenTime = 0, rr_phyMode = 0, rr_stack = replicate 40 0\<rparr>] s \<and>
     radio_ok (sys_fw s)"
proof -
  let ?init = "sys_init \<lparr>tickPeriod = 10, txPowerTable = [(0, 0)]\<rparr> (\<lambda>_. 0)"
  let ?e = "Loop_resumes \<lparr>rr_status = BLE_STATUS_OTHER, rr_status38 = BLE_STATUS_OTHER,
    rr_status39 = BLE_STATUS_OTHER, rr_numSent = 0, rr_connTime = 0, rr_rxListenTime = 0, rr_phyMode = 0,
    rr_stack = replicate 40 0\<rparr>"
  have board: "board_ok \<lparr>tickPeriod = 10, txPowerTable = [(0, 0)]\<rparr>"
    by (simp add: board_ok_def)
  have "admissible ?e ?init"
    by (simp add: admissible_def sys_init_def)
  then obtain s where "sys_step ?e ?init s"
    using admissible_step [OF sys_inv_init [OF board]] by blast
  then have run: "runs sys_step ?init [?e] s"
    using runs_more [OF runs_start] by fastforce
  then show ?thesis
    using firmware_invariant [OF board run] by blast
qed

end
