(* ===== verification/Reach.thy ===== *)
theory Reach
  imports Conn_Start Firmware_System
begin

text \<open>
  What every operation of the firmware keeps, beside the invariant of \<open>Radio_Inv\<close>: in a connection
  mode the channel tables are those of the connection's address and current map, and the frames on
  their way to the host are the received ones, in order, with nothing but reports added.  One
  lemma per operation, composed to one for every step of the firmware.
\<close>

unbundle bit_operations_syntax

section \<open>The property\<close>

text \<open>The modes outside a connection; the one entered at its end is one of them.\<close>

definition outside :: "sniffer_state \<Rightarrow> bool" where
  "outside s \<longleftrightarrow> s \<notin> {DATA, CENTRAL, PERIPHERAL}"

definition linked :: "fw \<Rightarrow> bool" where
  "linked st \<longleftrightarrow> (inDataState st \<longrightarrow> tables_ok st) \<and> csa2_ok (csa2_st st) \<and> configured st \<and>
     outside (sniffDoneState st)"

text \<open>The queued frames that are not reports of the firmware itself.\<close>

definition is_report :: "ble_frame \<Rightarrow> bool" where
  "is_report f \<longleftrightarrow> f_channel f \<in> {MSGCHAN_DEBUG, MSGCHAN_MARKER, MSGCHAN_STATE, MSGCHAN_MEASURE}"

definition host_items :: "fw \<Rightarrow> ble_frame list" where
  "host_items st = filter (\<lambda>f. \<not> is_report f) (packet_items st)"

text \<open>No queued frame is too long to be sent.\<close>

definition sendable :: "fw \<Rightarrow> bool" where
  "sendable st \<longleftrightarrow> (\<forall>f\<in>set (packet_items st). flen f \<le> PACKET_SIZE)"

definition kept :: "bool \<Rightarrow> ble_frame list \<Rightarrow> fw \<Rightarrow> bool" where
  "kept lk items st \<longleftrightarrow> (lk \<longrightarrow> linked st) \<and> packet_queue_ok st \<and> sendable st \<and> host_items st = items"

lemmas kept_defs = kept_def linked_def tables_ok_def packet_queue_ok_def host_items_def sendable_def packet_items_def

named_theorems links \<open>operations that keep the link\<close>

lemma kept_hw [simp]:
  "kept lk items (st\<lparr>clock_reads := n\<rparr>) = kept lk items st"
  "kept lk items (st\<lparr>hw_trace := tr\<rparr>) = kept lk items st"
  "kept lk items (emit e st) = kept lk items st"
  "kept lk items (st\<lparr>hop_pending := p\<rparr>) = kept lk items st"
  "kept lk items (st\<lparr>hop_target_ticks := w\<rparr>) = kept lk items st"
  "kept lk items (st\<lparr>stop_pending := p\<rparr>) = kept lk items st"
  "kept lk items (st\<lparr>stop_target_ticks := w\<rparr>) = kept lk items st"
  "kept lk items (st\<lparr>ble4_cmd := p\<rparr>) = kept lk items st"
  "kept lk items (st\<lparr>master_seqStat := s\<rparr>) = kept lk items st"
  "kept lk items (st\<lparr>slave_seqStat := s\<rparr>) = kept lk items st"
  by (simp_all add: kept_defs inDataState_def emit_def)

lemma linked_queue: "linked (st\<lparr>hw_trace := tr, s_frames := fs, queue_head := h\<rparr>) = linked st"
  by (simp add: linked_def tables_ok_def inDataState_def)

lemma kept_filter [simp]:
  "kept lk items (st\<lparr>minRssi := r\<rparr>) = kept lk items st"
  "kept lk items (st\<lparr>targMac := l\<rparr>) = kept lk items st"
  "kept lk items (st\<lparr>filterMacs := p\<rparr>) = kept lk items st"
  "kept lk items (st\<lparr>targIrk := l\<rparr>) = kept lk items st"
  "kept lk items (st\<lparr>filterRpas := p\<rparr>) = kept lk items st"
  "kept lk items (st\<lparr>rpa_st := rs\<rparr>) = kept lk items st"
  by (simp_all add: kept_defs inDataState_def)

lemma kept_adv [simp]:
  "kept lk items (st\<lparr>statChan := v\<rparr>) = kept lk items st"
  "kept lk items (st\<lparr>statPHY := ph\<rparr>) = kept lk items st"
  "kept lk items (st\<lparr>statCRCI := w\<rparr>) = kept lk items st"
  "kept lk items (st\<lparr>fastAdvHop := p\<rparr>) = kept lk items st"
  "kept lk items (st\<lparr>gotLegacy38 := p\<rparr>) = kept lk items st"
  "kept lk items (st\<lparr>gotLegacy39 := p\<rparr>) = kept lk items st"
  "kept lk items (st\<lparr>gotAuxConnReq := p\<rparr>) = kept lk items st"
  "kept lk items (st\<lparr>lastAdvTimestamp := w\<rparr>) = kept lk items st"
  "kept lk items (st\<lparr>sniffScanRspLen := w\<rparr>) = kept lk items st"
  "kept lk items (st\<lparr>postponed := p\<rparr>) = kept lk items st"
  "kept lk items (st\<lparr>advHopEnabled := p\<rparr>) = kept lk items st"
  "kept lk items (st\<lparr>auxAdvEnabled := p\<rparr>) = kept lk items st"
  "kept lk items (st\<lparr>followConnections := p\<rparr>) = kept lk items st"
  "kept lk items (st\<lparr>validateCrc := p\<rparr>) = kept lk items st"
  "kept lk items (st\<lparr>adv_cache_st := ac\<rparr>) = kept lk items st"
  "kept lk items (st\<lparr>aux_events := xs\<rparr>) = kept lk items st"
  by (simp_all add: kept_defs inDataState_def)

lemma kept_conn [simp]:
  "kept lk items (st\<lparr>rconf_queue := q\<rparr>) = kept lk items st"
  "kept lk items (st\<lparr>curUnmapped := v\<rparr>) = kept lk items st"
  "kept lk items (st\<lparr>hopIncrement := v\<rparr>) = kept lk items st"
  "kept lk items (st\<lparr>crcInit := w\<rparr>) = kept lk items st"
  "kept lk items (st\<lparr>nextHopTime := w\<rparr>) = kept lk items st"
  "kept lk items (st\<lparr>connEventCount := w\<rparr>) = kept lk items st"
  "kept lk items (st\<lparr>connTimeoutTime := w\<rparr>) = kept lk items st"
  "kept lk items (st\<lparr>ll_encryption := p\<rparr>) = kept lk items st"
  "kept lk items (st\<lparr>firstPacket := p\<rparr>) = kept lk items st"
  "kept lk items (st\<lparr>anchorOffset := ws\<rparr>) = kept lk items st"
  "kept lk items (st\<lparr>aoInd := w\<rparr>) = kept lk items st"
  "kept lk items (st\<lparr>lastAnchorTicks := w\<rparr>) = kept lk items st"
  "kept lk items (st\<lparr>intervalTicks := ws\<rparr>) = kept lk items st"
  "kept lk items (st\<lparr>itInd := w\<rparr>) = kept lk items st"
  "kept lk items (st\<lparr>chanMapTestMask := m\<rparr>) = kept lk items st"
  "kept lk items (st\<lparr>moreData := v\<rparr>) = kept lk items st"
  "kept lk items (st\<lparr>g_pkt_dir := v\<rparr>) = kept lk items st"
  by (simp_all add: kept_defs inDataState_def)

lemma kept_fw [simp]:
  "kept lk items (st\<lparr>numParamPairs := w\<rparr>) = kept lk items st"
  "kept lk items (st\<lparr>preloadedParamIndex := w\<rparr>) = kept lk items st"
  "kept lk items (st\<lparr>connParamPairs := hs\<rparr>) = kept lk items st"
  "kept lk items (st\<lparr>connUpdateInstant := h\<rparr>) = kept lk items st"
  "kept lk items (st\<lparr>prevInterval := h\<rparr>) = kept lk items st"
  "kept lk items (st\<lparr>timeDelta := h\<rparr>) = kept lk items st"
  "kept lk items (st\<lparr>ignoreEncPhyChange := p\<rparr>) = kept lk items st"
  "kept lk items (st\<lparr>preloadedPhy := ph\<rparr>) = kept lk items st"
  "kept lk items (st\<lparr>instaHop := p\<rparr>) = kept lk items st"
  "kept lk items (st\<lparr>ourAddrRandom := p\<rparr>) = kept lk items st"
  "kept lk items (st\<lparr>peerAddrRandom := p\<rparr>) = kept lk items st"
  "kept lk items (st\<lparr>ourAddr := l\<rparr>) = kept lk items st"
  "kept lk items (st\<lparr>peerAddr := l\<rparr>) = kept lk items st"
  "kept lk items (st\<lparr>connReqLLData := l\<rparr>) = kept lk items st"
  by (simp_all add: kept_defs inDataState_def)

lemma kept_transmit [simp]:
  "kept lk items (st\<lparr>s_advMode := am\<rparr>) = kept lk items st"
  "kept lk items (st\<lparr>s_advExtMode := em\<rparr>) = kept lk items st"
  "kept lk items (st\<lparr>s_primaryAdvPhy := ph\<rparr>) = kept lk items st"
  "kept lk items (st\<lparr>s_secondaryAdvPhy := ph\<rparr>) = kept lk items st"
  "kept lk items (st\<lparr>s_advIntervalMs := h\<rparr>) = kept lk items st"
  "kept lk items (st\<lparr>s_adi := h\<rparr>) = kept lk items st"
  "kept lk items (st\<lparr>s_secondaryAdvChan := v\<rparr>) = kept lk items st"
  "kept lk items (st\<lparr>s_advLen := v\<rparr>) = kept lk items st"
  "kept lk items (st\<lparr>s_advData := l\<rparr>) = kept lk items st"
  "kept lk items (st\<lparr>s_scanRspLen := v\<rparr>) = kept lk items st"
  "kept lk items (st\<lparr>s_scanRspData := l\<rparr>) = kept lk items st"
  "kept lk items (st\<lparr>tx_q := q\<rparr>) = kept lk items st"
  by (simp_all add: kept_defs inDataState_def)

lemma outcome_any: "(\<And>x. P x) \<Longrightarrow> outcome True m P"
  by (cases m) simp_all

lemma link_bind:
  "outcome True m (kept lk items) \<Longrightarrow> (\<And>st. kept lk items st \<Longrightarrow> outcome True (f st) P) \<Longrightarrow> outcome True (m \<bind> f) P"
  by (cases m) simp_all

section \<open>Reports, time and triggers\<close>

lemma flen_frame_view [simp]: "flen (frame_view f) = flen f"
  by (simp add: frame_view_def flen_def)

lemma frame_view_report [simp]: "is_report (frame_view f) = is_report f"
  by (simp add: is_report_def frame_view_def)

text \<open>A frame is queued or dropped, and nothing else is touched.\<close>

lemma enqueueFrame_items:
  assumes "packet_queue_ok st" "enqueueFrame f st = Some st'"
  shows "packet_queue_ok st' \<and> (packet_items st' = packet_items st \<or>
    packet_items st' = packet_items st @ [frame_view f] \<and> flen f \<le> PACKET_SIZE)"
proof -
  have len: "flen f \<le> length (f_pData f)" if "\<not> flen f > PACKET_SIZE" "(queue_head st - queue_tail st) AND 7 \<noteq> 7"
    using assms(2) that by (auto simp: enqueueFrame_def rds_def split: if_splits)
  consider "st' = st" | "length (packet_items st) < 7" "frame_ok f"
    using assms len length_packet_items [of st] masked_full [of "queue_head st" "queue_tail st"]
    by (fastforce simp: enqueueFrame_def frame_ok_def packet_queue_ok_def split: if_splits)
  then show ?thesis
  proof cases
    case 1
    then show ?thesis using assms(1) by simp
  next
    case 2
    obtain st'' where "enqueueFrame f st = Some st''" "packet_queue_ok st''" "packet_items st'' = packet_items st @ [frame_view f]"
      using enqueueFrame_room [OF assms(1) 2] by blast
    then show ?thesis
      using assms(2) 2(2) by (simp add: frame_ok_def)
  qed
qed

lemma kept_enqueueFrame:
  assumes "kept lk items st" "enqueueFrame f st = Some st'"
  shows "kept lk items st' \<or> \<not> is_report f \<and> kept lk (items @ [frame_view f]) st'"
proof -
  have "lk \<longrightarrow> linked st'"
    using assms(1) enqueueFrame_frame [OF assms(2)] by (metis kept_def linked_queue)
  then show ?thesis
    using assms(1) enqueueFrame_items [OF _ assms(2)] by (auto simp: kept_def host_items_def sendable_def)
qed

lemma kept_report [links]: "kept lk items st \<Longrightarrow> is_report f \<Longrightarrow> outcome True (enqueueFrame f st) (kept lk items)"
  using kept_enqueueFrame [of lk items st f] by (cases "enqueueFrame f st") auto

lemma report_is_report [simp]:
  "is_report (report_frame MSGCHAN_DEBUG t n buf)" "is_report (report_frame MSGCHAN_MARKER t n buf)"
  "is_report (report_frame MSGCHAN_STATE t n buf)" "is_report (report_frame MSGCHAN_MEASURE t n buf)"
  by (simp_all add: is_report_def report_frame_def)

lemma kept_reports [links]:
  "kept lk items st \<Longrightarrow> outcome True (reportMeasInterval i st) (kept lk items)"
  "kept lk items st \<Longrightarrow> outcome True (reportMeasChanMap m st) (kept lk items)"
  "kept lk items st \<Longrightarrow> outcome True (reportMeasAdvHop h st) (kept lk items)"
  "kept lk items st \<Longrightarrow> outcome True (reportMeasWinOffset i st) (kept lk items)"
  "kept lk items st \<Longrightarrow> outcome True (reportMeasDeltaInstant i st) (kept lk items)"
  "kept lk items st \<Longrightarrow> outcome True (reportVersion st) (kept lk items)"
  "kept lk items st \<Longrightarrow> outcome True (dprintf txt st) (kept lk items)"
  by (simp_all add: reportMeasInterval_def reportMeasChanMap_def reportMeasAdvHop_def reportMeasWinOffset_def
      reportMeasDeltaInstant_def reportVersion_def reportMeasurement_def dprintf_def Let_def kept_report)

lemma kept_stateTransition:
  "kept lk items (st\<lparr>snifferState := s\<rparr>) \<Longrightarrow> outcome True (stateTransition s st) (kept lk items)"
  by (simp add: stateTransition_def kept_report)

lemma inDataState_outside: "inDataState st \<longleftrightarrow> \<not> outside (snifferState st)"
  by (cases "snifferState st") (simp_all add: inDataState_def outside_def)

text \<open>Outside the connection modes nothing is asked of the tables.\<close>

lemma kept_outside: "kept lk items st \<Longrightarrow> lk \<longrightarrow> outside s \<Longrightarrow> kept lk items (st\<lparr>snifferState := s\<rparr>)"
  by (simp add: kept_defs inDataState_outside)

lemma kept_mode: "outside (snifferState st) \<Longrightarrow> kept lk items st \<longleftrightarrow> (lk \<longrightarrow> csa2_ok (csa2_st st) \<and> configured st \<and>
     outside (sniffDoneState st)) \<and> packet_queue_ok st \<and> sendable st \<and> host_items st = items"
  by (simp add: kept_def linked_def inDataState_outside)

lemma kept_base [simp]:
  "packet_queue_ok (st\<lparr>accessAddress := w\<rparr>) = packet_queue_ok (st :: fw)"
  "packet_queue_ok (st\<lparr>aux_events := xs\<rparr>) = packet_queue_ok (st :: fw)"
  "host_items (st\<lparr>accessAddress := w\<rparr>) = host_items st"
  "host_items (st\<lparr>aux_events := xs\<rparr>) = host_items st"
  "sendable (st\<lparr>accessAddress := w\<rparr>) = sendable st"
  "sendable (st\<lparr>aux_events := xs\<rparr>) = sendable st"
  by (simp_all add: packet_queue_ok_def host_items_def sendable_def packet_items_def)

lemma outside_modes [simp]:
  "outside STATIC" "outside ADVERT_SEEK" "outside ADVERT_HOP" "outside PAUSED" "outside INITIATING"
  "outside ADVERTISING" "outside SCANNING" "outside ADVERTISING_EXT"
  by (simp_all add: outside_def)

lemma kept_times [simp]:
  "kept lk items (snd (RF_getCurrentTime st)) = kept lk items st"
  "kept lk items (RadioWrapper_stop st) = kept lk items st"
  "kept lk items (RadioWrapper_trigAdv3 st) = kept lk items st"
  "kept lk items (RadioWrapper_resetSeqStat st) = kept lk items st"
  "kept lk items (DelayHopTrigger_trig us st) = kept lk items st"
  "kept lk items (DelayHopTrigger_postpone us st) = kept lk items st"
  "kept lk items (DelayHopTrigger_tick st) = kept lk items st"
  "kept lk items (DelayStopTrigger_trig us st) = kept lk items st"
  "kept lk items (DelayStopTrigger_tick st) = kept lk items st"
  by (simp_all add: RF_getCurrentTime_def RadioWrapper_stop_def RadioWrapper_trigAdv3_def RadioWrapper_resetSeqStat_def
      DelayHopTrigger_trig_def DelayHopTrigger_postpone_def DelayHopTrigger_tick_def DelayStopTrigger_trig_def
      DelayStopTrigger_tick_def Let_def)

section \<open>The start and the end of a connection\<close>

lemma kept_enter: "kept lk items st \<Longrightarrow> lk \<longrightarrow> outside s \<Longrightarrow> outcome True (stateTransition s st) (kept lk items)"
  by (rule kept_stateTransition [OF kept_outside])

lemma kept_set_rconf [simp]:
  "kept lk items (set_rconf (\<lambda>c. c\<lparr>hopIntervalTicks := t\<rparr>) st) = kept lk items st"
  "kept lk items (set_rconf (\<lambda>c. c\<lparr>winOffsetCertain := p\<rparr>) st) = kept lk items st"
  "kept lk items (set_rconf (\<lambda>c. c\<lparr>chanMapCertain := p\<rparr>) st) = kept lk items st"
  "kept lk items (set_rconf (\<lambda>c. c\<lparr>hopIntervalTicks := t, intervalCertain := p\<rparr>) st) = kept lk items st"
  "kept lk items (set_rconf (\<lambda>c. c\<lparr>winOffsetCertain := p, intervalCertain := q, hopIntervalTicks := t\<rparr>) st) = kept lk items st"
  by (simp_all add: set_rconf_def kept_defs inDataState_def)

lemma kept_advHopSeekMode [links]: "kept lk items st \<Longrightarrow> outcome True (advHopSeekMode st) (kept lk items)"
  by (simp add: advHopSeekMode_def Let_def, rule link_bind, rule kept_enter) simp_all

lemma kept_handleConnFinished [links]:
  assumes "kept lk items st"
  shows "outcome True (handleConnFinished st) (kept lk items)"
proof (cases "stateTransition (sniffDoneState st) st")
  case (Some st1)
  have ended: "lk \<longrightarrow> outside (sniffDoneState st)"
    using assms by (simp add: kept_def linked_def)
  have "snifferState st1 = sniffDoneState st"
    using arg_cong [OF stateTransition_frame [OF Some], of snifferState] by simp
  moreover have "kept lk items st1"
    using kept_enter [OF assms ended] by (simp add: Some)
  ultimately have "kept lk items (st1\<lparr>accessAddress := BLE_ADV_AA, aux_events := AuxAdvScheduler_reset (aux_events st1)\<rparr>)"
    using ended by (cases lk) (simp_all add: kept_mode kept_base, simp add: kept_def)
  then show ?thesis
    by (simp add: handleConnFinished_def Some Let_def kept_advHopSeekMode)
qed (simp add: handleConnFinished_def)

text \<open>The maps are computed from a state that agrees with a kept one where nothing else checks it.\<close>

definition same_base :: "fw \<Rightarrow> fw \<Rightarrow> bool" where
  "same_base st st' \<longleftrightarrow> csa2_st st' = csa2_st st \<and> configured st' = configured st \<and> sniffDoneState st' = sniffDoneState st \<and>
     s_frames st' = s_frames st \<and> queue_head st' = queue_head st \<and> queue_tail st' = queue_tail st"

lemma kept_computeMaps:
  assumes "kept lk items st0" "same_base st0 st"
  shows "outcome True (computeMaps st) (\<lambda>st'. kept lk items st' \<and> (lk \<longrightarrow> tables_ok st') \<and> snifferState st' = snifferState st)"
proof (cases "computeMaps st")
  case (Some st')
  have "lk \<longrightarrow> csa2_ok (csa2_st st)"
    using assms by (simp add: kept_def linked_def same_base_def)
  then have "lk \<longrightarrow> tables_ok st' \<and> csa2_ok (csa2_st st')"
    using computeMaps_tables [OF Some] by simp
  moreover have "configured st' = configured st" "sniffDoneState st' = sniffDoneState st" "snifferState st' = snifferState st"
    "s_frames st' = s_frames st" "queue_head st' = queue_head st" "queue_tail st' = queue_tail st"
    by (use Some in \<open>auto simp: computeMaps_def split: if_splits bind_splits\<close>)
  ultimately show ?thesis
    using Some assms by (simp add: kept_def linked_def same_base_def packet_queue_ok_def host_items_def sendable_def
        packet_items_def)
qed simp

lemma kept_handleConnReq:
  assumes "kept lk items st"
  shows "outcome True (handleConnReq phy t ll aux (st\<lparr>use_csa2 := b\<rparr>))
    (\<lambda>st'. kept lk items st' \<and> (lk \<longrightarrow> tables_ok st') \<and> snifferState st' = snifferState st)"
proof -
  let ?m = "\<lambda>aa hop crc chmap. computeMaps (set_rconf (\<lambda>c. c\<lparr>chanMap := chmap, chanMapCertain := True\<rparr>)
    (st\<lparr>use_csa2 := b, accessAddress := aa, hopIncrement := hop AND 0x1F, crcInit := crc AND 0xFFFFFF,
       ll_encryption := False, curUnmapped := hop AND 0x1F\<rparr>))"
  have "outcome True (?m aa hop crc chmap) (\<lambda>st'. kept lk items st' \<and> (lk \<longrightarrow> tables_ok st') \<and> snifferState st' = snifferState st)"
    for aa hop crc chmap
    by (rule outcome_mono, rule kept_computeMaps [OF assms]) (simp_all add: set_rconf_def same_base_def)
  note step = this
  show ?thesis
    unfolding handleConnReq_def Let_def outcome_bind
    by (rule outcome_any, rule outcome_any, rule outcome_any, rule outcome_any, simp, rule outcome_mono [OF step])
      (auto simp: set_rconf_def kept_defs inDataState_def intro!: outcome_any)
qed

section \<open>Connection events\<close>

lemma kept_recompute: "kept lk items st \<Longrightarrow> same_base st st' \<Longrightarrow> outcome True (computeMaps st') (kept lk items)"
  by (rule outcome_mono, erule (1) kept_computeMaps) simp

lemma kept_measure_chanMap [links]:
  assumes "kept lk items st"
  shows "outcome True (measure_chanMap st) (kept lk items)"
proof -
  have "outcome True (computeMaps (set_rconf f st)) (kept lk items)" for f
    by (rule kept_recompute [OF assms]) (simp add: set_rconf_def same_base_def)
  note strike = this
  show ?thesis
    unfolding measure_chanMap_def outcome_bind
    by (rule outcome_any, rule outcome_any, unfold outcome_bind [symmetric], rule link_bind)
      (use assms in \<open>auto simp: Let_def strike intro!: kept_reports\<close>)
qed

lemma kept_measure_winOffset: "kept lk items st \<Longrightarrow> outcome True (measure_winOffset st) (kept lk items)"
  unfolding measure_winOffset_def Let_def by (auto intro!: link_bind kept_reports)

lemma kept_measure_median: "kept lk items st \<Longrightarrow> outcome True (measure_median st) (kept lk items)"
  unfolding measure_median_def Let_def by (auto simp: split_def intro!: link_bind kept_reports)

lemma kept_measure_interval [links]: "kept lk items st \<Longrightarrow> outcome True (measure_interval st) (kept lk items)"
  by (simp add: measure_interval_def kept_measure_winOffset kept_measure_median)

lemma outcome_map_option: "outcome b (map_option f m) P = outcome b m (\<lambda>x. P (f x))"
  by (cases m) simp_all

lemma kept_event_tail [simp]: "kept lk items (event_tail peripheral changed st) = kept lk items st"
  by (simp add: event_tail_def)

lemma rconf_dequeue_unchanged: "rconf_dequeue n c q = (False, c', q') \<Longrightarrow> c' = c"
  by (auto simp: rconf_dequeue_def Let_def split: if_splits)

lemma kept_next_event [links]:
  assumes "kept lk items st"
  shows "outcome True (next_event peripheral st) (kept lk items)"
proof -
  obtain changed c q where d: "rconf_dequeue (ucast (connEventCount st + 1)) (rconf st) (rconf_queue st) = (changed, c, q)"
    by (metis prod_cases3)
  show ?thesis
  proof (cases changed)
    case True
    then show ?thesis
      unfolding next_event_shape [OF d] outcome_map_option by (simp add: kept_recompute [OF assms] same_base_def)
  next
    case False
    then have c: "c = rconf st"
      using rconf_dequeue_unchanged d by simp
    have "kept lk items (st\<lparr>curUnmapped := of_nat ((unat (curUnmapped st) + unat (hopIncrement st)) mod 37),
      connEventCount := connEventCount st + 1, rconf := rconf st, rconf_queue := q\<rparr>)"
      using assms by simp
    then show ?thesis
      using False unfolding next_event_shape [OF d] c outcome_map_option by simp
  qed
qed

lemma kept_afterConnEvent [links]:
  assumes "kept lk items st"
  shows "outcome True (afterConnEvent peripheral gotData st) (kept lk items)"
  using assms unfolding afterConnEvent_def Let_def
  by (auto simp: split_def RF_getCurrentTime_def intro!: link_bind kept_handleConnFinished kept_measure_chanMap
      kept_measure_interval kept_next_event)

section \<open>Received data channel PDUs\<close>

lemma kept_enqueue_conf [simp]: "kept lk items (enqueue_conf i c st) = kept lk items st"
  by (simp add: enqueue_conf_def)

lemma kept_sync_anchor: "kept lk items st \<Longrightarrow> outcome True (sync_anchor f st) (kept lk items)"
  by (simp add: sync_anchor_def Let_def)

lemma kept_react_encrypted: "kept lk items st \<Longrightarrow> outcome True (react_encrypted f n c st) (kept lk items)"
  unfolding react_encrypted_def encrypted_update_def Let_def
  by (auto simp: split_def intro!: link_bind)

lemma kept_react_control: "kept lk items st \<Longrightarrow> outcome True (react_control f opc n c st) (kept lk items)"
  unfolding react_control_def conn_update_ind_def channel_map_ind_def phy_update_ind_def Let_def
  by (auto simp: outcome_bind kept_handleConnFinished intro!: outcome_any)

lemma kept_reactToDataPDU [links]: "kept lk items st \<Longrightarrow> outcome True (reactToDataPDU f tr st) (kept lk items)"
  unfolding reactToDataPDU_def Let_def
  by (rule link_bind [where lk = lk and items = items])
    (auto simp: kept_sync_anchor outcome_bind intro!: outcome_any [of _ "rd b i" for b i] kept_react_encrypted kept_react_control)

section \<open>Received frames\<close>

text \<open>The link, and the tables of a connection whose AUX_CONNECT_RSP is awaited.\<close>

definition awaiting :: "bool \<Rightarrow> ble_frame list \<Rightarrow> fw \<Rightarrow> bool" where
  "awaiting lk items st \<longleftrightarrow> kept lk items st \<and> (lk \<longrightarrow> gotAuxConnReq st \<longrightarrow> tables_ok st)"

lemma awaiting_kept [simp]: "awaiting lk items st \<Longrightarrow> kept lk items st"
  by (simp add: awaiting_def)

lemma awaiting_simps [simp]:
  "awaiting lk items (emit e st) = awaiting lk items st"
  "awaiting lk items (st\<lparr>clock_reads := n\<rparr>) = awaiting lk items st"
  "awaiting lk items (st\<lparr>hop_pending := p\<rparr>) = awaiting lk items st"
  "awaiting lk items (st\<lparr>hop_target_ticks := w\<rparr>) = awaiting lk items st"
  "awaiting lk items (st\<lparr>rpa_st := rs\<rparr>) = awaiting lk items st"
  "awaiting lk items (st\<lparr>lastAdvTimestamp := w\<rparr>) = awaiting lk items st"
  "awaiting lk items (st\<lparr>connEventCount := w\<rparr>) = awaiting lk items st"
  "awaiting lk items (st\<lparr>gotLegacy38 := p\<rparr>) = awaiting lk items st"
  "awaiting lk items (st\<lparr>gotLegacy39 := p\<rparr>) = awaiting lk items st"
  "awaiting lk items (st\<lparr>fastAdvHop := p\<rparr>) = awaiting lk items st"
  "awaiting lk items (st\<lparr>sniffScanRspLen := w\<rparr>) = awaiting lk items st"
  "awaiting lk items (st\<lparr>postponed := p\<rparr>) = awaiting lk items st"
  "awaiting lk items (set_rconf (\<lambda>c. c\<lparr>hopIntervalTicks := t\<rparr>) st) = awaiting lk items st"
  by (simp_all add: awaiting_def tables_ok_def emit_def set_rconf_def kept_defs inDataState_def)

lemma awaiting_hop [simp]:
  "awaiting lk items (RadioWrapper_trigAdv3 st) = awaiting lk items st"
  "awaiting lk items (DelayHopTrigger_trig us st) = awaiting lk items st"
  "awaiting lk items (DelayHopTrigger_postpone us st) = awaiting lk items st"
  by (simp_all add: RadioWrapper_trigAdv3_def DelayHopTrigger_trig_def DelayHopTrigger_postpone_def RF_getCurrentTime_def Let_def)

lemma awaiting_legacy:
  "awaiting lk items st \<Longrightarrow> awaiting lk items (seek_advert f st)" "awaiting lk items st \<Longrightarrow> awaiting lk items (hop_advert t f st)"
  by (simp_all add: seek_advert_def hop_advert_def RF_getCurrentTime_def Let_def)

lemma tables_reset [simp]: "tables_ok (RadioWrapper_resetSeqStat st) = tables_ok st"
  by (simp add: RadioWrapper_resetSeqStat_def tables_ok_def)

lemma kept_data: "kept lk items st \<Longrightarrow> lk \<longrightarrow> tables_ok st \<Longrightarrow> outcome True (stateTransition s st) (kept lk items)"
  by (rule kept_stateTransition) (simp add: kept_defs)

lemma kept_reactToAdvExtPDU: "kept lk items st \<Longrightarrow> outcome True (reactToAdvExtPDU f n st) (kept lk items)"
  unfolding reactToAdvExtPDU_def outcome_bind Let_def
  by (rule outcome_any)
    (auto simp: split_def RF_getCurrentTime_def outcome_bind split: option.split intro!: outcome_any [of _ "rd b i" for b i])

lemma kept_react_connect:
  assumes "kept lk items st"
  shows "outcome True (react_connect f chSel st) (kept lk items)"
proof -
  have choose: "outcome True (choose_csa2 f chSel st) (\<lambda>st'. \<exists>b. st' = st\<lparr>use_csa2 := b\<rparr>)"
    by (auto simp: choose_csa2_def Let_def outcome_bind intro!: outcome_any)
  show ?thesis
    unfolding react_connect_def Let_def outcome_bind
    by (rule outcome_mono [OF choose], elim exE, simp, rule outcome_mono [OF kept_handleConnReq [OF assms]])
      (auto simp: outcome_bind [symmetric] intro!: link_bind kept_data)
qed

lemma kept_react_adv_type:
  assumes "awaiting lk items st"
  shows "outcome True (react_adv_type f h n st) (kept lk items)"
proof -
  have "kept lk items (st\<lparr>adv_cache_st := ac\<rparr>)" for ac
    using assms by simp
  moreover have "outcome True (stateTransition DATA st') (kept lk items)" if "awaiting lk items st'" "gotAuxConnReq st'" for st'
    using that by (intro kept_data) (simp_all add: awaiting_def)
  ultimately show ?thesis
    using assms unfolding react_adv_type_def Let_def
    by (auto simp: outcome_bind kept_reactToAdvExtPDU kept_react_connect
       intro!: outcome_any [of _ "rds b i n" for b i n] link_bind [unfolded outcome_bind])
qed

lemma kept_reactToPDU:
  assumes "awaiting lk items st"
  shows "outcome True (reactToPDU f st) (kept lk items)"
  using assms unfolding reactToPDU_def Let_def outcome_bind
  by (auto simp: outcome_bind intro!: outcome_any [of _ "rd b i" for b i] kept_reactToDataPDU kept_react_adv_type awaiting_legacy)

lemma awaiting_macFilterCheck: "awaiting lk items st \<Longrightarrow> outcome True (macFilterCheck f st) (\<lambda>(ok, st'). awaiting lk items st')"
  unfolding macFilterCheck_def Let_def outcome_bind
  by (auto simp: macOk_def Let_def split_def outcome_bind intro!: outcome_any [of _ "rd b i" for b i] outcome_any [of _ "rds b i n" for b i n])

lemma kept_queued:
  "outcome True m (kept lk items) \<Longrightarrow> outcome True (m \<bind> enqueueFrame f)
     (\<lambda>st'. kept lk items st' \<or> \<not> is_report f \<and> kept lk (items @ [frame_view f]) st')"
  by (cases m) (auto simp: outcome_def kept_enqueueFrame split: option.split)

text \<open>A received frame, stamped in a connection mode, joins the frames for the host or does not.\<close>

definition stamped :: "ble_frame \<Rightarrow> fw \<Rightarrow> ble_frame" where
  "stamped f st = (if f_channel f < 40 \<and> inDataState st then f\<lparr>f_direction := ucast (g_pkt_dir st), f_eventCtr := ucast (connEventCount st)\<rparr> else f)"

lemma kept_indicatePacket:
  assumes "kept lk items st" "lk \<longrightarrow> gotAuxConnReq st \<longrightarrow> inDataState st \<or> tables_ok st"
  shows "outcome True (indicatePacket f st)
    (\<lambda>st'. kept lk items st' \<or> \<not> is_report (stamped f st) \<and> kept lk (items @ [frame_view (stamped f st)]) st')"
proof -
  have "awaiting lk items st"
    using assms by (auto simp: awaiting_def kept_def linked_def)
  note filter = awaiting_macFilterCheck [OF this]
  have react: "outcome True ((if \<not> f_crcError f then reactToPDU g st' else Some st') \<bind> enqueueFrame h)
      (\<lambda>st'. kept lk items st' \<or> \<not> is_report h \<and> kept lk (items @ [frame_view h]) st')"
    if "awaiting lk items st'" for st' g h
    using that by (intro kept_queued) (simp add: kept_reactToPDU)
  have "outcome True (macFilterCheck f st \<bind> (\<lambda>(ok, st). if \<not> ok then Some st
      else (if \<not> f_crcError f then reactToPDU f st else Some st) \<bind> enqueueFrame f))
      (\<lambda>st'. kept lk items st' \<or> \<not> is_report f \<and> kept lk (items @ [frame_view f]) st')"
    unfolding outcome_bind [of _ "macFilterCheck f st"]
    by (rule outcome_mono [OF filter]) (use react in auto)
  then show ?thesis
    using assms(1) react [OF \<open>awaiting lk items st\<close>] kept_queued [of "Some st" lk items]
    by (simp add: indicatePacket_def stamped_def Let_def)
qed

section \<open>Commands\<close>

lemma kept_enter_transmitting: "kept lk items st \<Longrightarrow> lk \<longrightarrow> outside s \<Longrightarrow> outcome True (enter_transmitting s st) (kept lk items)"
  by (auto simp: enter_transmitting_def Let_def intro!: link_bind kept_enter)

lemma kept_modes:
  "kept lk items st \<Longrightarrow> outcome True (initiateConn p a d st) (kept lk items)"
  "kept lk items st \<Longrightarrow> outcome True (advertise m a n r k st) (kept lk items)"
  "kept lk items st \<Longrightarrow> outcome True (advertiseExtended e a n ph ph' adi st) (kept lk items)"
  "kept lk items st \<Longrightarrow> outcome True (scan st) (kept lk items)"
  by (auto simp: initiateConn_def advertise_def advertiseExtended_def scan_def outcome_bind kept_enter_transmitting
      intro!: outcome_any [of _ "rds b i n" for b i n] outcome_any [of _ "copy_in b i n" for b i n] kept_enter
        link_bind [unfolded outcome_bind])

lemma kept_setChanAAPHYCRCI:
  assumes "kept lk items st"
  shows "outcome True (setChanAAPHYCRCI chan aa phy crc st) (kept lk items)"
proof -
  let ?st = "st\<lparr>statPHY := phy, statChan := chan, statCRCI := crc AND 0xFFFFFF\<rparr>"
  have "outcome True (stateTransition STATIC ?st) (\<lambda>st'. kept lk items st' \<and> snifferState st' = STATIC)"
  proof (cases "stateTransition STATIC ?st")
    case (Some st')
    moreover have "kept lk items st'"
      using kept_enter [of lk items ?st STATIC] assms Some by simp
    moreover have "snifferState st' = STATIC"
      using arg_cong [OF stateTransition_frame [OF Some], of snifferState] by simp
    ultimately show ?thesis by simp
  qed simp
  then have "outcome True (stateTransition STATIC ?st) (\<lambda>st'. kept lk items (st'\<lparr>accessAddress := aa\<rparr>))"
    by (rule outcome_mono) (auto simp: kept_defs inDataState_outside)
  then show ?thesis
    using assms by (simp add: setChanAAPHYCRCI_def outcome_bind)
qed

lemma kept_settings [simp]:
  "kept lk items (setFollowConnections p st) = kept lk items st"
  "kept lk items (setAuxAdvEnabled p st) = kept lk items st"
  "kept lk items (setAdvInterval w st) = kept lk items st"
  "kept lk items (setInstaHop p st) = kept lk items st"
  "kept lk items (preloadPhyUpdate p ph st) = kept lk items st"
  "kept lk items (setCrcValidation p st) = kept lk items st"
  "kept lk items (setMinRssi r st) = kept lk items st"
  "kept lk items (setMacFilt p m st) = kept lk items st"
  "kept lk items (setRpaFilt p i st) = kept lk items st"
  "kept lk items (setChanMap w64 st) = kept lk items st"
  "kept lk items st \<Longrightarrow> kept lk items (pauseAfterSniffDone p st)"
  by (simp_all add: setFollowConnections_def setAuxAdvEnabled_def setAdvInterval_def setInstaHop_def preloadPhyUpdate_def
      setCrcValidation_def setMinRssi_def setMacFilt_def setRpaFilt_def setChanMap_def Let_def split: option.split)
    (simp add: pauseAfterSniffDone_def kept_defs inDataState_def)

lemma kept_parts:
  "kept lk items st \<Longrightarrow> outcome True (setAddr p a st) (kept lk items)"
  "kept lk items st \<Longrightarrow> outcome True (sendMarker l n st) (kept lk items)"
  "kept lk items st \<Longrightarrow> outcome True (RadioWrapper_setTxPower w st) (kept lk items)"
  "kept lk items st \<Longrightarrow> outcome True (preloadConnParamUpdates ps k st) (\<lambda>(status, st'). kept lk items st')"
     apply (auto simp: setAddr_def outcome_bind intro!: outcome_any [of _ "rds b i n" for b i n] outcome_any [of _ "copy_in b i n" for b i n])[1]
    apply (auto simp: sendMarker_def RF_getCurrentTime_def Let_def outcome_bind kept_report intro!: outcome_any [of _ "rds b i n" for b i n])[1]
   apply (auto simp: RadioWrapper_setTxPower_def Let_def outcome_bind)[1]
  apply (auto simp: preloadConnParamUpdates_def Let_def outcome_bind)[1]
  done

lemma kept_command_dispatch:
  assumes "kept lk items st"
  shows "outcome True (command_dispatch ret buf st) (kept lk items)"
proof -
  note [simp] = outcome_bind assms kept_modes kept_setChanAAPHYCRCI kept_parts kept_reports kept_advHopSeekMode
  note [intro!] = outcome_any [of _ "rd b i" for b i] outcome_any [of _ "rds b i n" for b i n]
    outcome_any [of _ "rd16 b i" for b i] outcome_any [of _ "rd32 b i" for b i] outcome_any [of _ "rd40 b i" for b i]
    outcome_any [of _ "TXQueue_insert a b c d e" for a b c d e]
  have "outcome True (command_sniff opc ret buf st) (kept lk items)" "outcome True (command_transmit opc ret buf st) (kept lk items)"
    "outcome True (command_follow opc ret buf st) (kept lk items)" "outcome True (command_ext opc ret buf st) (kept lk items)" for opc
    by (auto simp: command_sniff_def command_transmit_def command_follow_def command_ext_def Let_def split_def
        intro!: outcome_mono [OF kept_parts(4)])
  then show ?thesis
    by (auto simp: command_dispatch_def)
qed

section \<open>The loop\<close>

lemma issue_kept:
  assumes "\<And>x st'. r = Inr (x, st') \<Longrightarrow> kept lk items st'" "kept lk items st"
  shows "kept lk items (snd (issue r st))"
  using assms by (cases r) (auto simp: issue_def)

lemma kept_issue [simp]:
  assumes "kept lk items st"
  shows "kept lk items (snd (issue (RadioWrapper_recvFrames ph ch aa crc t fv v st) st))"
    "kept lk items (snd (issue (RadioWrapper_recvAdv3 w1 w2 v st) st))"
    "kept lk items (snd (issue (RadioWrapper_scan ph ch t fv a r v st) st))"
    "kept lk items (snd (issue (RadioWrapper_scanLegacy ch t fv a r v st) st))"
    "kept lk items (snd (issue (RadioWrapper_central ph ch aa crc t q t' st) st))"
    "kept lk items (snd (issue (RadioWrapper_peripheral ph ch aa crc t q t' st) st))"
    "kept lk items (snd (issue (RadioWrapper_initiate ph ch t fv a r a' r' l st) st))"
    "kept lk items (snd (issue (RadioWrapper_advertiseExt3 a r l n em p1 p2 ch' adi st) st))"
  using assms
  by (intro issue_kept; auto simp: wrapper_defs Let_def RF_getCurrentTime_def split: if_splits prod.splits)+

lemma kept_advertise3 [simp]: "kept lk items st \<Longrightarrow> kept lk items (snd (RadioWrapper_advertise3 a r l n l' m md st))"
  by (auto simp: RadioWrapper_advertise3_def Let_def split: adv_mode.split)

lemma kept_begin:
  assumes "kept lk items st"
  shows "kept lk items (snd (begin_static st))" "kept lk items (snd (begin_seek st))" "kept lk items (snd (begin_hop st))"
    "kept lk items (snd (begin_scanning st))" "kept lk items (snd (begin_advertising st))"
    "kept lk items (snd (begin_advertising_ext st))" "kept lk items (snd (begin_initiating st))"
    "kept lk items (snd (finish_advertising s ms st))" "kept lk items (snd (central_attempt ch q t n k m st))"
  using assms
  by (simp_all add: begin_static_def begin_seek_def begin_hop_def begin_scanning_def begin_advertising_def
      begin_advertising_ext_def begin_initiating_def finish_advertising_def central_attempt_def RF_getCurrentTime_def
      case_prod_beta Let_def if_split [of "\<lambda>x. kept lk items (snd x)"] if_split [of "\<lambda>x. kept lk items (snd (issue x st))"])

lemma kept_begin_conn:
  assumes "kept lk items st"
  shows "outcome True (begin_data st) (\<lambda>x. kept lk items (snd x))" "outcome True (begin_central st) (\<lambda>x. kept lk items (snd x))"
    "outcome True (begin_peripheral st) (\<lambda>x. kept lk items (snd x))"
  using assms
  by (auto simp: begin_data_def begin_central_def begin_peripheral_def outcome_bind case_prod_beta Let_def kept_begin
      intro!: outcome_any [of _ "getCurrChan s" for s])

lemma kept_loop_begin:
  assumes "kept lk items st"
  shows "outcome True (loop_begin st) (\<lambda>x. kept lk items (snd x))"
  using assms by (cases "snifferState st") (simp_all add: loop_begin_def Let_def kept_begin kept_begin_conn)

lemma kept_finish_seek: "kept lk items st \<Longrightarrow> outcome True (finish_seek st) (kept lk items)"
  by (auto simp: finish_seek_def Let_def intro!: link_bind kept_reports kept_enter)

lemma kept_finish_initiating: "kept lk items st \<Longrightarrow> outcome True (finish_initiating status t ph st) (kept lk items)"
  by (auto simp: finish_initiating_def Let_def outcome_bind kept_handleConnFinished split: sum.split
      intro!: outcome_mono [OF kept_handleConnReq] kept_data)
    (simp_all add: tables_ok_def)

lemma kept_transmitted_from: "kept lk items st \<Longrightarrow> outcome True (transmitted_from n e f st) (kept lk items)"
proof (induction n arbitrary: e f st)
  case (Suc n)
  show ?case
    using Suc.prems
    by (auto simp: Let_def outcome_bind Suc.IH intro!: outcome_any [of _ "rds b i n" for b i n]
        outcome_any [of _ "rd16 b i" for b i] outcome_mono [OF kept_reactToDataPDU])
qed simp

lemma kept_reactToTransmitted: "kept lk items st \<Longrightarrow> outcome True (reactToTransmitted stack q n st) (kept lk items)"
  by (auto simp: reactToTransmitted_def Let_def RF_getCurrentTime_def outcome_bind kept_transmitted_from split: option.split
      intro!: outcome_any [of _ "getCurrChan s" for s])

lemma link_point:
  "outcome True m (kept lk items) \<Longrightarrow> (\<And>st. kept lk items st \<Longrightarrow> kept lk items (snd (f st))) \<Longrightarrow>
     outcome True (m \<bind> (\<lambda>st. Some (f st))) (\<lambda>x. kept lk items (snd x))"
  by (cases m) simp_all

lemma kept_after_central: "kept lk items st \<Longrightarrow> outcome True (after_central stack q n got st) (\<lambda>x. kept lk items (snd x))"
  by (auto simp: after_central_def Let_def RF_getCurrentTime_def
      intro!: link_bind [OF kept_reactToTransmitted] link_point kept_afterConnEvent)

lemma kept_finish_central: "kept lk items st \<Longrightarrow> outcome True (finish_central r c q t n sweep st) (\<lambda>x. kept lk items (snd x))"
  unfolding finish_central_def case_prod_beta Let_def
  by (auto intro!: link_bind kept_reports kept_after_central split: option.split simp: kept_begin)

lemma kept_finish_peripheral: "kept lk items st \<Longrightarrow> outcome True (finish_peripheral r c q st) (\<lambda>x. kept lk items (snd x))"
  by (auto simp: finish_peripheral_def Let_def RF_getCurrentTime_def
      intro!: link_bind [OF kept_reactToTransmitted] link_point kept_afterConnEvent)

lemma kept_loop_resume:
  assumes "kept lk items st"
  shows "outcome True (loop_resume r p st) (\<lambda>x. kept lk items (snd x))"
  using assms
  by (cases p) (auto simp: loop_resume_def kept_loop_begin kept_begin kept_finish_central kept_finish_peripheral
      intro!: link_point kept_afterConnEvent kept_finish_seek kept_finish_initiating)

section \<open>Every reachable state\<close>

text \<open>
  An AUX_CONNECT_RSP completes a connection only while the tables of the request it answers are
  in place: a command that sets another access address, or the end of another connection, takes
  them away between the two packets.
\<close>

definition response_in_place :: "event \<Rightarrow> system \<Rightarrow> bool" where
  "response_in_place e s \<longleftrightarrow> (case e of
     Frame_received packet \<Rightarrow> gotAuxConnReq (sys_fw s) \<longrightarrow> inDataState (sys_fw s) \<or> tables_ok (sys_fw s)
   | _ \<Rightarrow> True)"

text \<open>What a step receives from the radio, as it is stamped for the host, and what it sends to the host.\<close>

definition received_by :: "event \<Rightarrow> system \<Rightarrow> ble_frame list" where
  "received_by e s = (case e of
     Frame_received packet \<Rightarrow> (case rx_frame (ble4_cmd (sys_fw s)) packet of
       Some f \<Rightarrow> [stamped f (sys_fw s)] | None \<Rightarrow> [])
   | _ \<Rightarrow> [])"

definition sent_by :: "event \<Rightarrow> system \<Rightarrow> u8 list list" where
  "sent_by e s = (case e of
     Packet_sent \<Rightarrow> (case packetTask_step (sys_fw s) of Some (Some msg, _) \<Rightarrow> [msg] | _ \<Rightarrow> [])
   | _ \<Rightarrow> [])"

text \<open>The packet task takes the first frame off the queue.\<close>

lemma kept_sent:
  assumes "kept lk items st" "packet_items st = f # fs"
  shows "kept lk (if is_report f then items else tl items) (st\<lparr>queue_tail := queue_tail st + 1\<rparr>)"
proof -
  have ok: "packet_queue_ok st"
    using assms(1) by (simp add: kept_def)
  have "packet_queue_ok (st\<lparr>queue_tail := queue_tail st + 1\<rparr>)" "packet_items (st\<lparr>queue_tail := queue_tail st + 1\<rparr>) = fs"
    using packetq.inv_rem [OF ok] packetq.rem_items [OF ok] assms(2) packet_rem_tail [OF ok] by simp_all
  moreover have "linked (st\<lparr>queue_tail := queue_tail st + 1\<rparr>) = linked st"
    by (simp add: linked_def tables_ok_def inDataState_def)
  ultimately show ?thesis
    using assms by (auto simp: kept_def sendable_def host_items_def)
qed

lemma kept_ticks:
  "kept lk items st \<Longrightarrow> kept lk items (DelayHopTrigger_tick st)" "kept lk items st \<Longrightarrow> kept lk items (DelayStopTrigger_tick st)"
  by simp_all

text \<open>A step leaves the frames for the host, adds the one it receives, or takes off the first of the queue.\<close>

lemma kept_sys_step:
  assumes "kept lk items (sys_fw s)" "lk \<longrightarrow> response_in_place e s" "sys_step e s s'"
  shows "e \<noteq> Packet_sent \<and> (kept lk items (sys_fw s') \<or>
      (\<exists>f. received_by e s = [f] \<and> \<not> is_report f \<and> kept lk (items @ [frame_view f]) (sys_fw s'))) \<or>
    e = Packet_sent \<and> (\<exists>f fs. packet_items (sys_fw s) = f # fs \<and>
      kept lk (if is_report f then items else tl items) (sys_fw s'))"
  using assms(3)
proof cases
  case (frame packet f st)
  then have "kept lk items st \<or> \<not> is_report (stamped f (sys_fw s)) \<and> kept lk (items @ [frame_view (stamped f (sys_fw s))]) st"
    using assms(1,2) kept_indicatePacket [of lk items "sys_fw s" f] by (simp add: response_in_place_def)
  then show ?thesis
    using frame by (auto simp: received_by_def)
next
  case (loop r p st)
  then show ?thesis
    using kept_loop_resume [OF assms(1), of r "sys_point s"] by simp
next
  case (sent msg st)
  obtain f fs where "packet_items (sys_fw s) = f # fs"
    using sent by (cases "packet_items (sys_fw s)") auto
  moreover have "st = (sys_fw s)\<lparr>queue_tail := queue_tail (sys_fw s) + 1\<rparr>"
    using sent(4) packetTask_step_Some [of "sys_fw s"] assms(1) by (simp add: kept_def)
  ultimately show ?thesis
    using kept_sent [OF assms(1)] sent by simp
next
  case (command arrived inp b64 buf rest st)
  then obtain ret where "command_dispatch ret buf (sys_fw s) = Some st"
    by (auto simp: commandTask_step_def split: bind_splits)
  then show ?thesis
    using kept_command_dispatch [OF assms(1), of ret buf] command by simp
qed (use assms(1) in simp_all)

lemma kept_init: "kept True [] (sys_fw (sys_init brd clk))"
proof -
  have "ring_list xs 0 (0 :: u32) = []" for xs :: "ble_frame list"
    by (simp add: ring_list_empty_iff ring_size_def)
  then show ?thesis
    by (simp add: sys_init_def radio_task_start_def RadioWrapper_init_def RFQueue_defineQueue_def
      RF_QUEUE_DATA_ENTRY_BUFFER_SIZE_def RF_QUEUE_QUEUE_ALIGN_PADDING_def fw_init_def Let_def kept_defs inDataState_def
      csa2_ok_def csa2_init_def frame_init_def ring_size_def)
qed

end
