(* ===== verification/Loop_Props.thy ===== *)
theory Loop_Props
  imports Link_Spec Firmware_System "HOL-Library.Multiset"
begin

text \<open>
  What the main loop asks of the radio: after a sniff command the channel the host named, and
  a sweep over window offsets that comes to an end.  The median the measurements rest on is
  the middle one.  Connection events follow in \<open>Link_Reach\<close>.
\<close>

unbundle bit_operations_syntax

section \<open>Listening on a channel\<close>

definition tuned :: "generic_rx \<Rightarrow> u32 \<Rightarrow> u32 \<Rightarrow> u32 \<Rightarrow> phy_mode \<Rightarrow> bool" where
  "tuned c chan aa crc phy \<longleftrightarrow> rx_channel c = chan \<and> rx_whitening c = 0x40 + chan \<and> rx_accessAddress c = aa \<and>
     rx_crcInit c = crc_bytes crc \<and> mainMode (rx_phy c) = mainMode_of phy"

lemma ucast_channel: "(ucast (ch :: u8) :: u32) = of_nat (unat ch)"
  by (simp add: word_unat_eq_iff unsigned_ucast_eq unsigned_of_nat take_bit_nat_eq_self)

section \<open>A sniff command\<close>

definition sniff_msg :: "u8 \<Rightarrow> u32 \<Rightarrow> phy_mode \<Rightarrow> u32 \<Rightarrow> u8 list" where
  "sniff_msg chan aa phy crc = [4, COMMAND_SETCHANAAPHY, chan] @ bytes32 aa @ [of_nat (phy_code phy)] @ bytes32 crc"

lemma phy_code_roundtrip: "phy_of_code (unat (of_nat (phy_code phy) :: u8)) = phy" "(of_nat (phy_code phy) :: u8) \<le> 3"
  by (cases phy; simp add: phy_of_code_def)+

lemma le32_bytes_plain: "le32 (ucast w) (ucast (drop_bit 8 w)) (ucast (drop_bit 16 w)) (ucast (drop_bit 24 w)) = w"
  using le32_bytes32 [of w] by (simp add: bytes32_def)

lemma dispatch_sniff:
  assumes "length buf = 300" "buf = sniff_msg chan aa phy crc @ rest" "chan \<le> 39"
  shows "command_dispatch 12 buf st = setChanAAPHYCRCI chan aa phy crc st"
proof -
  have buf: "rd buf 1 = Some COMMAND_SETCHANAAPHY" "rd buf 2 = Some chan" "rd buf 7 = Some (of_nat (phy_code phy))"
    "rd32 buf 3 = Some aa" "rd32 buf 8 = Some crc"
    using assms(1) by (simp_all add: assms(2) sniff_msg_def bytes32_def le32_bytes_plain)
  show ?thesis
    unfolding command_dispatch_def command_sniff_def buf bind.bind_lunit
    using assms(3) phy_code_roundtrip [of phy] by (simp add: buf_phy_def flip: not_le)
qed

text \<open>What the command leaves: static sniffing on the given channel.\<close>

lemma setChanAAPHYCRCI_static:
  assumes "packet_queue_ok st" "chan \<le> 39"
  shows "\<exists>st'. setChanAAPHYCRCI chan aa phy crc st = Some st' \<and> snifferState st' = STATIC \<and> statChan st' = chan \<and>
    statPHY st' = phy \<and> statCRCI st' = crc AND 0xFFFFFF \<and> accessAddress st' = aa \<and> aux_events st' = [] \<and>
    configured st' = configured st \<and> auxAdvEnabled st' = auxAdvEnabled st \<and>
    Direct_cmd 0x04020001 \<in> set (hw_trace st')"
proof -
  define st1 where "st1 = st\<lparr>statPHY := phy, statChan := chan, statCRCI := crc AND 0xFFFFFF\<rparr>"
  have "packet_queue_ok (st1\<lparr>snifferState := STATIC\<rparr>)"
    using assms(1) by (simp add: st1_def packet_queue_ok_def)
  then obtain tr fs h where "stateTransition STATIC st1 =
      Some (st1\<lparr>snifferState := STATIC, hw_trace := tr, s_frames := fs, queue_head := h\<rparr>)"
    using enqueueFrame_shape [of "st1\<lparr>snifferState := STATIC\<rparr>" "report_frame MSGCHAN_STATE 0 1 [state_code STATIC]"]
    by (auto simp: stateTransition_def report_frame_def flen_def)
  then show ?thesis
    using assms(2)
    by (simp add: setChanAAPHYCRCI_def RadioWrapper_stop_def emit_def AuxAdvScheduler_reset_def flip: st1_def not_le)
      (simp add: st1_def)
qed

lemma crc_bytes_masked: "crc_bytes (crc AND 0xFFFFFF) = crc_bytes crc"
proof -
  have mask: "(0xFFFFFF :: u32) = mask 24" "(0xFF :: u32) = mask 8"
    by (simp_all add: mask_eq_exp_minus_1)
  show ?thesis
    unfolding crc_bytes_def mask by (simp, intro conjI bit_word_eqI) (auto simp: bit_simps)
qed

section \<open>The sweep over window offsets\<close>

text \<open>Rounds of the central's attempts, each with a radio result that brought no answer.\<close>

fun sweep_rounds :: "rf_result list \<Rightarrow> loop_point \<Rightarrow> fw \<Rightarrow> (loop_point \<times> fw) option" where
  "sweep_rounds [] p st = Some (p, st)"
| "sweep_rounds (r # rs) p st = loop_resume r p st \<bind> (\<lambda>(p, st). sweep_rounds rs p st)"

definition silent :: "rf_result \<Rightarrow> bool" where
  "silent r \<longleftrightarrow> rr_status r \<notin> {BLE_DONE_OK, BLE_DONE_ENDED, BLE_DONE_STOPPED}"

text \<open>The point of an attempt at offset \<open>n\<close>, and the state apart from what an attempt changes.\<close>

definition at_offset :: "u8 \<Rightarrow> u16 \<Rightarrow> u16 \<Rightarrow> loop_point \<Rightarrow> bool" where
  "at_offset ch n m p \<longleftrightarrow> (\<exists>c q t k. p = Run_central c q t k (Some (n, m, ch)) \<and> txq_ok q)"

lemma central_attempt_at: "txq_ok q \<Longrightarrow> at_offset ch n m (fst (central_attempt ch q t k n m st))"
  by (auto simp: central_attempt_def at_offset_def case_prod_beta Let_def)

lemma central_attempt_state: "\<exists>b. snd (central_attempt ch q t k n m st) = st\<lparr>ble4_cmd := b\<rparr>"
proof -
  have "\<exists>b. st = st\<lparr>ble4_cmd := b\<rparr>"
    by (rule exI [of _ "ble4_cmd st"]) simp
  then show ?thesis
    by (auto simp: central_attempt_def case_prod_beta Let_def issue_def RadioWrapper_central_def)
qed

lemma sweep_next:
  assumes "at_offset ch n m p" "silent r" "snifferState st = CENTRAL" "n + 1 \<le> m"
  shows "\<exists>p' b. loop_resume r p st = Some (p', st\<lparr>ble4_cmd := b\<rparr>) \<and> at_offset ch (n + 1) m p'"
proof -
  obtain c q t k where p: "p = Run_central c q t k (Some (n, m, ch))" and q: "txq_ok q"
    using assms(1) by (auto simp: at_offset_def)
  have "fst (case c of Inl e \<Rightarrow> (Inl e, k) | Inr _ \<Rightarrow> (data_cmd_result (rr_status r), rr_numSent r)) \<noteq> Inr 0"
    using assms(2) by (auto simp: silent_def data_cmd_result_def split: sum.split)
  then have "\<exists>k'. loop_resume r p st = Some (central_attempt ch q t k' (n + 1) m st)"
    using assms(3,4) by (auto simp: loop_resume_def p finish_central_def case_prod_beta Let_def)
  then show ?thesis
    using central_attempt_at [OF q] central_attempt_state by (metis prod.collapse)
qed

lemma offset_max: "(n :: u16) \<le> 0xFFFF"
proof -
  have "unat n < 65536"
    using unsigned_less [of n] by simp
  then show ?thesis
    by (simp add: word_le_nat_alt)
qed

lemma offset_Suc: "unat (n :: u16) < 0xFFFF \<Longrightarrow> unat (n + 1) = unat n + 1"
  by (simp add: unat_word_ariths)

lemma offset_no_wrap: "m \<noteq> 0xFFFF \<Longrightarrow> \<not> (m :: u16) + 1 \<le> m"
proof -
  assume "m \<noteq> 0xFFFF"
  then have "unat m \<noteq> 0xFFFF"
    by (simp add: word_unat_eq_iff)
  moreover have "unat m \<le> 0xFFFF"
    using offset_max [of m] by (simp add: word_le_nat_alt)
  ultimately show ?thesis
    using offset_Suc [of m] by (simp add: word_le_nat_alt)
qed

lemma sweep_at:
  assumes "at_offset ch n m p" "list_all silent rs" "snifferState st = CENTRAL"
    and "m = 0xFFFF \<or> length rs \<le> unat m - unat n"
  shows "\<exists>p' b. sweep_rounds rs p st = Some (p', st\<lparr>ble4_cmd := b\<rparr>) \<and> at_offset ch (n + of_nat (length rs)) m p'"
  using assms
proof (induction rs arbitrary: n p st)
  case Nil
  then show ?case
    by (intro exI [of _ p] exI [of _ "ble4_cmd st"]) simp
next
  case (Cons r rs)
  have step: "n + 1 \<le> m" "m = 0xFFFF \<or> length rs \<le> unat m - unat (n + 1)"
  proof -
    have "unat m \<le> 0xFFFF"
      using offset_max [of m] by (simp add: word_le_nat_alt)
    then have suc: "unat (n + 1) = unat n + 1" if "unat n < unat m"
      using that by (intro offset_Suc) simp
    show "n + 1 \<le> m"
      using Cons.prems(4) offset_max [of "n + 1"] suc by (cases "m = 0xFFFF") (simp_all add: word_le_nat_alt [of "n + 1"])
    show "m = 0xFFFF \<or> length rs \<le> unat m - unat (n + 1)"
    proof (cases "m = 0xFFFF")
      case False
      then have "Suc (length rs) \<le> unat m - unat n"
        using Cons.prems(4) by simp
      moreover from this have "unat (n + 1) = unat n + 1"
        by (intro suc) simp
      ultimately show ?thesis
        by (intro disjI2) linarith
    qed simp
  qed
  obtain p1 b1 where p1: "loop_resume r p st = Some (p1, st\<lparr>ble4_cmd := b1\<rparr>)" "at_offset ch (n + 1) m p1"
    using sweep_next [OF Cons.prems(1) _ Cons.prems(3) step(1), of r] Cons.prems(2) by auto
  then show ?case
    using Cons.IH [OF p1(2), of "st\<lparr>ble4_cmd := b1\<rparr>"] Cons.prems(2,3) step(2) by (auto simp: add.assoc)
qed

lemma after_central_ends:
  "after_central stack q k got st = Some (p', st') \<Longrightarrow> \<not> at_offset ch n m p'"
  by (auto simp: after_central_def at_offset_def Let_def case_prod_beta split: if_splits bind_splits)

lemma sweep_last:
  assumes "at_offset ch m m p" "m \<noteq> 0xFFFF" "silent r" "loop_resume r p st = Some (p', st')"
  shows "\<not> at_offset ch' n' m' p'"
proof -
  obtain c q t k where p: "p = Run_central c q t k (Some (m, m, ch))"
    using assms(1) by (auto simp: at_offset_def)
  have "fst (case c of Inl e \<Rightarrow> (Inl e, k) | Inr _ \<Rightarrow> (data_cmd_result (rr_status r), rr_numSent r)) \<noteq> Inr 0"
    using assms(3) by (auto simp: silent_def data_cmd_result_def split: sum.split)
  moreover have "\<not> m + 1 \<le> m"
    using assms(2) by (rule offset_no_wrap)
  ultimately show ?thesis
    using assms(4) by (auto simp: loop_resume_def p finish_central_def case_prod_beta Let_def dest: after_central_ends
        split: bind_splits)
qed

lemma sweep_rounds_append:
  "sweep_rounds (rs @ [r]) p st = sweep_rounds rs p st \<bind> (\<lambda>(p, st). loop_resume r p st)"
proof (induction rs arbitrary: p st)
  case Nil
  then show ?case by (cases "loop_resume r p st") auto
next
  case (Cons a rs)
  then show ?case by (cases "loop_resume a p st") auto
qed

section \<open>The median\<close>

lemma mset_insort_cmp: "mset (insort_cmp cmp x ys) = add_mset x (mset ys)"
  by (induction ys) auto

lemma mset_qsort: "mset (qsort cmp xs) = mset xs"
  by (induction xs) (auto simp: qsort_def mset_insort_cmp)

lemma compare_ticks_since:
  "since t a < 0x80000000 \<Longrightarrow> since t b < 0x80000000 \<Longrightarrow> compare_ticks a b \<le> 0 \<longleftrightarrow> since t a \<le> since t b"
  by (simp add: compare_ticks_def sint_diff_le_iff)

text \<open>A sorted list has as many elements on either side of its middle.\<close>

lemma sorted_middle:
  assumes "sorted (map key xs)" "k < length xs"
  shows "k < length (filter (\<lambda>x. (key x :: nat) \<le> key (xs ! k)) xs)"
    "length xs - k \<le> length (filter (\<lambda>x. key (xs ! k) \<le> key x) xs)"
proof -
  have le: "key (xs ! i) \<le> key (xs ! j)" if "i \<le> j" "j < length xs" for i j
    using sorted_nth_mono [OF assms(1), of i j] that by simp
  have "filter (\<lambda>x. key x \<le> key (xs ! k)) (take (Suc k) xs) = take (Suc k) xs"
    using le assms(2) by (auto simp: filter_id_conv in_set_conv_nth)
  then have "length (filter (\<lambda>x. key x \<le> key (xs ! k)) (take (Suc k) xs @ drop (Suc k) xs)) \<ge> Suc k"
    using assms(2) by (simp only: filter_append length_append) simp
  then show "k < length (filter (\<lambda>x. key x \<le> key (xs ! k)) xs)"
    by simp
  have "filter (\<lambda>x. key (xs ! k) \<le> key x) (drop k xs) = drop k xs"
    using le assms(2) by (auto simp: filter_id_conv in_set_conv_nth)
  then have "length (filter (\<lambda>x. key (xs ! k) \<le> key x) (take k xs @ drop k xs)) \<ge> length xs - k"
    by (simp only: filter_append length_append) simp
  then show "length xs - k \<le> length (filter (\<lambda>x. key (xs ! k) \<le> key x) xs)"
    by simp
qed

section \<open>Properties\<close>

text \<open>
  The command to sniff a channel puts the sniffer there: after the message with a channel
  of at most 39, the running radio operation is stopped, and with auxiliary following off the
  loop's next request listens, without end, on exactly that channel, access address, PHY and
  24-bit CRC seed.
\<close>

theorem sniff_command_tunes:
  assumes "length buf = MESSAGE_MAX" "buf = sniff_msg chan aa phy crc @ rest" "chan \<le> 39"
    and "packet_queue_ok st" "configured st" "\<not> auxAdvEnabled st"
  shows "\<exists>st1 c st2. command_dispatch 12 buf st = Some st1 \<and> snifferState st1 = STATIC \<and>
    Direct_cmd 0x04020001 \<in> set (hw_trace st1) \<and> loop_begin st1 = Some (Rx_static (Inr [c]), st2) \<and>
    tuned c (ucast chan) aa crc phy \<and> rx_endTrigger c = TRIG_NEVER"
proof -
  obtain st1 where st1: "setChanAAPHYCRCI chan aa phy crc st = Some st1" "snifferState st1 = STATIC" "statChan st1 = chan"
    "statPHY st1 = phy" "statCRCI st1 = crc AND 0xFFFFFF" "accessAddress st1 = aa" "configured st1" "\<not> auxAdvEnabled st1"
    "Direct_cmd 0x04020001 \<in> set (hw_trace st1)"
    using setChanAAPHYCRCI_static [OF assms(4,3), of aa phy crc] assms(5,6) by auto
  have "\<not> (ucast chan :: u32) \<ge> 40"
    using assms(3) by (simp add: word_le_nat_alt unsigned_ucast_eq take_bit_nat_eq_self)
  then have "\<exists>c st2. loop_begin st1 = Some (Rx_static (Inr [c]), st2) \<and> tuned c (ucast chan) aa crc phy \<and>
      rx_endTrigger c = TRIG_NEVER"
    using st1 by (simp add: loop_begin_def begin_static_def Let_def issue_def RadioWrapper_recvFrames_def end_trigger_def
        tuned_def crc_bytes_masked)
  then show ?thesis
    using st1(1,2,9) dispatch_sniff [OF assms(1-3), of st] by auto
qed

lemma sniff_command_tunes_witness:
  "\<exists>st1 c st2. command_dispatch 12 (sniff_msg 5 0x12345678 PHY_2M 0xABCDEF @ replicate 288 0)
     (example_link\<lparr>configured := True\<rparr>) = Some st1 \<and> loop_begin st1 = Some (Rx_static (Inr [c]), st2) \<and>
     rx_channel c = 5 \<and> rx_accessAddress c = 0x12345678"
proof -
  let ?st = "example_link\<lparr>configured := True\<rparr>"
  have "packet_queue_ok ?st" "\<not> auxAdvEnabled ?st"
    by (simp_all add: example_link_def fw_init_def packet_queue_ok_def frame_init_def ring_size_def)
  then show ?thesis
    using sniff_command_tunes [of "sniff_msg 5 0x12345678 PHY_2M 0xABCDEF @ replicate 288 0" 5 "0x12345678" PHY_2M
        "0xABCDEF" "replicate 288 0" ?st]
    by (auto simp: tuned_def sniff_msg_def)
qed

text \<open>
  C35. While the window offset is unknown, silent attempts of the central try the offsets one
  after the other, changing nothing else, and the attempt at the bound, silent too, ends the
  sweep; with a bound of 65535 no number of silent attempts ends it.
\<close>

theorem central_sweep:
  assumes "at_offset ch n m p" "unat n \<le> unat m" "snifferState st = CENTRAL" "list_all silent rs"
    and "inv False False d st"
  shows "(m = 0xFFFF \<or> length rs \<le> unat m - unat n \<longrightarrow>
      (\<exists>p' b. sweep_rounds rs p st = Some (p', st\<lparr>ble4_cmd := b\<rparr>) \<and> at_offset ch (n + of_nat (length rs)) m p')) \<and>
    (m \<noteq> 0xFFFF \<and> length rs = unat m - unat n \<and> silent r \<and> length (rr_stack r) = 40 \<longrightarrow>
      (\<exists>p' st'. sweep_rounds (rs @ [r]) p st = Some (p', st') \<and> (\<forall>ch' n' m'. \<not> at_offset ch' n' m' p')))"
proof (intro conjI impI)
  show "\<exists>p' b. sweep_rounds rs p st = Some (p', st\<lparr>ble4_cmd := b\<rparr>) \<and> at_offset ch (n + of_nat (length rs)) m p'"
    if "m = 0xFFFF \<or> length rs \<le> unat m - unat n"
    by (rule sweep_at [OF assms(1,4,3) that])
next
  assume m: "m \<noteq> 0xFFFF \<and> length rs = unat m - unat n \<and> silent r \<and> length (rr_stack r) = 40"
  obtain p1 b where p1: "sweep_rounds rs p st = Some (p1, st\<lparr>ble4_cmd := b\<rparr>)" "at_offset ch (n + of_nat (length rs)) m p1"
    using sweep_at [OF assms(1,4,3)] m by auto
  have "n + of_nat (length rs) = m"
    using m assms(2) by (simp add: of_nat_diff)
  then have at: "at_offset ch m m p1"
    using p1(2) by simp
  then have "outcome False (loop_resume r p1 (st\<lparr>ble4_cmd := b\<rparr>)) (point_inv False True True)"
    using assms(5) m by (intro inv_loop_close [where d = d]) (auto simp: at_offset_def)
  then obtain p' st' where run: "loop_resume r p1 (st\<lparr>ble4_cmd := b\<rparr>) = Some (p', st')"
    by (auto dest: outcome_total)
  then have "\<not> at_offset ch' n' m' p'" for ch' n' m'
    using sweep_last [OF at] m by blast
  then show "\<exists>p' st'. sweep_rounds (rs @ [r]) p st = Some (p', st') \<and> (\<forall>ch' n' m'. \<not> at_offset ch' n' m' p')"
    using p1(1) run by (simp add: sweep_rounds_append)
qed

lemma central_sweep_witness:
  "let st = (sys_fw (sys_init \<lparr>tickPeriod = 10, txPowerTable = [(0, 0)]\<rparr> (\<lambda>_. 0)))\<lparr>use_csa2 := True, snifferState := CENTRAL\<rparr>;
       p = Run_central (Inl EINVAL) \<lparr>pCurrEntry = None, pLastEntry = None\<rparr> 0 0 (Some (0, 2, 7));
       r = \<lparr>rr_status = BLE_DONE_NOSYNC, rr_status38 = BLE_STATUS_OTHER, rr_status39 = BLE_STATUS_OTHER,
         rr_numSent = 0, rr_connTime = 0, rr_rxListenTime = 0, rr_phyMode = 0, rr_stack = replicate 40 0\<rparr>
   in \<exists>p' st'. sweep_rounds [r, r, r] p st = Some (p', st') \<and> \<not> at_offset 7 2 2 p'"
proof -
  define st where "st = (sys_fw (sys_init \<lparr>tickPeriod = 10, txPowerTable = [(0, 0)]\<rparr> (\<lambda>_. 0)))\<lparr>use_csa2 := True, snifferState := CENTRAL\<rparr>"
  define p where "p = Run_central (Inl EINVAL) \<lparr>pCurrEntry = None, pLastEntry = None\<rparr> 0 0 (Some (0, 2, 7))"
  define r where "r = \<lparr>rr_status = BLE_DONE_NOSYNC, rr_status38 = BLE_STATUS_OTHER, rr_status39 = BLE_STATUS_OTHER,
    rr_numSent = 0, rr_connTime = 0, rr_rxListenTime = 0, rr_phyMode = 0, rr_stack = replicate 40 0\<rparr>"
  have "inv False True True (sys_fw (sys_init \<lparr>tickPeriod = 10, txPowerTable = [(0, 0)]\<rparr> (\<lambda>_. 0)))"
    using sys_inv_init [of "\<lparr>tickPeriod = 10, txPowerTable = [(0, 0)]\<rparr>" "\<lambda>_. 0"] by (simp add: sys_inv_def board_ok_def)
  then have "inv False False False st"
    by (simp add: st_def inv_def maps_ok_def strike_ok_def radio_ok_def packet_queue_ok_def arrays_ok_def)
  moreover have "at_offset 7 0 2 p" "silent r" "length (rr_stack r) = 40" "snifferState st = CENTRAL"
    by (simp_all add: at_offset_def p_def txq_ok_def silent_def r_def st_def)
  ultimately have "\<exists>p' st'. sweep_rounds ([r, r] @ [r]) p st = Some (p', st') \<and> (\<forall>ch' n' m'. \<not> at_offset ch' n' m' p')"
    using central_sweep [of 7 0 2 p st "[r, r]" False r] by simp
  then show ?thesis
    unfolding st_def [symmetric] p_def [symmetric] r_def [symmetric] Let_def by auto
qed

text \<open>
  The median of the timing measurements is one of the samples, and for samples within
  half the counter's range of each other no more than half of them are below it or above it,
  counted from the oldest; the array keeps its samples.
\<close>

theorem median_is_middle:
  assumes "xs \<noteq> []" "\<forall>x\<in>set xs. since t x < 0x80000000"
  shows "mset (snd (median xs)) = mset xs \<and> fst (median xs) \<in> set xs \<and>
    length (filter (\<lambda>x. since t x < since t (fst (median xs))) xs) \<le> length xs div 2 \<and>
    length (filter (\<lambda>x. since t (fst (median xs)) < since t x) xs) \<le> length xs div 2"
proof -
  define ys k where "ys = qsort compare_ticks xs" and "k = length xs div 2"
  have ys: "sorted (map (since t) ys)" "mset ys = mset xs" "length ys = length xs"
    using assms(2) unfolding ys_def by (auto intro!: sorted_qsort simp: compare_ticks_since [of t] mset_qsort)
  have k: "k < length ys"
    using assms(1) by (simp add: k_def ys(3))
  have med: "median xs = (ys ! k, ys)"
    by (simp add: median_def ys_def k_def Let_def)
  have "ys ! k \<in> set xs"
    using nth_mem [OF k] ys(2) by (metis set_mset_mset)
  moreover have count: "length (filter P ys) = length (filter P xs)" for P
    using ys(2) by (metis mset_filter size_mset)
  moreover have split: "length (filter P ys) + length (filter (\<lambda>x. \<not> P x) ys) = length ys" for P
    by (rule sum_length_filter_compl)
  ultimately show ?thesis
    using sorted_middle [OF ys(1) k] split [of "\<lambda>x. since t x < since t (ys ! k)"] split [of "\<lambda>x. since t (ys ! k) < since t x"]
      ys k_def by (simp add: med not_less flip: count) linarith
qed

lemma median_is_middle_witness:
  "fst (median [0xFFFFFFFF, 7, 2]) = 2 \<and> fst (median [0xFFFFFFFF, 7, 2]) \<in> set [0xFFFFFFFF, 7, 2]"
proof -
  have "fst (median [0xFFFFFFFF, 7, 2]) = 2"
    by (simp add: median_def qsort_def compare_ticks_def Let_def)
  then show ?thesis
    using median_is_middle [of "[0xFFFFFFFF, 7, 2]" "0xFFFFFFFF"] by (simp add: since_def)
qed

end
