(* ===== verification/Link_Reach.thy ===== *)
theory Link_Reach
  imports Reach Loop_Props
begin

text \<open>
  The link in every reachable state: under the steps of \<open>link_step_ok\<close> the tables of a connection
  mode are those of the connection, so what the loop asks of the radio is what the abstract link
  of \<open>Link_Spec\<close> calls for, and the end of a connection event is a step of that link.
\<close>

unbundle bit_operations_syntax

section \<open>Histories of the link\<close>

definition link_step_ok :: "event \<Rightarrow> system \<Rightarrow> system \<Rightarrow> bool" where
  "link_step_ok e s s' \<longleftrightarrow> admissible e s \<and> response_in_place e s \<and> sys_step e s s'"

lemma link_step_kept:
  assumes "\<exists>items. kept True items (sys_fw s)" "link_step_ok e s s'"
  shows "\<exists>items. kept True items (sys_fw s')"
  using assms kept_sys_step [of True _ s e s'] unfolding link_step_ok_def by blast

lemma link_step_inv: "sys_inv False s \<Longrightarrow> link_step_ok e s s' \<Longrightarrow> sys_inv False s'"
  unfolding link_step_ok_def by (blast intro: sys_step_outcome)

interpretation following: step_invariant link_step_ok "\<lambda>s. sys_inv False s \<and> (\<exists>items. kept True items (sys_fw s))"
  by unfold_locales (use link_step_kept link_step_inv in blast)

section \<open>What the radio is asked for\<close>

text \<open>The settings of the radio in a connection event, and the time it is left at.\<close>

record radio_setting =
  set_channel :: u32
  set_whitening :: u32
  set_address :: u32
  set_crc :: "u8 \<times> u8 \<times> u8"
  set_mode :: nat
  set_end :: u32

text \<open>Those of the request a connection mode waits in.\<close>

fun data_setting :: "data_cmd \<Rightarrow> radio_setting" where
  "data_setting c = \<lparr>set_channel = dc_channel c, set_whitening = dc_whitening c, set_address = dc_accessAddress c,
     set_crc = dc_crcInit c, set_mode = mainMode (dc_phy c), set_end = dc_endTime c\<rparr>"

fun asked :: "loop_point \<Rightarrow> radio_setting option" where
  "asked (Rx_data (Inr [c])) = (if rx_endTrigger c = TRIG_ABSTIME
     then Some \<lparr>set_channel = rx_channel c, set_whitening = rx_whitening c, set_address = rx_accessAddress c,
       set_crc = rx_crcInit c, set_mode = mainMode (rx_phy c), set_end = rx_endTime c\<rparr> else None)"
| "asked (Run_central (Inr c) q t n sweep) = (if dc_endTrigger c = TRIG_ABSTIME then Some (data_setting c) else None)"
| "asked (Run_peripheral (Inr c) q) = (if dc_endTrigger c = TRIG_ABSTIME then Some (data_setting c) else None)"
| "asked p = None"

text \<open>
  What the abstract link calls for, until the time of the next event; who listens for a central
  whose window offset is not known waits one interval longer.
\<close>

definition wanted :: "fw \<Rightarrow> radio_setting" where
  "wanted st = (let chan = of_nat (link_channel (use_csa2 st) (accessAddress st) (link_of st)); l = link_of st in
     \<lparr>set_channel = chan, set_whitening = 0x40 + chan, set_address = accessAddress st,
      set_crc = crc_bytes (crcInit st), set_mode = mainMode_of (rc_phy (lk_conf l)),
      set_end = lk_time l + (if snifferState st = CENTRAL \<or> winOffsetCertain (lk_conf l) then 0
        else hopIntervalTicks (lk_conf l))\<rparr>)"

lemma linked_link_ok: "linked st \<Longrightarrow> inv b c d st \<Longrightarrow> inDataState st \<Longrightarrow> link_ok st"
  by (simp add: link_ok_def linked_def inv_def radio_ok_def)

lemma link_channel_request:
  assumes "link_ok st" "map_usable (chanMap (rconf st))"
  shows "\<exists>ch. getCurrChan st = Some ch \<and> \<not> (ucast ch :: u32) \<ge> 37 \<and>
    (ucast ch :: u32) = of_nat (link_channel (use_csa2 st) (accessAddress st) (link_of st))"
proof -
  obtain ch where ch: "getCurrChan st = Some ch" "unat ch = link_channel (use_csa2 st) (accessAddress st) (link_of st)"
    using getCurrChan_link [OF assms] by blast
  then have "unat ch < 37"
    using link_channel_used [of "link_of st"] assms(2) by (auto simp: link_of_def dest: used_channels_less)
  then have "unat (ucast ch :: u32) < 37"
    by (simp add: unsigned_ucast_eq take_bit_nat_eq_self)
  then have "\<not> (ucast ch :: u32) \<ge> 37"
    by (simp add: word_le_nat_alt)
  then show ?thesis
    using ch(1) ucast_channel [of ch] unfolding ch(2) by blast
qed

lemma loop_begin_wanted:
  assumes "link_ok st" "map_usable (chanMap (rconf st))" "configured st" "inDataState st"
  shows "map_option (\<lambda>(p, st'). (asked p, link_of st')) (loop_begin st) = Some (Some (wanted st), link_of st)"
proof -
  obtain ch where ch: "getCurrChan st = Some ch" "\<not> (ucast ch :: u32) \<ge> 37"
    "(ucast ch :: u32) = of_nat (link_channel (use_csa2 st) (accessAddress st) (link_of st))"
    using link_channel_request [OF assms(1,2)] by blast
  define st0 where "st0 = st\<lparr>g_pkt_dir := 0, gotAuxConnReq := False\<rparr>"
  have chan: "getCurrChan st0 = Some ch" "\<not> (ucast ch :: u32) \<ge> 40"
  proof -
    show "getCurrChan st0 = Some ch"
      using ch(1) by (auto simp: getCurrChan_def st0_def split: if_splits)
    show "\<not> (ucast ch :: u32) \<ge> 40"
      using ch(2) by (simp add: word_le_nat_alt)
  qed
  have wanted: "wanted st = \<lparr>set_channel = ucast ch, set_whitening = 0x40 + ucast ch, set_address = accessAddress st,
      set_crc = crc_bytes (crcInit st), set_mode = mainMode_of (rc_phy (rconf st)),
      set_end = nextHopTime st + (if snifferState st = CENTRAL then 0 else time_extension st)\<rparr>"
    by (simp add: wanted_def Let_def ch(3) [symmetric]) (simp add: link_of_def time_extension_def)
  note simps = issue_def RadioWrapper_recvFrames_def end_trigger_def RadioWrapper_central_def RadioWrapper_peripheral_def
    data_cmd_of_def central_attempt_def Let_def time_extension_def
  have link: "link_of (st0\<lparr>firstPacket := p, moreData := m, ble4_cmd := q\<rparr>) = link_of st"
    "link_of (st0\<lparr>firstPacket := p, ble4_cmd := q\<rparr>) = link_of st"
    "link_of (st0\<lparr>firstPacket := p, g_pkt_dir := d, ble4_cmd := q\<rparr>) = link_of st" for p m q d
    by (simp_all add: st0_def link_of_def)
  have st0: "configured st0" "nextHopTime st0 = nextHopTime st" "rconf st0 = rconf st" "accessAddress st0 = accessAddress st"
    "crcInit st0 = crcInit st"
    using assms(3) by (simp_all add: st0_def)
  have "map_option (\<lambda>(p, st'). (asked p, link_of st')) (begin_data st0) = Some (Some (wanted st), link_of st)"
    if "snifferState st = DATA"
    using that st0 chan by (simp add: begin_data_def simps wanted link)
  moreover have "map_option (\<lambda>(p, st'). (asked p, link_of st')) (begin_central st0) = Some (Some (wanted st), link_of st)"
    if "snifferState st = CENTRAL"
    using that st0 chan(1) ch(2) by (simp add: begin_central_def simps wanted link)
  moreover have "map_option (\<lambda>(p, st'). (asked p, link_of st')) (begin_peripheral st0) = Some (Some (wanted st), link_of st)"
    if "snifferState st = PERIPHERAL"
    using that st0 chan(1) ch(2) by (simp add: begin_peripheral_def simps wanted link)
  ultimately show ?thesis
    using assms(4) unfolding loop_begin_def Let_def st0_def
    by (cases "snifferState st") (simp_all add: inDataState_def)
qed

lemma following_invariant:
  assumes "board_ok brd" "runs link_step_ok (sys_init brd clk) es s"
  shows "inv False True True (sys_fw s)" "linked (sys_fw s)"
  using following.runs_invariant [OF assms(2)] sys_inv_init [OF assms(1)] kept_init by (auto simp: sys_inv_def kept_def)

lemma following_usable:
  "inv False c d st \<Longrightarrow> inDataState st \<Longrightarrow> use_csa2 st \<longrightarrow> map_usable (chanMap (rconf st)) \<Longrightarrow> map_usable (chanMap (rconf st))"
  by (auto simp: inv_def maps_ok_def conf_maps_ok_def)

text \<open>Parameters that are known need no measurement.\<close>

definition params_certain :: "radio_config \<Rightarrow> bool" where
  "params_certain c \<longleftrightarrow> chanMapCertain c \<and> intervalCertain c \<and> winOffsetCertain c"

lemma measure_interval_certain:
  assumes "intervalCertain (rconf st)" "winOffsetCertain (rconf st)"
  shows "\<exists>t. measure_interval st = Some (st\<lparr>lastAnchorTicks := t\<rparr>)"
proof (cases "firstPacket st")
  case False
  then have "measure_interval st = Some (st\<lparr>lastAnchorTicks := lastAnchorTicks st\<rparr>)"
    using assms by (simp add: measure_interval_def)
  then show ?thesis ..
qed (use assms in \<open>auto simp: measure_interval_def\<close>)

lemma maybe_measure_certain:
  assumes "p \<longrightarrow> intervalCertain (rconf st) \<and> winOffsetCertain (rconf st)"
  shows "\<exists>t. (if p then measure_interval st else Some st) = Some (st\<lparr>lastAnchorTicks := t\<rparr>)"
proof (cases p)
  case False
  then have "(if p then measure_interval st else Some st) = Some (st\<lparr>lastAnchorTicks := lastAnchorTicks st\<rparr>)"
    by simp
  then show ?thesis ..
qed (use assms measure_interval_certain in simp)

text \<open>
  An event without measurements is one event of the link, or the end of the connection if it
  brought no packet and the supervision timeout has passed.
\<close>

definition timed_out :: "bool \<Rightarrow> fw \<Rightarrow> bool" where
  "timed_out gotData st \<longleftrightarrow> \<not> gotData \<and> connTimeoutTime st - rf_clock st (clock_reads st) > 0x80000000"

lemma afterConnEvent_step:
  assumes "link_ok st" "afterConnEvent peripheral gotData st = Some st'"
    and "peripheral \<longrightarrow> params_certain (rconf st)"
  shows "if timed_out gotData st then conn_over st st'
    else same_link st st' \<and> link_of st' = link_event peripheral (anchorOffset st) (unat (hopIncrement st)) (link_of st)"
proof -
  define now where "now = rf_clock st (clock_reads st)"
  define st0 where "st0 = st\<lparr>clock_reads := Suc (clock_reads st)\<rparr>"
  have clock: "RF_getCurrentTime st = (now, st0)"
    by (simp add: RF_getCurrentTime_def now_def st0_def)
  have timeout: "(\<not> gotData \<and> connTimeoutTime st0 - now > 0x80000000) = timed_out gotData st"
    by (simp add: timed_out_def st0_def now_def)
  show ?thesis
  proof (cases "timed_out gotData st")
    case True
    then have "handleConnFinished st0 = Some st'"
      using assms(2) unfolding afterConnEvent_def clock Let_def prod.case timeout by simp
    then have "conn_over st0 st'"
      by (rule handleConnFinished_over)
    then show ?thesis
      using True by (simp add: conn_over_def st0_def)
  next
    case False
    define st1 where "st1 = (if gotData then st0\<lparr>connTimeoutTime := now + connTimeoutTicks (rconf st0)\<rparr> else st0)"
    have certain: "\<not> (\<not> chanMapCertain (rconf st1) \<and> peripheral)"
      using assms(3) by (auto simp: st1_def st0_def params_certain_def)
    have "\<exists>t. (if peripheral \<and> instaHop st1 then measure_interval st1 else Some st1) = Some (st1\<lparr>lastAnchorTicks := t\<rparr>)"
      by (rule maybe_measure_certain) (use assms(3) in \<open>simp add: st1_def st0_def params_certain_def\<close>)
    then obtain t where t: "(if peripheral \<and> instaHop st1 then measure_interval st1 else Some st1) =
        Some (st1\<lparr>lastAnchorTicks := t\<rparr>)"
      by blast
    define st2 where "st2 = st1\<lparr>lastAnchorTicks := t\<rparr>"
    have "next_event peripheral st2 = Some st'"
      using assms(2) unfolding afterConnEvent_def clock Let_def prod.case timeout if_not_P [OF False] st1_def [symmetric]
        if_not_P [OF certain] bind.bind_lunit t st2_def [symmetric] .
    moreover have "link_ok st2" "link_of st2 = link_of st" "hopIncrement st2 = hopIncrement st" "same_link st st2"
      "anchorOffset st2 = anchorOffset st"
      using assms(1) by (auto simp: link_ok_def tables_ok_def link_of_def same_link_def st2_def st1_def st0_def)
    ultimately show ?thesis
      using False next_event_link [of st2 peripheral st'] by (auto simp: same_link_def)
  qed
qed

text \<open>
  Where a connection event ends: whether as a peripheral or observer, whether it brought a packet,
  and the state it ends in.  A run of the radio as a central or peripheral that is not cancelled is
  followed by the reaction to what was sent; a central that sweeps the window offset first notes
  the one that was answered, or gives up after the last.
\<close>

definition swept :: "errno + int \<Rightarrow> (u16 \<times> u16 \<times> u8) option \<Rightarrow> fw \<Rightarrow> (bool \<times> fw) option" where
  "swept status sweep st = (case sweep of
       None \<Rightarrow> Some (status = Inr 0, st)
     | Some (n, maxOffset, chan) \<Rightarrow>
         if status = Inr 0
         then map_option (\<lambda>st. (True, st\<lparr>nextHopTime := nextHopTime st + ucast n * 5000\<rparr>))
           (reportMeasWinOffset n (set_rconf (\<lambda>c. c\<lparr>winOffsetCertain := True\<rparr>) st))
         else if n + 1 \<le> maxOffset \<and> snifferState st = CENTRAL then None
         else map_option (Pair False)
           (if n + 1 > maxOffset then dprintf (ascii ''Central failed to measure WinOffset'') st else Some st))"

definition after_sent :: "rf_result \<Rightarrow> data_queue \<Rightarrow> u32 \<Rightarrow> fw \<Rightarrow> fw option" where
  "after_sent r q n st = do {
     st \<leftarrow> reactToTransmitted (rr_stack r) q n st;
     Some (snd (RF_getCurrentTime (st\<lparr>tx_q := TXQueue_flush n (tx_q st)\<rparr>))) }"

fun event_end :: "rf_result \<Rightarrow> loop_point \<Rightarrow> fw \<Rightarrow> (bool \<times> bool \<times> fw) option" where
  "event_end r (Rx_data c) st = Some (True, \<not> firstPacket st, st)"
| "event_end r (Sleep_central got) st = Some (False, got, st)"
| "event_end r (Sleep_peripheral got) st = Some (True, got, st)"
| "event_end r (Run_central c q t n sweep) st =
     (let (status, sent) = (case c of Inl e \<Rightarrow> (Inl e, n) | Inr _ \<Rightarrow> (data_cmd_result (rr_status r), rr_numSent r)) in
      do {
        (got, st) \<leftarrow> swept status sweep st;
        if snifferState st \<noteq> CENTRAL then None
        else map_option (\<lambda>st. (False, got, st)) (after_sent r q sent st) })"
| "event_end r (Run_peripheral c q) st =
     (if snifferState st \<noteq> PERIPHERAL then None
      else map_option (\<lambda>st. (True, (case c of Inl _ \<Rightarrow> False | Inr _ \<Rightarrow> data_cmd_result (rr_status r) = Inr 0), st))
        (after_sent r q (rr_numSent r) st))"
| "event_end r p st = None"

lemma after_central_event:
  assumes "after_central (rr_stack r) q n got st = Some (Idle, st')" "snifferState st = CENTRAL" "after_sent r q n st = Some st1"
  shows "afterConnEvent False got st1 = Some st'"
  using assms by (auto simp: after_central_def after_sent_def Let_def split_def split: bind_splits if_splits)

lemma finish_central_swept:
  assumes "swept status sweep st = Some (got, st0)" "finish_central r c q t n sweep st = Some (Idle, st')"
    and "(status, sent) = (case c of Inl e \<Rightarrow> (Inl e, n) | Inr _ \<Rightarrow> (data_cmd_result (rr_status r), rr_numSent r))"
  shows "after_central (rr_stack r) q sent got st0 = Some (Idle, st')"
proof (cases sweep)
  case None
  then show ?thesis
    using assms(1,2) by (simp add: swept_def finish_central_def assms(3) [symmetric])
next
  case (Some x)
  obtain k m ch where x: "x = (k, m, ch)"
    by (cases x)
  show ?thesis
  proof (cases "status = Inr 0")
    case True
    then show ?thesis
      using assms(1,2) by (auto simp: swept_def finish_central_def assms(3) [symmetric] Some x)
  next
    case False
    then show ?thesis
      using assms(1,2)
      by (auto simp: swept_def finish_central_def assms(3) [symmetric] Some x simp del: One_nat_def split: if_split_asm)
  qed
qed

lemma event_end_afterConnEvent:
  assumes "event_end r p st = Some (peripheral, got, st1)" "loop_resume r p st = Some (Idle, st')"
  shows "afterConnEvent peripheral got st1 = Some st'"
proof (cases "\<exists>c q t n sweep. p = Run_central c q t n sweep")
  case True
  then obtain c q t n sweep where p: "p = Run_central c q t n sweep"
    by blast
  obtain status sent where status:
    "(status, sent) = (case c of Inl e \<Rightarrow> (Inl e, n) | Inr _ \<Rightarrow> (data_cmd_result (rr_status r), rr_numSent r))"
    by (metis prod.collapse)
  obtain st0 where st0: "swept status sweep st = Some (got, st0)" "snifferState st0 = CENTRAL" "after_sent r q sent st0 = Some st1"
    "peripheral = False"
    using assms(1) by (auto simp: p status [symmetric] split: bind_splits if_splits)
  have "finish_central r c q t n sweep st = Some (Idle, st')"
    using assms(2) by (simp add: loop_resume_def p)
  then show ?thesis
    using finish_central_swept [OF st0(1) _ status] after_central_event [OF _ st0(2,3)] st0(4) by blast
next
  case False
  then show ?thesis
    using assms
    by (cases "(r, p, st)" rule: event_end.cases)
      (auto simp: loop_resume_def finish_peripheral_def after_sent_def Let_def split_def split: bind_splits if_splits)
qed

lemma after_sent_linked:
  assumes "after_sent r q n st = Some st1" "inv True True True st" "kept True items st" "txq_ok q" "length (rr_stack r) = 40"
  shows "inv True True True st1 \<and> linked st1"
proof -
  obtain st0 where st0: "reactToTransmitted (rr_stack r) q n st = Some st0"
    "st1 = snd (RF_getCurrentTime (st0\<lparr>tx_q := TXQueue_flush n (tx_q st0)\<rparr>))"
    using assms(1) by (auto simp: after_sent_def split: bind_splits)
  have "inv True True False st"
    using assms(2) by (simp add: inv_def)
  then have "inv True True False st0"
    using inv_reactToTransmitted [of True True st q "rr_stack r" n] assms(4,5) st0(1) by simp
  then have "inv True True True st0"
    by (simp add: inv_def)
  moreover have "kept True items st0"
    using kept_reactToTransmitted [OF assms(3), of "rr_stack r" q n] st0(1) by simp
  ultimately show ?thesis
    using inv_flush [of True True True st0 n] by (simp add: st0(2) kept_def RF_getCurrentTime_def linked_def tables_ok_def inDataState_def)
qed

lemma swept_linked:
  assumes "swept status sweep st = Some (got, st1)" "inv True True True st" "kept True items st"
  shows "inv True True True st1 \<and> kept True items st1"
proof (cases sweep)
  case None
  then show ?thesis
    using assms by (simp add: swept_def)
next
  case (Some x)
  obtain k m ch where x: "x = (k, m, ch)"
    by (cases x)
  show ?thesis
  proof (cases "status = Inr 0")
    case True
    define st0 where "st0 = set_rconf (\<lambda>c. c\<lparr>winOffsetCertain := True\<rparr>) st"
    have "inv True True True st0" "kept True items st0"
      using assms(2,3) by (simp_all add: st0_def)
    then show ?thesis
      using assms(1) True inv_measurement(4) [of True True True st0 True k] kept_reports(4) [of True items st0 k]
      by (auto simp: swept_def Some x st0_def)
  next
    case False
    define gave_up where "gave_up = ascii ''Central failed to measure WinOffset''"
    have "length gave_up < 128"
      by (simp add: gave_up_def ascii_def)
    then have kept: "outcome True (dprintf gave_up st) (inv True True True)" "outcome True (dprintf gave_up st) (kept True items)"
      using inv_dprintf [OF assms(2)] kept_reports(7) [OF assms(3)] by blast+
    have "st1 = st \<or> dprintf gave_up st = Some st1"
      using assms(1) False by (auto simp: swept_def Some x gave_up_def split: if_split_asm)
    then show ?thesis
      using kept assms(2,3) by (elim disjE) simp_all
  qed
qed

lemma event_end_linked:
  assumes "event_end r p st = Some (peripheral, got, st1)" "inv True True True st" "kept True items st"
    "point_ok p" "length (rr_stack r) = 40"
  shows "inv True True True st1 \<and> linked st1"
proof (cases "\<exists>c q t n sweep. p = Run_central c q t n sweep")
  case True
  then obtain c q t n sweep where p: "p = Run_central c q t n sweep"
    by blast
  obtain status sent got0 st0 where st0: "swept status sweep st = Some (got0, st0)" "after_sent r q sent st0 = Some st1"
    using assms(1) by (cases c) (auto simp: p split: bind_splits if_splits)
  show ?thesis
    using after_sent_linked [OF st0(2)] swept_linked [OF st0(1) assms(2,3)] assms(4,5) by (auto simp: p)
next
  case False
  then show ?thesis
    using assms after_sent_linked [OF _ assms(2,3) _ assms(5)]
    by (cases "(r, p, st)" rule: event_end.cases) (auto simp: kept_def split: if_splits sum.splits)
qed

section \<open>An example\<close>

definition example_board :: board where
  "example_board = \<lparr>tickPeriod = 10, txPowerTable = [(0, 0)]\<rparr>"

definition example_start :: system where
  "example_start = sys_init example_board (\<lambda>_. 0)"

text \<open>A connection request as the radio stores it.\<close>

definition example_request :: "u8 list" where
  "example_request = rx_entry False 0x05 (replicate 12 1 @ ll_bytes \<lparr>ll_aa = 0x12345678, ll_crc = 0xABCDEF, ll_winSize = 3,
     ll_winOffset = 2, ll_interval = 24, ll_latency = 0, ll_timeout = 100, ll_map = 0x1F, ll_hop = 7, ll_sca = 5\<rparr>)
     200 37 0 1000 @ replicate 300 0"

definition example_result :: rf_result where
  "example_result = \<lparr>rr_status = BLE_DONE_OK, rr_status38 = BLE_DONE_OK, rr_status39 = BLE_DONE_OK, rr_numSent = 0,
     rr_connTime = 0, rr_rxListenTime = 0, rr_phyMode = 0, rr_stack = replicate 40 0\<rparr>"

lemma example_connects:
  "case rx_frame (ble4_cmd (sys_fw example_start)) example_request of None \<Rightarrow> False
   | Some f \<Rightarrow> rx_map_ok (sys_fw example_start) f \<and> (case indicatePacket f (sys_fw example_start) of None \<Rightarrow> False
       | Some st \<Rightarrow> snifferState st = DATA \<and> \<not> use_csa2 st \<and> params_certain (rconf st) \<and>
           connTimeoutTime st \<le> 0x80000000 \<and> rf_clock st (clock_reads st) = 0)"
  by code_simp

lemma example_misc:
  "264 \<le> length example_request" "board_ok example_board" "\<not> gotAuxConnReq (sys_fw example_start)"
  "sys_point example_start = Idle" "length (rr_stack example_result) = 40"
  by code_simp+

lemma example_run:
  "\<exists>s. runs link_step_ok example_start [Frame_received example_request] s \<and> sys_point s = Idle \<and>
     snifferState (sys_fw s) = DATA \<and> \<not> use_csa2 (sys_fw s) \<and> params_certain (rconf (sys_fw s)) \<and>
     \<not> timed_out False (sys_fw s)"
proof -
  obtain f where f: "rx_frame (ble4_cmd (sys_fw example_start)) example_request = Some f" "rx_map_ok (sys_fw example_start) f"
    using example_connects by (auto split: option.splits)
  then obtain st where st: "indicatePacket f (sys_fw example_start) = Some st" "snifferState st = DATA" "\<not> use_csa2 st"
    "params_certain (rconf st)" "\<not> timed_out False st"
    using example_connects by (auto simp: timed_out_def split: option.splits)
  have "sys_step (Frame_received example_request) example_start (example_start\<lparr>sys_fw := st\<rparr>)"
    using example_misc(1) f(1) st(1) by (rule frame)
  then have "link_step_ok (Frame_received example_request) example_start (example_start\<lparr>sys_fw := st\<rparr>)"
    using f example_misc(1,3) by (simp add: link_step_ok_def admissible_def response_in_place_def)
  then show ?thesis
    using runs_more [OF runs_start] st example_misc(4) by fastforce
qed

lemma data_loop_top:
  assumes "snifferState st = DATA" "loop_resume r0 Idle st = Some (p, st')"
  shows "(\<exists>c. p = Rx_data c) \<and> event_end r p st' = Some (True, False, st') \<and> snifferState st' = DATA \<and>
    rconf st' = rconf st \<and> timed_out got st' = timed_out got st"
  using assms
  by (auto simp: loop_resume_def loop_begin_def begin_data_def issue_def RadioWrapper_recvFrames_def Let_def timed_out_def
      split: bind_splits prod.splits sum.splits if_splits)

lemma following_step:
  assumes "board_ok brd" "runs link_step_ok (sys_init brd clk) es s" "length (rr_stack r) = 40"
    "closes_event (sys_point s) \<longrightarrow> chanMapCertain (rconf (sys_fw s))"
  shows "\<exists>p st'. loop_resume r (sys_point s) (sys_fw s) = Some (p, st') \<and>
    runs link_step_ok (sys_init brd clk) (es @ [Loop_resumes r]) (s\<lparr>sys_fw := st', sys_point := p\<rparr>)"
proof -
  have ok: "admissible (Loop_resumes r) s" "sys_inv False s"
    using assms(3,4) following.runs_invariant [OF assms(2)] sys_inv_init [OF assms(1)] kept_init
    by (auto simp: admissible_def strike_ok_def)
  then obtain s' where step: "sys_step (Loop_resumes r) s s'"
    using admissible_step by blast
  then have "link_step_ok (Loop_resumes r) s s'"
    using ok by (simp add: link_step_ok_def response_in_place_def)
  then have "runs link_step_ok (sys_init brd clk) (es @ [Loop_resumes r]) s'"
    by (rule runs_more [OF assms(2)])
  then show ?thesis
    using step by (auto simp: sys_step_simps)
qed

section \<open>Properties\<close>

text \<open>
  C2. In every history of \<open>link_step_ok\<close> steps from start-up (inputs as in C1, and an AUX_CONNECT_RSP
  only while the hop tables are those of the request it answers), whenever the loop comes to its top
  in a connection mode, as observer, central or peripheral, and the connection, if it hops by
  algorithm #2, has a current map that names a channel, the loop asks the radio for exactly what
  the abstract link calls for: the channel of the selection algorithm for this event and channel
  map with its whitening, the connection's access address, CRC seed and PHY, until the time of the
  next event (one interval longer for a listener that does not know the window offset).
\<close>

theorem connection_requests_follow_link:
  assumes "board_ok brd" "runs link_step_ok (sys_init brd clk) es s"
    and "sys_point s = Idle" "inDataState (sys_fw s)" "use_csa2 (sys_fw s) \<longrightarrow> map_usable (chanMap (rconf (sys_fw s)))"
  shows "\<exists>p st'. loop_resume r (sys_point s) (sys_fw s) = Some (p, st') \<and> asked p = Some (wanted (sys_fw s)) \<and>
    link_of st' = link_of (sys_fw s)"
proof -
  note ok = following_invariant [OF assms(1,2)]
  have "link_ok (sys_fw s)" "map_usable (chanMap (rconf (sys_fw s)))" "configured (sys_fw s)"
    using linked_link_ok [OF ok(2,1) assms(4)] following_usable [OF ok(1) assms(4,5)] ok(2) by (simp_all add: linked_def)
  then show ?thesis
    using loop_begin_wanted [of "sys_fw s"] assms(3,4) by (auto simp: loop_resume_def)
qed

lemma connection_requests_follow_link_witness:
  "\<exists>s p st'. runs link_step_ok example_start [Frame_received example_request] s \<and>
     loop_resume example_result (sys_point s) (sys_fw s) = Some (p, st') \<and> asked p = Some (wanted (sys_fw s))"
proof -
  obtain s where s: "runs link_step_ok example_start [Frame_received example_request] s" "sys_point s = Idle"
    "snifferState (sys_fw s) = DATA" "\<not> use_csa2 (sys_fw s)"
    using example_run by blast
  have "inDataState (sys_fw s)"
    using s(3) by (simp add: inDataState_def)
  then show ?thesis
    using connection_requests_follow_link [OF example_misc(2) s(1) [unfolded example_start_def] s(2)] s
    unfolding example_start_def by blast
qed

text \<open>
  C5. In every history of \<open>link_step_ok\<close> steps from start-up (as in C2), let the loop end a connection
  event, after a reception as an observer, after a run of the radio or the sleep that follows it as
  a central or peripheral, in a connection mode and, as a peripheral or observer, with known
  parameters.  If the event brought no packet and the supervision timeout has passed, the
  connection is over.  Otherwise the connection stays and its link, as the reaction to what was sent
  left it, makes exactly one step: the
  next event, the waiting update whose instant has come, one interval on, and as a peripheral or
  observer at every fourth event the correction by the error of the middle one of the last anchors.
\<close>

theorem connection_events_step_link:
  assumes "board_ok brd" "runs link_step_ok (sys_init brd clk) es s" "length (rr_stack r) = 40"
    and "event_end r (sys_point s) (sys_fw s) = Some (peripheral, got, st)"
    and "inDataState st" "peripheral \<longrightarrow> params_certain (rconf st)"
    and "loop_resume r (sys_point s) (sys_fw s) = Some (Idle, st')"
  shows "if timed_out got st then conn_over st st'
    else same_link st st' \<and> link_of st' = link_event peripheral (anchorOffset st) (unat (hopIncrement st)) (link_of st)"
proof -
  obtain items where kept: "kept True items (sys_fw s)" "sys_inv False s"
    using following.runs_invariant [OF assms(2)] sys_inv_init [OF assms(1)] kept_init [of brd clk] by blast
  have "inv True True True (sys_fw s)" "point_ok (sys_point s)"
    using kept(2) by (simp_all add: sys_inv_def inv_def)
  then have "inv True True True st" "linked st"
    using event_end_linked [OF assms(4) _ kept(1) _ assms(3)] by blast+
  then have "link_ok st"
    using linked_link_ok assms(5) by blast
  then show ?thesis
    using event_end_afterConnEvent [OF assms(4,7)] assms(6) by (rule afterConnEvent_step)
qed

lemma connection_events_step_link_witness:
  "\<exists>s st'. runs link_step_ok example_start [Frame_received example_request, Loop_resumes example_result] s \<and>
     event_end example_result (sys_point s) (sys_fw s) = Some (True, False, sys_fw s) \<and>
     loop_resume example_result (sys_point s) (sys_fw s) = Some (Idle, st') \<and> same_link (sys_fw s) st' \<and>
     link_of st' = link_event True (anchorOffset (sys_fw s)) (unat (hopIncrement (sys_fw s))) (link_of (sys_fw s))"
proof -
  obtain s where s: "runs link_step_ok example_start [Frame_received example_request] s" "sys_point s = Idle"
    "snifferState (sys_fw s) = DATA" "params_certain (rconf (sys_fw s))" "\<not> timed_out False (sys_fw s)"
    using example_run by blast
  note run = s(1) [unfolded example_start_def]
  obtain p st' where st': "loop_resume example_result Idle (sys_fw s) = Some (p, st')"
    "runs link_step_ok example_start ([Frame_received example_request] @ [Loop_resumes example_result])
       (s\<lparr>sys_fw := st', sys_point := p\<rparr>)"
    using following_step [OF example_misc(2) run example_misc(5)] s(2) unfolding example_start_def by auto
  define s2 where "s2 = s\<lparr>sys_fw := st', sys_point := p\<rparr>"
  have top: "\<exists>c. sys_point s2 = Rx_data c" "event_end example_result (sys_point s2) (sys_fw s2) = Some (True, False, sys_fw s2)"
    "inDataState (sys_fw s2)" "params_certain (rconf (sys_fw s2))" "\<not> timed_out False (sys_fw s2)"
    using data_loop_top [OF s(3) st'(1), of example_result False] s(4,5) by (simp_all add: s2_def inDataState_def)
  have run2: "runs link_step_ok (sys_init example_board (\<lambda>_. 0)) [Frame_received example_request, Loop_resumes example_result] s2"
    using st'(2) by (simp add: s2_def example_start_def)
  have "closes_event (sys_point s2) \<longrightarrow> chanMapCertain (rconf (sys_fw s2))"
    using top(4) by (simp add: params_certain_def)
  then obtain p2 st2 where "loop_resume example_result (sys_point s2) (sys_fw s2) = Some (p2, st2)"
    using following_step [OF example_misc(2) run2 example_misc(5)] by blast
  then have st2: "loop_resume example_result (sys_point s2) (sys_fw s2) = Some (Idle, st2)"
    using top(1) by (auto simp: loop_resume_def split: bind_splits)
  show ?thesis
    using connection_events_step_link [OF example_misc(2) run2 example_misc(5) top(2,3) _ st2] top(2,4,5) run2 st2
    unfolding example_start_def by auto
qed

end
