(* ===== verification/Host_Path.thy ===== *)
theory Host_Path
  imports Link_Reach "HOL-Library.Sublist"
begin

text \<open>
  From the radio to the host, over whole histories of the firmware: \<open>traffic\<close> collects the frames
  that the receive interrupt hands over and the messages that the packet task sends.  What the host
  decodes from the messages, and then from what is still queued, is a subsequence of the frames
  received, in their order; the queue is emptied by the packet task alone.
\<close>

unbundle bit_operations_syntax

section \<open>What the host sees\<close>

definition host_view :: "ble_frame \<Rightarrow> host_frame" where
  "host_view f = \<lparr>hf_timestamp_us = drop_bit 2 (f_timestamp f), hf_length = flen f,
     hf_crcError = f_crcError f, hf_direction = bit (f_direction f) 0, hf_eventCtr = f_eventCtr f,
     hf_rssi = f_rssi f, hf_channel = unat (f_channel f), hf_phy = phy_code (f_phy f),
     hf_body = take (flen f) (f_pData f)\<rparr>"

text \<open>The frames among the messages that the host receives.\<close>

definition host_frames :: "u8 list list \<Rightarrow> host_frame list" where
  "host_frames msgs = List.map_filter host_decode msgs"

lemma host_frames_append [simp]: "host_frames (xs @ ys) = host_frames xs @ host_frames ys"
  by (simp add: host_frames_def map_filter_def)

lemma host_view_frame_view [simp]: "host_view (frame_view f) = host_view f"
  by (simp add: host_view_def) (simp add: frame_view_def)

lemma sendPacket_frame:
  assumes "\<not> is_report f" "frame_ok f"
  shows "\<exists>msg. sendPacket f = Some (Some msg) \<and> host_decode msg = Some (host_view f)"
  using sendPacket_ble [OF _ assms(2)] assms(1)
  by (auto simp: is_report_def host_view_def)

lemma host_decode_type: "length msg > 1 \<Longrightarrow> msg ! 1 \<noteq> MESSAGE_BLEFRAME \<Longrightarrow> host_decode msg = None"
  by (cases "host_decode msg") (auto simp: host_decode_def rd_def split: bind_splits if_splits)

lemma sendPacket_report: "is_report f \<Longrightarrow> sendPacket f = Some (Some msg) \<Longrightarrow> host_decode msg = None"
  by (auto simp: is_report_def sendPacket_def message_body_def Let_def bytes32_def split: bind_splits if_splits
      intro!: host_decode_type)

text \<open>The packet task sends the first frame of the queue.\<close>

lemma sent_by_first:
  assumes "kept lk items (sys_fw s)" "packet_items (sys_fw s) = f # fs"
  shows "host_frames (sent_by Packet_sent s) = (if is_report f then [] else [host_view f])"
proof -
  let ?g = "s_frames (sys_fw s) ! slot_of (queue_tail (sys_fw s))"
  have ok: "packet_queue_ok (sys_fw s)" "flen f \<le> PACKET_SIZE"
    using assms by (simp_all add: kept_def sendable_def)
  have "ring_size (queue_head (sys_fw s)) (queue_tail (sys_fw s)) > 0"
    using packet_items_nonempty [of "sys_fw s"] assms(2) by simp
  then have f: "f = frame_view ?g"
    using assms(2) ring_list_hd [of "queue_head (sys_fw s)" "queue_tail (sys_fw s)" "s_frames (sys_fw s)"]
    by (auto simp: packet_items_def)
  have g: "frame_ok ?g" "is_report ?g = is_report f" "host_view ?g = host_view f"
    using ok by (simp_all add: f frame_ok_def packet_queue_ok_def)
  obtain msg where msg: "packetTask_step (sys_fw s) = Some (msg, (sys_fw s)\<lparr>queue_tail := queue_tail (sys_fw s) + 1\<rparr>)"
    using packetTask_step_Some [OF ok(1)] by blast
  then have send: "sendPacket ?g = Some msg"
    by (auto simp: packetTask_step_def split: bind_splits)
  show ?thesis
  proof (cases "is_report f")
    case True
    then show ?thesis
      using msg send g(2) sendPacket_report [of ?g]
      by (cases msg) (auto simp: sent_by_def host_frames_def map_filter_def)
  next
    case False
    then show ?thesis
      using msg send g sendPacket_frame [of ?g] by (auto simp: sent_by_def host_frames_def map_filter_def)
  qed
qed

text \<open>The first frame for the host, unless the first of the queue is a report.\<close>

lemma first_item:
  assumes "kept lk items st" "packet_items st = f # fs"
  shows "items = (if is_report f then items else f # tl items)"
  using assms by (auto simp: kept_def host_items_def)

section \<open>Traffic\<close>

inductive traffic :: "system \<Rightarrow> event list \<Rightarrow> ble_frame list \<Rightarrow> u8 list list \<Rightarrow> system \<Rightarrow> bool" for s where
  traffic_start: "traffic s [] [] [] s"
| traffic_step: "traffic s es ins outs s' \<Longrightarrow> sys_step e s' s'' \<Longrightarrow>
    traffic s (es @ [e]) (ins @ received_by e s') (outs @ sent_by e s') s''"

definition path_ok :: "ble_frame list \<Rightarrow> u8 list list \<Rightarrow> system \<Rightarrow> bool" where
  "path_ok ins outs s \<longleftrightarrow> (\<exists>items. kept False items (sys_fw s) \<and>
     subseq (host_frames outs @ map host_view items) (map host_view ins))"

lemma sent_by_other: "e \<noteq> Packet_sent \<Longrightarrow> sent_by e s = []"
  by (cases e) (simp_all add: sent_by_def)

lemma received_by_sent [simp]: "received_by Packet_sent s = []"
  by (simp add: received_by_def)

lemma path_ok_step:
  assumes "path_ok ins outs s" "sys_step e s s'"
  shows "path_ok (ins @ received_by e s) (outs @ sent_by e s) s'"
proof -
  obtain items where items: "kept False items (sys_fw s)"
    "subseq (host_frames outs @ map host_view items) (map host_view ins)"
    using assms(1) by (auto simp: path_ok_def)
  consider "e \<noteq> Packet_sent" "kept False items (sys_fw s')"
    | f where "e \<noteq> Packet_sent" "received_by e s = [f]" "kept False (items @ [frame_view f]) (sys_fw s')"
    | f fs where "e = Packet_sent" "packet_items (sys_fw s) = f # fs"
        "kept False (if is_report f then items else tl items) (sys_fw s')"
    using kept_sys_step [OF items(1) _ assms(2)] by blast
  then show ?thesis
  proof cases
    case 1
    then show ?thesis
      using items(2) by (auto simp: path_ok_def sent_by_other intro!: list_emb_prefix)
  next
    case (2 f)
    moreover have "subseq ((host_frames outs @ map host_view items) @ [host_view f]) (map host_view ins @ [host_view f])"
      using items(2) by (rule list_emb_append_mono) simp
    ultimately show ?thesis
      by (auto simp: path_ok_def sent_by_other intro!: exI [of _ "items @ [frame_view f]"])
  next
    case (3 f fs)
    have "host_frames (outs @ sent_by e s) @ map host_view (if is_report f then items else tl items) =
        host_frames outs @ map host_view items"
      using sent_by_first [OF items(1) 3(2)] first_item [OF items(1) 3(2)] 3(1) by (auto, metis list.simps(9))
    then show ?thesis
      using 3(1,3) items(2) by (auto simp: path_ok_def)
  qed
qed

lemma traffic_path_ok: "traffic s es ins outs s' \<Longrightarrow> path_ok [] [] s \<Longrightarrow> path_ok ins outs s'"
  by (induction rule: traffic.induct) (simp_all add: path_ok_step)

lemma path_ok_init: "path_ok [] [] (sys_init brd clk)"
  using kept_init by (auto simp: path_ok_def host_frames_def map_filter_def kept_def)

section \<open>The packet task alone empties the queue\<close>

lemma packet_sent_enabled:
  assumes "kept lk items (sys_fw s)" "packet_items (sys_fw s) = f # fs"
  shows "\<exists>s'. sys_step Packet_sent s s' \<and> packet_items (sys_fw s') = fs"
proof -
  have ok: "packet_queue_ok (sys_fw s)"
    using assms(1) by (simp add: kept_def)
  obtain msg where msg: "packetTask_step (sys_fw s) = Some (msg, (sys_fw s)\<lparr>queue_tail := queue_tail (sys_fw s) + 1\<rparr>)"
    using packetTask_step_Some [OF ok] by blast
  have "packet_items ((sys_fw s)\<lparr>queue_tail := queue_tail (sys_fw s) + 1\<rparr>) = fs"
    using packetq.rem_items [OF ok] assms(2) packet_rem_tail [OF ok] by simp
  then show ?thesis
    using msg assms(2) by (auto simp: sys_step_simps)
qed

lemma traffic_more:
  assumes "traffic s' es2 ins2 outs2 s''" "traffic s es ins outs s'"
  shows "traffic s (es @ es2) (ins @ ins2) (outs @ outs2) s''"
  using assms
proof (induction rule: traffic.induct)
  case (traffic_step es2 ins2 outs2 t e t')
  then show ?case
    using traffic.traffic_step [of s "es @ es2" "ins @ ins2" "outs @ outs2" t e t'] by simp
qed simp

lemma drain:
  assumes "kept False items (sys_fw s)" "length (packet_items (sys_fw s)) = n"
  shows "\<exists>outs s'. traffic s (replicate n Packet_sent) [] outs s' \<and> host_frames outs = map host_view items \<and>
    packet_items (sys_fw s') = []"
  using assms
proof (induction n arbitrary: s items)
  case 0
  then have "items = []"
    by (simp add: kept_def host_items_def)
  moreover have "host_frames [] = []"
    by (simp add: host_frames_def map_filter_def)
  ultimately show ?case
    using 0 traffic_start [of s] by fastforce
next
  case (Suc n)
  then obtain f fs where queue: "packet_items (sys_fw s) = f # fs"
    by (cases "packet_items (sys_fw s)") auto
  obtain s1 where s1: "sys_step Packet_sent s s1" "packet_items (sys_fw s1) = fs"
    using packet_sent_enabled [OF Suc.prems(1) queue] by blast
  let ?items = "if is_report f then items else tl items"
  have "kept False ?items (sys_fw s1)"
    using kept_sys_step [OF Suc.prems(1) _ s1(1)] queue by auto
  then obtain outs s' where rest: "traffic s1 (replicate n Packet_sent) [] outs s'"
    "host_frames outs = map host_view ?items" "packet_items (sys_fw s') = []"
    using Suc.IH [of ?items s1] Suc.prems(2) queue s1(2) by auto
  have "traffic s [Packet_sent] [] (sent_by Packet_sent s) s1"
    using traffic_step [OF traffic_start s1(1)] by simp
  from traffic_more [OF rest(1) this]
  have "traffic s (replicate (Suc n) Packet_sent) [] (sent_by Packet_sent s @ outs) s'"
    by simp
  moreover have "host_frames (sent_by Packet_sent s @ outs) = map host_view items"
    using sent_by_first [OF Suc.prems(1) queue] rest(2) first_item [OF Suc.prems(1) queue]
    by (auto, metis list.simps(9))
  ultimately show ?case
    using rest(3) by blast
qed

section \<open>Over the serial line\<close>

lemma length_rds: "rds xs i n = Some ys \<Longrightarrow> length ys = n"
  by (auto simp: rds_def split: if_splits)

lemma message_body_short:
  assumes "message_body f = Some body" "flen f \<le> PACKET_SIZE"
  shows "length body + 1 \<le> MESSAGE_MAX"
  using assms by (auto simp: message_body_def Let_def bytes32_def bytes16_def dest!: length_rds split: if_splits bind_splits)

lemma sendPacket_framed:
  assumes "sendPacket f = Some (Some msg)"
  shows "well_framed msg"
proof -
  obtain body where body: "\<not> flen f > PACKET_SIZE" "message_body f = Some body"
    "msg = of_nat ((length body + 1 + 2) div 3) # body"
    using assms by (auto simp: sendPacket_def Let_def split: bind_splits if_splits)
  then show ?thesis
    using message_body_short [of f body] by (simp add: well_framed_def unat_of_nat)
qed

lemma sent_by_framed: "msg \<in> set (sent_by e s) \<Longrightarrow> well_framed msg"
  by (cases e) (auto simp: sent_by_def packetTask_step_def sendPacket_framed split: bind_splits option.splits)

lemma traffic_framed: "traffic s es ins outs s' \<Longrightarrow> list_all well_framed outs"
  by (induction rule: traffic.induct) (auto simp: list_all_iff dest: sent_by_framed)

text \<open>All messages sent one after the other, and as many receives.\<close>

fun send_all :: "(nat \<Rightarrow> nat \<Rightarrow> nat) \<Rightarrow> u8 list list \<Rightarrow> u8 list option" where
  "send_all uart_write [] = Some []"
| "send_all uart_write (msg # msgs) = do {
     wire \<leftarrow> messenger_send uart_write msg;
     wires \<leftarrow> send_all uart_write msgs;
     Some (wire @ wires) }"

fun recv_all :: "(nat \<Rightarrow> nat) \<Rightarrow> nat \<Rightarrow> u8 list \<Rightarrow> u8 list \<Rightarrow> u8 list \<Rightarrow> (u8 list list \<times> u8 list) option" where
  "recv_all arrived 0 b64_buf dst_buf inp = Some ([], inp)"
| "recv_all arrived (Suc n) b64_buf dst_buf inp = do {
     (ret, b64_buf, dst_buf, inp) \<leftarrow> messenger_recv arrived b64_buf dst_buf inp;
     (msgs, inp) \<leftarrow> recv_all arrived n b64_buf dst_buf inp;
     Some (take (nat ret) dst_buf # msgs, inp) }"

lemma send_recv_all:
  assumes "progresses uart_write" "5 \<le> arrived 0" "b64_size \<le> arrived 1" "list_all well_framed msgs"
    and "length b64_buf = b64_size" "length dst_buf = MESSAGE_MAX"
  shows "\<exists>wire. send_all uart_write msgs = Some wire \<and> recv_all arrived (length msgs) b64_buf dst_buf (wire @ ys) = Some (msgs, ys)"
  using assms(4-)
proof (induction msgs arbitrary: b64_buf dst_buf)
  case (Cons msg msgs)
  have framed: "well_framed msg" "list_all well_framed msgs"
    using Cons.prems(1) by simp_all
  have sent: "messenger_send uart_write msg = Some (base64_encode msg @ [CR, LF])"
    using assms(1) framed(1) by (intro messenger_send_wire) (simp_all add: well_framed_def)
  obtain wires where wires: "send_all uart_write msgs = Some wires"
    using Cons.IH [OF framed(2) Cons.prems(2,3)] by blast
  obtain b64_buf' where b64: "messenger_recv arrived b64_buf dst_buf (base64_encode msg @ CR # LF # wires @ ys) =
      Some (int (length msg), b64_buf', overwrite dst_buf 0 msg, wires @ ys)"
    using messenger_recv_message [OF framed(1) Cons.prems(2,3) assms(2,3)] by blast
  then have "length b64_buf' = b64_size" "length (overwrite dst_buf 0 msg) = MESSAGE_MAX"
    using messenger_recv_shape [OF _ _ b64] Cons.prems(2,3) by simp_all
  then have "recv_all arrived (length msgs) b64_buf' (overwrite dst_buf 0 msg) (wires @ ys) = Some (msgs, ys)"
    using Cons.IH [OF framed(2)] wires by fastforce
  moreover have "take (length msg) (overwrite dst_buf 0 msg) = msg"
    by (simp add: overwrite_def)
  ultimately show ?case
    using sent wires b64 by simp
qed simp

section \<open>An example\<close>

text \<open>The connection request is queued behind the report of the change of mode.\<close>

definition example_seen :: host_frame where
  "example_seen = \<lparr>hf_timestamp_us = 250, hf_length = 36, hf_crcError = False, hf_direction = False, hf_eventCtr = 0,
     hf_rssi = 200, hf_channel = 37, hf_phy = 0, hf_body = 0x05 # 34 # replicate 12 1 @ ll_bytes \<lparr>ll_aa = 0x12345678,
       ll_crc = 0xABCDEF, ll_winSize = 3, ll_winOffset = 2, ll_interval = 24, ll_latency = 0, ll_timeout = 100,
       ll_map = 0x1F, ll_hop = 7, ll_sca = 5\<rparr>\<rparr>"

lemma example_queued:
  "case rx_frame (ble4_cmd (sys_fw example_start)) example_request of None \<Rightarrow> False
   | Some f \<Rightarrow> (case indicatePacket f (sys_fw example_start) of None \<Rightarrow> False
       | Some st \<Rightarrow> map host_view (host_items st) = [example_seen] \<and> length (packet_items st) = 2)"
  by code_simp

lemma example_traffic:
  "\<exists>ins s. traffic example_start [Frame_received example_request] ins [] s \<and>
     map host_view (host_items (sys_fw s)) = [example_seen] \<and> length (packet_items (sys_fw s)) = 2"
proof -
  obtain f st where f: "rx_frame (ble4_cmd (sys_fw example_start)) example_request = Some f"
    "indicatePacket f (sys_fw example_start) = Some st" "map host_view (host_items st) = [example_seen]"
    "length (packet_items st) = 2"
    using example_queued by (auto split: option.splits)
  have "sys_step (Frame_received example_request) example_start (example_start\<lparr>sys_fw := st\<rparr>)"
    using example_misc(1) f(1,2) by (rule frame)
  then show ?thesis
    using traffic_step [OF traffic_start] f(3,4) by (fastforce simp: sent_by_def)
qed

lemma example_drained:
  "\<exists>ins outs s. traffic example_start [Frame_received example_request, Packet_sent, Packet_sent] ins outs s \<and>
     host_frames outs = [example_seen]"
proof -
  obtain ins s where t: "traffic example_start [Frame_received example_request] ins [] s"
    "map host_view (host_items (sys_fw s)) = [example_seen]" "length (packet_items (sys_fw s)) = 2"
    using example_traffic by (elim exE conjE) (rule that)
  have "kept False (host_items (sys_fw s)) (sys_fw s)"
    using traffic_path_ok [OF t(1)] path_ok_init by (auto simp: path_ok_def kept_def example_start_def)
  from drain [OF this t(3)] show ?thesis
    using traffic_more [OF _ t(1)] t(2) by (fastforce simp: numeral_2_eq_2)
qed

section \<open>Properties\<close>

text \<open>
  C3. In every history from start-up, what the host decodes from the messages it was sent, followed
  by what is still queued for it, is a subsequence of the frames the radio received, with every
  field as received and stamped: frames may be filtered or dropped, but none is invented, changed,
  duplicated or overtaken.
\<close>

theorem host_sees_received_frames:
  assumes "traffic (sys_init brd clk) es ins outs s"
  shows "subseq (host_frames outs @ map host_view (host_items (sys_fw s))) (map host_view ins)"
  using traffic_path_ok [OF assms path_ok_init] by (auto simp: path_ok_def kept_def)

lemma host_sees_received_frames_witness:
  "\<exists>ins outs s. traffic example_start [Frame_received example_request] ins outs s \<and>
     subseq [example_seen] (map host_view ins)"
proof -
  obtain ins s where t: "traffic example_start [Frame_received example_request] ins [] s"
    "map host_view (host_items (sys_fw s)) = [example_seen]"
    using example_traffic by (elim exE conjE) (rule that)
  then show ?thesis
    using host_sees_received_frames [OF t(1) [unfolded example_start_def]] by (auto simp: host_frames_def map_filter_def)
qed

text \<open>
  C8. Whatever happened since start-up, the packet task alone, run once for every queued frame,
  empties the queue, and the host has then decoded every frame that was queued for it.
\<close>

theorem queued_frames_reach_host:
  assumes "traffic (sys_init brd clk) es ins outs s"
  shows "\<exists>outs' s'. traffic (sys_init brd clk) (es @ replicate (length (packet_items (sys_fw s))) Packet_sent) ins (outs @ outs') s' \<and>
    host_frames outs' = map host_view (host_items (sys_fw s)) \<and> packet_items (sys_fw s') = []"
proof -
  have "kept False (host_items (sys_fw s)) (sys_fw s)"
    using traffic_path_ok [OF assms path_ok_init] by (auto simp: path_ok_def kept_def)
  from drain [OF this refl] obtain outs' s' where
    "traffic s (replicate (length (packet_items (sys_fw s))) Packet_sent) [] outs' s'"
    "host_frames outs' = map host_view (host_items (sys_fw s))" "packet_items (sys_fw s') = []"
    by blast
  then show ?thesis
    using traffic_more [OF _ assms] by fastforce
qed

lemma queued_frames_reach_host_witness:
  "\<exists>ins outs s. traffic example_start [Frame_received example_request, Packet_sent, Packet_sent] ins outs s \<and>
     host_frames outs = [example_seen] \<and> packet_items (sys_fw s) = []"
proof -
  obtain ins s where t: "traffic example_start [Frame_received example_request] ins [] s"
    "map host_view (host_items (sys_fw s)) = [example_seen]" "length (packet_items (sys_fw s)) = 2"
    using example_traffic by (elim exE conjE) (rule that)
  then show ?thesis
    using queued_frames_reach_host [OF t(1) [unfolded example_start_def]] unfolding example_start_def
    by (auto simp: numeral_2_eq_2)
qed

text \<open>
  C39. In every history from start-up, all that the packet task sends arrives: over any serial
  driver that makes progress every message is sent whole, and reading the line message by message
  yields exactly the messages sent, in order, and nothing is left over.
\<close>

theorem history_crosses_serial_line:
  assumes "traffic (sys_init brd clk) es ins outs s"
    and "progresses uart_write" "5 \<le> arrived 0" "b64_size \<le> arrived 1"
  shows "\<exists>wire. send_all uart_write outs = Some wire \<and>
    recv_all arrived (length outs) (replicate b64_size 0) (replicate MESSAGE_MAX 0) wire = Some (outs, [])"
  using send_recv_all [OF assms(2-4) traffic_framed [OF assms(1)], of "replicate b64_size 0" "replicate MESSAGE_MAX 0" "[]"]
  by simp

lemma history_crosses_serial_line_witness:
  "\<exists>ins outs s wire. traffic example_start [Frame_received example_request, Packet_sent, Packet_sent] ins outs s \<and>
     host_frames outs = [example_seen] \<and> send_all (\<lambda>k n. 1) outs = Some wire \<and>
     recv_all (\<lambda>_. 500) (length outs) (replicate b64_size 0) (replicate MESSAGE_MAX 0) wire = Some (outs, [])"
proof -
  obtain ins outs s where t: "traffic example_start [Frame_received example_request, Packet_sent, Packet_sent] ins outs s"
    "host_frames outs = [example_seen]"
    using example_drained by blast
  then show ?thesis
    using history_crosses_serial_line [OF t(1) [unfolded example_start_def], of "\<lambda>k n. 1" "\<lambda>_. 500"]
    by (auto simp: progresses_def)
qed

end
