(* ===== verification/Command_Props.thy ===== *)
theory Command_Props
  imports Link_Spec
begin

text \<open>
  What the commands of the host do to the rest of the firmware: a command of the wrong length
  does nothing, a PDU to transmit goes from the serial line into the transmit queue, preloaded
  parameters are checked before they are kept, and a channel map set by the host is used from
  the next connection event on.
\<close>

unbundle bit_operations_syntax

section \<open>Rejected commands\<close>

text \<open>The lengths of the messages, opcode and length byte included.\<close>

definition command_length_ok :: "u8 \<Rightarrow> int \<Rightarrow> u8 list \<Rightarrow> bool" where
  "command_length_ok opcode ret buf \<longleftrightarrow> 0x10 \<le> opcode \<and> opcode \<le> 0x27 \<and> 2 \<le> ret \<and>
     (opcode \<in> {0x14, 0x17, 0x22, 0x24} \<longrightarrow> ret = 2) \<and>
     (opcode \<in> {0x11, 0x12, 0x15, 0x16, 0x1F, 0x23, 0x26, 0x27} \<longrightarrow> ret = 3) \<and>
     (opcode = 0x13 \<longrightarrow> ret = 8) \<and> (opcode = 0x1E \<longrightarrow> ret = 18) \<and>
     (opcode = 0x1D \<longrightarrow> ret = 4) \<and> (opcode = 0x20 \<longrightarrow> ret = 7) \<and> (opcode = 0x1B \<longrightarrow> ret = 9) \<and>
     (opcode = 0x10 \<longrightarrow> ret = 12) \<and> (opcode = 0x1A \<longrightarrow> ret = 31) \<and> (opcode = 0x1C \<longrightarrow> ret = 67) \<and>
     (opcode = 0x21 \<longrightarrow> ret \<le> 18) \<and>
     (opcode = 0x19 \<longrightarrow> ret = int (unat (buf ! 5)) + 6) \<and>
     (opcode = 0x25 \<longrightarrow> ret = int (unat (buf ! 7)) + 8)"

text \<open>A filter of the wrong length is a request for no filter.\<close>

definition rejected :: "u8 \<Rightarrow> int \<Rightarrow> fw \<Rightarrow> fw" where
  "rejected opcode ret st = (if 2 \<le> ret \<and> opcode \<in> {0x13, 0x1E} then st\<lparr>filterMacs := False, filterRpas := False\<rparr> else st)"

lemma command_sniff_rejects:
  assumes "length buf = 300" "\<not> command_length_ok opcode ret buf" "2 \<le> ret" 
  shows "command_sniff opcode ret buf st = Some (if opcode = 0x13 then rejected opcode ret st else st)"
proof -
  consider "opcode = 0x10" | "opcode = 0x11" | "opcode = 0x12" | "opcode = 0x13" | "opcode = 0x14" | "opcode = 0x15" | "opcode = 0x16" | "opcode \<notin> {0x10, 0x11, 0x12, 0x13, 0x14, 0x15, 0x16}"
    by blast
  then show ?thesis
    by cases (use assms in \<open>simp_all add: command_sniff_def command_length_ok_def rejected_def setMacFilt_def\<close>)
qed

lemma command_transmit_rejects:
  assumes "length buf = 300" "\<not> command_length_ok opcode ret buf" "2 \<le> ret" 
  shows "command_transmit opcode ret buf st = Some st"
proof -
  consider "opcode = 0x17" | "opcode = 0x18" | "opcode = 0x19" | "opcode = 0x1A" | "opcode = 0x1B" | "opcode = 0x1C" | "opcode = 0x1D" | "opcode \<notin> {0x17, 0x18, 0x19, 0x1A, 0x1B, 0x1C, 0x1D}"
    by blast
  then show ?thesis
    by cases (use assms in \<open>simp_all add: command_transmit_def command_length_ok_def\<close>)
qed

lemma command_follow_rejects:
  assumes "length buf = 300" "\<not> command_length_ok opcode ret buf" "2 \<le> ret" 
  shows "command_follow opcode ret buf st = Some (if opcode = 0x1E then rejected opcode ret st else st)"
proof -
  consider "opcode = 0x1E" | "opcode = 0x1F" | "opcode = 0x20" | "opcode = 0x21" | "opcode = 0x22" | "opcode = 0x23" | "opcode = 0x24" | "opcode \<notin> {0x1E, 0x1F, 0x20, 0x21, 0x22, 0x23, 0x24}"
    by blast
  then show ?thesis
    by cases (use assms in \<open>simp_all add: command_follow_def command_length_ok_def rejected_def setRpaFilt_def\<close>)
qed

lemma command_ext_rejects:
  assumes "length buf = 300" "\<not> command_length_ok opcode ret buf" "2 \<le> ret" 
  shows "command_ext opcode ret buf st = Some st"
proof -
  consider "opcode = 0x25" | "opcode = 0x26" | "opcode = 0x27" | "opcode \<notin> {0x25, 0x26, 0x27}"
    by blast
  then show ?thesis
    by cases (use assms in \<open>simp_all add: command_ext_def command_length_ok_def\<close>)
qed

lemma command_dispatch_rejects:
  assumes "length buf = 300" "\<not> command_length_ok (buf ! 1) ret buf"
  shows "command_dispatch ret buf st = Some (rejected (buf ! 1) ret st)"
proof -
  have "buf ! 1 \<noteq> 0x13" if "\<not> buf ! 1 < 0x17"
    using that by auto
  moreover have "buf ! 1 \<noteq> 0x1E" if "buf ! 1 < 0x1E \<or> \<not> buf ! 1 < 0x25"
    using that by auto
  ultimately show ?thesis
    using assms by (cases "ret < 2") (auto simp: command_dispatch_def rejected_def command_sniff_rejects command_transmit_rejects
        command_follow_rejects command_ext_rejects)
qed

section \<open>Transmission\<close>

text \<open>The message that asks for a PDU to be sent in a given event.\<close>

definition transmit_msg :: "u16 \<Rightarrow> u8 \<Rightarrow> u8 list \<Rightarrow> u8 list" where
  "transmit_msg ev llid body =
     [of_nat ((length body + 8) div 3), COMMAND_TRANSMIT] @ bytes16 ev @ [llid, of_nat (length body)] @ body"

lemma transmit_msg_framed: "length body \<le> 255 \<Longrightarrow> well_framed (transmit_msg ev llid body)"
  by (simp add: well_framed_def transmit_msg_def unat_of_nat)

lemma dispatch_transmit:
  assumes "length buf = 300" "buf = transmit_msg ev llid body @ rest" "length body \<le> 255"
    and "tx_queue_ok (tx_q st)" "length (tx_items (tx_q st)) < 7"
  shows "\<exists>q. command_dispatch (int (length body) + 6) buf st = Some (st\<lparr>tx_q := q\<rparr>) \<and> tx_queue_ok q \<and>
    tx_items q = tx_items (tx_q st) @ [(llid AND 3, body, ev)]"
proof -
  have len: "unat (of_nat (length body) :: u8) = length body"
    using assms(3) by (simp add: unat_of_nat)
  have buf: "rd buf 1 = Some COMMAND_TRANSMIT" "rd buf 2 = Some (buf ! 2)" "rd buf 4 = Some llid"
    "rd buf 5 = Some (of_nat (length body))" "rd16 buf 2 = Some ev" "drop 6 buf = body @ rest"
    using assms(1) by (simp_all add: assms(2) transmit_msg_def bytes16_def le16_bytes16 [of ev, unfolded bytes16_def, simplified])
  have "rds (body @ rest) 0 (unat (of_nat (length body) :: u8)) = rds body 0 (unat (of_nat (length body) :: u8))"
    by (simp add: len)
  then have insert: "TXQueue_insert (of_nat (length body)) llid (body @ rest) ev (tx_q st) =
      TXQueue_insert (of_nat (length body)) llid body ev (tx_q st)"
    unfolding TXQueue_insert_def by (simp only:)
  have put: "tx_queue_ok (tx_put (llid, body, ev) (tx_q st))"
    "tx_items (tx_put (llid, body, ev) (tx_q st)) = tx_items (tx_q st) @ [(llid AND 3, body, ev)]"
    using tx_put_room [of "tx_q st" "(llid, body, ev)"] assms(3-5) by (simp_all add: tx_pdu_ok_def tx_view_def)
  obtain q where q: "TXQueue_insert (of_nat (length body)) llid body ev (tx_q st) = Some (True, q)"
    using TXQueue_insert_room [OF assms(4,3,5)] by blast
  then have "q = tx_put (llid, body, ev) (tx_q st)"
    by (simp add: tx_put_def)
  moreover have "command_dispatch (int (length body) + 6) buf st = Some (st\<lparr>tx_q := q\<rparr>)"
    unfolding command_dispatch_def command_transmit_def buf bind.bind_lunit insert q by (simp add: len)
  ultimately show ?thesis
    using put by blast
qed

lemma commandTask_transmit:
  assumes "length b64 = b64_size" "length buf = MESSAGE_MAX" "5 \<le> arrived 0" "b64_size \<le> arrived 1"
    and "length body \<le> 255" "tx_queue_ok (tx_q st)" "length (tx_items (tx_q st)) < 7"
  shows "\<exists>b64' buf' q. commandTask_step arrived b64 buf (base64_encode (transmit_msg ev llid body) @ CR # LF # inp) st =
      Some (b64', buf', inp, st\<lparr>tx_q := q\<rparr>) \<and>
    tx_queue_ok q \<and> tx_items q = tx_items (tx_q st) @ [(llid AND 3, body, ev)]"
proof -
  let ?msg = "transmit_msg ev llid body"
  have framed: "well_framed ?msg" and n: "length ?msg = length body + 6"
    using transmit_msg_framed [OF assms(5)] by (simp_all add: transmit_msg_def)
  obtain b64' where recv: "messenger_recv arrived b64 buf (base64_encode ?msg @ CR # LF # inp) =
      Some (int (length ?msg), b64', overwrite buf 0 ?msg, inp)"
    using messenger_recv_message [OF framed assms(1-4)] by blast
  have "overwrite buf 0 ?msg = ?msg @ drop (length ?msg) buf" "length (overwrite buf 0 ?msg) = 300"
    using assms(2,5) n by (simp_all add: overwrite_def)
  then obtain q where "command_dispatch (int (length body) + 6) (overwrite buf 0 ?msg) st = Some (st\<lparr>tx_q := q\<rparr>)"
    "tx_queue_ok q" "tx_items q = tx_items (tx_q st) @ [(llid AND 3, body, ev)]"
    using dispatch_transmit [OF _ _ assms(5-7)] by blast
  then show ?thesis
    by (intro exI [of _ b64'] exI [of _ "overwrite buf 0 ?msg"] exI [of _ q]) (simp add: commandTask_step_def recv n)
qed

section \<open>Preloaded parameters\<close>

definition pairs_valid :: "u16 list \<Rightarrow> bool" where
  "pairs_valid ps \<longleftrightarrow> (\<forall>i < length ps div 2. 6 \<le> ps ! (2 * i) \<and> ps ! (2 * i) \<le> 3200 \<and>
     6 \<le> ps ! (2 * i + 1) \<and> ps ! (2 * i + 1) \<le> 0x7FFF)"

lemma all_less_Suc_div: "(\<forall>i < Suc n. P i) \<longleftrightarrow> P 0 \<and> (\<forall>i < n. P (Suc i))"
  by (auto simp: less_Suc_eq_0_disj)

lemma pairs_valid_Cons: "pairs_valid (i # d # ps) \<longleftrightarrow> 6 \<le> i \<and> i \<le> 3200 \<and> 6 \<le> d \<and> d \<le> 0x7FFF \<and> pairs_valid ps"
  by (auto simp: pairs_valid_def all_less_Suc_div)

lemma check_pairs_valid: "check_pairs ps = 0 \<longleftrightarrow> pairs_valid ps"
  by (induction ps rule: check_pairs.induct) (auto simp: pairs_valid_Cons not_less, simp_all add: pairs_valid_def)

lemma check_pairs_codes: "check_pairs ps \<in> {0, -2, -3}"
  by (induction ps rule: check_pairs.induct) simp_all

lemma preload_result:
  assumes "2 * unat numPairs \<le> length pairs"
  shows "preloadConnParamUpdates pairs numPairs st =
    (if unat numPairs > 4 then Some (-1, st)
     else if pairs_valid (take (2 * unat numPairs) pairs)
     then Some (0, st\<lparr>connParamPairs := overwrite (connParamPairs st) 0 (take (2 * unat numPairs) pairs),
       preloadedParamIndex := 0, numParamPairs := numPairs\<rparr>)
     else Some (check_pairs (take (2 * unat numPairs) pairs), st))"
  using assms by (simp add: preloadConnParamUpdates_def Let_def check_pairs_valid word_less_nat_alt)

section \<open>A channel map from the host\<close>

lemma host_map_bits: "bit (m AND 0x1FFFFFFFFF) i \<longleftrightarrow> bit m i \<and> i < 37" for m :: u64
proof -
  have mask: "(0x1FFFFFFFFF :: u64) = mask 37"
    by (simp add: mask_eq_exp_minus_1)
  show ?thesis
    unfolding mask by (auto simp: bit_simps)
qed

lemma host_map_used: "used_channels (m AND 0x1FFFFFFFFF) = used_channels m"
  by (auto simp: used_channels_def host_map_bits intro!: filter_cong)

section \<open>Properties\<close>

text \<open>
  C34. A message that is too short, has an unknown opcode, or whose length is not the one its
  opcode requires, leaves the firmware exactly as it was; only a MAC filter or IRK of the wrong
  length switches both address filters off.
\<close>

theorem malformed_command_ignored:
  assumes "length buf = MESSAGE_MAX" "\<not> command_length_ok (buf ! 1) ret buf"
  shows "command_dispatch ret buf st =
    Some (if 2 \<le> ret \<and> buf ! 1 \<in> {COMMAND_MACFILT, COMMAND_SETIRK} then st\<lparr>filterMacs := False, filterRpas := False\<rparr> else st)"
  using command_dispatch_rejects [OF assms] by (simp add: rejected_def)

lemma malformed_command_ignored_witness:
  "command_dispatch 4 ([2, COMMAND_SETADDR] @ replicate 298 0) example_link = Some example_link"
  using malformed_command_ignored [of "[2, COMMAND_SETADDR] @ replicate 298 0" 4 example_link]
  by (simp add: command_length_ok_def)

text \<open>
  A PDU the host asks to be transmitted reaches the transmit queue: the bytes of the
  message, base64 encoded and terminated, received by the command task with room in the queue,
  add exactly this PDU with its header bits, body and event as the last one, and leave the rest
  of the input for the next command.
\<close>

theorem host_transmit_queues:
  assumes "length b64 = b64_size" "length buf = MESSAGE_MAX" "5 \<le> arrived 0" "b64_size \<le> arrived 1"
    and "length body \<le> 255" "tx_queue_ok (tx_q st)" "length (tx_items (tx_q st)) < 7"
  shows "\<exists>b64' buf' q. commandTask_step arrived b64 buf (base64_encode (transmit_msg ev llid body) @ CR # LF # inp) st =
      Some (b64', buf', inp, st\<lparr>tx_q := q\<rparr>) \<and>
    tx_queue_ok q \<and> tx_items q = tx_items (tx_q st) @ [(llid AND 3, body, ev)]"
  by (rule commandTask_transmit [OF assms])

lemma host_transmit_queues_witness:
  "\<exists>b64' buf' q. commandTask_step (\<lambda>_. 500) (replicate b64_size 0) (replicate MESSAGE_MAX 0)
     (base64_encode (transmit_msg 0 2 [1, 2, 3]) @ CR # LF # [])
     (example_link\<lparr>tx_q := TXQueue_init (tx_q example_link)\<rparr>) =
       Some (b64', buf', [], example_link\<lparr>tx_q := q\<rparr>) \<and> tx_items q = [(2, [1, 2, 3], 0)]"
proof -
  have q: "tx_queue_ok (TXQueue_init (tx_q example_link))" "tx_items (TXQueue_init (tx_q example_link)) = []"
    by (rule TXQueue_init_ok; simp add: example_link_def fw_init_def tx_entry_init_def)+
  then show ?thesis
    using host_transmit_queues [of "replicate b64_size 0" "replicate MESSAGE_MAX 0" "\<lambda>_. 500" "[1, 2, 3]"
        "example_link\<lparr>tx_q := TXQueue_init (tx_q example_link)\<rparr>" 0 2 "[]"]
    by simp metis
qed

text \<open>
  Parameters for encrypted connection updates are kept exactly when there are at most
  four pairs and every interval and instant is in range; then the status is 0 and they are
  used from the first pair on, otherwise the status is negative and nothing is changed.
\<close>

theorem preload_checked:
  assumes "2 * unat numPairs \<le> length pairs" "length (connParamPairs st) = 8"
  shows "\<exists>status st'. preloadConnParamUpdates pairs numPairs st = Some (status, st') \<and>
    (if unat numPairs \<le> 4 \<and> pairs_valid (take (2 * unat numPairs) pairs)
     then status = 0 \<and> take (2 * unat numPairs) (connParamPairs st') = take (2 * unat numPairs) pairs \<and>
       length (connParamPairs st') = 8 \<and> numParamPairs st' = numPairs \<and> preloadedParamIndex st' = 0
     else status < 0 \<and> st' = st)"
  using preload_result [OF assms(1), of st] check_pairs_codes [of "take (2 * unat numPairs) pairs"]
    check_pairs_valid [of "take (2 * unat numPairs) pairs"] assms
  by (auto simp: not_le min_def overwrite_def)

lemma preload_checked_witness:
  "\<exists>status st'. preloadConnParamUpdates [24, 6] 1 example_link = Some (status, st') \<and> status = 0 \<and> numParamPairs st' = 1"
proof -
  have "length (connParamPairs example_link) = 8"
    by (simp add: example_link_def fw_init_def)
  then show ?thesis
    using preload_checked [of 1 "[24, 6]" example_link] by (auto simp: pairs_valid_def)
qed

text \<open>
  A channel map set by the host during a connection with nothing waiting is the map of
  the next connection event and of every later one, cut to the 37 data channels, and their
  channels are channels of it.
\<close>

theorem host_channel_map_next_event:
  assumes "link_ok st" "conf_items (rconf_queue st) = []" "inDataState st" "map_usable m"
  shows "\<exists>st' ch. next_events peripheral (Suc k) (setChanMap m st) = Some st' \<and>
    chanMap (rconf st') = m AND 0x1FFFFFFFFF \<and> getCurrChan st' = Some ch \<and> unat ch \<in> set (used_channels m)"
proof -
  define e where "e = (rconf st)\<lparr>chanMap := m AND 0x1FFFFFFFFF, chanMapCertain := True, rc_offset := 0\<rparr>"
  have q: "conf_queue_ok (rconf_queue st)"
    using assms(1) by (simp add: link_ok_def)
  define st1 where "st1 = setChanMap m st"
  have st1: "st1 = enqueue_conf (ucast (connEventCount st) + of_nat 1) e st"
    using assms(2,3) q by (simp add: st1_def setChanMap_def last_rconf_def rconf_latest_items e_def Let_def counter_add)
  have ok: "link_ok st1" and waiting: "conf_items (rconf_queue st1) = [(ucast (connEventCount st) + of_nat 1, e)]"
    using assms(1,2) q by (simp_all add: st1 enqueue_conf_def link_ok_def tables_ok_def conf_queue_ok_enqueue conf_items_enqueue)
  have usable: "map_usable (m AND 0x1FFFFFFFFF)"
    using assms(4) by (simp add: map_usable_def host_map_used)
  obtain st' where st': "next_events peripheral (Suc k) st1 = Some st'" "link_ok st'"
    "link_of st' = link_run peripheral (anchorOffset st1) (unat (hopIncrement st1)) (Suc k) (link_of st1)"
    using next_events_link [OF ok, of peripheral "Suc k"] waiting usable by (auto simp: e_def)
  have "lk_conf (link_of st') = (if Suc k < 1 then lk_conf (link_of st1) else e)"
    unfolding st'(3) using waiting assms(1)
    by (intro link_run_change [THEN conjunct2, THEN conjunct2, THEN conjunct1])
      (simp_all add: link_of_def st1 enqueue_conf_def link_ok_def)
  then have conf: "chanMap (rconf st') = m AND 0x1FFFFFFFFF"
    by (simp add: link_of_def e_def)
  then show ?thesis
    using getCurrChan_link [OF st'(2)] link_channel_used [of "link_of st'"] st'(1) usable
    by (auto simp: link_of_def host_map_used st1_def)
qed

lemma host_channel_map_next_event_witness:
  "\<exists>st' ch. next_events True 3 (setChanMap 0x1F (example_link\<lparr>snifferState := DATA\<rparr>)) = Some st' \<and>
     getCurrChan st' = Some ch \<and> unat ch < 37"
proof -
  have "link_ok (example_link\<lparr>snifferState := DATA\<rparr>)"
    using example_link_ok(1) by (simp add: link_ok_def tables_ok_def)
  then show ?thesis
    using host_channel_map_next_event [of "example_link\<lparr>snifferState := DATA\<rparr>" "0x1F" True 2] example_link_ok(2,10)
    by (auto simp: inDataState_def numeral_3_eq_3 numeral_2_eq_2 dest: used_channels_less)
qed

end
