(* ===== verification/Ext_Adv.thy ===== *)
theory Ext_Adv
  imports Radio_React
begin

text \<open>
  Extended advertising as the air protocol lays it out: a header whose fields are present or
  not, with a pointer to an auxiliary advertisement, and what \<open>reactToAdvExtPDU\<close> schedules
  for it.
\<close>

unbundle bit_operations_syntax

section \<open>The auxiliary pointer\<close>

record aux_ptr =
  ap_chan :: u8
  ap_accuracy :: bool
  ap_units300 :: bool
  ap_offset :: u16
  ap_phy :: u8

definition aux_ptr_bytes :: "aux_ptr \<Rightarrow> u8 list" where
  "aux_ptr_bytes a =
     [ap_chan a OR push_bit 6 (of_bool (ap_accuracy a)) OR push_bit 7 (of_bool (ap_units300 a)),
      ucast (ap_offset a), ucast (drop_bit 8 (ap_offset a)) OR push_bit 5 (ap_phy a)]"

text \<open>The fields have their widths, and the PHY is one of the three defined.\<close>

definition aux_ptr_ok :: "aux_ptr \<Rightarrow> bool" where
  "aux_ptr_ok a \<longleftrightarrow> take_bit 6 (ap_chan a) = ap_chan a \<and> take_bit 13 (ap_offset a) = ap_offset a \<and> ap_phy a < 3"

definition aux_phy :: "aux_ptr \<Rightarrow> phy_mode" where
  "aux_phy a = (if ap_phy a = 0 then PHY_1M else if ap_phy a = 1 then PHY_2M else PHY_CODED_S8)"

text \<open>Microseconds from the start of the pointing packet, less the time to get ready.\<close>

definition aux_delay :: "aux_ptr \<Rightarrow> nat" where
  "aux_delay a = unat (ap_offset a) * (if ap_units300 a then 300 else 30) - 500"

definition aux_window :: "phy_mode \<Rightarrow> nat" where
  "aux_window phy = 4 * (500 + (if phy = PHY_1M then 3000 else if phy = PHY_2M then 1800 else 21000))"

lemma aux_ptr_length [simp]: "length (aux_ptr_bytes a) = 3"
  by (simp add: aux_ptr_bytes_def)

lemma bits_below: "take_bit k w = w \<Longrightarrow> bit w n \<Longrightarrow> n < k" for w :: "'a :: len word"
  by (metis bit_take_bit_iff)

lemma of_unat: "unat x = n \<Longrightarrow> x = of_nat n" for x :: "'a :: len word"
  by auto

lemma chan_bits:
  assumes "take_bit 6 w = (w :: u8)"
  shows "(w OR push_bit 6 (of_bool b) OR push_bit 7 (of_bool c)) AND 0x3F = w"
    "(w OR push_bit 6 (of_bool b) OR push_bit 7 (of_bool c)) AND 0x80 \<noteq> 0 \<longleftrightarrow> c"
proof -
  have mask: "(0x3F :: u8) = mask 6" "(0x80 :: u8) = push_bit 7 1"
    by (simp_all add: mask_eq_exp_minus_1 push_bit_eq_mult)
  show "(w OR push_bit 6 (of_bool b) OR push_bit 7 (of_bool c)) AND 0x3F = w"
    unfolding mask by (rule bit_word_eqI) (use bits_below [OF assms] in \<open>auto simp: bit_simps\<close>)
  have "bit (w OR push_bit 6 (of_bool b) OR push_bit 7 (of_bool c)) 7 \<longleftrightarrow> c"
    using bits_below [OF assms, of 7] by (auto simp: bit_simps)
  then show "(w OR push_bit 6 (of_bool b) OR push_bit 7 (of_bool c)) AND 0x80 \<noteq> 0 \<longleftrightarrow> c"
    unfolding mask(2) push_bit_eq_mult mult.right_neutral mult_1 and_exp_eq_0_iff_not_bit by blast
qed

lemma phy_bits:
  assumes "p < (3 :: u8)" "take_bit 13 off = (off :: u16)"
  shows "drop_bit 5 (ucast (drop_bit 8 off) OR push_bit 5 p) = p"
    "(ucast (drop_bit 8 off) OR push_bit 5 p) AND 0x1F = (ucast (drop_bit 8 off) :: u8)"
proof -
  have mask: "(0x1F :: u8) = mask 5"
    by (simp add: mask_eq_exp_minus_1)
  have "unat p < 3"
    using assms(1) by (simp add: word_less_nat_alt)
  then have "unat (take_bit 2 p) = unat p"
    by (simp add: unsigned_take_bit_eq take_bit_nat_eq_self)
  then have "take_bit 2 p = p"
    by (simp only: word_unat_eq_iff)
  note p = bits_below [OF this]
  show "drop_bit 5 (ucast (drop_bit 8 off) OR push_bit 5 p) = p"
  proof (rule bit_word_eqI)
    fix n assume "n < LENGTH(8)"
    then show "bit (drop_bit 5 (ucast (drop_bit 8 off) OR push_bit 5 p)) n = bit p n"
      using p [of n] bits_below [OF assms(2), of "13 + n"] by (auto simp: bit_simps)
  qed
  show "(ucast (drop_bit 8 off) OR push_bit 5 p) AND 0x1F = (ucast (drop_bit 8 off) :: u8)"
  proof (unfold mask, rule bit_word_eqI)
    fix n assume "n < LENGTH(8)"
    then show "bit ((ucast (drop_bit 8 off) OR push_bit 5 p) AND mask 5) n = bit (ucast (drop_bit 8 off) :: u8) n"
      using bits_below [OF assms(2), of "8 + n"] by (auto simp: bit_simps)
  qed
qed

lemma offset_bytes:
  assumes "take_bit 13 off = (off :: u16)"
  shows "ucast (ucast off :: u8) + push_bit 8 (ucast (ucast (drop_bit 8 off) :: u8)) = off" "unat off < 2 ^ 13"
proof -
  have "ucast (ucast off :: u8) AND push_bit 8 (ucast (ucast (drop_bit 8 off) :: u8)) = (0 :: u16)"
    by (rule bit_word_eqI) (auto simp: bit_simps)
  then have "ucast (ucast off :: u8) + push_bit 8 (ucast (ucast (drop_bit 8 off) :: u8)) =
      (ucast (ucast off :: u8) OR push_bit 8 (ucast (ucast (drop_bit 8 off) :: u8)) :: u16)"
    by (rule disjunctive_add_eq_or)
  also have "\<dots> = off"
    by (rule bit_word_eqI) (auto simp: bit_simps)
  finally show "ucast (ucast off :: u8) + push_bit 8 (ucast (ucast (drop_bit 8 off) :: u8)) = off" .
  have "unat (take_bit 13 off) < 2 ^ 13"
    using take_bit_nat_less_exp [of 13 "unat off"] by (simp add: unsigned_take_bit_eq)
  then show "unat off < 2 ^ 13"
    using assms by simp
qed

lemma aux_event_decoded:
  assumes "aux_ptr_ok a"
  shows "aux_event t (aux_ptr_bytes a ! 0) (aux_ptr_bytes a ! 1) (aux_ptr_bytes a ! 2) =
    (ap_chan a, aux_phy a, t + of_nat (4 * aux_delay a), of_nat (aux_window (aux_phy a)))"
proof -
  have ok: "take_bit 6 (ap_chan a) = ap_chan a" "take_bit 13 (ap_offset a) = ap_offset a" "ap_phy a < 3"
    using assms by (simp_all add: aux_ptr_ok_def)
  define us :: u32 where "us = ucast (ap_offset a) * ucast (if ap_units300 a then 300 else 30 :: u16)"
  have off: "unat (ap_offset a) < 8192"
    using offset_bytes(2) [OF ok(2)] by simp
  have "unat us = unat (ap_offset a) * (if ap_units300 a then 300 else 30)"
    using off by (simp add: us_def unat_word_ariths unsigned_ucast_eq take_bit_nat_eq_self)
  note us = this
  have "unat (if us < 500 then 0 else us - 500) = unat us - 500"
  proof (cases "us < 500")
    case True
    then show ?thesis
      by (simp add: word_less_nat_alt)
  next
    case False
    then have "500 \<le> us"
      by simp
    then show ?thesis
      using False by (simp add: unat_sub)
  qed
  then have delay: "(if us < AUX_OFF_TARG_USEC then 0 else us - AUX_OFF_TARG_USEC) = of_nat (aux_delay a)"
    unfolding AUX_OFF_TARG_USEC_def aux_delay_def us [symmetric] by (rule of_unat)
  have "unat (ap_phy a) < 3"
    using ok(3) by (simp add: word_less_nat_alt)
  then have "unat (ap_phy a) = 0 \<or> unat (ap_phy a) = 1 \<or> unat (ap_phy a) = 2"
    by linarith
  then have phy: "(if ap_phy a < 3 then phy_of_code (unat (ap_phy a)) else PHY_2M) = aux_phy a"
    using ok(3) by (auto simp: phy_of_code_def aux_phy_def word_unat_eq_iff)
  have chan: "(aux_ptr_bytes a ! 0) AND 0x3F = ap_chan a" "(aux_ptr_bytes a ! 0) AND 0x80 \<noteq> 0 \<longleftrightarrow> ap_units300 a"
    using chan_bits [OF ok(1)] by (simp_all add: aux_ptr_bytes_def)
  have p1: "aux_ptr_bytes a ! 1 = ucast (ap_offset a)"
    by (simp add: aux_ptr_bytes_def)
  have p2: "drop_bit 5 (aux_ptr_bytes a ! 2) = ap_phy a"
    "(aux_ptr_bytes a ! 2) AND 0x1F = ucast (drop_bit 8 (ap_offset a))"
    using phy_bits [OF ok(3) ok(2)] by (simp_all add: aux_ptr_bytes_def)
  have "(if aux_phy a = PHY_1M then (AUX_OFF_TARG_USEC + 3000) * 4
    else if aux_phy a = PHY_2M then (AUX_OFF_TARG_USEC + 1800) * 4 else (AUX_OFF_TARG_USEC + 21000) * 4) =
    of_nat (aux_window (aux_phy a))"
    by (simp add: aux_window_def AUX_OFF_TARG_USEC_def)
  then show ?thesis
    unfolding aux_event_def Let_def p1 p2 chan offset_bytes(1) [OF ok(2)] us_def [symmetric] phy delay
    by (simp add: mult.commute)
qed

section \<open>The extended header\<close>

record ext_hdr =
  eh_AdvA :: "u8 list option"
  eh_TargetA :: "u8 list option"
  eh_CTEInfo :: "u8 list option"
  eh_ADI :: "u8 list option"
  eh_AuxPtr :: "aux_ptr option"
  eh_SyncInfo :: "u8 list option"
  eh_TxPower :: "u8 list option"
  eh_ACAD :: "u8 list"
  eh_AdvMode :: u8

definition field_bytes :: "u8 list option \<Rightarrow> u8 list" where
  "field_bytes f = (case f of None \<Rightarrow> [] | Some bs \<Rightarrow> bs)"

text \<open>One flag per field, in the order of the fields.\<close>

definition ext_flags :: "ext_hdr \<Rightarrow> u8" where
  "ext_flags h = horner_sum of_bool 2
     [eh_AdvA h \<noteq> None, eh_TargetA h \<noteq> None, eh_CTEInfo h \<noteq> None, eh_ADI h \<noteq> None,
      eh_AuxPtr h \<noteq> None, eh_SyncInfo h \<noteq> None, eh_TxPower h \<noteq> None]"

definition before_aux :: "ext_hdr \<Rightarrow> u8 list" where
  "before_aux h = field_bytes (eh_AdvA h) @ field_bytes (eh_TargetA h) @ field_bytes (eh_CTEInfo h) @ field_bytes (eh_ADI h)"

definition ext_body :: "ext_hdr \<Rightarrow> u8 list" where
  "ext_body h = ext_flags h # before_aux h @ field_bytes (map_option aux_ptr_bytes (eh_AuxPtr h))
     @ field_bytes (eh_SyncInfo h) @ field_bytes (eh_TxPower h) @ eh_ACAD h"

definition ext_pdu :: "ext_hdr \<Rightarrow> u8 list \<Rightarrow> u8 list" where
  "ext_pdu h data = (of_nat (length (ext_body h)) OR push_bit 6 (eh_AdvMode h)) # ext_body h @ data"

definition field_ok :: "nat \<Rightarrow> u8 list option \<Rightarrow> bool" where
  "field_ok n f \<longleftrightarrow> (case f of None \<Rightarrow> True | Some bs \<Rightarrow> length bs = n)"

text \<open>Every field has its width, and the header fits in the six bits of its length.\<close>

definition ext_hdr_ok :: "ext_hdr \<Rightarrow> bool" where
  "ext_hdr_ok h \<longleftrightarrow> field_ok 6 (eh_AdvA h) \<and> field_ok 6 (eh_TargetA h) \<and> field_ok 1 (eh_CTEInfo h) \<and>
     field_ok 2 (eh_ADI h) \<and> field_ok 18 (eh_SyncInfo h) \<and> field_ok 1 (eh_TxPower h) \<and>
     (case eh_AuxPtr h of None \<Rightarrow> True | Some a \<Rightarrow> aux_ptr_ok a) \<and> length (ext_body h) < 64"

lemma field_length: "field_ok n f \<Longrightarrow> length (field_bytes f) = (if f \<noteq> None then n else 0)"
  by (auto simp: field_ok_def field_bytes_def split: option.splits)

lemma flag_bit: "ext_field w (push_bit k 1) n = (if bit w k then n else 0)"
  by (simp add: ext_field_def and_exp_eq_0_iff_not_bit push_bit_eq_mult)

lemma ext_flags_bit:
  "k < 7 \<Longrightarrow> bit (ext_flags h) k \<longleftrightarrow>
     [eh_AdvA h \<noteq> None, eh_TargetA h \<noteq> None, eh_CTEInfo h \<noteq> None, eh_ADI h \<noteq> None,
      eh_AuxPtr h \<noteq> None, eh_SyncInfo h \<noteq> None, eh_TxPower h \<noteq> None] ! k"
  unfolding ext_flags_def by (subst bit_horner_sum_bit_iff) simp

lemma flag_words:
  "(0x01 :: u8) = push_bit 0 1" "(0x02 :: u8) = push_bit 1 1" "(0x04 :: u8) = push_bit 2 1"
  "(0x08 :: u8) = push_bit 3 1" "(0x10 :: u8) = push_bit 4 1" "(0x20 :: u8) = push_bit 5 1"
  "(0x40 :: u8) = push_bit 6 1"
  by (simp_all add: push_bit_eq_mult)

lemma flag_field:
  "f = push_bit k 1 \<Longrightarrow> k < 7 \<Longrightarrow> ext_field (ext_flags h) f n = (if
     [eh_AdvA h \<noteq> None, eh_TargetA h \<noteq> None, eh_CTEInfo h \<noteq> None, eh_ADI h \<noteq> None,
      eh_AuxPtr h \<noteq> None, eh_SyncInfo h \<noteq> None, eh_TxPower h \<noteq> None] ! k then n else 0)"
  by (simp only: flag_bit ext_flags_bit)

lemma ext_flags_fields:
  "ext_field (ext_flags h) 0x01 n = (if eh_AdvA h \<noteq> None then n else 0)"
  "ext_field (ext_flags h) 0x02 n = (if eh_TargetA h \<noteq> None then n else 0)"
  "ext_field (ext_flags h) 0x04 n = (if eh_CTEInfo h \<noteq> None then n else 0)"
  "ext_field (ext_flags h) 0x08 n = (if eh_ADI h \<noteq> None then n else 0)"
  "ext_field (ext_flags h) 0x10 n = (if eh_AuxPtr h \<noteq> None then n else 0)"
  "ext_field (ext_flags h) 0x20 n = (if eh_SyncInfo h \<noteq> None then n else 0)"
  "ext_field (ext_flags h) 0x40 n = (if eh_TxPower h \<noteq> None then n else 0)"
  using flag_field [OF flag_words(1)] flag_field [OF flag_words(2)] flag_field [OF flag_words(3)]
    flag_field [OF flag_words(4)] flag_field [OF flag_words(5)] flag_field [OF flag_words(6)]
    flag_field [OF flag_words(7)]
  by simp_all

lemma ext_hdr_lengths:
  assumes "ext_hdr_ok h"
  shows "length (field_bytes (eh_AdvA h)) = ext_field (ext_flags h) 0x01 6"
    "length (field_bytes (eh_TargetA h)) = ext_field (ext_flags h) 0x02 6"
    "length (field_bytes (eh_CTEInfo h)) = ext_field (ext_flags h) 0x04 1"
    "length (field_bytes (eh_ADI h)) = ext_field (ext_flags h) 0x08 2"
    "length (field_bytes (map_option aux_ptr_bytes (eh_AuxPtr h))) = ext_field (ext_flags h) 0x10 3"
    "length (field_bytes (eh_SyncInfo h)) = ext_field (ext_flags h) 0x20 18"
    "length (field_bytes (eh_TxPower h)) = ext_field (ext_flags h) 0x40 1"
proof -
  show "length (field_bytes (map_option aux_ptr_bytes (eh_AuxPtr h))) = ext_field (ext_flags h) 0x10 3"
    unfolding ext_flags_fields by (simp add: field_bytes_def aux_ptr_bytes_def split: option.splits)
qed (unfold ext_flags_fields, (rule field_length, use assms in \<open>simp add: ext_hdr_ok_def\<close>)+)

lemma before_aux_length:
  assumes "ext_hdr_ok h"
  shows "length (before_aux h) = ext_field (ext_flags h) 0x01 6 + ext_field (ext_flags h) 0x02 6
    + ext_field (ext_flags h) 0x04 1 + ext_field (ext_flags h) 0x08 2"
  unfolding before_aux_def length_append ext_hdr_lengths [OF assms] by simp

lemma ext_body_length:
  assumes "ext_hdr_ok h"
  shows "length (ext_body h) = 1 + length (before_aux h) + ext_field (ext_flags h) 0x10 3
    + ext_field (ext_flags h) 0x20 18 + ext_field (ext_flags h) 0x40 1 + length (eh_ACAD h)"
  unfolding ext_body_def length_append list.size ext_hdr_lengths [OF assms] by simp

lemma ext_length_byte:
  assumes "n < 64"
  shows "unat ((of_nat n OR push_bit 6 m :: u8) AND 0x3F) = n"
proof -
  have mask: "(0x3F :: u8) = mask 6"
    by (simp add: mask_eq_exp_minus_1)
  have n: "take_bit 6 (of_nat n :: u8) = of_nat n"
    using assms by (simp add: take_bit_of_nat take_bit_nat_eq_self)
  have "(of_nat n OR push_bit 6 m :: u8) AND 0x3F = of_nat n"
    unfolding mask by (rule bit_word_eqI) (use bits_below [OF n] in \<open>auto simp: bit_simps\<close>)
  then show ?thesis
    using assms by (simp add: unsigned_of_nat take_bit_nat_eq_self)
qed

text \<open>The walk over the header finds the pointer where the layout puts it.\<close>

lemma ext_aux_ptr_finds:
  assumes "ext_hdr_ok h" "eh_AuxPtr h = Some a" "pData = b0 # b1 # ext_pdu h data"
  shows "ext_aux_ptr pData (length (ext_pdu h data)) = Some (True, Some (4 + length (before_aux h)))"
proof -
  have n: "length (ext_body h) < 64"
    using assms(1) by (simp add: ext_hdr_ok_def)
  have flag: "ext_field (ext_flags h) 0x10 k = k" for k
    unfolding ext_flags_fields by (simp add: assms(2))
  then have "ext_flags h AND 0x10 \<noteq> 0"
    using ext_field_def [of "ext_flags h" "0x10" 1] by (auto split: if_splits)
  have r2: "rd pData 2 = Some (of_nat (length (ext_body h)) OR push_bit 6 (eh_AdvMode h))"
    by (simp add: assms(3) rd_def ext_pdu_def)
  have r3: "rd pData 3 = Some (ext_flags h)"
    by (simp add: assms(3) rd_def ext_pdu_def ext_body_def)
  have len: "length (ext_body h) = 1 + length (before_aux h) + 3 + ext_field (ext_flags h) 0x20 18
      + ext_field (ext_flags h) 0x40 1 + length (eh_ACAD h)"
    using ext_body_length [OF assms(1)] by (simp only: flag)
  have long: "length (ext_pdu h data) = 1 + length (ext_body h) + length data"
    by (simp add: ext_pdu_def)
  have end_pos: "(let hdrPos = 4 + length (before_aux h) + 3 + ext_field (ext_flags h) 0x20 18
        + ext_field (ext_flags h) 0x40 1;
      hdrPos = (if hdrPos - 3 < length (ext_body h) then hdrPos + (length (ext_body h) - (hdrPos - 3)) else hdrPos)
      in hdrPos - 2 > length (ext_pdu h data)) = False"
    using len long unfolding Let_def by simp
  have "ext_aux_ptr pData (length (ext_pdu h data)) = (if (let hdrPos = 4 + length (before_aux h) + 3
        + ext_field (ext_flags h) 0x20 18 + ext_field (ext_flags h) 0x40 1;
      hdrPos = (if hdrPos - 3 < length (ext_body h) then hdrPos + (length (ext_body h) - (hdrPos - 3)) else hdrPos)
      in hdrPos - 2 > length (ext_pdu h data)) then Some (False, None)
      else Some (True, Some (4 + length (before_aux h))))"
    using len long \<open>ext_flags h AND 0x10 \<noteq> 0\<close>
    unfolding ext_aux_ptr_def r2 r3 bind.bind_lunit Let_def ext_length_byte [OF n] flag before_aux_length [OF assms(1)]
    by (simp add: add.assoc)
  then show ?thesis
    unfolding end_pos by simp
qed

section \<open>Scheduling the auxiliary advertisement\<close>

lemma aux_events_trig [simp]: "aux_events (DelayStopTrigger_trig us st) = aux_events st"
  by (simp add: DelayStopTrigger_trig_def RadioWrapper_stop_def RF_getCurrentTime_def emit_def Let_def)

definition aux_scheduled :: "u32 \<Rightarrow> aux_ptr \<Rightarrow> fw \<Rightarrow> aux_sched" where
  "aux_scheduled t a st = snd (AuxAdvScheduler_insert (ap_chan a) (aux_phy a) (t + of_nat (4 * aux_delay a))
     (of_nat (aux_window (aux_phy a))) (aux_events st))"

text \<open>
  An extended advertising PDU with an auxiliary pointer, whichever of the other header fields
  it has, makes \<open>reactToAdvExtPDU\<close> enter into the schedule an event on the channel and PHY of
  the pointer, from its offset, in its units of 30 or 300 microseconds, past the packet's timestamp
  less the tuning time, for as long as the longest packet of that PHY.
\<close>

theorem ext_adv_schedules_aux:
  assumes "ext_hdr_ok h" "eh_AuxPtr h = Some a" "length (ext_pdu h data) < 256" "snifferState st \<noteq> SCANNING"
    "f_pData frame = b0 # b1 # ext_pdu h data"
  shows "map_option aux_events (reactToAdvExtPDU frame (of_nat (length (ext_pdu h data))) st) =
    Some (aux_scheduled (f_timestamp frame) a st)"
proof -
  define pos where "pos = 4 + length (before_aux h)"
  have len: "unat (of_nat (length (ext_pdu h data)) :: u8) = length (ext_pdu h data)"
    using assms(3) by (simp add: unsigned_of_nat take_bit_nat_eq_self)
  have ptr: "rd (f_pData frame) (pos + k) = Some (aux_ptr_bytes a ! k)" if "k < 3" for k
    using that by (cases k rule: nat.exhaust; simp add: assms(2,5) pos_def ext_pdu_def ext_body_def rd_def
        nth_append field_bytes_def )
  have ok: "aux_ptr_ok a"
    using assms(1,2) by (simp add: ext_hdr_ok_def)
  show ?thesis
    using ptr [of 0] ptr [of 1] ptr [of 2] assms(4)
    unfolding reactToAdvExtPDU_def len ext_aux_ptr_finds [OF assms(1,2,5)] pos_def [symmetric]
    by (simp add: aux_event_decoded [OF ok, unfolded One_nat_def] RF_getCurrentTime_def Let_def aux_scheduled_def)
qed

definition example_ext :: ext_hdr where
  "example_ext = \<lparr>eh_AdvA = None, eh_TargetA = None, eh_CTEInfo = None, eh_ADI = Some [1, 2],
     eh_AuxPtr = Some \<lparr>ap_chan = 12, ap_accuracy = False, ap_units300 = True, ap_offset = 100, ap_phy = 1\<rparr>,
     eh_SyncInfo = None, eh_TxPower = None, eh_ACAD = [], eh_AdvMode = 0\<rparr>"

lemma ext_adv_schedules_aux_witness:
  "map_option aux_events (reactToAdvExtPDU (frame_init\<lparr>f_pData := [7, 7] @ ext_pdu example_ext []\<rparr>) 7
      (fw_init \<lparr>tickPeriod = 10, txPowerTable = []\<rparr> (\<lambda>_. 0))) =
     Some [\<lparr>ae_chan = 12, ae_phy = PHY_2M, ae_time = 118000, ae_duration = 9200\<rparr>]"
proof -
  define a where "a = \<lparr>ap_chan = 12, ap_accuracy = False, ap_units300 = True, ap_offset = 100, ap_phy = 1\<rparr>"
  have len: "length (ext_pdu example_ext []) = 7" "length (ext_body example_ext) = 6"
    by (simp_all add: ext_pdu_def ext_body_def example_ext_def field_bytes_def before_aux_def aux_ptr_bytes_def)
  have ptr: "eh_AuxPtr example_ext = Some a" "aux_ptr_ok a"
    by (simp_all add: example_ext_def a_def aux_ptr_ok_def take_bit_word_eq_self)
  have ok: "ext_hdr_ok example_ext"
    unfolding ext_hdr_ok_def len ptr by (simp add: ptr) (simp add: example_ext_def field_ok_def)
  have "snifferState (fw_init \<lparr>tickPeriod = 10, txPowerTable = []\<rparr> (\<lambda>_. 0)) \<noteq> SCANNING"
    by (simp add: fw_init_def)
  moreover have "aux_scheduled (f_timestamp frame_init) a (fw_init \<lparr>tickPeriod = 10, txPowerTable = []\<rparr> (\<lambda>_. 0)) =
      [\<lparr>ae_chan = 12, ae_phy = PHY_2M, ae_time = 118000, ae_duration = 9200\<rparr>]"
    by (simp add: aux_scheduled_def a_def aux_phy_def aux_delay_def aux_window_def fw_init_def frame_init_def
        AuxAdvScheduler_insert_def insert_event_sorted_def insert_event_from.simps MAX_AUX_EVENTS_def)
  ultimately show ?thesis
    using ext_adv_schedules_aux [OF ok ptr(1), of "[]" "fw_init \<lparr>tickPeriod = 10, txPowerTable = []\<rparr> (\<lambda>_. 0)" "frame_init\<lparr>f_pData := [7, 7] @ ext_pdu example_ext []\<rparr>" 7 7]
    by (simp add: len)
qed

end
