(* ===== verification/Bt_Uuid.thy ===== *)
theory Bt_Uuid
  imports Prelude
begin

text \<open>
  lib/uuid.c of the BlueZ tree that the GATT printer is built in: Bluetooth UUIDs of 16, 32 and
  128 bits, their comparison and their text form.  The tagged union is a datatype; the sixteen
  bytes of a long UUID are in their big endian order.  The parser of text UUIDs is not used by
  the printer and has no definition here.
\<close>

unbundle bit_operations_syntax

section \<open>The type\<close>

datatype bt_uuid = BT_UUID_UNSPEC | BT_UUID16 u16 | BT_UUID32 u32 | BT_UUID128 "u8 list"

fun uuid_ok :: "bt_uuid \<Rightarrow> bool" where
  "uuid_ok (BT_UUID128 bs) = (length bs = 16)"
| "uuid_ok BT_UUID_UNSPEC = False"
| "uuid_ok u = True"

fun bt_uuid_len :: "bt_uuid \<Rightarrow> nat" where
  "bt_uuid_len BT_UUID_UNSPEC = 0"
| "bt_uuid_len (BT_UUID16 v) = 2"
| "bt_uuid_len (BT_UUID32 v) = 4"
| "bt_uuid_len (BT_UUID128 bs) = 16"

section \<open>Conversion to 128 bits\<close>

definition bluetooth_base_uuid :: "u8 list" where
  "bluetooth_base_uuid = [0x00, 0x00, 0x00, 0x00, 0x00, 0x00, 0x10, 0x00,
     0x80, 0x00, 0x00, 0x80, 0x5F, 0x9B, 0x34, 0xFB]"

text \<open>\<open>htons\<close> and \<open>htonl\<close> followed by a copy of the bytes.\<close>

definition be_bytes16 :: "u16 \<Rightarrow> u8 list" where
  "be_bytes16 v = rev (bytes16 v)"

definition be_bytes32 :: "u32 \<Rightarrow> u8 list" where
  "be_bytes32 v = rev (bytes32 v)"

definition bt_uuid16_to_uuid128 :: "u16 \<Rightarrow> bt_uuid" where
  "bt_uuid16_to_uuid128 v = BT_UUID128 (overwrite bluetooth_base_uuid 2 (be_bytes16 v))"

definition bt_uuid32_to_uuid128 :: "u32 \<Rightarrow> bt_uuid" where
  "bt_uuid32_to_uuid128 v = BT_UUID128 (overwrite bluetooth_base_uuid 0 (be_bytes32 v))"

text \<open>The destination stays as it is when the source is unspecified.\<close>

fun bt_uuid_to_uuid128 :: "bt_uuid \<Rightarrow> bt_uuid \<Rightarrow> bt_uuid" where
  "bt_uuid_to_uuid128 (BT_UUID128 bs) dst = BT_UUID128 bs"
| "bt_uuid_to_uuid128 (BT_UUID32 v) dst = bt_uuid32_to_uuid128 v"
| "bt_uuid_to_uuid128 (BT_UUID16 v) dst = bt_uuid16_to_uuid128 v"
| "bt_uuid_to_uuid128 BT_UUID_UNSPEC dst = dst"

section \<open>Comparison\<close>

fun memcmp :: "u8 list \<Rightarrow> u8 list \<Rightarrow> int" where
  "memcmp (x # xs) (y # ys) = (if x = y then memcmp xs ys else uint x - uint y)"
| "memcmp xs ys = 0"

fun bt_uuid128_cmp :: "bt_uuid \<Rightarrow> bt_uuid \<Rightarrow> int option" where
  "bt_uuid128_cmp (BT_UUID128 xs) (BT_UUID128 ys) = Some (memcmp xs ys)"
| "bt_uuid128_cmp u v = None"

text \<open>The two local variables are not initialised, which \<open>BT_UUID_UNSPEC\<close> stands for.\<close>

definition bt_uuid_cmp :: "bt_uuid \<Rightarrow> bt_uuid \<Rightarrow> int option" where
  "bt_uuid_cmp uuid1 uuid2 =
     bt_uuid128_cmp (bt_uuid_to_uuid128 uuid1 BT_UUID_UNSPEC) (bt_uuid_to_uuid128 uuid2 BT_UUID_UNSPEC)"

section \<open>Text\<close>

definition hex_digit :: "nat \<Rightarrow> char" where
  "hex_digit d = ''0123456789abcdef'' ! d"

text \<open>The conversions \<open>%.4x\<close>, \<open>%.8x\<close> and \<open>%02x\<close> of a value with no more digits.\<close>

fun hex :: "nat \<Rightarrow> nat \<Rightarrow> string" where
  "hex 0 v = []"
| "hex (Suc n) v = hex n (v div 16) @ [hex_digit (v mod 16)]"

text \<open>\<open>ntohs\<close> and \<open>ntohl\<close> of the bytes at an offset.\<close>

definition be16_at :: "u8 list \<Rightarrow> nat \<Rightarrow> u16" where
  "be16_at d i = le16 (d ! (i + 1)) (d ! i)"

definition be32_at :: "u8 list \<Rightarrow> nat \<Rightarrow> u32" where
  "be32_at d i = le32 (d ! (i + 3)) (d ! (i + 2)) (d ! (i + 1)) (d ! i)"

definition uuid128_text :: "u8 list \<Rightarrow> string" where
  "uuid128_text d = hex 8 (unat (be32_at d 0)) @ ''-'' @ hex 4 (unat (be16_at d 4)) @ ''-'' @
     hex 4 (unat (be16_at d 6)) @ ''-'' @ hex 4 (unat (be16_at d 8)) @ ''-'' @
     hex 8 (unat (be32_at d 10)) @ hex 4 (unat (be16_at d 14))"

text \<open>\<open>snprintf\<close> keeps \<open>n - 1\<close> characters.\<close>

definition bt_uuid_to_string :: "bt_uuid \<Rightarrow> nat \<Rightarrow> int \<times> string" where
  "bt_uuid_to_string uuid n =
     (case bt_uuid_to_uuid128 uuid BT_UUID_UNSPEC of
        BT_UUID128 d \<Rightarrow> (0, take (n - 1) (uuid128_text d))
      | _ \<Rightarrow> (-22, take (n - 1) ''NULL''))"

abbreviation (input) "MAX_LEN_UUID_STR \<equiv> (37 :: nat)"

text \<open>What the GATT code stores in the \<open>uuid\<close> field of its results.\<close>

definition uuid_text :: "bt_uuid \<Rightarrow> string" where
  "uuid_text u = snd (bt_uuid_to_string u (MAX_LEN_UUID_STR + 1))"

section \<open>Equal UUIDs, equal texts\<close>

definition as128 :: "bt_uuid \<Rightarrow> u8 list" where
  "as128 u = (case bt_uuid_to_uuid128 u BT_UUID_UNSPEC of BT_UUID128 d \<Rightarrow> d | _ \<Rightarrow> [])"

lemma as128_ok: "uuid_ok u \<Longrightarrow> bt_uuid_to_uuid128 u BT_UUID_UNSPEC = BT_UUID128 (as128 u) \<and> length (as128 u) = 16"
  by (cases u) (simp_all add: as128_def bt_uuid16_to_uuid128_def bt_uuid32_to_uuid128_def be_bytes16_def be_bytes32_def
      bluetooth_base_uuid_def overwrite_def)

lemma memcmp_eq: "length xs = length ys \<Longrightarrow> memcmp xs ys = 0 \<longleftrightarrow> xs = ys"
  by (induction xs ys rule: memcmp.induct) (auto simp: word_uint_eq_iff)

lemma bt_uuid_cmp_as128: "uuid_ok u \<Longrightarrow> uuid_ok v \<Longrightarrow> bt_uuid_cmp u v = Some (memcmp (as128 u) (as128 v))"
  using as128_ok [of u] as128_ok [of v] by (simp add: bt_uuid_cmp_def)

lemma length_hex [simp]: "length (hex n v) = n"
  by (induction n arbitrary: v) simp_all

lemma hex_digit_inject: "c < 16 \<Longrightarrow> d < 16 \<Longrightarrow> hex_digit c = hex_digit d \<longleftrightarrow> c = d"
proof -
  have "distinct ''0123456789abcdef''"
    by simp
  then show "c < 16 \<Longrightarrow> d < 16 \<Longrightarrow> hex_digit c = hex_digit d \<longleftrightarrow> c = d"
    unfolding hex_digit_def by (subst nth_eq_iff_index_eq) simp_all
qed

lemma hex_inject: "v < 16 ^ n \<Longrightarrow> w < 16 ^ n \<Longrightarrow> hex n v = hex n w \<longleftrightarrow> v = w"
proof (induction n arbitrary: v w)
  case (Suc n)
  then have "hex n (v div 16) = hex n (w div 16) \<longleftrightarrow> v div 16 = w div 16"
    by (intro Suc.IH) (simp_all add: less_mult_imp_div_less mult.commute)
  moreover have "v = w \<longleftrightarrow> v div 16 = w div 16 \<and> v mod 16 = w mod 16"
    by (metis div_mult_mod_eq)
  ultimately show ?case
    by (simp add: hex_digit_inject)
qed simp

lemma bytes16_le16: "bytes16 (le16 a b) = [a, b]"
  by (simp add: bytes16_def) (intro conjI bit_word_eqI; auto simp: le16_def bit_simps dest: bit_imp_le_length)

lemma bytes32_le32: "bytes32 (le32 a b c d) = [a, b, c, d]"
  by (simp add: bytes32_def) (intro conjI bit_word_eqI; auto simp: le32_def bit_simps dest: bit_imp_le_length)

lemma hex_u16 [simp]: "hex 4 (unat (v :: u16)) = hex 4 (unat w) \<longleftrightarrow> v = w"
  using unsigned_less [of v] unsigned_less [of w] by (subst hex_inject) (simp_all add: word_unat_eq_iff)

lemma hex_u32 [simp]: "hex 8 (unat (v :: u32)) = hex 8 (unat w) \<longleftrightarrow> v = w"
  using unsigned_less [of v] unsigned_less [of w] by (subst hex_inject) (simp_all add: word_unat_eq_iff)

lemma le16_inject [simp]: "le16 a b = le16 c d \<longleftrightarrow> a = c \<and> b = d"
proof
  assume "le16 a b = le16 c d"
  from arg_cong [OF this, of bytes16] show "a = c \<and> b = d"
    by (simp only: bytes16_le16 list.inject)
qed simp

lemma le32_inject [simp]: "le32 a b c d = le32 a' b' c' d' \<longleftrightarrow> a = a' \<and> b = b' \<and> c = c' \<and> d = d'"
proof
  assume "le32 a b c d = le32 a' b' c' d'"
  from arg_cong [OF this, of bytes32] show "a = a' \<and> b = b' \<and> c = c' \<and> d = d'"
    by (simp only: bytes32_le32 list.inject)
qed simp

lemma length_uuid128_text [simp]: "length (uuid128_text d) = 36"
  by (simp add: uuid128_text_def)

lemma uuid128_text_inject:
  assumes "length d = 16" "length e = 16"
  shows "uuid128_text d = uuid128_text e \<longleftrightarrow> d = e"
proof
  assume "uuid128_text d = uuid128_text e"
  then have "be32_at d 0 = be32_at e 0" "be16_at d 4 = be16_at e 4" "be16_at d 6 = be16_at e 6" "be16_at d 8 = be16_at e 8"
    "be32_at d 10 = be32_at e 10" "be16_at d 14 = be16_at e 14"
    by (simp_all add: uuid128_text_def)
  then have parts: "d ! 0 = e ! 0" "d ! 1 = e ! 1" "d ! 2 = e ! 2" "d ! 3 = e ! 3" "d ! 4 = e ! 4" "d ! 5 = e ! 5"
    "d ! 6 = e ! 6" "d ! 7 = e ! 7" "d ! 8 = e ! 8" "d ! 9 = e ! 9" "d ! 10 = e ! 10" "d ! 11 = e ! 11"
    "d ! 12 = e ! 12" "d ! 13 = e ! 13" "d ! 14 = e ! 14" "d ! 15 = e ! 15"
    by (simp_all add: be16_at_def be32_at_def numeral_2_eq_2)
  have "d ! i = e ! i" if "i < 16" for i
  proof -
    have "i \<in> set [0, 1, 2, 3, 4, 5, 6, 7, 8, 9, 10, 11, 12, 13, 14, 15]"
      using that by simp presburger
    then show ?thesis
      using parts by auto
  qed
  then show "d = e"
    using assms by (intro nth_equalityI) simp_all
qed simp

lemma uuid_text_as128: "uuid_ok u \<Longrightarrow> uuid_text u = uuid128_text (as128 u)"
  using as128_ok [of u] by (simp add: uuid_text_def bt_uuid_to_string_def)

text \<open>
  Two UUIDs, of whatever lengths, have the same text exactly if the comparison calls them equal, so
  the UUIDs in the log identify those of the device.
\<close>

theorem uuid_text_cmp:
  assumes "uuid_ok u" "uuid_ok v"
  shows "uuid_text u = uuid_text v \<longleftrightarrow> bt_uuid_cmp u v = Some 0"
  using as128_ok [OF assms(1)] as128_ok [OF assms(2)] assms
  by (simp add: uuid_text_as128 bt_uuid_cmp_as128 memcmp_eq uuid128_text_inject)

lemma uuid_text_cmp_witness:
  "uuid_text (BT_UUID16 0x2A00) = uuid_text (BT_UUID32 0x2A00) \<longleftrightarrow> bt_uuid_cmp (BT_UUID16 0x2A00) (BT_UUID32 0x2A00) = Some 0"
  by (rule uuid_text_cmp) simp_all

end
