(* ===== verification/Att_Pdu.thy ===== *)
theory Att_Pdu
  imports Bt_Uuid
begin

text \<open>
  attrib/att.c: the encoders and decoders of the attribute protocol's PDUs.  A buffer is the list
  of its bytes.  An encoder gives the number of bytes it reports and the buffer after it, a decoder
  the number it reports with what it stored, or \<open>Some None\<close> when it refuses the PDU and returns zero
  or NULL; the outer \<open>None\<close> is an access outside a buffer.  An input pointer that the code compares
  with NULL is an option; the places a decoder stores to are taken to exist.  Consecutive stores to
  a buffer are one \<open>put_bytes\<close>.  \<open>size_t\<close> has 64 bits.  The signed write commands, which rest on the
  kernel's crypto sockets, are left out.
\<close>

unbundle bit_operations_syntax

section \<open>Opcodes and error codes\<close>

abbreviation (input) "ATT_OP_ERROR \<equiv> (0x01 :: u8)"
abbreviation (input) "ATT_OP_MTU_REQ \<equiv> (0x02 :: u8)"
abbreviation (input) "ATT_OP_MTU_RESP \<equiv> (0x03 :: u8)"
abbreviation (input) "ATT_OP_FIND_INFO_REQ \<equiv> (0x04 :: u8)"
abbreviation (input) "ATT_OP_FIND_INFO_RESP \<equiv> (0x05 :: u8)"
abbreviation (input) "ATT_OP_FIND_BY_TYPE_REQ \<equiv> (0x06 :: u8)"
abbreviation (input) "ATT_OP_FIND_BY_TYPE_RESP \<equiv> (0x07 :: u8)"
abbreviation (input) "ATT_OP_READ_BY_TYPE_REQ \<equiv> (0x08 :: u8)"
abbreviation (input) "ATT_OP_READ_BY_TYPE_RESP \<equiv> (0x09 :: u8)"
abbreviation (input) "ATT_OP_READ_REQ \<equiv> (0x0A :: u8)"
abbreviation (input) "ATT_OP_READ_RESP \<equiv> (0x0B :: u8)"
abbreviation (input) "ATT_OP_READ_BLOB_REQ \<equiv> (0x0C :: u8)"
abbreviation (input) "ATT_OP_READ_BLOB_RESP \<equiv> (0x0D :: u8)"
abbreviation (input) "ATT_OP_READ_BY_GROUP_REQ \<equiv> (0x10 :: u8)"
abbreviation (input) "ATT_OP_READ_BY_GROUP_RESP \<equiv> (0x11 :: u8)"
abbreviation (input) "ATT_OP_WRITE_REQ \<equiv> (0x12 :: u8)"
abbreviation (input) "ATT_OP_WRITE_RESP \<equiv> (0x13 :: u8)"
abbreviation (input) "ATT_OP_WRITE_CMD \<equiv> (0x52 :: u8)"
abbreviation (input) "ATT_OP_PREP_WRITE_REQ \<equiv> (0x16 :: u8)"
abbreviation (input) "ATT_OP_PREP_WRITE_RESP \<equiv> (0x17 :: u8)"
abbreviation (input) "ATT_OP_EXEC_WRITE_REQ \<equiv> (0x18 :: u8)"
abbreviation (input) "ATT_OP_EXEC_WRITE_RESP \<equiv> (0x19 :: u8)"
abbreviation (input) "ATT_OP_HANDLE_NOTIFY \<equiv> (0x1B :: u8)"
abbreviation (input) "ATT_OP_HANDLE_IND \<equiv> (0x1D :: u8)"
abbreviation (input) "ATT_OP_HANDLE_CNF \<equiv> (0x1E :: u8)"
abbreviation (input) "ATT_OP_SIGNED_WRITE_CMD \<equiv> (0xD2 :: u8)"

abbreviation (input) "ATT_ECODE_INVALID_HANDLE \<equiv> (0x01 :: u8)"
abbreviation (input) "ATT_ECODE_READ_NOT_PERM \<equiv> (0x02 :: u8)"
abbreviation (input) "ATT_ECODE_WRITE_NOT_PERM \<equiv> (0x03 :: u8)"
abbreviation (input) "ATT_ECODE_INVALID_PDU \<equiv> (0x04 :: u8)"
abbreviation (input) "ATT_ECODE_AUTHENTICATION \<equiv> (0x05 :: u8)"
abbreviation (input) "ATT_ECODE_REQ_NOT_SUPP \<equiv> (0x06 :: u8)"
abbreviation (input) "ATT_ECODE_INVALID_OFFSET \<equiv> (0x07 :: u8)"
abbreviation (input) "ATT_ECODE_AUTHORIZATION \<equiv> (0x08 :: u8)"
abbreviation (input) "ATT_ECODE_PREP_QUEUE_FULL \<equiv> (0x09 :: u8)"
abbreviation (input) "ATT_ECODE_ATTR_NOT_FOUND \<equiv> (0x0A :: u8)"
abbreviation (input) "ATT_ECODE_ATTR_NOT_LONG \<equiv> (0x0B :: u8)"
abbreviation (input) "ATT_ECODE_INSUFF_ENCR_KEY_SIZE \<equiv> (0x0C :: u8)"
abbreviation (input) "ATT_ECODE_INVAL_ATTR_VALUE_LEN \<equiv> (0x0D :: u8)"
abbreviation (input) "ATT_ECODE_UNLIKELY \<equiv> (0x0E :: u8)"
abbreviation (input) "ATT_ECODE_INSUFF_ENC \<equiv> (0x0F :: u8)"
abbreviation (input) "ATT_ECODE_UNSUPP_GRP_TYPE \<equiv> (0x10 :: u8)"
abbreviation (input) "ATT_ECODE_INSUFF_RESOURCES \<equiv> (0x11 :: u8)"
abbreviation (input) "ATT_ECODE_IO \<equiv> (0x80 :: u8)"
abbreviation (input) "ATT_ECODE_TIMEOUT \<equiv> (0x81 :: u8)"
abbreviation (input) "ATT_ECODE_ABORTED \<equiv> (0x82 :: u8)"

definition att_ecode2str :: "u8 \<Rightarrow> string" where
  "att_ecode2str status =
     (if status = ATT_ECODE_INVALID_HANDLE then ''Invalid handle''
      else if status = ATT_ECODE_READ_NOT_PERM then ''Attribute can't be read''
      else if status = ATT_ECODE_WRITE_NOT_PERM then ''Attribute can't be written''
      else if status = ATT_ECODE_INVALID_PDU then ''Attribute PDU was invalid''
      else if status = ATT_ECODE_AUTHENTICATION then ''Attribute requires authentication before read/write''
      else if status = ATT_ECODE_REQ_NOT_SUPP then ''Server doesn't support the request received''
      else if status = ATT_ECODE_INVALID_OFFSET then ''Offset past the end of the attribute''
      else if status = ATT_ECODE_AUTHORIZATION then ''Attribute requires authorization before read/write''
      else if status = ATT_ECODE_PREP_QUEUE_FULL then ''Too many prepare writes have been queued''
      else if status = ATT_ECODE_ATTR_NOT_FOUND then ''No attribute found within the given range''
      else if status = ATT_ECODE_ATTR_NOT_LONG then ''Attribute can't be read/written using Read Blob Req''
      else if status = ATT_ECODE_INSUFF_ENCR_KEY_SIZE then ''Encryption Key Size is insufficient''
      else if status = ATT_ECODE_INVAL_ATTR_VALUE_LEN then ''Attribute value length is invalid''
      else if status = ATT_ECODE_UNLIKELY then ''Request attribute has encountered an unlikely error''
      else if status = ATT_ECODE_INSUFF_ENC then ''Encryption required before read/write''
      else if status = ATT_ECODE_UNSUPP_GRP_TYPE then ''Attribute type is not a supported grouping attribute''
      else if status = ATT_ECODE_INSUFF_RESOURCES then ''Insufficient Resources to complete the request''
      else if status = ATT_ECODE_IO then ''Internal application error: I/O''
      else if status = ATT_ECODE_TIMEOUT then ''A timeout occured''
      else if status = ATT_ECODE_ABORTED then ''The operation was aborted''
      else ''Unexpected error code'')"

section \<open>Buffers\<close>

type_synonym enc = "(u16 \<times> u8 list) option"
type_synonym 'a dec = "(u16 \<times> 'a) option option"

definition size_minus :: "nat \<Rightarrow> nat \<Rightarrow> nat" where
  "size_minus a b = (if b \<le> a then a - b else 2 ^ 64 + a - b)"

definition put_bytes :: "u8 list \<Rightarrow> nat \<Rightarrow> u8 list \<Rightarrow> u8 list option" where
  "put_bytes buf i bs = (if i + length bs \<le> length buf then Some (overwrite buf i bs) else None)"

text \<open>A header, and a value after it that is cut to the room there is.\<close>

definition cut :: "nat \<Rightarrow> nat \<Rightarrow> nat \<Rightarrow> nat" where
  "cut vlen len min_len = (if vlen > size_minus len min_len then size_minus len min_len else vlen)"

definition put_value :: "u8 list \<Rightarrow> u8 list \<Rightarrow> nat \<Rightarrow> u8 list \<Rightarrow> enc" where
  "put_value hdr value vlen pdu = do {
     pdu \<leftarrow> put_bytes pdu 0 hdr;
     if vlen > 0
     then do { v \<leftarrow> rds value 0 vlen;
               pdu \<leftarrow> put_bytes pdu (length hdr) v;
               Some (of_nat (length hdr + vlen), pdu) }
     else Some (of_nat (length hdr), pdu) }"

text \<open>
  UUIDs in little endian order; \<open>bswap_128\<close> turns the whole union around, which the functions that
  create short UUIDs have cleared.
\<close>

fun put_uuid_le :: "bt_uuid \<Rightarrow> u8 list" where
  "put_uuid_le (BT_UUID16 v) = bytes16 v"
| "put_uuid_le (BT_UUID128 d) = rev d"
| "put_uuid_le (BT_UUID32 v) = rev (bytes32 v @ replicate 12 0)"
| "put_uuid_le BT_UUID_UNSPEC = replicate 16 0"

datatype uuid_type = Short | Long

definition get_uuid :: "uuid_type \<Rightarrow> u8 list \<Rightarrow> nat \<Rightarrow> bt_uuid option" where
  "get_uuid ty buf i = (case ty of
     Short \<Rightarrow> do { v \<leftarrow> rd16 buf i; Some (BT_UUID16 v) }
   | Long \<Rightarrow> do { d \<leftarrow> rds buf i 16; Some (BT_UUID128 (rev d)) })"

section \<open>Lists of entries\<close>

record att_data_list =
  al_num :: u16
  al_len :: u16
  al_data :: "u8 list list"

definition att_data_list_alloc :: "u16 \<Rightarrow> u16 \<Rightarrow> att_data_list option" where
  "att_data_list_alloc num len =
     (if len > 255 then None
      else Some \<lparr>al_num = num, al_len = len, al_data = replicate (unat num) (replicate (unat len) 0)\<rparr>)"

text \<open>The loop that copies the entries of a PDU into an allocated list.\<close>

fun read_entries :: "u8 list \<Rightarrow> nat \<Rightarrow> nat \<Rightarrow> nat \<Rightarrow> u8 list list option" where
  "read_entries pdu i len 0 = Some []"
| "read_entries pdu i len (Suc n) = do {
     e \<leftarrow> rds pdu i len;
     es \<leftarrow> read_entries pdu (i + len) len n;
     Some (e # es) }"

definition dec_entries :: "u8 list \<Rightarrow> u16 \<Rightarrow> u16 \<Rightarrow> att_data_list option option" where
  "dec_entries pdu num elen = (case att_data_list_alloc num elen of
     None \<Rightarrow> Some None
   | Some l \<Rightarrow> do { es \<leftarrow> read_entries pdu 2 (unat (al_len l)) (unat num); Some (Some (l\<lparr>al_data := es\<rparr>)) })"

text \<open>The loop that copies entries into a PDU while they fit; \<open>w\<close> counts modulo \<open>m\<close>.\<close>

fun put_entries :: "nat \<Rightarrow> nat \<Rightarrow> nat \<Rightarrow> u8 list list \<Rightarrow> nat \<Rightarrow> nat \<Rightarrow> u8 list \<Rightarrow> (nat \<times> u8 list) option" where
  "put_entries m len l [] i w pdu = Some (w, pdu)"
| "put_entries m len l (e # es) i w pdu =
     (if w + l \<le> len
      then do { b \<leftarrow> rds e 0 l;
                pdu \<leftarrow> put_bytes pdu i b;
                put_entries m len l es (i + l) ((w + l) mod m) pdu }
      else Some (w, pdu))"

section \<open>Read by group type\<close>

definition uuid_len16 :: "bt_uuid \<Rightarrow> u16 option" where
  "uuid_len16 u = (case u of BT_UUID16 _ \<Rightarrow> Some 2 | BT_UUID128 _ \<Rightarrow> Some 16 | _ \<Rightarrow> None)"

text \<open>Both requests with a range and a UUID; the length of the buffer is not looked at.\<close>

definition enc_range_uuid :: "u8 \<Rightarrow> u16 \<Rightarrow> u16 \<Rightarrow> bt_uuid option \<Rightarrow> u8 list \<Rightarrow> enc" where
  "enc_range_uuid opc start end uuid pdu = (case uuid of
     None \<Rightarrow> Some (0, pdu)
   | Some u \<Rightarrow> (case uuid_len16 u of
       None \<Rightarrow> Some (0, pdu)
     | Some n \<Rightarrow> do { pdu \<leftarrow> put_bytes pdu 0 (opc # bytes16 start @ bytes16 end @ put_uuid_le u);
                      Some (5 + n, pdu) }))"

definition enc_read_by_grp_req :: "u16 \<Rightarrow> u16 \<Rightarrow> bt_uuid option \<Rightarrow> u8 list \<Rightarrow> nat \<Rightarrow> enc" where
  "enc_read_by_grp_req start end uuid pdu len = enc_range_uuid ATT_OP_READ_BY_GROUP_REQ start end uuid pdu"

definition dec_range_uuid :: "uuid_type \<Rightarrow> u8 list \<Rightarrow> nat \<Rightarrow> (u16 \<times> u16 \<times> bt_uuid) dec" where
  "dec_range_uuid ty pdu len = do {
     start \<leftarrow> rd16 pdu 1;
     end \<leftarrow> rd16 pdu 3;
     uuid \<leftarrow> get_uuid ty pdu 5;
     Some (Some (of_nat len, start, end, uuid)) }"

definition dec_read_by_grp_req :: "u8 list option \<Rightarrow> nat \<Rightarrow> (u16 \<times> u16 \<times> bt_uuid) dec" where
  "dec_read_by_grp_req pdu len = (case pdu of
     None \<Rightarrow> Some None
   | Some pdu \<Rightarrow> do {
       opc \<leftarrow> rd pdu 0;
       if opc \<noteq> ATT_OP_READ_BY_GROUP_REQ then Some None
       else if len = 5 + 2 then dec_range_uuid Short pdu len
       else if len = 5 + 16 then dec_range_uuid Long pdu len
       else Some None })"

definition enc_read_by_grp_resp :: "att_data_list option \<Rightarrow> u8 list \<Rightarrow> nat \<Rightarrow> enc" where
  "enc_read_by_grp_resp list pdu len = (case list of
     None \<Rightarrow> Some (0, pdu)
   | Some l \<Rightarrow>
       if len < unat (al_len l) + 2 then Some (0, pdu)
       else do {
         pdu \<leftarrow> put_bytes pdu 0 [ATT_OP_READ_BY_GROUP_RESP, ucast (al_len l)];
         (w, pdu) \<leftarrow> put_entries (2 ^ 16) len (unat (al_len l)) (take (unat (al_num l)) (al_data l)) 2 2 pdu;
         Some (of_nat w, pdu) })"

definition dec_read_by_grp_resp :: "u8 list \<Rightarrow> nat \<Rightarrow> att_data_list option option" where
  "dec_read_by_grp_resp pdu len = do {
     opc \<leftarrow> rd pdu 0;
     if opc \<noteq> ATT_OP_READ_BY_GROUP_RESP then Some None
     else if len < 7 then Some None
     else do {
       elen \<leftarrow> rd pdu 1;
       if elen < 5 then Some None
       else if (len - 2) mod unat elen \<noteq> 0 then Some None
       else dec_entries pdu (of_nat ((len - 2) div unat elen)) (ucast elen) } }"

section \<open>Find by type value\<close>

definition enc_find_by_type_req ::
  "u16 \<Rightarrow> u16 \<Rightarrow> bt_uuid option \<Rightarrow> u8 list \<Rightarrow> nat \<Rightarrow> u8 list option \<Rightarrow> nat \<Rightarrow> enc" where
  "enc_find_by_type_req start end uuid value vlen pdu len = (case pdu of
     None \<Rightarrow> Some (0, [])
   | Some pdu \<Rightarrow> (case uuid of
       Some (BT_UUID16 u) \<Rightarrow>
         put_value (ATT_OP_FIND_BY_TYPE_REQ # bytes16 start @ bytes16 end @ bytes16 u) value (cut vlen len 7) pdu
     | _ \<Rightarrow> Some (0, pdu)))"

definition dec_find_by_type_req :: "u8 list option \<Rightarrow> nat \<Rightarrow> u8 list \<Rightarrow> (u16 \<times> u16 \<times> bt_uuid \<times> u8 list \<times> nat) dec" where
  "dec_find_by_type_req pdu len value = (case pdu of
     None \<Rightarrow> Some None
   | Some pdu \<Rightarrow>
       if len < 7 then Some None
       else do {
         opc \<leftarrow> rd pdu 0;
         if opc \<noteq> ATT_OP_FIND_BY_TYPE_REQ then Some None
         else do {
           start \<leftarrow> rd16 pdu 1;
           end \<leftarrow> rd16 pdu 3;
           u \<leftarrow> rd16 pdu 5;
           value \<leftarrow> (if len - 7 > 0 then do { v \<leftarrow> rds pdu 7 (len - 7); put_bytes value 0 v } else Some value);
           Some (Some (of_nat len, start, end, BT_UUID16 u, value, len - 7)) } })"

record att_range =
  ar_start :: u16
  ar_end :: u16

fun put_ranges :: "att_range list \<Rightarrow> nat \<Rightarrow> u16 \<Rightarrow> u8 list \<Rightarrow> enc" where
  "put_ranges [] len offset pdu = Some (offset, pdu)"
| "put_ranges (r # rs) len offset pdu =
     (if len \<ge> unat offset + 4
      then do { pdu \<leftarrow> put_bytes pdu (unat offset) (bytes16 (ar_start r) @ bytes16 (ar_end r));
                put_ranges rs len (offset + 4) pdu }
      else Some (offset, pdu))"

definition enc_find_by_type_resp :: "att_range list \<Rightarrow> u8 list option \<Rightarrow> nat \<Rightarrow> enc" where
  "enc_find_by_type_resp matches pdu len = (case pdu of
     None \<Rightarrow> Some (0, [])
   | Some pdu \<Rightarrow> do { pdu \<leftarrow> put_bytes pdu 0 [ATT_OP_FIND_BY_TYPE_RESP]; put_ranges matches len 1 pdu })"

function read_ranges :: "u8 list \<Rightarrow> nat \<Rightarrow> nat \<Rightarrow> att_range list option" where
  "read_ranges pdu len offset =
     (if len \<ge> offset + 4
      then do { start \<leftarrow> rd16 pdu offset;
                end \<leftarrow> rd16 pdu (offset + 2);
                rs \<leftarrow> read_ranges pdu len (offset + 4);
                Some (\<lparr>ar_start = start, ar_end = end\<rparr> # rs) }
      else Some [])"
  by auto
termination
  by (relation "measure (\<lambda>(pdu, len, offset). len - offset)") auto

declare read_ranges.simps [simp del]

text \<open>An empty list is NULL.\<close>

definition dec_find_by_type_resp :: "u8 list option \<Rightarrow> nat \<Rightarrow> att_range list option" where
  "dec_find_by_type_resp pdu len = (case pdu of
     None \<Rightarrow> Some []
   | Some pdu \<Rightarrow>
       if len < 5 then Some []
       else do {
         opc \<leftarrow> rd pdu 0;
         if opc \<noteq> ATT_OP_FIND_BY_TYPE_RESP then Some []
         else if (len - 1) mod 4 \<noteq> 0 then Some []
         else read_ranges pdu len 1 })"

section \<open>Read by type\<close>

definition enc_read_by_type_req :: "u16 \<Rightarrow> u16 \<Rightarrow> bt_uuid option \<Rightarrow> u8 list \<Rightarrow> nat \<Rightarrow> enc" where
  "enc_read_by_type_req start end uuid pdu len = enc_range_uuid ATT_OP_READ_BY_TYPE_REQ start end uuid pdu"

definition dec_read_by_type_req :: "u8 list option \<Rightarrow> nat \<Rightarrow> (u16 \<times> u16 \<times> bt_uuid) dec" where
  "dec_read_by_type_req pdu len = (case pdu of
     None \<Rightarrow> Some None
   | Some pdu \<Rightarrow> (case (if len = 5 + 2 then Some Short else if len = 5 + 16 then Some Long else None) of
       None \<Rightarrow> Some None
     | Some ty \<Rightarrow> do {
         opc \<leftarrow> rd pdu 0;
         if opc \<noteq> ATT_OP_READ_BY_TYPE_REQ then Some None else dec_range_uuid ty pdu len }))"

definition enc_read_by_type_resp :: "att_data_list option \<Rightarrow> u8 list option \<Rightarrow> nat \<Rightarrow> enc" where
  "enc_read_by_type_resp list pdu len = (case (list, pdu) of
     (Some al, Some pdu) \<Rightarrow>
       (let l = min (size_minus len 2) (unat (al_len al))
        in do {
          pdu \<leftarrow> put_bytes pdu 0 [ATT_OP_READ_BY_TYPE_RESP, of_nat l];
          (w, pdu) \<leftarrow> put_entries (2 ^ 64) len l (take (unat (al_num al)) (al_data al)) 2 2 pdu;
          Some (of_nat w, pdu) })
   | _ \<Rightarrow> Some (0, case pdu of None \<Rightarrow> [] | Some pdu \<Rightarrow> pdu))"

definition dec_read_by_type_resp :: "u8 list \<Rightarrow> nat \<Rightarrow> att_data_list option option" where
  "dec_read_by_type_resp pdu len = do {
     opc \<leftarrow> rd pdu 0;
     if opc \<noteq> ATT_OP_READ_BY_TYPE_RESP then Some None
     else if len < 5 then Some None
     else do {
       elen \<leftarrow> rd pdu 1;
       if elen < 3 then Some None
       else if (len - 2) mod unat elen \<noteq> 0 then Some None
       else dec_entries pdu (of_nat ((len - 2) div unat elen)) (ucast elen) } }"

section \<open>Writes\<close>

definition enc_write_cmd :: "u16 \<Rightarrow> u8 list \<Rightarrow> nat \<Rightarrow> u8 list option \<Rightarrow> nat \<Rightarrow> enc" where
  "enc_write_cmd handle value vlen pdu len = (case pdu of
     None \<Rightarrow> Some (0, [])
   | Some pdu \<Rightarrow> put_value (ATT_OP_WRITE_CMD # bytes16 handle) value (cut vlen len 3) pdu)"

text \<open>The handle, the value's buffer and the length stored.\<close>

definition dec_write_cmd :: "u8 list option \<Rightarrow> nat \<Rightarrow> u8 list option \<Rightarrow> (u16 \<times> u8 list \<times> nat) dec" where
  "dec_write_cmd pdu len value = (case (pdu, value) of
     (Some pdu, Some value) \<Rightarrow>
       if len < 3 then Some None
       else do {
         opc \<leftarrow> rd pdu 0;
         if opc \<noteq> ATT_OP_WRITE_CMD then Some None
         else do {
           handle \<leftarrow> rd16 pdu 1;
           v \<leftarrow> rds pdu 3 (len - 3);
           value \<leftarrow> put_bytes value 0 v;
           Some (Some (of_nat len, handle, value, len - 3)) } }
   | _ \<Rightarrow> Some None)"

definition enc_write_req :: "u16 \<Rightarrow> u8 list \<Rightarrow> nat \<Rightarrow> u8 list option \<Rightarrow> nat \<Rightarrow> enc" where
  "enc_write_req handle value vlen pdu len = (case pdu of
     None \<Rightarrow> Some (0, [])
   | Some pdu \<Rightarrow> put_value (ATT_OP_WRITE_REQ # bytes16 handle) value (cut vlen len 3) pdu)"

definition dec_write_req :: "u8 list option \<Rightarrow> nat \<Rightarrow> u8 list option \<Rightarrow> (u16 \<times> u8 list \<times> nat) dec" where
  "dec_write_req pdu len value = (case (pdu, value) of
     (Some pdu, Some value) \<Rightarrow>
       if len < 3 then Some None
       else do {
         opc \<leftarrow> rd pdu 0;
         if opc \<noteq> ATT_OP_WRITE_REQ then Some None
         else do {
           handle \<leftarrow> rd16 pdu 1;
           value \<leftarrow> (if len - 3 > 0 then do { v \<leftarrow> rds pdu 3 (len - 3); put_bytes value 0 v } else Some value);
           Some (Some (of_nat len, handle, value, len - 3)) } }
   | _ \<Rightarrow> Some None)"

text \<open>PDUs that are an opcode only.\<close>

definition enc_opcode :: "u8 \<Rightarrow> u8 list option \<Rightarrow> enc" where
  "enc_opcode opc pdu = (case pdu of
     None \<Rightarrow> Some (0, [])
   | Some pdu \<Rightarrow> do { pdu \<leftarrow> put_bytes pdu 0 [opc]; Some (1, pdu) })"

definition enc_write_resp :: "u8 list option \<Rightarrow> enc" where
  "enc_write_resp = enc_opcode ATT_OP_WRITE_RESP"

definition dec_write_resp :: "u8 list option \<Rightarrow> nat \<Rightarrow> unit dec" where
  "dec_write_resp pdu len = (case pdu of
     None \<Rightarrow> Some None
   | Some pdu \<Rightarrow> do { opc \<leftarrow> rd pdu 0; if opc \<noteq> ATT_OP_WRITE_RESP then Some None else Some (Some (of_nat len, ())) })"

section \<open>Reads\<close>

text \<open>A PDU of fixed layout.\<close>

definition enc_fixed :: "u8 list \<Rightarrow> u8 list option \<Rightarrow> enc" where
  "enc_fixed bs pdu = (case pdu of
     None \<Rightarrow> Some (0, [])
   | Some pdu \<Rightarrow> do { pdu \<leftarrow> put_bytes pdu 0 bs; Some (of_nat (length bs), pdu) })"

definition enc_read_req :: "u16 \<Rightarrow> u8 list option \<Rightarrow> nat \<Rightarrow> enc" where
  "enc_read_req handle pdu len = enc_fixed (ATT_OP_READ_REQ # bytes16 handle) pdu"

definition enc_read_blob_req :: "u16 \<Rightarrow> u16 \<Rightarrow> u8 list option \<Rightarrow> nat \<Rightarrow> enc" where
  "enc_read_blob_req handle offset pdu len =
     enc_fixed (ATT_OP_READ_BLOB_REQ # bytes16 handle @ bytes16 offset) pdu"

text \<open>An opcode followed by one, respectively two, 16-bit fields.\<close>

definition dec_one :: "u8 \<Rightarrow> u8 list option \<Rightarrow> nat \<Rightarrow> u16 dec" where
  "dec_one opcode pdu len = (case pdu of
     None \<Rightarrow> Some None
   | Some pdu \<Rightarrow>
       if len < 3 then Some None
       else do { opc \<leftarrow> rd pdu 0;
                 if opc \<noteq> opcode then Some None
                 else do { v \<leftarrow> rd16 pdu 1; Some (Some (3, v)) } })"

definition dec_two :: "u8 \<Rightarrow> u8 list option \<Rightarrow> nat \<Rightarrow> (u16 \<times> u16) dec" where
  "dec_two opcode pdu len = (case pdu of
     None \<Rightarrow> Some None
   | Some pdu \<Rightarrow>
       if len < 5 then Some None
       else do { opc \<leftarrow> rd pdu 0;
                 if opc \<noteq> opcode then Some None
                 else do { v \<leftarrow> rd16 pdu 1; w \<leftarrow> rd16 pdu 3; Some (Some (5, v, w)) } })"

definition dec_read_req :: "u8 list option \<Rightarrow> nat \<Rightarrow> u16 dec" where
  "dec_read_req = dec_one ATT_OP_READ_REQ"

definition dec_read_blob_req :: "u8 list option \<Rightarrow> nat \<Rightarrow> (u16 \<times> u16) dec" where
  "dec_read_blob_req = dec_two ATT_OP_READ_BLOB_REQ"

definition enc_read_resp :: "u8 list \<Rightarrow> nat \<Rightarrow> u8 list option \<Rightarrow> nat \<Rightarrow> enc" where
  "enc_read_resp value vlen pdu len = (case pdu of
     None \<Rightarrow> Some (0, [])
   | Some pdu \<Rightarrow> (let vlen = cut vlen len 1
       in do { v \<leftarrow> rds value 0 vlen;
               pdu \<leftarrow> put_bytes pdu 0 (ATT_OP_READ_RESP # v);
               Some (of_nat (vlen + 1), pdu) }))"

definition enc_read_blob_resp :: "u8 list \<Rightarrow> nat \<Rightarrow> u16 \<Rightarrow> u8 list option \<Rightarrow> nat \<Rightarrow> enc" where
  "enc_read_blob_resp value vlen offset pdu len = (case pdu of
     None \<Rightarrow> Some (0, [])
   | Some pdu \<Rightarrow> (let vlen = cut (size_minus vlen (unat offset)) len 1
       in do { v \<leftarrow> rds value (unat offset) vlen;
               pdu \<leftarrow> put_bytes pdu 0 (ATT_OP_READ_BLOB_RESP # v);
               Some (of_nat (vlen + 1), pdu) }))"

text \<open>The errors \<open>-EINVAL\<close> and \<open>-ENOBUFS\<close>, or the length and the value's buffer, if there is one.\<close>

definition dec_read_resp :: "u8 list option \<Rightarrow> nat \<Rightarrow> u8 list option \<Rightarrow> nat \<Rightarrow> (int \<times> u8 list option) option" where
  "dec_read_resp pdu len value vlen = (case pdu of
     None \<Rightarrow> Some (-22, value)
   | Some pdu \<Rightarrow> do {
       opc \<leftarrow> rd pdu 0;
       if opc \<noteq> ATT_OP_READ_RESP then Some (-22, value)
       else (case value of
         None \<Rightarrow> Some (int len - 1, None)
       | Some value \<Rightarrow>
           if vlen < size_minus len 1 then Some (-105, Some value)
           else do { v \<leftarrow> rds pdu 1 (size_minus len 1);
                     value \<leftarrow> put_bytes value 0 v;
                     Some (int len - 1, Some value) }) })"

section \<open>Errors and information\<close>

definition enc_error_resp :: "u8 \<Rightarrow> u16 \<Rightarrow> u8 \<Rightarrow> u8 list \<Rightarrow> nat \<Rightarrow> enc" where
  "enc_error_resp opcode handle status pdu len =
     enc_fixed ([ATT_OP_ERROR, opcode] @ bytes16 handle @ [status]) (Some pdu)"

definition enc_find_info_req :: "u16 \<Rightarrow> u16 \<Rightarrow> u8 list option \<Rightarrow> nat \<Rightarrow> enc" where
  "enc_find_info_req start end pdu len = enc_fixed (ATT_OP_FIND_INFO_REQ # bytes16 start @ bytes16 end) pdu"

definition dec_find_info_req :: "u8 list option \<Rightarrow> nat \<Rightarrow> (u16 \<times> u16) dec" where
  "dec_find_info_req = dec_two ATT_OP_FIND_INFO_REQ"

definition enc_find_info_resp :: "u8 \<Rightarrow> att_data_list option \<Rightarrow> u8 list option \<Rightarrow> nat \<Rightarrow> enc" where
  "enc_find_info_resp format list pdu len = (case (pdu, list) of
     (Some pdu, Some l) \<Rightarrow>
       if len < unat (al_len l) + 2 then Some (0, pdu)
       else do {
         pdu \<leftarrow> put_bytes pdu 0 [ATT_OP_FIND_INFO_RESP, format];
         (w, pdu) \<leftarrow> put_entries (2 ^ 64) len (unat (al_len l)) (take (unat (al_num l)) (al_data l)) 2 2 pdu;
         Some (of_nat w, pdu) }
   | _ \<Rightarrow> Some (0, case pdu of None \<Rightarrow> [] | Some pdu \<Rightarrow> pdu))"

definition info_len :: "u8 \<Rightarrow> u16" where
  "info_len format = (if format = 0x01 then 4 else if format = 0x02 then 18 else 2)"

text \<open>The format and the list.\<close>

definition dec_find_info_resp :: "u8 list option \<Rightarrow> nat \<Rightarrow> (u8 \<times> att_data_list) option option" where
  "dec_find_info_resp pdu len = (case pdu of
     None \<Rightarrow> Some None
   | Some pdu \<Rightarrow> do {
       opc \<leftarrow> rd pdu 0;
       if opc \<noteq> ATT_OP_FIND_INFO_RESP then Some None
       else do {
         format \<leftarrow> rd pdu 1;
         l \<leftarrow> dec_entries pdu (of_nat (size_minus len 2 div unat (info_len format))) (info_len format);
         Some (map_option (\<lambda>l. (format, l)) l) } })"

section \<open>Server initiated PDUs and the MTU\<close>

definition enc_handle_value :: "u8 \<Rightarrow> u16 \<Rightarrow> u8 list \<Rightarrow> nat \<Rightarrow> u8 list option \<Rightarrow> nat \<Rightarrow> enc" where
  "enc_handle_value opc handle value vlen pdu len = (case pdu of
     None \<Rightarrow> Some (0, [])
   | Some pdu \<Rightarrow>
       if len < vlen + 3 then Some (0, pdu)
       else do { v \<leftarrow> rds value 0 vlen;
                 pdu \<leftarrow> put_bytes pdu 0 (opc # bytes16 handle @ v);
                 Some (of_nat (vlen + 3), pdu) })"

definition enc_notification :: "u16 \<Rightarrow> u8 list \<Rightarrow> nat \<Rightarrow> u8 list option \<Rightarrow> nat \<Rightarrow> enc" where
  "enc_notification = enc_handle_value ATT_OP_HANDLE_NOTIFY"

definition enc_indication :: "u16 \<Rightarrow> u8 list \<Rightarrow> nat \<Rightarrow> u8 list option \<Rightarrow> nat \<Rightarrow> enc" where
  "enc_indication = enc_handle_value ATT_OP_HANDLE_IND"

text \<open>The handle, read when there is a place for it, and the value's buffer.\<close>

definition dec_indication :: "u8 list option \<Rightarrow> nat \<Rightarrow> bool \<Rightarrow> u8 list \<Rightarrow> nat \<Rightarrow> (u16 option \<times> u8 list) dec" where
  "dec_indication pdu len want_handle value vlen = (case pdu of
     None \<Rightarrow> Some None
   | Some pdu \<Rightarrow> do {
       opc \<leftarrow> rd pdu 0;
       if opc \<noteq> ATT_OP_HANDLE_IND then Some None
       else if len < 3 then Some None
       else let dlen = (of_nat (min (len - 3) vlen) :: u16)
            in do {
              handle \<leftarrow> (if want_handle then map_option Some (rd16 pdu 1) else Some None);
              v \<leftarrow> rds pdu 3 (unat dlen);
              value \<leftarrow> put_bytes value 0 v;
              Some (Some (dlen, handle, value)) } })"

definition enc_confirmation :: "u8 list option \<Rightarrow> nat \<Rightarrow> enc" where
  "enc_confirmation pdu len = enc_opcode ATT_OP_HANDLE_CNF pdu"

definition enc_mtu_req :: "u16 \<Rightarrow> u8 list option \<Rightarrow> nat \<Rightarrow> enc" where
  "enc_mtu_req mtu pdu len = enc_fixed (ATT_OP_MTU_REQ # bytes16 mtu) pdu"

definition dec_mtu_req :: "u8 list option \<Rightarrow> nat \<Rightarrow> u16 dec" where
  "dec_mtu_req = dec_one ATT_OP_MTU_REQ"

definition enc_mtu_resp :: "u16 \<Rightarrow> u8 list option \<Rightarrow> nat \<Rightarrow> enc" where
  "enc_mtu_resp mtu pdu len = enc_fixed (ATT_OP_MTU_RESP # bytes16 mtu) pdu"

definition dec_mtu_resp :: "u8 list option \<Rightarrow> nat \<Rightarrow> u16 dec" where
  "dec_mtu_resp = dec_one ATT_OP_MTU_RESP"

section \<open>Prepared writes\<close>

definition enc_prep_write_req :: "u16 \<Rightarrow> u16 \<Rightarrow> u8 list \<Rightarrow> nat \<Rightarrow> u8 list option \<Rightarrow> nat \<Rightarrow> enc" where
  "enc_prep_write_req handle offset value vlen pdu len = (case pdu of
     None \<Rightarrow> Some (0, [])
   | Some pdu \<Rightarrow>
       put_value (ATT_OP_PREP_WRITE_REQ # bytes16 handle @ bytes16 offset) value (cut vlen len 5) pdu)"

text \<open>Both decoders, which test for the same opcode.\<close>

definition dec_prep_write :: "u8 list option \<Rightarrow> nat \<Rightarrow> u8 list option \<Rightarrow> (u16 \<times> u16 \<times> u8 list \<times> nat) dec" where
  "dec_prep_write pdu len value = (case (pdu, value) of
     (Some pdu, Some value) \<Rightarrow>
       if len < 5 then Some None
       else do {
         opc \<leftarrow> rd pdu 0;
         if opc \<noteq> ATT_OP_PREP_WRITE_REQ then Some None
         else do {
           handle \<leftarrow> rd16 pdu 1;
           offset \<leftarrow> rd16 pdu 3;
           value \<leftarrow> (if len - 5 > 0 then do { v \<leftarrow> rds pdu 5 (len - 5); put_bytes value 0 v } else Some value);
           Some (Some (of_nat len, handle, offset, value, len - 5)) } }
   | _ \<Rightarrow> Some None)"

definition dec_prep_write_req :: "u8 list option \<Rightarrow> nat \<Rightarrow> u8 list option \<Rightarrow> (u16 \<times> u16 \<times> u8 list \<times> nat) dec" where
  "dec_prep_write_req = dec_prep_write"

definition enc_prep_write_resp :: "u16 \<Rightarrow> u16 \<Rightarrow> u8 list \<Rightarrow> nat \<Rightarrow> u8 list option \<Rightarrow> nat \<Rightarrow> enc" where
  "enc_prep_write_resp handle offset value vlen pdu len = (case pdu of
     None \<Rightarrow> Some (0, [])
   | Some pdu \<Rightarrow>
       put_value (ATT_OP_PREP_WRITE_RESP # bytes16 handle @ bytes16 offset) value (cut vlen len 5) pdu)"

definition dec_prep_write_resp :: "u8 list option \<Rightarrow> nat \<Rightarrow> u8 list option \<Rightarrow> (u16 \<times> u16 \<times> u8 list \<times> nat) dec" where
  "dec_prep_write_resp = dec_prep_write"

definition enc_exec_write_req :: "u8 \<Rightarrow> u8 list option \<Rightarrow> nat \<Rightarrow> enc" where
  "enc_exec_write_req flags pdu len = (case pdu of
     None \<Rightarrow> Some (0, [])
   | Some pdu \<Rightarrow> if flags > 1 then Some (0, pdu) else enc_fixed [ATT_OP_EXEC_WRITE_REQ, flags] (Some pdu))"

definition dec_exec_write_req :: "u8 list option \<Rightarrow> nat \<Rightarrow> u8 dec" where
  "dec_exec_write_req pdu len = (case pdu of
     None \<Rightarrow> Some None
   | Some pdu \<Rightarrow>
       if len < 2 then Some None
       else do { opc \<leftarrow> rd pdu 0;
                 if opc \<noteq> ATT_OP_EXEC_WRITE_REQ then Some None
                 else do { flags \<leftarrow> rd pdu 1; Some (Some (2, flags)) } })"

definition enc_exec_write_resp :: "u8 list option \<Rightarrow> enc" where
  "enc_exec_write_resp = enc_opcode ATT_OP_EXEC_WRITE_RESP"

definition dec_exec_write_resp :: "u8 list option \<Rightarrow> nat \<Rightarrow> unit dec" where
  "dec_exec_write_resp pdu len = (case pdu of
     None \<Rightarrow> Some None
   | Some pdu \<Rightarrow>
       if len < 1 then Some None
       else do { opc \<leftarrow> rd pdu 0;
                 if opc \<noteq> ATT_OP_EXEC_WRITE_RESP then Some None else Some (Some (of_nat len, ())) })"

end
