(* ===== verification/Gatt.thy ===== *)
theory Gatt
  imports Att_Pdu
begin

text \<open>
  attrib/gatt.c: the client procedures that discover the services, characteristics and descriptors
  of a server and read and write its values.  A procedure keeps its record between responses; the
  callback of a response either sends another request, or calls back with the results, or stops.
  A status other than zero comes with an error response.  Allocations succeed.  The discovery of
  included services and the parsing of SDP records are not used by the printer and are left out.
\<close>

unbundle bit_operations_syntax

section \<open>Requests\<close>

abbreviation (input) "GATT_PRIM_SVC_UUID \<equiv> (0x2800 :: u16)"
abbreviation (input) "GATT_SND_SVC_UUID \<equiv> (0x2801 :: u16)"
abbreviation (input) "GATT_CHARAC_UUID \<equiv> (0x2803 :: u16)"

text \<open>
  What \<open>g_attrib_send\<close> is given after an encoder has written to the client's buffer of MTU bytes;
  the bytes before do not matter.
\<close>

definition encoded :: "nat \<Rightarrow> (u8 list \<Rightarrow> enc) \<Rightarrow> u8 list option" where
  "encoded mtu e = do { (n, buf) \<leftarrow> e (replicate mtu 0); Some (take (unat n) buf) }"

datatype ('s, 'r) reaction = Send "u8 list" 's | Call_back u8 "'r list" | Stop

text \<open>An empty request is not sent.\<close>

definition send_or :: "('s, 'r) reaction \<Rightarrow> u8 list option \<Rightarrow> 's \<Rightarrow> ('s, 'r) reaction option" where
  "send_or otherwise req s = do { r \<leftarrow> req; Some (if r = [] then otherwise else Send r s) }"

fun collect :: "('a \<Rightarrow> 'b option) \<Rightarrow> 'a list \<Rightarrow> 'b list option" where
  "collect f [] = Some []"
| "collect f (x # xs) = do { y \<leftarrow> f x; ys \<leftarrow> collect f xs; Some (y # ys) }"

definition get_uuid128 :: "uuid_type \<Rightarrow> u8 list \<Rightarrow> nat \<Rightarrow> bt_uuid option" where
  "get_uuid128 ty val i = map_option (\<lambda>u. bt_uuid_to_uuid128 u BT_UUID_UNSPEC) (get_uuid ty val i)"

section \<open>Services\<close>

record gatt_primary =
  gp_uuid :: string
  gp_range :: att_range

text \<open>The search by UUID collects bare ranges in the same list.\<close>

record 'r discover_primary =
  dp_uuid :: bt_uuid
  dp_start :: u16
  dp_primaries :: "'r list"

definition encode_discover :: "u16 \<Rightarrow> u16 \<Rightarrow> u16 \<Rightarrow> bt_uuid option \<Rightarrow> u8 list \<Rightarrow> nat \<Rightarrow> enc" where
  "encode_discover svc start end uuid pdu len = (case uuid of
     None \<Rightarrow> enc_read_by_grp_req start end (Some (BT_UUID16 svc)) pdu len
   | Some u \<Rightarrow> enc_find_by_type_req start end (Some (BT_UUID16 svc)) (put_uuid_le u) (bt_uuid_len u) (Some pdu) len)"

definition encode_discover_primary :: "u16 \<Rightarrow> u16 \<Rightarrow> bt_uuid option \<Rightarrow> u8 list \<Rightarrow> nat \<Rightarrow> enc" where
  "encode_discover_primary = encode_discover GATT_PRIM_SVC_UUID"

definition encode_discover_secondary :: "u16 \<Rightarrow> u16 \<Rightarrow> bt_uuid option \<Rightarrow> u8 list \<Rightarrow> nat \<Rightarrow> enc" where
  "encode_discover_secondary = encode_discover GATT_SND_SVC_UUID"

type_synonym service_encoder = "u16 \<Rightarrow> u16 \<Rightarrow> bt_uuid option \<Rightarrow> u8 list \<Rightarrow> nat \<Rightarrow> enc"

definition by_uuid_cb ::
  "service_encoder \<Rightarrow> nat \<Rightarrow> u8 \<Rightarrow> u8 list \<Rightarrow> att_range discover_primary \<Rightarrow>
     (att_range discover_primary, att_range) reaction option" where
  "by_uuid_cb encode mtu status ipdu dp =
     (if status \<noteq> 0 then Some (Call_back (if status = ATT_ECODE_ATTR_NOT_FOUND then 0 else status) (dp_primaries dp))
      else do {
        ranges \<leftarrow> dec_find_by_type_resp (Some ipdu) (length ipdu);
        if ranges = [] then Some (Call_back 0 (dp_primaries dp))
        else let dp = dp\<lparr>dp_primaries := dp_primaries dp @ ranges\<rparr>; end = ar_end (last ranges)
             in if end = 0xFFFF then Some (Call_back 0 (dp_primaries dp))
                else if end < dp_start dp then Some (Call_back ATT_ECODE_UNLIKELY (dp_primaries dp))
                else let dp = dp\<lparr>dp_start := end + 1\<rparr>
                     in send_or (Call_back 0 (dp_primaries dp))
                          (encoded mtu (\<lambda>buf. encode (dp_start dp) 0xFFFF (Some (dp_uuid dp)) buf mtu)) dp })"

definition primary_by_uuid_cb ::
  "nat \<Rightarrow> u8 \<Rightarrow> u8 list \<Rightarrow> att_range discover_primary \<Rightarrow> (att_range discover_primary, att_range) reaction option" where
  "primary_by_uuid_cb = by_uuid_cb encode_discover_primary"

definition secondary_by_uuid_cb ::
  "nat \<Rightarrow> u8 \<Rightarrow> u8 list \<Rightarrow> att_range discover_primary \<Rightarrow> (att_range discover_primary, att_range) reaction option" where
  "secondary_by_uuid_cb = by_uuid_cb encode_discover_secondary"

definition service_entry :: "uuid_type \<Rightarrow> u8 list \<Rightarrow> gatt_primary option" where
  "service_entry ty data = do {
     start \<leftarrow> rd16 data 0;
     end \<leftarrow> rd16 data 2;
     uuid \<leftarrow> get_uuid128 ty data 4;
     Some \<lparr>gp_uuid = uuid_text uuid, gp_range = \<lparr>ar_start = start, ar_end = end\<rparr>\<rparr> }"

definition service_type :: "att_data_list \<Rightarrow> uuid_type option" where
  "service_type l = (if al_len l = 6 then Some Short else if al_len l = 20 then Some Long else None)"

text \<open>The end of the last service, zero if there is none.\<close>

definition last_end :: "gatt_primary list \<Rightarrow> u16" where
  "last_end ps = (if ps = [] then 0 else ar_end (gp_range (last ps)))"

definition all_cb ::
  "service_encoder \<Rightarrow> nat \<Rightarrow> u8 \<Rightarrow> u8 list \<Rightarrow> gatt_primary discover_primary \<Rightarrow>
     (gatt_primary discover_primary, gatt_primary) reaction option" where
  "all_cb encode mtu status ipdu dp =
     (if status \<noteq> 0 then Some (Call_back (if status = ATT_ECODE_ATTR_NOT_FOUND then 0 else status) (dp_primaries dp))
      else do {
        list \<leftarrow> dec_read_by_grp_resp ipdu (length ipdu);
        (case list of
           None \<Rightarrow> Some (Call_back ATT_ECODE_IO (dp_primaries dp))
         | Some l \<Rightarrow> (case service_type l of
             None \<Rightarrow> Some (Call_back ATT_ECODE_INVALID_PDU (dp_primaries dp))
           | Some ty \<Rightarrow> do {
               ps \<leftarrow> collect (service_entry ty) (take (unat (al_num l)) (al_data l));
               let dp = dp\<lparr>dp_primaries := dp_primaries dp @ ps\<rparr>;
               let end = last_end ps;
               if end < dp_start dp then Some (Call_back ATT_ECODE_UNLIKELY (dp_primaries dp))
               else let dp = dp\<lparr>dp_start := end + 1\<rparr>
                    in if end \<noteq> 0xFFFF
                       then send_or Stop (encoded mtu (\<lambda>buf. encode (dp_start dp) 0xFFFF None buf mtu)) dp
                       else Some (Call_back 0 (dp_primaries dp)) })) })"

definition primary_all_cb ::
  "nat \<Rightarrow> u8 \<Rightarrow> u8 list \<Rightarrow> gatt_primary discover_primary \<Rightarrow> (gatt_primary discover_primary, gatt_primary) reaction option" where
  "primary_all_cb = all_cb encode_discover_primary"

definition secondary_all_cb ::
  "nat \<Rightarrow> u8 \<Rightarrow> u8 list \<Rightarrow> gatt_primary discover_primary \<Rightarrow> (gatt_primary discover_primary, gatt_primary) reaction option" where
  "secondary_all_cb = all_cb encode_discover_secondary"

text \<open>The first request and the record of the procedure.\<close>

definition discover_services ::
  "service_encoder \<Rightarrow> nat \<Rightarrow> bt_uuid option \<Rightarrow> ('r discover_primary, 'r) reaction option" where
  "discover_services encode mtu uuid =
     send_or Stop (encoded mtu (\<lambda>buf. encode 1 0xFFFF uuid buf mtu))
       \<lparr>dp_uuid = (case uuid of None \<Rightarrow> BT_UUID_UNSPEC | Some u \<Rightarrow> u), dp_start = 1, dp_primaries = []\<rparr>"

definition gatt_discover_primary :: "nat \<Rightarrow> bt_uuid option \<Rightarrow> ('r discover_primary, 'r) reaction option" where
  "gatt_discover_primary = discover_services encode_discover_primary"

definition gatt_discover_secondary :: "nat \<Rightarrow> bt_uuid option \<Rightarrow> ('r discover_primary, 'r) reaction option" where
  "gatt_discover_secondary = discover_services encode_discover_secondary"

section \<open>Characteristics\<close>

record gatt_char =
  gc_uuid :: string
  gc_handle :: u16
  gc_properties :: u8
  gc_value_handle :: u16

record discover_char =
  dc_uuid :: "bt_uuid option"
  dc_start :: u16
  dc_end :: u16
  dc_characteristics :: "gatt_char list"

text \<open>A wanted UUID other than that of the entry: the entry is passed over.\<close>

definition unwanted :: "bt_uuid option \<Rightarrow> bt_uuid \<Rightarrow> bool option" where
  "unwanted want uuid = (case want of
     None \<Rightarrow> Some False
   | Some w \<Rightarrow> do { c \<leftarrow> bt_uuid_cmp w uuid; Some (c \<noteq> 0) })"

text \<open>The loop over the entries, with the last handle seen.\<close>

fun char_entries :: "uuid_type \<Rightarrow> bt_uuid option \<Rightarrow> u8 list list \<Rightarrow> u16 \<Rightarrow> gatt_char list \<Rightarrow> (u16 \<times> gatt_char list) option" where
  "char_entries ty want [] lst cs = Some (lst, cs)"
| "char_entries ty want (value # es) lst cs = do {
     lst \<leftarrow> rd16 value 0;
     uuid \<leftarrow> get_uuid128 ty value 5;
     skip \<leftarrow> unwanted want uuid;
     if skip then char_entries ty want es lst cs
     else do {
       properties \<leftarrow> rd value 2;
       value_handle \<leftarrow> rd16 value 3;
       char_entries ty want es lst (cs @ [\<lparr>gc_uuid = uuid_text uuid, gc_handle = lst, gc_properties = properties,
         gc_value_handle = value_handle\<rparr>]) } }"

definition encode_discover_char :: "u16 \<Rightarrow> u16 \<Rightarrow> u8 list \<Rightarrow> nat \<Rightarrow> enc" where
  "encode_discover_char start end pdu len = enc_read_by_type_req start end (Some (BT_UUID16 GATT_CHARAC_UUID)) pdu len"

definition char_discovered_cb :: "nat \<Rightarrow> u8 \<Rightarrow> u8 list \<Rightarrow> discover_char \<Rightarrow> (discover_char, gatt_char) reaction option" where
  "char_discovered_cb mtu status ipdu dc =
     (if status = ATT_ECODE_ATTR_NOT_FOUND
      then Some (Call_back (if dc_characteristics dc \<noteq> [] then 0 else status) (dc_characteristics dc))
      else if status \<noteq> 0 then Some (Call_back status (dc_characteristics dc))
      else do {
        list \<leftarrow> dec_read_by_type_resp ipdu (length ipdu);
        (case list of
           None \<Rightarrow> Some (Call_back ATT_ECODE_IO (dc_characteristics dc))
         | Some l \<Rightarrow> do {
             (lst, cs) \<leftarrow> char_entries (if al_len l = 7 then Short else Long) (dc_uuid dc)
               (take (unat (al_num l)) (al_data l)) 0 (dc_characteristics dc);
             let dc = dc\<lparr>dc_characteristics := cs\<rparr>;
             if lst < dc_start dc then Some (Call_back ATT_ECODE_UNLIKELY cs)
             else let dc = dc\<lparr>dc_start := lst + 1\<rparr>
                  in if lst \<noteq> 0 \<and> dc_start dc < dc_end dc
                     then send_or Stop (encoded mtu (\<lambda>buf. encode_discover_char (dc_start dc) (dc_end dc) buf mtu)) dc
                     else Some (Call_back 0 cs) }) })"

definition gatt_discover_char ::
  "nat \<Rightarrow> u16 \<Rightarrow> u16 \<Rightarrow> bt_uuid option \<Rightarrow> (discover_char, gatt_char) reaction option" where
  "gatt_discover_char mtu start end uuid =
     send_or Stop (encoded mtu (\<lambda>buf. encode_discover_char start end buf mtu))
       \<lparr>dc_uuid = uuid, dc_start = start, dc_end = end, dc_characteristics = []\<rparr>"

definition gatt_read_char_by_uuid :: "nat \<Rightarrow> u16 \<Rightarrow> u16 \<Rightarrow> bt_uuid option \<Rightarrow> u8 list option" where
  "gatt_read_char_by_uuid mtu start end uuid = encoded mtu (\<lambda>buf. enc_read_by_type_req start end uuid buf mtu)"

section \<open>Descriptors\<close>

record gatt_desc =
  gd_uuid :: string
  gd_handle :: u16
  gd_uuid16 :: u16

record discover_desc =
  dd_uuid :: "bt_uuid option"
  dd_start :: u16
  dd_end :: u16
  dd_descriptors :: "gatt_desc list"

text \<open>The loop over the entries, which ends at a wanted UUID.\<close>

fun desc_entries ::
  "uuid_type \<Rightarrow> bt_uuid option \<Rightarrow> u8 list list \<Rightarrow> u16 \<Rightarrow> gatt_desc list \<Rightarrow> (bool \<times> u16 \<times> gatt_desc list) option" where
  "desc_entries ty want [] lst ds = Some (False, lst, ds)"
| "desc_entries ty want (value # es) lst ds = do {
     lst \<leftarrow> rd16 value 0;
     uuid \<leftarrow> get_uuid128 ty value 2;
     skip \<leftarrow> unwanted want uuid;
     if skip then desc_entries ty want es lst ds
     else do {
       uuid16 \<leftarrow> (if ty = Short then rd16 value 2 else Some 0);
       let ds = ds @ [\<lparr>gd_uuid = uuid_text uuid, gd_handle = lst, gd_uuid16 = uuid16\<rparr>];
       if want \<noteq> None then Some (True, lst, ds) else desc_entries ty want es lst ds } }"

definition desc_discovered_cb :: "nat \<Rightarrow> u8 \<Rightarrow> u8 list \<Rightarrow> discover_desc \<Rightarrow> (discover_desc, gatt_desc) reaction option" where
  "desc_discovered_cb mtu status ipdu dd =
     (if status = ATT_ECODE_ATTR_NOT_FOUND
      then Some (Call_back (if dd_descriptors dd \<noteq> [] then 0 else status) (dd_descriptors dd))
      else if status \<noteq> 0 then Some (Call_back status (dd_descriptors dd))
      else do {
        list \<leftarrow> dec_find_info_resp (Some ipdu) (length ipdu);
        (case list of
           None \<Rightarrow> Some (Call_back ATT_ECODE_IO (dd_descriptors dd))
         | Some (format, l) \<Rightarrow> do {
             (found, lst, ds) \<leftarrow> desc_entries (if format = 0x01 then Short else Long) (dd_uuid dd)
               (take (unat (al_num l)) (al_data l)) 0xFFFF (dd_descriptors dd);
             let dd = dd\<lparr>dd_descriptors := ds\<rparr>;
             if lst < dd_start dd then Some (Call_back ATT_ECODE_UNLIKELY ds)
             else let dd = dd\<lparr>dd_start := lst + 1\<rparr>
                  in if lst < dd_end dd \<and> \<not> found
                     then send_or Stop (encoded mtu (\<lambda>buf. enc_find_info_req (dd_start dd) (dd_end dd) (Some buf) mtu)) dd
                     else Some (Call_back 0 ds) }) })"

definition gatt_discover_desc ::
  "nat \<Rightarrow> u16 \<Rightarrow> u16 \<Rightarrow> bt_uuid option \<Rightarrow> (discover_desc, gatt_desc) reaction option" where
  "gatt_discover_desc mtu start end uuid =
     send_or Stop (encoded mtu (\<lambda>buf. enc_find_info_req start end (Some buf) mtu))
       \<lparr>dd_uuid = uuid, dd_start = start, dd_end = end, dd_descriptors = []\<rparr>"

section \<open>Reading a value\<close>

record read_long_data =
  rl_handle :: u16
  rl_buffer :: "u8 list"
  rl_size :: u16

text \<open>Another request, or the user's function with a status and a PDU and its length.\<close>

datatype 's read_reaction = Read_on "u8 list" 's | Read_done u8 "u8 list" u16

definition gatt_read_char :: "nat \<Rightarrow> u16 \<Rightarrow> read_long_data read_reaction option" where
  "gatt_read_char mtu handle = do {
     req \<leftarrow> encoded mtu (\<lambda>buf. enc_read_req handle (Some buf) mtu);
     Some (Read_on req \<lparr>rl_handle = handle, rl_buffer = [], rl_size = 0\<rparr>) }"

definition ask_blob :: "nat \<Rightarrow> u16 \<Rightarrow> read_long_data \<Rightarrow> read_long_data read_reaction option" where
  "ask_blob mtu offset rl = do {
     req \<leftarrow> encoded mtu (\<lambda>buf. enc_read_blob_req (rl_handle rl) offset (Some buf) mtu);
     Some (Read_on req rl) }"

definition read_char_helper :: "nat \<Rightarrow> u8 \<Rightarrow> u8 list \<Rightarrow> read_long_data \<Rightarrow> read_long_data read_reaction option" where
  "read_char_helper mtu status rpdu rl =
     (let rlen = (of_nat (length rpdu) :: u16)
      in if status \<noteq> 0 \<or> unat rlen < mtu then Some (Read_done status rpdu rlen)
         else ask_blob mtu (rlen - 1) (rl\<lparr>rl_buffer := take (unat rlen) rpdu, rl_size := rlen\<rparr>))"

text \<open>\<open>g_try_realloc\<close> keeps the first \<open>rl_size\<close> bytes.\<close>

definition read_blob_helper :: "nat \<Rightarrow> u8 \<Rightarrow> u8 list \<Rightarrow> read_long_data \<Rightarrow> read_long_data read_reaction option" where
  "read_blob_helper mtu status rpdu rl =
     (let rlen = (of_nat (length rpdu) :: u16)
      in if status \<noteq> 0 \<or> rlen = 1 then Some (Read_done 0 (rl_buffer rl) (rl_size rl))
         else do {
           bytes \<leftarrow> rds rpdu 1 (unat rlen - 1);
           let rl = rl\<lparr>rl_buffer := take (unat (rl_size rl)) (rl_buffer rl) @ bytes, rl_size := rl_size rl + (rlen - 1)\<rparr>;
           if unat rlen < mtu then Some (Read_done 0 (rl_buffer rl) (rl_size rl))
           else ask_blob mtu (rl_size rl - 1) rl })"

section \<open>Writing a value\<close>

record write_long_data =
  wl_handle :: u16
  wl_offset :: u16
  wl_value :: "u8 list"

text \<open>A prepared write, the request that executes all of them, or the user's function.\<close>

datatype write_reaction = Write_on "u8 list" write_long_data | Write_last "u8 list" | Write_failed u8 | Write_refused

definition prepare_write :: "nat \<Rightarrow> write_long_data \<Rightarrow> write_reaction option" where
  "prepare_write mtu wl =
     (let offset = unat (wl_offset wl)
      in if offset > length (wl_value wl) then None
         else do {
           req \<leftarrow> encoded mtu (\<lambda>buf. enc_prep_write_req (wl_handle wl) (wl_offset wl) (drop offset (wl_value wl))
             (length (wl_value wl) - offset) (Some buf) mtu);
           Some (if req = [] then Write_refused else Write_on req wl) })"

definition execute_write :: "nat \<Rightarrow> u8 \<Rightarrow> write_reaction option" where
  "execute_write mtu flags = do {
     req \<leftarrow> encoded mtu (\<lambda>buf. enc_exec_write_req flags (Some buf) mtu);
     Some (if req = [] then Write_refused else Write_last req) }"

text \<open>The header of five bytes of the response is skipped; its offset and value are not compared.\<close>

definition prepare_write_cb :: "nat \<Rightarrow> u8 \<Rightarrow> u8 list \<Rightarrow> write_long_data \<Rightarrow> write_reaction option" where
  "prepare_write_cb mtu status rpdu wl =
     (if status \<noteq> 0 then Some (Write_failed status)
      else let wl = wl\<lparr>wl_offset := wl_offset wl + (of_nat (length rpdu) - 5)\<rparr>
           in if unat (wl_offset wl) = length (wl_value wl) then execute_write mtu 1
              else prepare_write mtu wl)"

definition gatt_write_char :: "nat \<Rightarrow> u16 \<Rightarrow> u8 list \<Rightarrow> write_reaction option" where
  "gatt_write_char mtu handle value =
     (if length value \<le> size_minus mtu 3
      then do {
        req \<leftarrow> encoded mtu (\<lambda>buf. enc_write_req handle value (length value) (Some buf) mtu);
        Some (if req = [] then Write_refused else Write_last req) }
      else prepare_write mtu \<lparr>wl_handle = handle, wl_offset = 0, wl_value = value\<rparr>)"

definition gatt_execute_write :: "nat \<Rightarrow> u8 \<Rightarrow> write_reaction option" where
  "gatt_execute_write = execute_write"

definition gatt_reliable_write_char :: "nat \<Rightarrow> u16 \<Rightarrow> u8 list \<Rightarrow> u8 list option" where
  "gatt_reliable_write_char mtu handle value =
     encoded mtu (\<lambda>buf. enc_prep_write_req handle 0 value (length value) (Some buf) mtu)"

definition gatt_exchange_mtu :: "nat \<Rightarrow> u16 \<Rightarrow> u8 list option" where
  "gatt_exchange_mtu buflen mtu = encoded buflen (\<lambda>buf. enc_mtu_req mtu (Some buf) buflen)"

definition gatt_write_cmd :: "nat \<Rightarrow> u16 \<Rightarrow> u8 list \<Rightarrow> u8 list option" where
  "gatt_write_cmd mtu handle value = encoded mtu (\<lambda>buf. enc_write_cmd handle value (length value) (Some buf) mtu)"

end
