(* ===== verification/Att_Chan.thy ===== *)
theory Att_Chan
  imports Gatt
begin

text \<open>
  src/shared/att.c and attrib/gattrib.c as the GATT printer uses them: one LE channel whose requests
  wait in a queue and go out one at a time, the handling of what arrives, time-outs and the loss of
  the connection.  A callback and its user data are a value of a type of the program; the handlers
  are given the function \<open>run\<close> that performs an operation's callback on the channel and the
  program's own state.  Sockets and timers answer as they like: the result of a write, the security
  level that the socket reports and whether it can be raised are arguments.  No notification
  handlers are registered and no signing keys set; indications are not sent with callbacks by the
  printer but their queue is kept.  Enhanced channels, the registration lists, cancelling, debug
  output and the release of memory are left out.
\<close>

unbundle bit_operations_syntax

section \<open>Operations\<close>

datatype att_op_type = ATT_OP_TYPE_REQ | ATT_OP_TYPE_RSP | ATT_OP_TYPE_CMD | ATT_OP_TYPE_IND | ATT_OP_TYPE_NFY |
  ATT_OP_TYPE_CONF | ATT_OP_TYPE_UNKNOWN

abbreviation (input) "BT_ATT_OP_READ_MULT_REQ \<equiv> (0x0E :: u8)"
abbreviation (input) "BT_ATT_OP_READ_MULT_RSP \<equiv> (0x0F :: u8)"
abbreviation (input) "BT_ATT_OP_HANDLE_NFY_MULT \<equiv> (0x23 :: u8)"

definition att_opcode_type_table :: "(u8 \<times> att_op_type) list" where
  "att_opcode_type_table = [
     (ATT_OP_ERROR, ATT_OP_TYPE_RSP), (ATT_OP_MTU_REQ, ATT_OP_TYPE_REQ), (ATT_OP_MTU_RESP, ATT_OP_TYPE_RSP),
     (ATT_OP_FIND_INFO_REQ, ATT_OP_TYPE_REQ), (ATT_OP_FIND_INFO_RESP, ATT_OP_TYPE_RSP),
     (ATT_OP_FIND_BY_TYPE_REQ, ATT_OP_TYPE_REQ), (ATT_OP_FIND_BY_TYPE_RESP, ATT_OP_TYPE_RSP),
     (ATT_OP_READ_BY_TYPE_REQ, ATT_OP_TYPE_REQ), (ATT_OP_READ_BY_TYPE_RESP, ATT_OP_TYPE_RSP),
     (ATT_OP_READ_REQ, ATT_OP_TYPE_REQ), (ATT_OP_READ_RESP, ATT_OP_TYPE_RSP),
     (ATT_OP_READ_BLOB_REQ, ATT_OP_TYPE_REQ), (ATT_OP_READ_BLOB_RESP, ATT_OP_TYPE_RSP),
     (BT_ATT_OP_READ_MULT_REQ, ATT_OP_TYPE_REQ), (BT_ATT_OP_READ_MULT_RSP, ATT_OP_TYPE_RSP),
     (ATT_OP_READ_BY_GROUP_REQ, ATT_OP_TYPE_REQ), (ATT_OP_READ_BY_GROUP_RESP, ATT_OP_TYPE_RSP),
     (ATT_OP_WRITE_REQ, ATT_OP_TYPE_REQ), (ATT_OP_WRITE_RESP, ATT_OP_TYPE_RSP),
     (ATT_OP_WRITE_CMD, ATT_OP_TYPE_CMD), (ATT_OP_SIGNED_WRITE_CMD, ATT_OP_TYPE_CMD),
     (ATT_OP_PREP_WRITE_REQ, ATT_OP_TYPE_REQ), (ATT_OP_PREP_WRITE_RESP, ATT_OP_TYPE_RSP),
     (ATT_OP_EXEC_WRITE_REQ, ATT_OP_TYPE_REQ), (ATT_OP_EXEC_WRITE_RESP, ATT_OP_TYPE_RSP),
     (ATT_OP_HANDLE_NOTIFY, ATT_OP_TYPE_NFY), (BT_ATT_OP_HANDLE_NFY_MULT, ATT_OP_TYPE_NFY),
     (ATT_OP_HANDLE_IND, ATT_OP_TYPE_IND), (ATT_OP_HANDLE_CNF, ATT_OP_TYPE_CONF)]"

definition get_op_type :: "u8 \<Rightarrow> att_op_type" where
  "get_op_type opcode = (case map_of att_opcode_type_table opcode of
     Some ty \<Rightarrow> ty
   | None \<Rightarrow> if opcode AND 0x40 \<noteq> 0 then ATT_OP_TYPE_CMD else ATT_OP_TYPE_UNKNOWN)"

definition att_rsp_req_table :: "(u8 \<times> u8) list" where
  "att_rsp_req_table = [
     (ATT_OP_MTU_RESP, ATT_OP_MTU_REQ), (ATT_OP_FIND_INFO_RESP, ATT_OP_FIND_INFO_REQ),
     (ATT_OP_FIND_BY_TYPE_RESP, ATT_OP_FIND_BY_TYPE_REQ), (ATT_OP_READ_BY_TYPE_RESP, ATT_OP_READ_BY_TYPE_REQ),
     (ATT_OP_READ_RESP, ATT_OP_READ_REQ), (ATT_OP_READ_BLOB_RESP, ATT_OP_READ_BLOB_REQ),
     (BT_ATT_OP_READ_MULT_RSP, BT_ATT_OP_READ_MULT_REQ), (ATT_OP_READ_BY_GROUP_RESP, ATT_OP_READ_BY_GROUP_REQ),
     (ATT_OP_WRITE_RESP, ATT_OP_WRITE_REQ), (ATT_OP_PREP_WRITE_RESP, ATT_OP_PREP_WRITE_REQ),
     (ATT_OP_EXEC_WRITE_RESP, ATT_OP_EXEC_WRITE_REQ)]"

definition get_req_opcode :: "u8 \<Rightarrow> u8" where
  "get_req_opcode rsp = (case map_of att_rsp_req_table rsp of Some req \<Rightarrow> req | None \<Rightarrow> 0)"

record 'k att_send_op =
  op_id :: u32
  op_type :: att_op_type
  op_opcode :: u8
  op_pdu :: "u8 list"
  op_callback :: "'k option"

text \<open>\<open>attached\<close>: the channel is in the list of channels; \<open>shut\<close>: its socket has been shut down.\<close>

record 'k bt_att =
  attached :: bool
  att_mtu :: u16
  sec_level :: int
  next_send_id :: u32
  req_queue :: "'k att_send_op list"
  ind_queue :: "'k att_send_op list"
  write_queue :: "'k att_send_op list"
  pending_req :: "'k att_send_op option"
  pending_ind :: "'k att_send_op option"
  in_req :: bool
  shut :: bool

text \<open>\<open>bt_att_new\<close> and \<open>bt_att_set_mtu\<close> for an LE channel, whose MTU is the default one at first.\<close>

definition bt_att_new :: "u16 \<Rightarrow> 'k bt_att" where
  "bt_att_new mtu = \<lparr>attached = True, att_mtu = mtu, sec_level = 0, next_send_id = 0, req_queue = [], ind_queue = [],
     write_queue = [], pending_req = None, pending_ind = None, in_req = False, shut = False\<rparr>"

definition bt_att_set_mtu :: "u16 \<Rightarrow> 'k bt_att \<Rightarrow> 'k bt_att option" where
  "bt_att_set_mtu mtu att = (if mtu < 23 then None else Some (att\<lparr>att_mtu := mtu\<rparr>))"

section \<open>Sending\<close>

text \<open>The caller's length is below 65535, so that the length of the PDU does not wrap.\<close>

definition create_att_send_op :: "'k bt_att \<Rightarrow> u8 \<Rightarrow> u8 list \<Rightarrow> 'k option \<Rightarrow> 'k att_send_op option" where
  "create_att_send_op att opcode pdu callback =
     (let ty = get_op_type opcode
      in if ty = ATT_OP_TYPE_UNKNOWN then None
         else if callback \<noteq> None \<and> ty \<noteq> ATT_OP_TYPE_REQ \<and> ty \<noteq> ATT_OP_TYPE_IND then None
         else if callback = None \<and> (ty = ATT_OP_TYPE_REQ \<or> ty = ATT_OP_TYPE_IND) then None
         else if 1 + length pdu > unat (att_mtu att) then None
         else Some \<lparr>op_id = 0, op_type = ty, op_opcode = opcode, op_pdu = opcode # pdu, op_callback = callback\<rparr>)"

definition bt_att_send :: "'k bt_att \<Rightarrow> u8 \<Rightarrow> u8 list \<Rightarrow> 'k option \<Rightarrow> u32 \<times> 'k bt_att" where
  "bt_att_send att opcode pdu callback =
     (if \<not> attached att then (0, att)
      else case create_att_send_op att opcode pdu callback of
        None \<Rightarrow> (0, att)
      | Some op \<Rightarrow>
          let ident = (if next_send_id att < 1 then 1 else next_send_id att);
              att = att\<lparr>next_send_id := ident + 1\<rparr>;
              op = op\<lparr>op_id := ident\<rparr>
          in (ident, (if op_type op = ATT_OP_TYPE_REQ then att\<lparr>req_queue := req_queue att @ [op]\<rparr>
                   else if op_type op = ATT_OP_TYPE_IND then att\<lparr>ind_queue := ind_queue att @ [op]\<rparr>
                   else att\<lparr>write_queue := write_queue att @ [op]\<rparr>)))"

definition bt_att_resend :: "'k bt_att \<Rightarrow> u32 \<Rightarrow> u8 \<Rightarrow> u8 list \<Rightarrow> 'k option \<Rightarrow> int \<times> 'k bt_att" where
  "bt_att_resend att ident opcode pdu callback =
     (if ident = 0 then (-22, att)
      else if \<not> (attached att \<and> (case pending_req att of None \<Rightarrow> False | Some op \<Rightarrow> op_id op = ident)) then (-2, att)
      else if get_op_type opcode \<noteq> ATT_OP_TYPE_REQ then (-95, att)
      else case create_att_send_op att opcode pdu callback of
        None \<Rightarrow> (-12, att)
      | Some op \<Rightarrow>
          let op = op\<lparr>op_id := ident\<rparr>
          in (0, if opcode = ATT_OP_READ_BLOB_REQ \<or> opcode = ATT_OP_PREP_WRITE_REQ \<or> opcode = ATT_OP_EXEC_WRITE_REQ
                 then att\<lparr>req_queue := op # req_queue att\<rparr>
                 else att\<lparr>req_queue := req_queue att @ [op]\<rparr>))"

definition g_attrib_send :: "'k bt_att \<Rightarrow> u32 \<Rightarrow> u8 list \<Rightarrow> 'k option \<Rightarrow> u32 \<times> 'k bt_att" where
  "g_attrib_send att ident pdu callback = (case pdu of
     [] \<Rightarrow> (0, att)
   | opcode # rest \<Rightarrow>
       if ident = 0 then bt_att_send att opcode rest callback
       else case bt_att_resend att ident opcode rest callback of (err, att) \<Rightarrow> (if err \<noteq> 0 then 0 else ident, att))"

section \<open>Writing to the socket\<close>

definition pick_next_send_op :: "'k bt_att \<Rightarrow> ('k att_send_op \<times> 'k bt_att) option" where
  "pick_next_send_op att =
     (if write_queue att \<noteq> [] \<and> length (op_pdu (hd (write_queue att))) \<le> unat (att_mtu att)
      then Some (hd (write_queue att), att\<lparr>write_queue := tl (write_queue att)\<rparr>)
      else if pending_req att = None \<and> req_queue att \<noteq> [] \<and> length (op_pdu (hd (req_queue att))) \<le> unat (att_mtu att)
      then Some (hd (req_queue att), att\<lparr>req_queue := tl (req_queue att)\<rparr>)
      else if pending_ind att = None \<and> ind_queue att \<noteq> [] \<and> length (op_pdu (hd (ind_queue att))) \<le> unat (att_mtu att)
      then Some (hd (ind_queue att), att\<lparr>ind_queue := tl (ind_queue att)\<rparr>)
      else None)"

type_synonym ('k, 'w) runner = "'k att_send_op \<Rightarrow> u8 \<Rightarrow> u8 list \<Rightarrow> 'k bt_att \<times> 'w \<Rightarrow> ('k bt_att \<times> 'w) option"

definition call :: "('k, 'w) runner \<Rightarrow> 'k att_send_op \<Rightarrow> u8 \<Rightarrow> u8 list \<Rightarrow> 'k bt_att \<times> 'w \<Rightarrow> ('k bt_att \<times> 'w) option" where
  "call run op opcode pdu st = (if op_callback op = None then Some st else run op opcode pdu st)"

text \<open>
  \<open>ret\<close> is what the write returns; only zero is taken for a failure.  The PDU given to the socket is
  returned with the state.
\<close>

definition can_write_data :: "('k, 'w) runner \<Rightarrow> int \<Rightarrow> 'k bt_att \<times> 'w \<Rightarrow> (u8 list option \<times> 'k bt_att \<times> 'w) option" where
  "can_write_data run ret = (\<lambda>(att, w). case pick_next_send_op att of
     None \<Rightarrow> Some (None, att, w)
   | Some (op, att) \<Rightarrow>
       if ret = 0 then do { st \<leftarrow> call run op ATT_OP_ERROR [] (att, w); Some (None, st) }
       else Some (Some (op_pdu op),
         (case op_type op of
            ATT_OP_TYPE_REQ \<Rightarrow> att\<lparr>pending_req := Some op\<rparr>
          | ATT_OP_TYPE_IND \<Rightarrow> att\<lparr>pending_ind := Some op\<rparr>
          | ATT_OP_TYPE_RSP \<Rightarrow> att\<lparr>in_req := False\<rparr>
          | _ \<Rightarrow> att), w))"

section \<open>Responses\<close>

definition change_security :: "int \<Rightarrow> bool \<Rightarrow> 'k bt_att \<Rightarrow> u8 \<Rightarrow> bool" where
  "change_security level raised att ecode =
     (if sec_level att \<noteq> 0 then False
      else if ecode = ATT_ECODE_INSUFF_ENC \<and> level < 2 then raised
      else if ecode = ATT_ECODE_AUTHENTICATION then (if level < 2 \<or> level < 3 \<or> level < 4 then raised else False)
      else False)"

text \<open>Whether the request is tried again, and the opcode that the response names.\<close>

definition handle_error_rsp :: "int \<Rightarrow> bool \<Rightarrow> 'k att_send_op \<Rightarrow> u8 list \<Rightarrow> 'k bt_att \<Rightarrow> bool \<times> u8 \<times> 'k bt_att" where
  "handle_error_rsp level raised op pdu att =
     (if length pdu \<noteq> 4 then (False, 0, att)
      else if \<not> change_security level raised att (pdu ! 3) then (False, pdu ! 0, att)
      else (True, pdu ! 0, att\<lparr>pending_req := None, req_queue := op # req_queue att\<rparr>))"

text \<open>The callback runs while the request is still pending.\<close>

definition end_request :: "('k, 'w) runner \<Rightarrow> 'k att_send_op \<Rightarrow> u8 \<Rightarrow> u8 list \<Rightarrow> 'k bt_att \<times> 'w \<Rightarrow> ('k bt_att \<times> 'w) option" where
  "end_request run op opcode pdu st = do {
     (att, w) \<leftarrow> call run op opcode pdu st;
     Some (att\<lparr>pending_req := None\<rparr>, w) }"

definition handle_rsp :: "('k, 'w) runner \<Rightarrow> int \<Rightarrow> bool \<Rightarrow> u8 \<Rightarrow> u8 list \<Rightarrow> 'k bt_att \<times> 'w \<Rightarrow> ('k bt_att \<times> 'w) option" where
  "handle_rsp run level raised opcode pdu = (\<lambda>(att, w). case pending_req att of
     None \<Rightarrow> Some (att\<lparr>shut := True\<rparr>, w)
   | Some op \<Rightarrow>
       if opcode = ATT_OP_ERROR
       then (case handle_error_rsp level raised op pdu att of
               (retry, req, att) \<Rightarrow>
                 if retry then Some (att, w)
                 else if req \<noteq> op_opcode op then end_request run op ATT_OP_ERROR [] (att, w)
                 else end_request run op opcode pdu (att, w))
       else if get_req_opcode opcode = 0 \<or> get_req_opcode opcode \<noteq> op_opcode op
       then end_request run op ATT_OP_ERROR [] (att, w)
       else end_request run op opcode pdu (att, w))"

definition handle_conf :: "('k, 'w) runner \<Rightarrow> u8 list \<Rightarrow> 'k bt_att \<times> 'w \<Rightarrow> ('k bt_att \<times> 'w) option" where
  "handle_conf run pdu = (\<lambda>(att, w). case pending_ind att of
     None \<Rightarrow> Some (att\<lparr>shut := True\<rparr>, w)
   | Some op \<Rightarrow>
       if pdu \<noteq> [] then Some (att\<lparr>shut := True\<rparr>, w)
       else do { (att, w) \<leftarrow> call run op ATT_OP_HANDLE_CNF [] (att, w); Some (att\<lparr>pending_ind := None\<rparr>, w) })"

section \<open>Everything else that arrives\<close>

definition respond_not_supported :: "u8 \<Rightarrow> 'k bt_att \<Rightarrow> 'k bt_att" where
  "respond_not_supported opcode att = snd (bt_att_send att ATT_OP_ERROR [opcode, 0, 0, ATT_ECODE_REQ_NOT_SUPP] None)"

text \<open>No handler is registered.\<close>

definition handle_notify :: "u8 \<Rightarrow> 'k bt_att \<Rightarrow> 'k bt_att" where
  "handle_notify opcode att = (if get_op_type opcode \<noteq> ATT_OP_TYPE_CMD then respond_not_supported opcode att else att)"

definition can_read_data :: "('k, 'w) runner \<Rightarrow> int \<Rightarrow> bool \<Rightarrow> u8 list \<Rightarrow> 'k bt_att \<times> 'w \<Rightarrow> ('k bt_att \<times> 'w) option" where
  "can_read_data run level raised packet = (\<lambda>(att, w). case take (unat (att_mtu att)) packet of
     [] \<Rightarrow> Some (att, w)
   | opcode # pdu \<Rightarrow>
       (case get_op_type opcode of
          ATT_OP_TYPE_RSP \<Rightarrow> handle_rsp run level raised opcode pdu (att, w)
        | ATT_OP_TYPE_CONF \<Rightarrow> handle_conf run pdu (att, w)
        | ATT_OP_TYPE_REQ \<Rightarrow>
            if in_req att then Some (att\<lparr>shut := True\<rparr>, w)
            else Some (handle_notify opcode (att\<lparr>in_req := True\<rparr>), w)
        | _ \<Rightarrow> Some (handle_notify opcode att, w)))"

section \<open>Time-outs and the loss of the connection\<close>

definition timeout_cb :: "('k, 'w) runner \<Rightarrow> u32 \<Rightarrow> 'k bt_att \<times> 'w \<Rightarrow> ('k bt_att \<times> 'w) option" where
  "timeout_cb run ident = (\<lambda>(att, w).
     let hit = (\<lambda>p. case p of Some op \<Rightarrow> op_id op = ident | None \<Rightarrow> False)
     in (case (if hit (pending_req att) then (pending_req att, att\<lparr>pending_req := None\<rparr>)
               else if hit (pending_ind att) then (pending_ind att, att\<lparr>pending_ind := None\<rparr>)
               else (None, att)) of
           (None, att) \<Rightarrow> Some (att, w)
         | (Some op, att) \<Rightarrow> do {
             (att, w) \<leftarrow> call run op ATT_OP_ERROR [] (att, w);
             Some (att\<lparr>shut := True\<rparr>, w) }))"

fun disc_att_send_ops :: "('k, 'w) runner \<Rightarrow> 'k att_send_op list \<Rightarrow> 'k bt_att \<times> 'w \<Rightarrow> ('k bt_att \<times> 'w) option" where
  "disc_att_send_ops run [] st = Some st"
| "disc_att_send_ops run (op # ops) st = do { st \<leftarrow> call run op ATT_OP_ERROR [] st; disc_att_send_ops run ops st }"

definition pending_ops :: "'k att_send_op option \<Rightarrow> 'k att_send_op list" where
  "pending_ops p = (case p of None \<Rightarrow> [] | Some op \<Rightarrow> [op])"

text \<open>Each queue is emptied before the callbacks of its operations run.\<close>

definition disconnect_cb :: "('k, 'w) runner \<Rightarrow> 'k bt_att \<times> 'w \<Rightarrow> ('k bt_att \<times> 'w) option" where
  "disconnect_cb run = (\<lambda>(att, w). do {
     (att, w) \<leftarrow> disc_att_send_ops run (pending_ops (pending_req att)) (att\<lparr>attached := False\<rparr>, w);
     (att, w) \<leftarrow> disc_att_send_ops run (pending_ops (pending_ind att)) (att\<lparr>pending_req := None\<rparr>, w);
     (att, w) \<leftarrow> disc_att_send_ops run (req_queue att) (att\<lparr>pending_ind := None, req_queue := []\<rparr>, w);
     (att, w) \<leftarrow> disc_att_send_ops run (ind_queue att) (att\<lparr>ind_queue := []\<rparr>, w);
     disc_att_send_ops run (write_queue att) (att\<lparr>write_queue := []\<rparr>, w) })"

section \<open>The wrapper of the callbacks\<close>

definition construct_full_pdu :: "u8 \<Rightarrow> u8 list \<Rightarrow> u8 list" where
  "construct_full_pdu opcode pdu = opcode # pdu"

text \<open>The status and the PDU that the user's function is given.\<close>

definition attrib_callback_result :: "u8 \<Rightarrow> u8 list \<Rightarrow> u8 \<times> u8 list" where
  "attrib_callback_result opcode pdu =
     ((if opcode = ATT_OP_ERROR then (if length pdu < 4 then ATT_ECODE_UNLIKELY else pdu ! 3) else 0),
      construct_full_pdu opcode pdu)"

end
