(* ===== verification/Gatttool.thy ===== *)
theory Gatttool
  imports Att_Chan
begin

text \<open>
  attrib/gatttool.c: the GATT printer.  After the connection it starts the discovery of primary
  services, of secondary services, of characteristics and of descriptors at once, which take turns
  on the channel; it reads the value of every characteristic that says it can be read, appends what
  it finds to the log and ends its main loop when the last descriptor is the last handle it expects.
  The lines of the log are values; \<open>line_text\<close> is how they are written.  What is written to the
  terminal besides, the options and the location of the log are left out.
\<close>

unbundle bit_operations_syntax

section \<open>The log\<close>

datatype log_line =
  PSERVICE u16 u16 string
| SSERVICE u16 u16 string
| CHARACTERISTIC u16 u8 u16 string
| CHAR_VALUE u16 "u8 list"
| DESCRIPTORS u16 string

text \<open>Quoted fields with commas between them.\<close>

definition quoted :: "string \<Rightarrow> string" where
  "quoted s = [CHR 0x22] @ s @ [CHR 0x22]"

fun csv :: "string list \<Rightarrow> string" where
  "csv [] = [CHR 0x0A]"
| "csv [f] = quoted f @ [CHR 0x0A]"
| "csv (f # fs) = quoted f @ '','' @ csv fs"

definition hex16 :: "u16 \<Rightarrow> string" where
  "hex16 h = ''0x'' @ hex 4 (unat h)"

definition hex_bytes :: "u8 list \<Rightarrow> string" where
  "hex_bytes bs = concat (map (\<lambda>b. hex 2 (unat b)) bs)"

definition line_text :: "string \<Rightarrow> string \<Rightarrow> log_line \<Rightarrow> string" where
  "line_text dst_type dst line = csv (case line of
     PSERVICE s e u \<Rightarrow> [''GATTPRINT:PSERVICE'', dst_type, dst, hex16 s, hex16 e, u]
   | SSERVICE s e u \<Rightarrow> [''GATTPRINT:SSERVICE'', dst_type, dst, hex16 s, hex16 e, u]
   | CHARACTERISTIC h p v u \<Rightarrow> [''GATTPRINT:CHARACTERISTIC'', dst_type, dst, hex16 h, ''0x'' @ hex 2 (unat p), hex16 v, u]
   | CHAR_VALUE h bs \<Rightarrow> [''GATTPRINT:CHAR_VALUE'', dst_type, dst, hex16 h, hex_bytes bs]
   | DESCRIPTORS h u \<Rightarrow> [''GATTPRINT:DESCRIPTORS'', dst_type, dst, hex16 h, u])"

section \<open>State\<close>

text \<open>
  The callbacks that are passed to \<open>g_attrib_send\<close> with their user data; a read knows the place of
  its handle in \<open>char_value_handles_to_read\<close>.
\<close>

datatype procedure =
  Primaries "gatt_primary discover_primary"
| Secondaries "gatt_primary discover_primary"
| Characteristics discover_char
| Descriptors discover_desc
| Read_char nat read_long_data
| Read_blob nat read_long_data

record printer =
  g_log :: "log_line list"
  g_max_handle :: u16
  char_value_handles_to_read :: "u16 list"
  num_char_value_handles :: nat
  loop_quit :: bool
  got_error :: bool

type_synonym session = "procedure bt_att \<times> printer"

definition printer_init :: printer where
  "printer_init = \<lparr>g_log = [], g_max_handle = 0xFFFF, char_value_handles_to_read = replicate 512 0,
     num_char_value_handles = 0, loop_quit = False, got_error = False\<rparr>"

definition buffer_len :: "'k bt_att \<Rightarrow> nat" where
  "buffer_len att = unat (att_mtu att)"

definition log_lines :: "log_line list \<Rightarrow> printer \<Rightarrow> printer" where
  "log_lines ls w = w\<lparr>g_log := g_log w @ ls\<rparr>"

section \<open>The callbacks of the procedures\<close>

definition print_services :: "(u16 \<Rightarrow> u16 \<Rightarrow> string \<Rightarrow> log_line) \<Rightarrow> u8 \<Rightarrow> gatt_primary list \<Rightarrow> session \<Rightarrow> session option" where
  "print_services line status services = (\<lambda>(att, w).
     if status \<noteq> 0 \<or> services = [] then Some (att, w)
     else Some (att, (log_lines (map (\<lambda>p. line (ar_start (gp_range p)) (ar_end (gp_range p)) (gp_uuid p)) services) w)
       \<lparr>g_max_handle := ar_end (gp_range (last services))\<rparr>))"

definition gatttool_primary_all_cb :: "u8 \<Rightarrow> gatt_primary list \<Rightarrow> session \<Rightarrow> session option" where
  "gatttool_primary_all_cb = print_services PSERVICE"

definition gatttool_secondary_all_cb :: "u8 \<Rightarrow> gatt_primary list \<Rightarrow> session \<Rightarrow> session option" where
  "gatttool_secondary_all_cb = print_services SSERVICE"

text \<open>\<open>gatt_read_char\<close> with the next place of \<open>char_value_handles_to_read\<close>; no place is left after 512.\<close>

definition start_read :: "u16 \<Rightarrow> session \<Rightarrow> session option" where
  "start_read handle = (\<lambda>(att, w).
     let i = num_char_value_handles w
     in if i \<ge> length (char_value_handles_to_read w) then None
        else do {
          r \<leftarrow> gatt_read_char (buffer_len att) handle;
          let att = (case r of Read_on req rl \<Rightarrow> snd (g_attrib_send att 0 req (Some (Read_char i rl))) | Read_done _ _ _ \<Rightarrow> att);
          Some (att, w\<lparr>char_value_handles_to_read := (char_value_handles_to_read w)[i := handle],
                       num_char_value_handles := i + 1\<rparr>) })"

fun print_characteristics :: "gatt_char list \<Rightarrow> session \<Rightarrow> session option" where
  "print_characteristics [] st = Some st"
| "print_characteristics (c # cs) (att, w) = do {
     let w = log_lines [CHARACTERISTIC (gc_handle c) (gc_properties c) (gc_value_handle c) (gc_uuid c)] w;
     st \<leftarrow> (if gc_properties c AND 0x2 = 0x2 then start_read (gc_value_handle c) (att, w) else Some (att, w));
     print_characteristics cs st }"

definition gatttool_char_discovered_cb :: "u8 \<Rightarrow> gatt_char list \<Rightarrow> session \<Rightarrow> session option" where
  "gatttool_char_discovered_cb status cs st =
     (if status \<noteq> 0 then Some st
      else do {
        (att, w) \<leftarrow> print_characteristics cs st;
        Some (att, if g_max_handle w = 0xFFFF
                   then w\<lparr>g_max_handle := (if cs = [] then 0 else gc_value_handle (last cs))\<rparr> else w) })"

definition char_read_cb :: "u8 \<Rightarrow> u8 list \<Rightarrow> u16 \<Rightarrow> nat \<Rightarrow> session \<Rightarrow> session option" where
  "char_read_cb status pdu plen i = (\<lambda>(att, w).
     if status \<noteq> 0 then Some (att, w)
     else do {
       (vlen, buf) \<leftarrow> dec_read_resp (Some pdu) (unat plen) (Some (replicate (unat plen) 0)) (unat plen);
       (case buf of
          None \<Rightarrow> None
        | Some bytes \<Rightarrow>
            if vlen < 0 then Some (att, w)
            else if i \<ge> length (char_value_handles_to_read w) then None
            else Some (att, log_lines [CHAR_VALUE (char_value_handles_to_read w ! i) (take (nat vlen) bytes)] w)) })"

text \<open>After the loop \<open>desc\<close> is the last descriptor, and not initialised if there is none.\<close>

definition char_desc_cb :: "u8 \<Rightarrow> gatt_desc list \<Rightarrow> session \<Rightarrow> session option" where
  "char_desc_cb status ds = (\<lambda>(att, w).
     let w = (if status \<noteq> 0 then w\<lparr>loop_quit := True\<rparr> else w);
         w = log_lines (map (\<lambda>d. DESCRIPTORS (gd_handle d) (gd_uuid d)) ds) w
     in if ds = [] then None
        else Some (att, if gd_handle (last ds) = g_max_handle w then w\<lparr>loop_quit := True\<rparr> else w))"

section \<open>Running a callback\<close>

text \<open>What a procedure's reaction does: the next request is sent under the id of the first one.\<close>

definition react :: "u32 \<Rightarrow> ('s \<Rightarrow> procedure) \<Rightarrow> (u8 \<Rightarrow> 'r list \<Rightarrow> session \<Rightarrow> session option) \<Rightarrow>
    ('s, 'r) reaction \<Rightarrow> session \<Rightarrow> session option" where
  "react ident k user r = (\<lambda>(att, w). case r of
     Send req s \<Rightarrow> Some (snd (g_attrib_send att ident req (Some (k s))), w)
   | Call_back status rs \<Rightarrow> user status rs (att, w)
   | Stop \<Rightarrow> Some (att, w))"

text \<open>A request that cannot be sent ends a read with an error and with what \<open>own\<close> gives of its record.\<close>

definition react_read ::
  "u32 \<Rightarrow> nat \<Rightarrow> (read_long_data \<Rightarrow> u8 list \<times> u16) \<Rightarrow> read_long_data read_reaction \<Rightarrow> session \<Rightarrow> session option" where
  "react_read ident i own r = (\<lambda>(att, w). case r of
     Read_on req rl \<Rightarrow>
       (case g_attrib_send att ident req (Some (Read_blob i rl)) of
          (sent, att) \<Rightarrow>
            if sent = 0 then (case own rl of (pdu, plen) \<Rightarrow> char_read_cb ATT_ECODE_IO pdu plen i (att, w)) else Some (att, w))
   | Read_done status pdu plen \<Rightarrow> char_read_cb status pdu plen i (att, w))"

definition run_procedure :: "(procedure, printer) runner" where
  "run_procedure op opcode rsp = (\<lambda>(att, w).
     let mtu = buffer_len att;
         ident = op_id op;
         (status, pdu) = attrib_callback_result opcode rsp
     in (case op_callback op of
           None \<Rightarrow> Some (att, w)
         | Some (Primaries dp) \<Rightarrow> do {
             r \<leftarrow> primary_all_cb mtu status pdu dp;
             react ident Primaries gatttool_primary_all_cb r (att, w) }
         | Some (Secondaries dp) \<Rightarrow> do {
             r \<leftarrow> secondary_all_cb mtu status pdu dp;
             react ident Secondaries gatttool_secondary_all_cb r (att, w) }
         | Some (Characteristics dc) \<Rightarrow> do {
             r \<leftarrow> char_discovered_cb mtu status pdu dc;
             react ident Characteristics gatttool_char_discovered_cb r (att, w) }
         | Some (Descriptors dd) \<Rightarrow> do {
             r \<leftarrow> desc_discovered_cb mtu status pdu dd;
             react ident Descriptors char_desc_cb r (att, w) }
         | Some (Read_char i rl) \<Rightarrow> do {
             r \<leftarrow> read_char_helper mtu status pdu rl;
             react_read ident i (\<lambda>rl. (pdu, of_nat (length pdu))) r (att, w) }
         | Some (Read_blob i rl) \<Rightarrow> do {
             r \<leftarrow> read_blob_helper mtu status pdu rl;
             react_read ident i (\<lambda>rl. (rl_buffer rl, rl_size rl)) r (att, w) }))"

section \<open>The program\<close>

text \<open>The first request of a procedure.\<close>

definition start_procedure :: "('s \<Rightarrow> procedure) \<Rightarrow> ('s, 'r) reaction option \<Rightarrow> session \<Rightarrow> session option" where
  "start_procedure k r = (\<lambda>(att, w). do {
     r \<leftarrow> r;
     Some (case r of Send req s \<Rightarrow> (snd (g_attrib_send att 0 req (Some (k s))), w) | _ \<Rightarrow> (att, w)) })"

definition primary :: "session \<Rightarrow> session option" where
  "primary st = start_procedure Primaries
     (gatt_discover_primary (buffer_len (fst st)) None :: (gatt_primary discover_primary, gatt_primary) reaction option) st"

definition secondary :: "session \<Rightarrow> session option" where
  "secondary st = start_procedure Secondaries
     (gatt_discover_secondary (buffer_len (fst st)) None :: (gatt_primary discover_primary, gatt_primary) reaction option) st"

definition characteristics :: "session \<Rightarrow> session option" where
  "characteristics st = start_procedure Characteristics (gatt_discover_char (buffer_len (fst st)) 0x0001 0xFFFF None) st"

definition characteristics_desc :: "session \<Rightarrow> session option" where
  "characteristics_desc st = start_procedure Descriptors (gatt_discover_desc (buffer_len (fst st)) 0x0001 0xFFFF None) st"

text \<open>
  \<open>mtu\<close> and \<open>cid\<close> are what the socket reports, \<open>mtu\<close> being \<open>None\<close> if that fails; without an
  attribute channel (an MTU below 23) the program uses a null pointer.  The channel made here is the
  LE one, CID 4; for other channels \<open>bt_att_new\<close> starts from an MTU of the socket, which is not modelled.
\<close>

definition connect_cb :: "bool \<Rightarrow> u16 option \<Rightarrow> u16 \<Rightarrow> printer \<Rightarrow> session option" where
  "connect_cb err mtu cid w =
     (let w = (if err then w\<lparr>got_error := True, loop_quit := True\<rparr> else w);
          mtu = (if cid = 4 then 23 else case mtu of None \<Rightarrow> 23 | Some m \<Rightarrow> m)
      in do {
        att \<leftarrow> bt_att_set_mtu mtu (bt_att_new 23);
        st \<leftarrow> primary (att, w);
        st \<leftarrow> secondary st;
        st \<leftarrow> characteristics st;
        characteristics_desc st })"

text \<open>What the main loop dispatches, until one of the callbacks ends it.\<close>

datatype event = Writable int | Readable int bool "u8 list" | Timed_out u32 | Hung_up

definition dispatch :: "event \<Rightarrow> session \<Rightarrow> session option" where
  "dispatch ev st = (case ev of
     Writable ret \<Rightarrow> map_option snd (can_write_data run_procedure ret st)
   | Readable level raised packet \<Rightarrow> can_read_data run_procedure level raised packet st
   | Timed_out ident \<Rightarrow> timeout_cb run_procedure ident st
   | Hung_up \<Rightarrow> disconnect_cb run_procedure st)"

fun main_loop :: "event list \<Rightarrow> session \<Rightarrow> session option" where
  "main_loop [] st = Some st"
| "main_loop (ev # evs) st = (if loop_quit (snd st) then Some st else do { st \<leftarrow> dispatch ev st; main_loop evs st })"

end
