(* ===== verification/Att_Chan_Props.thy ===== *)
theory Att_Chan_Props
  imports Att_Chan
begin

text \<open>
  What the channel promises its client: \<open>channel_client\<close> is the contract of a client's callbacks
  under which every event keeps the client's invariant, whatever the other side sends.
\<close>

unbundle bit_operations_syntax

section \<open>The callbacks that a channel holds\<close>

definition all_ops :: "'k bt_att \<Rightarrow> 'k att_send_op set" where
  "all_ops att = set (req_queue att) \<union> set (ind_queue att) \<union> set (write_queue att) \<union>
     set (pending_ops (pending_req att)) \<union> set (pending_ops (pending_ind att))"

definition callbacks :: "'k bt_att \<Rightarrow> 'k set" where
  "callbacks att = {k. \<exists>op\<in>all_ops att. op_callback op = Some k}"

lemma pending_ops_simps [simp]: "pending_ops None = []" "pending_ops (Some op) = [op]"
  by (simp_all add: pending_ops_def)

lemma callbacks_mono: "all_ops att \<subseteq> all_ops att' \<Longrightarrow> callbacks att \<subseteq> callbacks att'"
  by (auto simp: callbacks_def)

lemma callbacksI: "op \<in> all_ops att \<Longrightarrow> op_callback op = Some k \<Longrightarrow> k \<in> callbacks att"
  by (auto simp: callbacks_def)

lemma callbacks_flags [simp]: "callbacks (att\<lparr>shut := b\<rparr>) = callbacks att" "callbacks (att\<lparr>in_req := b\<rparr>) = callbacks att"
  by (simp_all add: callbacks_def all_ops_def)

lemma callbacks_no_pending: "callbacks (att\<lparr>pending_req := None\<rparr>) \<subseteq> callbacks att" "callbacks (att\<lparr>pending_ind := None\<rparr>) \<subseteq> callbacks att"
  by (auto simp: callbacks_def all_ops_def)

text \<open>A new operation carries the callback it was made with.\<close>

lemma create_op_callback:
  "create_att_send_op att opcode pdu cb = Some op \<Longrightarrow> op_callback op = cb"
  by (auto simp: create_att_send_op_def Let_def split: if_splits)

lemma bt_att_send_callbacks:
  "callbacks (snd (bt_att_send att opcode pdu cb)) \<subseteq> callbacks att \<union> {k. cb = Some k}"
  by (auto simp: bt_att_send_def Let_def callbacks_def all_ops_def split: option.splits dest: create_op_callback)

lemma bt_att_resend_callbacks:
  "callbacks (snd (bt_att_resend att ident opcode pdu cb)) \<subseteq> callbacks att \<union> {k. cb = Some k}"
  by (auto simp: bt_att_resend_def Let_def callbacks_def all_ops_def split: option.splits dest: create_op_callback)

lemma g_attrib_send_callbacks:
  "callbacks (snd (g_attrib_send att ident pdu cb)) \<subseteq> callbacks att \<union> {k. cb = Some k}"
  using bt_att_send_callbacks [of att "hd pdu" "tl pdu" cb] bt_att_resend_callbacks [of att ident "hd pdu" "tl pdu" cb]
  by (auto simp: g_attrib_send_def split: list.splits prod.splits)

lemma handle_notify_callbacks: "callbacks (handle_notify opcode att) \<subseteq> callbacks att"
  using bt_att_send_callbacks [of att ATT_OP_ERROR "[opcode, 0, 0, ATT_ECODE_REQ_NOT_SUPP]" None]
  by (auto simp: handle_notify_def respond_not_supported_def)

lemma pick_next_ops:
  assumes "pick_next_send_op att = Some (op, att')"
  shows "op \<in> all_ops att" "all_ops att' \<subseteq> all_ops att"
proof -
  have "set (tl q) \<subseteq> set q" "q \<noteq> [] \<Longrightarrow> hd q \<in> set q" for q :: "'a att_send_op list"
    by (cases q; auto)+
  then show "op \<in> all_ops att" "all_ops att' \<subseteq> all_ops att"
    using assms by (auto simp: pick_next_send_op_def all_ops_def split: if_splits dest: list.set_sel(2))
qed

section \<open>The contract of a client\<close>

locale channel_client =
  fixes run :: "('k, 'w) runner"
    and winv :: "'w \<Rightarrow> bool"
    and good :: "'w \<Rightarrow> 'k \<Rightarrow> bool"
  assumes run_keeps: "winv w \<Longrightarrow> \<forall>k\<in>callbacks att. good w k \<Longrightarrow> op_callback op = Some k \<Longrightarrow> good w k \<Longrightarrow>
    run op opcode pdu (att, w) = Some (att', w') \<Longrightarrow>
    winv w' \<and> (\<forall>k\<in>callbacks att'. good w' k) \<and> (\<forall>k. good w k \<longrightarrow> good w' k)"
begin

definition holds :: "'k bt_att \<times> 'w \<Rightarrow> bool" where
  "holds st \<longleftrightarrow> winv (snd st) \<and> (\<forall>k\<in>callbacks (fst st). good (snd st) k)"

lemma holds_fewer: "holds (att, w) \<Longrightarrow> callbacks att' \<subseteq> callbacks att \<Longrightarrow> holds (att', w)"
  by (auto simp: holds_def)

lemma call_keeps:
  assumes "holds (att, w)" "\<forall>k. op_callback op = Some k \<longrightarrow> good w k" "call run op opcode pdu (att, w) = Some (att', w')"
  shows "holds (att', w')" "\<forall>k. good w k \<longrightarrow> good w' k"
proof -
  have "holds (att', w') \<and> (\<forall>k. good w k \<longrightarrow> good w' k)"
  proof (cases "op_callback op")
    case (Some k)
    then show ?thesis
      using run_keeps [of w att op k opcode pdu att' w'] assms by (simp add: holds_def call_def)
  qed (use assms in \<open>simp add: call_def\<close>)
  then show "holds (att', w')" "\<forall>k. good w k \<longrightarrow> good w' k"
    by simp_all
qed

lemma op_good: "holds (att, w) \<Longrightarrow> op \<in> all_ops att \<Longrightarrow> \<forall>k. op_callback op = Some k \<longrightarrow> good w k"
  using callbacksI by (fastforce simp: holds_def)

lemma can_write_keeps:
  assumes "holds (att, w)" "can_write_data run ret (att, w) = Some (sent, st)"
  shows "holds st"
proof (cases "pick_next_send_op att")
  case None
  then show ?thesis
    using assms by (simp add: can_write_data_def)
next
  case (Some p)
  then obtain op att1 where p: "pick_next_send_op att = Some (op, att1)"
    by (cases p) simp
  note ops = pick_next_ops [OF p]
  have att1: "holds (att1, w)"
    using holds_fewer [OF assms(1) callbacks_mono [OF ops(2)]] .
  show ?thesis
  proof (cases "ret = 0")
    case True
    then obtain att2 w2 where st: "st = (att2, w2)" "call run op ATT_OP_ERROR [] (att1, w) = Some (att2, w2)"
      using assms(2) p by (cases st) (auto simp: can_write_data_def split: bind_splits)
    then show ?thesis
      using call_keeps(1) [OF att1 op_good [OF assms(1) ops(1)]] by simp
  next
    case False
    define att2 where "att2 = (case op_type op of ATT_OP_TYPE_REQ \<Rightarrow> att1\<lparr>pending_req := Some op\<rparr>
      | ATT_OP_TYPE_IND \<Rightarrow> att1\<lparr>pending_ind := Some op\<rparr> | ATT_OP_TYPE_RSP \<Rightarrow> att1\<lparr>in_req := False\<rparr> | _ \<Rightarrow> att1)"
    have "st = (att2, w)"
      using assms(2) p False by (simp add: can_write_data_def att2_def)
    moreover have "all_ops att2 \<subseteq> all_ops att1 \<union> {op}"
      by (auto simp: att2_def all_ops_def split: att_op_type.splits)
    then have "callbacks att2 \<subseteq> callbacks att"
      using ops by (auto simp: callbacks_def)
    ultimately show ?thesis
      using holds_fewer [OF assms(1)] by simp
  qed
qed

lemma end_request_keeps:
  assumes "holds (att, w)" "op \<in> all_ops att" "end_request run op opcode pdu (att, w) = Some st"
  shows "holds st"
proof -
  obtain att1 w1 where st: "call run op opcode pdu (att, w) = Some (att1, w1)" "st = (att1\<lparr>pending_req := None\<rparr>, w1)"
    using assms(3) by (auto simp: end_request_def split: bind_splits)
  show ?thesis
    unfolding st(2) by (rule holds_fewer [OF call_keeps(1) [OF assms(1) op_good [OF assms(1,2)] st(1)] callbacks_no_pending(1)])
qed

lemma handle_rsp_keeps:
  assumes "holds (att, w)" "handle_rsp run level raised opcode pdu (att, w) = Some st"
  shows "holds st"
proof (cases "pending_req att")
  case None
  then have "st = (att\<lparr>shut := True\<rparr>, w)"
    using assms(2) by (simp add: handle_rsp_def)
  then show ?thesis
    using holds_fewer [OF assms(1)] by simp
next
  case (Some op)
  have op: "op \<in> all_ops att"
    by (simp add: all_ops_def Some)
  have end_keeps: "holds st" if "end_request run op opc p (att, w) = Some st" for opc p
    using end_request_keeps [OF assms(1) op that] .
  obtain retry req att1 where err: "handle_error_rsp level raised op pdu att = (retry, req, att1)"
    using prod_cases3 by blast
  have att1: "\<not> retry \<longrightarrow> att1 = att" "retry \<longrightarrow> att1 = att\<lparr>pending_req := None, req_queue := op # req_queue att\<rparr>"
    using err by (auto simp: handle_error_rsp_def split: if_splits)
  have "holds (att1, w)" if "retry"
    using that att1 Some by (intro holds_fewer [OF assms(1)] callbacks_mono) (auto simp: all_ops_def)
  then show ?thesis
    using assms(2) Some err att1(1) end_keeps by (auto simp: handle_rsp_def split: if_splits)
qed

lemma handle_conf_keeps:
  assumes "holds (att, w)" "handle_conf run pdu (att, w) = Some st"
  shows "holds st"
proof -
  have shut: "holds (att\<lparr>shut := True\<rparr>, w)"
    using holds_fewer [OF assms(1)] by simp
  show ?thesis
  proof (cases "\<exists>op. pending_ind att = Some op \<and> pdu = []")
    case True
    then obtain op where op: "pending_ind att = Some op" "pdu = []"
      by blast
    then obtain att1 w1 where st: "call run op ATT_OP_HANDLE_CNF [] (att, w) = Some (att1, w1)" "st = (att1\<lparr>pending_ind := None\<rparr>, w1)"
      using assms(2) by (auto simp: handle_conf_def split: bind_splits)
    have "holds (att1, w1)"
      using call_keeps(1) [OF assms(1) op_good [OF assms(1)] st(1)] op by (simp add: all_ops_def)
    then show ?thesis
      unfolding st(2) by (rule holds_fewer [OF _ callbacks_no_pending(2)])
  qed (use assms(2) shut in \<open>auto simp: handle_conf_def split: option.splits if_splits\<close>)
qed

lemma can_read_keeps:
  assumes "holds (att, w)" "can_read_data run level raised packet (att, w) = Some st"
  shows "holds st"
proof -
  have other: "holds (handle_notify opcode att, w)" "holds (handle_notify opcode (att\<lparr>in_req := True\<rparr>), w)"
    "holds (att\<lparr>shut := True\<rparr>, w)" for opcode
    using handle_notify_callbacks [of opcode att] handle_notify_callbacks [of opcode "att\<lparr>in_req := True\<rparr>"]
    by (simp_all add: holds_fewer [OF assms(1)])
  then show ?thesis
    using assms handle_rsp_keeps [OF assms(1)] handle_conf_keeps [OF assms(1)]
    by (auto simp: can_read_data_def split: list.splits att_op_type.splits if_splits)
qed

lemma timeout_keeps:
  assumes "holds (att, w)" "timeout_cb run ident (att, w) = Some st"
  shows "holds st"
proof -
  obtain p att1 where sel: "(if (case pending_req att of Some op \<Rightarrow> op_id op = ident | None \<Rightarrow> False)
      then (pending_req att, att\<lparr>pending_req := None\<rparr>)
      else if (case pending_ind att of Some op \<Rightarrow> op_id op = ident | None \<Rightarrow> False)
      then (pending_ind att, att\<lparr>pending_ind := None\<rparr>) else (None, att)) = (p, att1)"
    by (meson surj_pair)
  have att1: "all_ops att1 \<subseteq> all_ops att" "set (pending_ops p) \<subseteq> all_ops att"
    using sel by (auto simp: all_ops_def split: if_splits)
  have held: "holds (att1, w)"
    using holds_fewer [OF assms(1) callbacks_mono [OF att1(1)]] .
  show ?thesis
  proof (cases p)
    case None
    then show ?thesis
      using assms(2) held sel by (simp add: timeout_cb_def Let_def)
  next
    case (Some op)
    then obtain att2 w2 where st: "call run op ATT_OP_ERROR [] (att1, w) = Some (att2, w2)" "st = (att2\<lparr>shut := True\<rparr>, w2)"
      using assms(2) sel by (auto simp: timeout_cb_def Let_def split: bind_splits)
    have "holds (att2, w2)"
      using call_keeps(1) [OF held op_good [OF assms(1)] st(1)] att1(2) Some by simp
    then show ?thesis
      using holds_fewer st(2) by (metis callbacks_flags(1) order_refl)
  qed
qed

lemma disc_ops_keep:
  "holds (att, w) \<Longrightarrow> \<forall>op\<in>set ops. \<forall>k. op_callback op = Some k \<longrightarrow> good w k \<Longrightarrow>
    disc_att_send_ops run ops (att, w) = Some (att', w') \<Longrightarrow> holds (att', w')"
proof (induction ops arbitrary: att w)
  case (Cons op ops)
  then obtain att1 w1 where st: "call run op ATT_OP_ERROR [] (att, w) = Some (att1, w1)"
    "disc_att_send_ops run ops (att1, w1) = Some (att', w')"
    by (auto split: bind_splits)
  have "\<forall>k. op_callback op = Some k \<longrightarrow> good w k"
    using Cons.prems(2) by simp
  note keeps = call_keeps [OF Cons.prems(1) this st(1)]
  then show ?case
    using Cons.IH [OF keeps(1) _ st(2)] Cons.prems(2) by auto
qed simp

lemma disc_part_keeps:
  assumes "holds (att, w)" "set ops \<subseteq> all_ops att" "all_ops att1 \<subseteq> all_ops att"
    and "disc_att_send_ops run ops (att1, w) = Some (att', w')"
  shows "holds (att', w')"
  using disc_ops_keep [OF holds_fewer [OF assms(1) callbacks_mono [OF assms(3)]] _ assms(4)] op_good [OF assms(1)] assms(2)
  by blast

lemma disconnect_keeps:
  assumes "holds (att, w)" "disconnect_cb run (att, w) = Some st"
  shows "holds st"
proof -
  obtain att1 w1 att2 w2 att3 w3 att4 w4 where parts:
    "disc_att_send_ops run (pending_ops (pending_req att)) (att\<lparr>attached := False\<rparr>, w) = Some (att1, w1)"
    "disc_att_send_ops run (pending_ops (pending_ind att1)) (att1\<lparr>pending_req := None\<rparr>, w1) = Some (att2, w2)"
    "disc_att_send_ops run (req_queue att2) (att2\<lparr>pending_ind := None, req_queue := []\<rparr>, w2) = Some (att3, w3)"
    "disc_att_send_ops run (ind_queue att3) (att3\<lparr>ind_queue := []\<rparr>, w3) = Some (att4, w4)"
    "disc_att_send_ops run (write_queue att4) (att4\<lparr>write_queue := []\<rparr>, w4) = Some st"
    using assms(2) by (auto simp: disconnect_cb_def split: bind_splits)
  have h1: "holds (att1, w1)"
    by (rule disc_part_keeps [OF assms(1) _ _ parts(1)]) (auto simp: all_ops_def)
  have h2: "holds (att2, w2)"
    by (rule disc_part_keeps [OF h1 _ _ parts(2)]) (auto simp: all_ops_def)
  have h3: "holds (att3, w3)"
    by (rule disc_part_keeps [OF h2 _ _ parts(3)]) (auto simp: all_ops_def)
  have h4: "holds (att4, w4)"
    by (rule disc_part_keeps [OF h3 _ _ parts(4)]) (auto simp: all_ops_def)
  obtain att5 w5 where st: "st = (att5, w5)"
    by (cases st)
  show ?thesis
    unfolding st by (rule disc_part_keeps [OF h4 _ _ parts(5) [unfolded st]]) (auto simp: all_ops_def)
qed

end

end
