(* ===== verification/Gatttool_Props.thy ===== *)
theory Gatttool_Props
  imports Gatttool Att_Chan_Props
begin

text \<open>
  Invariants of a session of the GATT printer: whatever the other side sends, the values in the log
  are those of characteristics that are in the log as readable.
\<close>

unbundle bit_operations_syntax

section \<open>The invariant\<close>

definition readable :: "printer \<Rightarrow> u16 set" where
  "readable w = {v. \<exists>h p u. CHARACTERISTIC h p v u \<in> set (g_log w) \<and> p AND 0x2 = 0x2}"

definition printer_ok :: "printer \<Rightarrow> bool" where
  "printer_ok w \<longleftrightarrow> length (char_value_handles_to_read w) = 512 \<and> num_char_value_handles w \<le> 512 \<and>
     (\<forall>i<num_char_value_handles w. char_value_handles_to_read w ! i \<in> readable w) \<and>
     (\<forall>v bs. CHAR_VALUE v bs \<in> set (g_log w) \<longrightarrow> v \<in> readable w)"

fun read_place :: "procedure \<Rightarrow> nat option" where
  "read_place (Read_char i rl) = Some i"
| "read_place (Read_blob i rl) = Some i"
| "read_place k = None"

definition place_ok :: "printer \<Rightarrow> procedure \<Rightarrow> bool" where
  "place_ok w k \<longleftrightarrow> (\<forall>i. read_place k = Some i \<longrightarrow> i < num_char_value_handles w)"

definition session_ok :: "session \<Rightarrow> bool" where
  "session_ok st \<longleftrightarrow> printer_ok (snd st) \<and> (\<forall>k\<in>callbacks (fst st). place_ok (snd st) k)"

text \<open>What every callback keeps: the invariant, and the places of the reads.\<close>

definition kept :: "session \<Rightarrow> session \<Rightarrow> bool" where
  "kept st st' \<longleftrightarrow> (session_ok st \<longrightarrow> session_ok st') \<and> num_char_value_handles (snd st) \<le> num_char_value_handles (snd st')"

lemma kept_refl [simp]: "kept st st"
  by (simp add: kept_def)

lemma kept_trans: "kept st st' \<Longrightarrow> kept st' st'' \<Longrightarrow> kept st st''"
  by (auto simp: kept_def)

lemma place_ok_mono: "place_ok w k \<Longrightarrow> num_char_value_handles w \<le> num_char_value_handles w' \<Longrightarrow> place_ok w' k"
  by (auto simp: place_ok_def)

lemma readable_log_lines: "readable w \<subseteq> readable (log_lines ls w)"
  by (auto simp: readable_def log_lines_def)

lemma kept_log:
  assumes "session_ok (att, w) \<Longrightarrow> \<forall>v bs. CHAR_VALUE v bs \<in> set ls \<longrightarrow> v \<in> readable w"
  shows "kept (att, w) (att, log_lines ls w)"
  using assms readable_log_lines [of w ls]
  by (fastforce simp: kept_def session_ok_def printer_ok_def place_ok_def log_lines_def)

lemma readable_flags [simp]: "readable (w\<lparr>g_max_handle := h\<rparr>) = readable w" "readable (w\<lparr>loop_quit := b\<rparr>) = readable w"
  by (simp_all add: readable_def)

lemma kept_flags: "kept (att, w) (att, w\<lparr>g_max_handle := h\<rparr>)" "kept (att, w) (att, w\<lparr>loop_quit := b\<rparr>)"
  by (simp_all add: kept_def session_ok_def printer_ok_def place_ok_def)

text \<open>Sending a request of a procedure.\<close>

lemma kept_send:
  assumes "session_ok (att, w) \<Longrightarrow> place_ok w k"
  shows "kept (att, w) (snd (g_attrib_send att ident req (Some k)), w)"
  using assms g_attrib_send_callbacks [of att ident req "Some k"] by (auto simp: kept_def session_ok_def)

section \<open>The callbacks\<close>

lemma kept_print_services:
  assumes "\<And>s e u v bs. line s e u \<noteq> CHAR_VALUE v bs" "print_services line status services st = Some st'"
  shows "kept st st'"
proof -
  obtain att w where st: "st = (att, w)"
    by (cases st)
  let ?ls = "map (\<lambda>p. line (ar_start (gp_range p)) (ar_end (gp_range p)) (gp_uuid p)) services"
  have "kept (att, w) (att, log_lines ?ls w)"
    using assms(1) by (intro kept_log) (metis (mono_tags, lifting) imageE list.set_map)
  then show ?thesis
    using assms(2) kept_trans [OF _ kept_flags(1)] by (auto simp: st print_services_def split: if_splits)
qed

lemma kept_start_read:
  assumes "start_read handle st = Some st'" "session_ok st \<Longrightarrow> handle \<in> readable (snd st)"
  shows "kept st st'"
proof -
  obtain att w where st: "st = (att, w)"
    by (cases st)
  let ?i = "num_char_value_handles w"
  let ?w = "w\<lparr>char_value_handles_to_read := (char_value_handles_to_read w)[?i := handle], num_char_value_handles := ?i + 1\<rparr>"
  have room: "?i < length (char_value_handles_to_read w)"
    using assms(1) by (auto simp: st start_read_def Let_def split: if_splits)
  obtain att' where st': "st' = (att', ?w)" "att' = att \<or> (\<exists>req rl. att' = snd (g_attrib_send att 0 req (Some (Read_char ?i rl))))"
    using assms(1) room by (auto simp: st start_read_def Let_def split: bind_splits read_reaction.splits)
  have sub: "callbacks att' \<subseteq> callbacks att \<union> {k. \<exists>rl. k = Read_char ?i rl}"
    using st'(2) g_attrib_send_callbacks [of att 0 _ "Some (Read_char ?i _)"] by fastforce
  have "readable ?w = readable w"
    by (simp add: readable_def)
  then have "session_ok (att', ?w)" if "session_ok (att, w)"
    using that sub room assms(2) by (fastforce simp: st session_ok_def printer_ok_def place_ok_def nth_list_update less_Suc_eq)
  then show ?thesis
    by (simp add: st st'(1) kept_def)
qed

lemma kept_print_characteristics:
  "print_characteristics cs st = Some st' \<Longrightarrow> kept st st'"
proof (induction cs arbitrary: st)
  case (Cons c cs)
  obtain att w where st: "st = (att, w)"
    by (cases st)
  let ?w = "log_lines [CHARACTERISTIC (gc_handle c) (gc_properties c) (gc_value_handle c) (gc_uuid c)] w"
  obtain st1 where st1: "(if gc_properties c AND 0x2 = 0x2 then start_read (gc_value_handle c) (att, ?w) else Some (att, ?w)) = Some st1"
    "print_characteristics cs st1 = Some st'"
    using Cons.prems by (auto simp: st Let_def split: bind_splits)
  have "kept (att, w) (att, ?w)"
    by (rule kept_log) simp
  moreover have "kept (att, ?w) st1"
  proof (cases "gc_properties c AND 0x2 = 0x2")
    case True
    then have "gc_value_handle c \<in> readable ?w"
      by (fastforce simp: readable_def log_lines_def)
    then show ?thesis
      using st1(1) True kept_start_read [of "gc_value_handle c" "(att, ?w)" st1] by simp
  qed (use st1(1) in simp)
  ultimately show ?case
    using Cons.IH [OF st1(2)] kept_trans unfolding st by blast
qed simp

lemma kept_char_discovered:
  assumes "gatttool_char_discovered_cb status cs st = Some st'"
  shows "kept st st'"
proof (cases "status = 0")
  case True
  then obtain att w where st1: "print_characteristics cs st = Some (att, w)"
    "st' = (att, if g_max_handle w = 0xFFFF then w\<lparr>g_max_handle := (if cs = [] then 0 else gc_value_handle (last cs))\<rparr> else w)"
    using assms by (auto simp: gatttool_char_discovered_cb_def split: bind_splits)
  then show ?thesis
    using kept_trans [OF kept_print_characteristics [OF st1(1)] kept_flags(1)] kept_print_characteristics [OF st1(1)] by simp
qed (use assms in \<open>simp add: gatttool_char_discovered_cb_def\<close>)

lemma kept_char_read:
  assumes "char_read_cb status pdu plen i st = Some st'" "session_ok st \<Longrightarrow> i < num_char_value_handles (snd st)"
  shows "kept st st'"
proof -
  obtain att w where st: "st = (att, w)"
    by (cases st)
  have "char_value_handles_to_read w ! i \<in> readable w" if "session_ok (att, w)"
    using assms(2) that by (simp add: st session_ok_def printer_ok_def)
  then have "kept (att, w) (att, log_lines [CHAR_VALUE (char_value_handles_to_read w ! i) bs] w)" for bs
    by (intro kept_log) simp
  then show ?thesis
    using assms(1) by (auto simp: st char_read_cb_def split: if_splits bind_splits option.splits)
qed

lemma kept_char_desc:
  assumes "char_desc_cb status ds st = Some st'"
  shows "kept st st'"
proof -
  obtain att w where st: "st = (att, w)"
    by (cases st)
  define w1 where "w1 = (if status \<noteq> 0 then w\<lparr>loop_quit := True\<rparr> else w)"
  define w2 where "w2 = log_lines (map (\<lambda>d. DESCRIPTORS (gd_handle d) (gd_uuid d)) ds) w1"
  have "kept (att, w) (att, w1)"
    using kept_flags(2) by (simp add: w1_def)
  moreover have "kept (att, w1) (att, w2)"
    unfolding w2_def by (rule kept_log) auto
  moreover have "st' = (att, if gd_handle (last ds) = g_max_handle w2 then w2\<lparr>loop_quit := True\<rparr> else w2)"
    using assms by (simp add: st char_desc_cb_def Let_def w1_def w2_def split: if_splits)
  then have "kept (att, w2) st'"
    using kept_flags(2) by simp
  ultimately show ?thesis
    using kept_trans st by blast
qed

lemma kept_react:
  assumes "react ident k user r st = Some st'" "\<And>s. read_place (k s) = None"
    and "\<And>status rs st'. user status rs st = Some st' \<Longrightarrow> kept st st'"
  shows "kept st st'"
  using assms kept_send [of "fst st" "snd st" "k _"]
  by (cases st; cases r) (auto simp: react_def place_ok_def)

lemma kept_react_read:
  assumes "react_read ident i own r st = Some st'" "session_ok st \<Longrightarrow> i < num_char_value_handles (snd st)"
  shows "kept st st'"
proof (cases r)
  case (Read_on req rl)
  obtain att w where st: "st = (att, w)"
    by (cases st)
  obtain sent att1 where sent: "g_attrib_send att ident req (Some (Read_blob i rl)) = (sent, att1)"
    by fastforce
  have on: "kept (att, w) (att1, w)"
    using kept_send [of att w "Read_blob i rl" ident req] assms(2) sent by (simp add: st place_ok_def)
  show ?thesis
  proof (cases "sent = 0")
    case True
    then have "char_read_cb ATT_ECODE_IO (fst (own rl)) (snd (own rl)) i (att1, w) = Some st'"
      using assms(1) sent by (simp add: react_read_def Read_on st split: prod.splits)
    then have "st' = (att1, w)"
      by (simp add: char_read_cb_def)
    then show ?thesis
      using on st by simp
  next
    case False
    then show ?thesis
      using assms(1) on sent by (simp add: react_read_def Read_on st)
  qed
next
  case (Read_done e pdu plen)
  then show ?thesis
    using kept_char_read [of e pdu plen i st st'] assms by (cases st) (simp add: react_read_def)
qed

lemma kept_run_procedure:
  assumes "run_procedure op opcode rsp st = Some st'" "op_callback op = Some k" "session_ok st \<Longrightarrow> place_ok (snd st) k"
  shows "kept st st'"
proof -
  obtain att w where st: "st = (att, w)"
    by (cases st)
  obtain status pdu where rsp: "attrib_callback_result opcode rsp = (status, pdu)"
    by fastforce
  show ?thesis
  proof (cases k)
    case (Primaries dp)
    then show ?thesis
      using assms(1,2) rsp kept_print_services [of PSERVICE]
      by (auto simp: st run_procedure_def Let_def gatttool_primary_all_cb_def split: bind_splits elim!: kept_react)
  next
    case (Secondaries dp)
    then show ?thesis
      using assms(1,2) rsp kept_print_services [of SSERVICE]
      by (auto simp: st run_procedure_def Let_def gatttool_secondary_all_cb_def split: bind_splits elim!: kept_react)
  next
    case (Characteristics dc)
    then show ?thesis
      using assms(1,2) rsp kept_char_discovered
      by (auto simp: st run_procedure_def Let_def split: bind_splits elim!: kept_react)
  next
    case (Descriptors dd)
    then show ?thesis
      using assms(1,2) rsp kept_char_desc
      by (auto simp: st run_procedure_def Let_def split: bind_splits elim!: kept_react)
  next
    case (Read_char i rl)
    then show ?thesis
      using assms rsp
      by (auto simp: st run_procedure_def Let_def place_ok_def split: bind_splits elim!: kept_react_read)
  next
    case (Read_blob i rl)
    then show ?thesis
      using assms rsp
      by (auto simp: st run_procedure_def Let_def place_ok_def split: bind_splits elim!: kept_react_read)
  qed
qed

interpretation printer: channel_client run_procedure printer_ok place_ok
proof
  fix w att op k opcode pdu att' w'
  assume asms: "printer_ok w" "\<forall>k\<in>callbacks att. place_ok w k" "op_callback op = Some k" "place_ok w k"
    "run_procedure op opcode pdu (att, w) = Some (att', w')"
  have "kept (att, w) (att', w')"
    using kept_run_procedure [OF asms(5,3)] asms(4) by simp
  then show "printer_ok w' \<and> (\<forall>k\<in>callbacks att'. place_ok w' k) \<and> (\<forall>k. place_ok w k \<longrightarrow> place_ok w' k)"
    using asms(1,2) place_ok_mono by (auto simp: kept_def session_ok_def)
qed

section \<open>The whole program\<close>

lemma session_ok_holds: "session_ok = printer.holds"
  by (auto simp: session_ok_def printer.holds_def)

lemma dispatch_keeps:
  assumes "session_ok st" "dispatch ev st = Some st'"
  shows "session_ok st'"
proof -
  obtain att w where st: "st = (att, w)"
    by (cases st)
  note ok = assms(1) [unfolded session_ok_holds st]
  show ?thesis
  proof (cases ev)
    case (Writable ret)
    then obtain sent where "can_write_data run_procedure ret (att, w) = Some (sent, st')"
      using assms(2) by (auto simp: dispatch_def st)
    then show ?thesis
      unfolding session_ok_holds by (rule printer.can_write_keeps [OF ok])
  next
    case (Readable level raised packet)
    then show ?thesis
      using assms(2) printer.can_read_keeps [OF ok] by (simp add: dispatch_def st session_ok_holds)
  next
    case (Timed_out ident)
    then show ?thesis
      using assms(2) printer.timeout_keeps [OF ok] by (simp add: dispatch_def st session_ok_holds)
  next
    case Hung_up
    then show ?thesis
      using assms(2) printer.disconnect_keeps [OF ok] by (simp add: dispatch_def st session_ok_holds)
  qed
qed

lemma main_loop_keeps: "main_loop evs st = Some st' \<Longrightarrow> session_ok st \<Longrightarrow> session_ok st'"
  by (induction evs st rule: main_loop.induct) (auto split: if_splits bind_splits dest: dispatch_keeps)

lemma start_keeps:
  assumes "start_procedure k r st = Some st'" "\<And>s. read_place (k s) = None" "session_ok st"
  shows "session_ok st'"
  using assms kept_send [of "fst st" "snd st" "k _" 0]
  by (cases st) (auto simp: start_procedure_def kept_def place_ok_def split: bind_splits reaction.splits)

lemma connect_session_ok:
  assumes "connect_cb err mtu cid printer_init = Some st"
  shows "session_ok st"
proof -
  define w where "w = (if err then printer_init\<lparr>got_error := True, loop_quit := True\<rparr> else printer_init)"
  obtain m att st1 st2 st3 where parts: "bt_att_set_mtu m (bt_att_new 23) = Some att" "primary (att, w) = Some st1"
    "secondary st1 = Some st2" "characteristics st2 = Some st3" "characteristics_desc st3 = Some st"
    using assms by (auto simp: connect_cb_def Let_def w_def split: bind_splits)
  have "callbacks att = {}"
    using parts(1) by (auto simp: bt_att_set_mtu_def bt_att_new_def callbacks_def all_ops_def split: if_splits)
  then have "session_ok (att, w)"
    by (simp add: session_ok_def printer_ok_def w_def printer_init_def)
  from start_keeps [OF parts(2) [unfolded primary_def] read_place.simps(3) this] have "session_ok st1" .
  from start_keeps [OF parts(3) [unfolded secondary_def] read_place.simps(4) this] have "session_ok st2" .
  from start_keeps [OF parts(4) [unfolded characteristics_def] read_place.simps(5) this] have "session_ok st3" .
  from start_keeps [OF parts(5) [unfolded characteristics_desc_def] read_place.simps(6) this] show ?thesis .
qed

text \<open>C16.
  Whatever the other side sends and whenever the connection is lost, every value in the log is that
  of a handle that the log has as the value of a readable characteristic.
\<close>

theorem values_of_readable_characteristics:
  assumes "connect_cb err mtu cid printer_init = Some st" "main_loop evs st = Some (att, w)"
    "CHAR_VALUE v bs \<in> set (g_log w)"
  shows "\<exists>h p u. CHARACTERISTIC h p v u \<in> set (g_log w) \<and> p AND 0x2 = 0x2"
  using main_loop_keeps [OF assms(2) connect_session_ok [OF assms(1)]] assms(3)
  by (auto simp: session_ok_def printer_ok_def readable_def)

end
