(* ===== verification/Att_Props.thy ===== *)
theory Att_Props
  imports Gatt
begin

text \<open>
  The PDU codec: what an encoder sends, and that the decoders read it back.
\<close>

unbundle bit_operations_syntax

section \<open>Buffers\<close>

lemma put_bytes_0: "length bs \<le> length buf \<Longrightarrow> put_bytes buf 0 bs = Some (bs @ drop (length bs) buf)"
  by (simp add: put_bytes_def overwrite_def)

lemma put_bytes_after: "n = length as \<Longrightarrow> n + length bs \<le> length buf \<Longrightarrow>
    put_bytes (as @ drop n buf) n bs = Some ((as @ bs) @ drop (n + length bs) buf)"
  by (simp add: put_bytes_def overwrite_def add.commute)

lemma unat_of_nat16: "n < 65536 \<Longrightarrow> unat (of_nat n :: u16) = n"
  by (simp add: unat_of_nat take_bit_nat_eq_self)

lemma encoded_bytes:
  assumes "e (replicate mtu 0) = Some (of_nat (length bs), bs @ drop (length bs) (replicate mtu 0))" "length bs < 65536"
  shows "encoded mtu e = Some bs"
  using assms by (simp add: encoded_def unat_of_nat16)

lemma encoded_fixed: "length bs \<le> mtu \<Longrightarrow> length bs < 65536 \<Longrightarrow> encoded mtu (\<lambda>buf. enc_fixed bs (Some buf)) = Some bs"
  by (rule encoded_bytes) (simp_all add: enc_fixed_def put_bytes_0)

lemma encoded_value:
  assumes "length hdr + length v \<le> mtu" "mtu < 65536"
  shows "encoded mtu (\<lambda>buf. put_value hdr v (length v) buf) = Some (hdr @ v)"
proof (rule encoded_bytes)
  show "put_value hdr v (length v) (replicate mtu 0) =
      Some (of_nat (length (hdr @ v)), (hdr @ v) @ drop (length (hdr @ v)) (replicate mtu 0))"
    using assms(1) put_bytes_after [of "length hdr" hdr v "replicate mtu 0"]
    by (cases v) (simp_all add: put_value_def put_bytes_0)
qed (use assms in simp)

lemma cut_room: "hdr + vlen \<le> len \<Longrightarrow> cut vlen len hdr = vlen"
  by (simp add: cut_def size_minus_def)

text \<open>A value that is too long is cut to the room left by the header.\<close>

lemma encoded_cut_value:
  assumes "length hdr \<le> mtu" "mtu < 65536"
  shows "encoded mtu (\<lambda>buf. put_value hdr v (cut (length v) mtu (length hdr)) buf) = Some (hdr @ take (mtu - length hdr) v)"
proof -
  let ?v = "take (mtu - length hdr) v"
  have len: "cut (length v) mtu (length hdr) = length ?v"
    using assms(1) by (simp add: cut_def size_minus_def min_def)
  have read: "rds v 0 (length ?v) = rds ?v 0 (length ?v)"
    by (simp add: rds_def min_def)
  have "put_value hdr v (cut (length v) mtu (length hdr)) buf = put_value hdr ?v (length ?v) buf" for buf
    unfolding put_value_def len read by (rule refl)
  then show ?thesis
    using encoded_value [of hdr ?v mtu] assms by simp
qed

lemma rd16_bytes16 [simp]: "rd16 (as @ bytes16 v @ bs) (length as) = Some v"
  using le16_bytes16 [of v] by (simp add: nth_append bytes16_def)

lemma rd16_fields [simp]:
  "rd16 (x # bytes16 v @ bs) (Suc 0) = Some v" "rd16 (x # bytes16 v @ bytes16 w @ bs) 3 = Some w"
  "rd16 (x # bytes16 v @ bytes16 w @ bytes16 u @ bs) 5 = Some u"
  "rd16 (x # bytes16 v) (Suc 0) = Some v" "rd16 (x # bytes16 v @ bytes16 w) 3 = Some w"
  "rd16 (x # bytes16 v @ bytes16 w @ bytes16 u) 5 = Some u"
  using le16_bytes16 [of v] le16_bytes16 [of w] le16_bytes16 [of u] by (simp_all add: bytes16_def)

section \<open>Requests\<close>

text \<open>A UUID that goes into a request.\<close>

definition att_uuid :: "bt_uuid \<Rightarrow> bool" where
  "att_uuid u \<longleftrightarrow> uuid_ok u \<and> uuid_len16 u \<noteq> None"

lemma att_uuid_cases:
  assumes "att_uuid u"
  obtains v where "u = BT_UUID16 v" | d where "u = BT_UUID128 d" "length d = 16"
  using assms by (cases u) (auto simp: att_uuid_def uuid_len16_def)

lemma encoded_range_uuid:
  assumes "att_uuid u" "23 \<le> mtu"
  shows "encoded mtu (\<lambda>buf. enc_range_uuid opc start end (Some u) buf) =
    Some (opc # bytes16 start @ bytes16 end @ put_uuid_le u)"
  using assms(1)
proof (cases rule: att_uuid_cases)
  case (1 v)
  then show ?thesis
    using assms(2) by (intro encoded_bytes) (simp_all add: enc_range_uuid_def uuid_len16_def put_bytes_0)
next
  case (2 d)
  then show ?thesis
    using assms(2) by (intro encoded_bytes) (simp_all add: enc_range_uuid_def uuid_len16_def put_bytes_0)
qed

lemma dec_encoded_range_uuid:
  assumes "att_uuid u" "pdu = opc # bytes16 start @ bytes16 end @ put_uuid_le u"
  shows "dec_range_uuid (if length pdu = 7 then Short else Long) pdu (length pdu) =
    Some (Some (of_nat (length pdu), start, end, u))"
  using assms(1)
proof (cases rule: att_uuid_cases)
  case (1 v)
  then show ?thesis
    by (simp add: assms(2) dec_range_uuid_def get_uuid_def)
next
  case (2 d)
  then show ?thesis
    by (simp add: assms(2) dec_range_uuid_def get_uuid_def)
qed

text \<open>What a decoder that stores a value makes of a PDU it accepts.\<close>

lemma rds_suffix [simp]: "n = length as \<Longrightarrow> m = length bs \<Longrightarrow> rds (as @ bs) n m = Some bs"
  by (simp add: rds_def)

definition decoded :: "'a dec \<Rightarrow> nat \<Rightarrow> 'a \<Rightarrow> bool" where
  "decoded r n x \<longleftrightarrow> r = Some (Some (of_nat n, x))"

definition sends :: "nat \<Rightarrow> (u8 list \<Rightarrow> enc) \<Rightarrow> (u8 list \<Rightarrow> 'a dec) \<Rightarrow> 'a \<Rightarrow> bool" where
  "sends mtu e d x \<longleftrightarrow> (\<exists>pdu. encoded mtu e = Some pdu \<and> length pdu \<le> mtu \<and> decoded (d pdu) (length pdu) x)"

lemma sendsI: "encoded mtu e = Some pdu \<Longrightarrow> length pdu \<le> mtu \<Longrightarrow> d pdu = Some (Some (of_nat (length pdu), x)) \<Longrightarrow> sends mtu e d x"
  by (auto simp: sends_def decoded_def)

lemma sends_range_uuid:
  assumes "att_uuid u" "23 \<le> mtu"
  shows "sends mtu (\<lambda>buf. enc_read_by_grp_req start end (Some u) buf mtu) (\<lambda>pdu. dec_read_by_grp_req (Some pdu) (length pdu)) (start, end, u)"
    "sends mtu (\<lambda>buf. enc_read_by_type_req start end (Some u) buf mtu) (\<lambda>pdu. dec_read_by_type_req (Some pdu) (length pdu)) (start, end, u)"
  using assms(1)
  by (rule att_uuid_cases; use assms in \<open>auto simp: enc_read_by_grp_req_def enc_read_by_type_req_def dec_read_by_grp_req_def
      dec_read_by_type_req_def encoded_range_uuid dec_range_uuid_def get_uuid_def intro!: sendsI\<close>)+

lemma sends_fixed:
  assumes "23 \<le> mtu"
  shows "sends mtu (\<lambda>buf. enc_read_req handle (Some buf) mtu) (\<lambda>pdu. dec_read_req (Some pdu) (length pdu)) handle"
    "sends mtu (\<lambda>buf. enc_read_blob_req handle offset (Some buf) mtu) (\<lambda>pdu. dec_read_blob_req (Some pdu) (length pdu)) (handle, offset)"
    "sends mtu (\<lambda>buf. enc_find_info_req start end (Some buf) mtu) (\<lambda>pdu. dec_find_info_req (Some pdu) (length pdu)) (start, end)"
    "sends mtu (\<lambda>buf. enc_mtu_req handle (Some buf) mtu) (\<lambda>pdu. dec_mtu_req (Some pdu) (length pdu)) handle"
    "sends mtu (\<lambda>buf. enc_mtu_resp handle (Some buf) mtu) (\<lambda>pdu. dec_mtu_resp (Some pdu) (length pdu)) handle"
    "\<not> flags > 1 \<Longrightarrow> sends mtu (\<lambda>buf. enc_exec_write_req flags (Some buf) mtu) (\<lambda>pdu. dec_exec_write_req (Some pdu) (length pdu)) flags"
  using assms
  by (auto simp: enc_read_req_def enc_read_blob_req_def enc_find_info_req_def enc_mtu_req_def enc_mtu_resp_def
      enc_exec_write_req_def dec_read_req_def dec_read_blob_req_def dec_find_info_req_def dec_mtu_req_def dec_mtu_resp_def
      dec_exec_write_req_def dec_one_def dec_two_def encoded_fixed intro!: sendsI)

lemma sends_value:
  assumes "7 \<le> mtu" "mtu < 65536" "min (length v) (mtu - 3) \<le> length vbuf"
  shows "sends mtu (\<lambda>buf. enc_find_by_type_req start end (Some (BT_UUID16 w)) v (length v) (Some buf) mtu)
      (\<lambda>pdu. dec_find_by_type_req (Some pdu) (length pdu) vbuf)
      (start, end, BT_UUID16 w, overwrite vbuf 0 (take (mtu - 7) v), min (length v) (mtu - 7))"
    "sends mtu (\<lambda>buf. enc_write_req handle v (length v) (Some buf) mtu)
      (\<lambda>pdu. dec_write_req (Some pdu) (length pdu) (Some vbuf)) (handle, overwrite vbuf 0 (take (mtu - 3) v), min (length v) (mtu - 3))"
    "sends mtu (\<lambda>buf. enc_write_cmd handle v (length v) (Some buf) mtu)
      (\<lambda>pdu. dec_write_cmd (Some pdu) (length pdu) (Some vbuf)) (handle, overwrite vbuf 0 (take (mtu - 3) v), min (length v) (mtu - 3))"
    "sends mtu (\<lambda>buf. enc_prep_write_req handle offset v (length v) (Some buf) mtu)
      (\<lambda>pdu. dec_prep_write_req (Some pdu) (length pdu) (Some vbuf))
      (handle, offset, overwrite vbuf 0 (take (mtu - 5) v), min (length v) (mtu - 5))"
proof -
  have nil: "overwrite vbuf 0 [] = vbuf"
    by (simp add: overwrite_def)
  have sent: "encoded mtu (\<lambda>buf. put_value (opc # bytes16 start @ bytes16 end @ bytes16 w) v (cut (length v) mtu 7) buf) =
        Some ((opc # bytes16 start @ bytes16 end @ bytes16 w) @ take (mtu - 7) v)"
      "encoded mtu (\<lambda>buf. put_value (opc # bytes16 handle) v (cut (length v) mtu 3) buf) = Some ((opc # bytes16 handle) @ take (mtu - 3) v)"
      "encoded mtu (\<lambda>buf. put_value (opc # bytes16 handle @ bytes16 offset) v (cut (length v) mtu 5) buf) =
        Some ((opc # bytes16 handle @ bytes16 offset) @ take (mtu - 5) v)" for opc
    using encoded_cut_value [of "opc # bytes16 start @ bytes16 end @ bytes16 w" mtu v] encoded_cut_value [of "opc # bytes16 handle" mtu v]
      encoded_cut_value [of "opc # bytes16 handle @ bytes16 offset" mtu v] assms(1,2) by simp_all
  have part: "take (min (length v) k) v = take k v" for k
    by (simp add: min_def)
  have store: "put_bytes vbuf 0 (take (mtu - k) v) = Some (overwrite vbuf 0 (take (mtu - k) v))" if "3 \<le> k" for k
    using assms(3) that by (auto simp: put_bytes_def)
  show "sends mtu (\<lambda>buf. enc_find_by_type_req start end (Some (BT_UUID16 w)) v (length v) (Some buf) mtu)
      (\<lambda>pdu. dec_find_by_type_req (Some pdu) (length pdu) vbuf)
      (start, end, BT_UUID16 w, overwrite vbuf 0 (take (mtu - 7) v), min (length v) (mtu - 7))"
    by (rule sendsI [OF _ _]) (use assms nil store [of 7] in \<open>auto simp: part enc_find_by_type_req_def sent(1) dec_find_by_type_req_def\<close>)
  show "sends mtu (\<lambda>buf. enc_write_req handle v (length v) (Some buf) mtu)
      (\<lambda>pdu. dec_write_req (Some pdu) (length pdu) (Some vbuf)) (handle, overwrite vbuf 0 (take (mtu - 3) v), min (length v) (mtu - 3))"
    "sends mtu (\<lambda>buf. enc_write_cmd handle v (length v) (Some buf) mtu)
      (\<lambda>pdu. dec_write_cmd (Some pdu) (length pdu) (Some vbuf)) (handle, overwrite vbuf 0 (take (mtu - 3) v), min (length v) (mtu - 3))"
    using assms nil store [of 3]
    by (auto simp: part enc_write_req_def enc_write_cmd_def dec_write_req_def dec_write_cmd_def sent(2) intro!: sendsI)
  show "sends mtu (\<lambda>buf. enc_prep_write_req handle offset v (length v) (Some buf) mtu)
      (\<lambda>pdu. dec_prep_write_req (Some pdu) (length pdu) (Some vbuf))
      (handle, offset, overwrite vbuf 0 (take (mtu - 5) v), min (length v) (mtu - 5))"
    using assms nil store [of 5]
    by (auto simp: part enc_prep_write_req_def dec_prep_write_req_def dec_prep_write_def sent(3) intro!: sendsI)
qed

section \<open>Lists of entries\<close>

lemma read_entries_map:
  "i + n * l \<le> length pdu \<Longrightarrow> read_entries pdu i l n = Some (map (\<lambda>k. take l (drop (i + k * l) pdu)) [0..<n])"
proof (induction n arbitrary: i)
  case (Suc n)
  have "map (\<lambda>k. take l (drop (i + k * l) pdu)) [0..<Suc n] =
      take l (drop i pdu) # map (\<lambda>k. take l (drop (i + l + k * l) pdu)) [0..<n]"
    by (simp add: upt_conv_Cons map_Suc_upt [symmetric] del: upt_Suc) (simp add: add.assoc comp_def)
  then show ?case
    using Suc by (simp add: add.assoc del: upt_Suc)
qed simp

text \<open>A concatenation of entries of one length is read back.\<close>

lemma read_entries_concat:
  assumes "\<forall>e\<in>set es. length e = l"
  shows "read_entries (hdr @ concat es @ rest) (length hdr) l (length es) = Some es"
  using assms
proof (induction es arbitrary: hdr)
  case (Cons e es)
  then have "read_entries ((hdr @ e) @ concat es @ rest) (length (hdr @ e)) l (length es) = Some es"
    by (intro Cons.IH) simp
  then show ?case
    using Cons.prems by simp
qed simp

text \<open>How many entries fit.\<close>

fun fitting :: "nat \<Rightarrow> nat \<Rightarrow> 'a list \<Rightarrow> nat \<Rightarrow> 'a list" where
  "fitting len l [] w = []"
| "fitting len l (e # es) w = (if w + l \<le> len then e # fitting len l es (w + l) else [])"

lemma put_entries_fitting:
  assumes "\<forall>e\<in>set es. length e = l" "len < m" "length as = w" "w \<le> len"
  shows "put_entries m len l es w w (as @ drop w (replicate len 0)) =
    Some (w + length (fitting len l es w) * l, (as @ concat (fitting len l es w)) @
      drop (w + length (fitting len l es w) * l) (replicate len 0))"
  using assms
proof (induction es arbitrary: as w)
  case (Cons e es)
  show ?case
  proof (cases "w + l \<le> len")
    case True
    then have "put_bytes (as @ drop w (replicate len 0)) w e = Some ((as @ e) @ drop (w + l) (replicate len 0))"
      using Cons.prems put_bytes_after [of w as e "replicate len 0"] by simp
    moreover have "put_entries m len l es (w + l) (w + l) ((as @ e) @ drop (w + l) (replicate len 0)) =
        Some (w + l + length (fitting len l es (w + l)) * l, ((as @ e) @ concat (fitting len l es (w + l))) @
          drop (w + l + length (fitting len l es (w + l)) * l) (replicate len 0))"
      using Cons.prems True by (intro Cons.IH) simp_all
    ultimately show ?thesis
      using Cons.prems True by (simp add: add.assoc)
  qed (use Cons.prems in simp)
qed simp

lemma fitting_take: "0 < l \<Longrightarrow> w \<le> len \<Longrightarrow> fitting len l es w = take ((len - w) div l) es"
proof (induction es arbitrary: w)
  case (Cons e es)
  show ?case
  proof (cases "w + l \<le> len")
    case True
    then have "(len - w) div l = Suc ((len - (w + l)) div l)"
      using Cons.prems(1) by (subst le_div_geq) simp_all
    then show ?thesis
      using True Cons.IH [of "w + l"] Cons.prems by simp
  qed (use Cons.prems in \<open>simp add: div_less\<close>)
qed simp

section \<open>Responses with lists\<close>

definition list_ok :: "att_data_list \<Rightarrow> bool" where
  "list_ok al \<longleftrightarrow> length (al_data al) = unat (al_num al) \<and> (\<forall>e\<in>set (al_data al). length e = unat (al_len al))"

text \<open>The entries of a list that go into a response.\<close>

definition first_entries :: "nat \<Rightarrow> att_data_list \<Rightarrow> u8 list list" where
  "first_entries mtu al = take ((mtu - 2) div unat (al_len al)) (al_data al)"

lemma set_take_subset': "\<forall>e\<in>set es. P e \<Longrightarrow> \<forall>e\<in>set (take n es). P e"
  by (meson in_set_takeD)

lemma length_concat_rows: "\<forall>e\<in>set es. length e = l \<Longrightarrow> length (concat es) = length es * l"
  by (induction es) simp_all

lemma first_entries_room:
  assumes "list_ok al" "unat (al_len al) + 2 \<le> mtu"
  shows "length (concat (first_entries mtu al)) = length (first_entries mtu al) * unat (al_len al)"
    "length (first_entries mtu al) * unat (al_len al) \<le> mtu - 2"
proof -
  show "length (concat (first_entries mtu al)) = length (first_entries mtu al) * unat (al_len al)"
    using assms(1) set_take_subset' by (intro length_concat_rows) (auto simp: list_ok_def first_entries_def dest: in_set_takeD)
  have "length (first_entries mtu al) \<le> (mtu - 2) div unat (al_len al)"
    by (simp add: first_entries_def)
  then show "length (first_entries mtu al) * unat (al_len al) \<le> mtu - 2"
    by (meson div_times_less_eq_dividend le_trans mult_le_mono1)
qed

lemma put_entries_response:
  assumes "list_ok al" "0 < unat (al_len al)" "unat (al_len al) + 2 \<le> mtu" "mtu < m"
  shows "put_entries m mtu (unat (al_len al)) (al_data al) 2 2 ([a, b] @ drop 2 (replicate mtu 0)) =
    Some (length ([a, b] @ concat (first_entries mtu al)), ([a, b] @ concat (first_entries mtu al)) @
      drop (length ([a, b] @ concat (first_entries mtu al))) (replicate mtu 0))"
proof -
  have fit: "fitting mtu (unat (al_len al)) (al_data al) 2 = first_entries mtu al"
    using assms(2,3) by (simp add: fitting_take first_entries_def)
  have "length [a, b] = 2" "2 \<le> mtu"
    using assms(3) by simp_all
  then show ?thesis
    using put_entries_fitting [of "al_data al" "unat (al_len al)" mtu m "[a, b]" 2] assms(1,4) fit
      first_entries_room(1) [OF assms(1,3)] by (simp add: list_ok_def)
qed

lemma encoded_list_resp:
  assumes "list_ok al" "0 < unat (al_len al)" "unat (al_len al) + 2 \<le> mtu" "mtu < 65536"
  shows "encoded mtu (\<lambda>buf. enc_read_by_grp_resp (Some al) buf mtu) =
      Some (ATT_OP_READ_BY_GROUP_RESP # ucast (al_len al) # concat (first_entries mtu al))"
    "encoded mtu (\<lambda>buf. enc_read_by_type_resp (Some al) (Some buf) mtu) =
      Some (ATT_OP_READ_BY_TYPE_RESP # ucast (al_len al) # concat (first_entries mtu al))"
    "encoded mtu (\<lambda>buf. enc_find_info_resp format (Some al) (Some buf) mtu) =
      Some (ATT_OP_FIND_INFO_RESP # format # concat (first_entries mtu al))"
proof -
  have put: "put_bytes (replicate mtu 0) 0 [a, b] = Some ([a, b] @ drop 2 (replicate mtu 0))" for a b
    using assms(3) put_bytes_0 [of "[a, b]" "replicate mtu 0"] by (simp add: numeral_2_eq_2)
  have rows: "take (unat (al_num al)) (al_data al) = al_data al"
    using assms(1) by (simp add: list_ok_def)
  have room: "2 + length (concat (first_entries mtu al)) < 65536"
    using first_entries_room [OF assms(1,3)] assms(3,4) by simp
  have min: "min (size_minus mtu 2) (unat (al_len al)) = unat (al_len al)"
    using assms(3) by (simp add: size_minus_def)
  note put_rows = put_entries_response [OF assms(1-3)]
  show "encoded mtu (\<lambda>buf. enc_read_by_grp_resp (Some al) buf mtu) =
      Some (ATT_OP_READ_BY_GROUP_RESP # ucast (al_len al) # concat (first_entries mtu al))"
    using put_rows [of "2 ^ 16" ATT_OP_READ_BY_GROUP_RESP "ucast (al_len al)"] assms(3,4) room
    by (intro encoded_bytes) (simp_all add: enc_read_by_grp_resp_def put rows)
  show "encoded mtu (\<lambda>buf. enc_read_by_type_resp (Some al) (Some buf) mtu) =
      Some (ATT_OP_READ_BY_TYPE_RESP # ucast (al_len al) # concat (first_entries mtu al))"
    using put_rows [of "2 ^ 64" ATT_OP_READ_BY_TYPE_RESP "ucast (al_len al)"] assms(3,4) room
    by (intro encoded_bytes) (simp_all add: enc_read_by_type_resp_def put rows min Let_def unsigned_ucast_eq [symmetric])
  show "encoded mtu (\<lambda>buf. enc_find_info_resp format (Some al) (Some buf) mtu) =
      Some (ATT_OP_FIND_INFO_RESP # format # concat (first_entries mtu al))"
    using put_rows [of "2 ^ 64" ATT_OP_FIND_INFO_RESP format] assms(3,4) room
    by (intro encoded_bytes) (simp_all add: enc_find_info_resp_def put rows)
qed

text \<open>What the decoders make of such a response.\<close>

definition entry_list :: "nat \<Rightarrow> u8 list list \<Rightarrow> att_data_list" where
  "entry_list l es = \<lparr>al_num = of_nat (length es), al_len = of_nat l, al_data = es\<rparr>"

lemma dec_entries_concat:
  assumes "\<forall>e\<in>set es. length e = l" "l \<le> 255" "length es < 65536"
  shows "dec_entries (a # b # concat es) (of_nat (length es)) (of_nat l) = Some (Some (entry_list l es))"
proof -
  have "\<not> (of_nat l :: u16) > 255"
    using assms(2) by (simp add: word_less_nat_alt unat_of_nat16)
  then show ?thesis
    using assms read_entries_concat [of es l "[a, b]" "[]"]
    by (simp add: dec_entries_def att_data_list_alloc_def unat_of_nat16 entry_list_def numeral_2_eq_2)
qed

lemma dec_list_resp:
  assumes "\<forall>e\<in>set es. length e = l" "es \<noteq> []" "l \<le> 255" "length es * l < 65536"
  shows "5 \<le> l \<Longrightarrow> dec_read_by_grp_resp (ATT_OP_READ_BY_GROUP_RESP # of_nat l # concat es) (length (concat es) + 2) =
      Some (Some (entry_list l es))"
    "3 \<le> l \<Longrightarrow> dec_read_by_type_resp (ATT_OP_READ_BY_TYPE_RESP # of_nat l # concat es) (length (concat es) + 2) =
      Some (Some (entry_list l es))"
    "unat (info_len format) = l \<Longrightarrow> dec_find_info_resp (Some (ATT_OP_FIND_INFO_RESP # format # concat es)) (length (concat es) + 2) =
      Some (Some (format, entry_list l es))"
proof -
  have byte: "unat (of_nat l :: u8) = l" "(ucast (of_nat l :: u8) :: u16) = of_nat l"
    using assms(3) by (simp_all add: unat_of_nat take_bit_nat_eq_self word_unat_eq_iff unsigned_ucast_eq unat_of_nat16)
  have n: "length (concat es) = length es * l" "1 \<le> length es"
    using assms(1,2) length_concat_rows by (auto simp: Suc_le_eq)
  have big: "\<not> length es * l < k" if "k \<le> l" for k
    using n(2) that by (cases es) simp_all
  have few: "length es < 65536" if "3 \<le> l"
    using assms(4) that by (cases l) auto
  have dec: "dec_entries (a # b # concat es) (of_nat (length es * l div l)) (of_nat l) = Some (Some (entry_list l es))" if "3 \<le> l" for a b
    using dec_entries_concat [OF assms(1,3) few [OF that]] that by simp
  show "dec_read_by_grp_resp (ATT_OP_READ_BY_GROUP_RESP # of_nat l # concat es) (length (concat es) + 2) =
      Some (Some (entry_list l es))" if "5 \<le> l"
    using that big dec n(1) byte by (simp add: dec_read_by_grp_resp_def word_less_nat_alt)
  show "dec_read_by_type_resp (ATT_OP_READ_BY_TYPE_RESP # of_nat l # concat es) (length (concat es) + 2) =
      Some (Some (entry_list l es))" if "3 \<le> l"
    using that big dec n(1) byte by (simp add: dec_read_by_type_resp_def word_less_nat_alt)
  show "dec_find_info_resp (Some (ATT_OP_FIND_INFO_RESP # format # concat es)) (length (concat es) + 2) =
      Some (Some (format, entry_list l es))" if "unat (info_len format) = l"
  proof -
    have l: "2 \<le> l" "of_nat l = info_len format"
      using that by (auto simp: info_len_def split: if_splits)
    have "length es < 65536"
      using assms(4) l(1) by (cases l) auto
    then have "dec_entries (a # b # concat es) (of_nat (length es * l div l)) (info_len format) = Some (Some (entry_list l es))" for a b
      using dec_entries_concat [OF assms(1,3)] l by simp
    then show ?thesis
      using that n(1) by (simp add: dec_find_info_resp_def size_minus_def)
  qed
qed

end
