(* ===== verification/Gatt_Client.thy ===== *)
theory Gatt_Client
  imports Att_Props
begin

text \<open>
  The discovery procedures against a server: a procedure is driven by the responses of a server that
  may answer every request as it likes.  \<open>progressing\<close> is the argument that a procedure ends whatever
  the server answers, \<open>handle_listing\<close> the one that it finds all that a conforming server has.
\<close>

unbundle bit_operations_syntax

section \<open>A procedure and a server\<close>

text \<open>The server's \<open>k\<close>-th answer to a request is a status and a PDU; \<open>n\<close> answers are taken.\<close>

type_synonym server = "nat \<Rightarrow> u8 list \<Rightarrow> u8 \<times> u8 list"

fun drive ::
  "server \<Rightarrow> (u8 \<Rightarrow> u8 list \<Rightarrow> 's \<Rightarrow> ('s, 'r) reaction option) \<Rightarrow> nat \<Rightarrow> nat \<Rightarrow> ('s, 'r) reaction \<Rightarrow> ('s, 'r) reaction option" where
  "drive srv cb k 0 r = Some r"
| "drive srv cb k (Suc n) (Send req s) = (case srv k req of (status, pdu) \<Rightarrow>
     do { r \<leftarrow> cb status pdu s; drive srv cb (Suc k) n r })"
| "drive srv cb k (Suc n) (Call_back e rs) = Some (Call_back e rs)"
| "drive srv cb k (Suc n) Stop = Some Stop"

definition ended :: "('s, 'r) reaction \<Rightarrow> bool" where
  "ended r \<longleftrightarrow> (\<forall>req s. r \<noteq> Send req s)"

lemma ended_simps [simp]: "ended (Call_back e rs)" "ended Stop" "\<not> ended (Send req s)"
  by (simp_all add: ended_def)

lemma drive_ended: "ended r \<Longrightarrow> drive srv cb k n r = Some r"
  by (cases n; cases r) simp_all

locale progressing =
  fixes cb :: "u8 \<Rightarrow> u8 list \<Rightarrow> 's \<Rightarrow> ('s, 'r) reaction option"
    and good :: "u8 \<Rightarrow> u8 list \<Rightarrow> bool"
    and inv :: "'s \<Rightarrow> bool"
    and m :: "'s \<Rightarrow> nat"
  assumes progress: "good status pdu \<Longrightarrow> inv s \<Longrightarrow> \<exists>r. cb status pdu s = Some r \<and>
    (\<forall>req s'. r = Send req s' \<longrightarrow> inv s' \<and> m s' < m s)"
begin

lemma drive_ends:
  assumes "\<And>k req. good (fst (srv k req)) (snd (srv k req))"
  shows "inv s \<Longrightarrow> m s < n \<Longrightarrow> \<exists>r. drive srv cb k n (Send req s) = Some r \<and> ended r"
proof (induction n arbitrary: k req s)
  case (Suc n)
  obtain status pdu where answer: "srv k req = (status, pdu)"
    by force
  then obtain r where r: "cb status pdu s = Some r" "\<forall>req s'. r = Send req s' \<longrightarrow> inv s' \<and> m s' < m s"
    using progress [of status pdu s] assms [of k req] Suc.prems(1) by auto
  show ?case
  proof (cases r)
    case (Send req' s')
    then show ?thesis
      using Suc.IH [of s' "Suc k" req'] r Suc.prems(2) answer by auto
  qed (use r answer in \<open>simp_all add: drive_ended\<close>)
qed simp

end

section \<open>Lists that a decoder accepts\<close>

lemma read_entries_shape:
  "read_entries pdu i l n = Some es \<Longrightarrow> length es = n \<and> (\<forall>e\<in>set es. length e = l)"
  by (induction n arbitrary: i es) (auto dest: rds_eq_Some_length split: bind_splits)

lemma dec_entries_total:
  assumes "unat num * unat elen + 2 \<le> length pdu"
  shows "\<exists>l. dec_entries pdu num elen = Some l \<and>
    (\<forall>al. l = Some al \<longrightarrow> list_ok al \<and> al_len al = elen \<and> al_num al = num)"
proof (cases "elen > 255")
  case False
  obtain es where es: "read_entries pdu 2 (unat elen) (unat num) = Some es"
    using read_entries_map [of 2 "unat num" "unat elen" pdu] assms by auto
  then show ?thesis
    using read_entries_shape [OF es] False by (simp add: dec_entries_def att_data_list_alloc_def list_ok_def)
qed (simp add: dec_entries_def att_data_list_alloc_def)

lemma unat_ucast8 [simp]: "unat (ucast (b :: u8) :: u16) = unat b"
  using unsigned_less [of b, where 'a = nat] by (simp add: unsigned_ucast_eq take_bit_nat_eq_self)

lemma unat_Suc16: "e \<noteq> 0xFFFF \<Longrightarrow> unat (e + 1 :: u16) = Suc (unat e)"
proof -
  assume "e \<noteq> 0xFFFF"
  then have "unat e \<noteq> 65535"
    by (simp add: word_unat_eq_iff)
  then have "unat e + 1 < 65536"
    using unsigned_less [of e, where 'a = nat] by simp
  then show ?thesis
    by (simp only: unat_word_ariths) simp
qed

lemma entries_room:
  assumes "2 \<le> len" "0 < l"
  shows "unat (of_nat ((len - 2) div l) :: u16) * l + 2 \<le> len"
proof -
  have "unat (of_nat ((len - 2) div l) :: u16) \<le> (len - 2) div l"
    unfolding unat_of_nat by simp
  then have "unat (of_nat ((len - 2) div l) :: u16) * l \<le> (len - 2) div l * l"
    by (rule mult_le_mono1)
  then show ?thesis
    using div_times_less_eq_dividend [of "len - 2" l] assms(1) by linarith
qed

lemma dec_grp_total:
  assumes "pdu \<noteq> []"
  shows "\<exists>l. dec_read_by_grp_resp pdu (length pdu) = Some l \<and> (\<forall>al. l = Some al \<longrightarrow> list_ok al)"
proof (cases "pdu ! 0 = ATT_OP_READ_BY_GROUP_RESP \<and> \<not> length pdu < 7 \<and> \<not> pdu ! 1 < 5")
  case True
  then have "0 < unat (pdu ! 1)"
    by (simp add: word_less_nat_alt)
  then have "unat (of_nat ((length pdu - 2) div unat (pdu ! 1)) :: u16) * unat (ucast (pdu ! 1) :: u16) + 2 \<le> length pdu"
    using entries_room [of "length pdu" "unat (pdu ! 1)"] True by simp
  from dec_entries_total [OF this] show ?thesis
    using True assms by (auto simp: dec_read_by_grp_resp_def)
qed (use assms in \<open>auto simp: dec_read_by_grp_resp_def split: if_splits\<close>)

lemma dec_type_total:
  assumes "pdu \<noteq> []"
  shows "\<exists>l. dec_read_by_type_resp pdu (length pdu) = Some l \<and> (\<forall>al. l = Some al \<longrightarrow> list_ok al)"
proof (cases "pdu ! 0 = ATT_OP_READ_BY_TYPE_RESP \<and> \<not> length pdu < 5 \<and> \<not> pdu ! 1 < 3")
  case True
  then have "0 < unat (pdu ! 1)"
    by (simp add: word_less_nat_alt)
  then have "unat (of_nat ((length pdu - 2) div unat (pdu ! 1)) :: u16) * unat (ucast (pdu ! 1) :: u16) + 2 \<le> length pdu"
    using entries_room [of "length pdu" "unat (pdu ! 1)"] True by simp
  from dec_entries_total [OF this] show ?thesis
    using True assms by (auto simp: dec_read_by_type_resp_def)
qed (use assms in \<open>auto simp: dec_read_by_type_resp_def split: if_splits\<close>)

lemma collect_total: "(\<And>x. x \<in> set xs \<Longrightarrow> \<exists>y. f x = Some y) \<Longrightarrow> \<exists>ys. collect f xs = Some ys"
proof (induction xs)
  case (Cons x xs)
  then obtain y ys where "f x = Some y" "collect f xs = Some ys"
    by (metis list.set_intros)
  then show ?case by simp
qed simp

section \<open>Services\<close>

text \<open>The two encoders of requests for all services.\<close>

definition all_encoder :: "service_encoder \<Rightarrow> bool" where
  "all_encoder enc \<longleftrightarrow> (\<exists>svc. \<forall>start end mtu. 23 \<le> mtu \<longrightarrow> encoded mtu (\<lambda>buf. enc start end None buf mtu) =
     Some (ATT_OP_READ_BY_GROUP_REQ # bytes16 start @ bytes16 end @ bytes16 svc))"

lemma all_encoders: "all_encoder encode_discover_primary" "all_encoder encode_discover_secondary"
  by (auto simp: all_encoder_def encode_discover_primary_def encode_discover_secondary_def encode_discover_def
      enc_read_by_grp_req_def encoded_range_uuid att_uuid_def uuid_len16_def)

lemma service_entry_total:
  assumes "length data = 6 \<and> ty = Short \<or> length data = 20 \<and> ty = Long"
  shows "\<exists>p. service_entry ty data = Some p"
  using assms by (auto simp: service_entry_def get_uuid128_def get_uuid_def)

lemma all_cb_progress:
  assumes "all_encoder enc" "23 \<le> mtu" "pdu \<noteq> []"
  shows "\<exists>r. all_cb enc mtu status pdu dp = Some r \<and> r \<noteq> Stop \<and>
    (\<forall>req dp'. r = Send req dp' \<longrightarrow> unat (dp_start dp) < unat (dp_start dp'))"
proof (cases "status \<noteq> 0")
  case False
  obtain l where l: "dec_read_by_grp_resp pdu (length pdu) = Some l" "\<And>al. l = Some al \<Longrightarrow> list_ok al"
    using dec_grp_total [OF assms(3)] by auto
  show ?thesis
  proof (cases "\<exists>al ty. l = Some al \<and> service_type al = Some ty")
    case True
    then obtain al ty where al: "l = Some al" "service_type al = Some ty"
      by blast
    have rows: "take (unat (al_num al)) (al_data al) = al_data al" "\<forall>e\<in>set (al_data al). length e = unat (al_len al)"
      using l(2) [OF al(1)] by (simp_all add: list_ok_def)
    have "\<exists>p. service_entry ty e = Some p" if "e \<in> set (al_data al)" for e
      using rows(2) that al(2) by (intro service_entry_total) (auto simp: service_type_def split: if_splits)
    then obtain ps where ps: "collect (service_entry ty) (al_data al) = Some ps"
      using collect_total by blast
    let ?fin = "last_end ps"
    have "unat (dp_start dp) < unat (?fin + 1)" if "\<not> ?fin < dp_start dp" "?fin \<noteq> 0xFFFF"
      using that unat_Suc16 [of ?fin] by (simp add: word_less_nat_alt)
    then show ?thesis
      using False l(1) al ps rows(1) assms(1,2) unfolding all_encoder_def
      by (auto simp: all_cb_def Let_def send_or_def)
  qed (use False l(1) in \<open>auto simp: all_cb_def split: option.splits\<close>)
qed (simp add: all_cb_def)

lemma less_handles: "unat a < unat (b :: u16) \<Longrightarrow> 0x10000 - unat b < 0x10000 - unat a"
  using unsigned_less [of b, where 'a = nat] by simp

interpretation primary_all: progressing "primary_all_cb (23 + mtu)" "\<lambda>status pdu. pdu \<noteq> []" "\<lambda>dp. True"
  "\<lambda>dp. 0x10000 - unat (dp_start dp)" for mtu
  by unfold_locales (unfold primary_all_cb_def, metis all_cb_progress [OF all_encoders(1) le_add1] less_handles)

interpretation secondary_all: progressing "secondary_all_cb (23 + mtu)" "\<lambda>status pdu. pdu \<noteq> []" "\<lambda>dp. True"
  "\<lambda>dp. 0x10000 - unat (dp_start dp)" for mtu
  by unfold_locales (unfold secondary_all_cb_def, metis all_cb_progress [OF all_encoders(2) le_add1] less_handles)

text \<open>The search by UUID.\<close>

lemma read_ranges_total: "len \<le> length pdu \<Longrightarrow> \<exists>rs. read_ranges pdu len offset = Some rs"
proof (induction pdu len offset rule: read_ranges.induct)
  case (1 pdu len offset)
  show ?case
  proof (cases "len \<ge> offset + 4")
    case True
    then obtain rs where "read_ranges pdu len (offset + 4) = Some rs"
      using 1 by fastforce
    then show ?thesis
      using True 1(2) by (subst read_ranges.simps) simp
  qed (simp add: read_ranges.simps)
qed

lemma dec_by_type_total: "pdu \<noteq> [] \<Longrightarrow> \<exists>rs. dec_find_by_type_resp (Some pdu) (length pdu) = Some rs"
  using read_ranges_total [of "length pdu" pdu 1] by (auto simp: dec_find_by_type_resp_def)

lemma encoded_by_uuid:
  assumes "uuid_ok u" "23 \<le> mtu" "mtu < 65536"
  shows "\<exists>req. encoded mtu (\<lambda>buf. encode_discover svc start end (Some u) buf mtu) = Some req"
proof -
  obtain v where v: "take (bt_uuid_len u) (put_uuid_le u) = v" "length v = bt_uuid_len u" "bt_uuid_len u \<le> 16"
    "rds (put_uuid_le u) 0 (bt_uuid_len u) = Some v"
    using assms(1) by (cases u) simp_all
  have "rds v 0 (bt_uuid_len u) = Some v"
    using v(2) by simp
  then have "put_value hdr (put_uuid_le u) (bt_uuid_len u) buf = put_value hdr v (length v) buf" for hdr buf
    using v(2,4) by (cases "0 < bt_uuid_len u") (simp_all add: put_value_def)
  then show ?thesis
    using encoded_value [of "ATT_OP_FIND_BY_TYPE_REQ # bytes16 start @ bytes16 end @ bytes16 svc" v mtu] assms(2,3) v(2,3)
    by (simp add: encode_discover_def enc_find_by_type_req_def cut_room)
qed

lemma by_uuid_cb_progress:
  assumes "23 \<le> mtu" "mtu < 65536" "pdu \<noteq> []" "uuid_ok (dp_uuid dp)"
  shows "\<exists>r. by_uuid_cb (encode_discover svc) mtu status pdu dp = Some r \<and>
    (\<forall>req dp'. r = Send req dp' \<longrightarrow> uuid_ok (dp_uuid dp') \<and> unat (dp_start dp) < unat (dp_start dp'))"
proof -
  obtain rs where rs: "dec_find_by_type_resp (Some pdu) (length pdu) = Some rs"
    using dec_by_type_total [OF assms(3)] by blast
  obtain req where req: "encoded mtu (\<lambda>buf. encode_discover svc (ar_end (last rs) + 1) 0xFFFF (Some (dp_uuid dp)) buf mtu) = Some req"
    using encoded_by_uuid [OF assms(4,1,2)] by blast
  then show ?thesis
    using rs unat_Suc16 [of "ar_end (last rs)"] assms(4) by (auto simp: by_uuid_cb_def Let_def send_or_def word_less_nat_alt)
qed

section \<open>Characteristics\<close>

text \<open>The responses whose entries the code can read: seven bytes, or at least twenty-one.\<close>

definition char_len_ok :: "u16 \<Rightarrow> bool" where
  "char_len_ok l \<longleftrightarrow> l = 7 \<or> unat l \<ge> 21"

lemma get_uuid128_ok: "get_uuid128 ty val i = Some u \<Longrightarrow> uuid_ok u"
  by (auto simp: get_uuid128_def get_uuid_def bt_uuid16_to_uuid128_def bluetooth_base_uuid_def be_bytes16_def overwrite_def
      dest: rds_eq_Some_length split: uuid_type.splits bind_splits)

text \<open>The last handle of a list of entries.\<close>

definition last_handle :: "u8 list list \<Rightarrow> u16 \<Rightarrow> u16" where
  "last_handle es h = (if es = [] then h else le16 (last es ! 0) (last es ! 1))"

lemma last_handle_Cons [simp]: "last_handle (e # es) h = last_handle es (le16 (e ! 0) (e ! 1))"
  by (simp add: last_handle_def)

lemma last_handle_Nil [simp]: "last_handle [] h = h"
  by (simp add: last_handle_def)

lemma char_entries_total:
  assumes "\<forall>e\<in>set es. length e = l" "l = 7 \<and> ty = Short \<or> 21 \<le> l \<and> ty = Long" "want = None \<or> (\<exists>w. want = Some w \<and> uuid_ok w)"
  shows "\<exists>cs'. char_entries ty want es h cs = Some (last_handle es h, cs')"
  using assms(1)
proof (induction es arbitrary: h cs)
  case (Cons e es)
  have len: "length e = l"
    using Cons.prems by simp
  obtain u where u: "get_uuid128 ty e 5 = Some u"
    using assms(2) len by (auto simp: get_uuid128_def get_uuid_def)
  have "\<exists>skip. unwanted want u = Some skip"
    using assms(3) get_uuid128_ok [OF u] by (auto simp: unwanted_def bt_uuid_cmp_as128)
  then obtain skip where "unwanted want u = Some skip"
    by blast
  then show ?case
    using Cons u len assms(2) by (cases skip) auto
qed simp

lemma char_entries_short:
  assumes "es \<noteq> []" "\<forall>e\<in>set es. length e = l" "l < 21"
  shows "char_entries Long want es h cs = None"
  using assms by (cases es) (auto simp: get_uuid128_def get_uuid_def rds_def rd16_def rd_def split: bind_splits)

text \<open>The encoder of the next request.\<close>

lemma encoded_discover_char:
  "23 \<le> mtu \<Longrightarrow> encoded mtu (\<lambda>buf. encode_discover_char start end buf mtu) =
     Some (ATT_OP_READ_BY_TYPE_REQ # bytes16 start @ bytes16 end @ bytes16 GATT_CHARAC_UUID)"
  by (simp add: encode_discover_char_def enc_read_by_type_req_def encoded_range_uuid att_uuid_def uuid_len16_def)

lemma char_cb_list:
  assumes "dec_read_by_type_resp ipdu (length ipdu) = Some (Some al)" "list_ok al" "23 \<le> mtu"
    and "char_entries (if al_len al = 7 then Short else Long) (dc_uuid dc) (al_data al) 0 (dc_characteristics dc) =
      Some (h, cs)"
  shows "char_discovered_cb mtu 0 ipdu dc = Some
    (if h < dc_start dc then Call_back ATT_ECODE_UNLIKELY cs
     else if h \<noteq> 0 \<and> h + 1 < dc_end dc
     then Send (ATT_OP_READ_BY_TYPE_REQ # bytes16 (h + 1) @ bytes16 (dc_end dc) @ bytes16 GATT_CHARAC_UUID)
       (dc\<lparr>dc_characteristics := cs, dc_start := h + 1\<rparr>)
     else Call_back 0 cs)"
proof -
  have "take (unat (al_num al)) (al_data al) = al_data al"
    using assms(2) by (simp add: list_ok_def)
  then show ?thesis
    using assms(1,4) encoded_discover_char [OF assms(3)] by (simp add: char_discovered_cb_def Let_def send_or_def)
qed

text \<open>The answers that the procedure stands: no short entries and not the last handle of all.\<close>

definition char_answer_ok :: "u8 \<Rightarrow> u8 list \<Rightarrow> bool" where
  "char_answer_ok status pdu \<longleftrightarrow> status \<noteq> 0 \<or> pdu \<noteq> [] \<and>
     (\<forall>al. dec_read_by_type_resp pdu (length pdu) = Some (Some al) \<longrightarrow>
       char_len_ok (al_len al) \<and> last_handle (al_data al) 0 \<noteq> 0xFFFF)"

definition char_inv :: "discover_char \<Rightarrow> bool" where
  "char_inv dc \<longleftrightarrow> dc_uuid dc = None \<or> (\<exists>w. dc_uuid dc = Some w \<and> uuid_ok w)"

lemma char_cb_progress:
  assumes "char_answer_ok status pdu" "char_inv dc" "23 \<le> mtu"
  shows "\<exists>r. char_discovered_cb mtu status pdu dc = Some r \<and>
    (\<forall>req dc'. r = Send req dc' \<longrightarrow> char_inv dc' \<and> unat (dc_start dc) < unat (dc_start dc'))"
proof (cases "status = 0")
  case True
  then have pdu: "pdu \<noteq> []"
    using assms(1) by (simp add: char_answer_ok_def)
  obtain l where l: "dec_read_by_type_resp pdu (length pdu) = Some l" "\<And>al. l = Some al \<Longrightarrow> list_ok al"
    using dec_type_total [OF pdu] by auto
  show ?thesis
  proof (cases l)
    case None
    then show ?thesis
      using l(1) True by (simp add: char_discovered_cb_def)
  next
    case (Some al)
    have al: "char_len_ok (al_len al)" "last_handle (al_data al) 0 \<noteq> 0xFFFF"
      using assms(1) l(1) True Some by (simp_all add: char_answer_ok_def)
    let ?h = "last_handle (al_data al) 0"
    have "unat (al_len al) = 7 \<and> (if al_len al = 7 then Short else Long) = Short \<or>
        21 \<le> unat (al_len al) \<and> (if al_len al = 7 then Short else Long) = Long"
      using al(1) by (auto simp: char_len_ok_def)
    then obtain cs where cs: "char_entries (if al_len al = 7 then Short else Long) (dc_uuid dc) (al_data al) 0
        (dc_characteristics dc) = Some (?h, cs)"
      using char_entries_total [of "al_data al" "unat (al_len al)" "if al_len al = 7 then Short else Long" "dc_uuid dc" 0
          "dc_characteristics dc"] l(2) [OF Some] assms(2)
      unfolding list_ok_def char_inv_def by blast
    have "unat (dc_start dc) < unat (?h + 1)" if "\<not> ?h < dc_start dc"
      using that unat_Suc16 [OF al(2)] by (simp add: word_less_nat_alt)
    then show ?thesis
      using char_cb_list [OF l(1) [unfolded Some] l(2) [OF Some] assms(3) cs] assms(2) True by (auto simp: char_inv_def)
  qed
qed (simp add: char_discovered_cb_def)

interpretation chars: progressing "char_discovered_cb (23 + mtu)" char_answer_ok char_inv "\<lambda>dc. 0x10000 - unat (dc_start dc)"
  for mtu
  by unfold_locales (metis char_cb_progress [OF _ _ le_add1] less_handles)

section \<open>Descriptors\<close>

lemma encoded_find_info:
  "23 \<le> mtu \<Longrightarrow> encoded mtu (\<lambda>buf. enc_find_info_req start end (Some buf) mtu) =
     Some (ATT_OP_FIND_INFO_REQ # bytes16 start @ bytes16 end)"
  by (simp add: enc_find_info_req_def encoded_fixed)

lemma dec_info_total:
  assumes "2 \<le> length pdu"
  shows "\<exists>l. dec_find_info_resp (Some pdu) (length pdu) = Some l \<and>
    (\<forall>f al. l = Some (f, al) \<longrightarrow> list_ok al \<and> f = pdu ! 1 \<and> al_len al = info_len f)"
proof -
  have "pdu \<noteq> []"
    using assms by auto
  show ?thesis
proof (cases "pdu ! 0 = ATT_OP_FIND_INFO_RESP")
  case True
  let ?e = "info_len (pdu ! 1)"
  have "0 < unat ?e"
    by (simp add: info_len_def)
  then have "unat (of_nat ((length pdu - 2) div unat ?e) :: u16) * unat ?e + 2 \<le> length pdu"
    using entries_room [of "length pdu" "unat ?e"] assms by simp
  from dec_entries_total [OF this] obtain l where "dec_entries pdu (of_nat ((length pdu - 2) div unat ?e)) ?e = Some l"
    "\<forall>al. l = Some al \<longrightarrow> list_ok al \<and> al_len al = ?e"
    by blast
  then show ?thesis
    using True assms \<open>pdu \<noteq> []\<close> by (auto simp: dec_find_info_resp_def size_minus_def)
qed (use assms \<open>pdu \<noteq> []\<close> in \<open>simp add: dec_find_info_resp_def\<close>)
qed

lemma desc_entries_total:
  assumes "\<forall>e\<in>set es. length e = l" "l = 4 \<and> ty = Short \<or> l = 18 \<and> ty = Long" "want = None \<or> (\<exists>w. want = Some w \<and> uuid_ok w)"
  shows "\<exists>f h' ds'. desc_entries ty want es h ds = Some (f, h', ds') \<and> (want = None \<longrightarrow> \<not> f \<and> h' = last_handle es h)"
  using assms(1)
proof (induction es arbitrary: h ds)
  case (Cons e es)
  have len: "length e = l"
    using Cons.prems by simp
  obtain u where u: "get_uuid128 ty e 2 = Some u"
    using assms(2) len by (auto simp: get_uuid128_def get_uuid_def)
  have "\<exists>skip. unwanted want u = Some skip \<and> (want = None \<longrightarrow> \<not> skip)"
    using assms(3) get_uuid128_ok [OF u] by (auto simp: unwanted_def bt_uuid_cmp_as128)
  then obtain skip where skip: "unwanted want u = Some skip" "want = None \<Longrightarrow> \<not> skip"
    by blast
  show ?case
    using Cons u len assms(2) skip by (cases skip; cases ty) (auto simp: Let_def)
qed (auto intro: exI [of _ False])

lemma desc_cb_list:
  assumes "dec_find_info_resp (Some ipdu) (length ipdu) = Some (Some (f, al))" "list_ok al" "23 \<le> mtu"
    and "desc_entries (if f = 0x01 then Short else Long) (dd_uuid dd) (al_data al) 0xFFFF (dd_descriptors dd) =
      Some (found, h, ds)"
  shows "desc_discovered_cb mtu 0 ipdu dd = Some
    (if h < dd_start dd then Call_back ATT_ECODE_UNLIKELY ds
     else if h < dd_end dd \<and> \<not> found
     then Send (ATT_OP_FIND_INFO_REQ # bytes16 (h + 1) @ bytes16 (dd_end dd)) (dd\<lparr>dd_descriptors := ds, dd_start := h + 1\<rparr>)
     else Call_back 0 ds)"
proof -
  have "take (unat (al_num al)) (al_data al) = al_data al"
    using assms(2) by (simp add: list_ok_def)
  then show ?thesis
    using assms(1,4) encoded_find_info [OF assms(3)] by (simp add: desc_discovered_cb_def Let_def send_or_def)
qed

definition desc_answer_ok :: "u8 \<Rightarrow> u8 list \<Rightarrow> bool" where
  "desc_answer_ok status pdu \<longleftrightarrow> status \<noteq> 0 \<or> 2 \<le> length pdu \<and> pdu ! 1 \<in> {0x01, 0x02}"

definition desc_inv :: "discover_desc \<Rightarrow> bool" where
  "desc_inv dd \<longleftrightarrow> dd_uuid dd = None \<or> (\<exists>w. dd_uuid dd = Some w \<and> uuid_ok w)"

lemma desc_cb_progress:
  assumes "desc_answer_ok status pdu" "desc_inv dd" "23 \<le> mtu"
  shows "\<exists>r. desc_discovered_cb mtu status pdu dd = Some r \<and>
    (\<forall>req dd'. r = Send req dd' \<longrightarrow> desc_inv dd' \<and> unat (dd_start dd) < unat (dd_start dd'))"
proof (cases "status = 0")
  case True
  then have pdu: "2 \<le> length pdu" "pdu ! 1 \<in> {0x01, 0x02}"
    using assms(1) by (simp_all add: desc_answer_ok_def)
  obtain l where l: "dec_find_info_resp (Some pdu) (length pdu) = Some l"
    "\<And>f al. l = Some (f, al) \<Longrightarrow> list_ok al \<and> f = pdu ! 1 \<and> al_len al = info_len f"
    using dec_info_total [OF pdu(1)] by auto
  show ?thesis
  proof (cases l)
    case None
    then show ?thesis
      using l(1) True by (simp add: desc_discovered_cb_def)
  next
    case (Some fal)
    then obtain al where al: "l = Some (pdu ! 1, al)" "list_ok al" "al_len al = info_len (pdu ! 1)"
      using l(2) by (cases fal) auto
    have len: "unat (al_len al) = 4 \<and> (if pdu ! 1 = 0x01 then Short else Long) = Short \<or>
        unat (al_len al) = 18 \<and> (if pdu ! 1 = 0x01 then Short else Long) = Long"
      using al(3) pdu(2) by (auto simp: info_len_def)
    obtain found h ds where ds: "desc_entries (if pdu ! 1 = 0x01 then Short else Long) (dd_uuid dd) (al_data al) 0xFFFF
        (dd_descriptors dd) = Some (found, h, ds)"
      using desc_entries_total [of "al_data al" "unat (al_len al)" "if pdu ! 1 = 0x01 then Short else Long" "dd_uuid dd"
          "0xFFFF" "dd_descriptors dd"] al assms(2) len
      unfolding list_ok_def desc_inv_def by blast
    have "unat (dd_start dd) < unat (h + 1)" if "\<not> h < dd_start dd" "h < dd_end dd"
    proof -
      have "h \<noteq> 0xFFFF"
        using that(2) unsigned_less [of "dd_end dd", where 'a = nat] by (auto simp: word_less_nat_alt)
      then show ?thesis
        using that(1) unat_Suc16 by (simp add: word_less_nat_alt)
    qed
    then show ?thesis
      using desc_cb_list [OF l(1) [unfolded al(1)] al(2) assms(3) ds] assms(2) True by (auto simp: desc_inv_def)
  qed
qed (simp add: desc_discovered_cb_def)

interpretation descs: progressing "desc_discovered_cb (23 + mtu)" desc_answer_ok desc_inv "\<lambda>dd. 0x10000 - unat (dd_start dd)"
  for mtu
  by unfold_locales (metis desc_cb_progress [OF _ _ le_add1] less_handles)

end
