(* ===== verification/Gatt_Listing.thy ===== *)
theory Gatt_Listing
  imports Gatt_Client
begin

text \<open>
  Discovery against a conforming server.  A server has a list of items in the order of their
  handles; it answers a request that asks from a handle on with some of the items from there on,
  as many as it likes but one at least, in one response, and with \<open>ATT_ECODE_ATTR_NOT_FOUND\<close> when
  there are none.  \<open>handle_listing\<close> is the contract of a callback with such responses; the three
  discovery procedures of gatt.c meet it with the responses that the encoders of att.c make.
\<close>

unbundle bit_operations_syntax

section \<open>A conforming server\<close>

lemma le_max16 [simp]: "(x :: u16) \<le> 0xFFFF" "\<not> 0xFFFF < (x :: u16)"
  using unsigned_less [of x, where 'a = nat] by (simp_all add: word_le_nat_alt word_less_nat_alt)

definition in_order :: "('x \<Rightarrow> u16) \<Rightarrow> ('x \<Rightarrow> u16) \<Rightarrow> ('x \<Rightarrow> bool) \<Rightarrow> 'x list \<Rightarrow> bool" where
  "in_order lo hi ok xs \<longleftrightarrow> sorted_wrt (\<lambda>x y. hi x < lo y) xs \<and> (\<forall>x\<in>set xs. lo x \<le> hi x \<and> ok x)"

definition items_from :: "('x \<Rightarrow> u16) \<Rightarrow> u16 \<Rightarrow> 'x list \<Rightarrow> 'x list" where
  "items_from lo h xs = filter (\<lambda>x. h \<le> lo x) xs"

definition conforming ::
  "(u8 list \<Rightarrow> u16 option) \<Rightarrow> ('x list \<Rightarrow> bool) \<Rightarrow> ('x list \<Rightarrow> u8 list) \<Rightarrow> ('x \<Rightarrow> u16) \<Rightarrow> 'x list \<Rightarrow> server \<Rightarrow> bool" where
  "conforming asks fits answer lo xs srv \<longleftrightarrow> (\<forall>k req h. asks req = Some h \<longrightarrow>
     (if items_from lo h xs = [] then fst (srv k req) = ATT_ECODE_ATTR_NOT_FOUND
      else \<exists>n. fits (take n (items_from lo h xs)) \<and> srv k req = (0, answer (take n (items_from lo h xs)))))"

lemma items_after_prefix:
  assumes "in_order lo hi ok xs" "items_from lo h xs = ys @ zs" "ys \<noteq> []" "hi (last ys) \<noteq> 0xFFFF"
  shows "items_from lo (hi (last ys) + 1) xs = zs"
proof -
  have sorted: "sorted_wrt (\<lambda>x y. hi x < lo y) (ys @ zs)"
    using assms(1) sorted_wrt_filter by (metis assms(2) in_order_def items_from_def)
  have mem: "lo x \<le> hi x" if "x \<in> set ys" for x
    using assms(1) that arg_cong [OF assms(2), of set] by (auto simp: in_order_def items_from_def)
  have next_le: "hi (last ys) + 1 \<le> x \<longleftrightarrow> hi (last ys) < x" for x
    using unat_Suc16 [OF assms(4)] by (simp add: word_le_nat_alt word_less_nat_alt Suc_le_eq)
  have ys: "lo x \<le> hi (last ys)" if "x \<in> set ys" for x
  proof (cases "x = last ys")
    case False
    obtain zs' where zs': "ys = zs' @ [last ys]"
      using assms(3) by (metis append_butlast_last_id)
    then have "x \<in> set zs'"
      using that False by (metis Un_iff empty_iff insert_iff list.set set_append)
    moreover have "sorted_wrt (\<lambda>x y. hi x < lo y) (zs' @ [last ys])"
      using sorted zs' by (metis sorted_wrt_append)
    ultimately have "hi x < lo (last ys)"
      by (simp add: sorted_wrt_append)
    then show ?thesis
      using mem [OF that] mem [of "last ys"] assms(3) by auto
  qed (use mem that in simp)
  have zs: "hi (last ys) < lo x" if "x \<in> set zs" for x
    using sorted assms(3) that by (simp add: sorted_wrt_append)
  have "h \<le> hi (last ys)"
  proof -
    have "last ys \<in> set (items_from lo h xs)"
      using assms(2,3) by simp
    then have "h \<le> lo (last ys)"
      unfolding items_from_def by simp
    then show ?thesis
      using mem [of "last ys"] assms(3) by auto
  qed
  then have "items_from lo (hi (last ys) + 1) xs = filter (\<lambda>x. hi (last ys) < lo x) (items_from lo h xs)"
    by (auto simp: items_from_def next_le intro: filter_cong)
  also have "\<dots> = zs"
    using ys zs by (auto simp: assms(2) filter_empty_conv filter_id_conv leD)
  finally show ?thesis .
qed

locale handle_listing =
  fixes cb :: "u8 \<Rightarrow> u8 list \<Rightarrow> 's \<Rightarrow> ('s, 'r) reaction option"
    and asks :: "u8 list \<Rightarrow> u16 option"
    and fits :: "'x list \<Rightarrow> bool"
    and answer :: "'x list \<Rightarrow> u8 list"
    and view :: "'x \<Rightarrow> 'r"
    and lo :: "'x \<Rightarrow> u16"
    and hi :: "'x \<Rightarrow> u16"
    and ok :: "'x \<Rightarrow> bool"
    and more :: "'x \<Rightarrow> bool"
    and inv :: "'s \<Rightarrow> bool"
    and from_handle :: "'s \<Rightarrow> u16"
    and found :: "'s \<Rightarrow> 'r list"
    and final :: "'r list \<Rightarrow> u8"
  assumes listed: "inv s \<Longrightarrow> fits xs \<Longrightarrow> \<forall>x\<in>set xs. ok x \<Longrightarrow> from_handle s \<le> hi (last xs) \<Longrightarrow> more (last xs) \<Longrightarrow>
      \<exists>req s'. cb 0 (answer xs) s = Some (Send req s') \<and> inv s' \<and> asks req = Some (hi (last xs) + 1) \<and>
        from_handle s' = hi (last xs) + 1 \<and> found s' = found s @ map view xs"
    and complete: "inv s \<Longrightarrow> fits xs \<Longrightarrow> \<forall>x\<in>set xs. ok x \<Longrightarrow> from_handle s \<le> hi (last xs) \<Longrightarrow> \<not> more (last xs) \<Longrightarrow>
      cb 0 (answer xs) s = Some (Call_back 0 (found s @ map view xs))"
    and exhausted: "inv s \<Longrightarrow> cb ATT_ECODE_ATTR_NOT_FOUND pdu s = Some (Call_back (final (found s)) (found s))"
    and final: "rs \<noteq> [] \<Longrightarrow> final rs = 0"
    and fits_some: "fits xs \<Longrightarrow> xs \<noteq> []"
    and more: "ok x \<Longrightarrow> ok y \<Longrightarrow> hi x < lo y \<Longrightarrow> lo y \<le> hi y \<Longrightarrow> more x"
    and more_max: "more x \<Longrightarrow> hi x \<noteq> 0xFFFF"
begin

lemma drive_lists:
  assumes "in_order lo hi ok xs" "conforming asks fits answer lo xs srv"
  shows "inv s \<Longrightarrow> asks req = Some (from_handle s) \<Longrightarrow> length (items_from lo (from_handle s) xs) < n \<Longrightarrow>
    drive srv cb k n (Send req s) =
      Some (Call_back (final (found s @ map view (items_from lo (from_handle s) xs)))
        (found s @ map view (items_from lo (from_handle s) xs)))"
proof (induction n arbitrary: k req s)
  case (Suc n)
  let ?r = "items_from lo (from_handle s) xs"
  show ?case
  proof (cases "?r = []")
    case True
    then obtain pdu where "srv k req = (ATT_ECODE_ATTR_NOT_FOUND, pdu)"
      using assms(2) Suc.prems(2) by (metis conforming_def prod.collapse)
    then show ?thesis
      using True exhausted [OF Suc.prems(1)] by (simp add: drive_ended)
  next
    case False
    then obtain m where m: "fits (take m ?r)" "srv k req = (0, answer (take m ?r))"
      using assms(2) Suc.prems(2) by (metis conforming_def)
    let ?p = "take m ?r"
    have p: "?p \<noteq> []"
      using fits_some [OF m(1)] .
    have mem: "x \<in> set xs \<and> from_handle s \<le> lo x" if "x \<in> set ?p" for x
      using in_set_takeD [OF that] by (simp add: items_from_def)
    have oks: "\<forall>x\<in>set ?p. ok x"
      using mem assms(1) by (auto simp: in_order_def)
    have h: "from_handle s \<le> hi (last ?p)"
      using mem [of "last ?p"] p assms(1) by (force simp: in_order_def)
    have split: "?r = ?p @ drop m ?r"
      by simp
    show ?thesis
    proof (cases "more (last ?p)")
      case True
      from listed [OF Suc.prems(1) m(1) oks h True] obtain req' s' where
        s': "cb 0 (answer ?p) s = Some (Send req' s')" "inv s'" "asks req' = Some (hi (last ?p) + 1)"
          "from_handle s' = hi (last ?p) + 1" "found s' = found s @ map view ?p"
        by blast
      have rest: "items_from lo (from_handle s') xs = drop m ?r"
        using items_after_prefix [OF assms(1) split p more_max [OF True]] s'(4) by simp
      then have "length (items_from lo (from_handle s') xs) < n"
      proof -
        have "0 < m" "0 < length ?r"
          using p False by (cases m; simp)+
        then show ?thesis
          unfolding rest length_drop using Suc.prems(3) by linarith
      qed
      then have "drive srv cb (Suc k) n (Send req' s') = Some (Call_back (final (found s' @ map view (drop m ?r)))
          (found s' @ map view (drop m ?r)))"
        using Suc.IH [of s' req' "Suc k"] s'(2-4) rest by simp
      moreover have "found s' @ map view (drop m ?r) = found s @ map view ?r"
        unfolding s'(5) append_assoc map_append [symmetric] by simp
      ultimately show ?thesis
        using m(2) s'(1) by simp
    next
      case nomore: False
      have "drop m ?r = []"
      proof (rule ccontr)
        assume "drop m ?r \<noteq> []"
        then obtain y ys where y: "drop m ?r = y # ys"
          by (cases "drop m ?r") auto
        have "sorted_wrt (\<lambda>x y. hi x < lo y) ?r"
          using assms(1) by (simp add: in_order_def items_from_def sorted_wrt_filter)
        then have "sorted_wrt (\<lambda>x y. hi x < lo y) (?p @ y # ys)"
          using y by (metis append_take_drop_id)
        then have "hi (last ?p) < lo y"
          using p by (simp add: sorted_wrt_append)
        moreover have "y \<in> set xs"
          using y in_set_dropD [of y m ?r] by (simp add: items_from_def)
        ultimately have "more (last ?p)"
          using more [of "last ?p" y] oks p assms(1) by (auto simp: in_order_def)
        then show False
          using nomore by simp
      qed
      then have all: "?p = ?r"
        using split by (metis append_Nil2)
      have "final (found s @ map view ?r) = 0"
        using False final by simp
      then show ?thesis
        using complete [OF Suc.prems(1) m(1) oks h nomore] m(2) all by (simp add: drive_ended)
    qed
  qed
qed simp

end


section \<open>Responses of a conforming server\<close>

definition uuid_kind :: "bt_uuid \<Rightarrow> uuid_type" where
  "uuid_kind u = (case u of BT_UUID16 _ \<Rightarrow> Short | _ \<Rightarrow> Long)"

lemma length_uuid_le: "att_uuid u \<Longrightarrow> length (put_uuid_le u) = (if uuid_kind u = Short then 2 else 16)"
  by (erule att_uuid_cases) (simp_all add: uuid_kind_def)

lemma get_uuid128_entry:
  assumes "att_uuid u" "n = length as"
  shows "get_uuid128 (uuid_kind u) (as @ put_uuid_le u) n = Some (BT_UUID128 (as128 u))"
proof -
  have "get_uuid (uuid_kind u) (as @ put_uuid_le u) n = Some u"
    using assms(1)
  proof (cases rule: att_uuid_cases)
    case (1 v)
    then show ?thesis
      using rd16_bytes16 [of as v "[]"] assms(2) by (simp add: get_uuid_def uuid_kind_def)
  next
    case (2 d)
    then show ?thesis
      using assms(2) by (simp add: get_uuid_def uuid_kind_def)
  qed
  then show ?thesis
    using as128_ok [of u] assms(1) by (simp add: get_uuid128_def att_uuid_def)
qed

lemma uuid_text_128: "att_uuid u \<Longrightarrow> uuid_text (BT_UUID128 (as128 u)) = uuid_text u"
  using as128_ok [of u] by (simp add: uuid_text_def bt_uuid_to_string_def att_uuid_def)

text \<open>Entries of one length that fit in a response.\<close>

definition entries_fit :: "nat \<Rightarrow> ('x \<Rightarrow> u8 list) \<Rightarrow> 'x list \<Rightarrow> bool" where
  "entries_fit mtu entry xs \<longleftrightarrow> xs \<noteq> [] \<and> (\<forall>x\<in>set xs. length (entry x) = length (entry (hd xs))) \<and>
     length xs * length (entry (hd xs)) + 2 \<le> mtu"

definition entries_of :: "('x \<Rightarrow> u8 list) \<Rightarrow> 'x list \<Rightarrow> att_data_list" where
  "entries_of entry xs = entry_list (length (entry (hd xs))) (map entry xs)"

definition response :: "nat \<Rightarrow> (u8 list \<Rightarrow> enc) \<Rightarrow> u8 list" where
  "response mtu e = (case encoded mtu e of None \<Rightarrow> [] | Some pdu \<Rightarrow> pdu)"

lemma entries_of_fit:
  assumes "entries_fit mtu entry xs" "0 < length (entry (hd xs))" "mtu < 65536"
  shows "list_ok (entries_of entry xs)" "unat (al_len (entries_of entry xs)) = length (entry (hd xs))"
    "first_entries mtu (entries_of entry xs) = map entry xs" "length (entry (hd xs)) + 2 \<le> mtu"
proof -
  have fit: "xs \<noteq> []" "\<forall>x\<in>set xs. length (entry x) = length (entry (hd xs))" "length xs * length (entry (hd xs)) + 2 \<le> mtu"
    using assms(1) unfolding entries_fit_def by blast+
  have "1 \<le> length xs"
    using fit(1) by (simp add: Suc_le_eq)
  then have "1 * length (entry (hd xs)) \<le> length xs * length (entry (hd xs))"
    by (rule mult_le_mono1)
  moreover have "length xs * 1 \<le> length xs * length (entry (hd xs))"
    using assms(2) by (intro mult_le_mono2) linarith
  ultimately have few: "length xs < 65536" "length (entry (hd xs)) < 65536" and "length (entry (hd xs)) + 2 \<le> mtu"
    using fit(3) assms(3) by linarith+
  show "length (entry (hd xs)) + 2 \<le> mtu" by fact
  show "list_ok (entries_of entry xs)"
    unfolding list_ok_def entries_of_def entry_list_def
    using fit(2) [rule_format] few by (auto simp only: att_data_list.simps unat_of_nat16 length_map set_map)
  show len: "unat (al_len (entries_of entry xs)) = length (entry (hd xs))"
    using few by (simp add: entries_of_def entry_list_def unat_of_nat16)
  have "length xs \<le> (mtu - 2) div length (entry (hd xs))"
    using fit(3) assms(2) by (simp add: less_eq_div_iff_mult_less_eq)
  then show "first_entries mtu (entries_of entry xs) = map entry xs"
    unfolding first_entries_def len by (simp add: entries_of_def entry_list_def)
qed

lemma entries_response:
  assumes "entries_fit mtu entry xs" "0 < length (entry (hd xs))" "length (entry (hd xs)) \<le> 255" "mtu < 65536"
  shows "5 \<le> length (entry (hd xs)) \<Longrightarrow> \<exists>pdu. response mtu (\<lambda>buf. enc_read_by_grp_resp (Some (entries_of entry xs)) buf mtu) = pdu \<and>
      dec_read_by_grp_resp pdu (length pdu) = Some (Some (entries_of entry xs))"
    "3 \<le> length (entry (hd xs)) \<Longrightarrow>
      \<exists>pdu. response mtu (\<lambda>buf. enc_read_by_type_resp (Some (entries_of entry xs)) (Some buf) mtu) = pdu \<and>
      dec_read_by_type_resp pdu (length pdu) = Some (Some (entries_of entry xs))"
    "unat (info_len f) = length (entry (hd xs)) \<Longrightarrow>
      \<exists>pdu. response mtu (\<lambda>buf. enc_find_info_resp f (Some (entries_of entry xs)) (Some buf) mtu) = pdu \<and>
      dec_find_info_resp (Some pdu) (length pdu) = Some (Some (f, entries_of entry xs))"
proof -
  note fit = entries_of_fit [OF assms(1,2,4)]
  have rows: "\<forall>e\<in>set (map entry xs). length e = length (entry (hd xs))" "map entry xs \<noteq> []"
    "length (map entry xs) * length (entry (hd xs)) < 65536"
    using assms(1,4) unfolding entries_fit_def by (auto simp only: set_map map_is_Nil_conv length_map)
  have len: "(ucast (al_len (entries_of entry xs)) :: u8) = of_nat (length (entry (hd xs)))"
    by (simp add: entries_of_def entry_list_def word_unat_eq_iff unsigned_of_nat unat_of_nat)
  note enc = encoded_list_resp [OF fit(1) _ _ assms(4), unfolded fit(2,3) len, OF assms(2) fit(4)]
  note dec = dec_list_resp [OF rows(1,2) assms(3) rows(3)]
  show "\<exists>pdu. response mtu (\<lambda>buf. enc_read_by_grp_resp (Some (entries_of entry xs)) buf mtu) = pdu \<and>
      dec_read_by_grp_resp pdu (length pdu) = Some (Some (entries_of entry xs))" if "5 \<le> length (entry (hd xs))"
    using dec(1) [OF that] unfolding response_def enc(1) by (simp add: entries_of_def)
  show "\<exists>pdu. response mtu (\<lambda>buf. enc_read_by_type_resp (Some (entries_of entry xs)) (Some buf) mtu) = pdu \<and>
      dec_read_by_type_resp pdu (length pdu) = Some (Some (entries_of entry xs))" if "3 \<le> length (entry (hd xs))"
    using dec(2) [OF that] unfolding response_def enc(2) by (simp add: entries_of_def)
  show "\<exists>pdu. response mtu (\<lambda>buf. enc_find_info_resp f (Some (entries_of entry xs)) (Some buf) mtu) = pdu \<and>
      dec_find_info_resp (Some pdu) (length pdu) = Some (Some (f, entries_of entry xs))"
      if "unat (info_len f) = length (entry (hd xs))"
    using dec(3) [OF that] unfolding response_def enc(3) by (simp add: entries_of_def)
qed


section \<open>Services\<close>

record service =
  sv_start :: u16
  sv_end :: u16
  sv_uuid :: bt_uuid

definition service_bytes :: "service \<Rightarrow> u8 list" where
  "service_bytes x = (bytes16 (sv_start x) @ bytes16 (sv_end x)) @ put_uuid_le (sv_uuid x)"

definition service_view :: "service \<Rightarrow> gatt_primary" where
  "service_view x = \<lparr>gp_uuid = uuid_text (sv_uuid x), gp_range = \<lparr>ar_start = sv_start x, ar_end = sv_end x\<rparr>\<rparr>"

definition service_ok :: "service \<Rightarrow> bool" where
  "service_ok x \<longleftrightarrow> att_uuid (sv_uuid x) \<and> sv_start x \<noteq> 0"

definition services_response :: "nat \<Rightarrow> service list \<Rightarrow> u8 list" where
  "services_response mtu xs = response mtu (\<lambda>buf. enc_read_by_grp_resp (Some (entries_of service_bytes xs)) buf mtu)"

definition asks_services :: "u16 \<Rightarrow> u8 list \<Rightarrow> u16 option" where
  "asks_services svc req = (case dec_read_by_grp_req (Some req) (length req) of
     Some (Some (_, start, end, u)) \<Rightarrow> if u = BT_UUID16 svc \<and> end = 0xFFFF then Some start else None
   | _ \<Rightarrow> None)"

lemma uuid_kind_length: "att_uuid u \<Longrightarrow> att_uuid v \<Longrightarrow> length (put_uuid_le u) = length (put_uuid_le v) \<Longrightarrow> uuid_kind u = uuid_kind v"
  by (cases "uuid_kind u"; cases "uuid_kind v") (auto simp: length_uuid_le)

text \<open>All entries of a response are of the kind of the first.\<close>

lemma kinds_of_fit:
  assumes "entries_fit mtu entry xs" "\<forall>x\<in>set xs. att_uuid (uuid x)" "\<And>x. length (entry x) = k + length (put_uuid_le (uuid x))"
    and "x \<in> set xs"
  shows "uuid_kind (uuid x) = uuid_kind (uuid (hd xs))"
proof (rule uuid_kind_length)
  show "att_uuid (uuid x)" "att_uuid (uuid (hd xs))"
    using assms by (auto simp: entries_fit_def)
  have "length (entry x) = length (entry (hd xs))"
    using assms(1,4) unfolding entries_fit_def by blast
  then show "length (put_uuid_le (uuid x)) = length (put_uuid_le (uuid (hd xs)))"
    unfolding assms(3) by simp
qed

lemma collect_map: "(\<And>x. x \<in> set xs \<Longrightarrow> f (g x) = Some (h x)) \<Longrightarrow> collect f (map g xs) = Some (map h xs)"
  by (induction xs) simp_all

lemma al_entries_of: "al_data (entries_of entry xs) = map entry xs" "al_len (entries_of entry xs) = of_nat (length (entry (hd xs)))"
  by (simp_all add: entries_of_def entry_list_def)

lemma take_list_ok: "list_ok al \<Longrightarrow> take (unat (al_num al)) (al_data al) = al_data al"
  by (simp add: list_ok_def)

lemma service_entry_bytes:
  "att_uuid (sv_uuid x) \<Longrightarrow> service_entry (uuid_kind (sv_uuid x)) (service_bytes x) = Some (service_view x)"
  using rd16_bytes16 [of "[]" "sv_start x"] rd16_bytes16 [of "bytes16 (sv_start x)" "sv_end x"]
  by (simp add: service_entry_def service_bytes_def service_view_def get_uuid128_entry [of _ 4 "bytes16 _ @ bytes16 _", simplified]
      uuid_text_128 numeral_2_eq_2)

lemma services_response_read:
  assumes "entries_fit mtu service_bytes xs" "\<forall>x\<in>set xs. service_ok x" "mtu < 65536" "pdu = services_response mtu xs"
  obtains al ty where "dec_read_by_grp_resp pdu (length pdu) = Some (Some al)" "service_type al = Some ty"
    "collect (service_entry ty) (take (unat (al_num al)) (al_data al)) = Some (map service_view xs)"
proof -
  let ?u = "sv_uuid (hd xs)"
  have uuids: "\<forall>x\<in>set xs. att_uuid (sv_uuid x)" "xs \<noteq> []"
    using assms(1,2) by (auto simp: service_ok_def entries_fit_def)
  then have u: "att_uuid ?u"
    by simp
  have len: "length (service_bytes x) = 4 + length (put_uuid_le (sv_uuid x))" for x
    by (simp add: service_bytes_def)
  have size: "length (service_bytes (hd xs)) = (if uuid_kind ?u = Short then 6 else 20)"
    using u by (simp add: len length_uuid_le)
  have sizes: "0 < length (service_bytes (hd xs))" "length (service_bytes (hd xs)) \<le> 255" "5 \<le> length (service_bytes (hd xs))"
    unfolding size by simp_all
  note read = entries_response(1) [OF assms(1) sizes(1,2) assms(3) sizes(3)]
  have "dec_read_by_grp_resp pdu (length pdu) = Some (Some (entries_of service_bytes xs))"
    using read unfolding assms(4) services_response_def by blast
  moreover have "service_type (entries_of service_bytes xs) = Some (uuid_kind ?u)"
    unfolding service_type_def al_entries_of size by (cases "uuid_kind ?u") simp_all
  moreover have "collect (service_entry (uuid_kind ?u)) (map service_bytes xs) = Some (map service_view xs)"
    using kinds_of_fit [OF assms(1) uuids(1) len] service_entry_bytes uuids(1) by (intro collect_map) metis
  moreover have "take (unat (al_num (entries_of service_bytes xs))) (al_data (entries_of service_bytes xs)) = map service_bytes xs"
    using take_list_ok [OF entries_of_fit(1) [OF assms(1) sizes(1) assms(3)]] by (simp add: al_entries_of)
  ultimately show ?thesis
    using that [of "entries_of service_bytes xs" "uuid_kind ?u"] by presburger
qed

lemma asks_services_encoded:
  "asks_services svc (ATT_OP_READ_BY_GROUP_REQ # bytes16 start @ bytes16 0xFFFF @ bytes16 svc) = Some start"
  using dec_encoded_range_uuid [of "BT_UUID16 svc" _ ATT_OP_READ_BY_GROUP_REQ start "0xFFFF"]
  by (simp add: asks_services_def dec_read_by_grp_req_def att_uuid_def uuid_len16_def)

lemma encoded_discover_services:
  "23 \<le> mtu \<Longrightarrow> encoded mtu (\<lambda>buf. encode_discover svc start end None buf mtu) =
    Some (ATT_OP_READ_BY_GROUP_REQ # bytes16 start @ bytes16 end @ bytes16 svc)"
  by (simp add: encode_discover_def enc_read_by_grp_req_def encoded_range_uuid att_uuid_def uuid_len16_def)

lemma all_cb_services:
  assumes "entries_fit mtu service_bytes xs" "\<forall>x\<in>set xs. service_ok x" "23 \<le> mtu" "mtu < 65536"
    and "dp_start dp \<le> sv_end (last xs)" "last xs = x" "dp_primaries dp @ map service_view xs = ps"
  shows "all_cb (encode_discover svc) mtu 0 (services_response mtu xs) dp = Some
    (if sv_end x \<noteq> 0xFFFF
     then Send (ATT_OP_READ_BY_GROUP_REQ # bytes16 (sv_end x + 1) @ bytes16 0xFFFF @ bytes16 svc)
       (dp\<lparr>dp_primaries := ps, dp_start := sv_end x + 1\<rparr>)
     else Call_back 0 ps)"
proof -
  obtain al ty where al: "dec_read_by_grp_resp (services_response mtu xs) (length (services_response mtu xs)) = Some (Some al)"
    "service_type al = Some ty" "collect (service_entry ty) (take (unat (al_num al)) (al_data al)) = Some (map service_view xs)"
    using services_response_read [OF assms(1,2,4) refl] by blast
  have "last_end (map service_view xs) = sv_end x"
    using assms(1,6) by (simp add: last_end_def last_map service_view_def entries_fit_def)
  then show ?thesis
    using al assms(5-7) encoded_discover_services [OF assms(3)]
    by (simp add: all_cb_def Let_def send_or_def not_less)
qed

interpretation services: handle_listing "all_cb (encode_discover svc) mtu" "asks_services svc" "entries_fit mtu service_bytes"
  "services_response mtu" service_view sv_start sv_end service_ok "\<lambda>x. sv_end x \<noteq> 0xFFFF" "\<lambda>dp. 23 \<le> mtu \<and> mtu < 65536"
  dp_start dp_primaries "\<lambda>rs. 0" for svc mtu
proof
  fix dp :: "gatt_primary discover_primary" and xs
  assume asms: "23 \<le> mtu \<and> mtu < 65536" "entries_fit mtu service_bytes xs" "\<forall>x\<in>set xs. service_ok x" "dp_start dp \<le> sv_end (last xs)"
  note cb = all_cb_services [OF asms(2,3) conjunct1 [OF asms(1)] conjunct2 [OF asms(1)] asms(4) refl refl]
  {
    assume "sv_end (last xs) \<noteq> 0xFFFF"
    then show "\<exists>req s'. all_cb (encode_discover svc) mtu 0 (services_response mtu xs) dp = Some (Send req s') \<and>
        (23 \<le> mtu \<and> mtu < 65536) \<and> asks_services svc req = Some (sv_end (last xs) + 1) \<and>
        dp_start s' = sv_end (last xs) + 1 \<and> dp_primaries s' = dp_primaries dp @ map service_view xs"
      using asms(1) by (simp add: cb asks_services_encoded)
  next
    assume "\<not> sv_end (last xs) \<noteq> 0xFFFF"
    then show "all_cb (encode_discover svc) mtu 0 (services_response mtu xs) dp =
        Some (Call_back 0 (dp_primaries dp @ map service_view xs))"
      by (simp add: cb)
  }
qed (auto simp: all_cb_def entries_fit_def)

section \<open>Characteristics\<close>

record characteristic =
  ch_handle :: u16
  ch_properties :: u8
  ch_value_handle :: u16
  ch_uuid :: bt_uuid

definition char_bytes :: "characteristic \<Rightarrow> u8 list" where
  "char_bytes x = (bytes16 (ch_handle x) @ ch_properties x # bytes16 (ch_value_handle x)) @ put_uuid_le (ch_uuid x)"

definition char_view :: "characteristic \<Rightarrow> gatt_char" where
  "char_view x = \<lparr>gc_uuid = uuid_text (ch_uuid x), gc_handle = ch_handle x, gc_properties = ch_properties x,
     gc_value_handle = ch_value_handle x\<rparr>"

definition char_ok :: "u16 \<Rightarrow> characteristic \<Rightarrow> bool" where
  "char_ok end x \<longleftrightarrow> att_uuid (ch_uuid x) \<and> ch_handle x \<noteq> 0 \<and> ch_handle x < end"

definition chars_response :: "nat \<Rightarrow> characteristic list \<Rightarrow> u8 list" where
  "chars_response mtu xs = response mtu (\<lambda>buf. enc_read_by_type_resp (Some (entries_of char_bytes xs)) (Some buf) mtu)"

definition asks_chars :: "u16 \<Rightarrow> u8 list \<Rightarrow> u16 option" where
  "asks_chars end req = (case dec_read_by_type_req (Some req) (length req) of
     Some (Some (_, start, e, u)) \<Rightarrow> if u = BT_UUID16 GATT_CHARAC_UUID \<and> e = end then Some start else None
   | _ \<Rightarrow> None)"

lemma asks_chars_encoded:
  "asks_chars end (ATT_OP_READ_BY_TYPE_REQ # bytes16 start @ bytes16 end @ bytes16 GATT_CHARAC_UUID) = Some start"
  using dec_encoded_range_uuid [of "BT_UUID16 GATT_CHARAC_UUID" _ ATT_OP_READ_BY_TYPE_REQ start "end"]
  by (simp add: asks_chars_def dec_read_by_type_req_def att_uuid_def uuid_len16_def)

lemma char_entries_map:
  assumes "\<forall>x\<in>set xs. att_uuid (ch_uuid x) \<and> uuid_kind (ch_uuid x) = ty"
  shows "char_entries ty None (map char_bytes xs) h cs =
    Some (if xs = [] then h else ch_handle (last xs), cs @ map char_view xs)"
  using assms
proof (induction xs arbitrary: h cs)
  case (Cons x xs)
  have uuid: "get_uuid128 ty (char_bytes x) 5 = Some (BT_UUID128 (as128 (ch_uuid x)))"
    using Cons.prems get_uuid128_entry [of "ch_uuid x" 5 "bytes16 (ch_handle x) @ ch_properties x # bytes16 (ch_value_handle x)"]
    by (auto simp: char_bytes_def)
  have "rd16 (char_bytes x) 0 = Some (ch_handle x)" "rd (char_bytes x) 2 = Some (ch_properties x)"
    "rd16 (char_bytes x) 3 = Some (ch_value_handle x)"
    using rd16_bytes16 [of "[]" "ch_handle x"] rd16_bytes16 [of "bytes16 (ch_handle x) @ [ch_properties x]" "ch_value_handle x"]
    by (simp_all add: char_bytes_def nth_append)
  then show ?case
    using Cons uuid by (simp add: unwanted_def char_view_def uuid_text_128)
qed simp

lemma chars_response_read:
  assumes "entries_fit mtu char_bytes xs" "\<forall>x\<in>set xs. char_ok e x" "mtu < 65536" "pdu = chars_response mtu xs"
  obtains al where "dec_read_by_type_resp pdu (length pdu) = Some (Some al)" "list_ok al"
    "\<And>cs. char_entries (if al_len al = 7 then Short else Long) None (al_data al) 0 cs =
      Some (ch_handle (last xs), cs @ map char_view xs)"
proof -
  let ?u = "ch_uuid (hd xs)"
  have uuids: "\<forall>x\<in>set xs. att_uuid (ch_uuid x)" "xs \<noteq> []"
    using assms(1,2) by (auto simp: char_ok_def entries_fit_def)
  then have u: "att_uuid ?u"
    by simp
  have len: "length (char_bytes x) = 5 + length (put_uuid_le (ch_uuid x))" for x
    by (simp add: char_bytes_def)
  have size: "length (char_bytes (hd xs)) = (if uuid_kind ?u = Short then 7 else 21)"
    using u by (simp add: len length_uuid_le)
  have sizes: "0 < length (char_bytes (hd xs))" "length (char_bytes (hd xs)) \<le> 255" "3 \<le> length (char_bytes (hd xs))"
    unfolding size by simp_all
  note read = entries_response(2) [OF assms(1) sizes(1,2) assms(3) sizes(3)]
  have "dec_read_by_type_resp pdu (length pdu) = Some (Some (entries_of char_bytes xs))"
    using read unfolding assms(4) chars_response_def by blast
  moreover have "(if al_len (entries_of char_bytes xs) = 7 then Short else Long) = uuid_kind ?u"
    unfolding al_entries_of size by (cases "uuid_kind ?u") simp_all
  moreover have "\<forall>x\<in>set xs. att_uuid (ch_uuid x) \<and> uuid_kind (ch_uuid x) = uuid_kind ?u"
    using kinds_of_fit [OF assms(1) uuids(1) len] uuids(1) by blast
  then have "char_entries (uuid_kind ?u) None (map char_bytes xs) 0 cs = Some (ch_handle (last xs), cs @ map char_view xs)" for cs
    using char_entries_map [of xs "uuid_kind ?u"] uuids(2) by presburger
  ultimately show ?thesis
    using that [of "entries_of char_bytes xs"] entries_of_fit(1) [OF assms(1) sizes(1) assms(3)]
    unfolding al_entries_of(1) by presburger
qed

interpretation characteristics: handle_listing "char_discovered_cb mtu" "asks_chars e" "entries_fit mtu char_bytes"
  "chars_response mtu" char_view ch_handle ch_handle "char_ok e" "\<lambda>x. ch_handle x \<noteq> 0 \<and> ch_handle x \<noteq> 0xFFFF \<and> ch_handle x + 1 < e"
  "\<lambda>dc. 23 \<le> mtu \<and> mtu < 65536 \<and> dc_uuid dc = None \<and> dc_end dc = e"
  dc_start dc_characteristics "\<lambda>rs. if rs = [] then ATT_ECODE_ATTR_NOT_FOUND else 0" for mtu e
proof
  fix dc :: discover_char and xs
  assume asms: "23 \<le> mtu \<and> mtu < 65536 \<and> dc_uuid dc = None \<and> dc_end dc = e" "entries_fit mtu char_bytes xs"
    "\<forall>x\<in>set xs. char_ok e x" "dc_start dc \<le> ch_handle (last xs)"
  have mtu: "23 \<le> mtu" "mtu < 65536"
    using asms(1) by simp_all
  obtain al where al: "dec_read_by_type_resp (chars_response mtu xs) (length (chars_response mtu xs)) = Some (Some al)" "list_ok al"
    "\<And>cs. char_entries (if al_len al = 7 then Short else Long) None (al_data al) 0 cs = Some (ch_handle (last xs), cs @ map char_view xs)"
    using chars_response_read [OF asms(2,3) mtu(2) refl] by blast
  have "char_entries (if al_len al = 7 then Short else Long) (dc_uuid dc) (al_data al) 0 (dc_characteristics dc) =
      Some (ch_handle (last xs), dc_characteristics dc @ map char_view xs)"
    using al(3) asms(1) by simp
  note cb = char_cb_list [OF al(1,2) mtu(1) this]
  {
    assume "ch_handle (last xs) \<noteq> 0 \<and> ch_handle (last xs) \<noteq> 0xFFFF \<and> ch_handle (last xs) + 1 < e"
    then show "\<exists>req s'. char_discovered_cb mtu 0 (chars_response mtu xs) dc = Some (Send req s') \<and>
        (23 \<le> mtu \<and> mtu < 65536 \<and> dc_uuid s' = None \<and> dc_end s' = e) \<and> asks_chars e req = Some (ch_handle (last xs) + 1) \<and>
        dc_start s' = ch_handle (last xs) + 1 \<and> dc_characteristics s' = dc_characteristics dc @ map char_view xs"
      using asms(1,4) by (simp add: cb asks_chars_encoded not_less)
  next
    assume "\<not> (ch_handle (last xs) \<noteq> 0 \<and> ch_handle (last xs) \<noteq> 0xFFFF \<and> ch_handle (last xs) + 1 < e)"
    moreover have "char_ok e (last xs)"
      using asms(2,3) by (simp add: entries_fit_def)
    then have "ch_handle (last xs) \<noteq> 0" "ch_handle (last xs) \<noteq> 0xFFFF"
      by (auto simp: char_ok_def)
    ultimately show "char_discovered_cb mtu 0 (chars_response mtu xs) dc =
        Some (Call_back 0 (dc_characteristics dc @ map char_view xs))"
      using asms(1,4) by (simp add: cb)
  }
next
  fix x y
  assume asms: "char_ok e x" "char_ok e y" "ch_handle x < ch_handle y" "ch_handle y \<le> ch_handle y"
  then have "ch_handle x \<noteq> 0xFFFF"
    by auto
  then show "ch_handle x \<noteq> 0 \<and> ch_handle x \<noteq> 0xFFFF \<and> ch_handle x + 1 < e"
    using asms unat_Suc16 [of "ch_handle x"] by (auto simp: char_ok_def word_less_nat_alt)
qed (auto simp: char_discovered_cb_def entries_fit_def)

section \<open>Descriptors\<close>

record attribute =
  at_handle :: u16
  at_type :: bt_uuid

definition attribute_bytes :: "attribute \<Rightarrow> u8 list" where
  "attribute_bytes x = bytes16 (at_handle x) @ put_uuid_le (at_type x)"

definition attribute_view :: "attribute \<Rightarrow> gatt_desc" where
  "attribute_view x = \<lparr>gd_uuid = uuid_text (at_type x), gd_handle = at_handle x,
     gd_uuid16 = (case at_type x of BT_UUID16 v \<Rightarrow> v | _ \<Rightarrow> 0)\<rparr>"

definition attribute_ok :: "u16 \<Rightarrow> attribute \<Rightarrow> bool" where
  "attribute_ok end x \<longleftrightarrow> att_uuid (at_type x) \<and> at_handle x \<le> end"

definition attributes_response :: "nat \<Rightarrow> attribute list \<Rightarrow> u8 list" where
  "attributes_response mtu xs = response mtu (\<lambda>buf. enc_find_info_resp
     (if uuid_kind (at_type (hd xs)) = Short then 0x01 else 0x02) (Some (entries_of attribute_bytes xs)) (Some buf) mtu)"

definition asks_attributes :: "u16 \<Rightarrow> u8 list \<Rightarrow> u16 option" where
  "asks_attributes end req = (case dec_find_info_req (Some req) (length req) of
     Some (Some (_, start, e)) \<Rightarrow> if e = end then Some start else None
   | _ \<Rightarrow> None)"

lemma asks_attributes_encoded:
  "asks_attributes end (ATT_OP_FIND_INFO_REQ # bytes16 start @ bytes16 end) = Some start"
  by (simp add: asks_attributes_def dec_find_info_req_def dec_two_def)

lemma attribute_entry:
  assumes "att_uuid (at_type x)" "uuid_kind (at_type x) = ty"
  shows "get_uuid128 ty (attribute_bytes x) 2 = Some (BT_UUID128 (as128 (at_type x)))"
    "rd16 (attribute_bytes x) 0 = Some (at_handle x)"
    "ty = Short \<Longrightarrow> rd16 (attribute_bytes x) 2 = Some (gd_uuid16 (attribute_view x))"
    "ty = Long \<Longrightarrow> gd_uuid16 (attribute_view x) = 0"
proof -
  show "get_uuid128 ty (attribute_bytes x) 2 = Some (BT_UUID128 (as128 (at_type x)))"
    using get_uuid128_entry [OF assms(1), of 2 "bytes16 (at_handle x)"] assms(2) by (simp add: attribute_bytes_def)
  show "rd16 (attribute_bytes x) 0 = Some (at_handle x)"
    using rd16_bytes16 [of "[]" "at_handle x"] by (simp add: attribute_bytes_def)
  show "rd16 (attribute_bytes x) 2 = Some (gd_uuid16 (attribute_view x))" if "ty = Short"
    using assms that rd16_bytes16 [of "bytes16 (at_handle x)" _ "[]"]
    by (cases rule: att_uuid_cases) (auto simp: attribute_bytes_def attribute_view_def uuid_kind_def)
  show "gd_uuid16 (attribute_view x) = 0" if "ty = Long"
    using assms that by (cases rule: att_uuid_cases) (auto simp: attribute_view_def uuid_kind_def)
qed

lemma desc_entries_map:
  assumes "\<forall>x\<in>set xs. att_uuid (at_type x) \<and> uuid_kind (at_type x) = ty"
  shows "desc_entries ty None (map attribute_bytes xs) h ds =
    Some (False, if xs = [] then h else at_handle (last xs), ds @ map attribute_view xs)"
  using assms
proof (induction xs arbitrary: h ds)
  case (Cons x xs)
  have x: "att_uuid (at_type x)" "uuid_kind (at_type x) = ty"
    using Cons.prems by auto
  have view: "\<lparr>gd_uuid = uuid_text (at_type x), gd_handle = at_handle x, gd_uuid16 = gd_uuid16 (attribute_view x)\<rparr> = attribute_view x"
    by (simp add: attribute_view_def)
  have tail: "\<forall>x\<in>set xs. att_uuid (at_type x) \<and> uuid_kind (at_type x) = ty"
    using Cons.prems by simp
  show ?case
    using Cons.IH [OF tail] attribute_entry [OF x] view uuid_text_128 [OF x(1)]
    by (cases ty) (simp_all add: unwanted_def Let_def)
qed simp

lemma attributes_response_read:
  assumes "entries_fit mtu attribute_bytes xs" "\<forall>x\<in>set xs. attribute_ok e x" "mtu < 65536" "pdu = attributes_response mtu xs"
  obtains f al where "dec_find_info_resp (Some pdu) (length pdu) = Some (Some (f, al))" "list_ok al"
    "\<And>ds. desc_entries (if f = 0x01 then Short else Long) None (al_data al) 0xFFFF ds =
      Some (False, at_handle (last xs), ds @ map attribute_view xs)"
proof -
  let ?u = "at_type (hd xs)"
  let ?f = "if uuid_kind ?u = Short then 0x01 else 0x02 :: u8"
  have uuids: "\<forall>x\<in>set xs. att_uuid (at_type x)" "xs \<noteq> []"
    using assms(1,2) by (auto simp: attribute_ok_def entries_fit_def)
  then have u: "att_uuid ?u"
    by simp
  have len: "length (attribute_bytes x) = 2 + length (put_uuid_le (at_type x))" for x
    by (simp add: attribute_bytes_def)
  have size: "length (attribute_bytes (hd xs)) = (if uuid_kind ?u = Short then 4 else 18)"
    using u by (simp add: len length_uuid_le)
  have sizes: "0 < length (attribute_bytes (hd xs))" "length (attribute_bytes (hd xs)) \<le> 255"
    unfolding size by simp_all
  have format: "unat (info_len ?f) = length (attribute_bytes (hd xs))"
    unfolding size by (simp add: info_len_def)
  note read = entries_response(3) [OF assms(1) sizes(1,2) assms(3) format]
  have "dec_find_info_resp (Some pdu) (length pdu) = Some (Some (?f, entries_of attribute_bytes xs))"
    using read unfolding assms(4) attributes_response_def by blast
  moreover have "(if ?f = 0x01 then Short else Long) = uuid_kind ?u"
    by (cases "uuid_kind ?u") simp_all
  moreover have "\<forall>x\<in>set xs. att_uuid (at_type x) \<and> uuid_kind (at_type x) = uuid_kind ?u"
    using kinds_of_fit [OF assms(1) uuids(1) len] uuids(1) by blast
  then have "desc_entries (uuid_kind ?u) None (map attribute_bytes xs) 0xFFFF ds =
      Some (False, at_handle (last xs), ds @ map attribute_view xs)" for ds
    using desc_entries_map [of xs "uuid_kind ?u"] uuids(2) by presburger
  ultimately show ?thesis
    using that [of ?f "entries_of attribute_bytes xs"] entries_of_fit(1) [OF assms(1) sizes(1) assms(3)]
    unfolding al_entries_of(1) by presburger
qed

interpretation attributes: handle_listing "desc_discovered_cb mtu" "asks_attributes e" "entries_fit mtu attribute_bytes"
  "attributes_response mtu" attribute_view at_handle at_handle "attribute_ok e" "\<lambda>x. at_handle x < e"
  "\<lambda>dd. 23 \<le> mtu \<and> mtu < 65536 \<and> dd_uuid dd = None \<and> dd_end dd = e"
  dd_start dd_descriptors "\<lambda>rs. if rs = [] then ATT_ECODE_ATTR_NOT_FOUND else 0" for mtu e
proof
  fix dd :: discover_desc and xs
  assume asms: "23 \<le> mtu \<and> mtu < 65536 \<and> dd_uuid dd = None \<and> dd_end dd = e" "entries_fit mtu attribute_bytes xs"
    "\<forall>x\<in>set xs. attribute_ok e x" "dd_start dd \<le> at_handle (last xs)"
  have mtu: "23 \<le> mtu" "mtu < 65536"
    using asms(1) by simp_all
  obtain f al where al: "dec_find_info_resp (Some (attributes_response mtu xs)) (length (attributes_response mtu xs)) = Some (Some (f, al))"
    "list_ok al" "\<And>ds. desc_entries (if f = 0x01 then Short else Long) None (al_data al) 0xFFFF ds =
      Some (False, at_handle (last xs), ds @ map attribute_view xs)"
    using attributes_response_read [OF asms(2,3) mtu(2) refl] by blast
  have "desc_entries (if f = 0x01 then Short else Long) (dd_uuid dd) (al_data al) 0xFFFF (dd_descriptors dd) =
      Some (False, at_handle (last xs), dd_descriptors dd @ map attribute_view xs)"
    using al(3) asms(1) by simp
  note cb = desc_cb_list [OF al(1,2) mtu(1) this]
  {
    assume "at_handle (last xs) < e"
    then show "\<exists>req s'. desc_discovered_cb mtu 0 (attributes_response mtu xs) dd = Some (Send req s') \<and>
        (23 \<le> mtu \<and> mtu < 65536 \<and> dd_uuid s' = None \<and> dd_end s' = e) \<and> asks_attributes e req = Some (at_handle (last xs) + 1) \<and>
        dd_start s' = at_handle (last xs) + 1 \<and> dd_descriptors s' = dd_descriptors dd @ map attribute_view xs"
      using asms(1,4) by (simp add: cb asks_attributes_encoded not_less)
  next
    assume "\<not> at_handle (last xs) < e"
    then show "desc_discovered_cb mtu 0 (attributes_response mtu xs) dd =
        Some (Call_back 0 (dd_descriptors dd @ map attribute_view xs))"
      using asms(1,4) by (simp add: cb not_less)
  }
qed (auto simp: desc_discovered_cb_def entries_fit_def attribute_ok_def)

end
