(* ===== verification/Gatt_Read.thy ===== *)
theory Gatt_Read
  imports Gatt_Client
begin

text \<open>
  Reading and writing long values: the read procedure against a server that gives its value in
  pieces, and the prepared writes that carry a value.
\<close>

unbundle bit_operations_syntax

section \<open>Reading\<close>

fun drive_read :: "server \<Rightarrow> nat \<Rightarrow> nat \<Rightarrow>
    (u8 \<Rightarrow> u8 list \<Rightarrow> read_long_data \<Rightarrow> read_long_data read_reaction option) \<Rightarrow>
    read_long_data read_reaction \<Rightarrow> read_long_data read_reaction option" where
  "drive_read srv mtu 0 cb r = Some r"
| "drive_read srv mtu (Suc n) cb (Read_done e pdu len) = Some (Read_done e pdu len)"
| "drive_read srv mtu (Suc n) cb (Read_on req rl) = (case srv n req of (status, pdu) \<Rightarrow>
     do { r \<leftarrow> cb status pdu rl; drive_read srv mtu n (read_blob_helper mtu) r })"

lemma drive_read_done [simp]: "drive_read srv mtu n cb (Read_done e pdu len) = Some (Read_done e pdu len)"
  by (cases n) simp_all

text \<open>A server that answers reads of one attribute with the parts of its value.\<close>

definition value_part :: "nat \<Rightarrow> u8 list \<Rightarrow> nat \<Rightarrow> u8 list" where
  "value_part mtu v i = take (mtu - 1) (drop i v)"

definition reads_value :: "nat \<Rightarrow> u16 \<Rightarrow> u8 list \<Rightarrow> server \<Rightarrow> bool" where
  "reads_value mtu handle v srv \<longleftrightarrow> (\<forall>k.
     srv k (ATT_OP_READ_REQ # bytes16 handle) = (0, ATT_OP_READ_RESP # value_part mtu v 0) \<and>
     (\<forall>i. srv k (ATT_OP_READ_BLOB_REQ # bytes16 handle @ bytes16 i) = (0, ATT_OP_READ_BLOB_RESP # value_part mtu v (unat i))))"

lemma encoded_read_req: "23 \<le> mtu \<Longrightarrow> encoded mtu (\<lambda>buf. enc_read_req handle (Some buf) mtu) = Some (ATT_OP_READ_REQ # bytes16 handle)"
  by (simp add: enc_read_req_def encoded_fixed)

lemma encoded_blob_req:
  "23 \<le> mtu \<Longrightarrow> encoded mtu (\<lambda>buf. enc_read_blob_req handle offset (Some buf) mtu) =
    Some (ATT_OP_READ_BLOB_REQ # bytes16 handle @ bytes16 offset)"
  by (simp add: enc_read_blob_req_def encoded_fixed)

text \<open>The state while the first \<open>i\<close> bytes have been read: a whole number of full responses.\<close>

definition read_so_far :: "u16 \<Rightarrow> u8 list \<Rightarrow> nat \<Rightarrow> read_long_data" where
  "read_so_far handle v i = \<lparr>rl_handle = handle, rl_buffer = ATT_OP_READ_RESP # take i v, rl_size = of_nat (i + 1)\<rparr>"

definition ask_from :: "u16 \<Rightarrow> u8 list \<Rightarrow> nat \<Rightarrow> read_long_data read_reaction" where
  "ask_from handle v i = Read_on (ATT_OP_READ_BLOB_REQ # bytes16 handle @ bytes16 (of_nat i)) (read_so_far handle v i)"

lemma ask_blob_from:
  "23 \<le> mtu \<Longrightarrow> ask_blob mtu (of_nat i) (read_so_far handle v i) = Some (ask_from handle v i)"
  by (simp add: ask_blob_def encoded_blob_req ask_from_def read_so_far_def)

lemma read_blob_part:
  assumes "23 \<le> mtu" "mtu < 65536" "length v < 65535" "i \<le> length v"
  shows "read_blob_helper mtu 0 (ATT_OP_READ_BLOB_RESP # value_part mtu v i) (read_so_far handle v i) = Some
    (if i + (mtu - 1) \<le> length v then ask_from handle v (i + (mtu - 1))
     else Read_done 0 (ATT_OP_READ_RESP # v) (of_nat (length v + 1)))"
proof -
  let ?p = "value_part mtu v i"
  have len: "length ?p = min (mtu - 1) (length v - i)"
    by (simp add: value_part_def min.commute)
  have small: "length ?p + 1 < 65536" "i + 1 < 65536"
    using assms unfolding len by linarith+
  have rlen: "unat (of_nat (length (ATT_OP_READ_BLOB_RESP # ?p)) :: u16) = length ?p + 1"
    using small(1) by (simp add: unat_of_nat16 del: of_nat_Suc)
  have rsize: "unat (rl_size (read_so_far handle v i)) = i + 1"
    using small(2) by (simp add: read_so_far_def unat_of_nat16 del: of_nat_Suc)
  have buf: "take (i + 1) (rl_buffer (read_so_far handle v i)) = ATT_OP_READ_RESP # take i v"
    by (simp add: read_so_far_def)
  have bytes: "rds (ATT_OP_READ_BLOB_RESP # ?p) 1 (length ?p) = Some ?p"
    by (simp add: rds_def)
  have "take (length ?p) (drop i v) = ?p"
    unfolding len by (cases "mtu - 1 \<le> length v - i") (simp_all add: value_part_def)
  then have join: "take i v @ ?p = take (i + length ?p) v"
    by (simp add: take_add)
  show ?thesis
  proof (cases "i = length v")
    case True
    have "\<not> length v + (mtu - 1) \<le> length v"
      using assms(1) by linarith
    then show ?thesis
      unfolding True by (simp only: if_False) (simp add: read_blob_helper_def value_part_def read_so_far_def Let_def)
  next
    case False
    then have one: "(of_nat (length (ATT_OP_READ_BLOB_RESP # ?p)) :: u16) \<noteq> 1"
      using rlen len assms(1,4) by (auto simp: word_unat_eq_iff)
    have state: "(read_so_far handle v i)\<lparr>rl_buffer := (ATT_OP_READ_RESP # take i v) @ ?p,
        rl_size := rl_size (read_so_far handle v i) + (of_nat (length (ATT_OP_READ_BLOB_RESP # ?p)) - 1)\<rparr> =
      read_so_far handle v (i + length ?p)"
      using join by (simp add: read_so_far_def algebra_simps)
    have step: "read_blob_helper mtu 0 (ATT_OP_READ_BLOB_RESP # ?p) (read_so_far handle v i) =
      (if length ?p + 1 < mtu
       then Some (Read_done 0 (rl_buffer (read_so_far handle v (i + length ?p))) (rl_size (read_so_far handle v (i + length ?p))))
       else ask_blob mtu (rl_size (read_so_far handle v (i + length ?p)) - 1) (read_so_far handle v (i + length ?p)))"
      unfolding read_blob_helper_def Let_def rlen rsize buf using one bytes
      by (simp only: state simp_thms if_False bind.bind_lunit add_diff_cancel_right')
    show ?thesis
    proof (cases "i + (mtu - 1) \<le> length v")
      case True
      then have "length ?p = mtu - 1"
        unfolding len by simp
      then show ?thesis
        unfolding step using True assms(1) ask_blob_from [of mtu "i + (mtu - 1)" handle v] by (simp add: read_so_far_def)
    next
      case part: False
      then have "i + length ?p = length v" "length ?p + 1 < mtu"
        using assms(4) unfolding len by linarith+
      then show ?thesis
        unfolding step using part by (simp add: read_so_far_def)
    qed
  qed
qed

lemma read_parts:
  assumes "23 \<le> mtu" "mtu < 65536" "length v < 65535" "reads_value mtu handle v srv"
  shows "i \<le> length v \<Longrightarrow> length v - i < n \<Longrightarrow>
    drive_read srv mtu n (read_blob_helper mtu) (ask_from handle v i) =
      Some (Read_done 0 (ATT_OP_READ_RESP # v) (of_nat (length v + 1)))"
proof (induction n arbitrary: i)
  case (Suc n)
  have answer: "srv n (ATT_OP_READ_BLOB_REQ # bytes16 handle @ bytes16 (of_nat i)) = (0, ATT_OP_READ_BLOB_RESP # value_part mtu v i)"
    using assms(3,4) Suc.prems(1) by (simp add: reads_value_def unat_of_nat16)
  show ?case
  proof (cases "i + (mtu - 1) \<le> length v")
    case True
    moreover have "length v - (i + (mtu - 1)) < n"
      using Suc.prems(2) True assms(1) by linarith
    ultimately show ?thesis
      using answer read_blob_part [OF assms(1-3) Suc.prems(1)] Suc.IH [of "i + (mtu - 1)"] by (simp add: ask_from_def)
  next
    case False
    then show ?thesis
      using answer read_blob_part [OF assms(1-3) Suc.prems(1)] by (simp add: ask_from_def)
  qed
qed simp

lemma read_whole_value:
  assumes "23 \<le> mtu" "mtu < 65536" "length v < 65535" "reads_value mtu handle v srv" "gatt_read_char mtu handle = Some r"
    and "length v + 1 < n"
  shows "drive_read srv mtu n (read_char_helper mtu) r = Some (Read_done 0 (ATT_OP_READ_RESP # v) (of_nat (length v + 1)))"
proof -
  obtain n' where n: "n = Suc n'"
    using assms(6) by (cases n) simp_all
  have r: "r = Read_on (ATT_OP_READ_REQ # bytes16 handle) \<lparr>rl_handle = handle, rl_buffer = [], rl_size = 0\<rparr>"
    using assms(1,5) by (simp add: gatt_read_char_def encoded_read_req)
  let ?p = "value_part mtu v 0"
  have len: "length ?p = min (mtu - 1) (length v)"
    by (simp add: value_part_def min.commute)
  have rlen: "unat (of_nat (length (ATT_OP_READ_RESP # ?p)) :: u16) = length ?p + 1"
    using assms(2,3) unfolding len by (simp add: unat_of_nat16 len del: of_nat_Suc)
  have answer: "srv n' (ATT_OP_READ_REQ # bytes16 handle) = (0, ATT_OP_READ_RESP # ?p)"
    using assms(4) by (simp add: reads_value_def)
  show ?thesis
  proof (cases "mtu - 1 \<le> length v")
    case True
    then have p: "?p = take (mtu - 1) v" "length ?p + 1 = mtu"
      using assms(1) by (simp_all add: value_part_def)
    have "read_char_helper mtu 0 (ATT_OP_READ_RESP # ?p) \<lparr>rl_handle = handle, rl_buffer = [], rl_size = 0\<rparr> =
        ask_blob mtu (of_nat (mtu - 1)) (read_so_far handle v (mtu - 1))"
      unfolding read_char_helper_def Let_def rlen using p by (simp add: read_so_far_def)
    then have "read_char_helper mtu 0 (ATT_OP_READ_RESP # ?p) \<lparr>rl_handle = handle, rl_buffer = [], rl_size = 0\<rparr> =
        Some (ask_from handle v (mtu - 1))"
      unfolding ask_blob_from [OF assms(1)] .
    then show ?thesis
      using answer read_parts [OF assms(1-4) True, of n'] assms(1,6) n by (simp add: r)
  next
    case False
    then have p: "?p = v" "length ?p + 1 < mtu"
      by (simp_all add: value_part_def)
    have "read_char_helper mtu 0 (ATT_OP_READ_RESP # ?p) \<lparr>rl_handle = handle, rl_buffer = [], rl_size = 0\<rparr> =
        Some (Read_done 0 (ATT_OP_READ_RESP # v) (of_nat (length v + 1)))"
      unfolding read_char_helper_def Let_def rlen using p by simp
    then show ?thesis
      using answer n by (simp add: r)
  qed
qed

section \<open>Writing\<close>

text \<open>
  A server that accepts every prepared write and the final execution; what it has been given are
  the parts in order, each with its offset.
\<close>

fun accepted_parts :: "nat \<Rightarrow> nat \<Rightarrow> write_reaction \<Rightarrow> ((u16 \<times> u16 \<times> u8 list) list \<times> write_reaction) option" where
  "accepted_parts mtu 0 r = Some ([], r)"
| "accepted_parts mtu (Suc n) (Write_on req wl) = do {
     part \<leftarrow> dec_prep_write_req (Some req) (length req) (Some (replicate mtu 0));
     (case part of
        None \<Rightarrow> None
      | Some (_, handle, offset, value, vlen) \<Rightarrow> do {
          r \<leftarrow> prepare_write_cb mtu 0 (ATT_OP_PREP_WRITE_RESP # drop 1 req) wl;
          (parts, r) \<leftarrow> accepted_parts mtu n r;
          Some ((handle, offset, take vlen value) # parts, r) }) }"
| "accepted_parts mtu (Suc n) r = Some ([], r)"

text \<open>The parts that a value is cut into.\<close>

function value_parts :: "nat \<Rightarrow> u8 list \<Rightarrow> nat \<Rightarrow> (nat \<times> u8 list) list" where
  "value_parts m v i = (if 0 < m \<and> i < length v then (i, take m (drop i v)) # value_parts m v (i + m) else [])"
  by auto
termination
  by (relation "measure (\<lambda>(m, v, i). length v - i)") auto

declare value_parts.simps [simp del]

lemma concat_value_parts: "0 < m \<Longrightarrow> concat (map snd (value_parts m v i)) = drop i v"
proof (induction m v i rule: value_parts.induct)
  case (1 m v i)
  have "take m (drop i v) @ drop (i + m) v = drop i v"
    by (metis append_take_drop_id drop_drop add.commute)
  then show ?case
    using 1 by (cases "i < length v") (simp_all add: value_parts.simps [of m v i])
qed

definition write_from :: "u16 \<Rightarrow> u8 list \<Rightarrow> nat \<Rightarrow> write_long_data" where
  "write_from handle v i = \<lparr>wl_handle = handle, wl_offset = of_nat i, wl_value = v\<rparr>"

definition part_request :: "nat \<Rightarrow> u16 \<Rightarrow> u8 list \<Rightarrow> nat \<Rightarrow> u8 list" where
  "part_request mtu handle v i = (ATT_OP_PREP_WRITE_REQ # bytes16 handle @ bytes16 (of_nat i)) @ take (mtu - 5) (drop i v)"

lemma put_value_take: "n \<le> length v \<Longrightarrow> put_value hdr v n buf = put_value hdr (take n v) (length (take n v)) buf"
proof -
  assume "n \<le> length v"
  then have "length (take n v) = n" "rds (take n v) 0 n = rds v 0 n"
    by (simp_all add: rds_def)
  then show ?thesis
    unfolding put_value_def by presburger
qed

lemma prepare_write_part:
  assumes "23 \<le> mtu" "mtu < 65536" "i < length v" "length v < 65536"
  shows "prepare_write mtu (write_from handle v i) = Some (Write_on (part_request mtu handle v i) (write_from handle v i))"
proof -
  let ?hdr = "ATT_OP_PREP_WRITE_REQ # bytes16 handle @ bytes16 (of_nat i)"
  have off: "unat (of_nat i :: u16) = i"
    using assms(3,4) by (simp add: unat_of_nat16)
  let ?n = "cut (length v - i) mtu 5"
  have cut: "?n = min (mtu - 5) (length v - i)"
    using assms(1) by (simp add: cut_def size_minus_def min_def)
  have "put_value ?hdr (drop i v) ?n buf = put_value ?hdr (take ?n (drop i v)) (length (take ?n (drop i v))) buf" for buf
    by (rule put_value_take) (simp add: cut)
  moreover have "take ?n (drop i v) = take (mtu - 5) (drop i v)"
    unfolding cut by (cases "mtu - 5 \<le> length v - i") simp_all
  moreover have "encoded mtu (\<lambda>buf. put_value ?hdr (take (mtu - 5) (drop i v)) (length (take (mtu - 5) (drop i v))) buf) =
      Some (part_request mtu handle v i)"
    unfolding part_request_def using assms(1,2) by (intro encoded_value) simp_all
  ultimately have "encoded mtu (\<lambda>buf. enc_prep_write_req handle (of_nat i) (drop i v) (length v - i) (Some buf) mtu) =
      Some (part_request mtu handle v i)"
    by (simp add: enc_prep_write_req_def)
  then show ?thesis
    using assms(3) by (simp add: prepare_write_def write_from_def off Let_def part_request_def)
qed

lemma dec_part_request:
  assumes "23 \<le> mtu"
  obtains vb where "dec_prep_write_req (Some (part_request mtu handle v i)) (length (part_request mtu handle v i))
      (Some (replicate mtu 0)) =
    Some (Some (of_nat (length (part_request mtu handle v i)), handle, of_nat i, vb, length (take (mtu - 5) (drop i v))))"
    "take (length (take (mtu - 5) (drop i v))) vb = take (mtu - 5) (drop i v)"
proof -
  define q where q: "q = take (mtu - 5) (drop i v)"
  have "length q \<le> mtu"
    by (simp add: q)
  then have "put_bytes (replicate mtu 0) 0 q = Some (q @ drop (length q) (replicate mtu 0))"
    by (intro put_bytes_0) simp
  then show ?thesis
    using that [of "q @ drop (length q) (replicate mtu 0)"] that [of "replicate mtu 0"] unfolding part_request_def q [symmetric]
    by (cases "q = []") (simp_all add: dec_prep_write_req_def dec_prep_write_def rds_def)
qed

lemma parts_accepted:
  assumes "23 \<le> mtu" "mtu < 65536" "length v < 65536"
  shows "i < length v \<Longrightarrow> length v - i < n \<Longrightarrow>
    accepted_parts mtu n (Write_on (part_request mtu handle v i) (write_from handle v i)) =
      Some (map (\<lambda>(j, p). (handle, of_nat j, p)) (value_parts (mtu - 5) v i), Write_last [ATT_OP_EXEC_WRITE_REQ, 1])"
proof (induction n arbitrary: i)
  case (Suc n)
  let ?p = "take (mtu - 5) (drop i v)"
  obtain vb where dec: "dec_prep_write_req (Some (part_request mtu handle v i)) (length (part_request mtu handle v i))
      (Some (replicate mtu 0)) = Some (Some (of_nat (length (part_request mtu handle v i)), handle, of_nat i, vb, length ?p))"
    "take (length ?p) vb = ?p"
    using dec_part_request [OF assms(1)] by metis
  have parts: "value_parts (mtu - 5) v i = (i, ?p) # value_parts (mtu - 5) v (i + (mtu - 5))"
    using Suc.prems(1) assms(1) by (simp add: value_parts.simps [of _ v i])
  have off: "(write_from handle v i)\<lparr>wl_offset := wl_offset (write_from handle v i) +
      (of_nat (length (ATT_OP_PREP_WRITE_RESP # drop 1 (part_request mtu handle v i))) - 5)\<rparr> =
    write_from handle v (i + length ?p)"
    by (simp add: write_from_def part_request_def)
  have unat: "unat (wl_offset (write_from handle v (i + length ?p))) = i + length ?p"
  proof -
    have "i + length ?p < 65536"
      using Suc.prems(1) assms(3) by simp
    then show ?thesis
      by (simp only: write_from_def write_long_data.simps unat_of_nat16)
  qed
  show ?case
  proof (cases "i + (mtu - 5) < length v")
    case True
    then have len: "length ?p = mtu - 5"
      by simp
    have "length v - (i + (mtu - 5)) < n"
      using Suc.prems(2) True assms(1) by linarith
    moreover have "prepare_write_cb mtu 0 (ATT_OP_PREP_WRITE_RESP # drop 1 (part_request mtu handle v i)) (write_from handle v i) =
        Some (Write_on (part_request mtu handle v (i + (mtu - 5))) (write_from handle v (i + (mtu - 5))))"
      unfolding prepare_write_cb_def Let_def off unat unfolding len
      using True prepare_write_part [OF assms(1,2) True assms(3)] by (simp add: write_from_def)
    ultimately show ?thesis
      using dec Suc.IH [OF True] parts by simp
  next
    case False
    then have len: "i + length ?p = length v"
      using Suc.prems(1) by simp
    have "prepare_write_cb mtu 0 (ATT_OP_PREP_WRITE_RESP # drop 1 (part_request mtu handle v i)) (write_from handle v i) =
        Some (Write_last [ATT_OP_EXEC_WRITE_REQ, 1])"
      unfolding prepare_write_cb_def Let_def off unat unfolding len
      using assms(1) by (simp add: write_from_def execute_write_def enc_exec_write_req_def encoded_fixed)
    moreover have "value_parts (mtu - 5) v (i + (mtu - 5)) = []"
      using False by (simp add: value_parts.simps)
    moreover have "accepted_parts mtu n (Write_last [ATT_OP_EXEC_WRITE_REQ, 1]) = Some ([], Write_last [ATT_OP_EXEC_WRITE_REQ, 1])"
      by (cases n) simp_all
    ultimately show ?thesis
      using dec parts by simp
  qed
qed simp

end
