(* ===== verification/Gatt_Props.thy ===== *)
theory Gatt_Props
  imports Gatt_Listing Gatt_Read
begin

text \<open>
  What the client procedures of the GATT printer guarantee: PDUs that are read back as they were
  sent, discovery that ends, that is complete against a conforming server, and the answers that it
  does not stand; values read and written whole.
\<close>

unbundle bit_operations_syntax

section \<open>Codec\<close>

text \<open>C27.
  Every request of the client fits in the MTU (23 or more) and is decoded by the code's own decoders
  to the fields it was made from; UUIDs are of 16 or 128 bits, the flags of an execute write 0 or 1.
  A value of any length is cut to the room its header leaves, 3 bytes of the MTU for a write, 5 for a
  prepared write and 7 for a find by type, and the part that is left is read back whole, into a
  buffer that has room for it.
\<close>

theorem requests_read_back:
  assumes "att_uuid u" "23 \<le> mtu" "mtu < 65536" "min (length v) (mtu - 3) \<le> length vbuf" "flags \<le> 1"
  shows "sends mtu (\<lambda>buf. enc_read_by_grp_req s e (Some u) buf mtu) (\<lambda>pdu. dec_read_by_grp_req (Some pdu) (length pdu)) (s, e, u) \<and>
    sends mtu (\<lambda>buf. enc_read_by_type_req s e (Some u) buf mtu) (\<lambda>pdu. dec_read_by_type_req (Some pdu) (length pdu)) (s, e, u) \<and>
    sends mtu (\<lambda>buf. enc_find_info_req s e (Some buf) mtu) (\<lambda>pdu. dec_find_info_req (Some pdu) (length pdu)) (s, e) \<and>
    sends mtu (\<lambda>buf. enc_find_by_type_req s e (Some (BT_UUID16 w)) v (length v) (Some buf) mtu)
      (\<lambda>pdu. dec_find_by_type_req (Some pdu) (length pdu) vbuf)
      (s, e, BT_UUID16 w, overwrite vbuf 0 (take (mtu - 7) v), min (length v) (mtu - 7)) \<and>
    sends mtu (\<lambda>buf. enc_read_req s (Some buf) mtu) (\<lambda>pdu. dec_read_req (Some pdu) (length pdu)) s \<and>
    sends mtu (\<lambda>buf. enc_read_blob_req s e (Some buf) mtu) (\<lambda>pdu. dec_read_blob_req (Some pdu) (length pdu)) (s, e) \<and>
    sends mtu (\<lambda>buf. enc_write_req s v (length v) (Some buf) mtu)
      (\<lambda>pdu. dec_write_req (Some pdu) (length pdu) (Some vbuf)) (s, overwrite vbuf 0 (take (mtu - 3) v), min (length v) (mtu - 3)) \<and>
    sends mtu (\<lambda>buf. enc_prep_write_req s e v (length v) (Some buf) mtu)
      (\<lambda>pdu. dec_prep_write_req (Some pdu) (length pdu) (Some vbuf))
      (s, e, overwrite vbuf 0 (take (mtu - 5) v), min (length v) (mtu - 5)) \<and>
    sends mtu (\<lambda>buf. enc_exec_write_req flags (Some buf) mtu) (\<lambda>pdu. dec_exec_write_req (Some pdu) (length pdu)) flags \<and>
    sends mtu (\<lambda>buf. enc_mtu_req s (Some buf) mtu) (\<lambda>pdu. dec_mtu_req (Some pdu) (length pdu)) s"
proof -
  have "7 \<le> mtu"
    using assms(2) by simp
  from sends_value [OF this assms(3,4)] show ?thesis
    using sends_range_uuid [OF assms(1,2)] sends_fixed [OF assms(2)] assms(5) by (simp add: not_less)
qed

text \<open>A value of 40 bytes in a write request for an MTU of 23.\<close>

lemma requests_read_back_witness:
  "sends 23 (\<lambda>buf. enc_read_by_grp_req 1 0xFFFF (Some (BT_UUID16 0x2800)) buf 23)
     (\<lambda>pdu. dec_read_by_grp_req (Some pdu) (length pdu)) (1, 0xFFFF, BT_UUID16 0x2800) \<and>
   sends 23 (\<lambda>buf. enc_write_req 1 (replicate 40 7) 40 (Some buf) 23)
     (\<lambda>pdu. dec_write_req (Some pdu) (length pdu) (Some (replicate 20 0))) (1, replicate 20 7, 20)"
  using requests_read_back [of "BT_UUID16 0x2800" 23 "replicate 40 7" "replicate 20 0" 0 1 "0xFFFF"]
  by (simp add: att_uuid_def uuid_len16_def overwrite_def)

text \<open>C28.
  A list response holds as many whole entries as the MTU has room for, and is decoded to just those.
\<close>

theorem list_responses_read_back:
  assumes "list_ok al" "al_data al \<noteq> []" "unat (al_len al) + 2 \<le> mtu" "mtu < 65536" "unat (al_len al) \<le> 255"
    and "es = first_entries mtu al" "l = unat (al_len al)"
  shows "(5 \<le> l \<longrightarrow> (\<exists>pdu. encoded mtu (\<lambda>buf. enc_read_by_grp_resp (Some al) buf mtu) = Some pdu \<and>
      length pdu \<le> mtu \<and> dec_read_by_grp_resp pdu (length pdu) = Some (Some (entry_list l es)))) \<and>
    (3 \<le> l \<longrightarrow> (\<exists>pdu. encoded mtu (\<lambda>buf. enc_read_by_type_resp (Some al) (Some buf) mtu) = Some pdu \<and>
      length pdu \<le> mtu \<and> dec_read_by_type_resp pdu (length pdu) = Some (Some (entry_list l es)))) \<and>
    (info_len f = al_len al \<longrightarrow> (\<exists>pdu. encoded mtu (\<lambda>buf. enc_find_info_resp f (Some al) (Some buf) mtu) = Some pdu \<and>
      length pdu \<le> mtu \<and> dec_find_info_resp (Some pdu) (length pdu) = Some (Some (f, entry_list l es))))"
proof -
  have room: "length (concat es) = length es * l" "length es * l \<le> mtu - 2"
    using first_entries_room [OF assms(1,3)] by (simp_all add: assms(6,7))
  have rows: "\<forall>e\<in>set es. length e = l" "l \<le> 255" "length es * l < 65536" "length (concat es) + 2 \<le> mtu"
    using assms(1,3-5) room by (auto simp: assms(6,7) list_ok_def first_entries_def dest: in_set_takeD)
  have some: "es \<noteq> []" if "0 < l"
    using assms(2,3) that by (simp add: assms(6,7) first_entries_def div_eq_0_iff not_less)
  have byte: "(ucast (al_len al) :: u8) = of_nat l"
    by (simp add: assms(7))
  note enc = encoded_list_resp [OF assms(1) _ assms(3,4), folded assms(6,7), unfolded byte]
  note dec = dec_list_resp [OF rows(1) _ rows(2,3)]
  have "\<exists>pdu. encoded mtu (\<lambda>buf. enc_read_by_grp_resp (Some al) buf mtu) = Some pdu \<and>
      length pdu \<le> mtu \<and> dec_read_by_grp_resp pdu (length pdu) = Some (Some (entry_list l es))" if "5 \<le> l"
    using enc(1) dec(1) some rows(4) that by auto
  moreover have "\<exists>pdu. encoded mtu (\<lambda>buf. enc_read_by_type_resp (Some al) (Some buf) mtu) = Some pdu \<and>
      length pdu \<le> mtu \<and> dec_read_by_type_resp pdu (length pdu) = Some (Some (entry_list l es))" if "3 \<le> l"
    using enc(2) dec(2) some rows(4) that by auto
  moreover have "\<exists>pdu. encoded mtu (\<lambda>buf. enc_find_info_resp f (Some al) (Some buf) mtu) = Some pdu \<and>
      length pdu \<le> mtu \<and> dec_find_info_resp (Some pdu) (length pdu) = Some (Some (f, entry_list l es))" if "info_len f = al_len al"
  proof -
    have "unat (info_len f) = l" "0 < l"
      using that by (simp_all add: assms(7) info_len_def flip: that)
    then show ?thesis
      using enc(3) dec(3) some rows(4) by auto
  qed
  ultimately show ?thesis
    by blast
qed

lemma list_responses_read_back_witness:
  "\<exists>pdu. encoded 23 (\<lambda>buf. enc_find_info_resp 1 (Some (entry_list 4 [[1, 0, 0, 0x28], [2, 0, 3, 0x28]])) (Some buf) 23) = Some pdu \<and>
      length pdu \<le> 23 \<and> dec_find_info_resp (Some pdu) (length pdu) =
        Some (Some (1, entry_list 4 [[1, 0, 0, 0x28], [2, 0, 3, 0x28]]))"
  using list_responses_read_back [of "entry_list 4 [[1, 0, 0, 0x28], [2, 0, 3, 0x28]]" 23, OF _ _ _ _ _ refl refl]
  by (simp add: list_ok_def entry_list_def first_entries_def info_len_def)

section \<open>Discovery ends\<close>

lemma gatt_discover_services_requests:
  "23 \<le> mtu \<Longrightarrow> discover_services (encode_discover svc) mtu None = Some (Send
      (ATT_OP_READ_BY_GROUP_REQ # bytes16 1 @ bytes16 0xFFFF @ bytes16 svc)
      \<lparr>dp_uuid = BT_UUID_UNSPEC, dp_start = 1, dp_primaries = []\<rparr>)"
  by (simp add: discover_services_def encoded_discover_services send_or_def)

lemma gatt_discover_char_request:
  "23 \<le> mtu \<Longrightarrow> gatt_discover_char mtu start end uuid = Some (Send
      (ATT_OP_READ_BY_TYPE_REQ # bytes16 start @ bytes16 end @ bytes16 GATT_CHARAC_UUID)
      \<lparr>dc_uuid = uuid, dc_start = start, dc_end = end, dc_characteristics = []\<rparr>)"
  by (simp add: gatt_discover_char_def encoded_discover_char send_or_def)

lemma gatt_discover_desc_request:
  "23 \<le> mtu \<Longrightarrow> gatt_discover_desc mtu start end uuid = Some (Send
      (ATT_OP_FIND_INFO_REQ # bytes16 start @ bytes16 end)
      \<lparr>dd_uuid = uuid, dd_start = start, dd_end = end, dd_descriptors = []\<rparr>)"
  by (simp add: gatt_discover_desc_def encoded_find_info send_or_def)

text \<open>C23.
  The discovery of the primary and of the secondary services ends, whatever the server answers, after
  65536 responses at most, and never reads outside a PDU.
\<close>

theorem service_discovery_ends:
  assumes "23 \<le> mtu" "\<And>k req. snd (srv k req) \<noteq> []"
  shows "(\<exists>r. do { r \<leftarrow> gatt_discover_primary mtu None; drive srv (primary_all_cb mtu) 0 65536 r } = Some r \<and> ended r) \<and>
    (\<exists>r. do { r \<leftarrow> gatt_discover_secondary mtu None; drive srv (secondary_all_cb mtu) 0 65536 r } = Some r \<and> ended r)"
proof -
  have mtu: "23 + (mtu - 23) = mtu"
    using assms(1) by simp
  let ?dp = "\<lparr>dp_uuid = BT_UUID_UNSPEC, dp_start = 1, dp_primaries = []\<rparr>"
  have "0x10000 - unat (dp_start ?dp) < 65536"
    by simp
  then show ?thesis
    using primary_all.drive_ends [of srv ?dp 65536 "mtu - 23" 0, unfolded mtu]
      secondary_all.drive_ends [of srv ?dp 65536 "mtu - 23" 0, unfolded mtu] assms
    by (simp add: gatt_discover_primary_def gatt_discover_secondary_def encode_discover_primary_def
        encode_discover_secondary_def gatt_discover_services_requests del: drive.simps)
qed

lemma service_discovery_ends_witness:
  "\<exists>r. do { r \<leftarrow> gatt_discover_primary 23 None; drive (\<lambda>k req. (0, [0x11, 6, 1, 0, 5, 0, 0, 0x18])) (primary_all_cb 23) 0 65536 r } = Some r \<and>
    ended r"
  by (rule service_discovery_ends [of 23 "\<lambda>k req. (0, [0x11, 6, 1, 0, 5, 0, 0, 0x18])", THEN conjunct1]) simp_all

text \<open>C24.
  The discovery of characteristics ends if no response has entries that are too short for a long UUID
  or ends with the handle 0xFFFF; the discovery of descriptors ends if every response has one of
  the two formats of the protocol.  Neither reads outside a PDU then.
\<close>

theorem attribute_discovery_ends:
  assumes "23 \<le> mtu" "\<And>k req. char_answer_ok (fst (srv k req)) (snd (srv k req))"
    "\<And>k req. desc_answer_ok (fst (srv' k req)) (snd (srv' k req))"
  shows "(\<exists>r. do { r \<leftarrow> gatt_discover_char mtu start end None; drive srv (char_discovered_cb mtu) 0 65537 r } = Some r \<and> ended r) \<and>
    (\<exists>r. do { r \<leftarrow> gatt_discover_desc mtu start end None; drive srv' (desc_discovered_cb mtu) 0 65537 r } = Some r \<and> ended r)"
proof -
  have mtu: "23 + (mtu - 23) = mtu"
    using assms(1) by simp
  let ?dc = "\<lparr>dc_uuid = None, dc_start = start, dc_end = end, dc_characteristics = []\<rparr>"
  let ?dd = "\<lparr>dd_uuid = None, dd_start = start, dd_end = end, dd_descriptors = []\<rparr>"
  have "0x10000 - unat (dc_start ?dc) < 65537" "0x10000 - unat (dd_start ?dd) < 65537"
    by simp_all
  then show ?thesis
    using chars.drive_ends [of srv ?dc 65537 "mtu - 23" 0, unfolded mtu] descs.drive_ends [of srv' ?dd 65537 "mtu - 23" 0, unfolded mtu]
      assms by (simp add: gatt_discover_char_request gatt_discover_desc_request char_inv_def desc_inv_def del: drive.simps)
qed

lemma attribute_discovery_ends_witness:
  "\<exists>r. do { r \<leftarrow> gatt_discover_desc 23 1 0xFFFF None; drive (\<lambda>k req. (0, [0x05, 0x01, 9, 0, 0, 0x28])) (desc_discovered_cb 23) 0 65537 r } =
    Some r \<and> ended r"
  by (rule attribute_discovery_ends [of 23 "\<lambda>k req. (0x0A, [1, 8, 1, 0, 0x0A])" "\<lambda>k req. (0, [0x05, 0x01, 9, 0, 0, 0x28])", THEN conjunct2])
    (simp_all add: char_answer_ok_def desc_answer_ok_def)

section \<open>Answers that the client does not stand\<close>

text \<open>A server that says for ever that there is a characteristic at handle 0xFFFF.\<close>

definition last_handle_again :: "u8 list" where
  "last_handle_again = [ATT_OP_READ_BY_TYPE_RESP, 7, 0xFF, 0xFF, 0x02, 0, 0, 0, 0x28]"

lemma last_handle_again_cb:
  assumes "23 \<le> mtu" "dc_uuid dc = None" "dc_end dc \<noteq> 0"
  shows "\<exists>req dc'. char_discovered_cb mtu 0 last_handle_again dc = Some (Send req dc') \<and> dc_uuid dc' = None \<and> dc_end dc' = dc_end dc \<and>
    length (dc_characteristics dc') = Suc (length (dc_characteristics dc))"
proof -
  have dec: "dec_read_by_type_resp last_handle_again (length last_handle_again) =
      Some (Some (entry_list 7 [[0xFF, 0xFF, 0x02, 0, 0, 0, 0x28]]))"
    using dec_list_resp(2) [of "[[0xFF, 0xFF, 0x02, 0, 0, 0, 0x28]]" 7] by (simp add: last_handle_again_def)
  have ok: "list_ok (entry_list 7 [[0xFF, 0xFF, 0x02, 0, 0, 0, 0x28]])"
    by (simp add: list_ok_def entry_list_def)
  obtain c h where c: "char_entries Short None [[0xFF, 0xFF, 0x02, 0, 0, 0, 0x28]] 0 (dc_characteristics dc) =
      Some (h, dc_characteristics dc @ [c])" "h = 0xFFFF"
    by (simp add: get_uuid128_def get_uuid_def unwanted_def le16_def)
  have h: "h \<noteq> 0" "h + 1 = 0" "\<not> h < dc_start dc"
    by (simp_all add: c(2) word_uint_eq_iff)
  have "char_entries (if al_len (entry_list 7 [[0xFF, 0xFF, 0x02, 0, 0, 0, 0x28]]) = 7 then Short else Long) (dc_uuid dc)
      (al_data (entry_list 7 [[0xFF, 0xFF, 0x02, 0, 0, 0, 0x28]])) 0 (dc_characteristics dc) = Some (h, dc_characteristics dc @ [c])"
    using c(1) assms(2) by (simp add: entry_list_def)
  from char_cb_list [OF dec ok assms(1) this] show ?thesis
    using assms(2,3) h by (simp add: word_neq_0_conv)
qed

text \<open>C25.
  The handle after 0xFFFF is taken to be 0, so a server that answers every request with a
  characteristic at 0xFFFF keeps the discovery of characteristics going for ever, with one more
  characteristic in memory each time.
\<close>

theorem characteristic_discovery_endless:
  assumes "23 \<le> mtu" "end \<noteq> 0"
  shows "\<exists>req dc. do { r \<leftarrow> gatt_discover_char mtu start end None; drive (\<lambda>k req. (0, last_handle_again)) (char_discovered_cb mtu) 0 n r } =
    Some (Send req dc) \<and> length (dc_characteristics dc) = n"
proof -
  have "\<exists>req' dc'. drive (\<lambda>k req. (0, last_handle_again)) (char_discovered_cb mtu) k n (Send req dc) = Some (Send req' dc') \<and>
      length (dc_characteristics dc') = length (dc_characteristics dc) + n"
    if "dc_uuid dc = None" "dc_end dc \<noteq> 0" for k n req dc
    using that
  proof (induction n arbitrary: k req dc)
    case (Suc n)
    obtain req' dc' where dc': "char_discovered_cb mtu 0 last_handle_again dc = Some (Send req' dc')"
      "dc_uuid dc' = None" "dc_end dc' \<noteq> 0" "length (dc_characteristics dc') = Suc (length (dc_characteristics dc))"
      using last_handle_again_cb [OF assms(1) Suc.prems] Suc.prems(2) by auto
    then show ?case
      using Suc.IH [OF dc'(2,3), of "Suc k" req'] by simp
  qed simp
  from this [of "\<lparr>dc_uuid = None, dc_start = start, dc_end = end, dc_characteristics = []\<rparr>" 0 n] show ?thesis
    using assms by (simp add: gatt_discover_char_request del: drive.simps)
qed

lemma characteristic_discovery_endless_witness:
  "\<exists>req dc. do { r \<leftarrow> gatt_discover_char 23 1 0xFFFF None; drive (\<lambda>k req. (0, last_handle_again)) (char_discovered_cb 23) 0 100000 r } =
    Some (Send req dc) \<and> length (dc_characteristics dc) = 100000"
  by (rule characteristic_discovery_endless) simp_all

text \<open>A list that is decoded has an entry.\<close>

lemma dec_type_some:
  assumes "length pdu < 65536" "pdu \<noteq> []" "dec_read_by_type_resp pdu (length pdu) = Some (Some al)"
  shows "al_data al \<noteq> []"
proof -
  have ok: "list_ok al"
    using dec_type_total [OF assms(2)] assms(3) by auto
  have len: "\<not> length pdu < 5" "\<not> pdu ! 1 < 3" "(length pdu - 2) mod unat (pdu ! 1) = 0" "pdu ! 0 = ATT_OP_READ_BY_TYPE_RESP"
    using assms(2,3) by (auto simp: dec_read_by_type_resp_def split: if_splits)
  then have dec: "dec_entries pdu (of_nat ((length pdu - 2) div unat (pdu ! 1))) (ucast (pdu ! 1)) = Some (Some al)"
    using assms(2,3) by (simp add: dec_read_by_type_resp_def)
  let ?q = "(length pdu - 2) div unat (pdu ! 1)"
  have "0 < unat (pdu ! 1)"
    using len(2) by (simp add: word_less_nat_alt)
  moreover have "unat (pdu ! 1) \<le> length pdu - 2"
    using len(1,3) by (rule_tac ccontr) (simp add: not_le)
  ultimately have "0 < ?q"
    by (simp add: div_greater_zero_iff)
  moreover have "?q < 65536"
    using assms(1) by (meson diff_le_self div_le_dividend le_less_trans le_trans)
  ultimately have "unat (of_nat ?q :: u16) \<noteq> 0"
    by (simp add: unat_of_nat16)
  moreover have "al_num al = of_nat ?q"
    using dec ok by (auto simp: dec_entries_def att_data_list_alloc_def split: if_splits bind_splits)
  ultimately show ?thesis
    using ok by (auto simp: list_ok_def)
qed

text \<open>C26.
  A response to the discovery of characteristics makes the client read outside an entry exactly if
  its entries are shorter than 21 bytes and do not have the 7 bytes of a short UUID.
\<close>

theorem short_entries_over_read:
  assumes "23 \<le> mtu" "char_inv dc" "length pdu < 65536" "pdu \<noteq> []"
    "dec_read_by_type_resp pdu (length pdu) = Some (Some al)"
  shows "char_discovered_cb mtu 0 pdu dc = None \<longleftrightarrow> al_len al \<noteq> 7 \<and> unat (al_len al) < 21"
proof -
  have ok: "list_ok al"
    using dec_type_total [OF assms(4)] assms(5) by auto
  have rows: "\<forall>e\<in>set (al_data al). length e = unat (al_len al)" "take (unat (al_num al)) (al_data al) = al_data al"
    using ok by (simp_all add: list_ok_def)
  have some: "al_data al \<noteq> []"
    using dec_type_some [OF assms(3-5)] .
  show ?thesis
  proof (cases "char_len_ok (al_len al)")
    case True
    then have "unat (al_len al) = 7 \<and> (if al_len al = 7 then Short else Long) = Short \<or>
        21 \<le> unat (al_len al) \<and> (if al_len al = 7 then Short else Long) = Long"
      by (auto simp: char_len_ok_def)
    then obtain cs where "char_entries (if al_len al = 7 then Short else Long) (dc_uuid dc) (al_data al) 0 (dc_characteristics dc) =
        Some (last_handle (al_data al) 0, cs)"
      using char_entries_total [OF rows(1), of "if al_len al = 7 then Short else Long" "dc_uuid dc" 0 "dc_characteristics dc"] assms(2)
      unfolding char_inv_def by blast
    from char_cb_list [OF assms(5) ok assms(1) this] show ?thesis
      using True by (auto simp: char_len_ok_def)
  next
    case False
    then have "char_entries Long (dc_uuid dc) (al_data al) 0 (dc_characteristics dc) = None"
      using char_entries_short [OF some rows(1)] by (auto simp: char_len_ok_def)
    then show ?thesis
      using False assms(5) rows(2) by (auto simp: char_len_ok_def char_discovered_cb_def)
  qed
qed

lemma short_entries_over_read_witness:
  "char_discovered_cb 23 0 [0x09, 5, 2, 0, 0x02, 3, 0] \<lparr>dc_uuid = None, dc_start = 1, dc_end = 0xFFFF, dc_characteristics = []\<rparr> = None"
proof -
  have "dec_read_by_type_resp [0x09, 5, 2, 0, 0x02, 3, 0] (length [0x09 :: u8, 5, 2, 0, 0x02, 3, 0]) = Some (Some (entry_list 5 [[2, 0, 0x02, 3, 0]]))"
    using dec_list_resp(2) [of "[[2, 0, 0x02, 3, 0]]" 5] by simp
  from short_entries_over_read [OF _ _ _ _ this, of 23 "\<lparr>dc_uuid = None, dc_start = 1, dc_end = 0xFFFF, dc_characteristics = []\<rparr>"]
  show ?thesis
    by (simp add: char_inv_def entry_list_def)
qed

section \<open>A conforming server\<close>

text \<open>
  Against a server that has primary or secondary services and answers as the protocol asks, with as
  many services in a response as it likes, the discovery calls back with all of them, in order,
  each with its range and its UUID as text.
\<close>

lemma services_found:
  assumes "23 \<le> mtu" "mtu < 65536" "in_order sv_start sv_end service_ok xs" "length xs < n"
    and "conforming (asks_services svc) (entries_fit mtu service_bytes) (services_response mtu) sv_start xs srv"
    and "(svc, discover, cb) = (GATT_PRIM_SVC_UUID, gatt_discover_primary mtu None, primary_all_cb mtu) \<or>
      (svc, discover, cb) = (GATT_SND_SVC_UUID, gatt_discover_secondary mtu None, secondary_all_cb mtu)"
  shows "do { r \<leftarrow> discover; drive srv cb 0 n r } = Some (Call_back 0 (map service_view xs))"
proof -
  have disc: "discover = discover_services (encode_discover svc) mtu None" "cb = all_cb (encode_discover svc) mtu"
    using assms(6) by (auto simp: gatt_discover_primary_def gatt_discover_secondary_def primary_all_cb_def secondary_all_cb_def
        encode_discover_primary_def encode_discover_secondary_def)
  let ?dp = "\<lparr>dp_uuid = BT_UUID_UNSPEC, dp_start = 1, dp_primaries = []\<rparr>"
  have all: "items_from sv_start (dp_start ?dp) xs = xs"
    using assms(3) by (auto simp: items_from_def in_order_def service_ok_def word_le_nat_alt filter_id_conv Suc_le_eq
        word_neq_0_conv word_less_nat_alt)
  show ?thesis
    using services.drive_lists [OF assms(3,5), of _ ?dp n 0, unfolded all] assms(1,2,4)
    by (simp add: disc gatt_discover_services_requests asks_services_encoded del: drive.simps)
qed

text \<open>
  Against a conforming server the discovery of characteristics calls back with all the
  characteristics in the range it was given, in order, and says that there are none if so.
\<close>

lemma characteristics_found:
  assumes "23 \<le> mtu" "mtu < 65536" "in_order ch_handle ch_handle (char_ok end) xs" "length xs < n"
    and "conforming (asks_chars end) (entries_fit mtu char_bytes) (chars_response mtu) ch_handle xs srv"
    and "ys = items_from ch_handle start xs"
  shows "do { r \<leftarrow> gatt_discover_char mtu start end None; drive srv (char_discovered_cb mtu) 0 n r } =
    Some (Call_back (if ys = [] then ATT_ECODE_ATTR_NOT_FOUND else 0) (map char_view ys))"
proof -
  let ?dc = "\<lparr>dc_uuid = None, dc_start = start, dc_end = end, dc_characteristics = []\<rparr>"
  have "length (items_from ch_handle (dc_start ?dc) xs) < n"
    unfolding items_from_def by (rule le_less_trans [OF length_filter_le assms(4)])
  then show ?thesis
    using characteristics.drive_lists [OF assms(3,5), of ?dc _ n 0] assms(1,2,6)
    by (simp add: gatt_discover_char_request asks_chars_encoded del: drive.simps)
qed

text \<open>
  Against a conforming server the discovery of descriptors calls back with all the attributes in the
  range it was given, in order.
\<close>

lemma descriptors_found:
  assumes "23 \<le> mtu" "mtu < 65536" "in_order at_handle at_handle (attribute_ok end) xs" "length xs < n"
    and "conforming (asks_attributes end) (entries_fit mtu attribute_bytes) (attributes_response mtu) at_handle xs srv"
    and "ys = items_from at_handle start xs"
  shows "do { r \<leftarrow> gatt_discover_desc mtu start end None; drive srv (desc_discovered_cb mtu) 0 n r } =
    Some (Call_back (if ys = [] then ATT_ECODE_ATTR_NOT_FOUND else 0) (map attribute_view ys))"
proof -
  let ?dd = "\<lparr>dd_uuid = None, dd_start = start, dd_end = end, dd_descriptors = []\<rparr>"
  have "length (items_from at_handle (dd_start ?dd) xs) < n"
    unfolding items_from_def by (rule le_less_trans [OF length_filter_le assms(4)])
  then show ?thesis
    using attributes.drive_lists [OF assms(3,5), of ?dd _ n 0] assms(1,2,6)
    by (simp add: gatt_discover_desc_request asks_attributes_encoded del: drive.simps)
qed

section \<open>Values\<close>

text \<open>C29.
  A value of any length below 65535 bytes that the server gives in parts of the MTU less one is read
  whole: the user's function gets the opcode of the read response followed by the value.
\<close>

theorem long_read_returns_value:
  assumes "23 \<le> mtu" "mtu < 65536" "length v < 65535" "reads_value mtu handle v srv" "length v + 1 < n"
  shows "do { r \<leftarrow> gatt_read_char mtu handle; drive_read srv mtu n (read_char_helper mtu) r } =
    Some (Read_done 0 (ATT_OP_READ_RESP # v) (of_nat (length v + 1)))"
  using read_whole_value [OF assms(1-4) _ assms(5)] assms(1) by (simp add: gatt_read_char_def encoded_read_req)

definition value_server :: "nat \<Rightarrow> u8 list \<Rightarrow> server" where
  "value_server mtu v k req =
     (if hd req = ATT_OP_READ_REQ then (0, ATT_OP_READ_RESP # value_part mtu v 0)
      else (0, ATT_OP_READ_BLOB_RESP # value_part mtu v (unat (le16 (req ! 3) (req ! 4)))))"

lemma reads_value_server: "reads_value mtu handle v (value_server mtu v)"
  using rd16_fields(2) [of ATT_OP_READ_BLOB_REQ handle _ "[]"]
  by (auto simp: reads_value_def value_server_def bytes16_def rd16_def rd_def split: if_splits)

lemma long_read_returns_value_witness:
  "do { r \<leftarrow> gatt_read_char 23 3; drive_read (value_server 23 (replicate 100 7)) 23 200 (read_char_helper 23) r } =
    Some (Read_done 0 (0x0B # replicate 100 7) (of_nat (100 + 1)))"
  using long_read_returns_value [of 23 "replicate 100 7" 3 "value_server 23 (replicate 100 7)" 200] reads_value_server
  by (simp del: drive_read.simps)

text \<open>
  A value that is longer than a write request is sent as prepared writes that carry all its bytes,
  each part at its offset, and one request that executes them.
\<close>

theorem long_write_sends_value:
  assumes "23 \<le> mtu" "mtu < 65536" "length v < 65536" "mtu - 3 < length v" "length v < n"
    and "parts = value_parts (mtu - 5) v 0"
  shows "do { r \<leftarrow> gatt_write_char mtu handle v; accepted_parts mtu n r } =
      Some (map (\<lambda>(i, p). (handle, of_nat i, p)) parts, Write_last [ATT_OP_EXEC_WRITE_REQ, 1]) \<and>
    concat (map snd parts) = v"
proof -
  have "0 < length v"
    using assms(4) by linarith
  moreover have "size_minus mtu 3 = mtu - 3"
    using assms(1) by (simp add: size_minus_def)
  ultimately have "gatt_write_char mtu handle v = Some (Write_on (part_request mtu handle v 0) (write_from handle v 0))"
    using prepare_write_part [OF assms(1,2) _ assms(3), of 0 handle] assms(4) by (simp add: gatt_write_char_def write_from_def)
  then show ?thesis
    using parts_accepted [OF assms(1-3), of 0 n handle] concat_value_parts [of "mtu - 5" v 0] assms(1,5,6) \<open>0 < length v\<close> by simp
qed

lemma long_write_sends_value_witness:
  "concat (map snd (value_parts 18 (replicate 40 5) 0)) = replicate 40 5"
  using long_write_sends_value [of 23 "replicate 40 5" 41 "value_parts 18 (replicate 40 5) 0" 3] by simp

end
