(* ===== verification/Gatttool_Session.thy ===== *)
theory Gatttool_Session
  imports Gatttool_Props Gatt_Props
begin

text \<open>
  A session of the GATT printer with a device that answers every request: the main loop as a
  sequence of exchanges, and what one exchange does to the queue of the four procedures and the
  reads.  \<open>discovery\<close> is the contract by which a discovery procedure takes its turns.
\<close>

unbundle bit_operations_syntax

section \<open>Exchanges\<close>

text \<open>
  A request is written and its answer arrives; the socket reports security level 1 and does not raise it.
  Nothing is sent when nothing waits.
\<close>

definition exchange :: "(u8 list \<Rightarrow> u8 list) \<Rightarrow> session \<Rightarrow> session option" where
  "exchange respond st = do {
     (sent, st) \<leftarrow> can_write_data run_procedure 1 st;
     (case sent of None \<Rightarrow> Some st | Some req \<Rightarrow> dispatch (Readable 1 False (respond req)) st) }"

fun session_with :: "(u8 list \<Rightarrow> u8 list) \<Rightarrow> nat \<Rightarrow> session \<Rightarrow> session option" where
  "session_with respond 0 st = Some st"
| "session_with respond (Suc n) st =
     (if loop_quit (snd st) then Some st else do { st \<leftarrow> exchange respond st; session_with respond n st })"

text \<open>Exchanges are events of the main loop.\<close>

lemma main_loop_append: "main_loop (xs @ ys) st = do { st \<leftarrow> main_loop xs st; main_loop ys st }"
proof (induction xs arbitrary: st)
  case (Cons x xs)
  have "main_loop ys st = Some st" if "loop_quit (snd st)"
    using that by (cases ys) simp_all
  then show ?case
    using Cons by (cases "dispatch x st") simp_all
qed simp

lemma exchange_events:
  assumes "exchange respond st = Some st'" "\<not> loop_quit (snd st)"
  shows "\<exists>evs. main_loop evs st = Some st'"
proof -
  obtain sent st1 where st1: "can_write_data run_procedure 1 st = Some (sent, st1)"
    "(case sent of None \<Rightarrow> Some st1 | Some req \<Rightarrow> dispatch (Readable 1 False (respond req)) st1) = Some st'"
    using assms(1) by (auto simp: exchange_def split: bind_splits)
  have same: "snd st1 = snd st"
    using st1(1) by (cases st) (auto simp: can_write_data_def split: option.splits)
  have w: "main_loop [Writable 1] st = Some st1"
    using st1(1) assms(2) by (simp add: dispatch_def)
  show ?thesis
  proof (cases sent)
    case None
    then show ?thesis
      using w st1(2) by (intro exI [of _ "[Writable 1]"]) simp
  next
    case (Some req)
    then have "main_loop [Readable 1 False (respond req)] st1 = Some st'"
      using st1(2) same assms(2) by simp
    then show ?thesis
      using main_loop_append [of "[Writable 1]" "[Readable 1 False (respond req)]" st, unfolded w bind.bind_lunit] by metis
  qed
qed

lemma session_events: "session_with respond n st = Some st' \<Longrightarrow> \<exists>evs. main_loop evs st = Some st'"
proof (induction n arbitrary: st)
  case 0
  then show ?case
    by (intro exI [of _ "[]"]) simp
next
  case (Suc n)
  show ?case
  proof (cases "loop_quit (snd st)")
    case True
    then show ?thesis
      using Suc.prems by (intro exI [of _ "[]"]) simp
  next
    case False
    then obtain st1 where st1: "exchange respond st = Some st1" "session_with respond n st1 = Some st'"
      using Suc.prems by (auto split: bind_splits)
    obtain evs evs' where "main_loop evs st = Some st1" "main_loop evs' st1 = Some st'"
      using exchange_events [OF st1(1) False] Suc.IH [OF st1(2)] by blast
    then show ?thesis
      using main_loop_append [of evs evs' st] by (metis bind.bind_lunit)
  qed
qed

section \<open>The queue\<close>

text \<open>A channel with nothing but requests; \<open>p\<close> is pending.\<close>

definition quiet :: "u16 \<Rightarrow> u32 \<Rightarrow> procedure att_send_op list \<Rightarrow> procedure att_send_op option \<Rightarrow> procedure bt_att" where
  "quiet m nid q p = \<lparr>attached = True, att_mtu = m, sec_level = 0, next_send_id = nid, req_queue = q, ind_queue = [],
     write_queue = [], pending_req = p, pending_ind = None, in_req = False, shut = False\<rparr>"

definition request_op :: "u32 \<Rightarrow> procedure \<Rightarrow> u8 list \<Rightarrow> procedure att_send_op" where
  "request_op i k req = \<lparr>op_id = i, op_type = ATT_OP_TYPE_REQ, op_opcode = hd req, op_pdu = req, op_callback = Some k\<rparr>"

definition is_request :: "nat \<Rightarrow> u8 list \<Rightarrow> bool" where
  "is_request mtu req \<longleftrightarrow> req \<noteq> [] \<and> length req \<le> mtu \<and> get_op_type (hd req) = ATT_OP_TYPE_REQ"

definition fresh_id :: "u32 \<Rightarrow> u32" where
  "fresh_id nid = (if nid < 1 then 1 else nid)"

definition continues :: "u8 \<Rightarrow> bool" where
  "continues opcode \<longleftrightarrow> opcode = ATT_OP_READ_BLOB_REQ \<or> opcode = ATT_OP_PREP_WRITE_REQ \<or> opcode = ATT_OP_EXEC_WRITE_REQ"

lemma fresh_id_nonzero: "fresh_id nid \<noteq> 0"
  by (auto simp: fresh_id_def word_less_nat_alt)

lemma buffer_quiet [simp]: "buffer_len (quiet m nid q p) = unat m" "req_queue (quiet m nid q p) = q"
  by (simp_all add: buffer_len_def quiet_def)

lemma send_first:
  assumes "is_request (unat m) req"
  shows "snd (g_attrib_send (quiet m nid q p) 0 req (Some k)) =
    quiet m (fresh_id nid + 1) (q @ [request_op (fresh_id nid) k req]) p"
  using assms
  by (cases req) (simp_all add: is_request_def g_attrib_send_def bt_att_send_def create_att_send_op_def quiet_def
      request_op_def fresh_id_def Let_def)

lemma send_more:
  assumes "is_request (unat m) req" "i \<noteq> 0" "op_id op = i"
  shows "g_attrib_send (quiet m nid q (Some op)) i req (Some k) =
    (i, quiet m nid (if continues (hd req) then request_op i k req # q else q @ [request_op i k req]) (Some op))"
  using assms
  by (cases req) (auto simp: is_request_def g_attrib_send_def bt_att_resend_def create_att_send_op_def quiet_def
      request_op_def Let_def continues_def)

text \<open>An answer that the channel passes on to the request's callback.\<close>

definition proper_response :: "nat \<Rightarrow> u8 list \<Rightarrow> u8 list \<Rightarrow> bool" where
  "proper_response mtu req packet \<longleftrightarrow> packet \<noteq> [] \<and> length packet \<le> mtu \<and> get_op_type (hd packet) = ATT_OP_TYPE_RSP \<and>
     (if hd packet = ATT_OP_ERROR then length packet = 5 \<and> packet ! 1 = hd req else get_req_opcode (hd packet) = hd req)"

definition answer_of :: "(u8 list \<Rightarrow> u8 list) \<Rightarrow> u8 list \<Rightarrow> u8 \<times> u8 list" where
  "answer_of respond req = attrib_callback_result (hd (respond req)) (tl (respond req))"

lemma request_opcode: "is_request mtu req \<Longrightarrow> hd req \<noteq> 0"
  by (auto simp: is_request_def get_op_type_def att_opcode_type_table_def)

lemma exchange_step:
  assumes "is_request (unat m) req" "proper_response (unat m) req (respond req)" "op = request_op i k req"
  shows "exchange respond (quiet m nid (op # q) None, w) = do {
    (att, w) \<leftarrow> run_procedure op (hd (respond req)) (tl (respond req)) (quiet m nid q (Some op), w);
    Some (att\<lparr>pending_req := None\<rparr>, w) }"
proof -
  obtain opc pdu where pkt: "respond req = opc # pdu"
    using assms(2) by (cases "respond req") (simp_all add: proper_response_def)
  have op: "op_pdu op = req" "op_type op = ATT_OP_TYPE_REQ" "op_callback op = Some k" "op_opcode op = hd req"
    by (simp_all add: assms(3) request_op_def)
  have sent: "can_write_data run_procedure 1 (quiet m nid (op # q) None, w) = Some (Some req, quiet m nid q (Some op), w)"
    using assms(1) by (simp add: can_write_data_def pick_next_send_op_def quiet_def op is_request_def)
  have take: "take (unat m) (opc # pdu) = opc # pdu"
    using assms(2) by (simp add: proper_response_def pkt)
  have rsp: "get_op_type opc = ATT_OP_TYPE_RSP"
    using assms(2) by (simp add: proper_response_def pkt)
  have "handle_rsp run_procedure 1 False opc pdu (quiet m nid q (Some op), w) =
      end_request run_procedure op opc pdu (quiet m nid q (Some op), w)"
  proof (cases "opc = ATT_OP_ERROR")
    case True
    then have "length pdu = 4" "pdu ! 0 = hd req"
      using assms(2) by (simp_all add: proper_response_def pkt)
    then have "handle_error_rsp 1 False op pdu (quiet m nid q (Some op)) = (False, hd req, quiet m nid q (Some op))"
      by (simp add: handle_error_rsp_def change_security_def)
    then show ?thesis
      using True by (simp add: handle_rsp_def quiet_def op)
  next
    case False
    then have "get_req_opcode opc = hd req"
      using assms(2) by (simp add: proper_response_def pkt)
    then show ?thesis
      using False request_opcode [OF assms(1)] by (simp add: handle_rsp_def quiet_def op)
  qed
  moreover have "att_mtu (quiet m nid q (Some op)) = m"
    by (simp add: quiet_def)
  ultimately show ?thesis
    using sent take rsp by (simp add: exchange_def dispatch_def can_read_data_def pkt end_request_def call_def op)
qed

lemma exchange_idle: "exchange respond (quiet m nid [] None, w) = Some (quiet m nid [] None, w)"
  by (simp add: exchange_def can_write_data_def pick_next_send_op_def quiet_def)

section \<open>The turns of a discovery procedure\<close>

text \<open>
  \<open>takes srv cb n req s e rs\<close>: the procedure that sends \<open>req\<close> calls back with \<open>e\<close> and \<open>rs\<close> after
  exactly \<open>n\<close> answers.
\<close>

fun takes :: "(u8 list \<Rightarrow> u8 \<times> u8 list) \<Rightarrow> (u8 \<Rightarrow> u8 list \<Rightarrow> 's \<Rightarrow> ('s, 'r) reaction option) \<Rightarrow>
    nat \<Rightarrow> u8 list \<Rightarrow> 's \<Rightarrow> u8 \<Rightarrow> 'r list \<Rightarrow> bool" where
  "takes srv cb 0 req s e rs \<longleftrightarrow> False"
| "takes srv cb (Suc n) req s e rs \<longleftrightarrow> (case srv req of (status, pdu) \<Rightarrow> (case cb status pdu s of
     Some (Send req' s') \<Rightarrow> takes srv cb n req' s' e rs
   | Some (Call_back e' rs') \<Rightarrow> n = 0 \<and> e' = e \<and> rs' = rs
   | _ \<Rightarrow> False))"

lemma drive_takes:
  "drive (\<lambda>k. srv) cb k n (Send req s) = Some (Call_back e rs) \<Longrightarrow> \<exists>j\<le>n. takes srv cb j req s e rs"
proof (induction n arbitrary: k req s)
  case (Suc n)
  obtain status pdu where answer: "srv req = (status, pdu)"
    by force
  then obtain r where r: "cb status pdu s = Some r" "drive (\<lambda>k. srv) cb (Suc k) n r = Some (Call_back e rs)"
    using Suc.prems by (auto split: bind_splits)
  show ?case
  proof (cases r)
    case (Send req' s')
    then obtain j where "j \<le> n" "takes srv cb j req' s' e rs"
      using Suc.IH r(2) by blast
    then show ?thesis
      using answer r(1) Send by (intro exI [of _ "Suc j"]) simp
  next
    case (Call_back e' rs')
    then show ?thesis
      using answer r by (intro exI [of _ "Suc 0"]) (simp add: drive_ended)
  qed (use r(2) in \<open>simp add: drive_ended\<close>)
qed simp

text \<open>What the channel needs of a discovery procedure: how its callback is run, and that it sends requests.\<close>

locale discovery =
  fixes cb :: "nat \<Rightarrow> u8 \<Rightarrow> u8 list \<Rightarrow> 's \<Rightarrow> ('s, 'r) reaction option"
    and k :: "'s \<Rightarrow> procedure"
    and user :: "u8 \<Rightarrow> 'r list \<Rightarrow> session \<Rightarrow> session option"
  assumes run: "op_callback op = Some (k s) \<Longrightarrow> run_procedure op opcode rsp (att, w) =
      (case attrib_callback_result opcode rsp of (status, pdu) \<Rightarrow>
        do { r \<leftarrow> cb (buffer_len att) status pdu s; react (op_id op) k user r (att, w) })"
    and sends: "23 \<le> mtu \<Longrightarrow> cb mtu status pdu s = Some (Send req s') \<Longrightarrow> is_request mtu req \<and> \<not> continues (hd req)"
begin

lemma exchange_sends:
  assumes "23 \<le> unat m" "is_request (unat m) req" "proper_response (unat m) req (respond req)" "i \<noteq> 0"
    and "answer_of respond req = (status, pdu)" "cb (unat m) status pdu s = Some (Send req' s')"
  shows "exchange respond (quiet m nid (request_op i (k s) req # q) None, w) =
    Some (quiet m nid (q @ [request_op i (k s') req']) None, w)" "is_request (unat m) req'"
proof -
  let ?op = "request_op i (k s) req"
  have op: "op_callback ?op = Some (k s)" "op_id ?op = i"
    by (simp_all add: request_op_def)
  note req' = sends [OF assms(1,6)]
  then show "is_request (unat m) req'"
    by simp
  have "run_procedure ?op (hd (respond req)) (tl (respond req)) (quiet m nid q (Some ?op), w) =
      Some (quiet m nid (q @ [request_op i (k s') req']) (Some ?op), w)"
    using run [OF op(1)] assms(5,6) send_more [OF conjunct1 [OF req'] assms(4) op(2)] req' op(2)
    by (simp add: answer_of_def react_def)
  then show "exchange respond (quiet m nid (?op # q) None, w) = Some (quiet m nid (q @ [request_op i (k s') req']) None, w)"
    unfolding exchange_step [where respond = respond, OF assms(2,3) refl] by (simp add: quiet_def)
qed

lemma exchange_ends:
  assumes "is_request (unat m) req" "proper_response (unat m) req (respond req)" "op = request_op i (k s) req"
    and "answer_of respond req = (status, pdu)" "cb (unat m) status pdu s = Some (Call_back e rs)"
  shows "exchange respond (quiet m nid (op # q) None, w) = do {
    (att, w) \<leftarrow> user e rs (quiet m nid q (Some op), w);
    Some (att\<lparr>pending_req := None\<rparr>, w) }"
proof -
  have op: "op_callback op = Some (k s)"
    by (simp add: assms(3) request_op_def)
  show ?thesis
    unfolding exchange_step [where respond = respond, OF assms(1,2,3)] using run [OF op] assms(4,5) by (simp add: answer_of_def react_def)
qed

end

lemma is_request_range: "23 \<le> mtu \<Longrightarrow> is_request mtu (ATT_OP_READ_BY_GROUP_REQ # bytes16 a @ bytes16 b @ bytes16 c)"
  "23 \<le> mtu \<Longrightarrow> is_request mtu (ATT_OP_READ_BY_TYPE_REQ # bytes16 a @ bytes16 b @ bytes16 c)"
  "23 \<le> mtu \<Longrightarrow> is_request mtu (ATT_OP_FIND_INFO_REQ # bytes16 a @ bytes16 b)"
  "23 \<le> mtu \<Longrightarrow> is_request mtu (ATT_OP_READ_REQ # bytes16 a)"
  "23 \<le> mtu \<Longrightarrow> is_request mtu (ATT_OP_READ_BLOB_REQ # bytes16 a @ bytes16 b)"
  by (simp_all add: is_request_def get_op_type_def att_opcode_type_table_def)

lemma all_cb_sends:
  assumes "23 \<le> mtu" "all_cb (encode_discover svc) mtu status pdu s = Some (Send req s')"
  shows "is_request mtu req \<and> \<not> continues (hd req)"
  using assms is_request_range(1) [OF assms(1)]
  by (auto simp: all_cb_def encoded_discover_services send_or_def Let_def continues_def split: if_splits option.splits bind_splits)

interpretation primaries: discovery primary_all_cb Primaries gatttool_primary_all_cb
  by unfold_locales (simp add: run_procedure_def Let_def split: prod.splits, unfold primary_all_cb_def encode_discover_primary_def, rule all_cb_sends)

interpretation secondaries: discovery secondary_all_cb Secondaries gatttool_secondary_all_cb
  by unfold_locales (simp add: run_procedure_def Let_def split: prod.splits, unfold secondary_all_cb_def encode_discover_secondary_def, rule all_cb_sends)

interpretation char_discovery: discovery char_discovered_cb Characteristics gatttool_char_discovered_cb
proof
  fix mtu status pdu s req s'
  assume "23 \<le> mtu" "char_discovered_cb mtu status pdu s = Some (Send req s')"
  then show "is_request mtu req \<and> \<not> continues (hd req)"
    using is_request_range(2) [of mtu]
    by (auto simp: char_discovered_cb_def encoded_discover_char send_or_def Let_def continues_def split: if_splits option.splits bind_splits)
qed (simp add: run_procedure_def Let_def split: prod.splits)

interpretation desc_discovery: discovery desc_discovered_cb Descriptors char_desc_cb
proof
  fix mtu status pdu s req s'
  assume "23 \<le> mtu" "desc_discovered_cb mtu status pdu s = Some (Send req s')"
  then show "is_request mtu req \<and> \<not> continues (hd req)"
    using is_request_range(3) [of mtu]
    by (auto simp: desc_discovered_cb_def encoded_find_info send_or_def Let_def continues_def split: if_splits option.splits bind_splits)
qed (simp add: run_procedure_def Let_def split: prod.splits)

section \<open>Reading a value\<close>

definition proper_server :: "nat \<Rightarrow> (u8 list \<Rightarrow> u8 list) \<Rightarrow> bool" where
  "proper_server mtu respond \<longleftrightarrow> (\<forall>req. is_request mtu req \<longrightarrow> proper_response mtu req (respond req))"

definition read_step :: "procedure \<Rightarrow> nat \<Rightarrow> read_long_data \<Rightarrow>
    (nat \<Rightarrow> u8 \<Rightarrow> u8 list \<Rightarrow> read_long_data \<Rightarrow> read_long_data read_reaction option) \<Rightarrow> bool" where
  "read_step k j rl h \<longleftrightarrow> k = Read_char j rl \<and> h = read_char_helper \<or> k = Read_blob j rl \<and> h = read_blob_helper"

lemma read_step_sends:
  assumes "read_step k j rl h" "23 \<le> mtu" "h mtu status pdu rl = Some (Read_on req rl')"
  shows "is_request mtu req \<and> continues (hd req)"
  using assms is_request_range(5) [OF assms(2)]
  by (auto simp: read_step_def read_char_helper_def read_blob_helper_def ask_blob_def encoded_blob_req Let_def continues_def
      split: if_splits bind_splits)

lemma read_step_run:
  assumes "read_step k j rl h" "op_callback op = Some k" "attrib_callback_result opcode rsp = (status, pdu)"
  shows "\<exists>own. run_procedure op opcode rsp (att, w) =
    do { r \<leftarrow> h (buffer_len att) status pdu rl; react_read (op_id op) j own r (att, w) }"
  using assms by (auto simp: read_step_def run_procedure_def Let_def)

lemma exchange_read:
  assumes "read_step k j rl h" "23 \<le> unat m" "is_request (unat m) req" "proper_response (unat m) req (respond req)" "i \<noteq> 0"
    and "answer_of respond req = (status, pdu)"
  shows "h (unat m) status pdu rl = Some (Read_on req' rl') \<Longrightarrow>
      exchange respond (quiet m nid (request_op i k req # q) None, w) =
        Some (quiet m nid (request_op i (Read_blob j rl') req' # q) None, w) \<and> is_request (unat m) req'"
    "h (unat m) status pdu rl = Some (Read_done e p l) \<Longrightarrow> (\<And>att. char_read_cb e p l j (att, w) = Some (att, w')) \<Longrightarrow>
      exchange respond (quiet m nid (request_op i k req # q) None, w) = Some (quiet m nid q None, w')"
proof -
  let ?op = "request_op i k req"
  have op: "op_callback ?op = Some k" "op_id ?op = i"
    by (simp_all add: request_op_def)
  obtain own where run: "run_procedure ?op (hd (respond req)) (tl (respond req)) (quiet m nid q (Some ?op), w) =
      do { r \<leftarrow> h (unat m) status pdu rl; react_read i j own r (quiet m nid q (Some ?op), w) }"
    using read_step_run [OF assms(1) op(1) assms(6) [unfolded answer_of_def], of "quiet m nid q (Some ?op)" w] op(2) by auto
  note step = exchange_step [where respond = respond, OF assms(3,4) refl]
  show "exchange respond (quiet m nid (?op # q) None, w) = Some (quiet m nid (request_op i (Read_blob j rl') req' # q) None, w) \<and>
      is_request (unat m) req'" if "h (unat m) status pdu rl = Some (Read_on req' rl')"
  proof -
    note req' = read_step_sends [OF assms(1,2) that]
    then show ?thesis
      using run step [of nid i k q w] that assms(5) send_more [OF conjunct1 [OF req'] assms(5) op(2)]
      by (simp add: react_read_def quiet_def)
  qed
  show "exchange respond (quiet m nid (?op # q) None, w) = Some (quiet m nid q None, w')"
    if "h (unat m) status pdu rl = Some (Read_done e p l)" "\<And>att. char_read_cb e p l j (att, w) = Some (att, w')"
    using run step [of nid i k q w] that by (simp add: react_read_def quiet_def)
qed

lemma read_turn:
  assumes "drive_read (\<lambda>k. answer_of respond) (unat m) n (h (unat m)) (Read_on req rl) = Some (Read_done e p l)"
    and "read_step k j rl h" "23 \<le> unat m" "is_request (unat m) req" "proper_server (unat m) respond" "i \<noteq> 0"
    and "\<And>att. char_read_cb e p l j (att, w) = Some (att, w')" "\<not> loop_quit w"
  shows "\<exists>n. session_with respond n (quiet m nid (request_op i k req # q) None, w) = Some (quiet m nid q None, w')"
  using assms
proof (induction n arbitrary: h k req rl)
  case (Suc n)
  obtain status pdu where answer: "answer_of respond req = (status, pdu)"
    by force
  then obtain r where r: "h (unat m) status pdu rl = Some r"
    "drive_read (\<lambda>k. answer_of respond) (unat m) n (read_blob_helper (unat m)) r = Some (Read_done e p l)"
    using Suc.prems(1) by (auto split: bind_splits)
  have proper: "proper_response (unat m) req (respond req)"
    using Suc.prems(4,5) by (simp add: proper_server_def)
  show ?case
  proof (cases r)
    case (Read_on req' rl')
    note ex = exchange_read(1) [OF Suc.prems(2-4) proper Suc.prems(6) answer r(1) [unfolded Read_on], of nid q w]
    obtain n' where "session_with respond n' (quiet m nid (request_op i (Read_blob j rl') req' # q) None, w) =
        Some (quiet m nid q None, w')"
      using Suc.IH [where h = read_blob_helper and k = "Read_blob j rl'", OF r(2) [unfolded Read_on] _ Suc.prems(3) _ Suc.prems(5-8)] ex
      by (auto simp: read_step_def)
    then show ?thesis
      using ex Suc.prems(8) by (intro exI [of _ "Suc n'"]) simp
  next
    case (Read_done e' p' l')
    then have "h (unat m) status pdu rl = Some (Read_done e p l)"
      using r by simp
    from exchange_read(2) [OF Suc.prems(2-4) proper Suc.prems(6) answer this Suc.prems(7)] show ?thesis
      using Suc.prems(8) by (intro exI [of _ "Suc 0"]) simp
  qed
qed simp

text \<open>The value that \<open>char_read_cb\<close> logs.\<close>

lemma char_read_value:
  assumes "length v < 65535" "j < length (char_value_handles_to_read w)"
  shows "char_read_cb 0 (ATT_OP_READ_RESP # v) (of_nat (length v + 1)) j (att, w) =
    Some (att, log_lines [CHAR_VALUE (char_value_handles_to_read w ! j) v] w)"
proof -
  have len: "unat (of_nat (length v + 1) :: u16) = length v + 1"
    using assms(1) by (intro unat_of_nat16) linarith
  show ?thesis
    unfolding char_read_cb_def len using assms(2) by (simp add: dec_read_resp_def size_minus_def rds_def put_bytes_0)
qed

end
