(* ===== verification/Gatttool_Turns.thy ===== *)
theory Gatttool_Turns
  imports Gatttool_Session "HOL-Library.Multiset"
begin

text \<open>
  What a session of the GATT printer promises against a device that answers as the protocol asks:
  an abstract printer that takes turns, whose state is the tasks that wait and what is on the log,
  and the simulation by which \<open>gatttool.c\<close> on the channel does what the abstract printer does.
\<close>

unbundle bit_operations_syntax

section \<open>The device\<close>

record database =
  db_primary :: "service list"
  db_secondary :: "service list"
  db_chars :: "characteristic list"
  db_attributes :: "attribute list"
  db_value :: "u16 \<Rightarrow> u8 list option"

definition readable_char :: "characteristic \<Rightarrow> bool" where
  "readable_char c \<longleftrightarrow> ch_properties c AND 0x2 = 0x2"

definition readable_handles :: "database \<Rightarrow> u16 list" where
  "readable_handles db = map ch_value_handle (filter readable_char (db_chars db))"

text \<open>The lists are in the order of the handles and the printer has room for the values.\<close>

definition database_ok :: "database \<Rightarrow> bool" where
  "database_ok db \<longleftrightarrow> in_order sv_start sv_end service_ok (db_primary db) \<and> in_order sv_start sv_end service_ok (db_secondary db) \<and>
     in_order ch_handle ch_handle (char_ok 0xFFFF) (db_chars db) \<and>
     in_order at_handle at_handle (\<lambda>x. att_uuid (at_type x) \<and> at_handle x \<noteq> 0) (db_attributes db) \<and> db_attributes db \<noteq> [] \<and>
     length (readable_handles db) \<le> 512"

text \<open>
  What the device answers: every list as the protocol asks, with as many items in a response as it
  likes; the values of the readable characteristics or an error.
\<close>

definition value_served :: "nat \<Rightarrow> u16 \<Rightarrow> u8 list option \<Rightarrow> (u8 list \<Rightarrow> u8 \<times> u8 list) \<Rightarrow> bool" where
  "value_served mtu handle val srv \<longleftrightarrow> (case val of
     Some v \<Rightarrow> length v < 65535 \<and> reads_value mtu handle v (\<lambda>k. srv)
   | None \<Rightarrow> fst (srv (ATT_OP_READ_REQ # bytes16 handle)) \<noteq> 0)"

definition serves :: "nat \<Rightarrow> database \<Rightarrow> (u8 list \<Rightarrow> u8 list) \<Rightarrow> bool" where
  "serves mtu db respond \<longleftrightarrow> proper_server mtu respond \<and> (let srv = answer_of respond in
     conforming (asks_services GATT_PRIM_SVC_UUID) (entries_fit mtu service_bytes) (services_response mtu) sv_start (db_primary db) (\<lambda>k. srv) \<and>
     conforming (asks_services GATT_SND_SVC_UUID) (entries_fit mtu service_bytes) (services_response mtu) sv_start (db_secondary db) (\<lambda>k. srv) \<and>
     conforming (asks_chars 0xFFFF) (entries_fit mtu char_bytes) (chars_response mtu) ch_handle (db_chars db) (\<lambda>k. srv) \<and>
     conforming (asks_attributes 0xFFFF) (entries_fit mtu attribute_bytes) (attributes_response mtu) at_handle (db_attributes db) (\<lambda>k. srv) \<and>
     (\<forall>h\<in>set (readable_handles db). value_served mtu h (db_value db h) srv))"

section \<open>The abstract printer\<close>

datatype listing = Prim | Sec | Chars | Descs

text \<open>A listing has some turns to go; a value is read in one turn.\<close>

datatype task = List listing nat | Value u16

record board =
  b_log :: "log_line list"
  b_max :: u16
  b_quit :: bool

text \<open>The lines of a device.\<close>

definition service_lines :: "(u16 \<Rightarrow> u16 \<Rightarrow> string \<Rightarrow> log_line) \<Rightarrow> service list \<Rightarrow> log_line list" where
  "service_lines line xs = map (\<lambda>x. line (sv_start x) (sv_end x) (uuid_text (sv_uuid x))) xs"

definition char_line :: "characteristic \<Rightarrow> log_line" where
  "char_line c = CHARACTERISTIC (ch_handle c) (ch_properties c) (ch_value_handle c) (uuid_text (ch_uuid c))"

definition attribute_line :: "attribute \<Rightarrow> log_line" where
  "attribute_line x = DESCRIPTORS (at_handle x) (uuid_text (at_type x))"

definition value_lines :: "database \<Rightarrow> u16 \<Rightarrow> log_line list" where
  "value_lines db h = (case db_value db h of None \<Rightarrow> [] | Some v \<Rightarrow> [CHAR_VALUE h v])"

primrec lines :: "database \<Rightarrow> listing \<Rightarrow> log_line list" where
  "lines db Prim = service_lines PSERVICE (db_primary db)"
| "lines db Sec = service_lines SSERVICE (db_secondary db)"
| "lines db Chars = map char_line (db_chars db)"
| "lines db Descs = map attribute_line (db_attributes db)"

definition write_lines :: "log_line list \<Rightarrow> board \<Rightarrow> board" where
  "write_lines ls b = b\<lparr>b_log := b_log b @ ls\<rparr>"

text \<open>The end of a listing: its lines, the last handle that is expected, and the reads that begin.\<close>

primrec conclude :: "database \<Rightarrow> listing \<Rightarrow> board \<Rightarrow> board" where
  "conclude db Prim b = (if db_primary db = [] then b else b\<lparr>b_max := sv_end (last (db_primary db))\<rparr>)"
| "conclude db Sec b = (if db_secondary db = [] then b else b\<lparr>b_max := sv_end (last (db_secondary db))\<rparr>)"
| "conclude db Chars b = (if db_chars db = [] \<or> b_max b \<noteq> 0xFFFF then b else b\<lparr>b_max := ch_value_handle (last (db_chars db))\<rparr>)"
| "conclude db Descs b = (if at_handle (last (db_attributes db)) = b_max b then b\<lparr>b_quit := True\<rparr> else b)"

definition begun :: "database \<Rightarrow> listing \<Rightarrow> task list" where
  "begun db l = (if l = Chars then map Value (readable_handles db) else [])"

fun turn :: "database \<Rightarrow> task list \<times> board \<Rightarrow> task list \<times> board" where
  "turn db ([], b) = ([], b)"
| "turn db (List l n # ts, b) =
     (if 1 < n then (ts @ [List l (n - 1)], b) else (ts @ begun db l, conclude db l (write_lines (lines db l) b)))"
| "turn db (Value h # ts, b) = (ts, write_lines (value_lines db h) b)"

fun weight :: "database \<Rightarrow> task \<Rightarrow> nat" where
  "weight db (List l n) = n + 1 + length (begun db l)"
| "weight db (Value h) = 1"

lemma turn_lighter: "sum_list (map (weight db) (fst (turn db (t # ts, b)))) < sum_list (map (weight db) (t # ts))"
proof (cases t)
  case (List l n)
  have "sum_list (map (weight db) (begun db l)) = length (begun db l)"
    by (simp add: begun_def comp_def sum_list_triv)
  then show ?thesis
    by (auto simp: List)
qed simp

function play :: "database \<Rightarrow> task list \<times> board \<Rightarrow> task list \<times> board" where
  "play db (ts, b) = (if b_quit b \<or> ts = [] then (ts, b) else play db (turn db (ts, b)))"
  by pat_completeness auto
termination
proof (relation "measure (\<lambda>(db, ts, b). sum_list (map (weight db) ts))")
  fix db :: database and ts :: "task list" and b :: board
  assume "\<not> (b_quit b \<or> ts = [])"
  then obtain t ts' where "ts = t # ts'"
    by (cases ts) auto
  then show "((db, turn db (ts, b)), (db, ts, b)) \<in> measure (\<lambda>(db, ts, b). sum_list (map (weight db) ts))"
    using turn_lighter [of db t ts' b] by (cases "turn db (ts, b)") simp
qed simp

declare play.simps [simp del]

text \<open>A session in which the four listings take so many turns.\<close>

definition agenda :: "nat \<Rightarrow> nat \<Rightarrow> nat \<Rightarrow> nat \<Rightarrow> task list" where
  "agenda np ns nc nd = [List Prim np, List Sec ns, List Chars nc, List Descs nd]"

definition report :: "database \<Rightarrow> nat \<Rightarrow> nat \<Rightarrow> nat \<Rightarrow> nat \<Rightarrow> task list \<times> board" where
  "report db np ns nc nd = play db (agenda np ns nc nd, \<lparr>b_log = [], b_max = 0xFFFF, b_quit = False\<rparr>)"

section \<open>What the abstract printer writes\<close>

fun owed :: "database \<Rightarrow> task \<Rightarrow> log_line list" where
  "owed db (List l n) = lines db l @ concat (map (value_lines db) (if l = Chars then readable_handles db else []))"
| "owed db (Value h) = value_lines db h"

definition owing :: "database \<Rightarrow> task list \<Rightarrow> log_line multiset" where
  "owing db ts = mset (concat (map (owed db) ts))"

definition device_lines :: "database \<Rightarrow> log_line list" where
  "device_lines db = lines db Prim @ lines db Sec @ lines db Chars @ concat (map (value_lines db) (readable_handles db)) @ lines db Descs"

lemma conclude_log [simp]: "b_log (conclude db l b) = b_log b"
  by (cases l) simp_all

lemma turn_owing:
  assumes "turn db (ts, b) = (ts', b')"
  shows "mset (b_log b') + owing db ts' = mset (b_log b) + owing db ts"
proof (cases "(db, ts, b)" rule: turn.cases)
  case (2 db l n ts b)
  have "map (owed db) (begun db l) = map (value_lines db) (if l = Chars then readable_handles db else [])"
    by (simp add: begun_def)
  then show ?thesis
    using assms 2 by (auto simp: owing_def write_lines_def simp del: concat_map_singleton split: if_splits)
qed (use assms in \<open>auto simp: owing_def write_lines_def\<close>)

lemma play_owing:
  "play db (ts, b) = (ts', b') \<Longrightarrow> mset (b_log b') + owing db ts' = mset (b_log b) + owing db ts"
proof (induction db "(ts, b)" arbitrary: ts b rule: play.induct)
  case (1 db ts b)
  obtain ts1 b1 where t: "turn db (ts, b) = (ts1, b1)"
    by fastforce
  show ?case
    using 1 t turn_owing [OF t] by (auto simp: play.simps [of db ts b] split: if_splits)
qed

text \<open>It ends when nothing waits, or once the descriptors are complete.\<close>

definition expected_handles :: "database \<Rightarrow> u16 set" where
  "expected_handles db = {0xFFFF} \<union> sv_end ` set (db_primary db @ db_secondary db) \<union> ch_value_handle ` set (db_chars db)"

definition board_ok :: "database \<Rightarrow> task list \<Rightarrow> board \<Rightarrow> bool" where
  "board_ok db ts b \<longleftrightarrow> b_max b \<in> expected_handles db \<and> length (filter (\<lambda>t. \<exists>n. t = List Descs n) ts) \<le> 1 \<and>
     (b_quit b \<longrightarrow> at_handle (last (db_attributes db)) = b_max b \<and> (\<forall>n. List Descs n \<notin> set ts))"

lemma conclude_max: "b_max b \<in> expected_handles db \<Longrightarrow> b_max (conclude db l b) \<in> expected_handles db"
  by (cases l) (auto simp: expected_handles_def)

lemma no_descs_begun: "filter (\<lambda>t. \<exists>n. t = List Descs n) (begun db l) = []" "List Descs n \<notin> set (begun db l)"
  by (auto simp: begun_def filter_empty_conv)

lemma turn_board_ok:
  assumes "board_ok db ts b" "\<not> b_quit b" "turn db (ts, b) = (ts', b')"
  shows "board_ok db ts' b'"
proof (cases "(db, ts, b)" rule: turn.cases)
  case (2 db0 l n us b0)
  show ?thesis
  proof (cases "1 < n")
    case False
    then have t: "ts' = us @ begun db l" "b' = conclude db l (write_lines (lines db l) b)"
      using assms(3) 2 by auto
    note ok = assms(1) [unfolded board_ok_def]
    have "b_max b' \<in> expected_handles db"
      using ok conclude_max [of "write_lines (lines db l) b" db l] by (simp add: t(2) write_lines_def)
    moreover have "length (filter (\<lambda>t. \<exists>n. t = List Descs n) ts') \<le> 1"
      using ok 2 by (auto simp: t(1) no_descs_begun split: if_splits)
    moreover have "at_handle (last (db_attributes db)) = b_max b' \<and> (\<forall>n. List Descs n \<notin> set ts')" if quit: "b_quit b'"
    proof -
      have l: "l = Descs" "at_handle (last (db_attributes db)) = b_max b'"
        using quit assms(2) t(2) by (cases l; auto simp: write_lines_def split: if_splits)+
      then have "\<forall>n. List Descs n \<notin> set us"
        using ok 2 by (auto simp: filter_empty_conv)
      then show ?thesis
        using l no_descs_begun(2) by (simp add: t(1))
    qed
    ultimately show ?thesis
      by (simp add: board_ok_def)
  qed (use assms 2 in \<open>auto simp: board_ok_def split: if_splits\<close>)
qed (use assms in \<open>auto simp: board_ok_def write_lines_def split: if_splits\<close>)

lemma play_board_ok: "play db (ts, b) = (ts', b') \<Longrightarrow> board_ok db ts b \<Longrightarrow> board_ok db ts' b' \<and> (b_quit b' \<or> ts' = [])"
proof (induction db "(ts, b)" arbitrary: ts b rule: play.induct)
  case (1 db ts b)
  obtain ts1 b1 where t: "turn db (ts, b) = (ts1, b1)"
    by fastforce
  show ?case
    using 1 t turn_board_ok [OF 1(3) _ t] by (auto simp: play.simps [of db ts b] split: if_splits)
qed

text \<open>A line of the descriptors is owed by their listing only.\<close>

lemma no_descs_owed:
  assumes "\<forall>n. List Descs n \<notin> set ts"
  shows "DESCRIPTORS h u \<notin># owing db ts"
proof -
  have "DESCRIPTORS h u \<notin> set (owed db t)" if "t \<in> set ts" for t
  proof (cases t)
    case (List l n)
    then have "l \<noteq> Descs"
      using assms that by auto
    then show ?thesis
      using List by (cases l) (auto simp: service_lines_def char_line_def value_lines_def split: option.splits)
  qed (auto simp: value_lines_def split: option.splits)
  then show ?thesis
    by (auto simp: owing_def)
qed

lemma descs_logged:
  assumes "mset ls + owing db ts = mset (device_lines db)" "\<forall>n. List Descs n \<notin> set ts"
  shows "mset (lines db Descs) \<subseteq># mset ls"
proof -
  let ?d = "\<lambda>l. \<exists>h u. l = DESCRIPTORS h u"
  have none: "filter_mset ?d (owing db ts) = {#}"
    using no_descs_owed [OF assms(2)] by (auto simp: filter_mset_eq_conv)
  have all: "filter_mset ?d (mset (lines db Descs)) = mset (lines db Descs)"
    by (auto simp: attribute_line_def filter_mset_eq_conv)
  have "mset (lines db Descs) \<subseteq># mset (device_lines db)"
    by (simp add: device_lines_def)
  from multiset_filter_mono [OF this, of ?d] have "mset (lines db Descs) \<subseteq># filter_mset ?d (mset ls + owing db ts)"
    unfolding all assms(1) .
  then have "mset (lines db Descs) \<subseteq># filter_mset ?d (mset ls)"
    by (simp add: none)
  then show ?thesis
    by (meson multiset_filter_subset subset_mset.order_trans)
qed

lemma agenda_owing: "owing db (agenda np ns nc nd) = mset (device_lines db)"
  by (simp add: owing_def agenda_def device_lines_def)

lemma report_complete:
  assumes "report db np ns nc nd = (ts, b)"
  shows "mset (b_log b) + owing db ts = mset (device_lines db)" "board_ok db ts b" "b_quit b \<or> ts = []"
proof -
  have ok: "board_ok db (agenda np ns nc nd) \<lparr>b_log = [], b_max = 0xFFFF, b_quit = False\<rparr>"
    by (simp add: board_ok_def expected_handles_def agenda_def)
  show "mset (b_log b) + owing db ts = mset (device_lines db)"
    using play_owing [OF assms [unfolded report_def]] agenda_owing by simp
  show "board_ok db ts b" "b_quit b \<or> ts = []"
    using play_board_ok [OF assms [unfolded report_def] ok] by simp_all
qed

end
