(* ===== verification/Gatttool_Refine.thy ===== *)
theory Gatttool_Refine
  imports Gatttool_Turns
begin

text \<open>
  The simulation: \<open>gatttool.c\<close> on the channel follows the abstract printer turn by turn; a value that
  takes several exchanges is one turn.
\<close>

unbundle bit_operations_syntax

section \<open>Turns of a listing\<close>

definition turns_left ::
  "(nat \<Rightarrow> u8 \<Rightarrow> u8 list \<Rightarrow> 's \<Rightarrow> ('s, 'r) reaction option) \<Rightarrow> ('s \<Rightarrow> procedure) \<Rightarrow> u16 \<Rightarrow> (u8 list \<Rightarrow> u8 list) \<Rightarrow>
    u8 \<Rightarrow> 'r list \<Rightarrow> nat \<Rightarrow> procedure att_send_op \<Rightarrow> bool" where
  "turns_left cb k m respond e rs n op \<longleftrightarrow> (\<exists>i s req. op = request_op i (k s) req \<and> i \<noteq> 0 \<and> is_request (unat m) req \<and>
     takes (answer_of respond) (cb (unat m)) n req s e rs)"

context discovery
begin

lemma turn_more:
  assumes "turns_left cb k m respond e rs n op" "1 < n" "23 \<le> unat m" "proper_server (unat m) respond"
  shows "\<exists>op'. exchange respond (quiet m nid (op # q) None, w) = Some (quiet m nid (q @ [op']) None, w) \<and>
    turns_left cb k m respond e rs (n - 1) op'"
proof -
  obtain i s req where op: "op = request_op i (k s) req" "i \<noteq> 0" "is_request (unat m) req"
    "takes (answer_of respond) (cb (unat m)) n req s e rs"
    using assms(1) unfolding turns_left_def by blast
  obtain n' where n: "n = Suc n'" "n' \<noteq> 0"
    using assms(2) by (cases n) auto
  obtain status pdu where answer: "answer_of respond req = (status, pdu)"
    by force
  then obtain req' s' where r: "cb (unat m) status pdu s = Some (Send req' s')"
    "takes (answer_of respond) (cb (unat m)) n' req' s' e rs"
    using op(4) n by (auto split: option.splits reaction.splits)
  have "proper_response (unat m) req (respond req)"
    using assms(4) op(3) by (simp add: proper_server_def)
  note ex = exchange_sends [where respond = respond, OF assms(3) op(3) this op(2) answer r(1)]
  show ?thesis
    using ex op(1,2) r(2) n(1) by (auto simp: turns_left_def)
qed

lemma turn_last:
  assumes "turns_left cb k m respond e rs n op" "\<not> 1 < n" "proper_server (unat m) respond"
  shows "exchange respond (quiet m nid (op # q) None, w) = do {
    (att, w) \<leftarrow> user e rs (quiet m nid q (Some op), w);
    Some (att\<lparr>pending_req := None\<rparr>, w) }"
proof -
  obtain i s req where op: "op = request_op i (k s) req" "is_request (unat m) req"
    "takes (answer_of respond) (cb (unat m)) n req s e rs"
    using assms(1) unfolding turns_left_def by blast
  then have n: "n = Suc 0"
    using assms(2) by (cases n) auto
  obtain status pdu where answer: "answer_of respond req = (status, pdu)"
    by force
  then have r: "cb (unat m) status pdu s = Some (Call_back e rs)"
    using op(3) n by (auto split: option.splits reaction.splits)
  have "proper_response (unat m) req (respond req)"
    using assms(3) op(2) by (simp add: proper_server_def)
  from exchange_ends [where respond = respond, OF op(2) this op(1) answer r] show ?thesis .
qed

end

section \<open>The relation\<close>

text \<open>The operation of a listing, with what its user's function will be given.\<close>

primrec listing_op :: "u16 \<Rightarrow> database \<Rightarrow> (u8 list \<Rightarrow> u8 list) \<Rightarrow> listing \<Rightarrow> nat \<Rightarrow> procedure att_send_op \<Rightarrow> bool" where
  "listing_op m db respond Prim = turns_left primary_all_cb Primaries m respond 0 (map service_view (db_primary db))"
| "listing_op m db respond Sec = turns_left secondary_all_cb Secondaries m respond 0 (map service_view (db_secondary db))"
| "listing_op m db respond Chars = turns_left char_discovered_cb Characteristics m respond
     (if db_chars db = [] then ATT_ECODE_ATTR_NOT_FOUND else 0) (map char_view (db_chars db))"
| "listing_op m db respond Descs = turns_left desc_discovered_cb Descriptors m respond 0 (map attribute_view (db_attributes db))"

definition value_op :: "printer \<Rightarrow> u16 \<Rightarrow> procedure att_send_op \<Rightarrow> bool" where
  "value_op w h op \<longleftrightarrow> (\<exists>i j. op = request_op i (Read_char j \<lparr>rl_handle = h, rl_buffer = [], rl_size = 0\<rparr>) (ATT_OP_READ_REQ # bytes16 h) \<and>
     i \<noteq> 0 \<and> j < num_char_value_handles w \<and> char_value_handles_to_read w ! j = h)"

fun task_op :: "u16 \<Rightarrow> database \<Rightarrow> (u8 list \<Rightarrow> u8 list) \<Rightarrow> printer \<Rightarrow> task \<Rightarrow> procedure att_send_op \<Rightarrow> bool" where
  "task_op m db respond w (List l n) op \<longleftrightarrow> listing_op m db respond l n op"
| "task_op m db respond w (Value h) op \<longleftrightarrow> value_op w h op \<and> h \<in> set (readable_handles db)"

definition displays :: "printer \<Rightarrow> board \<Rightarrow> bool" where
  "displays w b \<longleftrightarrow> g_log w = b_log b \<and> g_max_handle w = b_max b \<and> loop_quit w = b_quit b"

definition chars_pending :: "task list \<Rightarrow> task list" where
  "chars_pending ts = filter (\<lambda>t. \<exists>n. t = List Chars n) ts"

definition roomy :: "database \<Rightarrow> task list \<Rightarrow> printer \<Rightarrow> bool" where
  "roomy db ts w \<longleftrightarrow> length (char_value_handles_to_read w) = 512 \<and>
     num_char_value_handles w + length (chars_pending ts) * length (readable_handles db) \<le> 512"

definition follows :: "u16 \<Rightarrow> database \<Rightarrow> (u8 list \<Rightarrow> u8 list) \<Rightarrow> session \<Rightarrow> task list \<times> board \<Rightarrow> bool" where
  "follows m db respond = (\<lambda>(att, w) (ts, b). \<exists>nid q. att = quiet m nid q None \<and> list_all2 (task_op m db respond w) ts q \<and>
     displays w b \<and> roomy db ts w)"

text \<open>Places that are taken stay.\<close>

definition extends :: "printer \<Rightarrow> printer \<Rightarrow> bool" where
  "extends w w' \<longleftrightarrow> num_char_value_handles w \<le> num_char_value_handles w' \<and>
     (\<forall>j<num_char_value_handles w. char_value_handles_to_read w' ! j = char_value_handles_to_read w ! j)"

lemma extends_trans: "extends w w' \<Longrightarrow> extends w' w'' \<Longrightarrow> extends w w''"
  by (auto simp: extends_def)

lemma extends_simps [simp]: "extends w w" "extends w (log_lines ls w)" "extends w (w\<lparr>g_max_handle := h\<rparr>)" "extends w (w\<lparr>loop_quit := b\<rparr>)"
  by (simp_all add: extends_def log_lines_def)

lemma value_op_extends: "value_op w h op \<Longrightarrow> extends w w' \<Longrightarrow> value_op w' h op"
  unfolding value_op_def extends_def by (metis order.strict_trans2)

lemma tasks_extend:
  assumes "list_all2 (task_op m db respond w) ts q" "extends w w'"
  shows "list_all2 (task_op m db respond w') ts q"
proof (rule list_all2_mono [OF assms(1)])
  show "task_op m db respond w' t op" if "task_op m db respond w t op" for t op
    using that assms(2) value_op_extends by (cases t) auto
qed

section \<open>The ends of the listings\<close>

text \<open>The reads that begin with a list of characteristics.\<close>

lemma start_read_quiet:
  assumes "23 \<le> unat m" "num_char_value_handles w < 512" "length (char_value_handles_to_read w) = 512"
  shows "\<exists>nid' op w'. start_read h (quiet m nid q p, w) = Some (quiet m nid' (q @ [op]) p, w') \<and> value_op w' h op \<and> extends w w' \<and>
    g_log w' = g_log w \<and> g_max_handle w' = g_max_handle w \<and> loop_quit w' = loop_quit w \<and>
    length (char_value_handles_to_read w') = 512 \<and> num_char_value_handles w' = Suc (num_char_value_handles w)"
proof -
  let ?i = "num_char_value_handles w"
  let ?w = "w\<lparr>char_value_handles_to_read := (char_value_handles_to_read w)[?i := h], num_char_value_handles := ?i + 1\<rparr>"
  let ?rl = "\<lparr>rl_handle = h, rl_buffer = [], rl_size = 0\<rparr>"
  let ?op = "request_op (fresh_id nid) (Read_char ?i ?rl) (ATT_OP_READ_REQ # bytes16 h)"
  have "start_read h (quiet m nid q p, w) = Some (quiet m (fresh_id nid + 1) (q @ [?op]) p, ?w)"
    using assms send_first [OF is_request_range(4) [OF assms(1), of h]]
    by (simp add: start_read_def Let_def gatt_read_char_def encoded_read_req)
  moreover have "value_op ?w h ?op" "extends w ?w"
    using assms(2,3) fresh_id_nonzero [of nid] by (auto simp: value_op_def extends_def intro!: exI [of _ "fresh_id nid"] exI [of _ ?i])
  ultimately show ?thesis
    using assms(3) by fastforce
qed

lemma print_chars_quiet:
  assumes "23 \<le> unat m"
  shows "num_char_value_handles w + length (filter readable_char cs) \<le> 512 \<Longrightarrow> length (char_value_handles_to_read w) = 512 \<Longrightarrow>
    \<exists>nid' ops w'. print_characteristics (map char_view cs) (quiet m nid q p, w) = Some (quiet m nid' (q @ ops) p, w') \<and>
      list_all2 (value_op w') (map ch_value_handle (filter readable_char cs)) ops \<and> extends w w' \<and>
      g_log w' = g_log w @ map char_line cs \<and> g_max_handle w' = g_max_handle w \<and> loop_quit w' = loop_quit w \<and>
      length (char_value_handles_to_read w') = 512 \<and>
      num_char_value_handles w' = num_char_value_handles w + length (filter readable_char cs)"
proof (induction cs arbitrary: nid q w)
  case (Cons c cs)
  let ?w = "log_lines [char_line c] w"
  have step: "print_characteristics (map char_view (c # cs)) (att, w) = do {
      st \<leftarrow> (if readable_char c then start_read (ch_value_handle c) (att, ?w) else Some (att, ?w));
      print_characteristics (map char_view cs) st }" for att
    by (simp add: char_view_def char_line_def readable_char_def)
  have w: "g_log ?w = g_log w @ [char_line c]" "g_max_handle ?w = g_max_handle w" "loop_quit ?w = loop_quit w"
    "num_char_value_handles ?w = num_char_value_handles w" "char_value_handles_to_read ?w = char_value_handles_to_read w"
    by (simp_all add: log_lines_def)
  show ?case
  proof (cases "readable_char c")
    case True
    then have "num_char_value_handles ?w < 512" "length (char_value_handles_to_read ?w) = 512"
      using Cons.prems w by simp_all
    from start_read_quiet [OF assms this, of "ch_value_handle c" nid q p] obtain nid1 op w1 where
      w1: "start_read (ch_value_handle c) (quiet m nid q p, ?w) = Some (quiet m nid1 (q @ [op]) p, w1)"
        "value_op w1 (ch_value_handle c) op" "extends ?w w1" "g_log w1 = g_log ?w" "g_max_handle w1 = g_max_handle ?w"
        "loop_quit w1 = loop_quit ?w" "length (char_value_handles_to_read w1) = 512"
        "num_char_value_handles w1 = Suc (num_char_value_handles ?w)"
      by blast
    have "num_char_value_handles w1 + length (filter readable_char cs) \<le> 512"
      using Cons.prems(1) w1(8) w(4) True by simp
    from Cons.IH [OF this w1(7), of nid1 "q @ [op]"] obtain nid2 ops w2 where
      w2: "print_characteristics (map char_view cs) (quiet m nid1 (q @ [op]) p, w1) = Some (quiet m nid2 ((q @ [op]) @ ops) p, w2)"
        "list_all2 (value_op w2) (map ch_value_handle (filter readable_char cs)) ops" "extends w1 w2"
        "g_log w2 = g_log w1 @ map char_line cs" "g_max_handle w2 = g_max_handle w1" "loop_quit w2 = loop_quit w1"
        "length (char_value_handles_to_read w2) = 512"
        "num_char_value_handles w2 = num_char_value_handles w1 + length (filter readable_char cs)"
      by blast
    have "print_characteristics (map char_view (c # cs)) (quiet m nid q p, w) = Some (quiet m nid2 (q @ op # ops) p, w2)"
      using w1(1) w2(1) True unfolding step by simp
    moreover have "value_op w2 (ch_value_handle c) op"
      using value_op_extends [OF w1(2) w2(3)] .
    moreover have "extends w w2"
      using extends_trans [OF extends_simps(2)] extends_trans [OF w1(3) w2(3)] by blast
    ultimately show ?thesis
      using w2(2,4-8) w1(4-8) w True by (intro exI [of _ nid2] exI [of _ "op # ops"] exI [of _ w2]) simp
  next
    case False
    then obtain nid2 ops w2 where
      w2: "print_characteristics (map char_view cs) (quiet m nid q p, ?w) = Some (quiet m nid2 (q @ ops) p, w2)"
        "list_all2 (value_op w2) (map ch_value_handle (filter readable_char cs)) ops" "extends ?w w2"
        "g_log w2 = g_log ?w @ map char_line cs" "g_max_handle w2 = g_max_handle ?w" "loop_quit w2 = loop_quit ?w"
        "length (char_value_handles_to_read w2) = 512"
        "num_char_value_handles w2 = num_char_value_handles ?w + length (filter readable_char cs)"
      using Cons.IH [of ?w nid q] Cons.prems w by (auto simp del: ex_simps)
    have "print_characteristics (map char_view (c # cs)) (quiet m nid q p, w) = Some (quiet m nid2 (q @ ops) p, w2)"
      using w2(1) False unfolding step by simp
    moreover have "extends w w2"
      using extends_trans [OF extends_simps(2) w2(3)] .
    ultimately show ?thesis
      using w2 w False by (intro exI [of _ nid2] exI [of _ ops] exI [of _ w2]) simp
  qed
qed auto

lemma print_services_views:
  "print_services line 0 (map service_view xs) (att, w) =
    Some (att, if xs = [] then w else (log_lines (service_lines line xs) w)\<lparr>g_max_handle := sv_end (last xs)\<rparr>)"
  by (simp add: print_services_def service_lines_def service_view_def comp_def last_map)

lemma char_discovered_views:
  assumes "print_characteristics (map char_view cs) st = Some (att, w)"
  shows "gatttool_char_discovered_cb (if cs = [] then ATT_ECODE_ATTR_NOT_FOUND else 0) (map char_view cs) st =
    Some (if cs = [] then st else (att, if g_max_handle w = 0xFFFF then w\<lparr>g_max_handle := ch_value_handle (last cs)\<rparr> else w))"
  using assms by (simp add: gatttool_char_discovered_cb_def last_map) (simp add: char_view_def)

lemma char_desc_views:
  assumes "xs \<noteq> []"
  shows "char_desc_cb 0 (map attribute_view xs) (att, w) = Some (att,
    let w = log_lines (map attribute_line xs) w in if at_handle (last xs) = g_max_handle w then w\<lparr>loop_quit := True\<rparr> else w)"
  using assms by (simp add: char_desc_cb_def Let_def last_map comp_def attribute_line_def [abs_def] attribute_view_def)

definition listing_done :: "u16 \<Rightarrow> database \<Rightarrow> (u8 list \<Rightarrow> u8 list) \<Rightarrow> listing \<Rightarrow> procedure att_send_op list \<Rightarrow>
    printer \<Rightarrow> board \<Rightarrow> session \<Rightarrow> bool" where
  "listing_done m db respond l q w b st \<longleftrightarrow> (\<exists>nid ops w'. st = (quiet m nid (q @ ops) None, w') \<and>
     list_all2 (task_op m db respond w') (begun db l) ops \<and> displays w' (conclude db l (write_lines (lines db l) b)) \<and> extends w w' \<and>
     length (char_value_handles_to_read w') = length (char_value_handles_to_read w) \<and>
     num_char_value_handles w' = num_char_value_handles w + length (begun db l))"

lemma listing_doneI:
  assumes "begun db l = []" "displays w' (conclude db l (write_lines (lines db l) b))"
    "num_char_value_handles w' = num_char_value_handles w" "char_value_handles_to_read w' = char_value_handles_to_read w"
  shows "listing_done m db respond l q w b (quiet m nid q None, w')"
  unfolding listing_done_def using assms
  by (intro exI [of _ nid] exI [of _ "[]"] exI [of _ w']) (simp add: extends_def)

lemma chars_end:
  assumes "listing_op m db respond Chars n op" "\<not> 1 < n" "proper_server (unat m) respond" "23 \<le> unat m" "displays w b"
    "length (char_value_handles_to_read w) = 512" "num_char_value_handles w + length (readable_handles db) \<le> 512"
  shows "\<exists>st. exchange respond (quiet m nid (op # q) None, w) = Some st \<and> listing_done m db respond Chars q w b st"
proof -
  let ?cs = "db_chars db"
  note ex = char_discovery.turn_last [OF assms(1) [unfolded listing_op.simps(3)] assms(2,3), of nid q w]
  have "num_char_value_handles w + length (filter readable_char ?cs) \<le> 512"
    using assms(7) by (simp add: readable_handles_def)
  from print_chars_quiet [OF assms(4) this assms(6), of nid q "Some op"] obtain nid' ops w' where
    w': "print_characteristics (map char_view ?cs) (quiet m nid q (Some op), w) = Some (quiet m nid' (q @ ops) (Some op), w')"
      "list_all2 (value_op w') (map ch_value_handle (filter readable_char ?cs)) ops" "extends w w'"
      "g_log w' = g_log w @ map char_line ?cs" "g_max_handle w' = g_max_handle w" "loop_quit w' = loop_quit w"
      "length (char_value_handles_to_read w') = 512"
      "num_char_value_handles w' = num_char_value_handles w + length (filter readable_char ?cs)"
    by blast
  define w1 where "w1 = (if ?cs = [] then w else if g_max_handle w' = 0xFFFF then w'\<lparr>g_max_handle := ch_value_handle (last ?cs)\<rparr> else w')"
  have same: "num_char_value_handles w1 = num_char_value_handles w'" "length (char_value_handles_to_read w1) = 512" "extends w w1" "extends w' w1"
    if "?cs \<noteq> []"
    using w' that extends_trans [OF w'(3)] by (simp_all add: w1_def)
  have "list_all2 (task_op m db respond w1) (begun db Chars) ops"
  proof -
    have "list_all2 (value_op w1) (readable_handles db) ops" if "?cs \<noteq> []"
      using list_all2_mono [OF w'(2)] value_op_extends [OF _ same(4) [OF that]] unfolding readable_handles_def by blast
    then have "list_all2 (\<lambda>h op. value_op w1 h op \<and> h \<in> set (readable_handles db)) (readable_handles db) ops" if "?cs \<noteq> []"
      using that by (auto simp: list_all2_conv_all_nth)
    then show ?thesis
      using w'(2) by (cases "?cs = []") (auto simp: begun_def list_all2_map1 readable_handles_def)
  qed
  moreover have "displays w1 (conclude db Chars (write_lines (lines db Chars) b))"
    using assms(5) w'(4-6) by (simp add: displays_def w1_def write_lines_def)
  moreover have "ops = []" "nid' = nid" if "?cs = []"
    using w'(1) that by (simp_all add: quiet_def)
  moreover have "exchange respond (quiet m nid (op # q) None, w) = Some (quiet m nid' (q @ ops) None, w1)"
    unfolding ex char_discovered_views [OF w'(1)] using calculation(3,4) by (auto simp: w1_def quiet_def)
  ultimately show ?thesis
    using same w'(8) assms(6)
    by (cases "?cs = []") (auto simp: listing_done_def begun_def readable_handles_def w1_def intro!: exI [of _ nid'])
qed

lemma listing_end:
  assumes "listing_op m db respond l n op" "\<not> 1 < n" "proper_server (unat m) respond" "23 \<le> unat m" "displays w b"
    "length (char_value_handles_to_read w) = 512" "l = Chars \<longrightarrow> num_char_value_handles w + length (readable_handles db) \<le> 512"
    "db_attributes db \<noteq> []"
  shows "\<exists>st. exchange respond (quiet m nid (op # q) None, w) = Some st \<and> listing_done m db respond l q w b st"
proof (cases l)
  case Prim
  let ?w = "if db_primary db = [] then w else (log_lines (service_lines PSERVICE (db_primary db)) w)\<lparr>g_max_handle := sv_end (last (db_primary db))\<rparr>"
  have "exchange respond (quiet m nid (op # q) None, w) = Some (quiet m nid q None, ?w)"
    using primaries.turn_last [of m respond, OF assms(1) [unfolded Prim listing_op.simps] assms(2,3)]
    by (simp add: gatttool_primary_all_cb_def print_services_views quiet_def)
  moreover have "listing_done m db respond Prim q w b (quiet m nid q None, ?w)"
    using assms(5) by (intro listing_doneI) (simp_all add: begun_def displays_def log_lines_def write_lines_def service_lines_def)
  ultimately show ?thesis
    unfolding Prim by blast
next
  case Sec
  let ?w = "if db_secondary db = [] then w else (log_lines (service_lines SSERVICE (db_secondary db)) w)\<lparr>g_max_handle := sv_end (last (db_secondary db))\<rparr>"
  have "exchange respond (quiet m nid (op # q) None, w) = Some (quiet m nid q None, ?w)"
    using secondaries.turn_last [of m respond, OF assms(1) [unfolded Sec listing_op.simps] assms(2,3)]
    by (simp add: gatttool_secondary_all_cb_def print_services_views quiet_def)
  moreover have "listing_done m db respond Sec q w b (quiet m nid q None, ?w)"
    using assms(5) by (intro listing_doneI) (simp_all add: begun_def displays_def log_lines_def write_lines_def service_lines_def)
  ultimately show ?thesis
    unfolding Sec by blast
next
  case Chars
  then show ?thesis
    using chars_end [OF _ assms(2-6)] assms(1,7) by blast
next
  case Descs
  let ?w = "let w = log_lines (map attribute_line (db_attributes db)) w
    in if at_handle (last (db_attributes db)) = g_max_handle w then w\<lparr>loop_quit := True\<rparr> else w"
  have "exchange respond (quiet m nid (op # q) None, w) = Some (quiet m nid q None, ?w)"
    using desc_discovery.turn_last [of m respond, OF assms(1) [unfolded Descs listing_op.simps] assms(2,3)]
    by (simp add: char_desc_views [OF assms(8)] quiet_def)
  moreover have "listing_done m db respond Descs q w b (quiet m nid q None, ?w)"
    using assms(5) by (intro listing_doneI) (simp_all add: begun_def displays_def log_lines_def write_lines_def Let_def)
  ultimately show ?thesis
    unfolding Descs by blast
qed

section \<open>Turn by turn\<close>

lemma session_with_add: "session_with respond (i + j) st = do { st \<leftarrow> session_with respond i st; session_with respond j st }"
proof (induction i arbitrary: st)
  case (Suc i)
  have "session_with respond j st = Some st" if "loop_quit (snd st)"
    using that by (cases j) simp_all
  then show ?case
    using Suc by (cases "exchange respond st") simp_all
qed simp

lemma one_exchange: "exchange respond st = Some st' \<Longrightarrow> \<not> loop_quit (snd st) \<Longrightarrow> session_with respond (Suc 0) st = Some st'"
  by simp

text \<open>A value that the device gives is on the log after the turn; one that it refuses is not.\<close>

lemma value_turn:
  assumes "value_op w h op" "h \<in> set (readable_handles db)" "serves (unat m) db respond" "23 \<le> unat m"
    "length (char_value_handles_to_read w) = 512" "num_char_value_handles w \<le> 512" "\<not> loop_quit w"
  shows "\<exists>n. session_with respond n (quiet m nid (op # q) None, w) = Some (quiet m nid q None, log_lines (value_lines db h) w)"
proof -
  obtain i j where op: "op = request_op i (Read_char j \<lparr>rl_handle = h, rl_buffer = [], rl_size = 0\<rparr>) (ATT_OP_READ_REQ # bytes16 h)"
    "i \<noteq> 0" "j < num_char_value_handles w" "char_value_handles_to_read w ! j = h"
    using assms(1) unfolding value_op_def by blast
  let ?rl = "\<lparr>rl_handle = h, rl_buffer = [], rl_size = 0\<rparr>"
  have proper: "proper_server (unat m) respond" and served: "value_served (unat m) h (db_value db h) (answer_of respond)"
    using assms(2,3) by (simp_all add: serves_def Let_def)
  have start: "read_step (Read_char j ?rl) j ?rl read_char_helper"
    by (simp add: read_step_def)
  note req = is_request_range(4) [OF assms(4), of h]
  show ?thesis
  proof (cases "db_value db h")
    case None
    then obtain status pdu where answer: "answer_of respond (ATT_OP_READ_REQ # bytes16 h) = (status, pdu)" "status \<noteq> 0"
      using served by (cases "answer_of respond (ATT_OP_READ_REQ # bytes16 h)") (simp add: value_served_def)
    have "proper_response (unat m) (ATT_OP_READ_REQ # bytes16 h) (respond (ATT_OP_READ_REQ # bytes16 h))"
      using proper req by (simp add: proper_server_def)
    moreover have "read_char_helper (unat m) status pdu ?rl = Some (Read_done status pdu (of_nat (length pdu)))"
      using answer(2) by (simp add: read_char_helper_def Let_def)
    moreover have "char_read_cb status pdu (of_nat (length pdu)) j (att, w) = Some (att, w)" for att
      using answer(2) by (simp add: char_read_cb_def)
    ultimately have "exchange respond (quiet m nid (op # q) None, w) = Some (quiet m nid q None, w)"
      using exchange_read(2) [OF start assms(4) req _ op(2) answer(1)] op(1) by blast
    then show ?thesis
      using assms(7) None by (intro exI [of _ "Suc 0"]) (simp add: value_lines_def log_lines_def)
  next
    case (Some v)
    then have v: "length v < 65535" "reads_value (unat m) h v (\<lambda>k. answer_of respond)"
      using served by (simp_all add: value_served_def)
    have m: "unat m < 65536"
      using unsigned_less [of m, where 'a = nat] by simp
    have "gatt_read_char (unat m) h = Some (Read_on (ATT_OP_READ_REQ # bytes16 h) ?rl)"
      using assms(4) by (simp add: gatt_read_char_def encoded_read_req)
    from read_whole_value [OF assms(4) m v this, of "length v + 2"]
    have drive: "drive_read (\<lambda>k. answer_of respond) (unat m) (length v + 2) (read_char_helper (unat m))
        (Read_on (ATT_OP_READ_REQ # bytes16 h) ?rl) = Some (Read_done 0 (ATT_OP_READ_RESP # v) (of_nat (length v + 1)))"
      by simp
    have "j < length (char_value_handles_to_read w)"
      using op(3) assms(5,6) by simp
    from char_read_value [OF v(1) this] op(4)
    have "char_read_cb 0 (ATT_OP_READ_RESP # v) (of_nat (length v + 1)) j (att, w) = Some (att, log_lines (value_lines db h) w)" for att
      by (simp only: value_lines_def Some option.case)
    from read_turn [OF drive start assms(4) req proper op(2) this assms(7)] show ?thesis
      unfolding op(1) .
  qed
qed

lemma displays_lines: "displays w b \<Longrightarrow> displays (log_lines ls w) (write_lines ls b)"
  by (simp add: displays_def log_lines_def write_lines_def)

lemma follows_turn:
  assumes "follows m db respond st (ts, b)" "ts \<noteq> []" "\<not> b_quit b" "serves (unat m) db respond" "23 \<le> unat m" "db_attributes db \<noteq> []"
  shows "\<exists>n st'. session_with respond n st = Some st' \<and> follows m db respond st' (turn db (ts, b))"
proof -
  obtain att w where st: "st = (att, w)"
    by (cases st)
  obtain nid q where q: "att = quiet m nid q None" "list_all2 (task_op m db respond w) ts q" "displays w b" "roomy db ts w"
    using assms(1) unfolding st follows_def by blast
  obtain t us where ts: "ts = t # us"
    using assms(2) by (cases ts) simp_all
  then obtain op q' where q': "q = op # q'" "task_op m db respond w t op" "list_all2 (task_op m db respond w) us q'"
    using q(2) by (auto simp: list_all2_Cons1)
  have running: "\<not> loop_quit w"
    using assms(3) q(3) by (simp add: displays_def)
  have room: "length (char_value_handles_to_read w) = 512" "num_char_value_handles w \<le> 512"
    using q(4) by (auto simp: roomy_def)
  have proper: "proper_server (unat m) respond"
    using assms(4) by (simp add: serves_def)
  show ?thesis
  proof (cases t)
    case (List l n)
    then have op: "listing_op m db respond l n op"
      using q'(2) by simp
    show ?thesis
    proof (cases "1 < n")
      case True
      have "\<exists>op'. exchange respond (quiet m nid (op # q') None, w) = Some (quiet m nid (q' @ [op']) None, w) \<and>
          listing_op m db respond l (n - 1) op'"
        using op primaries.turn_more secondaries.turn_more char_discovery.turn_more desc_discovery.turn_more True assms(5) proper
        by (cases l) (simp_all only: listing_op.simps)
      then obtain op' where op': "exchange respond (quiet m nid (op # q') None, w) = Some (quiet m nid (q' @ [op']) None, w)"
        "listing_op m db respond l (n - 1) op'"
        by blast
      have "roomy db (us @ [List l (n - 1)]) w"
        using q(4) by (auto simp: roomy_def chars_pending_def ts List)
      moreover have "list_all2 (task_op m db respond w) (us @ [List l (n - 1)]) (q' @ [op'])"
        using q'(3) op'(2) by (intro list_all2_appendI) simp_all
      ultimately have "follows m db respond (quiet m nid (q' @ [op']) None, w) (turn db (ts, b))"
        using q(3) True unfolding follows_def ts List by auto
      then show ?thesis
        using one_exchange [OF op'(1)] running unfolding st q(1) q'(1) by fastforce
    next
      case False
      have "l = Chars \<longrightarrow> num_char_value_handles w + length (readable_handles db) \<le> 512"
        using q(4) by (auto simp: roomy_def chars_pending_def ts List)
      from listing_end [OF op False proper assms(5) q(3) room(1) this assms(6), of nid q'] obtain st' where
        st': "exchange respond (quiet m nid (op # q') None, w) = Some st'" "listing_done m db respond l q' w b st'"
        by blast
      then obtain nid' ops w' where w': "st' = (quiet m nid' (q' @ ops) None, w')" "list_all2 (task_op m db respond w') (begun db l) ops"
        "displays w' (conclude db l (write_lines (lines db l) b))" "extends w w'"
        "length (char_value_handles_to_read w') = length (char_value_handles_to_read w)"
        "num_char_value_handles w' = num_char_value_handles w + length (begun db l)"
        unfolding listing_done_def by blast
      have "roomy db (us @ begun db l) w'"
        using q(4) w'(5,6) by (auto simp: roomy_def chars_pending_def ts List begun_def filter_map comp_def split: if_splits)
      moreover have "list_all2 (task_op m db respond w') (us @ begun db l) (q' @ ops)"
        using tasks_extend [OF q'(3) w'(4)] w'(2) by (rule list_all2_appendI)
      ultimately have "follows m db respond st' (turn db (ts, b))"
        using w'(3) False unfolding follows_def w'(1) ts List by auto
      then show ?thesis
        using one_exchange [OF st'(1)] running unfolding st q(1) q'(1) by fastforce
    qed
  next
    case (Value h)
    then have "value_op w h op" "h \<in> set (readable_handles db)"
      using q'(2) by simp_all
    from value_turn [OF this assms(4,5) room running, of nid q'] obtain n where
      n: "session_with respond n st = Some (quiet m nid q' None, log_lines (value_lines db h) w)"
      unfolding st q(1) q'(1) by blast
    have "list_all2 (task_op m db respond (log_lines (value_lines db h) w)) us q'"
      using tasks_extend [OF q'(3)] by simp
    moreover have "roomy db us (log_lines (value_lines db h) w)"
      using q(4) by (simp add: roomy_def chars_pending_def ts Value log_lines_def)
    ultimately have "follows m db respond (quiet m nid q' None, log_lines (value_lines db h) w) (turn db (ts, b))"
      using displays_lines [OF q(3)] unfolding follows_def ts Value by auto
    then show ?thesis
      using n by blast
  qed
qed

lemma follows_play:
  "follows m db respond st (ts, b) \<Longrightarrow> serves (unat m) db respond \<Longrightarrow> 23 \<le> unat m \<Longrightarrow> db_attributes db \<noteq> [] \<Longrightarrow>
    \<exists>n st'. session_with respond n st = Some st' \<and> follows m db respond st' (play db (ts, b))"
proof (induction db "(ts, b)" arbitrary: ts b st rule: play.induct)
  case (1 db ts b)
  show ?case
  proof (cases "b_quit b \<or> ts = []")
    case True
    then show ?thesis
      using 1(2) by (intro exI [of _ 0] exI [of _ st]) (simp add: play.simps [of db ts b])
  next
    case False
    then obtain i st1 where st1: "session_with respond i st = Some st1" "follows m db respond st1 (turn db (ts, b))"
      using follows_turn [OF 1(2) _ _ 1(3-5)] by blast
    obtain ts1 b1 where t: "turn db (ts, b) = (ts1, b1)"
      by fastforce
    obtain j st2 where "session_with respond j st1 = Some st2" "follows m db respond st2 (play db (ts1, b1))"
      using 1(1) [OF False t] st1(2) 1(3-5) unfolding t by blast
    then show ?thesis
      using st1(1) False t by (intro exI [of _ "i + j"] exI [of _ st2]) (simp add: session_with_add play.simps [of db ts b])
  qed
qed

end
