(* ===== verification/Gatttool_Server.thy ===== *)
theory Gatttool_Server
  imports Gatttool_Turns
begin

text \<open>
  A device that answers every request from its database, with as many items in a response as the MTU
  has room for; it meets what \<open>serves\<close> asks of a device.
\<close>

unbundle bit_operations_syntax

section \<open>The device\<close>

definition error_rsp :: "u8 list \<Rightarrow> u8 \<Rightarrow> u8 list" where
  "error_rsp req code = [ATT_OP_ERROR, hd req, 0, 0, code]"

text \<open>The longest beginning of a list that fits.\<close>

function longest :: "('x list \<Rightarrow> bool) \<Rightarrow> 'x list \<Rightarrow> 'x list" where
  "longest fits xs = (if fits xs \<or> xs = [] then xs else longest fits (butlast xs))"
  by pat_completeness auto
termination
  by (relation "measure (\<lambda>(fits, xs). length xs)") auto

declare longest.simps [simp del]

definition reply_list :: "u8 list \<Rightarrow> ('x list \<Rightarrow> bool) \<Rightarrow> ('x list \<Rightarrow> u8 list) \<Rightarrow> 'x list \<Rightarrow> u8 list" where
  "reply_list req fits answer xs = (if xs = [] then error_rsp req ATT_ECODE_ATTR_NOT_FOUND else answer (longest fits xs))"

text \<open>A request for a value: the response's opcode, the handle and the offset.\<close>

definition asks_value :: "u8 list \<Rightarrow> (u8 \<times> u16 \<times> nat) option" where
  "asks_value req =
     (if hd req = ATT_OP_READ_REQ \<and> length req = 3 then Some (ATT_OP_READ_RESP, le16 (req ! 1) (req ! 2), 0)
      else if hd req = ATT_OP_READ_BLOB_REQ \<and> length req = 5
      then Some (ATT_OP_READ_BLOB_RESP, le16 (req ! 1) (req ! 2), unat (le16 (req ! 3) (req ! 4)))
      else None)"

definition respond_db :: "nat \<Rightarrow> database \<Rightarrow> u8 list \<Rightarrow> u8 list" where
  "respond_db mtu db req =
     (case asks_services GATT_PRIM_SVC_UUID req of
        Some h \<Rightarrow> reply_list req (entries_fit mtu service_bytes) (services_response mtu) (items_from sv_start h (db_primary db))
      | None \<Rightarrow> (case asks_services GATT_SND_SVC_UUID req of
        Some h \<Rightarrow> reply_list req (entries_fit mtu service_bytes) (services_response mtu) (items_from sv_start h (db_secondary db))
      | None \<Rightarrow> (case asks_chars 0xFFFF req of
        Some h \<Rightarrow> reply_list req (entries_fit mtu char_bytes) (chars_response mtu) (items_from ch_handle h (db_chars db))
      | None \<Rightarrow> (case asks_attributes 0xFFFF req of
        Some h \<Rightarrow> reply_list req (entries_fit mtu attribute_bytes) (attributes_response mtu) (items_from at_handle h (db_attributes db))
      | None \<Rightarrow> (case asks_value req of
        Some (opcode, h, i) \<Rightarrow> (case db_value db h of None \<Rightarrow> error_rsp req 0x02 | Some v \<Rightarrow> opcode # value_part mtu v i)
      | None \<Rightarrow> error_rsp req ATT_ECODE_REQ_NOT_SUPP)))))"

section \<open>Responses that fit\<close>

lemma longest_prefix: "\<exists>n. longest fits xs = take n xs"
proof (induction fits xs rule: longest.induct)
  case (1 fits xs)
  show ?case
  proof (cases "fits xs \<or> xs = []")
    case True
    then show ?thesis
      by (intro exI [of _ "length xs"]) (simp add: longest.simps [of fits xs])
  next
    case False
    then obtain n where "longest fits (butlast xs) = take n (butlast xs)"
      using 1 by blast
    then show ?thesis
      using False by (intro exI [of _ "min n (length xs - 1)"]) (simp add: longest.simps [of fits xs] butlast_conv_take)
  qed
qed

lemma longest_fits: "xs \<noteq> [] \<Longrightarrow> fits [hd xs] \<Longrightarrow> fits (longest fits xs)"
proof (induction fits xs rule: longest.induct)
  case (1 fits xs)
  show ?case
  proof (cases "fits xs")
    case False
    then have xs: "butlast xs \<noteq> []" "hd (butlast xs) = hd xs"
      using 1(2,3) by (cases xs rule: remdups_adj.cases; auto)+
    have "longest fits xs = longest fits (butlast xs)"
      using False 1(2) by (simp add: longest.simps [of fits xs])
    then show ?thesis
      using 1 False xs by simp
  qed (simp add: longest.simps [of fits xs])
qed

lemma longest_whole: "fits xs \<Longrightarrow> longest fits xs = xs"
  by (simp add: longest.simps [of fits xs])

lemma entries_packets:
  assumes "entries_fit mtu entry xs" "0 < length (entry (hd xs))" "mtu < 65536"
  shows "\<exists>r. response mtu (\<lambda>buf. enc_read_by_grp_resp (Some (entries_of entry xs)) buf mtu) = ATT_OP_READ_BY_GROUP_RESP # r \<and> length r < mtu"
    "\<exists>r. response mtu (\<lambda>buf. enc_read_by_type_resp (Some (entries_of entry xs)) (Some buf) mtu) = ATT_OP_READ_BY_TYPE_RESP # r \<and> length r < mtu"
    "\<exists>r. response mtu (\<lambda>buf. enc_find_info_resp f (Some (entries_of entry xs)) (Some buf) mtu) = ATT_OP_FIND_INFO_RESP # r \<and> length r < mtu"
proof -
  note fit = entries_of_fit [OF assms]
  note enc = encoded_list_resp [OF fit(1) _ _ assms(3), unfolded fit(2), OF assms(2) fit(4)]
  have "length (concat (first_entries mtu (entries_of entry xs))) + 2 \<le> mtu"
    using first_entries_room [OF fit(1), unfolded fit(2), OF fit(4)] fit(4) by linarith
  then show
    "\<exists>r. response mtu (\<lambda>buf. enc_read_by_grp_resp (Some (entries_of entry xs)) buf mtu) = ATT_OP_READ_BY_GROUP_RESP # r \<and> length r < mtu"
    "\<exists>r. response mtu (\<lambda>buf. enc_read_by_type_resp (Some (entries_of entry xs)) (Some buf) mtu) = ATT_OP_READ_BY_TYPE_RESP # r \<and> length r < mtu"
    "\<exists>r. response mtu (\<lambda>buf. enc_find_info_resp f (Some (entries_of entry xs)) (Some buf) mtu) = ATT_OP_FIND_INFO_RESP # r \<and> length r < mtu"
    unfolding response_def enc by simp_all
qed

text \<open>A packet that answers a request of the opcode.\<close>

definition answers :: "nat \<Rightarrow> u8 \<Rightarrow> u8 list \<Rightarrow> bool" where
  "answers mtu opcode p \<longleftrightarrow> p \<noteq> [] \<and> length p \<le> mtu \<and> get_op_type (hd p) = ATT_OP_TYPE_RSP \<and> hd p \<noteq> ATT_OP_ERROR \<and>
     get_req_opcode (hd p) = opcode"

lemma answers_proper: "answers mtu (hd req) p \<Longrightarrow> proper_response mtu req p"
  by (simp add: answers_def proper_response_def)

lemma answer_of_answers: "answers mtu opcode (respond req) \<Longrightarrow> answer_of respond req = (0, respond req)"
  by (cases "respond req") (simp_all add: answers_def answer_of_def attrib_callback_result_def construct_full_pdu_def)

lemma error_rsp_proper: "23 \<le> mtu \<Longrightarrow> proper_response mtu req (error_rsp req code)"
  by (simp add: proper_response_def error_rsp_def get_op_type_def att_opcode_type_table_def)

lemma answer_of_error: "respond req = error_rsp req code \<Longrightarrow> fst (answer_of respond req) = code"
  by (simp add: answer_of_def error_rsp_def attrib_callback_result_def)

lemma response_opcodes:
  "get_op_type ATT_OP_READ_BY_GROUP_RESP = ATT_OP_TYPE_RSP" "get_op_type ATT_OP_READ_BY_TYPE_RESP = ATT_OP_TYPE_RSP"
  "get_op_type ATT_OP_FIND_INFO_RESP = ATT_OP_TYPE_RSP" "get_op_type ATT_OP_READ_RESP = ATT_OP_TYPE_RSP"
  "get_op_type ATT_OP_READ_BLOB_RESP = ATT_OP_TYPE_RSP"
  "get_req_opcode ATT_OP_READ_BY_GROUP_RESP = ATT_OP_READ_BY_GROUP_REQ" "get_req_opcode ATT_OP_READ_BY_TYPE_RESP = ATT_OP_READ_BY_TYPE_REQ"
  "get_req_opcode ATT_OP_FIND_INFO_RESP = ATT_OP_FIND_INFO_REQ" "get_req_opcode ATT_OP_READ_RESP = ATT_OP_READ_REQ"
  "get_req_opcode ATT_OP_READ_BLOB_RESP = ATT_OP_READ_BLOB_REQ"
  by (simp_all add: get_op_type_def att_opcode_type_table_def get_req_opcode_def att_rsp_req_table_def)

lemma list_answers:
  assumes "mtu < 65536"
  shows "entries_fit mtu service_bytes xs \<Longrightarrow> answers mtu ATT_OP_READ_BY_GROUP_REQ (services_response mtu xs)"
    "entries_fit mtu char_bytes ys \<Longrightarrow> answers mtu ATT_OP_READ_BY_TYPE_REQ (chars_response mtu ys)"
    "entries_fit mtu attribute_bytes zs \<Longrightarrow> answers mtu ATT_OP_FIND_INFO_REQ (attributes_response mtu zs)"
proof -
  show "answers mtu ATT_OP_READ_BY_GROUP_REQ (services_response mtu xs)" if "entries_fit mtu service_bytes xs"
    using entries_packets(1) [OF that _ assms] response_opcodes by (auto simp: services_response_def answers_def service_bytes_def)
  show "answers mtu ATT_OP_READ_BY_TYPE_REQ (chars_response mtu ys)" if "entries_fit mtu char_bytes ys"
    using entries_packets(2) [OF that _ assms] response_opcodes by (auto simp: chars_response_def answers_def char_bytes_def)
  show "answers mtu ATT_OP_FIND_INFO_REQ (attributes_response mtu zs)" if "entries_fit mtu attribute_bytes zs"
    using entries_packets(3) [OF that _ assms, of "if uuid_kind (at_type (hd zs)) = Short then 0x01 else 0x02"] response_opcodes
    unfolding attributes_response_def answers_def by (auto simp: attribute_bytes_def simp del: if_split)
qed

lemma value_answers:
  "1 \<le> mtu \<Longrightarrow> answers mtu ATT_OP_READ_REQ (ATT_OP_READ_RESP # value_part mtu v i)"
  "1 \<le> mtu \<Longrightarrow> answers mtu ATT_OP_READ_BLOB_REQ (ATT_OP_READ_BLOB_RESP # value_part mtu v i)"
  using response_opcodes by (simp_all add: answers_def value_part_def)

section \<open>The device serves its database\<close>

lemma asks_opcode:
  "asks_services svc req = Some h \<Longrightarrow> hd req = ATT_OP_READ_BY_GROUP_REQ"
  "asks_chars e req = Some h \<Longrightarrow> hd req = ATT_OP_READ_BY_TYPE_REQ"
  "asks_attributes e req = Some h \<Longrightarrow> hd req = ATT_OP_FIND_INFO_REQ"
  by (cases req; auto simp: asks_services_def asks_chars_def asks_attributes_def dec_read_by_grp_req_def dec_read_by_type_req_def
      dec_find_info_req_def dec_two_def rd_def split: if_splits option.splits bind_splits)+

lemma asks_one_service:
  "asks_services GATT_SND_SVC_UUID req = Some h \<Longrightarrow> asks_services GATT_PRIM_SVC_UUID req = None"
  by (auto simp: asks_services_def split: option.splits if_splits)

lemma asks_other:
  "asks_chars e req = Some h \<Longrightarrow> asks_services svc req = None"
  "asks_attributes e' req = Some h \<Longrightarrow> asks_services svc req = None \<and> asks_chars e req = None"
  "asks_value req = Some v \<Longrightarrow> asks_services svc req = None \<and> asks_chars e req = None \<and> asks_attributes e' req = None"
  using asks_opcode [of _ req] by (auto simp: asks_value_def split: if_splits; fastforce)+

lemma respond_db_lists:
  "asks_services GATT_PRIM_SVC_UUID req = Some h \<Longrightarrow> respond_db mtu db req =
    reply_list req (entries_fit mtu service_bytes) (services_response mtu) (items_from sv_start h (db_primary db))"
  "asks_services GATT_SND_SVC_UUID req = Some h \<Longrightarrow> respond_db mtu db req =
    reply_list req (entries_fit mtu service_bytes) (services_response mtu) (items_from sv_start h (db_secondary db))"
  "asks_chars 0xFFFF req = Some h \<Longrightarrow> respond_db mtu db req =
    reply_list req (entries_fit mtu char_bytes) (chars_response mtu) (items_from ch_handle h (db_chars db))"
  "asks_attributes 0xFFFF req = Some h \<Longrightarrow> respond_db mtu db req =
    reply_list req (entries_fit mtu attribute_bytes) (attributes_response mtu) (items_from at_handle h (db_attributes db))"
  "asks_value req = Some (opcode, h, i) \<Longrightarrow> respond_db mtu db req =
    (case db_value db h of None \<Rightarrow> error_rsp req 0x02 | Some v \<Rightarrow> opcode # value_part mtu v i)"
  using asks_one_service asks_other by (auto simp: respond_db_def)

lemma reply_list_answers:
  assumes "xs = [] \<or> fits [hd xs]" "\<And>ys. fits ys \<Longrightarrow> answers mtu (hd req) (answer ys)"
  shows "reply_list req fits answer xs = error_rsp req ATT_ECODE_ATTR_NOT_FOUND \<or> answers mtu (hd req) (reply_list req fits answer xs)"
  using assms longest_fits [of xs fits] by (auto simp: reply_list_def)

lemma conforming_reply:
  assumes "\<And>req h. asks req = Some h \<Longrightarrow> respond req = reply_list req fits answer (items_from lo h xs)"
    and "\<And>req h ys. asks req = Some h \<Longrightarrow> fits ys \<Longrightarrow> answers mtu (hd req) (answer ys)" "\<forall>x\<in>set xs. fits [x]"
  shows "conforming asks fits answer lo xs (\<lambda>k. answer_of respond)"
  unfolding conforming_def
proof (intro allI impI)
  fix k req h
  assume req: "asks req = Some h"
  let ?ys = "items_from lo h xs"
  show "if ?ys = [] then fst (answer_of respond req) = ATT_ECODE_ATTR_NOT_FOUND
    else \<exists>n. fits (take n ?ys) \<and> answer_of respond req = (0, answer (take n ?ys))"
  proof (cases "?ys = []")
    case True
    then show ?thesis
      using answer_of_error [of respond req] assms(1) [OF req] by (simp add: reply_list_def)
  next
    case False
    then have "hd ?ys \<in> set xs"
      using hd_in_set [of ?ys] by (auto simp: items_from_def)
    then have fits: "fits (longest fits ?ys)"
      using False assms(3) longest_fits by blast
    obtain n where n: "longest fits ?ys = take n ?ys"
      using longest_prefix by blast
    have "respond req = answer (take n ?ys)"
      using assms(1) [OF req] False n by (simp add: reply_list_def)
    moreover have "answer_of respond req = (0, respond req)"
      using calculation answer_of_answers [where respond = respond, OF assms(2) [OF req fits, unfolded n, folded calculation]] by simp
    ultimately show ?thesis
      using False fits n by auto
  qed
qed

lemma single_entries:
  assumes "23 \<le> mtu"
  shows "att_uuid (sv_uuid x) \<Longrightarrow> entries_fit mtu service_bytes [x]" "att_uuid (ch_uuid y) \<Longrightarrow> entries_fit mtu char_bytes [y]"
    "att_uuid (at_type z) \<Longrightarrow> entries_fit mtu attribute_bytes [z]"
  using assms by (simp_all add: entries_fit_def service_bytes_def char_bytes_def attribute_bytes_def length_uuid_le)

text \<open>The condition under which the device's packets are right.\<close>

definition uuids_ok :: "database \<Rightarrow> bool" where
  "uuids_ok db \<longleftrightarrow> (\<forall>x\<in>set (db_primary db @ db_secondary db). att_uuid (sv_uuid x)) \<and> (\<forall>x\<in>set (db_chars db). att_uuid (ch_uuid x)) \<and>
     (\<forall>x\<in>set (db_attributes db). att_uuid (at_type x))"

lemma database_uuids: "database_ok db \<Longrightarrow> uuids_ok db"
  by (auto simp: database_ok_def uuids_ok_def in_order_def service_ok_def char_ok_def)

lemma items_in: "items_from lo h xs = [] \<or> hd (items_from lo h xs) \<in> set xs"
  using hd_in_set [of "items_from lo h xs"] by (auto simp: items_from_def)

lemma respond_db_proper:
  assumes "23 \<le> mtu" "mtu < 65536" "uuids_ok db"
  shows "proper_server mtu (respond_db mtu db)"
  unfolding proper_server_def
proof (intro allI impI)
  fix req
  note answers = list_answers [OF assms(2)]
  note single = single_entries [OF assms(1)]
  note uuids = assms(3) [unfolded uuids_ok_def]
  have proper: "proper_response mtu req p" if "p = error_rsp req code \<or> answers mtu (hd req) p" for p code
    using that answers_proper error_rsp_proper [OF assms(1)] by blast
  have prim: "proper_response mtu req (respond_db mtu db req)" if "asks_services GATT_PRIM_SVC_UUID req = Some h" for h
    unfolding respond_db_lists(1) [OF that] using items_in [of sv_start h "db_primary db"] single(1) uuids answers(1) asks_opcode(1) [OF that]
    by (intro proper [OF reply_list_answers]) auto
  have sec: "proper_response mtu req (respond_db mtu db req)" if "asks_services GATT_SND_SVC_UUID req = Some h" for h
    unfolding respond_db_lists(2) [OF that] using items_in [of sv_start h "db_secondary db"] single(1) uuids answers(1) asks_opcode(1) [OF that]
    by (intro proper [OF reply_list_answers]) auto
  have chars: "proper_response mtu req (respond_db mtu db req)" if "asks_chars 0xFFFF req = Some h" for h
    unfolding respond_db_lists(3) [OF that] using items_in [of ch_handle h "db_chars db"] single(2) uuids answers(2) asks_opcode(2) [OF that]
    by (intro proper [OF reply_list_answers]) auto
  have attrs: "proper_response mtu req (respond_db mtu db req)" if "asks_attributes 0xFFFF req = Some h" for h
    unfolding respond_db_lists(4) [OF that] using items_in [of at_handle h "db_attributes db"] single(3) uuids answers(3) asks_opcode(3) [OF that]
    by (intro proper [OF reply_list_answers]) auto
  show "proper_response mtu req (respond_db mtu db req)"
  proof (cases "asks_services GATT_PRIM_SVC_UUID req = None \<and> asks_services GATT_SND_SVC_UUID req = None \<and>
      asks_chars 0xFFFF req = None \<and> asks_attributes 0xFFFF req = None")
    case True
    then have "respond_db mtu db req = (case asks_value req of
        Some (opcode, h, i) \<Rightarrow> (case db_value db h of None \<Rightarrow> error_rsp req 0x02 | Some v \<Rightarrow> opcode # value_part mtu v i)
      | None \<Rightarrow> error_rsp req ATT_ECODE_REQ_NOT_SUPP)"
      by (simp add: respond_db_def)
    then show ?thesis
      using proper value_answers [of mtu] assms(1)
      by (auto simp: asks_value_def split: option.splits if_splits)
  qed (metis prim sec chars attrs not_None_eq)
qed

lemma respond_db_value:
  assumes "req = ATT_OP_READ_REQ # bytes16 h" "1 \<le> mtu"
  shows "db_value db h = None \<Longrightarrow> fst (answer_of (respond_db mtu db) req) = 0x02"
    "db_value db h = Some v \<Longrightarrow> reads_value mtu h v (\<lambda>k. answer_of (respond_db mtu db))"
proof -
  have "asks_value req = Some (ATT_OP_READ_RESP, h, 0)"
    using le16_bytes16 [of h] by (simp add: assms(1) asks_value_def bytes16_def)
  note read = respond_db_lists(5) [OF this, of mtu db]
  then show "fst (answer_of (respond_db mtu db) req) = 0x02" if "db_value db h = None"
    using that by (intro answer_of_error) simp
  have "asks_value (ATT_OP_READ_BLOB_REQ # bytes16 h @ bytes16 i) = Some (ATT_OP_READ_BLOB_RESP, h, unat i)" for i
    using le16_bytes16 [of h] le16_bytes16 [of i] by (simp add: asks_value_def bytes16_def)
  note blob = respond_db_lists(5) [OF this, of mtu db]
  show "reads_value mtu h v (\<lambda>k. answer_of (respond_db mtu db))" if "db_value db h = Some v"
    unfolding reads_value_def assms(1) [symmetric]
    using read blob that by (simp add: answer_of_def attrib_callback_result_def construct_full_pdu_def)
qed

lemma serves_respond_db:
  assumes "23 \<le> mtu" "mtu < 65536" "database_ok db" "\<And>h v. db_value db h = Some v \<Longrightarrow> length v < 65535"
  shows "serves mtu db (respond_db mtu db)"
proof -
  note uuids = database_uuids [OF assms(3), unfolded uuids_ok_def]
  note single = single_entries [OF assms(1)]
  note answers = list_answers [OF assms(2)]
  have "conforming (asks_services GATT_PRIM_SVC_UUID) (entries_fit mtu service_bytes) (services_response mtu) sv_start (db_primary db)
      (\<lambda>k. answer_of (respond_db mtu db))"
    by (rule conforming_reply) (use respond_db_lists(1) answers(1) asks_opcode(1) single(1) uuids in auto)
  moreover have "conforming (asks_services GATT_SND_SVC_UUID) (entries_fit mtu service_bytes) (services_response mtu) sv_start (db_secondary db)
      (\<lambda>k. answer_of (respond_db mtu db))"
    by (rule conforming_reply) (use respond_db_lists(2) answers(1) asks_opcode(1) single(1) uuids in auto)
  moreover have "conforming (asks_chars 0xFFFF) (entries_fit mtu char_bytes) (chars_response mtu) ch_handle (db_chars db)
      (\<lambda>k. answer_of (respond_db mtu db))"
    by (rule conforming_reply) (use respond_db_lists(3) answers(2) asks_opcode(2) single(2) uuids in auto)
  moreover have "conforming (asks_attributes 0xFFFF) (entries_fit mtu attribute_bytes) (attributes_response mtu) at_handle (db_attributes db)
      (\<lambda>k. answer_of (respond_db mtu db))"
    by (rule conforming_reply) (use respond_db_lists(4) answers(3) asks_opcode(3) single(3) uuids in auto)
  moreover have "value_served mtu h (db_value db h) (answer_of (respond_db mtu db))" for h
    using respond_db_value [OF refl, of mtu db h] assms(1,4) by (simp add: value_served_def split: option.split)
  ultimately show ?thesis
    using respond_db_proper [OF assms(1,2) database_uuids [OF assms(3)]] by (simp add: serves_def Let_def)
qed

end
