(* ===== verification/Gatttool_Typed.thy ===== *)
theory Gatttool_Typed
  imports Gatttool_Session
begin

text \<open>
  The types of the operations on the channel of the GATT printer, whatever the other side sends:
  \<open>typed_client\<close> is the contract of a client that sends well-formed requests, and the printer meets it.
\<close>

unbundle bit_operations_syntax

section \<open>Typed channels\<close>

text \<open>
  The request queue and the pending request: requests with a callback.  The write queue: responses
  without one.  All fit the MTU; there are no indications.
\<close>

definition op_typed :: "nat \<Rightarrow> bool \<Rightarrow> 'k att_send_op \<Rightarrow> bool" where
  "op_typed mtu request op \<longleftrightarrow> op_pdu op \<noteq> [] \<and> length (op_pdu op) \<le> mtu \<and> op_opcode op = hd (op_pdu op) \<and>
     get_op_type (op_opcode op) = op_type op \<and>
     (if request then op_type op = ATT_OP_TYPE_REQ \<and> op_callback op \<noteq> None
      else op_type op = ATT_OP_TYPE_RSP \<and> op_callback op = None)"

definition request_or_response :: "u8 \<Rightarrow> bool" where
  "request_or_response opcode \<longleftrightarrow> get_op_type opcode \<in> {ATT_OP_TYPE_REQ, ATT_OP_TYPE_RSP}"

definition channel_typed :: "nat \<Rightarrow> 'k bt_att \<Rightarrow> bool" where
  "channel_typed mtu att \<longleftrightarrow> 23 \<le> mtu \<and> unat (att_mtu att) = mtu \<and>
     (\<forall>op\<in>set (req_queue att) \<union> set (pending_ops (pending_req att)). op_typed mtu True op) \<and>
     (\<forall>op\<in>set (write_queue att). op_typed mtu False op) \<and> ind_queue att = [] \<and> pending_ind att = None"

lemma channel_typed_flags [simp]:
  "channel_typed mtu (att\<lparr>shut := b\<rparr>) = channel_typed mtu att" "channel_typed mtu (att\<lparr>in_req := b\<rparr>) = channel_typed mtu att"
  "channel_typed mtu (att\<lparr>attached := b\<rparr>) = channel_typed mtu att"
  by (simp_all add: channel_typed_def)

lemma channel_typed_no_pending: "channel_typed mtu att \<Longrightarrow> channel_typed mtu (att\<lparr>pending_req := None\<rparr>)"
  by (auto simp: channel_typed_def)

lemma channel_typed_pending: "channel_typed mtu att \<Longrightarrow> op_typed mtu True op \<Longrightarrow> channel_typed mtu (att\<lparr>pending_req := Some op\<rparr>)"
  by (simp add: channel_typed_def ball_Un)

lemma create_op_typed:
  assumes "create_att_send_op att opcode pdu cb = Some op" "request_or_response opcode"
  shows "op_typed (unat (att_mtu att)) (get_op_type opcode = ATT_OP_TYPE_REQ) (op\<lparr>op_id := i\<rparr>)" "op_type op = get_op_type opcode"
  using assms by (auto simp: create_att_send_op_def op_typed_def request_or_response_def Let_def split: if_splits)

lemma bt_att_send_typed:
  assumes "channel_typed mtu att" "request_or_response opcode"
  shows "channel_typed mtu (snd (bt_att_send att opcode pdu cb))"
proof (cases "create_att_send_op att opcode pdu cb")
  case (Some op)
  then show ?thesis
    using assms(1) assms(2) [unfolded request_or_response_def] create_op_typed(1) [OF Some assms(2), of "if next_send_id att < 1 then 1 else next_send_id att"] create_op_typed(2) [OF Some assms(2)]
    by (auto simp: bt_att_send_def Let_def channel_typed_def split: if_splits)
qed (use assms in \<open>simp add: bt_att_send_def\<close>)

lemma bt_att_resend_typed:
  assumes "channel_typed mtu att"
  shows "channel_typed mtu (snd (bt_att_resend att ident opcode pdu cb))"
proof (cases "get_op_type opcode = ATT_OP_TYPE_REQ \<and> (\<exists>op. create_att_send_op att opcode pdu cb = Some op)")
  case True
  then obtain op where op: "create_att_send_op att opcode pdu cb = Some op"
    by blast
  have "op_typed mtu True (op\<lparr>op_id := ident\<rparr>)"
    using create_op_typed(1) [OF op, of ident] True assms by (simp add: channel_typed_def request_or_response_def)
  then show ?thesis
    using assms op by (auto simp: bt_att_resend_def Let_def channel_typed_def)
qed (use assms in \<open>auto simp: bt_att_resend_def split: option.splits\<close>)

lemma g_attrib_send_typed:
  assumes "channel_typed mtu att" "request_or_response (hd pdu)"
  shows "channel_typed mtu (snd (g_attrib_send att ident pdu cb))"
  using assms bt_att_send_typed [OF assms(1), of "hd pdu" "tl pdu" cb] bt_att_resend_typed [OF assms(1), of ident "hd pdu" "tl pdu" cb]
  by (auto simp: g_attrib_send_def split: list.splits prod.splits)

lemma handle_notify_typed: "channel_typed mtu att \<Longrightarrow> channel_typed mtu (handle_notify opcode att)"
  using bt_att_send_typed [of mtu att ATT_OP_ERROR] by (simp add: handle_notify_def respond_not_supported_def request_or_response_def get_op_type_def att_opcode_type_table_def)

lemma pick_next_typed:
  assumes "pick_next_send_op att = Some (op, att')" "channel_typed mtu att"
  shows "\<exists>request. op_typed mtu request op \<and> channel_typed mtu att'"
proof -
  have tl: "set (tl q) \<subseteq> set q" "q \<noteq> [] \<Longrightarrow> hd q \<in> set q" for q :: "'a att_send_op list"
    by (cases q; auto)+
  show ?thesis
    using assms tl [of "req_queue att"] tl [of "write_queue att"]
    by (auto simp: pick_next_send_op_def channel_typed_def split: if_splits)
qed

section \<open>The contract\<close>

locale typed_client =
  fixes run :: "('k, 'w) runner"
  assumes run_typed: "channel_typed mtu att \<Longrightarrow> run op opcode pdu (att, w) = Some (att', w') \<Longrightarrow> channel_typed mtu att'"
begin

lemma call_typed: "channel_typed mtu att \<Longrightarrow> call run op opcode pdu (att, w) = Some (att', w') \<Longrightarrow> channel_typed mtu att'"
  using run_typed by (auto simp: call_def split: if_splits)

text \<open>What is written to the socket fits the MTU.\<close>

lemma can_write_typed:
  assumes "channel_typed mtu att" "can_write_data run ret (att, w) = Some (sent, att', w')"
  shows "channel_typed mtu att' \<and> (\<forall>p. sent = Some p \<longrightarrow> p \<noteq> [] \<and> length p \<le> mtu)"
proof (cases "pick_next_send_op att")
  case (Some x)
  then obtain op att1 where p: "pick_next_send_op att = Some (op, att1)"
    by (cases x) simp
  obtain request where op: "op_typed mtu request op" "channel_typed mtu att1"
    using pick_next_typed [OF p assms(1)] by blast
  show ?thesis
  proof (cases "ret = 0")
    case True
    then show ?thesis
      using assms(2) p call_typed [OF op(2)] by (auto simp: can_write_data_def split: bind_splits)
  next
    case False
    define att2 where "att2 = (case op_type op of ATT_OP_TYPE_REQ \<Rightarrow> att1\<lparr>pending_req := Some op\<rparr>
      | ATT_OP_TYPE_IND \<Rightarrow> att1\<lparr>pending_ind := Some op\<rparr> | ATT_OP_TYPE_RSP \<Rightarrow> att1\<lparr>in_req := False\<rparr> | _ \<Rightarrow> att1)"
    have "sent = Some (op_pdu op)" "att' = att2"
      using assms(2) p False by (simp_all add: can_write_data_def att2_def)
    moreover have "channel_typed mtu att2"
    proof (cases "op_type op")
      case ATT_OP_TYPE_REQ
      then have "op_typed mtu True op"
        using op(1) by (cases request) (auto simp: op_typed_def)
      then show ?thesis
        using channel_typed_pending [OF op(2)] ATT_OP_TYPE_REQ by (simp add: att2_def)
    next
      case ATT_OP_TYPE_IND
      then show ?thesis
        using op(1) by (cases request) (simp_all add: op_typed_def)
    qed (use op(2) in \<open>simp_all add: att2_def\<close>)
    ultimately show ?thesis
      using op(1) by (simp add: op_typed_def)
  qed
qed (use assms in \<open>simp add: can_write_data_def\<close>)

lemma end_request_typed:
  "channel_typed mtu att \<Longrightarrow> end_request run op opcode pdu (att, w) = Some (att', w') \<Longrightarrow> channel_typed mtu att'"
  using call_typed channel_typed_no_pending by (fastforce simp: end_request_def split: bind_splits)

lemma handle_rsp_typed:
  assumes "channel_typed mtu att" "handle_rsp run level raised opcode pdu (att, w) = Some (att', w')"
  shows "channel_typed mtu att'"
proof (cases "pending_req att")
  case (Some op)
  obtain retry req att1 where err: "handle_error_rsp level raised op pdu att = (retry, req, att1)"
    using prod_cases3 by blast
  then have "\<not> retry \<longrightarrow> att1 = att" "channel_typed mtu att1"
    using assms(1) Some by (auto simp: handle_error_rsp_def channel_typed_def split: if_splits)
  then show ?thesis
    using assms Some err end_request_typed [OF assms(1)] by (auto simp: handle_rsp_def split: if_splits)
qed (use assms in \<open>simp add: handle_rsp_def; fastforce\<close>)

lemma can_read_typed:
  assumes "channel_typed mtu att" "can_read_data run level raised packet (att, w) = Some (att', w')"
  shows "channel_typed mtu att'"
proof -
  have conf: "channel_typed mtu att'" if "handle_conf run pdu (att, w) = Some (att', w')" for pdu
    using that assms(1) by (auto simp: handle_conf_def channel_typed_def)
  show ?thesis
  proof (cases "take (unat (att_mtu att)) packet")
    case (Cons opcode pdu)
    have notify: "channel_typed mtu (handle_notify opcode att)" "channel_typed mtu (handle_notify opcode (att\<lparr>in_req := True\<rparr>))"
      using assms(1) by (auto intro!: handle_notify_typed)
    show ?thesis
      using assms(2) Cons notify conf handle_rsp_typed [OF assms(1)] assms(1)
      by (cases "get_op_type opcode") (auto simp: can_read_data_def split: if_splits)
  next
    case Nil
    then show ?thesis
      using assms unfolding can_read_data_def prod.case Nil by simp
  qed
qed

lemma timeout_typed:
  assumes "channel_typed mtu att" "timeout_cb run ident (att, w) = Some (att', w')"
  shows "channel_typed mtu att'"
proof -
  have none: "pending_ind att = None"
    using assms(1) by (simp add: channel_typed_def)
  show ?thesis
    using assms call_typed [OF channel_typed_no_pending [OF assms(1)]]
    by (auto simp: timeout_cb_def Let_def none split: option.splits if_splits bind_splits)
qed

lemma disc_ops_typed:
  "channel_typed mtu att \<Longrightarrow> disc_att_send_ops run ops (att, w) = Some (att', w') \<Longrightarrow> channel_typed mtu att'"
proof (induction ops arbitrary: att w)
  case (Cons op ops)
  then obtain att1 w1 where st: "call run op ATT_OP_ERROR [] (att, w) = Some (att1, w1)"
    "disc_att_send_ops run ops (att1, w1) = Some (att', w')"
    by (auto split: bind_splits)
  show ?case
    using Cons.IH [OF call_typed [OF Cons.prems(1) st(1)] st(2)] .
qed simp

lemma disconnect_typed:
  assumes "channel_typed mtu att" "disconnect_cb run (att, w) = Some (att', w')"
  shows "channel_typed mtu att'"
proof -
  obtain att1 w1 att2 w2 att3 w3 att4 w4 where parts:
    "disc_att_send_ops run (pending_ops (pending_req att)) (att\<lparr>attached := False\<rparr>, w) = Some (att1, w1)"
    "disc_att_send_ops run (pending_ops (pending_ind att1)) (att1\<lparr>pending_req := None\<rparr>, w1) = Some (att2, w2)"
    "disc_att_send_ops run (req_queue att2) (att2\<lparr>pending_ind := None, req_queue := []\<rparr>, w2) = Some (att3, w3)"
    "disc_att_send_ops run (ind_queue att3) (att3\<lparr>ind_queue := []\<rparr>, w3) = Some (att4, w4)"
    "disc_att_send_ops run (write_queue att4) (att4\<lparr>write_queue := []\<rparr>, w4) = Some (att', w')"
    using assms(2) by (auto simp: disconnect_cb_def split: bind_splits)
  have fewer: "channel_typed mtu (a\<lparr>pending_ind := None, req_queue := []\<rparr>)" "channel_typed mtu (a\<lparr>ind_queue := []\<rparr>)"
    "channel_typed mtu (a\<lparr>write_queue := []\<rparr>)" if "channel_typed mtu a" for a :: "'k bt_att"
    using that by (simp_all add: channel_typed_def)
  have "channel_typed mtu att1"
    using disc_ops_typed [OF _ parts(1)] assms(1) by simp
  then have "channel_typed mtu att2"
    using disc_ops_typed [OF channel_typed_no_pending parts(2)] by simp
  then have "channel_typed mtu att3"
    using disc_ops_typed [OF fewer(1) parts(3)] by simp
  then have "channel_typed mtu att4"
    using disc_ops_typed [OF fewer(2) parts(4)] by simp
  then show ?thesis
    using disc_ops_typed [OF fewer(3) parts(5)] by simp
qed

end

section \<open>The printer\<close>

lemma send_typed: "channel_typed mtu att \<Longrightarrow> is_request mtu req \<Longrightarrow> channel_typed mtu (snd (g_attrib_send att ident req cb))"
  by (rule g_attrib_send_typed) (simp_all add: is_request_def request_or_response_def)

lemma typed_buffer: "channel_typed mtu att \<Longrightarrow> buffer_len att = mtu \<and> 23 \<le> mtu"
  by (simp add: channel_typed_def buffer_len_def)

lemma start_read_typed:
  assumes "channel_typed mtu att" "start_read handle (att, w) = Some (att', w')"
  shows "channel_typed mtu att'"
proof -
  have "gatt_read_char mtu handle = Some (Read_on (ATT_OP_READ_REQ # bytes16 handle) \<lparr>rl_handle = handle, rl_buffer = [], rl_size = 0\<rparr>)"
    using typed_buffer [OF assms(1)] by (simp add: gatt_read_char_def encoded_read_req)
  then show ?thesis
    using assms typed_buffer [OF assms(1)] is_request_range(4) [of mtu handle] send_typed [OF assms(1)]
    by (auto simp: start_read_def Let_def split: if_splits)
qed

lemma print_characteristics_typed:
  "channel_typed mtu att \<Longrightarrow> print_characteristics cs (att, w) = Some (att', w') \<Longrightarrow> channel_typed mtu att'"
proof (induction cs arbitrary: att w)
  case (Cons c cs)
  let ?w = "log_lines [CHARACTERISTIC (gc_handle c) (gc_properties c) (gc_value_handle c) (gc_uuid c)] w"
  obtain att1 w1 where st1: "(if gc_properties c AND 0x2 = 0x2 then start_read (gc_value_handle c) (att, ?w) else Some (att, ?w)) = Some (att1, w1)"
    "print_characteristics cs (att1, w1) = Some (att', w')"
    using Cons.prems(2) by (auto simp: Let_def split: bind_splits)
  have "channel_typed mtu att1"
    using st1(1) start_read_typed [OF Cons.prems(1)] Cons.prems(1) by (cases "gc_properties c AND 0x2 = 0x2") auto
  then show ?case
    using Cons.IH st1(2) by blast
qed simp

lemma users_typed:
  assumes "channel_typed mtu att"
  shows "print_services line status services (att, w) = Some (att', w') \<Longrightarrow> channel_typed mtu att'"
    "gatttool_char_discovered_cb status cs (att, w) = Some (att', w') \<Longrightarrow> channel_typed mtu att'"
    "char_desc_cb status ds (att, w) = Some (att', w') \<Longrightarrow> channel_typed mtu att'"
    "char_read_cb status pdu plen i (att, w) = Some (att', w') \<Longrightarrow> channel_typed mtu att'"
  using assms print_characteristics_typed [OF assms]
  by (auto simp: print_services_def gatttool_char_discovered_cb_def char_desc_cb_def char_read_cb_def Let_def split: if_splits bind_splits option.splits)

context discovery
begin

lemma run_typed:
  assumes "channel_typed mtu att" "op_callback op = Some (k s)" "run_procedure op opcode rsp (att, w) = Some (att', w')"
    and "\<And>e rs w'. user e rs (att, w) = Some (att', w') \<Longrightarrow> channel_typed mtu att'"
  shows "channel_typed mtu att'"
proof -
  obtain status pdu where res: "attrib_callback_result opcode rsp = (status, pdu)"
    by force
  obtain r where r: "cb mtu status pdu s = Some r" "react (op_id op) k user r (att, w) = Some (att', w')"
    using assms(3) run [OF assms(2)] res typed_buffer [OF assms(1)] by (auto split: bind_splits)
  show ?thesis
  proof (cases r)
    case (Send req s')
    then show ?thesis
      using r sends [of mtu status pdu s req s'] typed_buffer [OF assms(1)] send_typed [OF assms(1)] by (auto simp: react_def)
  qed (use r(2) assms(1,4) in \<open>auto simp: react_def\<close>)
qed

end

lemma read_run_typed:
  assumes "channel_typed mtu att" "read_step k i rl h" "op_callback op = Some k" "run_procedure op opcode rsp (att, w) = Some (att', w')"
  shows "channel_typed mtu att'"
proof -
  obtain status pdu where res: "attrib_callback_result opcode rsp = (status, pdu)"
    by force
  obtain own r where r: "h mtu status pdu rl = Some r" "react_read (op_id op) i own r (att, w) = Some (att', w')"
    using read_step_run [OF assms(2,3) res, of att w] assms(4) typed_buffer [OF assms(1)] by (auto split: bind_splits)
  show ?thesis
  proof (cases r)
    case (Read_on req rl')
    obtain sent att1 where sent: "g_attrib_send att (op_id op) req (Some (Read_blob i rl')) = (sent, att1)"
      by fastforce
    have "channel_typed mtu att1"
      using send_typed [OF assms(1), of req "op_id op" "Some (Read_blob i rl')"] read_step_sends [OF assms(2) _ r(1) [unfolded Read_on]]
        typed_buffer [OF assms(1)] sent by simp
    then show ?thesis
      using r(2) sent users_typed(4) by (auto simp: react_read_def Read_on split: if_splits prod.splits)
  next
    case (Read_done e p l)
    then show ?thesis
      using r(2) users_typed(4) [OF assms(1)] by (simp add: react_read_def)
  qed
qed

interpretation printer_channel: typed_client run_procedure
proof
  fix mtu att op opcode pdu w att' w'
  assume typed: "channel_typed mtu (att :: procedure bt_att)" and run: "run_procedure op opcode pdu (att, w) = Some (att', w')"
  show "channel_typed mtu att'"
  proof (cases "op_callback op")
    case None
    then show ?thesis
      using typed run by (auto simp: run_procedure_def Let_def split: prod.splits)
  next
    case (Some k)
    note users = users_typed [OF typed]
    show ?thesis
    proof (cases k)
      case (Primaries dp)
      show ?thesis
        using primaries.run_typed [OF typed Some [unfolded Primaries] run] users(1) by (simp add: gatttool_primary_all_cb_def)
    next
      case (Secondaries dp)
      show ?thesis
        using secondaries.run_typed [OF typed Some [unfolded Secondaries] run] users(1) by (simp add: gatttool_secondary_all_cb_def)
    next
      case (Characteristics dc)
      show ?thesis
        using char_discovery.run_typed [OF typed Some [unfolded Characteristics] run] users(2) by simp
    next
      case (Descriptors dd)
      show ?thesis
        using desc_discovery.run_typed [OF typed Some [unfolded Descriptors] run] users(3) by simp
    next
      case (Read_char i rl)
      then have "read_step k i rl read_char_helper"
        by (simp add: read_step_def)
      from read_run_typed [OF typed this Some run] show ?thesis .
    next
      case (Read_blob i rl)
      then have "read_step k i rl read_blob_helper"
        by (simp add: read_step_def)
      from read_run_typed [OF typed this Some run] show ?thesis .
    qed
  qed
qed

lemma dispatch_typed:
  assumes "channel_typed mtu (fst st)" "dispatch ev st = Some st'"
  shows "channel_typed mtu (fst st')"
proof -
  obtain att w att' w' where st: "st = (att, w)" "st' = (att', w')"
    by fastforce
  have typed: "channel_typed mtu att"
    using assms(1) st(1) by simp
  show ?thesis
    using assms(2) printer_channel.can_write_typed [OF typed] printer_channel.can_read_typed [OF typed]
      printer_channel.timeout_typed [OF typed] printer_channel.disconnect_typed [OF typed]
    by (cases ev) (auto simp: dispatch_def st)
qed

lemma main_loop_typed: "main_loop evs st = Some st' \<Longrightarrow> channel_typed mtu (fst st) \<Longrightarrow> channel_typed mtu (fst st')"
  by (induction evs st rule: main_loop.induct) (auto split: if_splits bind_splits dest: dispatch_typed)

lemma start_typed:
  assumes "channel_typed mtu (fst st)" "start_procedure k r st = Some st'" "\<And>req s. r = Some (Send req s) \<Longrightarrow> is_request mtu req"
  shows "channel_typed mtu (fst st')"
proof -
  obtain r' where r: "r = Some r'"
    using assms(2) by (cases r) (simp_all add: start_procedure_def split: prod.splits)
  then show ?thesis
    using assms send_typed [OF assms(1)] by (cases st; cases r') (auto simp: start_procedure_def)
qed

lemma connect_typed:
  assumes "connect_cb err mtu cid w0 = Some st"
  shows "channel_typed (unat (att_mtu (fst st))) (fst st)"
proof -
  define w where "w = (if err then w0\<lparr>got_error := True, loop_quit := True\<rparr> else w0)"
  obtain m att st1 st2 st3 where parts: "bt_att_set_mtu m (bt_att_new 23) = Some att" "primary (att, w) = Some st1"
    "secondary st1 = Some st2" "characteristics st2 = Some st3" "characteristics_desc st3 = Some st"
    using assms by (auto simp: connect_cb_def Let_def w_def split: bind_splits)
  have att: "channel_typed (unat m) att" "23 \<le> unat m"
    using parts(1) by (auto simp: bt_att_set_mtu_def bt_att_new_def channel_typed_def word_less_nat_alt split: if_splits)
  note reqs = gatt_discover_services_requests [OF att(2)] gatt_discover_char_request [OF att(2)] gatt_discover_desc_request [OF att(2)]
    is_request_range [OF att(2)]
  note len = typed_buffer [THEN conjunct1]
  have 1: "channel_typed (unat m) (fst st1)"
    using start_typed [OF _ parts(2) [unfolded primary_def]] att(1) len [OF att(1)]
    by (simp add: reqs gatt_discover_primary_def encode_discover_primary_def)
  have 2: "channel_typed (unat m) (fst st2)"
    using start_typed [OF 1 parts(3) [unfolded secondary_def]] len [OF 1]
    by (simp add: reqs gatt_discover_secondary_def encode_discover_secondary_def)
  have 3: "channel_typed (unat m) (fst st3)"
    using start_typed [OF 2 parts(4) [unfolded characteristics_def]] len [OF 2] by (simp add: reqs)
  have "channel_typed (unat m) (fst st)"
    using start_typed [OF 3 parts(5) [unfolded characteristics_desc_def]] len [OF 3] by (simp add: reqs)
  then show ?thesis
    by (simp add: channel_typed_def)
qed

text \<open>C17.
  Whatever the other side sends and whenever time-outs and the loss of the connection come: the
  request queue and the pending request are requests with a callback, the write queue holds only
  responses, without a callback, and no indication waits; every operation has the opcode and the type
  of its PDU, and every PDU that is written to the socket has at least one byte and fits the MTU.
\<close>

theorem channel_stays_typed:
  assumes "connect_cb err mtu cid w0 = Some st" "main_loop evs st = Some (att, w)"
  shows "channel_typed (unat (att_mtu att)) att \<and>
    (\<forall>ret sent st'. can_write_data run_procedure ret (att, w) = Some (Some sent, st') \<longrightarrow> sent \<noteq> [] \<and> length sent \<le> unat (att_mtu att))"
proof -
  have typed: "channel_typed (unat (att_mtu (fst st))) att"
    using main_loop_typed [OF assms(2) connect_typed [OF assms(1)]] by simp
  then have "channel_typed (unat (att_mtu att)) att"
    by (simp add: channel_typed_def)
  then show ?thesis
    using printer_channel.can_write_typed by (metis prod.collapse)
qed

end
