(* ===== verification/Gatttool_Device.thy ===== *)
theory Gatttool_Device
  imports Gatttool_Refine Gatttool_Server Gatttool_Typed
begin

text \<open>
  Whole sessions of the GATT printer with a device: from the connection to the end of the main loop,
  what is on the log then, and what is missing there.
\<close>

unbundle bit_operations_syntax

section \<open>The connection\<close>

text \<open>The listings take so many turns with the device.\<close>

definition first_takes ::
  "(u8 list \<Rightarrow> u8 list) \<Rightarrow> (u8 \<Rightarrow> u8 list \<Rightarrow> 's \<Rightarrow> ('s, 'r) reaction option) \<Rightarrow> ('s, 'r) reaction option \<Rightarrow> nat \<Rightarrow> u8 \<Rightarrow> 'r list \<Rightarrow> bool" where
  "first_takes respond cb r n e rs \<longleftrightarrow> (case r of Some (Send req s) \<Rightarrow> takes (answer_of respond) cb n req s e rs | _ \<Rightarrow> False)"

definition session_turns :: "nat \<Rightarrow> database \<Rightarrow> (u8 list \<Rightarrow> u8 list) \<Rightarrow> nat \<Rightarrow> nat \<Rightarrow> nat \<Rightarrow> nat \<Rightarrow> bool" where
  "session_turns mtu db respond np ns nc nd \<longleftrightarrow>
     first_takes respond (primary_all_cb mtu) (gatt_discover_primary mtu None) np 0 (map service_view (db_primary db)) \<and>
     first_takes respond (secondary_all_cb mtu) (gatt_discover_secondary mtu None) ns 0 (map service_view (db_secondary db)) \<and>
     first_takes respond (char_discovered_cb mtu) (gatt_discover_char mtu 0x0001 0xFFFF None) nc
       (if db_chars db = [] then ATT_ECODE_ATTR_NOT_FOUND else 0) (map char_view (db_chars db)) \<and>
     first_takes respond (desc_discovered_cb mtu) (gatt_discover_desc mtu 0x0001 0xFFFF None) nd 0 (map attribute_view (db_attributes db))"

lemma start_procedure_quiet:
  assumes "is_request (unat m) req"
  shows "start_procedure k (Some (Send req s)) (quiet m nid q None, w) =
    Some (quiet m (fresh_id nid + 1) (q @ [request_op (fresh_id nid) (k s) req]) None, w)"
  using send_first [OF assms, of nid q None "k s"] by (simp add: start_procedure_def)

lemma first_takes_send:
  assumes "first_takes respond cb r n e rs"
  obtains req s where "r = Some (Send req s)" "takes (answer_of respond) cb n req s e rs"
  using assms that by (auto simp: first_takes_def split: option.splits reaction.splits)

lemma turns_leftI:
  "i \<noteq> 0 \<Longrightarrow> is_request (unat m) req \<Longrightarrow> takes (answer_of respond) (cb (unat m)) n req s e rs \<Longrightarrow>
    turns_left cb k m respond e rs n (request_op i (k s) req)"
  unfolding turns_left_def by blast

lemma follows_start:
  assumes "m = 23" "session_turns (unat m) db respond np ns nc nd" "length (readable_handles db) \<le> 512"
  shows "\<exists>st. connect_cb False mtu 4 printer_init = Some st \<and>
    follows m db respond st (agenda np ns nc nd, \<lparr>b_log = [], b_max = 0xFFFF, b_quit = False\<rparr>)"
proof -
  note turns = assms(2) [unfolded session_turns_def]
  have room: "23 \<le> unat m"
    by (simp add: assms(1))
  obtain pr ps sr ss cr cs dr ds where r:
    "gatt_discover_primary (unat m) None = Some (Send pr ps)" "takes (answer_of respond) (primary_all_cb (unat m)) np pr ps 0 (map service_view (db_primary db))"
    "gatt_discover_secondary (unat m) None = Some (Send sr ss)" "takes (answer_of respond) (secondary_all_cb (unat m)) ns sr ss 0 (map service_view (db_secondary db))"
    "gatt_discover_char (unat m) 0x0001 0xFFFF None = Some (Send cr cs)" "takes (answer_of respond) (char_discovered_cb (unat m)) nc cr cs
       (if db_chars db = [] then ATT_ECODE_ATTR_NOT_FOUND else 0) (map char_view (db_chars db))"
    "gatt_discover_desc (unat m) 0x0001 0xFFFF None = Some (Send dr ds)" "takes (answer_of respond) (desc_discovered_cb (unat m)) nd dr ds 0 (map attribute_view (db_attributes db))"
    using turns by (elim conjE first_takes_send) blast
  have reqs: "is_request (unat m) pr" "is_request (unat m) sr" "is_request (unat m) cr" "is_request (unat m) dr"
    using r(1,3,5,7) is_request_range [OF room]
    by (auto simp: gatt_discover_primary_def gatt_discover_secondary_def encode_discover_primary_def encode_discover_secondary_def
        gatt_discover_services_requests [OF room] gatt_discover_char_request [OF room] gatt_discover_desc_request [OF room])
  let ?q = "[request_op 1 (Primaries ps) pr, request_op 2 (Secondaries ss) sr, request_op 3 (Characteristics cs) cr, request_op 4 (Descriptors ds) dr]"
  have len: "buffer_len (quiet m nid q p) = unat m" for nid q and p :: "procedure att_send_op option"
    by simp
  have att: "bt_att_set_mtu 23 (bt_att_new 23) = Some (quiet m 0 [] None)"
    by (simp add: bt_att_set_mtu_def bt_att_new_def quiet_def word_less_nat_alt assms(1))
  have connect: "connect_cb False mtu 4 printer_init = Some (quiet m 5 ?q None, printer_init)"
    using reqs
    by (simp add: connect_cb_def att primary_def secondary_def characteristics_def characteristics_desc_def r(1,3,5,7)
        start_procedure_quiet fresh_id_def)
  have "list_all2 (task_op m db respond printer_init) (agenda np ns nc nd) ?q"
    using turns_leftI [where cb = primary_all_cb, OF _ reqs(1) r(2)] turns_leftI [where cb = secondary_all_cb, OF _ reqs(2) r(4)] turns_leftI [where cb = char_discovered_cb, OF _ reqs(3) r(6)] turns_leftI [where cb = desc_discovered_cb, OF _ reqs(4) r(8)]
    by (simp add: agenda_def)
  moreover have "displays printer_init \<lparr>b_log = [], b_max = 0xFFFF, b_quit = False\<rparr>" "roomy db (agenda np ns nc nd) printer_init"
    using assms(3) by (simp_all add: displays_def roomy_def printer_init_def chars_pending_def agenda_def)
  ultimately have "follows m db respond (quiet m 5 ?q None, printer_init) (agenda np ns nc nd, \<lparr>b_log = [], b_max = 0xFFFF, b_quit = False\<rparr>)"
    unfolding follows_def by blast
  then show ?thesis
    using connect by blast
qed

text \<open>Against a device that answers as the protocol asks every listing comes to its end.\<close>

lemma first_takes_drive:
  assumes "do { r \<leftarrow> x; drive (\<lambda>k. answer_of respond) cb 0 n r } = Some (Call_back e rs)" "x = Some (Send req s)"
  shows "\<exists>j. first_takes respond cb x j e rs"
  using drive_takes [of "answer_of respond" cb 0 n req s e rs] assms by (auto simp: first_takes_def)

lemma from_first:
  assumes "in_order lo hi ok xs" "\<And>x. ok x \<Longrightarrow> lo x \<noteq> 0"
  shows "items_from lo 1 xs = xs"
proof -
  have "1 \<le> lo x" if "x \<in> set xs" for x
    using assms that by (auto simp: in_order_def word_le_nat_alt Suc_le_eq word_neq_0_conv word_less_nat_alt)
  then show ?thesis
    by (simp add: items_from_def filter_id_conv)
qed

lemma database_orders:
  assumes "database_ok db"
  shows "in_order sv_start sv_end service_ok (db_primary db)" "in_order sv_start sv_end service_ok (db_secondary db)"
    "in_order ch_handle ch_handle (char_ok 0xFFFF) (db_chars db)" "in_order at_handle at_handle (attribute_ok 0xFFFF) (db_attributes db)"
    "items_from sv_start 1 (db_primary db) = db_primary db" "items_from sv_start 1 (db_secondary db) = db_secondary db"
    "items_from ch_handle 1 (db_chars db) = db_chars db" "items_from at_handle 1 (db_attributes db) = db_attributes db"
    "db_attributes db \<noteq> []" "length (readable_handles db) \<le> 512"
proof -
  note ok = assms [unfolded database_ok_def]
  show "in_order sv_start sv_end service_ok (db_primary db)" "in_order sv_start sv_end service_ok (db_secondary db)"
    "in_order ch_handle ch_handle (char_ok 0xFFFF) (db_chars db)" "db_attributes db \<noteq> []" "length (readable_handles db) \<le> 512"
    using ok by simp_all
  show "in_order at_handle at_handle (attribute_ok 0xFFFF) (db_attributes db)"
    using ok by (simp add: in_order_def attribute_ok_def)
  show "items_from sv_start 1 (db_primary db) = db_primary db" "items_from sv_start 1 (db_secondary db) = db_secondary db"
    "items_from ch_handle 1 (db_chars db) = db_chars db" "items_from at_handle 1 (db_attributes db) = db_attributes db"
    using ok by (auto intro!: from_first simp: service_ok_def char_ok_def)
qed

lemma turns_exist:
  assumes "serves mtu db respond" "database_ok db" "23 \<le> mtu" "mtu < 65536"
  shows "\<exists>np ns nc nd. session_turns mtu db respond np ns nc nd"
proof -
  note served = assms(1) [unfolded serves_def Let_def]
  note db = database_orders [OF assms(2)]
  have 1: "do { r \<leftarrow> gatt_discover_primary mtu None; drive (\<lambda>k. answer_of respond) (primary_all_cb mtu) 0 (Suc (length (db_primary db))) r } =
      Some (Call_back 0 (map service_view (db_primary db)))"
    by (rule services_found [OF assms(3,4) db(1) lessI _ disjI1]) (use served in simp_all)
  have 2: "do { r \<leftarrow> gatt_discover_secondary mtu None; drive (\<lambda>k. answer_of respond) (secondary_all_cb mtu) 0 (Suc (length (db_secondary db))) r } =
      Some (Call_back 0 (map service_view (db_secondary db)))"
    by (rule services_found [OF assms(3,4) db(2) lessI _ disjI2]) (use served in simp_all)
  have 3: "do { r \<leftarrow> gatt_discover_char mtu 1 0xFFFF None; drive (\<lambda>k. answer_of respond) (char_discovered_cb mtu) 0 (Suc (length (db_chars db))) r } =
      Some (Call_back (if db_chars db = [] then ATT_ECODE_ATTR_NOT_FOUND else 0) (map char_view (db_chars db)))"
    using served by (intro characteristics_found [OF assms(3,4) db(3) lessI]) (simp_all add: db(7))
  have 4: "do { r \<leftarrow> gatt_discover_desc mtu 1 0xFFFF None; drive (\<lambda>k. answer_of respond) (desc_discovered_cb mtu) 0 (Suc (length (db_attributes db))) r } =
      Some (Call_back (if db_attributes db = [] then ATT_ECODE_ATTR_NOT_FOUND else 0) (map attribute_view (db_attributes db)))"
    using served by (intro descriptors_found [OF assms(3,4) db(4) lessI]) (simp_all add: db(8))
  obtain pr ps sr ss where sends: "gatt_discover_primary mtu None = Some (Send pr ps :: (gatt_primary discover_primary, gatt_primary) reaction)"
    "gatt_discover_secondary mtu None = Some (Send sr ss :: (gatt_primary discover_primary, gatt_primary) reaction)"
    by (simp add: gatt_discover_primary_def gatt_discover_secondary_def encode_discover_primary_def encode_discover_secondary_def
        gatt_discover_services_requests [OF assms(3)])
  show ?thesis
    unfolding session_turns_def
    using first_takes_drive [OF 1 sends(1)] first_takes_drive [OF 2 sends(2)]
      first_takes_drive [OF 3 gatt_discover_char_request [OF assms(3)]]
      first_takes_drive [OF 4 gatt_discover_desc_request [OF assms(3)]] db(9)
    by (simp only: if_False) blast
qed

section \<open>What a session writes\<close>

lemma session_follows:
  assumes "m = 23" "serves (unat m) db respond" "database_ok db" "session_turns (unat m) db respond np ns nc nd"
  shows "\<exists>st n att w. connect_cb False mtu 4 printer_init = Some st \<and> session_with respond n st = Some (att, w) \<and>
    follows m db respond (att, w) (report db np ns nc nd)"
proof -
  note db = database_orders [OF assms(3)]
  have room: "23 \<le> unat m"
    by (simp add: assms(1))
  obtain st where st: "connect_cb False mtu 4 printer_init = Some st"
    "follows m db respond st (agenda np ns nc nd, \<lparr>b_log = [], b_max = 0xFFFF, b_quit = False\<rparr>)"
    using follows_start [OF assms(1,4) db(10)] by blast
  then show ?thesis
    using follows_play [OF st(2) assms(2) room db(9)] unfolding report_def by fastforce
qed

lemma follows_shows:
  "follows m db respond (att, w) (ts, b) \<Longrightarrow>
    g_log w = b_log b \<and> loop_quit w = b_quit b \<and> length (req_queue att) = length ts"
  by (auto simp: follows_def displays_def dest: list_all2_lengthD)

lemma session_shows:
  assumes "serves 23 db respond" "database_ok db" "session_turns 23 db respond np ns nc nd" "report db np ns nc nd = (ts, b)"
  shows "\<exists>st n att w. connect_cb False mtu 4 printer_init = Some st \<and> session_with respond n st = Some (att, w) \<and>
    follows 23 db respond (att, w) (ts, b) \<and> g_log w = b_log b \<and> loop_quit w = b_quit b \<and> length (req_queue att) = length ts"
proof -
  have "unat (23 :: u16) = 23"
    by simp
  then show ?thesis
    using session_follows [of 23 db respond np ns nc nd mtu] assms follows_shows by metis
qed

section \<open>A device that answers at once\<close>

context handle_listing
begin

lemma takes_one:
  assumes "inv s" "fst (srv req) = ATT_ECODE_ATTR_NOT_FOUND"
  shows "takes srv cb (Suc 0) req s (final (found s)) (found s)"
  using exhausted [OF assms(1), of "snd (srv req)"] assms(2) by (cases "srv req") simp

lemma takes_two:
  assumes "in_order lo hi ok xs" "conforming asks fits answer lo xs (\<lambda>k. srv)" "inv s" "items_from lo (from_handle s) xs = xs"
    and "fits xs" "more (last xs)" "srv req = (0, answer xs)"
  shows "takes srv cb 2 req s (final (found s @ map view xs)) (found s @ map view xs)"
proof -
  have some: "xs \<noteq> []"
    using fits_some [OF assms(5)] .
  have ok: "\<forall>x\<in>set xs. ok x" "lo (last xs) \<le> hi (last xs)"
    using assms(1) some by (simp_all add: in_order_def)
  have "last xs \<in> set (items_from lo (from_handle s) xs)"
    using some by (simp add: assms(4))
  then have "from_handle s \<le> hi (last xs)"
    using ok(2) by (auto simp: items_from_def)
  from listed [OF assms(3,5) ok(1) this assms(6)] obtain req' s' where
    s': "cb 0 (answer xs) s = Some (Send req' s')" "inv s'" "asks req' = Some (hi (last xs) + 1)" "found s' = found s @ map view xs"
    by blast
  have "items_from lo (hi (last xs) + 1) xs = []"
    using items_after_prefix [OF assms(1) _ some more_max [OF assms(6)], of "from_handle s" "[]"] assms(4) by simp
  then have "fst (srv req') = ATT_ECODE_ATTR_NOT_FOUND"
    using assms(2) s'(3) by (simp add: conforming_def)
  then show ?thesis
    using takes_one [OF s'(2), of srv req'] s'(1,4) assms(7) by (simp add: numeral_2_eq_2)
qed

end

definition at_once :: "(u8 list \<Rightarrow> u16 option) \<Rightarrow> ('x list \<Rightarrow> bool) \<Rightarrow> ('x list \<Rightarrow> u8 list) \<Rightarrow> 'x list \<Rightarrow> (u8 list \<Rightarrow> u8 list) \<Rightarrow> bool" where
  "at_once asks fits answer xs respond \<longleftrightarrow> fits xs \<and> (\<forall>req. asks req = Some 1 \<longrightarrow> answer_of respond req = (0, answer xs))"

text \<open>The services, the characteristics and the attributes fit in a response each.\<close>

definition serves_at_once :: "nat \<Rightarrow> database \<Rightarrow> (u8 list \<Rightarrow> u8 list) \<Rightarrow> bool" where
  "serves_at_once mtu db respond \<longleftrightarrow>
     at_once (asks_services GATT_PRIM_SVC_UUID) (entries_fit mtu service_bytes) (services_response mtu) (db_primary db) respond \<and>
     at_once (asks_chars 0xFFFF) (entries_fit mtu char_bytes) (chars_response mtu) (db_chars db) respond \<and>
     at_once (asks_attributes 0xFFFF) (entries_fit mtu attribute_bytes) (attributes_response mtu) (db_attributes db) respond"

lemma entries_fit_some: "entries_fit mtu entry xs \<Longrightarrow> xs \<noteq> []"
  by (simp add: entries_fit_def)

lemma at_once_turns:
  assumes "serves mtu db respond" "database_ok db" "23 \<le> mtu" "mtu < 65536" "serves_at_once mtu db respond" "db_secondary db = []"
    and "sv_end (last (db_primary db)) \<noteq> 0xFFFF" "ch_handle (last (db_chars db)) < 0xFFFE" "at_handle (last (db_attributes db)) \<noteq> 0xFFFF"
  shows "session_turns mtu db respond 2 1 2 2"
proof -
  note served = assms(1) [unfolded serves_def Let_def]
  note db = database_orders [OF assms(2)]
  note once = assms(5) [unfolded serves_at_once_def at_once_def]
  let ?dp = "\<lparr>dp_uuid = BT_UUID_UNSPEC, dp_start = 1, dp_primaries = []\<rparr> :: gatt_primary discover_primary"
  let ?svc = "\<lambda>svc. ATT_OP_READ_BY_GROUP_REQ # bytes16 1 @ bytes16 0xFFFF @ bytes16 svc"
  have "takes (answer_of respond) (primary_all_cb mtu) 2 (?svc GATT_PRIM_SVC_UUID) ?dp 0 (map service_view (db_primary db))"
    using services.takes_two [of "db_primary db" GATT_PRIM_SVC_UUID mtu "answer_of respond" ?dp "?svc GATT_PRIM_SVC_UUID"] db(1,5) served once assms(3,4,7)
    by (simp add: primary_all_cb_def encode_discover_primary_def asks_services_encoded)
  moreover have "takes (answer_of respond) (secondary_all_cb mtu) 1 (?svc GATT_SND_SVC_UUID) ?dp 0 (map service_view (db_secondary db))"
    using services.takes_one [where mtu = mtu and s = ?dp and srv = "answer_of respond" and req = "?svc GATT_SND_SVC_UUID" and svc = GATT_SND_SVC_UUID] served assms(3,4)
    by (simp add: secondary_all_cb_def encode_discover_secondary_def conforming_def items_from_def assms(6) asks_services_encoded del: takes.simps)
  moreover have "takes (answer_of respond) (char_discovered_cb mtu) 2 (ATT_OP_READ_BY_TYPE_REQ # bytes16 1 @ bytes16 0xFFFF @ bytes16 GATT_CHARAC_UUID)
      \<lparr>dc_uuid = None, dc_start = 1, dc_end = 0xFFFF, dc_characteristics = []\<rparr> 0 (map char_view (db_chars db))"
  proof -
    have last: "db_chars db \<noteq> []"
      using once entries_fit_some by blast
    then have "char_ok 0xFFFF (last (db_chars db))"
      using db(3) last by (simp add: in_order_def)
    moreover have "ch_handle (last (db_chars db)) \<noteq> 0xFFFF"
      using assms(8) by auto
    ultimately have "ch_handle (last (db_chars db)) \<noteq> 0 \<and> ch_handle (last (db_chars db)) \<noteq> 0xFFFF \<and> ch_handle (last (db_chars db)) + 1 < 0xFFFF"
      using assms(8) unat_Suc16 [of "ch_handle (last (db_chars db))"] by (auto simp: char_ok_def word_less_nat_alt)
    then show ?thesis
      using characteristics.takes_two [where xs = "db_chars db" and e = "0xFFFF" and mtu = mtu and srv = "answer_of respond" and
            s = "\<lparr>dc_uuid = None, dc_start = 1, dc_end = 0xFFFF, dc_characteristics = []\<rparr>"] db(3,7) served once assms(3,4) last
      by (simp add: asks_chars_encoded)
  qed
  moreover have "takes (answer_of respond) (desc_discovered_cb mtu) 2 (ATT_OP_FIND_INFO_REQ # bytes16 1 @ bytes16 0xFFFF)
      \<lparr>dd_uuid = None, dd_start = 1, dd_end = 0xFFFF, dd_descriptors = []\<rparr> 0 (map attribute_view (db_attributes db))"
  proof -
    have "at_handle (last (db_attributes db)) < 0xFFFF"
      using assms(9) le_max16(1) order.not_eq_order_implies_strict by blast
    then show ?thesis
      using attributes.takes_two [where xs = "db_attributes db" and e = "0xFFFF" and mtu = mtu and srv = "answer_of respond" and
            s = "\<lparr>dd_uuid = None, dd_start = 1, dd_end = 0xFFFF, dd_descriptors = []\<rparr>"] db(4,8,9) served once assms(3,4)
      by (simp add: asks_attributes_encoded)
  qed
  moreover have "db_chars db \<noteq> []"
    using once entries_fit_some by blast
  ultimately show ?thesis
    by (simp add: session_turns_def first_takes_def gatt_discover_primary_def gatt_discover_secondary_def encode_discover_primary_def
        encode_discover_secondary_def gatt_discover_services_requests [OF assms(3)] gatt_discover_char_request [OF assms(3)]
        gatt_discover_desc_request [OF assms(3)] del: takes.simps)
qed

lemma report_at_once:
  assumes "db_primary db \<noteq> []" "db_secondary db = []" "sv_end (last (db_primary db)) = at_handle (last (db_attributes db))"
    "at_handle (last (db_attributes db)) \<noteq> 0xFFFF"
  shows "report db 2 1 2 2 = (map Value (readable_handles db),
    \<lparr>b_log = lines db Prim @ lines db Chars @ lines db Descs, b_max = at_handle (last (db_attributes db)), b_quit = True\<rparr>)"
  using assms by (simp add: report_def agenda_def play.simps write_lines_def begun_def service_lines_def)

section \<open>Two devices\<close>

lemma respond_db_at_once:
  assumes "database_ok db" "23 \<le> mtu" "mtu < 65536" "entries_fit mtu service_bytes (db_primary db)"
    "entries_fit mtu char_bytes (db_chars db)" "entries_fit mtu attribute_bytes (db_attributes db)"
  shows "serves_at_once mtu db (respond_db mtu db)"
proof -
  note db = database_orders [OF assms(1)]
  have "answer_of (respond_db mtu db) req = (0, services_response mtu (db_primary db))" if "asks_services GATT_PRIM_SVC_UUID req = Some 1" for req
    using answer_of_answers [of mtu "ATT_OP_READ_BY_GROUP_REQ" "respond_db mtu db" req] list_answers(1) [OF assms(3,4)] that assms(4)
    by (simp add: respond_db_lists(1) [OF that] db(5) reply_list_def longest_whole entries_fit_some)
  moreover have "answer_of (respond_db mtu db) req = (0, chars_response mtu (db_chars db))" if "asks_chars 0xFFFF req = Some 1" for req
    using answer_of_answers [of mtu "ATT_OP_READ_BY_TYPE_REQ" "respond_db mtu db" req] list_answers(2) [OF assms(3,5)] that assms(5)
    by (simp add: respond_db_lists(3) [OF that] db(7) reply_list_def longest_whole entries_fit_some)
  moreover have "answer_of (respond_db mtu db) req = (0, attributes_response mtu (db_attributes db))" if "asks_attributes 0xFFFF req = Some 1" for req
    using answer_of_answers [of mtu "ATT_OP_FIND_INFO_REQ" "respond_db mtu db" req] list_answers(3) [OF assms(3,6)] that assms(6)
    by (simp add: respond_db_lists(4) [OF that] db(8) reply_list_def longest_whole entries_fit_some)
  ultimately show ?thesis
    using assms(4-6) by (simp add: serves_at_once_def at_once_def)
qed

text \<open>One service with one characteristic that can be read, whose value has the last handle.\<close>

definition small_device :: database where
  "small_device = \<lparr>db_primary = [\<lparr>sv_start = 1, sv_end = 3, sv_uuid = BT_UUID16 0x1800\<rparr>], db_secondary = [],
     db_chars = [\<lparr>ch_handle = 2, ch_properties = 2, ch_value_handle = 3, ch_uuid = BT_UUID16 0x2A00\<rparr>],
     db_attributes = [\<lparr>at_handle = 1, at_type = BT_UUID16 0x2800\<rparr>, \<lparr>at_handle = 2, at_type = BT_UUID16 0x2803\<rparr>,
       \<lparr>at_handle = 3, at_type = BT_UUID16 0x2A00\<rparr>],
     db_value = (\<lambda>h. if h = 3 then Some [0x61, 0x62, 0x63] else None)\<rparr>"

text \<open>The same with a descriptor after the value and a service that claims more handles than it uses.\<close>

definition larger_device :: database where
  "larger_device = small_device\<lparr>db_primary := [\<lparr>sv_start = 1, sv_end = 9, sv_uuid = BT_UUID16 0x1800\<rparr>],
     db_attributes := db_attributes small_device @ [\<lparr>at_handle = 4, at_type = BT_UUID16 0x2902\<rparr>]\<rparr>"

lemma small_device_ok: "database_ok small_device" "database_ok larger_device"
  by (simp_all add: database_ok_def larger_device_def small_device_def in_order_def service_ok_def char_ok_def att_uuid_def uuid_len16_def
      readable_handles_def readable_char_def word_less_nat_alt word_le_nat_alt)

lemma small_device_served:
  "serves 23 small_device (respond_db 23 small_device)" "serves 23 larger_device (respond_db 23 larger_device)"
proof -
  have "length v < 65535" if "db_value small_device h = Some v" for h v
    using that by (auto simp: small_device_def split: if_splits)
  then show "serves 23 small_device (respond_db 23 small_device)"
    by (rule serves_respond_db [OF _ _ small_device_ok(1), rotated 2]) simp_all
  have "length v < 65535" if "db_value larger_device h = Some v" for h v
    using that by (auto simp: small_device_def larger_device_def split: if_splits)
  then show "serves 23 larger_device (respond_db 23 larger_device)"
    by (rule serves_respond_db [OF _ _ small_device_ok(2), rotated 2]) simp_all
qed

lemma small_device_at_once: "serves_at_once 23 small_device (respond_db 23 small_device)"
  by (rule respond_db_at_once [OF small_device_ok(1)])
    (simp_all add: small_device_def entries_fit_def service_bytes_def char_bytes_def attribute_bytes_def)

lemma small_device_turns: "session_turns 23 small_device (respond_db 23 small_device) 2 1 2 2"
  by (rule at_once_turns [OF small_device_served(1) small_device_ok(1) _ _ small_device_at_once])
    (simp_all add: small_device_def word_less_nat_alt)

section \<open>Sessions\<close>

text \<open>C14.
  On the LE attribute channel (CID 4, for which the program uses an MTU of 23 whatever MTU is
  reported), a session with a device that answers every request as the protocol asks, however many
  items it gives in a response and so however many turns each listing takes, follows the abstract
  printer: after some exchanges the log is what the abstract printer has written, the main loop has
  ended if the abstract printer has, and as many requests wait.
\<close>

theorem printer_takes_turns:
  assumes "serves 23 db respond" "database_ok db" "session_turns 23 db respond np ns nc nd"
    and "report db np ns nc nd = (ts, b)"
  shows "\<exists>st n att w. connect_cb False mtu 4 printer_init = Some st \<and> session_with respond n st = Some (att, w) \<and>
    g_log w = b_log b \<and> loop_quit w = b_quit b \<and> length (req_queue att) = length ts"
  using session_shows [OF assms] by blast

lemma printer_takes_turns_witness:
  "\<exists>st n att w. connect_cb False (Some 517) 4 printer_init = Some st \<and>
     session_with (respond_db 23 small_device) n st = Some (att, w) \<and>
     g_log w = lines small_device Prim @ lines small_device Chars @ lines small_device Descs \<and> loop_quit w \<and> length (req_queue att) = 1"
proof -
  have "readable_handles small_device = [3]"
    by (simp add: small_device_def readable_handles_def readable_char_def)
  moreover have "db_primary small_device \<noteq> []" "db_secondary small_device = []"
    "sv_end (last (db_primary small_device)) = at_handle (last (db_attributes small_device))"
    "at_handle (last (db_attributes small_device)) \<noteq> 0xFFFF"
    by (simp_all add: small_device_def)
  ultimately have small: "db_primary small_device \<noteq> []" "db_secondary small_device = []"
    "sv_end (last (db_primary small_device)) = at_handle (last (db_attributes small_device))"
    "at_handle (last (db_attributes small_device)) \<noteq> 0xFFFF" "length (readable_handles small_device) = Suc 0"
    by simp_all
  obtain st n att w where "connect_cb False (Some 517) 4 printer_init = Some st"
    "session_with (respond_db 23 small_device) n st = Some (att, w)" "length (req_queue att) = length (map Value (readable_handles small_device))"
    "g_log w = lines small_device Prim @ lines small_device Chars @ lines small_device Descs" "loop_quit w"
    using printer_takes_turns [OF small_device_served(1) small_device_ok(1) small_device_turns report_at_once [OF small(1-4)],
        of "Some 517"]
    by fastforce
  then show ?thesis
    unfolding length_map small(5) One_nat_def by blast
qed

text \<open>C13.
  On the LE attribute channel (CID 4 with an MTU of 23), a session with a device that answers every
  request as the protocol asks comes to its end: after some exchanges the main loop has ended or no request waits.  By then the log has no line that is not the
  device's and none twice, it has all the descriptors, and it has all lines and all values of the
  device unless the main loop has ended before.  The main loop ends only if the last handle is the
  end of a service or the value of a characteristic (or 0xFFFF).
\<close>

theorem printer_logs_device:
  assumes "serves 23 db respond" "database_ok db"
  shows "\<exists>st n att w. connect_cb False mtu 4 printer_init = Some st \<and> session_with respond n st = Some (att, w) \<and>
    (loop_quit w \<or> req_queue att = []) \<and> mset (g_log w) \<subseteq># mset (device_lines db) \<and> mset (lines db Descs) \<subseteq># mset (g_log w) \<and>
    (\<not> loop_quit w \<longrightarrow> mset (g_log w) = mset (device_lines db)) \<and>
    (loop_quit w \<longrightarrow> at_handle (last (db_attributes db)) \<in> expected_handles db)"
proof -
  obtain np ns nc nd where turns: "session_turns 23 db respond np ns nc nd"
    using turns_exist [OF assms] by fastforce
  obtain ts b where r: "report db np ns nc nd = (ts, b)"
    by fastforce
  note complete = report_complete [OF r]
  obtain st n att w where st: "connect_cb False mtu 4 printer_init = Some st" "session_with respond n st = Some (att, w)"
    "g_log w = b_log b" "loop_quit w = b_quit b" "length (req_queue att) = length ts"
    using session_shows [OF assms turns r] by blast
  have none: "\<forall>n. List Descs n \<notin> set ts"
    using complete(2,3) by (auto simp: board_ok_def)
  have "mset (lines db Descs) \<subseteq># mset (b_log b)"
    using descs_logged [OF complete(1) none] .
  moreover have "mset (b_log b) \<subseteq># mset (device_lines db)"
    using complete(1) by (metis mset_subset_eq_add_left)
  moreover have "mset (b_log b) = mset (device_lines db)" if "\<not> b_quit b"
    using complete(1,3) that by (simp add: owing_def)
  moreover have "at_handle (last (db_attributes db)) \<in> expected_handles db" if "b_quit b"
    using complete(2) that by (simp add: board_ok_def)
  ultimately show ?thesis
    using st complete(3) by (intro exI [of _ st] exI [of _ n] exI [of _ att] exI [of _ w]) auto
qed

lemma printer_logs_device_witness:
  "\<exists>st n att w. connect_cb False (Some 517) 4 printer_init = Some st \<and>
     session_with (respond_db 23 larger_device) n st = Some (att, w) \<and> req_queue att = [] \<and>
     mset (g_log w) = mset (device_lines larger_device)"
proof -
  have "at_handle (last (db_attributes larger_device)) \<notin> expected_handles larger_device"
    by (simp add: larger_device_def small_device_def expected_handles_def)
  then show ?thesis
    using printer_logs_device [of larger_device "respond_db 23 larger_device" "Some 517"] small_device_served(2) small_device_ok(2)
    by (simp del: split_paired_Ex) blast
qed

text \<open>C15.
  On the LE attribute channel (CID 4 with an MTU of 23), a device loses its values if it gives all its
  services, all its characteristics and all its attributes in one response each, has no secondary
  service, its last primary service ends at its last attribute, which is not 0xFFFF, and its last
  characteristic is below 0xFFFE: the main loop ends with the last descriptor while every read still
  waits, and the log has all other lines and not one value.
\<close>

theorem printer_loses_values:
  assumes "serves 23 db respond" "database_ok db" "serves_at_once 23 db respond" "db_secondary db = []"
    and "sv_end (last (db_primary db)) = at_handle (last (db_attributes db))" "at_handle (last (db_attributes db)) \<noteq> 0xFFFF"
    and "ch_handle (last (db_chars db)) < 0xFFFE"
  shows "\<exists>st n att w. connect_cb False mtu 4 printer_init = Some st \<and> session_with respond n st = Some (att, w) \<and>
    loop_quit w \<and> g_log w = lines db Prim @ lines db Chars @ lines db Descs \<and> length (req_queue att) = length (readable_handles db)"
proof -
  have prim: "db_primary db \<noteq> []"
    using assms(3) entries_fit_some by (auto simp: serves_at_once_def at_once_def)
  have turns: "session_turns 23 db respond 2 1 2 2"
    using assms by (intro at_once_turns [OF assms(1,2) _ _ assms(3,4)]) simp_all
  show ?thesis
    using session_shows [OF assms(1,2) turns report_at_once [OF prim assms(4-6)], of mtu] by fastforce
qed

lemma printer_loses_values_witness:
  "\<exists>st n att w. connect_cb False (Some 517) 4 printer_init = Some st \<and>
     session_with (respond_db 23 small_device) n st = Some (att, w) \<and> loop_quit w \<and>
     g_log w = lines small_device Prim @ lines small_device Chars @ lines small_device Descs \<and> length (req_queue att) = 1"
  using printer_loses_values [of small_device "respond_db 23 small_device" "Some 517"] small_device_served(1) small_device_ok(1) small_device_at_once
  by (simp add: small_device_def readable_handles_def readable_char_def word_less_nat_alt)

text \<open>The session of \<open>larger_device\<close> as events of the main loop, for the values that are on the log.\<close>

lemma larger_device_session:
  "\<exists>st evs att w. connect_cb False (Some 517) 4 printer_init = Some st \<and> main_loop evs st = Some (att, w) \<and>
     CHAR_VALUE 3 [0x61, 0x62, 0x63] \<in> set (g_log w)"
proof -
  obtain ts b np ns nc nd where turns: "session_turns 23 larger_device (respond_db 23 larger_device) np ns nc nd"
    "report larger_device np ns nc nd = (ts, b)"
    using turns_exist [OF small_device_served(2) small_device_ok(2)] by fastforce
  have "\<not> b_quit b"
    using report_complete(2) [OF turns(2)]
    by (auto simp: board_ok_def larger_device_def small_device_def expected_handles_def)
  then have "mset (b_log b) = mset (device_lines larger_device)"
    using report_complete(1,3) [OF turns(2)] by (simp add: owing_def)
  then have "set (b_log b) = set (device_lines larger_device)"
    by (rule mset_eq_setD)
  moreover have "CHAR_VALUE 3 [0x61, 0x62, 0x63] \<in> set (device_lines larger_device)"
    by (simp add: device_lines_def readable_handles_def readable_char_def value_lines_def larger_device_def small_device_def)
  ultimately have logged: "CHAR_VALUE 3 [0x61, 0x62, 0x63] \<in> set (b_log b)"
    by simp
  obtain st n att w where st: "connect_cb False (Some 517) 4 printer_init = Some st"
    "session_with (respond_db 23 larger_device) n st = Some (att, w)" "follows 23 larger_device (respond_db 23 larger_device) (att, w) (ts, b)"
    using session_shows [OF small_device_served(2) small_device_ok(2) turns] by blast
  obtain evs where "main_loop evs st = Some (att, w)"
    using session_events [OF st(2)] by blast
  then show ?thesis
    using st(1) follows_shows [OF st(3)] logged by metis
qed

lemma values_of_readable_characteristics_witness:
  "\<exists>st evs att w h p u. connect_cb False (Some 517) 4 printer_init = Some st \<and> main_loop evs st = Some (att, w) \<and>
     CHAR_VALUE 3 [0x61, 0x62, 0x63] \<in> set (g_log w) \<and> CHARACTERISTIC h p 3 u \<in> set (g_log w) \<and> p AND 0x2 = 0x2"
proof -
  obtain st evs att w where session: "connect_cb False (Some 517) 4 printer_init = Some st" "main_loop evs st = Some (att, w)"
    "CHAR_VALUE 3 [0x61, 0x62, 0x63] \<in> set (g_log w)"
    using larger_device_session by blast
  then show ?thesis
    using values_of_readable_characteristics [OF session] by blast
qed

lemma channel_stays_typed_witness:
  "\<exists>st evs att w. connect_cb False (Some 517) 4 printer_init = Some st \<and> main_loop evs st = Some (att, w) \<and>
     channel_typed (unat (att_mtu att)) att"
  using larger_device_session channel_stays_typed by blast

end
