(* ===== verification/Sdp_Data.thy ===== *)
theory Sdp_Data
  imports Bt_Uuid
begin

text \<open>
  lib/sdp.c of the BlueZ tree, the half of it that reads: data elements, the service records
  built of them, and the functions that extract both from the bytes of a response.  A pointer
  and the number of bytes left behind it are one list; a read outside it is \<open>None\<close>.  Nested
  sequences make the extraction recursive, and its loop need not end: the functions take fuel,
  and an outer \<open>None\<close> is an extraction that has not returned.
\<close>

unbundle bit_operations_syntax

section \<open>Data elements\<close>

abbreviation (input) "SDP_DATA_NIL \<equiv> (0x00 :: u8)"
abbreviation (input) "SDP_UINT8 \<equiv> (0x08 :: u8)"
abbreviation (input) "SDP_UINT16 \<equiv> (0x09 :: u8)"
abbreviation (input) "SDP_UINT32 \<equiv> (0x0A :: u8)"
abbreviation (input) "SDP_UINT64 \<equiv> (0x0B :: u8)"
abbreviation (input) "SDP_UINT128 \<equiv> (0x0C :: u8)"
abbreviation (input) "SDP_INT8 \<equiv> (0x10 :: u8)"
abbreviation (input) "SDP_INT16 \<equiv> (0x11 :: u8)"
abbreviation (input) "SDP_INT32 \<equiv> (0x12 :: u8)"
abbreviation (input) "SDP_INT64 \<equiv> (0x13 :: u8)"
abbreviation (input) "SDP_INT128 \<equiv> (0x14 :: u8)"
abbreviation (input) "SDP_UUID16 \<equiv> (0x19 :: u8)"
abbreviation (input) "SDP_UUID32 \<equiv> (0x1A :: u8)"
abbreviation (input) "SDP_UUID128 \<equiv> (0x1C :: u8)"
abbreviation (input) "SDP_TEXT_STR8 \<equiv> (0x25 :: u8)"
abbreviation (input) "SDP_TEXT_STR16 \<equiv> (0x26 :: u8)"
abbreviation (input) "SDP_TEXT_STR32 \<equiv> (0x27 :: u8)"
abbreviation (input) "SDP_BOOL \<equiv> (0x28 :: u8)"
abbreviation (input) "SDP_SEQ8 \<equiv> (0x35 :: u8)"
abbreviation (input) "SDP_SEQ16 \<equiv> (0x36 :: u8)"
abbreviation (input) "SDP_SEQ32 \<equiv> (0x37 :: u8)"
abbreviation (input) "SDP_ALT8 \<equiv> (0x3D :: u8)"
abbreviation (input) "SDP_ALT16 \<equiv> (0x3E :: u8)"
abbreviation (input) "SDP_ALT32 \<equiv> (0x3F :: u8)"
abbreviation (input) "SDP_URL_STR8 \<equiv> (0x45 :: u8)"
abbreviation (input) "SDP_URL_STR16 \<equiv> (0x46 :: u8)"
abbreviation (input) "SDP_URL_STR32 \<equiv> (0x47 :: u8)"

abbreviation (input) "SDP_ATTR_RECORD_HANDLE \<equiv> (0x0000 :: u16)"
abbreviation (input) "SDP_ATTR_SVCLASS_ID_LIST \<equiv> (0x0001 :: u16)"

definition sdp_is_uuid :: "u8 \<Rightarrow> bool" where
  "sdp_is_uuid x \<longleftrightarrow> x = SDP_UUID16 \<or> x = SDP_UUID32 \<or> x = SDP_UUID128"

definition sdp_is_seq :: "u8 \<Rightarrow> bool" where
  "sdp_is_seq x \<longleftrightarrow> x = SDP_SEQ8 \<or> x = SDP_SEQ16 \<or> x = SDP_SEQ32"

definition sdp_is_alt :: "u8 \<Rightarrow> bool" where
  "sdp_is_alt x \<longleftrightarrow> x = SDP_ALT8 \<or> x = SDP_ALT16 \<or> x = SDP_ALT32"

text \<open>The type codes of the three groups of cases of the switch.\<close>

definition int_code :: "u8 \<Rightarrow> bool" where
  "int_code x \<longleftrightarrow> x \<in> {SDP_DATA_NIL, SDP_BOOL, SDP_UINT8, SDP_UINT16, SDP_UINT32, SDP_UINT64, SDP_UINT128,
     SDP_INT8, SDP_INT16, SDP_INT32, SDP_INT64, SDP_INT128}"

definition str_code :: "u8 \<Rightarrow> bool" where
  "str_code x \<longleftrightarrow> x \<in> {SDP_TEXT_STR8, SDP_TEXT_STR16, SDP_TEXT_STR32, SDP_URL_STR8, SDP_URL_STR16, SDP_URL_STR32}"

text \<open>The tagged union of UUIDs; the record of a device starts with the zeroed one.\<close>

datatype sdp_uuid = SDP_no_uuid | SDP_uuid16 u16 | SDP_uuid32 u32 | SDP_uuid128 "u8 list"

text \<open>
  \<open>sdp_data_t\<close>: the type code chooses the member of the union.  The chain of a sequence's
  elements is a list, and \<open>unitSize\<close> is set by the extraction of a string only, to one more
  than its length.  Values of 128 bits are in the order of memory.
\<close>

datatype sdp_scalar = Val_none | Val8 u8 | Val16 u16 | Val32 u32 | Val64 u64 | Val128 "u8 list" | Val_uuid sdp_uuid

datatype sdp_data =
    Sdp_scalar (dtd: u8) sdp_scalar
  | Sdp_str (dtd: u8) "u8 list"
  | Sdp_seq (dtd: u8) "sdp_data list"

text \<open>
  A service record.  \<open>None\<close> for the handle is half the address of a heap object, which a
  handle attribute of a pointer type leaves there.
\<close>

record sdp_record =
  rec_handle :: "u32 option"
  rec_pattern :: "u8 list list"
  rec_attrlist :: "(u16 \<times> sdp_data) list"
  rec_svclass :: sdp_uuid

definition sdp_record_alloc :: sdp_record where
  "sdp_record_alloc = \<lparr>rec_handle = Some 0xffffffff, rec_pattern = [], rec_attrlist = [], rec_svclass = SDP_no_uuid\<rparr>"

section \<open>Big-endian fields\<close>

definition rd_be16 :: "u8 list \<Rightarrow> nat \<Rightarrow> u16 option" where
  "rd_be16 p i = do { b0 \<leftarrow> rd p i; b1 \<leftarrow> rd p (i + 1); Some (le16 b1 b0) }"

definition rd_be32 :: "u8 list \<Rightarrow> nat \<Rightarrow> u32 option" where
  "rd_be32 p i = do { b0 \<leftarrow> rd p i; b1 \<leftarrow> rd p (i + 1); b2 \<leftarrow> rd p (i + 2); b3 \<leftarrow> rd p (i + 3);
     Some (le32 b3 b2 b1 b0) }"

definition rd_be64 :: "u8 list \<Rightarrow> nat \<Rightarrow> u64 option" where
  "rd_be64 p i = do { hi \<leftarrow> rd_be32 p i; lo \<leftarrow> rd_be32 p (i + 4); Some (push_bit 32 (ucast hi) OR ucast lo) }"

lemma rd_be_Some [simp]:
  "i + 2 \<le> length p \<Longrightarrow> rd_be16 p i = Some (be16_at p i)"
  "i + 4 \<le> length p \<Longrightarrow> rd_be32 p i = Some (be32_at p i)"
  "i + 8 \<le> length p \<Longrightarrow> rd_be64 p i = Some (push_bit 32 (ucast (be32_at p i)) OR ucast (be32_at p (i + 4)))"
  by (simp_all add: rd_be16_def rd_be32_def rd_be64_def be16_at_def be32_at_def)

section \<open>Lists and UUIDs\<close>

fun sdp_list_insert_sorted :: "('a \<Rightarrow> 'a \<Rightarrow> int) \<Rightarrow> 'a list \<Rightarrow> 'a \<Rightarrow> 'a list" where
  "sdp_list_insert_sorted f [] d = [d]"
| "sdp_list_insert_sorted f (p # ps) d = (if f p d \<ge> 0 then d # p # ps else p # sdp_list_insert_sorted f ps d)"

fun sdp_list_find :: "'a list \<Rightarrow> 'b \<Rightarrow> ('a \<Rightarrow> 'b \<Rightarrow> int) \<Rightarrow> 'a option" where
  "sdp_list_find [] u f = None"
| "sdp_list_find (p # ps) u f = (if f p u = 0 then Some p else sdp_list_find ps u f)"

text \<open>\<open>htons\<close> and \<open>htonl\<close> on the little endian host.\<close>

definition htons :: "u16 \<Rightarrow> u16" where
  "htons v = le16 (ucast (drop_bit 8 v)) (ucast v)"

definition htonl :: "u32 \<Rightarrow> u32" where
  "htonl v = le32 (ucast (drop_bit 24 v)) (ucast (drop_bit 16 v)) (ucast (drop_bit 8 v)) (ucast v)"

definition sdp_uuid16_to_uuid128 :: "u16 \<Rightarrow> u8 list" where
  "sdp_uuid16_to_uuid128 v = (let base = bluetooth_base_uuid
     in overwrite base 2 (bytes16 (le16 (base ! 2) (base ! 3) + htons v)))"

definition sdp_uuid32_to_uuid128 :: "u32 \<Rightarrow> u8 list" where
  "sdp_uuid32_to_uuid128 v = (let base = bluetooth_base_uuid
     in overwrite base 0 (bytes32 (le32 (base ! 0) (base ! 1) (base ! 2) (base ! 3) + htonl v)))"

text \<open>The sixteen bytes of the result; of a UUID of no type they are the zeros of the allocation.\<close>

fun sdp_uuid_to_uuid128 :: "sdp_uuid \<Rightarrow> u8 list" where
  "sdp_uuid_to_uuid128 (SDP_uuid128 d) = d"
| "sdp_uuid_to_uuid128 (SDP_uuid32 v) = sdp_uuid32_to_uuid128 v"
| "sdp_uuid_to_uuid128 (SDP_uuid16 v) = sdp_uuid16_to_uuid128 v"
| "sdp_uuid_to_uuid128 SDP_no_uuid = replicate 16 0"

definition sdp_pattern_add_uuid :: "sdp_record \<Rightarrow> sdp_uuid \<Rightarrow> sdp_record" where
  "sdp_pattern_add_uuid rec uuid =
     (let uuid128 = sdp_uuid_to_uuid128 uuid
      in if sdp_list_find (rec_pattern rec) uuid128 memcmp = None
         then rec\<lparr>rec_pattern := sdp_list_insert_sorted memcmp (rec_pattern rec) uuid128\<rparr>
         else rec)"

section \<open>Attributes of a record\<close>

definition sdp_attrid_comp_func :: "u16 \<times> sdp_data \<Rightarrow> u16 \<times> sdp_data \<Rightarrow> int" where
  "sdp_attrid_comp_func d1 d2 = uint (fst d1) - uint (fst d2)"

definition sdp_data_get :: "sdp_record \<Rightarrow> u16 \<Rightarrow> sdp_data option" where
  "sdp_data_get rec attrId =
     map_option snd (sdp_list_find (rec_attrlist rec) attrId (\<lambda>d a. uint (fst d) - uint a))"

text \<open>The node that the search found is the one that is taken out.\<close>

fun attr_remove :: "u16 \<Rightarrow> (u16 \<times> sdp_data) list \<Rightarrow> (u16 \<times> sdp_data) list" where
  "attr_remove a [] = []"
| "attr_remove a (p # ps) = (if fst p = a then ps else p # attr_remove a ps)"

definition extract_svclass_uuid :: "sdp_data \<Rightarrow> sdp_uuid \<Rightarrow> sdp_uuid" where
  "extract_svclass_uuid data uuid =
     (case data of
        Sdp_seq t (Sdp_scalar t' (Val_uuid u) # ds) \<Rightarrow>
          if sdp_is_seq t \<and> \<not> (t' < SDP_UUID16 \<or> SDP_UUID128 < t') then u else uuid
      | _ \<Rightarrow> uuid)"

definition sdp_attr_replace :: "sdp_record \<Rightarrow> u16 \<Rightarrow> sdp_data \<Rightarrow> sdp_record" where
  "sdp_attr_replace rec attr d =
     (let ps = (case sdp_data_get rec attr of None \<Rightarrow> rec_attrlist rec | Some p \<Rightarrow> attr_remove attr (rec_attrlist rec));
          rec1 = rec\<lparr>rec_attrlist := sdp_list_insert_sorted sdp_attrid_comp_func ps (attr, d)\<rparr>
      in if attr = SDP_ATTR_SVCLASS_ID_LIST
         then rec1\<lparr>rec_svclass := extract_svclass_uuid d (rec_svclass rec1)\<rparr> else rec1)"

text \<open>\<open>sdp_attr_add\<close> refuses an attribute that is there.\<close>

definition sdp_attr_add :: "sdp_record \<Rightarrow> u16 \<Rightarrow> sdp_data \<Rightarrow> int \<times> sdp_record" where
  "sdp_attr_add rec attr d =
     (if sdp_data_get rec attr \<noteq> None then (-1, rec)
      else let rec1 = rec\<lparr>rec_attrlist := sdp_list_insert_sorted sdp_attrid_comp_func (rec_attrlist rec) (attr, d)\<rparr>
        in (0, if attr = SDP_ATTR_SVCLASS_ID_LIST
               then rec1\<lparr>rec_svclass := extract_svclass_uuid d (rec_svclass rec1)\<rparr> else rec1))"

definition sdp_attr_remove :: "sdp_record \<Rightarrow> u16 \<Rightarrow> sdp_record" where
  "sdp_attr_remove rec attr =
     (let rec1 = (case sdp_data_get rec attr of None \<Rightarrow> rec
                  | Some d \<Rightarrow> rec\<lparr>rec_attrlist := attr_remove attr (rec_attrlist rec)\<rparr>)
      in if attr = SDP_ATTR_SVCLASS_ID_LIST then rec1\<lparr>rec_svclass := SDP_no_uuid\<rparr> else rec1)"

section \<open>Extraction of one element\<close>

text \<open>
  The element is \<open>None\<close> where the code returns NULL; the number is what the call has added to
  \<open>*len\<close> by then.
\<close>

definition extract_int :: "u8 list \<Rightarrow> (sdp_data option \<times> nat) option" where
  "extract_int p =
     (if length p < 1 then Some (None, 0)
      else do {
        d \<leftarrow> rd p 0;
        let bufsize = length p - 1;
        if d = SDP_DATA_NIL then Some (Some (Sdp_scalar d Val_none), 1)
        else if d = SDP_BOOL \<or> d = SDP_INT8 \<or> d = SDP_UINT8 then
          if bufsize < 1 then Some (None, 1)
          else do { v \<leftarrow> rd p 1; Some (Some (Sdp_scalar d (Val8 v)), 2) }
        else if d = SDP_INT16 \<or> d = SDP_UINT16 then
          if bufsize < 2 then Some (None, 1)
          else do { v \<leftarrow> rd_be16 p 1; Some (Some (Sdp_scalar d (Val16 v)), 3) }
        else if d = SDP_INT32 \<or> d = SDP_UINT32 then
          if bufsize < 4 then Some (None, 1)
          else do { v \<leftarrow> rd_be32 p 1; Some (Some (Sdp_scalar d (Val32 v)), 5) }
        else if d = SDP_INT64 \<or> d = SDP_UINT64 then
          if bufsize < 8 then Some (None, 1)
          else do { v \<leftarrow> rd_be64 p 1; Some (Some (Sdp_scalar d (Val64 v)), 9) }
        else if d = SDP_INT128 \<or> d = SDP_UINT128 then
          if bufsize < 16 then Some (None, 1)
          else do { v \<leftarrow> rds p 1 16; Some (Some (Sdp_scalar d (Val128 (rev v))), 17) }
        else Some (None, 1)
      })"

definition sdp_uuid_extract :: "u8 list \<Rightarrow> (sdp_uuid option \<times> nat) option" where
  "sdp_uuid_extract p =
     (if length p < 1 then Some (None, 0)
      else do {
        type \<leftarrow> rd p 0;
        let bufsize = length p - 1;
        if \<not> sdp_is_uuid type then Some (None, 0)
        else if type = SDP_UUID16 then
          if bufsize < 2 then Some (None, 1)
          else do { v \<leftarrow> rd_be16 p 1; Some (Some (SDP_uuid16 v), 3) }
        else if type = SDP_UUID32 then
          if bufsize < 4 then Some (None, 1)
          else do { v \<leftarrow> rd_be32 p 1; Some (Some (SDP_uuid32 v), 5) }
        else
          if bufsize < 16 then Some (None, 1)
          else do { v \<leftarrow> rds p 1 16; Some (Some (SDP_uuid128 v), 17) }
      })"

text \<open>A UUID is entered into the search pattern of the record, where there is one.\<close>

definition extract_uuid :: "u8 list \<Rightarrow> sdp_record option \<Rightarrow> (sdp_data option \<times> nat \<times> sdp_record option) option" where
  "extract_uuid p rec = do {
     (uuid, len) \<leftarrow> sdp_uuid_extract p;
     (case uuid of
        None \<Rightarrow> Some (None, len, rec)
      | Some u \<Rightarrow> do {
          d \<leftarrow> rd p 0;
          Some (Some (Sdp_scalar d (Val_uuid u)), len, map_option (\<lambda>r. sdp_pattern_add_uuid r u) rec)
        })
   }"

definition extract_str :: "u8 list \<Rightarrow> (sdp_data option \<times> nat) option" where
  "extract_str p =
     (if length p < 1 then Some (None, 0)
      else do {
        d \<leftarrow> rd p 0;
        let bufsize = length p - 1;
        if d = SDP_TEXT_STR8 \<or> d = SDP_URL_STR8 then
          if bufsize < 1 then Some (None, 1)
          else do {
            n \<leftarrow> rd p 1;
            if bufsize - 1 < unat n then Some (None, 2)
            else do { s \<leftarrow> rds p 2 (unat n); Some (Some (Sdp_str d s), 2 + unat n) }
          }
        else if d = SDP_TEXT_STR16 \<or> d = SDP_URL_STR16 then
          if bufsize < 2 then Some (None, 1)
          else do {
            n \<leftarrow> rd_be16 p 1;
            if bufsize - 2 < unat n then Some (None, 3)
            else do { s \<leftarrow> rds p 3 (unat n); Some (Some (Sdp_str d s), 3 + unat n) }
          }
        else Some (None, 1)
      })"

text \<open>
  The two results of a header stay as the caller set them when the header is refused.  The
  size is a C \<open>int\<close>: a 32-bit length of \<open>2 ^ 31\<close> or more comes out negative.
\<close>

definition sdp_extract_seqtype :: "u8 list \<Rightarrow> u8 \<Rightarrow> int \<Rightarrow> (nat \<times> u8 \<times> int) option" where
  "sdp_extract_seqtype buf dtdp seqlen =
     (if length buf < 1 then Some (0, dtdp, seqlen)
      else do {
        dtd \<leftarrow> rd buf 0;
        let bufsize = length buf - 1;
        if dtd = SDP_SEQ8 \<or> dtd = SDP_ALT8 then
          if bufsize < 1 then Some (0, dtd, seqlen)
          else do { n \<leftarrow> rd buf 1; Some (2, dtd, uint n) }
        else if dtd = SDP_SEQ16 \<or> dtd = SDP_ALT16 then
          if bufsize < 2 then Some (0, dtd, seqlen)
          else do { n \<leftarrow> rd_be16 buf 1; Some (3, dtd, uint n) }
        else if dtd = SDP_SEQ32 \<or> dtd = SDP_ALT32 then
          if bufsize < 4 then Some (0, dtd, seqlen)
          else do { n \<leftarrow> rd_be32 buf 1; Some (5, dtd, sint n) }
        else Some (0, dtd, seqlen)
      })"

section \<open>Extraction of nested elements\<close>

text \<open>Fuel outside, reads inside.\<close>

definition and_then :: "'a option option \<Rightarrow> ('a \<Rightarrow> 'b option option) \<Rightarrow> 'b option option" where
  "and_then m k = (case m of None \<Rightarrow> None | Some None \<Rightarrow> Some None | Some (Some x) \<Rightarrow> k x)"

lemma and_then_simps [simp]:
  "and_then None k = None"
  "and_then (Some None) k = Some None"
  "and_then (Some (Some x)) k = k x"
  by (simp_all add: and_then_def)

lemma and_then_eq_Some:
  "and_then m k = Some y \<longleftrightarrow> (m = Some None \<and> y = None) \<or> (\<exists>x. m = Some (Some x) \<and> k x = Some y)"
  by (auto simp: and_then_def split: option.splits)

text \<open>
  \<open>extract_elems\<close> is the loop of \<open>extract_seq\<close>, which neither checks that an element lies
  within the sequence nor that it had any bytes.
\<close>

fun sdp_extract_attr :: "nat \<Rightarrow> u8 list \<Rightarrow> sdp_record option \<Rightarrow> (sdp_data option \<times> nat \<times> sdp_record option) option option"
  and extract_seq :: "nat \<Rightarrow> u8 list \<Rightarrow> sdp_record option \<Rightarrow> (sdp_data option \<times> nat \<times> sdp_record option) option option"
  and extract_elems :: "nat \<Rightarrow> u8 list \<Rightarrow> nat \<Rightarrow> int \<Rightarrow> sdp_record option \<Rightarrow> (sdp_data list \<times> nat \<times> sdp_record option) option option"
where
  "sdp_extract_attr 0 p rec = None"
| "sdp_extract_attr (Suc f) p rec =
     (if length p < 1 then Some (Some (None, 0, rec))
      else and_then (Some (rd p 0)) (\<lambda>dtd.
        if int_code dtd then Some (map_option (\<lambda>(elem, n). (elem, n, rec)) (extract_int p))
        else if sdp_is_uuid dtd then Some (extract_uuid p rec)
        else if str_code dtd then Some (map_option (\<lambda>(elem, n). (elem, n, rec)) (extract_str p))
        else if sdp_is_seq dtd \<or> sdp_is_alt dtd then extract_seq f p rec
        else Some (Some (None, 0, rec))))"
| "extract_seq 0 p rec = None"
| "extract_seq (Suc f) p rec =
     and_then (Some (sdp_extract_seqtype p 0 0)) (\<lambda>(len, dtd, seqlen).
       if len = 0 then Some (Some (Some (Sdp_seq dtd []), 0, rec))
       else if length p < len then Some (Some (None, len, rec))
       else and_then (extract_elems f (drop len p) 0 seqlen rec) (\<lambda>(ds, n, rec').
         Some (Some (Some (Sdp_seq dtd ds), len + n, rec'))))"
| "extract_elems 0 p n seqlen rec = None"
| "extract_elems (Suc f) p n seqlen rec =
     (if int n < seqlen then
        and_then (sdp_extract_attr f p rec) (\<lambda>(curr, attrlen, rec').
          case curr of
            None \<Rightarrow> Some (Some ([], n, rec'))
          | Some d \<Rightarrow> and_then (extract_elems f (drop attrlen p) (n + attrlen) seqlen rec') (\<lambda>(ds, n', rec'').
              Some (Some (d # ds, n', rec''))))
      else Some (Some ([], n, rec)))"

section \<open>Extraction of a record\<close>

text \<open>
  \<open>data->val.uint32\<close> reads four bytes of the union whatever the type of the element is: the
  low half of a larger number, a small one with the zeros of the allocation behind it, the type
  code of a UUID, and half of the pointer that stands for a string or a sequence.
\<close>

fun val_uint32 :: "sdp_data \<Rightarrow> u32 option" where
  "val_uint32 (Sdp_scalar t Val_none) = Some 0"
| "val_uint32 (Sdp_scalar t (Val8 v)) = Some (ucast v)"
| "val_uint32 (Sdp_scalar t (Val16 v)) = Some (ucast v)"
| "val_uint32 (Sdp_scalar t (Val32 v)) = Some v"
| "val_uint32 (Sdp_scalar t (Val64 v)) = Some (ucast v)"
| "val_uint32 (Sdp_scalar t (Val128 d)) = rd32 d 0"
| "val_uint32 (Sdp_scalar t (Val_uuid SDP_no_uuid)) = Some 0"
| "val_uint32 (Sdp_scalar t (Val_uuid (SDP_uuid16 v))) = Some (ucast SDP_UUID16)"
| "val_uint32 (Sdp_scalar t (Val_uuid (SDP_uuid32 v))) = Some (ucast SDP_UUID32)"
| "val_uint32 (Sdp_scalar t (Val_uuid (SDP_uuid128 d))) = Some (ucast SDP_UUID128)"
| "val_uint32 (Sdp_str t s) = None"
| "val_uint32 (Sdp_seq t ds) = (if ds = [] then Some 0 else None)"

text \<open>What the loop does with an attribute and its value.\<close>

definition store_attr :: "u16 \<Rightarrow> sdp_data \<Rightarrow> sdp_record \<Rightarrow> sdp_record" where
  "store_attr attr data rec =
     (let rec1 = (if attr = SDP_ATTR_RECORD_HANDLE then rec\<lparr>rec_handle := val_uint32 data\<rparr> else rec);
          rec2 = (if attr = SDP_ATTR_SVCLASS_ID_LIST
                  then rec1\<lparr>rec_svclass := extract_svclass_uuid data (rec_svclass rec1)\<rparr> else rec1)
      in sdp_attr_replace rec2 attr data)"

fun extract_attrs :: "nat \<Rightarrow> u8 list \<Rightarrow> nat \<Rightarrow> int \<Rightarrow> sdp_record \<Rightarrow> sdp_record option option" where
  "extract_attrs 0 p extracted seqlen rec = None"
| "extract_attrs (Suc f) p extracted seqlen rec =
     (if int extracted < seqlen \<and> length p > 0 then
        if length p < 1 + 2 then Some (Some rec)
        else and_then (Some (rd_be16 p 1)) (\<lambda>attr.
          and_then (sdp_extract_attr f (drop 3 p) (Some rec)) (\<lambda>(data, attrlen, rec').
            let rec1 = (case rec' of None \<Rightarrow> rec | Some r \<Rightarrow> r); n = 3 + attrlen
            in case data of
                 None \<Rightarrow> Some (Some rec1)
               | Some d \<Rightarrow> extract_attrs f (drop n p) (extracted + n) seqlen (store_attr attr d rec1)))
      else Some (Some rec))"

text \<open>A length near \<open>2 ^ 31\<close> makes the sum of the last statement overflow.\<close>

definition sdp_extract_pdu :: "nat \<Rightarrow> u8 list \<Rightarrow> (sdp_record \<times> int) option option" where
  "sdp_extract_pdu f buf =
     and_then (Some (sdp_extract_seqtype buf 0 0)) (\<lambda>(scanned, dtd, seqlen).
       and_then (extract_attrs f (drop scanned buf) 0 seqlen sdp_record_alloc) (\<lambda>rec.
         if int scanned + seqlen < 2 ^ 31 then Some (Some (rec, int scanned + seqlen)) else Some None))"

end
