(* ===== verification/Sdp_Gen.thy ===== *)
theory Sdp_Gen
  imports Sdp_Data
begin

text \<open>
  lib/sdp.c of the BlueZ tree, the half of it that writes: the size estimate of a data element,
  the element itself, the attribute list of a record and the sequences of a request.  A buffer
  is the bytes that were allocated for it; a write outside them is \<open>None\<close>.  Sizes are natural
  numbers, which is the code's arithmetic as long as they stay below \<open>2 ^ 31\<close>, and allocations
  succeed.
\<close>

unbundle bit_operations_syntax

section \<open>Sizes\<close>

record sdp_buf =
  buf_data :: "u8 list"
  data_size :: nat
  buf_size :: nat

definition sdp_get_data_type_size :: "u8 \<Rightarrow> nat" where
  "sdp_get_data_type_size t =
     (if t = SDP_SEQ8 \<or> t = SDP_TEXT_STR8 \<or> t = SDP_URL_STR8 \<or> t = SDP_ALT8 then 2
      else if t = SDP_SEQ16 \<or> t = SDP_TEXT_STR16 \<or> t = SDP_URL_STR16 \<or> t = SDP_ALT16 then 3
      else if t = SDP_SEQ32 \<or> t = SDP_TEXT_STR32 \<or> t = SDP_URL_STR32 \<or> t = SDP_ALT32 then 5
      else 1)"

text \<open>The cases of \<open>sdp_get_data_size\<close> without a recursive call.\<close>

definition scalar_size :: "u8 \<Rightarrow> nat" where
  "scalar_size t =
     (if t = SDP_UINT8 \<or> t = SDP_INT8 \<or> t = SDP_BOOL then 1
      else if t = SDP_UINT16 \<or> t = SDP_INT16 \<or> t = SDP_UUID16 then 2
      else if t = SDP_UINT32 \<or> t = SDP_INT32 \<or> t = SDP_UUID32 then 4
      else if t = SDP_UINT64 \<or> t = SDP_INT64 then 8
      else if t = SDP_UINT128 \<or> t = SDP_INT128 \<or> t = SDP_UUID128 then 16
      else 0)"

text \<open>
  \<open>sdp_gen_buffer\<close> adds up what an attribute may need, and does so again for every nested
  element.  The statement \<open>buf->buf_size += sdp_get_data_size(buf, d)\<close> calls a function that
  changes the field it adds to; whether the field is read before the call or after it is left
  to the compiler, and \<open>reread\<close> says which.
\<close>

fun sdp_gen_buffer :: "bool \<Rightarrow> nat \<Rightarrow> sdp_data \<Rightarrow> nat" where
  "sdp_gen_buffer reread sz (Sdp_scalar t v) =
     (let s0 = (if sz = 0 \<and> t = 0 then 2 else sz); s = s0 + 3 + sdp_get_data_type_size t + scalar_size t
      in if 255 < s \<and> t = SDP_SEQ8 then s + 1 else s)"
| "sdp_gen_buffer reread sz (Sdp_str t str) =
     (let s0 = (if sz = 0 \<and> t = 0 then 2 else sz); s = s0 + 3 + sdp_get_data_type_size t + length str
      in if 255 < s \<and> t = SDP_SEQ8 then s + 1 else s)"
| "sdp_gen_buffer reread sz (Sdp_seq t ds) =
     (let s0 = (if sz = 0 \<and> t = 0 then 2 else sz); s1 = s0 + 3 + sdp_get_data_type_size t;
          s2 = fold (\<lambda>d s. sdp_gen_buffer reread s d) ds s1;
          n = s2 - s1;
          s = (if reread then s2 else s1) + n
      in if 255 < s \<and> t = SDP_SEQ8 then s + 1 else s)"

section \<open>Writes\<close>

text \<open>A \<open>memcpy\<close> into a buffer.\<close>

definition put :: "u8 list \<Rightarrow> nat \<Rightarrow> u8 list \<Rightarrow> u8 list option" where
  "put data i src = (if i + length src \<le> length data then Some (overwrite data i src) else None)"

definition be_bytes64 :: "u64 \<Rightarrow> u8 list" where
  "be_bytes64 v = be_bytes32 (ucast (drop_bit 32 v)) @ be_bytes32 (ucast v)"

definition sdp_set_seq_len :: "u8 list \<Rightarrow> nat \<Rightarrow> nat \<Rightarrow> u8 list option" where
  "sdp_set_seq_len data i len = do {
     t \<leftarrow> rd data i;
     if t = SDP_SEQ8 \<or> t = SDP_ALT8 \<or> t = SDP_TEXT_STR8 \<or> t = SDP_URL_STR8 then
       wr data (i + 1) (of_nat len)
     else if t = SDP_SEQ16 \<or> t = SDP_ALT16 \<or> t = SDP_TEXT_STR16 \<or> t = SDP_URL_STR16 then
       put data (i + 1) (be_bytes16 (of_nat len))
     else if t = SDP_SEQ32 \<or> t = SDP_ALT32 \<or> t = SDP_TEXT_STR32 \<or> t = SDP_URL_STR32 then
       put data (i + 1) (be_bytes32 (of_nat len))
     else Some data
   }"

text \<open>
  What \<open>src\<close> points to, in network order; NULL for the type without a value.  The value of a
  scalar is in the member of the union that its type code names.
\<close>

fun scalar_src :: "sdp_scalar \<Rightarrow> u8 list option" where
  "scalar_src Val_none = None"
| "scalar_src (Val8 v) = Some [v]"
| "scalar_src (Val16 v) = Some (be_bytes16 v)"
| "scalar_src (Val32 v) = Some (be_bytes32 v)"
| "scalar_src (Val64 v) = Some (be_bytes64 v)"
| "scalar_src (Val128 d) = Some (rev d)"
| "scalar_src (Val_uuid (SDP_uuid16 v)) = Some (be_bytes16 v)"
| "scalar_src (Val_uuid (SDP_uuid32 v)) = Some (be_bytes32 v)"
| "scalar_src (Val_uuid (SDP_uuid128 d)) = Some d"
| "scalar_src (Val_uuid SDP_no_uuid) = None"

text \<open>The guarded copy; a refused one is logged only.\<close>

definition copy_src :: "sdp_buf \<Rightarrow> u8 list option \<Rightarrow> nat \<Rightarrow> sdp_buf option" where
  "copy_src buf src n =
     (case src of
        Some s \<Rightarrow>
          if data_size buf + n \<le> buf_size buf then do {
            bytes \<leftarrow> rds s 0 n;
            data \<leftarrow> put (buf_data buf) (data_size buf) bytes;
            Some (buf\<lparr>buf_data := data, data_size := data_size buf + n\<rparr>)
          }
          else Some buf
      | None \<Rightarrow> Some buf)"

text \<open>From \<open>*seqp = d->dtd\<close> to the end of \<open>sdp_gen_pdu\<close>.\<close>

fun gen_finish :: "sdp_buf \<Rightarrow> nat \<Rightarrow> sdp_data \<Rightarrow> nat \<Rightarrow> sdp_buf option" where
  "gen_finish buf seqp (Sdp_scalar t v) n = do {
     data \<leftarrow> wr (buf_data buf) seqp t;
     copy_src (buf\<lparr>buf_data := data\<rparr>) (scalar_src v) n
   }"
| "gen_finish buf seqp (Sdp_str t s) n = do {
     data \<leftarrow> wr (buf_data buf) seqp t;
     data' \<leftarrow> sdp_set_seq_len data seqp n;
     copy_src (buf\<lparr>buf_data := data'\<rparr>) (Some s) n
   }"
| "gen_finish buf seqp (Sdp_seq t ds) n = do {
     data \<leftarrow> wr (buf_data buf) seqp t;
     data' \<leftarrow> sdp_set_seq_len data seqp n;
     Some (buf\<lparr>buf_data := data'\<rparr>)
   }"

fun set_dtd :: "u8 \<Rightarrow> sdp_data \<Rightarrow> sdp_data" where
  "set_dtd t (Sdp_scalar t' v) = Sdp_scalar t v"
| "set_dtd t (Sdp_str t' s) = Sdp_str t s"
| "set_dtd t (Sdp_seq t' ds) = Sdp_seq t ds"

text \<open>
  \<open>sdp_gen_pdu\<close> writes the elements of a sequence before its header, and starts again with a
  longer header where a short one does not hold the length.  The element is returned with the
  type codes it was left with.  The fuel bounds the nesting and the jumps back.
\<close>

fun sdp_gen_pdu :: "nat \<Rightarrow> sdp_buf \<Rightarrow> sdp_data \<Rightarrow> (sdp_buf \<times> sdp_data \<times> nat) option option"
  and sdp_get_data_size :: "nat \<Rightarrow> sdp_buf \<Rightarrow> sdp_data \<Rightarrow> (sdp_buf \<times> sdp_data \<times> nat) option option"
  and get_data_size :: "nat \<Rightarrow> sdp_buf \<Rightarrow> sdp_data list \<Rightarrow> (sdp_buf \<times> sdp_data list \<times> nat) option option"
where
  "sdp_gen_pdu 0 buf d = None"
| "sdp_gen_pdu (Suc f) buf d =
     (let seqp = data_size buf;
          pdu_size = sdp_get_data_type_size (dtd d)
      in and_then (sdp_get_data_size f (buf\<lparr>data_size := seqp + pdu_size\<rparr>) d) (\<lambda>(buf1, d1, n).
           if 255 < n \<and> dtd d1 = SDP_SEQ8
           then sdp_gen_pdu f (buf1\<lparr>data_size := seqp\<rparr>) (set_dtd SDP_SEQ16 d1)
           else Some (map_option (\<lambda>buf2. (buf2, d1, pdu_size + n)) (gen_finish buf1 seqp d1 n))))"
| "sdp_get_data_size 0 buf d = None"
| "sdp_get_data_size (Suc f) buf d =
     (case d of
        Sdp_scalar t v \<Rightarrow> Some (Some (buf, d, scalar_size t))
      | Sdp_str t s \<Rightarrow> Some (Some (buf, d, length s))
      | Sdp_seq t ds \<Rightarrow> and_then (get_data_size f buf ds) (\<lambda>(buf', ds', n). Some (Some (buf', Sdp_seq t ds', n))))"
| "get_data_size 0 buf ds = None"
| "get_data_size (Suc f) buf ds =
     (case ds of
        [] \<Rightarrow> Some (Some (buf, [], 0))
      | d # ds1 \<Rightarrow> and_then (sdp_gen_pdu f buf d) (\<lambda>(buf1, d', n).
          and_then (get_data_size f buf1 ds1) (\<lambda>(buf2, ds', n').
            Some (Some (buf2, d' # ds', n + n')))))"

section \<open>Attribute lists\<close>

text \<open>The buffers of \<open>malloc\<close> hold what the heap held.\<close>

definition alloc :: "(nat \<Rightarrow> u8) \<Rightarrow> nat \<Rightarrow> sdp_buf" where
  "alloc heap n = \<lparr>buf_data = map heap [0..<n], data_size = 0, buf_size = n\<rparr>"

definition sdp_set_attrid :: "sdp_buf \<Rightarrow> u16 \<Rightarrow> sdp_buf option" where
  "sdp_set_attrid buf attr = do {
     data \<leftarrow> put (buf_data buf) 0 (SDP_UINT16 # be_bytes16 attr);
     Some (buf\<lparr>buf_data := data, data_size := 3\<rparr>)
   }"

text \<open>The last step of \<open>sdp_append_to_buf\<close> writes the length of the outer sequence.\<close>

definition outer_len :: "sdp_buf \<Rightarrow> sdp_buf option" where
  "outer_len dst = do {
     t \<leftarrow> rd (buf_data dst) 0;
     data \<leftarrow> (if t = SDP_SEQ8 then wr (buf_data dst) 1 (of_nat (data_size dst - 2))
              else if t = SDP_SEQ16 then put (buf_data dst) 1 (be_bytes16 (of_nat (data_size dst - 3)))
              else if t = SDP_SEQ32 then put (buf_data dst) 1 (be_bytes32 (of_nat (data_size dst - 5)))
              else Some (buf_data dst));
     Some (dst\<lparr>buf_data := data\<rparr>)
   }"

definition widen :: "sdp_buf \<Rightarrow> sdp_buf option" where
  "widen dst = do {
     t \<leftarrow> rd (buf_data dst) 0;
     if 255 < data_size dst \<and> t = SDP_SEQ8 then do {
       body \<leftarrow> rds (buf_data dst) 2 (data_size dst - 2);
       data \<leftarrow> put (buf_data dst) 3 body;
       data' \<leftarrow> wr data 0 SDP_SEQ16;
       Some (dst\<lparr>buf_data := data', data_size := data_size dst + 1\<rparr>)
     }
     else Some dst
   }"

definition sdp_append_to_buf :: "sdp_buf \<Rightarrow> u8 list \<Rightarrow> sdp_buf option" where
  "sdp_append_to_buf dst bytes = do {
     t \<leftarrow> rd (buf_data dst) 0;
     if buf_size dst < data_size dst + length bytes then Some dst
     else do {
       dst1 \<leftarrow> (if data_size dst = 0 \<and> t = 0 then do {
                   data \<leftarrow> wr (buf_data dst) 0 SDP_SEQ8;
                   Some (dst\<lparr>buf_data := data, data_size := 2\<rparr>)
                 }
                 else Some dst);
       data \<leftarrow> put (buf_data dst1) (data_size dst1) bytes;
       dst2 \<leftarrow> widen (dst1\<lparr>buf_data := data, data_size := data_size dst1 + length bytes\<rparr>);
       outer_len dst2
     }
   }"

definition sdp_append_to_pdu :: "bool \<Rightarrow> (nat \<Rightarrow> u8) \<Rightarrow> nat \<Rightarrow> sdp_buf \<Rightarrow> u16 \<times> sdp_data \<Rightarrow> sdp_buf option option" where
  "sdp_append_to_pdu reread heap f pdu ad =
     (case ad of (attr, d) \<Rightarrow>
        and_then (Some (sdp_set_attrid (alloc heap (sdp_gen_buffer reread 0 d)) attr)) (\<lambda>buf.
          and_then (sdp_gen_pdu f buf d) (\<lambda>(buf', d', n).
            Some (sdp_append_to_buf pdu (take (data_size buf') (buf_data buf'))))))"

fun append_attrs :: "bool \<Rightarrow> (nat \<Rightarrow> u8) \<Rightarrow> nat \<Rightarrow> sdp_buf \<Rightarrow> (u16 \<times> sdp_data) list \<Rightarrow> sdp_buf option option" where
  "append_attrs reread heap f pdu [] = Some (Some pdu)"
| "append_attrs reread heap f pdu (ad # ads) =
     and_then (sdp_append_to_pdu reread heap f pdu ad) (\<lambda>pdu'. append_attrs reread heap f pdu' ads)"

definition sdp_gen_record_pdu :: "bool \<Rightarrow> (nat \<Rightarrow> u8) \<Rightarrow> nat \<Rightarrow> sdp_record \<Rightarrow> sdp_buf option option" where
  "sdp_gen_record_pdu reread heap f rec =
     append_attrs reread heap f
       (alloc (\<lambda>i. 0) (fold (\<lambda>ad s. sdp_gen_buffer reread s (snd ad)) (rec_attrlist rec) 0)) (rec_attrlist rec)"

section \<open>Sequences of a request\<close>

text \<open>
  \<open>gen_dataseq_pdu\<close> makes one sequence of elements of the same type; the values are those that
  \<open>sdp_data_alloc\<close> has read through the pointers of the list.
\<close>

definition gen_dataseq_pdu :: "bool \<Rightarrow> (nat \<Rightarrow> u8) \<Rightarrow> nat \<Rightarrow> sdp_data list \<Rightarrow> (u8 list \<times> nat) option option" where
  "gen_dataseq_pdu reread heap f ds =
     and_then (sdp_gen_pdu f (alloc heap (sdp_gen_buffer reread 0 (Sdp_seq SDP_SEQ8 ds))) (Sdp_seq SDP_SEQ8 ds))
       (\<lambda>(buf, d, seqlen). Some (Some (take (data_size buf) (buf_data buf), seqlen)))"

fun uuid_elem :: "sdp_uuid \<Rightarrow> sdp_data" where
  "uuid_elem (SDP_uuid16 v) = Sdp_scalar SDP_UUID16 (Val_uuid (SDP_uuid16 v))"
| "uuid_elem (SDP_uuid32 v) = Sdp_scalar SDP_UUID32 (Val_uuid (SDP_uuid32 v))"
| "uuid_elem (SDP_uuid128 d) = Sdp_scalar SDP_UUID128 (Val_uuid (SDP_uuid128 d))"
| "uuid_elem SDP_no_uuid = Sdp_scalar SDP_DATA_NIL Val_none"

end
