(* ===== verification/Sdp_Extract.thy ===== *)
theory Sdp_Extract
  imports Sdp_Data "HOL-Library.Sublist"
begin

text \<open>
  The extraction of data elements: it never reads outside the response, it never counts more
  bytes than the response has, and it returns after a number of steps that is linear in the
  length of the response, unless a sequence header is cut off inside a sequence.
\<close>

unbundle bit_operations_syntax

section \<open>Reads and counts\<close>

lemma extract_int_bounds: "\<exists>e n. extract_int p = Some (e, n) \<and> n \<le> length p \<and> (e \<noteq> None \<longrightarrow> 0 < n)"
  by (cases p) (auto simp: extract_int_def Let_def Suc_le_eq)

lemma sdp_uuid_extract_bounds:
  "\<exists>e n. sdp_uuid_extract p = Some (e, n) \<and> n \<le> length p \<and> (e \<noteq> None \<longrightarrow> 0 < n)"
  by (cases p) (auto simp: sdp_uuid_extract_def Let_def Suc_le_eq)

lemma extract_str_bounds: "\<exists>e n. extract_str p = Some (e, n) \<and> n \<le> length p \<and> (e \<noteq> None \<longrightarrow> 0 < n)"
  by (cases p) (auto simp: extract_str_def Let_def Suc_le_eq)

lemma sdp_extract_seqtype_bounds:
  "\<exists>len d n. sdp_extract_seqtype p dtdp size = Some (len, d, n) \<and> len \<le> length p \<and> (len = 0 \<or> 2 \<le> len)"
  for size :: int
  by (cases p) (auto simp: sdp_extract_seqtype_def Let_def Suc_le_eq)

text \<open>What every call that returns gives back.\<close>

definition attr_bounds :: "u8 list \<Rightarrow> sdp_record option \<Rightarrow> (sdp_data option \<times> nat \<times> sdp_record option) option \<Rightarrow> bool" where
  "attr_bounds p rec r \<longleftrightarrow> (\<exists>e n rec'. r = Some (e, n, rec') \<and> n \<le> length p \<and> (rec' = None \<longleftrightarrow> rec = None))"

lemma attr_boundsI: "n \<le> length p \<Longrightarrow> (rec' = None \<longleftrightarrow> rec = None) \<Longrightarrow> attr_bounds p rec (Some (e, n, rec'))"
  by (simp add: attr_bounds_def)

lemma extract_uuid_bounds:
  "attr_bounds p rec (extract_uuid p rec)"
  "extract_uuid p rec = Some (Some d, n, rec') \<Longrightarrow> 0 < n"
proof -
  obtain e n' where u: "sdp_uuid_extract p = Some (e, n')" "n' \<le> length p" "e \<noteq> None \<longrightarrow> 0 < n'"
    using sdp_uuid_extract_bounds by blast
  then show "attr_bounds p rec (extract_uuid p rec)"
    by (cases e; cases p) (auto simp: extract_uuid_def intro: attr_boundsI)
  show "extract_uuid p rec = Some (Some d, n, rec') \<Longrightarrow> 0 < n"
    using u by (cases e; cases p) (auto simp: extract_uuid_def)
qed

lemma extraction_bounds:
  "sdp_extract_attr f p rec = Some r \<Longrightarrow> attr_bounds p rec r"
  "extract_seq f p rec = Some r \<Longrightarrow> attr_bounds p rec r"
  "extract_elems f p n seqlen rec = Some r' \<Longrightarrow>
     \<exists>ds n' rec'. r' = Some (ds, n', rec') \<and> n \<le> n' \<and> n' \<le> n + length p \<and> (rec' = None \<longleftrightarrow> rec = None)"
proof (induction f p rec and f p rec and f p n seqlen rec arbitrary: r and r and r'
    rule: sdp_extract_attr_extract_seq_extract_elems.induct)
  case (2 f p rec)
  obtain e n where i: "extract_int p = Some (e, n)" "n \<le> length p"
    using extract_int_bounds by blast
  obtain e' n' where s: "extract_str p = Some (e', n')" "n' \<le> length p"
    using extract_str_bounds by blast
  show ?case
    using "2.IH" "2.prems" i s extract_uuid_bounds(1) [of p rec]
    by (cases "p = []") (auto intro: attr_boundsI split: if_splits)
next
  case (4 f p rec)
  obtain len d n where h: "sdp_extract_seqtype p 0 0 = Some (len, d, n)" "len \<le> length p"
    using sdp_extract_seqtype_bounds by blast
  show ?case
    using "4.prems" h "4.IH" [of len n]
    by (auto simp: and_then_eq_Some attr_bounds_def split: if_splits)
next
  case (6 f p n seqlen rec)
  show ?case
  proof (cases "int n < seqlen")
    case True
    then obtain e len rec' where a: "sdp_extract_attr f p rec = Some (Some (e, len, rec'))" "len \<le> length p"
        "rec' = None \<longleftrightarrow> rec = None"
      using "6.IH"(1) "6.prems" by (auto simp: and_then_eq_Some attr_bounds_def)
    show ?thesis
    proof (cases e)
      case None
      then show ?thesis
        using True a "6.prems" by auto
    next
      case (Some d)
      then show ?thesis
        using True a "6.prems" "6.IH"(2) [OF True, of e d len rec']
        by (fastforce simp: and_then_eq_Some)
    qed
  qed (use "6.prems" in auto)
qed auto

section \<open>More fuel\<close>

text \<open>A run that has returned, and the same run with more fuel.\<close>

definition grows_to :: "'a option \<Rightarrow> 'a option \<Rightarrow> bool" where
  "grows_to m m' \<longleftrightarrow> m = None \<or> m = m'"

lemma grows_toD: "grows_to m m' \<Longrightarrow> m = Some r \<Longrightarrow> m' = Some r"
  by (auto simp: grows_to_def)

lemma grows_to_refl: "grows_to m m"
  by (simp add: grows_to_def)

lemma grows_to_None: "grows_to None m"
  by (simp add: grows_to_def)

lemma grows_to_and_then: "grows_to m m' \<Longrightarrow> (\<And>x. grows_to (k x) (k' x)) \<Longrightarrow> grows_to (and_then m k) (and_then m' k')"
  by (auto simp: grows_to_def and_then_def split: option.splits)

lemma grows_to_if: "(b \<Longrightarrow> grows_to m m') \<Longrightarrow> (\<not> b \<Longrightarrow> grows_to n n') \<Longrightarrow> grows_to (if b then m else n) (if b then m' else n')"
  by simp

lemma grows_to_case_option:
  "grows_to m m' \<Longrightarrow> (\<And>x. grows_to (k x) (k' x)) \<Longrightarrow> grows_to (case_option m k c) (case_option m' k' c)"
  by (cases c) simp_all

lemma grows_to_case_prod: "(\<And>x y. grows_to (k x y) (k' x y)) \<Longrightarrow> grows_to (case_prod k c) (case_prod k' c)"
  by (cases c) simp_all

lemmas grows_to_intros = grows_to_refl grows_to_None grows_to_and_then grows_to_if grows_to_case_option grows_to_case_prod

lemma extraction_grows:
  "f \<le> g \<Longrightarrow>
   grows_to (sdp_extract_attr f p rec) (sdp_extract_attr g p rec) \<and>
   grows_to (extract_seq f p rec) (extract_seq g p rec) \<and>
   grows_to (extract_elems f p n seqlen rec) (extract_elems g p n seqlen rec)"
proof (induction f arbitrary: g p rec n seqlen)
  case 0
  show ?case
    by (simp add: grows_to_None)
next
  case (Suc f)
  then obtain h where g: "g = Suc h" "f \<le> h"
    by (cases g) auto
  note ih = Suc.IH [OF g(2), THEN conjunct1] Suc.IH [OF g(2), THEN conjunct2, THEN conjunct1]
    Suc.IH [OF g(2), THEN conjunct2, THEN conjunct2]
  show ?case
    unfolding g sdp_extract_attr.simps(2) extract_seq.simps(2) extract_elems.simps(2)
    by (intro conjI grows_to_intros ih)
qed

lemmas sdp_extract_attr_mono = grows_toD [OF extraction_grows [THEN conjunct1]]
lemmas extract_elems_mono = grows_toD [OF extraction_grows [THEN conjunct2, THEN conjunct2]]

lemma extract_attrs_grows: "f \<le> g \<Longrightarrow> grows_to (extract_attrs f p n seqlen rec) (extract_attrs g p n seqlen rec)"
proof (induction f arbitrary: g p n seqlen rec)
  case (Suc f)
  then obtain h where g: "g = Suc h" "f \<le> h"
    by (cases g) auto
  show ?case
    unfolding g extract_attrs.simps(2) Let_def
    by (intro grows_to_intros Suc.IH [OF g(2)] extraction_grows [OF g(2), THEN conjunct1])
qed (simp add: grows_to_None)

lemmas extract_attrs_mono = grows_toD [OF extract_attrs_grows]

lemma sdp_extract_pdu_mono: "f \<le> g \<Longrightarrow> sdp_extract_pdu f p = Some r \<Longrightarrow> sdp_extract_pdu g p = Some r"
  by (rule grows_toD [where m = "sdp_extract_pdu f p"], unfold sdp_extract_pdu_def)
    (intro grows_to_intros extract_attrs_grows)

section \<open>Enough fuel\<close>

text \<open>A sequence header of which the buffer holds less than its length says.\<close>

definition cut_header :: "u8 list \<Rightarrow> bool" where
  "cut_header p \<longleftrightarrow> p \<noteq> [] \<and> (sdp_is_seq (hd p) \<or> sdp_is_alt (hd p)) \<and>
     length p < (if hd p = SDP_SEQ8 \<or> hd p = SDP_ALT8 then 2 else if hd p = SDP_SEQ16 \<or> hd p = SDP_ALT16 then 3 else 5)"

definition no_cut :: "u8 list \<Rightarrow> bool" where
  "no_cut p \<longleftrightarrow> (\<forall>s\<in>set (suffixes p). \<not> cut_header s)"

lemma no_cut_drop: "no_cut p \<Longrightarrow> no_cut (drop n p)"
  using suffix_order.trans [OF _ suffix_drop, of _ n p] by (auto simp: no_cut_def)

lemma no_cut_self: "no_cut p \<Longrightarrow> \<not> cut_header p"
  by (auto simp: no_cut_def)

lemma no_cut_tl: "no_cut (tl p) \<Longrightarrow> 0 < n \<Longrightarrow> no_cut (drop n p)"
  using no_cut_drop [of "tl p" "n - 1"] by (cases n) (simp_all add: drop_Suc)

lemma sdp_extract_seqtype_cut:
  "sdp_extract_seqtype p 0 0 = Some (0, d, n) \<Longrightarrow> p \<noteq> [] \<Longrightarrow> sdp_is_seq (hd p) \<or> sdp_is_alt (hd p) \<Longrightarrow> cut_header p"
  by (cases p) (auto simp: sdp_extract_seqtype_def cut_header_def sdp_is_seq_def sdp_is_alt_def Let_def split: if_splits)

text \<open>An element takes at least one byte, but for a header that is cut off.\<close>

lemma sdp_extract_attr_progress:
  assumes "sdp_extract_attr f p rec = Some (Some (Some d, n, rec'))" "\<not> cut_header p"
  shows "0 < n"
proof (cases f)
  case (Suc g)
  obtain x q where p: "p = x # q"
    using assms Suc by (cases p) auto
  have "0 < n" if seq: "sdp_is_seq x \<or> sdp_is_alt x" and g: "extract_seq g p rec = Some (Some (Some d, n, rec'))"
  proof -
    obtain len t m where h: "sdp_extract_seqtype p 0 0 = Some (len, t, m)"
      using sdp_extract_seqtype_bounds by blast
    moreover have "len \<noteq> 0"
      using sdp_extract_seqtype_cut [of p t m] h seq assms(2) p by auto
    ultimately show ?thesis
      using g by (cases g) (auto simp: and_then_eq_Some split: if_splits)
  qed
  then show ?thesis
    using assms Suc p extract_int_bounds [of p] extract_str_bounds [of p] extract_uuid_bounds(2) [of p rec d n rec']
    by (auto split: if_splits)
qed (use assms in simp)

text \<open>Three steps for each byte: the loop, the element and the sequence header.\<close>

lemma extraction_returns:
  "3 * length p + 1 \<le> f \<Longrightarrow> no_cut (tl p) \<Longrightarrow> \<exists>r. sdp_extract_attr f p rec = Some (Some r)"
  "3 * length p \<le> f \<Longrightarrow> no_cut (tl p) \<Longrightarrow> p \<noteq> [] \<Longrightarrow> \<exists>r. extract_seq f p rec = Some (Some r)"
  "3 * length p + 2 \<le> f \<Longrightarrow> no_cut p \<Longrightarrow> \<exists>r. extract_elems f p n seqlen rec = Some (Some r)"
proof (induction f p rec and f p rec and f p n seqlen rec rule: sdp_extract_attr_extract_seq_extract_elems.induct)
  case (2 f p rec)
  obtain e n where i: "extract_int p = Some (e, n)"
    using extract_int_bounds by blast
  obtain e' n' where s: "extract_str p = Some (e', n')"
    using extract_str_bounds by blast
  show ?case
    using "2.IH" "2.prems" i s extract_uuid_bounds(1) [of p rec]
    by (cases p) (auto simp: attr_bounds_def)
next
  case (4 f p rec)
  obtain len d n where h: "sdp_extract_seqtype p 0 0 = Some (len, d, n)" "len \<le> length p" "len = 0 \<or> 2 \<le> len"
    using sdp_extract_seqtype_bounds by blast
  show ?case
  proof (cases "len = 0")
    case False
    then have "3 * length (drop len p) + 2 \<le> f" "no_cut (drop len p)"
      using h "4.prems" by (auto intro: no_cut_tl)
    then obtain r where "extract_elems f (drop len p) 0 n rec = Some (Some r)"
      using "4.IH" [of len n] False h by auto
    then show ?thesis
      using h False by (cases r) auto
  qed (use h in auto)
next
  case (6 f p n seqlen rec)
  show ?case
  proof (cases "int n < seqlen")
    case True
    then obtain e len rec' where a: "sdp_extract_attr f p rec = Some (Some (e, len, rec'))"
      using "6.IH"(1) "6.prems" no_cut_drop [of p 1] by (auto simp: drop_Suc)
    then have len: "len \<le> length p"
      using extraction_bounds(1) by (auto simp: attr_bounds_def)
    show ?thesis
    proof (cases e)
      case None
      then show ?thesis
        using True a by simp
    next
      case (Some d)
      then have "0 < len"
        using sdp_extract_attr_progress a no_cut_self "6.prems" by blast
      then have "3 * length (drop len p) + 2 \<le> f" "no_cut (drop len p)"
        using len "6.prems" no_cut_drop by auto
      then obtain r where "extract_elems f (drop len p) (n + len) seqlen rec' = Some (Some r)"
        using "6.IH"(2) [OF True, of e d len rec'] Some by auto
      then show ?thesis
        using True a Some by (cases r) auto
    qed
  qed simp
qed (auto simp: no_cut_def)

lemma extract_attrs_returns:
  "3 * length p + 2 \<le> f \<Longrightarrow> no_cut p \<Longrightarrow> \<exists>rec'. extract_attrs f p n seqlen rec = Some (Some rec')"
proof (induction f arbitrary: p n rec)
  case (Suc f)
  show ?case
  proof (cases "int n < seqlen \<and> 3 \<le> length p")
    case True
    have "3 * length (drop 3 p) + 1 \<le> f" "no_cut (tl (drop 3 p))"
      using Suc.prems True no_cut_drop [of p 4] by (auto simp: tl_drop [symmetric] drop_Suc numeral_eq_Suc)
    then obtain e len rec' where a: "sdp_extract_attr f (drop 3 p) (Some rec) = Some (Some (e, len, rec'))"
      using extraction_returns(1) by (metis prod_cases3)
    have "3 * length (drop (3 + len) p) + 2 \<le> f" "no_cut (drop (3 + len) p)"
      using Suc.prems True no_cut_drop by auto
    note ih = Suc.IH [OF this]
    show ?thesis
      using True a ih by (cases e; cases "p = []") (auto simp: Let_def)
  qed (auto simp: not_less)
qed simp

text \<open>Nothing outside the response is read, and only the size of the record can overflow.\<close>

lemma extract_attrs_reads: "extract_attrs f p n seqlen rec \<noteq> Some None"
proof (induction f arbitrary: p n rec)
  case (Suc f)
  have "sdp_extract_attr f (drop 3 p) (Some rec) \<noteq> Some None"
    using extraction_bounds(1) by (auto simp: attr_bounds_def)
  then show ?case
    using Suc.IH by (auto simp: Let_def and_then_eq_Some split: option.splits)
qed simp

theorem sdp_extract_pdu_reads:
  assumes "sdp_extract_pdu f buf = Some None"
  shows "\<exists>d n. sdp_extract_seqtype buf 0 0 = Some (5, d, n) \<and> 2 ^ 31 - 5 \<le> n"
proof -
  obtain len d n where h: "sdp_extract_seqtype buf 0 0 = Some (len, d, n)"
    using sdp_extract_seqtype_bounds by blast
  then have "2 ^ 31 \<le> int len + n"
    using assms extract_attrs_reads by (auto simp: sdp_extract_pdu_def and_then_eq_Some split: if_splits)
  moreover have "uint b < 65536" "uint w < 65536" for b :: u8 and w :: u16
    using uint_lt2p [of b] uint_lt2p [of w] by simp_all
  then have "len = 5 \<or> n < 65536 \<and> len \<le> 3"
    using h by (cases buf) (auto simp: sdp_extract_seqtype_def Let_def split: if_splits)
  ultimately show ?thesis
    using h by auto
qed

theorem sdp_extract_pdu_returns:
  assumes "no_cut buf"
  shows "sdp_extract_pdu (3 * length buf + 2) buf \<noteq> None"
proof -
  obtain len d n where h: "sdp_extract_seqtype buf 0 0 = Some (len, d, n)"
    using sdp_extract_seqtype_bounds by blast
  have "\<exists>rec'. extract_attrs (3 * length buf + 2) (drop len buf) 0 n sdp_record_alloc = Some (Some rec')"
    by (rule extract_attrs_returns) (use assms no_cut_drop in auto)
  then show ?thesis
    using h by (auto simp: sdp_extract_pdu_def)
qed

end
