(* ===== verification/Sdp_Coding.thy ===== *)
theory Sdp_Coding
  imports Sdp_Gen Sdp_Extract
begin

text \<open>
  The encoding of data elements as a function of the element alone, the two halves of lib/sdp.c
  against it: the generator writes the encoding and nothing else, within the estimate it made,
  and the extraction reads the element back.
\<close>

unbundle bit_operations_syntax

section \<open>The encoding\<close>

definition len_bytes :: "u8 \<Rightarrow> nat \<Rightarrow> u8 list" where
  "len_bytes t n =
     (if sdp_get_data_type_size t = 2 then [of_nat n]
      else if sdp_get_data_type_size t = 3 then be_bytes16 (of_nat n)
      else if sdp_get_data_type_size t = 5 then be_bytes32 (of_nat n)
      else [])"

definition header :: "u8 \<Rightarrow> nat \<Rightarrow> u8 list" where
  "header t n = t # len_bytes t n"

definition seq_code :: "u8 \<Rightarrow> nat \<Rightarrow> u8" where
  "seq_code t n = (if t = SDP_SEQ8 \<and> 255 < n then SDP_SEQ16 else t)"

fun enc :: "sdp_data \<Rightarrow> u8 list" where
  "enc (Sdp_scalar t v) = t # (case scalar_src v of None \<Rightarrow> [] | Some s \<Rightarrow> s)"
| "enc (Sdp_str t s) = header t (length s) @ s"
| "enc (Sdp_seq t ds) = (let body = concat (map enc ds); n = length body in header (seq_code t n) n @ body)"

text \<open>The element with the type codes that the encoding has.\<close>

fun promote :: "sdp_data \<Rightarrow> sdp_data" where
  "promote (Sdp_scalar t v) = Sdp_scalar t v"
| "promote (Sdp_str t s) = Sdp_str t s"
| "promote (Sdp_seq t ds) = Sdp_seq (seq_code t (length (concat (map enc ds)))) (map promote ds)"

text \<open>Elements whose value is of the type that the code names and fits its length field.\<close>

fun scalar_ok :: "u8 \<Rightarrow> sdp_scalar \<Rightarrow> bool" where
  "scalar_ok t Val_none = (t = SDP_DATA_NIL)"
| "scalar_ok t (Val8 v) = (t = SDP_UINT8 \<or> t = SDP_INT8 \<or> t = SDP_BOOL)"
| "scalar_ok t (Val16 v) = (t = SDP_UINT16 \<or> t = SDP_INT16)"
| "scalar_ok t (Val32 v) = (t = SDP_UINT32 \<or> t = SDP_INT32)"
| "scalar_ok t (Val64 v) = (t = SDP_UINT64 \<or> t = SDP_INT64)"
| "scalar_ok t (Val128 d) = ((t = SDP_UINT128 \<or> t = SDP_INT128) \<and> length d = 16)"
| "scalar_ok t (Val_uuid (SDP_uuid16 v)) = (t = SDP_UUID16)"
| "scalar_ok t (Val_uuid (SDP_uuid32 v)) = (t = SDP_UUID32)"
| "scalar_ok t (Val_uuid (SDP_uuid128 d)) = (t = SDP_UUID128 \<and> length d = 16)"
| "scalar_ok t (Val_uuid SDP_no_uuid) = False"

definition str_fits :: "u8 \<Rightarrow> nat \<Rightarrow> bool" where
  "str_fits t n \<longleftrightarrow> (t = SDP_TEXT_STR8 \<or> t = SDP_URL_STR8) \<and> n \<le> 255 \<or>
     (t = SDP_TEXT_STR16 \<or> t = SDP_URL_STR16) \<and> n \<le> 65535"

definition seq_fits :: "u8 \<Rightarrow> nat \<Rightarrow> bool" where
  "seq_fits t n \<longleftrightarrow> (t = SDP_SEQ8 \<or> t = SDP_SEQ16 \<or> t = SDP_ALT16) \<and> n \<le> 65535 \<or>
     t = SDP_ALT8 \<and> n \<le> 255 \<or> (t = SDP_SEQ32 \<or> t = SDP_ALT32) \<and> n < 2 ^ 31"

fun sdp_ok :: "sdp_data \<Rightarrow> bool" where
  "sdp_ok (Sdp_scalar t v) = scalar_ok t v"
| "sdp_ok (Sdp_str t s) = str_fits t (length s)"
| "sdp_ok (Sdp_seq t ds) = ((\<forall>d\<in>set ds. sdp_ok d) \<and> seq_fits t (length (concat (map enc ds))))"

named_theorems code_simps \<open>the type codes of the standard\<close>

declare sdp_is_uuid_def [code_simps] sdp_is_seq_def [code_simps] sdp_is_alt_def [code_simps] int_code_def [code_simps]
  str_code_def [code_simps] sdp_get_data_type_size_def [code_simps] scalar_size_def [code_simps]

lemma seq_fits_code: "seq_fits t n \<Longrightarrow> sdp_is_seq t \<or> sdp_is_alt t"
  by (auto simp: seq_fits_def code_simps)

lemma seq_fits_seq_code: "seq_fits t n \<Longrightarrow> seq_fits (seq_code t n) n"
  by (auto simp: seq_fits_def seq_code_def)

lemma enc_promote [simp]: "enc (promote d) = enc d"
proof (induction d)
  case (Sdp_seq t ds)
  then have eq: "map (enc \<circ> promote) ds = map enc ds"
    by simp
  show ?case
    by (simp add: seq_code_def Let_def eq)
qed simp_all

lemma promote_promote [simp]: "promote (promote d) = promote d"
proof (induction d)
  case (Sdp_seq t ds)
  then show ?case
    by (simp add: seq_code_def comp_def)
qed simp_all

lemma sdp_ok_promote: "sdp_ok d \<Longrightarrow> sdp_ok (promote d)"
proof (induction d)
  case (Sdp_seq t ds)
  then show ?case
    by (simp add: comp_def seq_fits_seq_code)
qed simp_all

lemma length_be_bytes [simp]:
  "length (be_bytes16 v) = 2" "length (be_bytes32 w) = 4" "length (be_bytes64 x) = 8"
  by (simp_all add: be_bytes16_def be_bytes32_def be_bytes64_def)

lemma length_header [simp]: "length (header t n) = sdp_get_data_type_size t"
  by (auto simp: header_def len_bytes_def sdp_get_data_type_size_def)

lemma scalar_src_size:
  "scalar_ok t v \<Longrightarrow> (case scalar_src v of None \<Rightarrow> scalar_size t = 0 | Some s \<Rightarrow> length s = scalar_size t)"
  by (cases "(t, v)" rule: scalar_ok.cases) (auto simp: scalar_size_def)

lemma enc_not_empty: "0 < length (enc d)"
  by (cases d) (auto simp: header_def Let_def)

section \<open>Overwriting\<close>

named_theorems put_simps \<open>writes that meet\<close>

lemma overwrite_after [put_simps]:
  "i + length s + length t \<le> length data \<Longrightarrow> overwrite (overwrite data i s) (i + length s) t = overwrite data i (s @ t)"
  by (cases s) (auto simp: overwrite_def min_def ac_simps)

lemma overwrite_before [put_simps]:
  "i + length s + length t \<le> length data \<Longrightarrow> overwrite (overwrite data (i + length s) t) i s = overwrite data i (s @ t)"
  by (simp add: overwrite_def min_def ac_simps)

lemma overwrite_within:
  assumes "j \<le> i" "i + length s \<le> j + length t" "j + length t \<le> length data"
  shows "overwrite (overwrite data i s) j t = overwrite data j t"
proof -
  have i: "i \<le> length data" "length (take i data @ s) \<le> j + length t"
    using assms by auto
  then have "drop (j + length t) ((take i data @ s) @ drop (i + length s) data) = drop (j + length t) data"
    unfolding drop_append using assms by (simp add: min_def)
  then show ?thesis
    using assms i by (simp add: overwrite_def min_def)
qed

lemma put_Some [put_simps]: "i + length s \<le> length data \<Longrightarrow> put data i s = Some (overwrite data i s)"
  by (simp add: put_def)

lemma update_overwrite: "i < length data \<Longrightarrow> data[i := b] = overwrite data i [b]"
  by (simp add: overwrite_def upd_conv_take_nth_drop)

lemma nth_overwrite: "i + length s \<le> length data \<Longrightarrow> j < length s \<Longrightarrow> overwrite data i s ! (i + j) = s ! j"
  by (simp add: overwrite_def nth_append)

lemma take_overwrite_end: "i + length s \<le> length data \<Longrightarrow> take (i + length s) (overwrite data i s) = take i data @ s"
  by (cases s) (auto simp: overwrite_def min_def)

text \<open>The header goes before the body that is there.\<close>

lemma write_header:
  assumes "i + sdp_get_data_type_size t \<le> length data" "str_code t \<or> sdp_is_seq t \<or> sdp_is_alt t"
  shows "do { data' \<leftarrow> wr data i t; sdp_set_seq_len data' i n } = Some (overwrite data i (header t n))"
proof -
  have "sdp_set_seq_len (overwrite data i [t]) i n = Some (overwrite (overwrite data i [t]) (i + length [t]) (len_bytes t n))"
    using assms nth_overwrite [of i "[t]" data 0]
    by (auto simp: sdp_set_seq_len_def len_bytes_def put_simps code_simps update_overwrite)
  then show ?thesis
    using assms overwrite_after [of i "[t]" "len_bytes t n" data] length_header [of t n]
    by (simp add: update_overwrite header_def sdp_get_data_type_size_def split: if_splits)
qed

section \<open>The generator writes the encoding\<close>

definition written :: "sdp_buf \<Rightarrow> u8 list \<Rightarrow> sdp_buf" where
  "written buf bs = buf\<lparr>buf_data := overwrite (buf_data buf) (data_size buf) bs, data_size := data_size buf + length bs\<rparr>"

definition room :: "sdp_buf \<Rightarrow> nat \<Rightarrow> bool" where
  "room buf n \<longleftrightarrow> buf_size buf = length (buf_data buf) \<and> data_size buf + n \<le> buf_size buf"

definition writes :: "sdp_data \<Rightarrow> bool" where
  "writes d \<longleftrightarrow> (\<forall>f buf. 4 * length (enc d) \<le> f \<longrightarrow> room buf (length (enc d)) \<longrightarrow>
     sdp_gen_pdu f buf d = Some (Some (written buf (enc d), promote d, length (enc d))))"

lemma written_simps [simp]:
  "data_size (written buf bs) = data_size buf + length bs"
  "buf_size (written buf bs) = buf_size buf"
  "buf_data (written buf bs) = overwrite (buf_data buf) (data_size buf) bs"
  by (simp_all add: written_def)

lemma room_written: "room buf (length bs + n) \<Longrightarrow> room (written buf bs) n"
  by (simp add: room_def)

lemma written_written: "room buf (length bs + length cs) \<Longrightarrow> written (written buf bs) cs = written buf (bs @ cs)"
  by (simp add: written_def room_def overwrite_after)

lemma written_Nil [simp]: "written buf [] = buf"
  by (simp add: written_def overwrite_def)

lemma get_data_size_writes:
  "(\<And>d. d \<in> set ds \<Longrightarrow> writes d) \<Longrightarrow> 4 * length (concat (map enc ds)) + 1 \<le> f \<Longrightarrow> room buf (length (concat (map enc ds))) \<Longrightarrow>
     get_data_size f buf ds = Some (Some (written buf (concat (map enc ds)), map promote ds, length (concat (map enc ds))))"
proof (induction ds arbitrary: f buf)
  case Nil
  then show ?case
    by (cases f) simp_all
next
  case (Cons d ds)
  obtain g where f: "f = Suc g"
    using Cons.prems by (cases f) auto
  obtain k where long: "length (enc d) = Suc k"
    using enc_not_empty [of d] by (cases "length (enc d)") auto
  have "sdp_gen_pdu g buf d = Some (Some (written buf (enc d), promote d, length (enc d)))"
    using Cons.prems f by (auto simp: writes_def room_def)
  moreover have "get_data_size g (written buf (enc d)) ds =
      Some (Some (written (written buf (enc d)) (concat (map enc ds)), map promote ds, length (concat (map enc ds))))"
    by (rule Cons.IH) (use Cons.prems f long in \<open>auto intro: room_written\<close>)
  ultimately show ?case
    using f Cons.prems(3) by (simp add: written_written)
qed

lemma writes_scalar:
  assumes "sdp_ok (Sdp_scalar t v)"
  shows "writes (Sdp_scalar t v)"
proof -
  have t: "sdp_get_data_type_size t = 1" "t \<noteq> SDP_SEQ8" "scalar_size t \<le> 255"
    using assms by (cases "(t, v)" rule: scalar_ok.cases; auto simp: code_simps)+
  have fin: "gen_finish (buf\<lparr>data_size := Suc (data_size buf)\<rparr>) (data_size buf) (Sdp_scalar t v) (scalar_size t) =
      Some (written buf (enc (Sdp_scalar t v)))"
    if room: "room buf (length (enc (Sdp_scalar t v)))" for buf
  proof (cases "scalar_src v")
    case None
    then show ?thesis
      using room by (simp add: copy_src_def written_def room_def update_overwrite)
  next
    case (Some src)
    then show ?thesis
      using room scalar_src_size [of t v] assms overwrite_after [of "data_size buf" "[t]" src "buf_data buf"]
      by (simp add: copy_src_def written_def room_def update_overwrite put_simps)
  qed
  have "length (enc (Sdp_scalar t v)) = Suc (scalar_size t)"
    using scalar_src_size [of t v] assms by (cases "scalar_src v") auto
  then have "sdp_gen_pdu f buf (Sdp_scalar t v) = Some (Some (written buf (enc (Sdp_scalar t v)), Sdp_scalar t v, length (enc (Sdp_scalar t v))))"
    if "4 * length (enc (Sdp_scalar t v)) \<le> f" "room buf (length (enc (Sdp_scalar t v)))" for f buf
    using that t fin [OF that(2)] by (cases f; cases "f - 1") (simp_all add: Let_def del: enc.simps gen_finish.simps)
  then show ?thesis
    by (simp add: writes_def)
qed

lemma writes_str:
  assumes "sdp_ok (Sdp_str t s)"
  shows "writes (Sdp_str t s)"
proof -
  have t: "str_code t" "t \<noteq> SDP_SEQ8"
    using assms by (auto simp: str_fits_def str_code_def)
  have fin: "gen_finish (buf\<lparr>data_size := data_size buf + sdp_get_data_type_size t\<rparr>) (data_size buf) (Sdp_str t s) (length s) =
      Some (written buf (enc (Sdp_str t s)))"
    if room: "room buf (length (enc (Sdp_str t s)))" for buf
  proof -
    have "data_size buf + sdp_get_data_type_size t \<le> length (buf_data buf)"
      using room by (simp add: room_def)
    from write_header [OF this, where n = "length s"] t room show ?thesis
      using overwrite_after [of "data_size buf" "header t (length s)" s "buf_data buf"]
      by (auto simp: bind_eq_Some_conv copy_src_def written_def room_def put_simps)
  qed
  have len: "length (enc (Sdp_str t s)) = sdp_get_data_type_size t + length s" "0 < sdp_get_data_type_size t"
    by (auto simp: sdp_get_data_type_size_def)
  have "sdp_gen_pdu f buf (Sdp_str t s) = Some (Some (written buf (enc (Sdp_str t s)), Sdp_str t s, length (enc (Sdp_str t s))))"
    if "4 * length (enc (Sdp_str t s)) \<le> f" "room buf (length (enc (Sdp_str t s)))" for f buf
    using that t fin [OF that(2)] len
    by (cases f; cases "f - 1") (auto simp: Let_def simp del: enc.simps gen_finish.simps)
  then show ?thesis
    by (simp add: writes_def)
qed

text \<open>A sequence whose header holds its length is written in one pass.\<close>

lemma gen_seq_pass:
  assumes ds: "\<And>d. d \<in> set ds \<Longrightarrow> writes d"
    and fits: "seq_fits t n" "n = length (concat (map enc ds))" "\<not> (t = SDP_SEQ8 \<and> 255 < n)"
    and f: "4 * n + 3 \<le> f" and room: "room buf (sdp_get_data_type_size t + n)"
  shows "sdp_gen_pdu f buf (Sdp_seq t ds) =
    Some (Some (written buf (enc (Sdp_seq t ds)), promote (Sdp_seq t ds), length (enc (Sdp_seq t ds))))"
proof -
  obtain g where g: "f = Suc (Suc g)" "4 * n + 1 \<le> g"
    using f by (cases f; cases "f - 1") auto
  define start where "start = buf\<lparr>data_size := data_size buf + sdp_get_data_type_size t\<rparr>"
  have body: "get_data_size g start ds = Some (Some (written start (concat (map enc ds)), map promote ds, n))"
    unfolding fits(2)
    by (rule get_data_size_writes) (use ds g fits room in \<open>auto simp: room_def start_def\<close>)
  have "data_size buf + sdp_get_data_type_size t \<le> length (buf_data (written start (concat (map enc ds))))"
    using room fits by (simp add: room_def start_def)
  from write_header [OF this disjI2 [OF seq_fits_code [OF fits(1)]], where n = n]
  have "gen_finish (written start (concat (map enc ds))) (data_size buf) (Sdp_seq t (map promote ds)) n =
      Some (written buf (enc (Sdp_seq t ds)))"
    using overwrite_before [of "data_size buf" "header t n" "concat (map enc ds)" "buf_data buf"] room fits
    by (auto simp: bind_eq_Some_conv start_def written_def room_def seq_code_def Let_def)
  then show ?thesis
    using g body fits(2,3) by (simp add: Let_def start_def seq_code_def del: enc.simps) (auto simp: seq_code_def Let_def)
qed

text \<open>A long sequence is written twice, the second time behind a longer header.\<close>

lemma gen_seq_again:
  assumes "get_data_size (Suc g) (buf\<lparr>data_size := data_size buf + 2\<rparr>) ds = Some (Some (buf1, ds1, n))" "255 < n"
  shows "sdp_gen_pdu (Suc (Suc (Suc g))) buf (Sdp_seq SDP_SEQ8 ds) =
    sdp_gen_pdu (Suc (Suc g)) (buf1\<lparr>data_size := data_size buf\<rparr>) (Sdp_seq SDP_SEQ16 ds1)"
  unfolding sdp_gen_pdu.simps(2) [of "Suc (Suc g)"] sdp_get_data_size.simps(2) [of "Suc g"]
  using assms by (simp add: Let_def sdp_get_data_type_size_def del: get_data_size.simps sdp_gen_pdu.simps sdp_get_data_size.simps)

lemma gen_long_seq:
  assumes ds: "\<And>d. d \<in> set ds \<Longrightarrow> writes d" "\<And>d. d \<in> set ds \<Longrightarrow> writes (promote d)"
    and n: "n = length (concat (map enc ds))" "255 < n" "n \<le> 65535"
    and f: "4 * n + 4 \<le> f" and room: "room buf (n + 3)"
  shows "sdp_gen_pdu f buf (Sdp_seq SDP_SEQ8 ds) =
    Some (Some (written buf (enc (Sdp_seq SDP_SEQ8 ds)), promote (Sdp_seq SDP_SEQ8 ds), length (enc (Sdp_seq SDP_SEQ8 ds))))"
proof -
  obtain g where g: "f = Suc (Suc (Suc g))"
    using f by (cases f; cases "f - 1"; cases "f - 2") auto
  have promoted: "map (enc \<circ> promote) ds = map enc ds"
    by simp
  define start where "start = buf\<lparr>data_size := data_size buf + 2\<rparr>"
  define again where "again = buf\<lparr>buf_data := overwrite (buf_data buf) (data_size buf + 2) (concat (map enc ds))\<rparr>"
  define d where "d = Sdp_seq SDP_SEQ16 (map promote ds)"
  have size: "sdp_get_data_type_size SDP_SEQ16 = 3"
    by (simp add: sdp_get_data_type_size_def)
  have "get_data_size (Suc g) start ds = Some (Some (written start (concat (map enc ds)), map promote ds, n))"
    unfolding n(1)
    by (rule get_data_size_writes) (use ds g f n room in \<open>auto simp: room_def start_def\<close>)
  from gen_seq_again [OF this [unfolded start_def] n(2)]
  have "sdp_gen_pdu f buf (Sdp_seq SDP_SEQ8 ds) = sdp_gen_pdu (Suc (Suc g)) again d"
    by (simp add: g again_def written_def d_def del: sdp_gen_pdu.simps)
  also have "\<dots> = Some (Some (written again (enc d), promote d, length (enc d)))"
    unfolding d_def
  proof (rule gen_seq_pass [where n = n])
    show "seq_fits SDP_SEQ16 n" "n = length (concat (map enc (map promote ds)))"
      using n by (auto simp: seq_fits_def promoted)
    show "room again (sdp_get_data_type_size SDP_SEQ16 + n)"
      using room n size by (simp add: room_def again_def)
  qed (use ds f g in auto)
  also have "enc d = enc (Sdp_seq SDP_SEQ8 ds)"
    using n by (simp add: d_def seq_code_def Let_def promoted)
  also have "promote d = promote (Sdp_seq SDP_SEQ8 ds)"
    using n by (simp add: d_def seq_code_def comp_def)
  also have "written again (enc (Sdp_seq SDP_SEQ8 ds)) = written buf (enc (Sdp_seq SDP_SEQ8 ds))"
    using n size room overwrite_within [of "data_size buf" "data_size buf + 2" "concat (map enc ds)"
        "enc (Sdp_seq SDP_SEQ8 ds)" "buf_data buf"]
    by (simp add: written_def again_def room_def seq_code_def Let_def)
  finally show ?thesis .
qed

lemma writes_seq:
  assumes ds: "\<And>d. d \<in> set ds \<Longrightarrow> writes d" "\<And>d. d \<in> set ds \<Longrightarrow> writes (promote d)"
    and ok: "sdp_ok (Sdp_seq t ds)"
  shows "writes (Sdp_seq t ds)"
proof -
  define n where "n = length (concat (map enc ds))"
  have fits: "seq_fits t n"
    using ok by (simp add: n_def)
  have len: "length (enc (Sdp_seq t ds)) = sdp_get_data_type_size (seq_code t n) + n"
    by (simp add: Let_def n_def)
  have hdr: "2 \<le> sdp_get_data_type_size (seq_code t n)"
    using fits by (auto simp: seq_fits_def seq_code_def sdp_get_data_type_size_def)
  have "sdp_gen_pdu f buf (Sdp_seq t ds) =
      Some (Some (written buf (enc (Sdp_seq t ds)), promote (Sdp_seq t ds), length (enc (Sdp_seq t ds))))"
    if f: "4 * length (enc (Sdp_seq t ds)) \<le> f" and room: "room buf (length (enc (Sdp_seq t ds)))" for f buf
  proof (cases "t = SDP_SEQ8 \<and> 255 < n")
    case False
    then have "seq_code t n = t"
      by (auto simp: seq_code_def)
    then show ?thesis
      by (intro gen_seq_pass [where n = n]) (use ds fits False n_def len f room hdr in auto)
  next
    case True
    then have "n \<le> 65535" "sdp_get_data_type_size (seq_code t n) = 3"
      using fits by (auto simp: seq_fits_def seq_code_def sdp_get_data_type_size_def)
    then show ?thesis
      unfolding conjunct1 [OF True]
      by (intro gen_long_seq [where n = n]) (use ds True n_def len f room in \<open>auto simp: ac_simps\<close>)
  qed
  then show ?thesis
    by (simp add: writes_def)
qed

lemma writes_both: "sdp_ok d \<Longrightarrow> writes d \<and> writes (promote d)"
proof (induction d)
  case (Sdp_scalar t v)
  then show ?case
    by (simp add: writes_scalar)
next
  case (Sdp_str t s)
  then show ?case
    by (simp add: writes_str)
next
  case (Sdp_seq t ds)
  then have ih: "writes d" "writes (promote d)" if "d \<in> set ds" for d
    using that by auto
  have "writes (Sdp_seq t ds)"
    using ih Sdp_seq.prems by (intro writes_seq)
  moreover have "writes (promote (Sdp_seq t ds))"
    unfolding promote.simps
    by (rule writes_seq) (use ih sdp_ok_promote [OF Sdp_seq.prems] in \<open>auto simp del: sdp_ok.simps\<close>)
  ultimately show ?case ..
qed

theorem sdp_gen_pdu_writes:
  assumes "sdp_ok d" "room buf (length (enc d))" "4 * length (enc d) \<le> f"
  shows "sdp_gen_pdu f buf d = Some (Some (written buf (enc d), promote d, length (enc d)))"
  using writes_both [OF assms(1)] assms(2,3) by (simp add: writes_def)

end
