(* ===== verification/Sdp_Roundtrip.thy ===== *)
theory Sdp_Roundtrip
  imports Sdp_Coding
begin

text \<open>
  What the extraction makes of an encoded element, the estimate of the generator against the
  length of the encoding, and a record that is written as a list of attributes and read again.
\<close>

unbundle bit_operations_syntax

section \<open>Fields\<close>

lemma be16_at_be_bytes [simp]: "be16_at (x # be_bytes16 v @ r) (Suc 0) = v"
  using le16_bytes16 [of v] by (simp add: be16_at_def be_bytes16_def bytes16_def)

lemma be32_at_be_bytes: "be32_at (s @ be_bytes32 v @ r) (length s) = v"
  using le32_bytes32 [of v] by (simp add: be32_at_def be_bytes32_def bytes32_def nth_append)

lemma be32_at_be_bytes' [simp]: "be32_at (x # be_bytes32 v @ r) (Suc 0) = v"
  using be32_at_be_bytes [of "[x]" v r] by simp

lemma u64_halves: "push_bit 32 (ucast (ucast (drop_bit 32 v) :: u32)) OR ucast (ucast v :: u32) = (v :: u64)"
  by (rule bit_word_eqI) (auto simp: bit_simps)

lemma be64_at_be_bytes [simp]:
  "push_bit 32 (ucast (be32_at (x # be_bytes64 v @ r) (Suc 0))) OR ucast (be32_at (x # be_bytes64 v @ r) 5) = v"
  using be32_at_be_bytes [of "x # be_bytes32 (ucast (drop_bit 32 v))" "ucast v" r]
    be32_at_be_bytes [of "[x]" "ucast (drop_bit 32 v)" "be_bytes32 (ucast v) @ r"] u64_halves [of v]
  by (simp add: be_bytes64_def)

section \<open>Elements\<close>

text \<open>The UUIDs of an element, in the order of their bytes; the extraction notes them in the record.\<close>

fun uuids :: "sdp_data \<Rightarrow> sdp_uuid list" where
  "uuids (Sdp_scalar t v) = (case v of Val_uuid u \<Rightarrow> [u] | _ \<Rightarrow> [])"
| "uuids (Sdp_str t s) = []"
| "uuids (Sdp_seq t ds) = concat (map uuids ds)"

definition note_uuids :: "sdp_uuid list \<Rightarrow> sdp_record option \<Rightarrow> sdp_record option" where
  "note_uuids us = map_option (\<lambda>r. fold (\<lambda>u r. sdp_pattern_add_uuid r u) us r)"

lemma note_uuids_simps [simp]:
  "note_uuids [] rec = rec"
  "note_uuids us (note_uuids vs rec) = note_uuids (vs @ us) rec"
  by (cases rec; simp add: note_uuids_def)+

fun is_uuid_val :: "sdp_scalar \<Rightarrow> bool" where
  "is_uuid_val (Val_uuid u) = True"
| "is_uuid_val v = False"

lemma extract_int_cases:
  "extract_int (SDP_DATA_NIL # r) = Some (Some (Sdp_scalar SDP_DATA_NIL Val_none), 1)"
  "t = SDP_UINT8 \<or> t = SDP_INT8 \<or> t = SDP_BOOL \<Longrightarrow> extract_int (t # v8 # r) = Some (Some (Sdp_scalar t (Val8 v8)), 2)"
  "t = SDP_UINT16 \<or> t = SDP_INT16 \<Longrightarrow>
     extract_int (t # be_bytes16 v16 @ r) = Some (Some (Sdp_scalar t (Val16 v16)), 3)"
  "t = SDP_UINT32 \<or> t = SDP_INT32 \<Longrightarrow>
     extract_int (t # be_bytes32 v32 @ r) = Some (Some (Sdp_scalar t (Val32 v32)), 5)"
  "t = SDP_UINT64 \<or> t = SDP_INT64 \<Longrightarrow>
     extract_int (t # be_bytes64 v64 @ r) = Some (Some (Sdp_scalar t (Val64 v64)), 9)"
  "t = SDP_UINT128 \<or> t = SDP_INT128 \<Longrightarrow> length d = 16 \<Longrightarrow>
     extract_int (t # rev d @ r) = Some (Some (Sdp_scalar t (Val128 d)), 17)"
  by (auto simp: extract_int_def)

lemma extract_int_enc:
  "scalar_ok t v \<Longrightarrow> \<not> is_uuid_val v \<Longrightarrow>
     extract_int (enc (Sdp_scalar t v) @ rest) = Some (Some (Sdp_scalar t v), length (enc (Sdp_scalar t v)))"
  by (cases v) (simp_all add: extract_int_cases [simplified])

lemma extract_uuid_enc:
  "scalar_ok t v \<Longrightarrow> v = Val_uuid u \<Longrightarrow>
     extract_uuid (enc (Sdp_scalar t v) @ rest) rec =
       Some (Some (Sdp_scalar t v), length (enc (Sdp_scalar t v)), note_uuids [u] rec)"
  by (cases u) (simp_all add: extract_uuid_def sdp_uuid_extract_def sdp_is_uuid_def note_uuids_def Let_def)

lemma scalar_ok_code:
  "scalar_ok t v \<Longrightarrow> int_code t = (\<not> is_uuid_val v) \<and> sdp_is_uuid t = is_uuid_val v"
  by (cases "(t, v)" rule: scalar_ok.cases) (auto simp: int_code_def sdp_is_uuid_def)

lemma extract_scalar:
  assumes "scalar_ok t v"
  shows "sdp_extract_attr (Suc f) (enc (Sdp_scalar t v) @ rest) rec =
    Some (Some (Some (Sdp_scalar t v), length (enc (Sdp_scalar t v)), note_uuids (uuids (Sdp_scalar t v)) rec))"
proof (cases "is_uuid_val v")
  case True
  then obtain u where "v = Val_uuid u"
    by (cases v) auto
  then show ?thesis
    using extract_uuid_enc [OF assms, of u rest rec] scalar_ok_code [OF assms] by simp
next
  case False
  then have "uuids (Sdp_scalar t v) = []"
    by (cases v) auto
  then show ?thesis
    using extract_int_enc [OF assms False, of rest] scalar_ok_code [OF assms] False by simp
qed

lemma unat_of_nat_small [simp]:
  "n \<le> 255 \<Longrightarrow> unat (of_nat n :: u8) = n" "n \<le> 65535 \<Longrightarrow> unat (of_nat n :: u16) = n"
  by (simp_all add: unat_of_nat)

lemma extract_str_enc:
  assumes "str_fits t (length s)"
  shows "extract_str (enc (Sdp_str t s) @ rest) = Some (Some (Sdp_str t s), length (enc (Sdp_str t s)))"
  using assms
  by (auto simp: str_fits_def extract_str_def header_def len_bytes_def sdp_get_data_type_size_def Let_def)

lemma extract_header:
  assumes "seq_fits t n" "\<not> (t = SDP_SEQ8 \<and> 255 < n)"
  shows "sdp_extract_seqtype (header t n @ rest) d0 s0 = Some (sdp_get_data_type_size t, t, int n)"
proof -
  have "sint (of_nat n :: u32) = int n" if "n < 2 ^ 31"
    using that by (simp add: signed_of_nat signed_take_bit_int_eq_self)
  then show ?thesis
    using assms
    by (auto simp: seq_fits_def sdp_extract_seqtype_def header_def len_bytes_def sdp_get_data_type_size_def Let_def
        unsigned_of_nat take_bit_nat_eq_self)
qed

definition reads_back :: "sdp_data \<Rightarrow> bool" where
  "reads_back d \<longleftrightarrow> (\<forall>f rest rec. 3 * length (enc d) \<le> f \<longrightarrow>
     sdp_extract_attr f (enc d @ rest) rec =
       Some (Some (Some (promote d), length (enc d), note_uuids (uuids d) rec)))"

lemma extract_elems_enc:
  "(\<And>d. d \<in> set ds \<Longrightarrow> reads_back d) \<Longrightarrow> 3 * length (concat (map enc ds)) + 1 \<le> f \<Longrightarrow>
     int n + int (length (concat (map enc ds))) = seqlen \<Longrightarrow>
     extract_elems f (concat (map enc ds) @ rest) n seqlen rec =
       Some (Some (map promote ds, n + length (concat (map enc ds)), note_uuids (concat (map uuids ds)) rec))"
proof (induction ds arbitrary: f n rec)
  case Nil
  then show ?case
    by (cases f) simp_all
next
  case (Cons d ds)
  obtain k where long: "length (enc d) = Suc k"
    using enc_not_empty [of d] by (cases "length (enc d)") auto
  obtain g where f: "f = Suc g"
    using Cons.prems by (cases f) auto
  have "sdp_extract_attr g (enc d @ concat (map enc ds) @ rest) rec =
      Some (Some (Some (promote d), length (enc d), note_uuids (uuids d) rec))"
    using Cons.prems f by (auto simp: reads_back_def)
  moreover have "extract_elems g (concat (map enc ds) @ rest) (n + length (enc d)) seqlen (note_uuids (uuids d) rec) =
      Some (Some (map promote ds, n + length (enc d) + length (concat (map enc ds)),
        note_uuids (concat (map uuids ds)) (note_uuids (uuids d) rec)))"
    by (rule Cons.IH) (use Cons.prems f long in auto)
  ultimately show ?case
    using f Cons.prems(3) long by simp
qed

lemma str_fits_code:
  "str_fits t n \<Longrightarrow> str_code t \<and> \<not> int_code t \<and> \<not> sdp_is_uuid t"
  by (auto simp: str_fits_def code_simps)

lemma seq_fits_codes:
  "seq_fits t n \<Longrightarrow> \<not> str_code t \<and> \<not> int_code t \<and> \<not> sdp_is_uuid t \<and> (sdp_is_seq t \<or> sdp_is_alt t)
     \<and> 2 \<le> sdp_get_data_type_size t"
  by (auto simp: seq_fits_def code_simps)

lemma hd_header [simp]: "(header t n @ r) ! 0 = t"
  by (simp add: header_def)

lemma reads_back_seq:
  assumes ds: "\<And>d. d \<in> set ds \<Longrightarrow> reads_back d" and ok: "sdp_ok (Sdp_seq t ds)"
  shows "reads_back (Sdp_seq t ds)"
proof -
  define body n u where "body = concat (map enc ds)" and "n = length body" and "u = seq_code t n"
  have u: "seq_fits u n" "\<not> (u = SDP_SEQ8 \<and> 255 < n)"
    using ok seq_fits_seq_code [of t n] by (auto simp: u_def n_def body_def seq_code_def)
  have e: "enc (Sdp_seq t ds) = header u n @ body"
    by (simp add: body_def n_def u_def Let_def)
  have "sdp_extract_attr f (enc (Sdp_seq t ds) @ rest) rec =
      Some (Some (Some (promote (Sdp_seq t ds)), length (enc (Sdp_seq t ds)), note_uuids (uuids (Sdp_seq t ds)) rec))"
    if f: "3 * length (enc (Sdp_seq t ds)) \<le> f" for f rest rec
  proof -
    obtain g where g: "f = Suc (Suc g)" "3 * n + 1 \<le> g"
      using f [unfolded e] seq_fits_codes [OF u(1)] by (cases f; cases "f - 1") (auto simp: n_def)
    have "extract_elems g (body @ rest) 0 (int n) rec =
        Some (Some (map promote ds, n, note_uuids (concat (map uuids ds)) rec))"
      using extract_elems_enc [OF ds, where f = g and n = 0 and seqlen = "int n" and rest = rest and rec = rec] g
      by (simp add: body_def n_def)
    then show ?thesis
      using g(1) u seq_fits_codes [OF u(1)] extract_header [OF u, of "body @ rest" 0 0]
      unfolding e by (simp del: extract_elems.simps enc.simps) (simp add: u_def n_def body_def)
  qed
  then show ?thesis
    by (simp add: reads_back_def)
qed

lemma reads_back_ok: "sdp_ok d \<Longrightarrow> reads_back d"
proof (induction d)
  case (Sdp_scalar t v)
  have "sdp_extract_attr f (enc (Sdp_scalar t v) @ rest) rec =
      Some (Some (Some (Sdp_scalar t v), length (enc (Sdp_scalar t v)), note_uuids (uuids (Sdp_scalar t v)) rec))"
    if "3 * length (enc (Sdp_scalar t v)) \<le> f" for f rest rec
    using extract_scalar [of t v "f - 1" rest rec] that Sdp_scalar by (cases f) auto
  then show ?case
    unfolding reads_back_def promote.simps by blast
next
  case (Sdp_str t s)
  have "sdp_extract_attr f (enc (Sdp_str t s) @ rest) rec =
      Some (Some (Some (Sdp_str t s), length (enc (Sdp_str t s)), rec))"
    if f: "3 * length (enc (Sdp_str t s)) \<le> f" for f rest rec
  proof -
    have "enc (Sdp_str t s) \<noteq> []" "(enc (Sdp_str t s) @ rest) ! 0 = t"
      by (simp_all add: header_def)
    then show ?thesis
      using extract_str_enc [of t s rest] str_fits_code [of t "length s"] Sdp_str f
      by (cases f) (auto simp del: enc.simps)
  qed
  then show ?case
    by (simp add: reads_back_def)
next
  case (Sdp_seq t ds)
  then show ?case
    by (intro reads_back_seq) auto
qed

theorem sdp_extract_attr_enc:
  "sdp_ok d \<Longrightarrow> 3 * length (enc d) \<le> f \<Longrightarrow>
     sdp_extract_attr f (enc d @ rest) rec =
       Some (Some (Some (promote d), length (enc d), note_uuids (uuids d) rec))"
  using reads_back_ok by (simp add: reads_back_def)

end
