(* ===== verification/Sdp_Record.thy ===== *)
theory Sdp_Record
  imports Sdp_Roundtrip
begin

text \<open>
  Service records: the estimate that sizes their buffer, the attribute list that
  \<open>sdp_gen_record_pdu\<close> writes into it, and the record that \<open>sdp_extract_pdu\<close> reads from it.
\<close>

unbundle bit_operations_syntax

section \<open>The estimate\<close>

lemma fold_gen_buffer:
  "(\<And>d s. d \<in> set ds \<Longrightarrow> s + 3 + length (enc d) \<le> sdp_gen_buffer rr s d) \<Longrightarrow>
     s + 3 * length ds + length (concat (map enc ds)) \<le> fold (\<lambda>d s. sdp_gen_buffer rr s d) ds s"
proof (induction ds arbitrary: s)
  case (Cons d ds)
  have "s + 3 + length (enc d) \<le> sdp_gen_buffer rr s d"
    by (rule Cons.prems) simp
  moreover have "sdp_gen_buffer rr s d + 3 * length ds + length (concat (map enc ds)) \<le>
      fold (\<lambda>d s. sdp_gen_buffer rr s d) ds (sdp_gen_buffer rr s d)"
    by (rule Cons.IH) (use Cons.prems in auto)
  ultimately show ?case
    by simp
qed simp

text \<open>The elements of a sequence are counted with three bytes more than they take.\<close>

lemma gen_buffer_seq:
  assumes "\<And>d s. d \<in> set ds \<Longrightarrow> s + 3 + length (enc d) \<le> sdp_gen_buffer rr s d"
  shows "s + 3 + 3 * length ds + length (enc (Sdp_seq t ds)) \<le> sdp_gen_buffer rr s (Sdp_seq t ds)"
proof -
  define s0 where "s0 = (if s = 0 \<and> t = 0 then 2 else s)"
  define s1 where "s1 = s0 + 3 + sdp_get_data_type_size t"
  define s2 where "s2 = fold (\<lambda>d s. sdp_gen_buffer rr s d) ds s1"
  have s2: "s1 + 3 * length ds + length (concat (map enc ds)) \<le> s2"
    unfolding s2_def by (rule fold_gen_buffer) (use assms in auto)
  have "s \<le> s0"
    by (simp add: s0_def)
  moreover have "sdp_gen_buffer rr s (Sdp_seq t ds) =
      (let e = (if rr then s2 else s1) + (s2 - s1) in if 255 < e \<and> t = SDP_SEQ8 then e + 1 else e)"
    by (simp only: sdp_gen_buffer.simps s0_def s1_def s2_def Let_def)
  moreover have "sdp_get_data_type_size SDP_SEQ8 = 2" "sdp_get_data_type_size SDP_SEQ16 = 3"
    by (simp_all add: sdp_get_data_type_size_def)
  ultimately show ?thesis
    using s2 by (cases rr) (auto simp: Let_def seq_code_def s1_def)
qed

lemma gen_buffer_enough: "sdp_ok d \<Longrightarrow> s + 3 + length (enc d) \<le> sdp_gen_buffer rr s d"
proof (induction d arbitrary: s)
  case (Sdp_scalar t v)
  then have "length (enc (Sdp_scalar t v)) = Suc (scalar_size t)" "1 \<le> sdp_get_data_type_size t"
    using scalar_src_size [of t v] by (auto simp: sdp_get_data_type_size_def split: option.splits)
  then show ?case
    by (simp add: Let_def del: enc.simps)
next
  case (Sdp_str t str)
  then show ?case
    by (simp add: Let_def)
next
  case (Sdp_seq t ds)
  then have "s' + 3 + length (enc d) \<le> sdp_gen_buffer rr s' d" if "d \<in> set ds" for d s'
    using that by simp
  then show ?case
    using gen_buffer_seq [of ds rr s t] by fastforce
qed

text \<open>A sequence with elements brings slack for the outer header that nothing else counts.\<close>

definition nested :: "sdp_data \<Rightarrow> bool" where
  "nested d \<longleftrightarrow> (case d of Sdp_seq t ds \<Rightarrow> ds \<noteq> [] | _ \<Rightarrow> False)"

lemma gen_buffer_nested: "sdp_ok d \<Longrightarrow> nested d \<Longrightarrow> s + 6 + length (enc d) \<le> sdp_gen_buffer rr s d"
proof (cases d)
  case (Sdp_seq t ds)
  assume "sdp_ok d" "nested d"
  then have "s + 3 + 3 * length ds + length (enc d) \<le> sdp_gen_buffer rr s d" "1 \<le> length ds"
    using gen_buffer_seq [of ds rr s t] gen_buffer_enough Sdp_seq by (auto simp: nested_def Suc_le_eq)
  then show ?thesis
    by linarith
qed (auto simp: nested_def)

section \<open>Attributes\<close>

fun enc_attr :: "u16 \<times> sdp_data \<Rightarrow> u8 list" where
  "enc_attr (a, d) = SDP_UINT16 # be_bytes16 a @ enc d"

definition enc_attrs :: "(u16 \<times> sdp_data) list \<Rightarrow> u8 list" where
  "enc_attrs ads = concat (map enc_attr ads)"

lemma length_enc_attr: "length (enc_attr ad) = 3 + length (enc (snd ad))"
  by (cases ad) simp

definition record_size :: "bool \<Rightarrow> (u16 \<times> sdp_data) list \<Rightarrow> nat \<Rightarrow> nat" where
  "record_size rr ads s = fold (\<lambda>ad s. sdp_gen_buffer rr s (snd ad)) ads s"

lemma record_size_enough: "\<forall>ad\<in>set ads. sdp_ok (snd ad) \<Longrightarrow> s + length (enc_attrs ads) \<le> record_size rr ads s"
proof (induction ads arbitrary: s)
  case (Cons ad ads)
  then show ?case
    using gen_buffer_enough [of "snd ad" s rr] length_enc_attr [of ad]
    by (fastforce simp: record_size_def enc_attrs_def intro: order_trans [rotated])
qed (simp add: enc_attrs_def record_size_def)

lemma record_size_nested:
  "\<forall>ad\<in>set ads. sdp_ok (snd ad) \<Longrightarrow> \<exists>ad\<in>set ads. nested (snd ad) \<Longrightarrow>
     s + 3 + length (enc_attrs ads) \<le> record_size rr ads s"
proof (induction ads arbitrary: s)
  case (Cons ad ads)
  have step: "record_size rr (ad # ads) s = record_size rr ads (sdp_gen_buffer rr s (snd ad))"
    "length (enc_attrs (ad # ads)) = 3 + length (enc (snd ad)) + length (enc_attrs ads)"
    by (simp_all add: record_size_def enc_attrs_def length_enc_attr)
  show ?case
  proof (cases "nested (snd ad)")
    case True
    then show ?thesis
      using gen_buffer_nested [of "snd ad" s rr] Cons.prems(1) step
        record_size_enough [of ads "sdp_gen_buffer rr s (snd ad)" rr] by simp
  next
    case False
    then show ?thesis
      using gen_buffer_enough [of "snd ad" s rr] Cons.prems step Cons.IH [of "sdp_gen_buffer rr s (snd ad)"] by simp
  qed
qed simp

lemma sdp_append_to_pdu_attr:
  assumes "sdp_ok d" "4 * length (enc d) \<le> f"
  shows "sdp_append_to_pdu rr heap f pdu (a, d) = Some (sdp_append_to_buf pdu (enc_attr (a, d)))"
proof -
  define n where "n = sdp_gen_buffer rr 0 d"
  have n: "3 + length (enc d) \<le> n"
    using gen_buffer_enough [OF assms(1), of 0 rr] by (simp add: n_def)
  define buf where "buf = (alloc heap n)\<lparr>buf_data := overwrite (map heap [0..<n]) 0 (SDP_UINT16 # be_bytes16 a), data_size := 3\<rparr>"
  have attrid: "sdp_set_attrid (alloc heap n) a = Some buf"
    using n by (simp add: sdp_set_attrid_def alloc_def put_simps buf_def)
  have "room buf (length (enc d))"
    using n by (simp add: room_def buf_def alloc_def)
  from sdp_gen_pdu_writes [OF assms(1) this assms(2)]
  have gen: "sdp_gen_pdu f buf d = Some (Some (written buf (enc d), promote d, length (enc d)))" .
  have "take (3 + length (enc d)) (buf_data (written buf (enc d))) = take 3 (buf_data buf) @ enc d"
    using n take_overwrite_end [of 3 "enc d" "buf_data buf"] by (simp add: buf_def alloc_def)
  moreover have "take 3 (buf_data buf) = SDP_UINT16 # be_bytes16 a"
    using n take_overwrite_end [of 0 "SDP_UINT16 # be_bytes16 a" "map heap [0..<n]"] by (simp add: buf_def)
  moreover have "data_size (written buf (enc d)) = 3 + length (enc d)"
    by (simp add: buf_def)
  ultimately show ?thesis
    using attrid gen by (simp add: sdp_append_to_pdu_def n_def)
qed

section \<open>The outer sequence\<close>

text \<open>
  The buffer holds a sequence of the attributes so far; its header becomes the longer one when
  header and body together exceed 255 bytes.
\<close>

definition outer_code :: "nat \<Rightarrow> u8" where
  "outer_code n = (if 253 < n then SDP_SEQ16 else SDP_SEQ8)"

definition holds :: "sdp_buf \<Rightarrow> u8 list \<Rightarrow> bool" where
  "holds pdu body \<longleftrightarrow> (\<exists>tail. buf_data pdu = header (outer_code (length body)) (length body) @ body @ tail) \<and>
     data_size pdu = length (header (outer_code (length body)) (length body) @ body) \<and>
     buf_size pdu = length (buf_data pdu)"

lemma overwrite_tail: "length s \<le> length tail \<Longrightarrow> overwrite (pre @ tail) (length pre) s = pre @ s @ drop (length s) tail"
  by (simp add: overwrite_def)

lemma seq_header_size [simp]:
  "sdp_get_data_type_size SDP_SEQ8 = 2" "sdp_get_data_type_size SDP_SEQ16 = 3"
  by (simp_all add: sdp_get_data_type_size_def)

lemma header_codes:
  "header SDP_SEQ8 n = [SDP_SEQ8, of_nat n]"
  "header SDP_SEQ16 n = SDP_SEQ16 # be_bytes16 (of_nat n)"
  by (simp_all add: header_def len_bytes_def sdp_get_data_type_size_def)

text \<open>What the two last steps of an append make of a header.\<close>

lemma append_end_short:
  assumes "buf_data dst = SDP_SEQ8 # x # body @ tail" "data_size dst = 2 + length body"
    "buf_size dst = length (buf_data dst)" "1 \<le> length tail" "length body \<le> 65535"
  shows "\<exists>dst'. do { d \<leftarrow> widen dst; outer_len d } = Some dst' \<and> holds dst' body \<and> buf_size dst' = buf_size dst"
proof (cases "253 < length body")
  case False
  then show ?thesis
    using assms by (auto simp: widen_def outer_len_def holds_def outer_code_def header_codes)
next
  case True
  obtain b rest where tail: "tail = b # rest"
    using assms(4) by (cases tail) auto
  obtain c cs where body: "body = c # cs"
    using True by (cases body) auto
  have "overwrite (SDP_SEQ8 # x # body @ tail) 3 body = SDP_SEQ8 # x # c # body @ rest"
    using overwrite_tail [of body "cs @ tail" "[SDP_SEQ8, x, c]"] tail body by (simp add: ac_simps numeral_3_eq_3)
  then have widen: "widen dst = Some (dst\<lparr>buf_data := SDP_SEQ16 # x # c # body @ rest, data_size := 3 + length body\<rparr>)"
    using assms True tail by (simp add: widen_def put_simps)
  have "overwrite (SDP_SEQ16 # x # c # body @ rest) 1 (be_bytes16 (of_nat (length body))) =
      SDP_SEQ16 # be_bytes16 (of_nat (length body)) @ body @ rest"
    using overwrite_tail [of "be_bytes16 (of_nat (length body))" "x # c # body @ rest" "[SDP_SEQ16]"] by simp
  then show ?thesis
    using True assms widen tail
    by (simp add: outer_len_def put_simps holds_def outer_code_def header_codes)
qed

lemma append_end_long:
  assumes "buf_data dst = SDP_SEQ16 # x # y # body @ tail" "data_size dst = 3 + length body"
    "buf_size dst = length (buf_data dst)" "253 < length body" "length body \<le> 65535"
  shows "\<exists>dst'. do { d \<leftarrow> widen dst; outer_len d } = Some dst' \<and> holds dst' body \<and> buf_size dst' = buf_size dst"
proof -
  have "overwrite (SDP_SEQ16 # x # y # body @ tail) 1 (be_bytes16 (of_nat (length body))) =
      SDP_SEQ16 # be_bytes16 (of_nat (length body)) @ body @ tail"
    using overwrite_tail [of "be_bytes16 (of_nat (length body))" "x # y # body @ tail" "[SDP_SEQ16]"] by simp
  then show ?thesis
    using assms by (simp add: widen_def outer_len_def put_simps holds_def outer_code_def header_codes)
qed

lemma append_to_holds:
  assumes "holds pdu body" "3 + length body + length bytes \<le> buf_size pdu" "length body + length bytes \<le> 65535"
  shows "\<exists>pdu'. sdp_append_to_buf pdu bytes = Some pdu' \<and> holds pdu' (body @ bytes) \<and> buf_size pdu' = buf_size pdu"
proof -
  obtain tail where pdu: "buf_data pdu = header (outer_code (length body)) (length body) @ body @ tail"
    "data_size pdu = length (header (outer_code (length body)) (length body) @ body)"
    "buf_size pdu = length (buf_data pdu)"
    using assms(1) by (auto simp: holds_def)
  define dst where "dst = pdu\<lparr>buf_data := overwrite (buf_data pdu) (data_size pdu) bytes, data_size := data_size pdu + length bytes\<rparr>"
  have fits: "length bytes \<le> length tail" "data_size pdu \<noteq> 0" "buf_data pdu \<noteq> []"
    using pdu assms(2) by (auto simp: outer_code_def header_codes split: if_splits)
  have data: "buf_data dst = header (outer_code (length body)) (length body) @ (body @ bytes) @ drop (length bytes) tail"
    using overwrite_tail [OF fits(1), of "header (outer_code (length body)) (length body) @ body"] pdu
    by (simp add: dst_def)
  have "sdp_append_to_buf pdu bytes = do { d \<leftarrow> widen dst; outer_len d }"
    using fits pdu assms(2) by (simp add: sdp_append_to_buf_def put_simps dst_def outer_code_def header_codes split: if_splits)
  moreover have "\<exists>pdu'. do { d \<leftarrow> widen dst; outer_len d } = Some pdu' \<and> holds pdu' (body @ bytes) \<and> buf_size pdu' = buf_size dst"
  proof (cases "253 < length body")
    case True
    show ?thesis
      by (rule append_end_long)
        (use True data pdu assms fits in \<open>auto simp: outer_code_def header_codes dst_def be_bytes16_def bytes16_def\<close>)
  next
    case False
    show ?thesis
      by (rule append_end_short)
        (use False data pdu assms fits in \<open>auto simp: outer_code_def header_codes dst_def\<close>)
  qed
  moreover have "buf_size dst = buf_size pdu"
    by (simp add: dst_def)
  ultimately show ?thesis
    by simp
qed

lemma append_first:
  assumes "buf_data pdu = replicate n 0" "data_size pdu = 0" "buf_size pdu = n" "3 + length bytes \<le> n" "length bytes \<le> 65535"
  shows "\<exists>pdu'. sdp_append_to_buf pdu bytes = Some pdu' \<and> holds pdu' bytes \<and> buf_size pdu' = buf_size pdu"
proof -
  obtain k where n: "n = Suc (Suc k)" "length bytes + 1 \<le> k"
    using assms(4) by (cases n; cases "n - 1") auto
  define dst where "dst = pdu\<lparr>buf_data := SDP_SEQ8 # 0 # bytes @ replicate (k - length bytes) 0, data_size := 2 + length bytes\<rparr>"
  have "overwrite (SDP_SEQ8 # 0 # replicate k 0) 2 bytes = SDP_SEQ8 # 0 # bytes @ replicate (k - length bytes) 0"
    using n overwrite_tail [of bytes "replicate k 0" "[SDP_SEQ8, 0]"] by (simp add: numeral_2_eq_2)
  then have "sdp_append_to_buf pdu bytes = do { d \<leftarrow> widen dst; outer_len d }"
    using assms n by (simp add: sdp_append_to_buf_def put_simps dst_def)
  moreover have "\<exists>pdu'. do { d \<leftarrow> widen dst; outer_len d } = Some pdu' \<and> holds pdu' bytes \<and> buf_size pdu' = buf_size dst"
    by (rule append_end_short) (use assms n in \<open>auto simp: dst_def\<close>)
  ultimately show ?thesis
    by (simp add: dst_def)
qed

lemma append_attrs_holds:
  "\<forall>ad\<in>set ads. sdp_ok (snd ad) \<and> 4 * length (enc (snd ad)) \<le> f \<Longrightarrow> holds pdu body \<Longrightarrow>
     3 + length body + length (enc_attrs ads) \<le> buf_size pdu \<Longrightarrow> length body + length (enc_attrs ads) \<le> 65535 \<Longrightarrow>
     \<exists>pdu'. append_attrs rr heap f pdu ads = Some (Some pdu') \<and> holds pdu' (body @ enc_attrs ads)"
proof (induction ads arbitrary: pdu body)
  case (Cons ad ads)
  have e: "enc_attrs (ad # ads) = enc_attr ad @ enc_attrs ads"
    by (simp add: enc_attrs_def)
  obtain pdu1 where pdu1: "sdp_append_to_buf pdu (enc_attr ad) = Some pdu1" "holds pdu1 (body @ enc_attr ad)"
    "buf_size pdu1 = buf_size pdu"
    using append_to_holds [of pdu body "enc_attr ad"] Cons.prems e by auto
  have "sdp_append_to_pdu rr heap f pdu ad = Some (Some pdu1)"
    using sdp_append_to_pdu_attr [of "snd ad" f rr heap pdu "fst ad"] Cons.prems(1) pdu1(1) by simp
  moreover have "\<exists>pdu'. append_attrs rr heap f pdu1 ads = Some (Some pdu') \<and> holds pdu' ((body @ enc_attr ad) @ enc_attrs ads)"
    by (rule Cons.IH) (use Cons.prems pdu1 e in auto)
  ultimately show ?case
    by (simp add: e)
qed (simp add: enc_attrs_def)

text \<open>
  The buffer of the whole list is large enough when an attribute brings slack, and then it
  holds the encodings of the attributes, one after the other.
\<close>

theorem sdp_gen_record_pdu_holds:
  assumes ok: "\<forall>ad\<in>set (rec_attrlist rec). sdp_ok (snd ad)" and slack: "\<exists>ad\<in>set (rec_attrlist rec). nested (snd ad)"
    and len: "length (enc_attrs (rec_attrlist rec)) \<le> 65535" and f: "4 * length (enc_attrs (rec_attrlist rec)) \<le> f"
  shows "\<exists>pdu. sdp_gen_record_pdu rr heap f rec = Some (Some pdu) \<and> holds pdu (enc_attrs (rec_attrlist rec))"
proof -
  obtain ad ads where ads: "rec_attrlist rec = ad # ads"
    using slack by (cases "rec_attrlist rec") auto
  have e: "enc_attrs (ad # ads) = enc_attr ad @ enc_attrs ads"
    by (simp add: enc_attrs_def)
  define n where "n = record_size rr (rec_attrlist rec) 0"
  have n: "3 + length (enc_attrs (rec_attrlist rec)) \<le> n"
    using record_size_nested [OF ok slack, of 0 rr] by (simp add: n_def)
  have fuel: "4 * length (enc (snd x)) \<le> f" if x: "x \<in> set (rec_attrlist rec)" for x
  proof -
    obtain xs ys where "rec_attrlist rec = xs @ x # ys"
      using split_list [OF x] by blast
    then have "length (enc_attr x) \<le> length (enc_attrs (rec_attrlist rec))"
      by (simp add: enc_attrs_def)
    then show ?thesis
      using f by (simp add: length_enc_attr)
  qed
  have start: "alloc (\<lambda>i. 0) n = \<lparr>buf_data = replicate n 0, data_size = 0, buf_size = n\<rparr>"
    by (simp add: alloc_def map_replicate_const)
  obtain pdu1 where pdu1: "sdp_append_to_buf (alloc (\<lambda>i. 0) n) (enc_attr ad) = Some pdu1" "holds pdu1 (enc_attr ad)"
    "buf_size pdu1 = n"
    using append_first [of "alloc (\<lambda>i. 0) n" n "enc_attr ad"] start n len ads e by auto
  have "sdp_append_to_pdu rr heap f (alloc (\<lambda>i. 0) n) ad = Some (Some pdu1)"
    using sdp_append_to_pdu_attr [of "snd ad" f rr heap _ "fst ad"] ok fuel [of ad] ads pdu1(1) by simp
  moreover have "\<exists>pdu'. append_attrs rr heap f pdu1 ads = Some (Some pdu') \<and> holds pdu' (enc_attr ad @ enc_attrs ads)"
    by (rule append_attrs_holds) (use ok fuel ads pdu1 n len e in auto)
  ultimately show ?thesis
    by (simp add: sdp_gen_record_pdu_def ads e n_def record_size_def)
qed

section \<open>The record that is read\<close>

text \<open>What the loop makes of one attribute.\<close>

definition read_attr :: "u16 \<times> sdp_data \<Rightarrow> sdp_record \<Rightarrow> sdp_record" where
  "read_attr ad rec = store_attr (fst ad) (promote (snd ad)) (fold (\<lambda>u r. sdp_pattern_add_uuid r u) (uuids (snd ad)) rec)"

lemma extract_attrs_enc:
  "\<forall>ad\<in>set ads. sdp_ok (snd ad) \<Longrightarrow> 3 * length (enc_attrs ads) + 1 \<le> f \<Longrightarrow>
     int n + int (length (enc_attrs ads)) = seqlen \<Longrightarrow>
     extract_attrs f (enc_attrs ads @ rest) n seqlen rec = Some (Some (fold read_attr ads rec))"
proof (induction ads arbitrary: f n rec)
  case Nil
  then show ?case
    by (cases f) (simp_all add: enc_attrs_def)
next
  case (Cons ad ads)
  obtain a d where ad: "ad = (a, d)"
    by (cases ad)
  obtain g where f: "f = Suc g"
    using Cons.prems by (cases f) auto
  have e: "enc_attrs (ad # ads) = SDP_UINT16 # be_bytes16 a @ enc d @ enc_attrs ads"
    by (simp add: enc_attrs_def ad)
  have elem: "sdp_extract_attr g (enc d @ enc_attrs ads @ rest) (Some rec) =
      Some (Some (Some (promote d), length (enc d), note_uuids (uuids d) (Some rec)))"
    by (rule sdp_extract_attr_enc) (use Cons.prems f e ad in auto)
  have "extract_attrs g (enc_attrs ads @ rest) (n + (3 + length (enc d))) seqlen (read_attr ad rec) =
      Some (Some (fold read_attr ads (read_attr ad rec)))"
    by (rule Cons.IH) (use Cons.prems f e in auto)
  moreover define p where "p = enc_attrs (ad # ads) @ rest"
  moreover have "drop 3 p = enc d @ enc_attrs ads @ rest" "drop (3 + length (enc d)) p = enc_attrs ads @ rest"
    by (simp_all add: p_def e be_bytes16_def bytes16_def numeral_3_eq_3)
  moreover have "rd_be16 p 1 = Some a" "3 \<le> length p" "p \<noteq> []"
    by (simp_all add: p_def e)
  moreover have "int n < seqlen"
    using Cons.prems(3) by (simp add: e)
  ultimately show ?case
    using f elem by (simp add: read_attr_def [of "(a, d)"] note_uuids_def Let_def ad)
qed

lemma insert_last:
  "\<forall>p\<in>set ps. f p d < 0 \<Longrightarrow> sdp_list_insert_sorted f ps d = ps @ [d]"
  by (induction ps) auto

lemma find_new: "\<forall>p\<in>set ps. f p u \<noteq> (0 :: int) \<Longrightarrow> sdp_list_find ps u f = None"
  by (induction ps) auto

lemma pattern_attrlist [simp]:
  "rec_attrlist (sdp_pattern_add_uuid rec u) = rec_attrlist rec"
  "rec_attrlist (fold (\<lambda>u r. sdp_pattern_add_uuid r u) us rec) = rec_attrlist rec"
proof -
  show one: "rec_attrlist (sdp_pattern_add_uuid rec u) = rec_attrlist rec" for rec u
    by (simp add: sdp_pattern_add_uuid_def Let_def)
  show "rec_attrlist (fold (\<lambda>u r. sdp_pattern_add_uuid r u) us rec) = rec_attrlist rec"
    by (induction us arbitrary: rec) (simp_all add: one)
qed

lemma sdp_attr_replace_last:
  assumes "\<forall>ad\<in>set (rec_attrlist rec). fst ad < a"
  shows "rec_attrlist (sdp_attr_replace rec a d) = rec_attrlist rec @ [(a, d)]"
proof -
  have "sdp_data_get rec a = None"
    unfolding sdp_data_get_def using assms by (subst find_new) (auto simp: word_uint_eq_iff [symmetric])
  moreover have "sdp_list_insert_sorted sdp_attrid_comp_func (rec_attrlist rec) (a, d) = rec_attrlist rec @ [(a, d)]"
    by (rule insert_last) (use assms in \<open>auto simp: sdp_attrid_comp_func_def word_less_def\<close>)
  ultimately show ?thesis
    by (auto simp: sdp_attr_replace_def Let_def)
qed

lemma store_attr_last:
  "\<forall>ad\<in>set (rec_attrlist rec). fst ad < a \<Longrightarrow> rec_attrlist (store_attr a d rec) = rec_attrlist rec @ [(a, d)]"
  by (auto simp: store_attr_def sdp_attr_replace_last Let_def)

lemma fold_read_attr:
  "sorted_wrt (\<lambda>x y. fst x < fst y) (rec_attrlist rec @ ads) \<Longrightarrow>
     rec_attrlist (fold read_attr ads rec) = rec_attrlist rec @ map (\<lambda>(a, d). (a, promote d)) ads"
proof (induction ads arbitrary: rec)
  case (Cons ad ads)
  have "rec_attrlist (read_attr ad rec) = rec_attrlist rec @ [(fst ad, promote (snd ad))]"
    unfolding read_attr_def
    by (subst store_attr_last) (use Cons.prems in \<open>auto simp: sorted_wrt_append\<close>)
  then show ?case
    using Cons.prems Cons.IH [of "read_attr ad rec"] by (auto simp: sorted_wrt_append case_prod_beta)
qed simp

text \<open>
  The bytes of a record, under any header that fits them; \<open>sdp_gen_record_pdu\<close> chooses the one
  of \<open>outer_code\<close>, and a server may choose another.
\<close>

definition record_bytes :: "u8 \<times> (u16 \<times> sdp_data) list \<Rightarrow> u8 list" where
  "record_bytes r = (let body = enc_attrs (snd r) in header (fst r) (length body) @ body)"

definition header_ok :: "u8 \<Rightarrow> nat \<Rightarrow> bool" where
  "header_ok t n \<longleftrightarrow> seq_fits t n \<and> \<not> (t = SDP_SEQ8 \<and> 255 < n) \<and> n + 5 < 2 ^ 31"

definition record_ok :: "u8 \<times> (u16 \<times> sdp_data) list \<Rightarrow> bool" where
  "record_ok r \<longleftrightarrow> (\<forall>ad\<in>set (snd r). sdp_ok (snd ad)) \<and> sorted_wrt (\<lambda>x y. fst x < fst y) (snd r) \<and>
     header_ok (fst r) (length (enc_attrs (snd r)))"

definition the_record :: "u8 \<times> (u16 \<times> sdp_data) list \<Rightarrow> sdp_record" where
  "the_record r = fold read_attr (snd r) sdp_record_alloc"

lemma header_ok_size: "header_ok t n \<Longrightarrow> sdp_get_data_type_size t \<le> 5 \<and> 2 \<le> sdp_get_data_type_size t"
  using seq_fits_codes [of t n] by (auto simp: header_ok_def sdp_get_data_type_size_def)

lemma length_record_bytes: "length (record_bytes r) = sdp_get_data_type_size (fst r) + length (enc_attrs (snd r))"
  by (simp add: record_bytes_def Let_def)

text \<open>A record that was written comes back, whatever follows it.\<close>

theorem sdp_extract_pdu_record:
  assumes "record_ok r" "3 * length (record_bytes r) \<le> f"
  shows "sdp_extract_pdu f (record_bytes r @ rest) = Some (Some (the_record r, int (length (record_bytes r))))"
proof -
  define n where "n = length (enc_attrs (snd r))"
  have ok: "header_ok (fst r) n"
    using assms by (simp add: record_ok_def n_def)
  then have fits: "seq_fits (fst r) n" "\<not> (fst r = SDP_SEQ8 \<and> 255 < n)"
    by (simp_all add: header_ok_def)
  have "extract_attrs f (enc_attrs (snd r) @ rest) 0 (int n) sdp_record_alloc = Some (Some (the_record r))"
    unfolding the_record_def
    by (rule extract_attrs_enc) (use assms header_ok_size [OF ok] n_def in \<open>auto simp: record_ok_def length_record_bytes\<close>)
  moreover have "int (sdp_get_data_type_size (fst r)) + int n < 2 ^ 31"
    using ok header_ok_size [OF ok] by (simp add: header_ok_def)
  ultimately show ?thesis
    using extract_header [OF fits, of "enc_attrs (snd r) @ rest" 0 0]
    by (simp add: sdp_extract_pdu_def record_bytes_def Let_def n_def)
qed

lemma rec_attrlist_the_record:
  "record_ok r \<Longrightarrow> rec_attrlist (the_record r) = map (\<lambda>(a, d). (a, promote d)) (snd r)"
  by (simp add: the_record_def fold_read_attr sdp_record_alloc_def record_ok_def)

end
