(* ===== verification/Sdp_Search.thy ===== *)
theory Sdp_Search
  imports Sdp_Record
begin

text \<open>
  \<open>sdp_service_search_attr_req\<close> of lib/sdp.c: the request that \<open>sdptool browse\<close> sends, the
  rounds in which a long response arrives in fragments, and the records that are read from it.
  The peer is what it answers to each request.  The two buffers of the function start with what
  the heap held, which the model has as an argument; the pointer to the continuation state is
  an offset into the response buffer, whose contents change under it.
\<close>

unbundle bit_operations_syntax

section \<open>One transaction\<close>

abbreviation (input) "SDP_SVC_SEARCH_ATTR_REQ \<equiv> (0x06 :: u8)"
abbreviation (input) "SDP_ERROR_RSP \<equiv> (0x01 :: u8)"
abbreviation (input) "SDP_REQ_BUFFER_SIZE \<equiv> (2048 :: nat)"
abbreviation (input) "SDP_RSP_BUFFER_SIZE \<equiv> (65535 :: nat)"
abbreviation (input) "SDP_MAX_ATTR_LEN \<equiv> (65535 :: u16)"

text \<open>What comes of sending a request: the packet that \<open>recv\<close> returns, or no packet.\<close>

datatype answer = Send_fails | Times_out | Recv_fails | Packet "u8 list"

record search =
  next_tid :: u16
  rspbuf :: "u8 list"
  cstate :: "nat option"
  attr_list_len :: nat
  concat_buf :: "u8 list"
  requests :: "u8 list list"

definition search_init :: "u16 \<Rightarrow> u8 list \<Rightarrow> search" where
  "search_init t heap = \<lparr>next_tid = t, rspbuf = heap, cstate = None, attr_list_len = 0, concat_buf = [], requests = []\<rparr>"

text \<open>
  \<open>copy_cstate\<close>: the length byte that the peer sent, and as many bytes behind it, wherever
  they come from.
\<close>

definition copy_cstate :: "nat \<Rightarrow> u8 list \<Rightarrow> nat option \<Rightarrow> u8 list option" where
  "copy_cstate pdata_len buf cs =
     (case cs of
        None \<Rightarrow> Some [0]
      | Some i \<Rightarrow> do {
          n \<leftarrow> rd buf i;
          let len = (if pdata_len \<le> unat n then pdata_len - 1 else unat n);
          bytes \<leftarrow> rds buf (i + 1) len;
          Some (of_nat len # bytes)
        })"

definition sdp_request :: "u8 list \<Rightarrow> u16 \<Rightarrow> u8 list \<Rightarrow> u8 list" where
  "sdp_request body t cs =
     SDP_SVC_SEARCH_ATTR_REQ # be_bytes16 t @ be_bytes16 (of_nat (length (body @ cs))) @ body @ cs"

text \<open>
  \<open>sdp_send_req_w4_rsp\<close>: the status, the buffer and the size, which keeps its value where
  the call fails.  The two transaction identifiers are compared where they lie.
\<close>

definition sdp_send_req_w4_rsp :: "answer \<Rightarrow> u8 list \<Rightarrow> u8 list \<Rightarrow> nat \<Rightarrow> (bool \<times> u8 list \<times> nat) option" where
  "sdp_send_req_w4_rsp answer req buf rspsize =
     (case answer of
        Packet p \<Rightarrow>
          let p' = take SDP_RSP_BUFFER_SIZE p; n = length p'
          in if n = 0 then Some (False, buf, rspsize)
             else do {
               buf' \<leftarrow> put buf 0 p';
               t \<leftarrow> rds req 1 2;
               t' \<leftarrow> rds buf' 1 2;
               Some (if t = t' then (True, buf', n) else (False, buf', rspsize))
             }
      | _ \<Rightarrow> Some (False, buf, rspsize))"

section \<open>The rounds\<close>

text \<open>
  The part of a round behind the answer.  \<open>None\<close> in the first place is a failure of the
  function; otherwise the size of the last packet is returned with the state.
\<close>

definition take_response :: "nat \<Rightarrow> search \<Rightarrow> search option option" where
  "take_response rspsize s =
     (if rspsize < 5 then Some None
      else do {
        pdu_id \<leftarrow> rd (rspbuf s) 0;
        if pdu_id = SDP_ERROR_RSP then Some None
        else if rspsize - 5 < 2 then Some None
        else do {
          c \<leftarrow> rd_be16 (rspbuf s) 5;
          let rsp_count = unat c;
          let s1 = s\<lparr>attr_list_len := attr_list_len s + rsp_count\<rparr>;
          if rspsize - 7 < rsp_count + 1 then Some None
          else do {
            cstate_len \<leftarrow> rd (rspbuf s) (7 + rsp_count);
            if 0 < cstate_len \<or> concat_buf s \<noteq> [] then do {
              frag \<leftarrow> rds (rspbuf s) 7 rsp_count;
              Some (Some (s1\<lparr>cstate := (if 0 < cstate_len then Some (7 + rsp_count) else None),
                             concat_buf := concat_buf s @ frag\<rparr>))
            }
            else Some (Some s1)
          }
        }
      })"

text \<open>
  The do-while loop, one round for each answer of the peer; a peer that has no further answer
  lets the request time out.  The first component of the result is the log of requests.
\<close>

fun search_rounds :: "u8 list \<Rightarrow> answer list \<Rightarrow> nat \<Rightarrow> search \<Rightarrow> (u8 list list \<times> (search \<times> nat) option) option" where
  "search_rounds body [] rspsize s = do {
     cs \<leftarrow> copy_cstate (SDP_REQ_BUFFER_SIZE - (5 + length body)) (rspbuf s) (cstate s);
     Some (requests s @ [sdp_request body (next_tid s) cs], None)
   }"
| "search_rounds body (answer # later) rspsize s = do {
     cs \<leftarrow> copy_cstate (SDP_REQ_BUFFER_SIZE - (5 + length body)) (rspbuf s) (cstate s);
     let req = sdp_request body (next_tid s) cs;
     let s1 = s\<lparr>next_tid := next_tid s + 1, requests := requests s @ [req]\<rparr>;
     (ok, buf, n) \<leftarrow> sdp_send_req_w4_rsp answer req (rspbuf s1) rspsize;
     let s2 = s1\<lparr>rspbuf := buf\<rparr>;
     if n < 5 \<or> \<not> ok then Some (requests s2, None)
     else do {
       r \<leftarrow> take_response n s2;
       (case r of
          None \<Rightarrow> Some (requests s2, None)
        | Some s3 \<Rightarrow> if cstate s3 = None then Some (requests s3, Some (s3, n))
                     else search_rounds body later n s3)
     }
   }"

section \<open>The records\<close>

text \<open>
  The bytes from a position on, of which there are \<open>len\<close> as far as the code knows.  A position
  before the buffer or a length beyond it is a read outside the buffer.
\<close>

definition bytes_at :: "u8 list \<Rightarrow> int \<Rightarrow> int \<Rightarrow> u8 list option" where
  "bytes_at mem pos len =
     (if len \<le> 0 then Some []
      else if 0 \<le> pos \<and> pos + len \<le> int (length mem) then Some (take (nat len) (drop (nat pos) mem))
      else None)"

text \<open>
  The loop over the records.  The number of bytes left is unsigned here and signed in the
  calls, and the size of a record can be negative.
\<close>

fun scan_records :: "nat \<Rightarrow> u8 list \<Rightarrow> int \<Rightarrow> u32 \<Rightarrow> int \<Rightarrow> int \<Rightarrow> sdp_record list option option" where
  "scan_records 0 mem pos len scanned attr_len = None"
| "scan_records (Suc f) mem pos len scanned attr_len =
     and_then (Some (bytes_at mem pos (sint len))) (\<lambda>bytes.
       and_then (sdp_extract_pdu f bytes) (\<lambda>(rec, recsize).
         if recsize = 0 then Some (Some [])
         else let pos' = pos + recsize; len' = len - word_of_int recsize; scanned' = scanned + recsize
              in if scanned' < attr_len \<and> 0 < len'
                 then and_then (scan_records f mem pos' len' scanned' attr_len) (\<lambda>recs. Some (Some (rec # recs)))
                 else Some (Some [rec])))"

text \<open>
  The end of the function: the fragments, or the one response where it was not split.  The
  sequence length that a refused header leaves is that of the request.
\<close>

definition read_records :: "nat \<Rightarrow> int \<Rightarrow> search \<Rightarrow> nat \<Rightarrow> sdp_record list option option" where
  "read_records f seqlen0 s rspsize =
     (if attr_list_len s = 0 then Some (Some [])
      else let (mem, pos, len) = (if concat_buf s \<noteq> [] then (concat_buf s, 0, length (concat_buf s))
                                  else (rspbuf s, 7, rspsize - 7))
        in and_then (Some (bytes_at mem (int pos) (int len))) (\<lambda>bytes.
             and_then (Some (sdp_extract_seqtype bytes 0 seqlen0)) (\<lambda>(scanned, t, seqlen).
               if scanned \<noteq> 0 \<and> seqlen \<noteq> 0
               then scan_records f mem (int pos + int scanned) (of_nat len - of_nat scanned) (int scanned) (int (attr_list_len s))
               else Some (Some []))))"

text \<open>
  The whole request: the search pattern, the maximal size, the attributes.  The status is
  \<open>False\<close> where the function returns -1.
\<close>

definition request_body :: "u8 list \<Rightarrow> u8 list \<Rightarrow> u8 list" where
  "request_body search_seq attr_seq = search_seq @ be_bytes16 SDP_MAX_ATTR_LEN @ attr_seq"

definition sdp_service_search_attr_req ::
    "nat \<Rightarrow> bool \<Rightarrow> (nat \<Rightarrow> u8) \<Rightarrow> u8 list \<Rightarrow> u16 \<Rightarrow> sdp_uuid list \<Rightarrow> sdp_data list \<Rightarrow> answer list \<Rightarrow>
     (u8 list list \<times> bool \<times> sdp_record list) option option" where
  "sdp_service_search_attr_req f reread heap rsp t search attrids answers =
     and_then (gen_dataseq_pdu reread heap f (map uuid_elem search)) (\<lambda>(search_seq, n).
       and_then (gen_dataseq_pdu reread heap f attrids) (\<lambda>(attr_seq, seqlen).
         and_then (Some (search_rounds (request_body search_seq attr_seq) answers 0 (search_init t rsp))) (\<lambda>(sent, r).
           case r of
             None \<Rightarrow> Some (Some (sent, False, []))
           | Some (s, rspsize) \<Rightarrow> and_then (read_records f (int seqlen) s rspsize) (\<lambda>recs.
               Some (Some (sent, True, recs))))))"

text \<open>\<open>sdptool browse\<close> asks for every attribute of the records of the public browse group.\<close>

definition browse_attrids :: "sdp_data list" where
  "browse_attrids = [Sdp_scalar SDP_UINT32 (Val32 0x0000ffff)]"

abbreviation (input) "PUBLIC_BROWSE_GROUP \<equiv> (0x1002 :: u16)"

end
