(* ===== verification/Sdp_Browse.thy ===== *)
theory Sdp_Browse
  imports Sdp_Search
begin

text \<open>
  A service search from its request to its records: a peer that answers in as many fragments
  as it likes gets its own continuation states back, and the caller gets the records.
\<close>

unbundle bit_operations_syntax

section \<open>The request\<close>

lemma gen_dataseq_pdu_enc:
  assumes "sdp_ok (Sdp_seq SDP_SEQ8 ds)" "4 * length (enc (Sdp_seq SDP_SEQ8 ds)) \<le> f"
  shows "gen_dataseq_pdu reread heap f ds = Some (Some (enc (Sdp_seq SDP_SEQ8 ds), length (enc (Sdp_seq SDP_SEQ8 ds))))"
proof -
  define d where "d = Sdp_seq SDP_SEQ8 ds"
  define buf where "buf = alloc heap (sdp_gen_buffer reread 0 d)"
  have room: "room buf (length (enc d))"
    using gen_buffer_enough [of d 0 reread] assms(1) by (simp add: room_def buf_def alloc_def d_def)
  moreover have "take (length (enc d)) (overwrite (buf_data buf) 0 (enc d)) = enc d"
    using room take_overwrite_end [of 0 "enc d" "buf_data buf"] by (simp add: room_def)
  moreover have "data_size buf = 0"
    by (simp add: buf_def alloc_def)
  ultimately show ?thesis
    using sdp_gen_pdu_writes [of d buf f] assms by (simp add: gen_dataseq_pdu_def d_def buf_def del: enc.simps sdp_ok.simps)
qed

section \<open>A peer that answers in fragments\<close>

text \<open>A response: its fragment of the attribute lists and the continuation state behind it.\<close>

definition rsp_packet :: "u16 \<Rightarrow> u8 list \<times> u8 list \<Rightarrow> u8 list" where
  "rsp_packet t fc = (case fc of (frag, cs) \<Rightarrow>
     0x07 # be_bytes16 t @ be_bytes16 (of_nat (3 + length frag + length cs)) @ be_bytes16 (of_nat (length frag)) @
     frag @ of_nat (length cs) # cs)"

fun answers_from :: "u16 \<Rightarrow> (u8 list \<times> u8 list) list \<Rightarrow> answer list" where
  "answers_from t [] = []"
| "answers_from t (fc # fcs) = Packet (rsp_packet t fc) # answers_from (t + 1) fcs"

text \<open>Every fragment but the last has a continuation state.\<close>

definition frag_ok :: "u8 list \<times> u8 list \<Rightarrow> bool" where
  "frag_ok fc \<longleftrightarrow> fst fc \<noteq> [] \<and> length (snd fc) \<le> 255 \<and> length (fst fc) + length (snd fc) + 8 \<le> SDP_RSP_BUFFER_SIZE"

fun frags_ok :: "(u8 list \<times> u8 list) list \<Rightarrow> bool" where
  "frags_ok [] = False"
| "frags_ok [fc] = (frag_ok fc \<and> snd fc = [])"
| "frags_ok (fc # fcs) = (frag_ok fc \<and> snd fc \<noteq> [] \<and> frags_ok fcs)"

text \<open>The requests that the peer sees: each carries the state of the response before it.\<close>

fun request_log :: "u8 list \<Rightarrow> u16 \<Rightarrow> u8 list \<Rightarrow> (u8 list \<times> u8 list) list \<Rightarrow> u8 list list" where
  "request_log body t cs [] = []"
| "request_log body t cs (fc # fcs) = sdp_request body t cs # request_log body (t + 1) (of_nat (length (snd fc)) # snd fc) fcs"

lemma frags_ok_Cons:
  "frags_ok (fc # fcs) \<longleftrightarrow> frag_ok fc \<and> (if fcs = [] then snd fc = [] else snd fc \<noteq> [] \<and> frags_ok fcs)"
  by (cases fcs) auto

lemma length_rsp_packet: "length (rsp_packet t fc) = 8 + length (fst fc) + length (snd fc)"
  by (cases fc) (simp add: rsp_packet_def)

text \<open>The response buffer once a packet has arrived.\<close>

definition arrived :: "u16 \<Rightarrow> u8 list \<times> u8 list \<Rightarrow> u8 list \<Rightarrow> bool" where
  "arrived t fc buf \<longleftrightarrow> length buf = SDP_RSP_BUFFER_SIZE \<and> (\<exists>rest. buf = rsp_packet t fc @ rest)"

lemma send_arrived:
  assumes "frag_ok fc" "length buf = SDP_RSP_BUFFER_SIZE"
  shows "\<exists>buf'. sdp_send_req_w4_rsp (Packet (rsp_packet t fc)) (sdp_request body t cs) buf n =
    Some (True, buf', length (rsp_packet t fc)) \<and> arrived t fc buf'"
proof -
  have len: "length (rsp_packet t fc) \<le> SDP_RSP_BUFFER_SIZE" "length (rsp_packet t fc) \<noteq> 0"
    using assms(1) by (auto simp: length_rsp_packet frag_ok_def)
  define buf' where "buf' = overwrite buf 0 (rsp_packet t fc)"
  have buf': "buf' = rsp_packet t fc @ drop (length (rsp_packet t fc)) buf"
    by (simp add: buf'_def overwrite_def)
  have "rds (sdp_request body t cs) 1 2 = Some (be_bytes16 t)"
    by (simp add: sdp_request_def be_bytes16_def bytes16_def)
  moreover have "rds buf' 1 2 = Some (be_bytes16 t)"
    by (simp add: buf' rsp_packet_def be_bytes16_def bytes16_def split: prod.split)
  moreover have "arrived t fc buf'"
    using assms(2) len by (auto simp: arrived_def buf')
  ultimately show ?thesis
    using assms(2) len by (simp add: sdp_send_req_w4_rsp_def put_simps buf'_def Let_def)
qed

lemma arrived_fields:
  assumes "arrived t fc buf" "frag_ok fc"
  shows "rd buf 0 = Some 7" "rd_be16 buf 5 = Some (of_nat (length (fst fc)))"
    "rd buf (7 + length (fst fc)) = Some (of_nat (length (snd fc)))" "rds buf 7 (length (fst fc)) = Some (fst fc)"
    "rds buf (8 + length (fst fc)) (length (snd fc)) = Some (snd fc)"
proof -
  obtain frag cs where fc: "fc = (frag, cs)"
    by (cases fc)
  obtain rest where buf: "buf = rsp_packet t fc @ rest"
    using assms(1) by (auto simp: arrived_def)
  obtain a b c d e g h where p: "rsp_packet t (frag, cs) = [a, b, c, d, e, g, h] @ frag @ of_nat (length cs) # cs" "a = 7"
    "be_bytes16 (of_nat (length frag)) = [g, h]"
    by (simp add: rsp_packet_def be_bytes16_def bytes16_def)
  show "rd buf 0 = Some 7" "rd buf (7 + length (fst fc)) = Some (of_nat (length (snd fc)))"
    "rds buf 7 (length (fst fc)) = Some (fst fc)"
    by (simp_all add: buf p fc nth_append)
  show "rds buf (8 + length (fst fc)) (length (snd fc)) = Some (snd fc)"
    by (simp add: buf p fc numeral_eq_Suc)
  have "le16 h g = of_nat (length frag)"
    using le16_bytes16 [of "of_nat (length frag)"] p(3) by (simp add: be_bytes16_def bytes16_def)
  then show "rd_be16 buf 5 = Some (of_nat (length (fst fc)))"
    by (simp add: buf p fc be16_at_def)
qed

text \<open>What the client takes from the packet, and what it puts into the next request.\<close>

lemma unat_fields:
  "frag_ok fc \<Longrightarrow> unat (of_nat (length (fst fc)) :: u16) = length (fst fc)"
  "frag_ok fc \<Longrightarrow> unat (of_nat (length (snd fc)) :: u8) = length (snd fc)"
  "frag_ok fc \<Longrightarrow> (0 < (of_nat (length (snd fc)) :: u8)) = (snd fc \<noteq> [])"
  by (auto simp: frag_ok_def word_less_nat_alt)

lemma take_response_arrived:
  assumes "arrived t fc (rspbuf s)" "frag_ok fc"
  shows "take_response (length (rsp_packet t fc)) s = Some (Some
    (let s1 = s\<lparr>attr_list_len := attr_list_len s + length (fst fc)\<rparr>
     in if snd fc \<noteq> [] \<or> concat_buf s \<noteq> []
        then s1\<lparr>cstate := (if snd fc \<noteq> [] then Some (7 + length (fst fc)) else None), concat_buf := concat_buf s @ fst fc\<rparr>
        else s1))"
  using arrived_fields [OF assms] unat_fields [OF assms(2)]
  by (simp add: take_response_def length_rsp_packet Let_def)

lemma copy_cstate_arrived:
  assumes "arrived t fc buf" "frag_ok fc" "256 \<le> n"
  shows "copy_cstate n buf (Some (7 + length (fst fc))) = Some (of_nat (length (snd fc)) # snd fc)"
  using arrived_fields [OF assms(1,2)] unat_fields [OF assms(2)] assms(2,3)
  by (simp add: copy_cstate_def Let_def frag_ok_def)

section \<open>The rounds\<close>

definition before_round :: "u8 list \<Rightarrow> u16 \<Rightarrow> u8 list \<Rightarrow> search \<Rightarrow> bool" where
  "before_round body t cs s \<longleftrightarrow> next_tid s = t \<and> length (rspbuf s) = SDP_RSP_BUFFER_SIZE \<and>
     copy_cstate (SDP_REQ_BUFFER_SIZE - (5 + length body)) (rspbuf s) (cstate s) = Some cs"

text \<open>One round with a further one to come, and the last one.\<close>

lemma search_round:
  assumes "before_round body t cs s" "frag_ok fc"
  obtains buf where "arrived t fc buf"
    "\<And>s3. take_response (length (rsp_packet t fc))
        (s\<lparr>next_tid := t + 1, requests := requests s @ [sdp_request body t cs], rspbuf := buf\<rparr>) = Some (Some s3) \<Longrightarrow>
      search_rounds body (Packet (rsp_packet t fc) # later) n s =
        (if cstate s3 = None then Some (requests s3, Some (s3, length (rsp_packet t fc)))
         else search_rounds body later (length (rsp_packet t fc)) s3)"
proof -
  obtain buf where buf: "sdp_send_req_w4_rsp (Packet (rsp_packet t fc)) (sdp_request body t cs) (rspbuf s) n =
      Some (True, buf, length (rsp_packet t fc))" "arrived t fc buf"
    using send_arrived [OF assms(2), of "rspbuf s" t body cs n] assms(1) by (auto simp: before_round_def)
  show ?thesis
    by (rule that [OF buf(2)]) (use assms(1) buf(1) length_rsp_packet [of t fc] in \<open>simp add: before_round_def\<close>)
qed

lemma search_rounds_split:
  "frags_ok fcs \<Longrightarrow> before_round body t cs s \<Longrightarrow> length body + 261 \<le> SDP_REQ_BUFFER_SIZE \<Longrightarrow>
   concat_buf s \<noteq> [] \<or> 2 \<le> length fcs \<Longrightarrow>
   \<exists>s' m. search_rounds body (answers_from t fcs) n s = Some (requests s @ request_log body t cs fcs, Some (s', m)) \<and>
     concat_buf s' = concat_buf s @ concat (map fst fcs) \<and>
     attr_list_len s' = attr_list_len s + length (concat (map fst fcs))"
proof (induction fcs arbitrary: t cs s n)
  case (Cons fc fcs)
  have ok: "frag_ok fc" "fcs = [] \<longrightarrow> snd fc = []" "fcs \<noteq> [] \<longrightarrow> snd fc \<noteq> [] \<and> frags_ok fcs"
    using Cons.prems(1) by (auto simp: frags_ok_Cons split: if_splits)
  obtain buf where buf: "arrived t fc buf" and run:
    "\<And>s3. take_response (length (rsp_packet t fc))
        (s\<lparr>next_tid := t + 1, requests := requests s @ [sdp_request body t cs], rspbuf := buf\<rparr>) = Some (Some s3) \<Longrightarrow>
      search_rounds body (Packet (rsp_packet t fc) # answers_from (t + 1) fcs) n s =
        (if cstate s3 = None then Some (requests s3, Some (s3, length (rsp_packet t fc)))
         else search_rounds body (answers_from (t + 1) fcs) (length (rsp_packet t fc)) s3)"
    using search_round [OF Cons.prems(2) ok(1)] by blast
  define s3 where "s3 = s\<lparr>next_tid := t + 1, requests := requests s @ [sdp_request body t cs], rspbuf := buf,
    attr_list_len := attr_list_len s + length (fst fc),
    cstate := (if snd fc \<noteq> [] then Some (7 + length (fst fc)) else None), concat_buf := concat_buf s @ fst fc\<rparr>"
  have split: "snd fc \<noteq> [] \<or> concat_buf s \<noteq> []"
    using ok Cons.prems(4) by (cases fcs) auto
  have "take_response (length (rsp_packet t fc))
      (s\<lparr>next_tid := t + 1, requests := requests s @ [sdp_request body t cs], rspbuf := buf\<rparr>) = Some (Some s3)"
    by (subst take_response_arrived) (use buf ok(1) split in \<open>simp_all add: s3_def Let_def\<close>)
  note run = run [OF this]
  show ?case
  proof (cases "fcs = []")
    case True
    then show ?thesis
      using run ok by (simp add: s3_def del: search_rounds.simps)
  next
    case False
    have before: "before_round body (t + 1) (of_nat (length (snd fc)) # snd fc) s3"
      using copy_cstate_arrived [OF buf ok(1)] buf ok(3) False Cons.prems(3)
      by (simp add: before_round_def s3_def arrived_def)
    have "concat_buf s3 \<noteq> []"
      using ok(1) by (simp add: s3_def frag_ok_def)
    then obtain s' m where s': "search_rounds body (answers_from (t + 1) fcs) (length (rsp_packet t fc)) s3 =
        Some (requests s3 @ request_log body (t + 1) (of_nat (length (snd fc)) # snd fc) fcs, Some (s', m))"
      "concat_buf s' = concat_buf s3 @ concat (map fst fcs)"
      "attr_list_len s' = attr_list_len s3 + length (concat (map fst fcs))"
      using Cons.IH [OF _ before Cons.prems(3), of "length (rsp_packet t fc)"] ok(3) False by blast
    then show ?thesis
      using run ok(3) False by (simp add: s3_def del: search_rounds.simps)
  qed
qed simp

text \<open>A response that was not split stays in the response buffer.\<close>

lemma search_rounds_whole:
  assumes "frag_ok fc" "snd fc = []" "before_round body t cs s" "concat_buf s = []" "cstate s = None"
  shows "\<exists>s'. search_rounds body [Packet (rsp_packet t fc)] n s =
      Some (requests s @ [sdp_request body t cs], Some (s', length (rsp_packet t fc))) \<and>
    concat_buf s' = [] \<and> attr_list_len s' = attr_list_len s + length (fst fc) \<and> arrived t fc (rspbuf s')"
proof -
  obtain buf where buf: "arrived t fc buf" and run:
    "\<And>s3. take_response (length (rsp_packet t fc))
        (s\<lparr>next_tid := t + 1, requests := requests s @ [sdp_request body t cs], rspbuf := buf\<rparr>) = Some (Some s3) \<Longrightarrow>
      search_rounds body [Packet (rsp_packet t fc)] n s =
        (if cstate s3 = None then Some (requests s3, Some (s3, length (rsp_packet t fc)))
         else search_rounds body [] (length (rsp_packet t fc)) s3)"
    using search_round [OF assms(3,1)] by blast
  define s3 where "s3 = s\<lparr>next_tid := t + 1, requests := requests s @ [sdp_request body t cs], rspbuf := buf,
    attr_list_len := attr_list_len s + length (fst fc)\<rparr>"
  have "take_response (length (rsp_packet t fc))
      (s\<lparr>next_tid := t + 1, requests := requests s @ [sdp_request body t cs], rspbuf := buf\<rparr>) = Some (Some s3)"
    by (subst take_response_arrived) (use buf assms in \<open>simp_all add: s3_def Let_def\<close>)
  from run [OF this] show ?thesis
    using assms(4,5) buf by (simp add: s3_def del: search_rounds.simps)
qed

section \<open>The records\<close>

definition response_bytes :: "u8 \<Rightarrow> (u8 \<times> (u16 \<times> sdp_data) list) list \<Rightarrow> u8 list" where
  "response_bytes t rs = (let body = concat (map record_bytes rs) in header t (length body) @ body)"

definition response_ok :: "u8 \<Rightarrow> (u8 \<times> (u16 \<times> sdp_data) list) list \<Rightarrow> bool" where
  "response_ok t rs \<longleftrightarrow> (\<forall>r\<in>set rs. record_ok r) \<and> header_ok t (length (concat (map record_bytes rs)))"

lemma bytes_at_eq:
  "drop pos mem = bytes @ rest \<Longrightarrow> pos \<le> length mem \<Longrightarrow> bytes_at mem (int pos) (int (length bytes)) = Some bytes"
  using length_drop [of pos mem] by (auto simp: bytes_at_def simp del: length_drop)

lemma record_bytes_size: "record_ok r \<Longrightarrow> 2 \<le> length (record_bytes r) \<and> length (record_bytes r) < 2 ^ 31"
  using header_ok_size [of "fst r" "length (enc_attrs (snd r))"]
  by (simp add: record_ok_def length_record_bytes header_ok_def)

lemma sint_u32: "n < 2 ^ 31 \<Longrightarrow> sint (of_nat n :: u32) = int n"
  by (simp add: signed_of_nat signed_take_bit_int_eq_self)

lemma of_nat_pos_u32: "0 < n \<Longrightarrow> n < 2 ^ 31 \<Longrightarrow> 0 < (of_nat n :: u32)"
  by (simp add: word_less_nat_alt unat_of_nat take_bit_nat_eq_self)

lemma scan_records_bytes:
  "\<forall>r\<in>set rs. record_ok r \<Longrightarrow> rs \<noteq> [] \<Longrightarrow> pos \<le> length mem \<Longrightarrow>
   drop pos mem = concat (map record_bytes rs) @ slack @ rest \<Longrightarrow>
   len = length (concat (map record_bytes rs) @ slack) \<Longrightarrow> len < 2 ^ 31 \<Longrightarrow>
   scanned + int (length (concat (map record_bytes rs))) = attr_len \<Longrightarrow> 3 * length (concat (map record_bytes rs)) + 1 \<le> f \<Longrightarrow>
   scan_records f mem (int pos) (of_nat len) scanned attr_len = Some (Some (map the_record rs))"
proof (induction rs arbitrary: f pos len scanned)
  case (Cons r rs)
  obtain g where f: "f = Suc g"
    using Cons.prems by (cases f) auto
  define m where "m = length (record_bytes r)"
  have m: "2 \<le> m" "m \<le> len" "m < 2 ^ 31"
    using Cons.prems record_bytes_size [of r] by (auto simp: m_def)
  have bytes: "bytes_at mem (int pos) (sint (of_nat len :: u32)) = Some (record_bytes r @ concat (map record_bytes rs) @ slack)"
    unfolding sint_u32 [OF Cons.prems(6)] unfolding Cons.prems(5)
    using bytes_at_eq [of pos mem "concat (map record_bytes (r # rs)) @ slack" rest] Cons.prems(3,4) by simp
  have rec: "sdp_extract_pdu g (record_bytes r @ concat (map record_bytes rs) @ slack) = Some (Some (the_record r, int m))"
    unfolding m_def by (rule sdp_extract_pdu_record) (use Cons.prems f in auto)
  show ?case
  proof (cases "rs = []")
    case True
    then show ?thesis
      using f bytes rec m Cons.prems(7) by (auto simp: m_def)
  next
    case False
    then obtain r' rs' where rs: "rs = r' # rs'"
      by (cases rs) auto
    have more: "0 < length (concat (map record_bytes rs))"
      using record_bytes_size [of r'] Cons.prems(1) by (auto simp: rs)
    have "0 < len - m" "len - m < 2 ^ 31"
      using more Cons.prems(5,6) by (auto simp: m_def)
    then have len': "of_nat len - word_of_int (int m) = (of_nat (len - m) :: u32)" "0 < (of_nat (len - m) :: u32)"
      using m(2) of_nat_pos_u32 [of "len - m"] by (simp_all add: of_nat_diff)
    have "scan_records g mem (int (pos + m)) (of_nat (len - m)) (scanned + int m) attr_len = Some (Some (map the_record rs))"
    proof (rule Cons.IH)
      show "drop (pos + m) mem = concat (map record_bytes rs) @ slack @ rest"
        using arg_cong [OF Cons.prems(4), of "drop m"] by (simp add: m_def add.commute)
      show "pos + m \<le> length mem"
        using arg_cong [OF Cons.prems(4), of length] Cons.prems(3) by (simp add: m_def)
    qed (use Cons.prems False f m in \<open>auto simp: m_def\<close>)
    moreover have "scanned + int m < attr_len"
      using more Cons.prems(7) by (simp add: m_def del: length_greater_0_conv)
    ultimately show ?thesis
      using f bytes rec m(1) len' by (simp add: Let_def)
  qed
qed simp

lemma read_records_bytes:
  assumes resp: "response_ok t rs" and mem: "mem = (if concat_buf s \<noteq> [] then concat_buf s else rspbuf s)"
    and pos: "pos = (if concat_buf s \<noteq> [] then 0 else 7)"
    and len: "len = (if concat_buf s \<noteq> [] then length (concat_buf s) else n - 7)" "len < 2 ^ 31"
    and bytes: "drop pos mem = response_bytes t rs @ slack @ rest" "len = length (response_bytes t rs @ slack)" "pos \<le> length mem"
    and total: "attr_list_len s = length (response_bytes t rs)" and f: "3 * length (response_bytes t rs) \<le> f"
  shows "read_records f seqlen0 s n = Some (Some (map the_record rs))"
proof -
  define body h where "body = concat (map record_bytes rs)" and "h = sdp_get_data_type_size t"
  have ok: "header_ok t (length body)"
    using resp by (simp add: response_ok_def body_def)
  then have fits: "seq_fits t (length body)" "\<not> (t = SDP_SEQ8 \<and> 255 < length body)" and h: "2 \<le> h" "h \<le> 5"
    using header_ok_size [OF ok] by (simp_all add: header_ok_def h_def)
  have r: "response_bytes t rs = header t (length body) @ body" "length (response_bytes t rs) = h + length body"
    by (simp_all add: response_bytes_def Let_def body_def h_def)
  have whole: "bytes_at mem (int pos) (int len) = Some (header t (length body) @ body @ slack)"
    using bytes_at_eq [of pos mem "response_bytes t rs @ slack" rest] bytes r by simp
  have start: "read_records f seqlen0 s n =
      (if body \<noteq> [] then scan_records f mem (int pos + int h) (of_nat len - of_nat h) (int h) (int (h + length body))
       else Some (Some []))"
    using whole extract_header [OF fits, of "body @ slack" 0 seqlen0] total r h mem pos len(1)
    by (auto simp: read_records_def h_def [symmetric] split: if_splits)
  show ?thesis
  proof (cases "rs = []")
    case True
    then show ?thesis
      using start by (simp add: body_def)
  next
    case False
    then obtain r' rs' where "rs = r' # rs'"
      by (cases rs) auto
    then have more: "body \<noteq> []"
      using record_bytes_size [of r'] resp by (auto simp: body_def response_ok_def)
    have "scan_records f mem (int (pos + h)) (of_nat (len - h)) (int h) (int (h + length body)) = Some (Some (map the_record rs))"
    proof (rule scan_records_bytes)
      show "drop (pos + h) mem = concat (map record_bytes rs) @ slack @ rest"
        using arg_cong [OF bytes(1), of "drop h"] by (simp add: r h_def body_def add.commute)
      show "pos + h \<le> length mem"
        using arg_cong [OF bytes(1), of length] bytes(3) r(2) by simp
    qed (use resp False bytes(2) len(2) f r h in \<open>auto simp: response_ok_def body_def\<close>)
    moreover have "of_nat len - of_nat h = (of_nat (len - h) :: u32)"
      using bytes(2) r(2) by (simp add: of_nat_diff)
    ultimately show ?thesis
      using start more by simp
  qed
qed

section \<open>The service search\<close>

theorem service_search_reads:
  assumes request: "sdp_ok (Sdp_seq SDP_SEQ8 (map uuid_elem us))" "sdp_ok (Sdp_seq SDP_SEQ8 attrids)"
    and body: "body = request_body (enc (Sdp_seq SDP_SEQ8 (map uuid_elem us))) (enc (Sdp_seq SDP_SEQ8 attrids))"
      "length body + 261 \<le> SDP_REQ_BUFFER_SIZE"
    and heap: "length rsp = SDP_RSP_BUFFER_SIZE"
    and peer: "frags_ok fcs" "concat (map fst fcs) = response_bytes t rs" "response_ok t rs" "length (response_bytes t rs) + 1 < 2 ^ 31"
    and f: "4 * (length body + length (response_bytes t rs)) \<le> f"
  shows "sdp_service_search_attr_req f reread heap rsp tid us attrids (answers_from tid fcs) =
    Some (Some (request_log body tid [0] fcs, True, map the_record rs))"
proof -
  have gen: "gen_dataseq_pdu reread heap f ds = Some (Some (enc (Sdp_seq SDP_SEQ8 ds), length (enc (Sdp_seq SDP_SEQ8 ds))))"
    if "ds = map uuid_elem us \<or> ds = attrids" for ds
    using that by (intro gen_dataseq_pdu_enc) (use request f body in \<open>auto simp: request_body_def simp del: enc.simps\<close>)
  define s where "s = search_init tid rsp"
  have s: "before_round body tid [0] s" "concat_buf s = []" "cstate s = None" "requests s = []" "attr_list_len s = 0"
    using heap by (simp_all add: s_def search_init_def before_round_def copy_cstate_def)
  define seqlen where "seqlen = int (length (enc (Sdp_seq SDP_SEQ8 attrids)))"
  have "\<exists>s' n. search_rounds body (answers_from tid fcs) 0 s = Some (request_log body tid [0] fcs, Some (s', n)) \<and>
      read_records f seqlen s' n = Some (Some (map the_record rs))"
  proof (cases "2 \<le> length fcs")
    case True
    obtain s' n where s': "search_rounds body (answers_from tid fcs) 0 s = Some (request_log body tid [0] fcs, Some (s', n))"
      "concat_buf s' = response_bytes t rs" "attr_list_len s' = length (response_bytes t rs)"
      using search_rounds_split [OF peer(1) s(1) body(2), of 0] True s(2-5) peer(2) by auto
    have "response_bytes t rs \<noteq> []"
      by (simp add: response_bytes_def header_def Let_def)
    then have "read_records f seqlen s' n = Some (Some (map the_record rs))"
      by (intro read_records_bytes [where slack = "[]" and rest = "[]" and mem = "response_bytes t rs" and pos = 0])
        (use s' peer f in auto)
    then show ?thesis
      using s'(1) by blast
  next
    case False
    then obtain fc where fc: "fcs = [fc]" "frag_ok fc" "snd fc = []" "fst fc = response_bytes t rs"
      using peer(1,2) by (cases fcs; cases "tl fcs") auto
    obtain s' where s': "search_rounds body [Packet (rsp_packet tid fc)] 0 s =
        Some ([sdp_request body tid [0]], Some (s', length (rsp_packet tid fc)))"
      "concat_buf s' = []" "attr_list_len s' = length (fst fc)" "arrived tid fc (rspbuf s')"
      using search_rounds_whole [OF fc(2,3) s(1-3)] s(4,5) by auto
    obtain rest where rest: "rspbuf s' = rsp_packet tid fc @ rest"
      using s'(4) by (auto simp: arrived_def)
    have "drop 7 (rsp_packet tid fc) = fst fc @ [0]"
      using fc(3) by (cases fc) (simp add: rsp_packet_def be_bytes16_def bytes16_def)
    then have "read_records f seqlen s' (length (rsp_packet tid fc)) = Some (Some (map the_record rs))"
      by (intro read_records_bytes [where slack = "[0]" and rest = rest and mem = "rspbuf s'" and pos = 7])
        (use s' rest fc peer f length_rsp_packet [of tid fc] in auto)
    then show ?thesis
      using s'(1) fc(1) by auto
  qed
  then show ?thesis
    using gen [of "map uuid_elem us"] gen [of attrids] body(1)
    by (auto simp: sdp_service_search_attr_req_def s_def seqlen_def simp del: enc.simps search_rounds.simps)
qed

end
