(* ===== verification/Sdp_Xml.thy ===== *)
theory Sdp_Xml
  imports Sdp_Data "HOL-Library.Char_ord"
begin

text \<open>
  The half of src/sdp-xml.c that prints records, which is what \<open>sdptool browse --xml\<close> writes
  into the log.  The buffer of a text is the one the code allocates for it: its contents are
  those of the heap, and a write outside it is \<open>None\<close>.  The output is the string that the
  appender has been given in all.  The parser of the same file is not used by the browser.
\<close>

unbundle bit_operations_syntax

section \<open>Formats\<close>

definition chr :: "u8 \<Rightarrow> char" where
  "chr b = char_of (unat b)"

text \<open>\<open>%d\<close> and \<open>%jd\<close>.\<close>

fun dec_nat :: "nat \<Rightarrow> string" where
  "dec_nat n = (if n < 10 then [hex_digit n] else dec_nat (n div 10) @ [hex_digit (n mod 10)])"

declare dec_nat.simps [simp del]

definition dec :: "int \<Rightarrow> string" where
  "dec i = (if i < 0 then ''-'' @ dec_nat (nat (- i)) else dec_nat (nat i))"

text \<open>The bytes of a 128-bit number or UUID, two digits each.\<close>

definition xml_bytes :: "u8 list \<Rightarrow> string" where
  "xml_bytes d = concat (map (\<lambda>b. hex 2 (unat b)) d)"

definition uuid128_xml :: "u8 list \<Rightarrow> string" where
  "uuid128_xml d = xml_bytes (take 4 d) @ ''-'' @ xml_bytes (take 2 (drop 4 d)) @ ''-'' @
     xml_bytes (take 2 (drop 6 d)) @ ''-'' @ xml_bytes (take 2 (drop 8 d)) @ ''-'' @ xml_bytes (take 6 (drop 10 d))"

abbreviation (input) tab :: string where
  "tab \<equiv> [CHR 0x09]"

text \<open>Printable characters of the C locale.\<close>

definition isprint :: "u8 \<Rightarrow> bool" where
  "isprint b \<longleftrightarrow> 0x20 \<le> b \<and> b \<le> 0x7E"

section \<open>Texts\<close>

definition text_is_hex :: "u8 list \<Rightarrow> bool" where
  "text_is_hex s \<longleftrightarrow> (\<exists>b\<in>set s. \<not> isprint b \<and> b \<noteq> 0)"

definition escaped :: "u8 \<Rightarrow> bool" where
  "escaped b \<longleftrightarrow> b = 0x3C \<or> b = 0x3E \<or> b = 0x22 \<or> b = 0x26"

text \<open>What the loop writes for a character: entities without their semicolon.\<close>

definition escape :: "u8 \<Rightarrow> u8 list" where
  "escape b =
     (if b = 0x26 then [0x26, 0x61, 0x6D, 0x70]
      else if b = 0x3C then [0x26, 0x6C, 0x74]
      else if b = 0x3E then [0x26, 0x67, 0x74]
      else if b = 0x22 then [0x26, 0x71, 0x75, 0x6F, 0x74]
      else if b = 0 then [0x20]
      else [b])"

fun put_all :: "u8 list \<Rightarrow> nat \<Rightarrow> u8 list \<Rightarrow> u8 list option" where
  "put_all buf j [] = Some buf"
| "put_all buf j (b # bs) = do { buf' \<leftarrow> wr buf j b; put_all buf' (j + 1) bs }"

fun escape_loop :: "u8 list \<Rightarrow> nat \<Rightarrow> u8 list \<Rightarrow> u8 list option" where
  "escape_loop buf j [] = wr buf j 0"
| "escape_loop buf j (b # bs) = do { buf' \<leftarrow> put_all buf j (escape b); escape_loop buf' (j + length (escape b)) bs }"

definition hex_ascii :: "u8 \<Rightarrow> u8 list" where
  "hex_ascii b = map (\<lambda>c. of_nat (of_char c)) (hex 2 (unat b))"

text \<open>\<open>sprintf\<close> ends each pair of digits with a zero, which the next pair overwrites.\<close>

fun hex_loop :: "u8 list \<Rightarrow> nat \<Rightarrow> u8 list \<Rightarrow> u8 list option" where
  "hex_loop buf i [] = wr buf (2 * i) 0"
| "hex_loop buf i (b # bs) = do { buf' \<leftarrow> put_all buf (2 * i) (hex_ascii b @ [0]); hex_loop buf' (i + 1) bs }"

definition c_string :: "u8 list \<Rightarrow> u8 list" where
  "c_string buf = takeWhile (\<lambda>b. b \<noteq> 0) buf"

definition text_xml :: "(nat \<Rightarrow> u8) \<Rightarrow> u8 list \<Rightarrow> string option" where
  "text_xml heap s =
     (let unitSize = length s + 1
      in if text_is_hex s then do {
           buf \<leftarrow> hex_loop (map heap [0..<(unitSize - 1) * 2 + 1]) 0 s;
           Some (''<text encoding=\"hex\" value=\"'' @ map chr (c_string buf) @ ''\" />\<newline>'')
         }
         else do {
           buf \<leftarrow> escape_loop (map heap [0..<unitSize + 1 + length (filter escaped s) * 4]) 0 s;
           Some (''<text value=\"'' @ map chr (c_string buf) @ ''\" />\<newline>'')
         })"

section \<open>Elements\<close>

text \<open>The elements that are printed in one line; the value is of the type that the code names.\<close>

definition scalar_xml :: "u8 \<Rightarrow> sdp_scalar \<Rightarrow> string" where
  "scalar_xml t v = (case v of
     Val_none \<Rightarrow> ''<nil/>\<newline>''
   | Val8 b \<Rightarrow> if t = SDP_BOOL then ''<boolean value=\"'' @ (if b \<noteq> 0 then ''true'' else ''false'') @ ''\" />\<newline>''
       else if t = SDP_UINT8 then ''<uint8 value=\"0x'' @ hex 2 (unat b) @ ''\" />\<newline>''
       else ''<int8 value=\"'' @ dec (sint b) @ ''\" />\<newline>''
   | Val16 w \<Rightarrow> if t = SDP_UINT16 then ''<uint16 value=\"0x'' @ hex 4 (unat w) @ ''\" />\<newline>''
       else ''<int16 value=\"'' @ dec (sint w) @ ''\" />\<newline>''
   | Val32 w \<Rightarrow> if t = SDP_UINT32 then ''<uint32 value=\"0x'' @ hex 8 (unat w) @ ''\" />\<newline>''
       else ''<int32 value=\"'' @ dec (sint w) @ ''\" />\<newline>''
   | Val64 w \<Rightarrow> if t = SDP_UINT64 then ''<uint64 value=\"0x'' @ hex 16 (unat w) @ ''\" />\<newline>''
       else ''<int64 value=\"'' @ dec (sint w) @ ''\" />\<newline>''
   | Val128 d \<Rightarrow> if t = SDP_UINT128 then ''<uint128 value=\"'' @ xml_bytes d @ ''\" />\<newline>''
       else ''<int128 value=\"'' @ xml_bytes d @ ''\" />\<newline>''
   | Val_uuid u \<Rightarrow> ''<uuid value=\"'' @
       (case u of SDP_uuid16 w \<Rightarrow> ''0x'' @ hex 4 (unat w)
        | SDP_uuid32 w \<Rightarrow> ''0x'' @ hex 8 (unat w)
        | SDP_uuid128 d \<Rightarrow> uuid128_xml d
        | SDP_no_uuid \<Rightarrow> []) @ ''\" />\<newline>'')"

abbreviation (input) "MAXINDENT \<equiv> (64 :: nat)"

definition indent :: "nat \<Rightarrow> string" where
  "indent level = replicate (if MAXINDENT \<le> level then MAXINDENT - 2 else level) CHR 0x09"

text \<open>A URL is copied up to its first zero and is not escaped at all.\<close>

definition url_xml :: "u8 list \<Rightarrow> string" where
  "url_xml s = ''<url value=\"'' @ map chr (c_string s) @ ''\" />\<newline>''"

text \<open>
  \<open>convert_raw_data_to_xml\<close> prints an element and then the rest of its chain; the level of
  the elements of a sequence is one more than the level that was used for its own indentation.
\<close>

definition capped :: "nat \<Rightarrow> nat" where
  "capped level = (if MAXINDENT \<le> level then MAXINDENT - 2 else level)"

fun convert_raw_data_to_xml :: "(nat \<Rightarrow> u8) \<Rightarrow> nat \<Rightarrow> sdp_data list \<Rightarrow> string option" where
  "convert_raw_data_to_xml heap level [] = Some []"
| "convert_raw_data_to_xml heap level (Sdp_scalar t v # ds) = do {
     rest \<leftarrow> convert_raw_data_to_xml heap (capped level) ds;
     Some (indent level @ scalar_xml t v @ rest)
   }"
| "convert_raw_data_to_xml heap level (Sdp_str t s # ds) = do {
     x \<leftarrow> (if t = SDP_TEXT_STR8 \<or> t = SDP_TEXT_STR16 \<or> t = SDP_TEXT_STR32 then text_xml heap s else Some (url_xml s));
     rest \<leftarrow> convert_raw_data_to_xml heap (capped level) ds;
     Some (indent level @ x @ rest)
   }"
| "convert_raw_data_to_xml heap level (Sdp_seq t es # ds) = do {
     let tag = (if sdp_is_seq t then ''sequence'' else ''alternate'');
     inner \<leftarrow> convert_raw_data_to_xml heap (capped level + 1) es;
     rest \<leftarrow> convert_raw_data_to_xml heap (capped level) ds;
     Some (indent level @ ''<'' @ tag @ ''>\<newline>'' @ inner @ indent level @ ''</'' @ tag @ ''>\<newline>'' @ rest)
   }"

section \<open>Records\<close>

fun attrs_xml :: "(nat \<Rightarrow> u8) \<Rightarrow> (u16 \<times> sdp_data) list \<Rightarrow> string option" where
  "attrs_xml heap [] = Some []"
| "attrs_xml heap ((a, d) # ads) = do {
     x \<leftarrow> convert_raw_data_to_xml heap 2 [d];
     rest \<leftarrow> attrs_xml heap ads;
     Some (tab @ ''<attribute id=\"0x'' @ hex 4 (unat a) @ ''\">\<newline>'' @ x @ tab @ ''</attribute>\<newline>'' @ rest)
   }"

definition convert_sdp_record_to_xml :: "(nat \<Rightarrow> u8) \<Rightarrow> sdp_record \<Rightarrow> string option" where
  "convert_sdp_record_to_xml heap rec =
     (if rec_attrlist rec = [] then Some []
      else do {
        x \<leftarrow> attrs_xml heap (rec_attrlist rec);
        Some (''<?xml version=\"1.0\" encoding=\"UTF-8\" ?>\<newline>\<newline><record>\<newline>'' @ x @ ''</record>\<newline>'')
      })"

end
