(* ===== verification/Sdp_Xml_Props.thy ===== *)
theory Sdp_Xml_Props
  imports Sdp_Xml
begin

text \<open>
  The XML of a record as a function of the record: the buffers of its texts are large enough
  and nothing of the heap shows in the output.
\<close>

unbundle bit_operations_syntax

section \<open>The buffers\<close>

lemma put_all_Some:
  "j + length bs \<le> length buf \<Longrightarrow> put_all buf j bs = Some (overwrite buf j bs)"
proof (induction bs arbitrary: buf j)
  case (Cons b bs)
  have "overwrite (buf[j := b]) (j + 1) bs = overwrite buf j (b # bs)"
    using Cons.prems by (simp add: overwrite_def take_Suc_conv_app_nth)
  then show ?case
    using Cons by simp
qed (simp add: overwrite_def)

lemma overwrite_meet:
  "j + length xs + length ys \<le> length buf \<Longrightarrow> overwrite (overwrite buf j xs) (j + length xs) ys = overwrite buf j (xs @ ys)"
  by (simp add: overwrite_def ac_simps)

lemma overwrite_last: "j < length buf \<Longrightarrow> buf[j := b] = overwrite buf j [b]"
  by (simp add: overwrite_def upd_conv_take_nth_drop)

lemma c_string_overwrite: "\<forall>b\<in>set xs. b \<noteq> 0 \<Longrightarrow> c_string (overwrite buf 0 (xs @ [0])) = xs"
  by (simp add: c_string_def overwrite_def takeWhile_append)

lemma escape_loop_Some:
  "j + length (concat (map escape s)) < length buf \<Longrightarrow>
     escape_loop buf j s = Some (overwrite buf j (concat (map escape s) @ [0]))"
proof (induction s arbitrary: buf j)
  case Nil
  then show ?case
    by (simp add: overwrite_last)
next
  case (Cons b s)
  then show ?case
    by (simp add: put_all_Some overwrite_meet)
qed

lemma length_escape: "length (concat (map escape s)) \<le> length s + 4 * length (filter escaped s)"
proof (induction s)
  case (Cons b s)
  have "length (escape b) \<le> (if escaped b then 5 else 1)"
    by (simp add: escape_def escaped_def)
  then show ?case
    using Cons by (simp split: if_splits)
qed simp

lemma escape_not_zero: "c \<in> set (escape b) \<Longrightarrow> c \<noteq> 0"
  by (auto simp: escape_def split: if_splits)

lemma length_hex_ascii [simp]: "length (hex_ascii b) = 2"
  by (simp add: hex_ascii_def)

lemma hex_loop_Some:
  "2 * i + 2 * length s < length buf \<Longrightarrow>
     hex_loop buf i s = Some (overwrite buf (2 * i) (concat (map hex_ascii s) @ [0]))"
proof (induction s arbitrary: buf i)
  case Nil
  then show ?case
    by (simp add: overwrite_last)
next
  case (Cons b s)
  have "overwrite (overwrite buf (2 * i) (hex_ascii b @ [0])) (2 * i + length (hex_ascii b)) (concat (map hex_ascii s) @ [0]) =
      overwrite buf (2 * i) (hex_ascii b @ concat (map hex_ascii s) @ [0])"
  proof -
    have "length (concat (map hex_ascii s)) = 2 * length s"
      by (induction s) simp_all
    then show ?thesis
      using Cons.prems by (simp add: overwrite_def numeral_3_eq_3 ac_simps)
  qed
  then show ?case
    using Cons by (simp add: put_all_Some)
qed

section \<open>The text itself\<close>

text \<open>A nibble's digit and the characters that the numbers are made of.\<close>

definition plain :: "string \<Rightarrow> bool" where
  "plain s \<longleftrightarrow> CHR 0x00 \<notin> set s"

lemma plain_simps [simp]: "plain []" "plain (x @ y) \<longleftrightarrow> plain x \<and> plain y" "plain (c # x) \<longleftrightarrow> c \<noteq> CHR 0x00 \<and> plain x"
  by (auto simp: plain_def)

lemma hex_digit_plain: "d < 16 \<Longrightarrow> hex_digit d \<noteq> CHR 0x00"
proof -
  assume "d < 16"
  then have "hex_digit d \<in> set ''0123456789abcdef''"
    unfolding hex_digit_def by (intro nth_mem) simp
  then show ?thesis
    by auto
qed

lemma plain_hex [simp]: "plain (hex n v)"
  by (induction n arbitrary: v) (simp_all add: hex_digit_plain)

lemma chr_of_char [simp]: "chr (of_nat (of_char c)) = c"
proof -
  have "(of_char c :: nat) < 256"
    by simp
  then show ?thesis
    by (simp add: chr_def unat_of_nat take_bit_nat_eq_self)
qed

lemma chr_zero: "chr b = CHR 0x00 \<longleftrightarrow> b = 0"
proof -
  have "chr b = CHR 0x00 \<longleftrightarrow> (of_char (chr b) :: nat) = of_char (CHR 0x00)"
    by (simp only: of_char_eq_iff)
  also have "\<dots> \<longleftrightarrow> unat b = 0"
    using unsigned_less [of b, where 'a = nat] by (simp add: chr_def)
  finally show ?thesis
    by (simp add: unat_eq_zero)
qed

lemma hex_ascii_not_zero: "c \<in> set (hex_ascii b) \<Longrightarrow> c \<noteq> 0"
  using plain_hex [of 2 "unat b"] chr_of_char chr_zero unfolding hex_ascii_def plain_def by (metis (no_types, lifting) image_iff list.set_map)

lemma chr_hex_ascii: "map chr (hex_ascii b) = hex 2 (unat b)"
  by (simp add: hex_ascii_def comp_def)

text \<open>The value of a text as the function of its characters that it is meant to be.\<close>

definition text_value :: "u8 list \<Rightarrow> string" where
  "text_value s = (if text_is_hex s then ''<text encoding=\"hex\" value=\"'' @ xml_bytes s @ ''\" />\<newline>''
     else ''<text value=\"'' @ map chr (concat (map escape s)) @ ''\" />\<newline>'')"

lemma text_xml_value: "text_xml heap s = Some (text_value s)"
proof (cases "text_is_hex s")
  case True
  have "map chr (concat (map hex_ascii s)) = xml_bytes s"
    by (induction s) (simp_all add: xml_bytes_def chr_hex_ascii)
  moreover have "c_string (overwrite (map heap [0..<length s * 2 + 1]) 0 (concat (map hex_ascii s) @ [0])) = concat (map hex_ascii s)"
    by (rule c_string_overwrite) (auto dest: hex_ascii_not_zero)
  ultimately show ?thesis
    using True hex_loop_Some [of 0 s "map heap [0..<length s * 2 + 1]"]
    by (simp add: text_xml_def text_value_def Let_def)
next
  case False
  define buf where "buf = map heap [0..<length s + 1 + 1 + length (filter escaped s) * 4]"
  have "escape_loop buf 0 s = Some (overwrite buf 0 (concat (map escape s) @ [0]))"
    using length_escape [of s] by (intro escape_loop_Some) (simp add: buf_def)
  moreover have "c_string (overwrite buf 0 (concat (map escape s) @ [0])) = concat (map escape s)"
    by (rule c_string_overwrite) (auto dest: escape_not_zero)
  ultimately show ?thesis
    using False by (simp add: text_xml_def text_value_def buf_def Let_def)
qed

section \<open>Elements and records\<close>

fun xml :: "nat \<Rightarrow> sdp_data list \<Rightarrow> string" where
  "xml level [] = []"
| "xml level (Sdp_scalar t v # ds) = indent level @ scalar_xml t v @ xml level ds"
| "xml level (Sdp_str t s # ds) =
     indent level @ (if t = SDP_TEXT_STR8 \<or> t = SDP_TEXT_STR16 \<or> t = SDP_TEXT_STR32 then text_value s else url_xml s) @
     xml level ds"
| "xml level (Sdp_seq t es # ds) =
     (let tag = (if sdp_is_seq t then ''sequence'' else ''alternate'')
      in indent level @ ''<'' @ tag @ ''>\<newline>'' @ xml (capped level + 1) es @ indent level @ ''</'' @ tag @ ''>\<newline>'' @
         xml level ds)"

lemma capped_capped [simp]: "capped (capped level) = capped level"
  by (simp add: capped_def)

lemma indent_capped [simp]: "indent (capped level) = indent level"
  by (simp add: indent_def capped_def)

lemma xml_capped [simp]: "xml (capped level) ds = xml level ds"
  by (induction level ds rule: xml.induct) simp_all

lemma convert_xml: "convert_raw_data_to_xml heap level ds = Some (xml level ds)"
  by (induction heap level ds rule: convert_raw_data_to_xml.induct) (auto simp: text_xml_value Let_def)

lemma xml_append: "xml level (ds @ es) = xml level ds @ xml level es"
  by (induction level ds rule: xml.induct) (simp_all add: Let_def)

definition attr_xml :: "u16 \<times> sdp_data \<Rightarrow> string" where
  "attr_xml ad = tab @ ''<attribute id=\"0x'' @ hex 4 (unat (fst ad)) @ ''\">\<newline>'' @ xml 2 [snd ad] @ tab @ ''</attribute>\<newline>''"

definition record_xml :: "sdp_record \<Rightarrow> string" where
  "record_xml rec =
     (if rec_attrlist rec = [] then []
      else ''<?xml version=\"1.0\" encoding=\"UTF-8\" ?>\<newline>\<newline><record>\<newline>'' @
        concat (map attr_xml (rec_attrlist rec)) @ ''</record>\<newline>'')"

lemma attrs_xml_Some: "attrs_xml heap ads = Some (concat (map attr_xml ads))"
  by (induction ads) (auto simp: attr_xml_def convert_xml simp del: convert_raw_data_to_xml.simps xml.simps)

theorem convert_sdp_record_to_xml_Some: "convert_sdp_record_to_xml heap rec = Some (record_xml rec)"
  by (simp add: convert_sdp_record_to_xml_def record_xml_def attrs_xml_Some)

section \<open>URLs\<close>

text \<open>Everything that is printed is free of zeros, so it can be part of a URL.\<close>

lemma plain_map_chr: "plain (map chr bs) \<longleftrightarrow> (\<forall>b\<in>set bs. b \<noteq> 0)"
  using chr_zero by (auto simp: plain_def image_iff) metis+

lemma plain_dec_nat: "plain (dec_nat n)"
  by (induction n rule: dec_nat.induct) (subst dec_nat.simps, auto simp: hex_digit_plain)

lemma plain_xml_bytes [simp]: "plain (xml_bytes d)"
  by (induction d) (simp_all add: xml_bytes_def)

lemma plain_scalar_xml: "plain (scalar_xml t v)"
  by (cases v) (auto simp: scalar_xml_def dec_def plain_dec_nat uuid128_xml_def split: sdp_uuid.split)

lemma plain_indent: "plain (indent level)"
  by (simp add: indent_def plain_def)

lemma plain_text_value: "plain (text_value s)"
proof -
  have "\<forall>b\<in>set (concat (map escape s)). b \<noteq> 0"
    using escape_not_zero by fastforce
  then show ?thesis
    using plain_map_chr [of "concat (map escape s)"] by (simp add: text_value_def)
qed

lemma plain_url_xml: "plain (url_xml s)"
proof -
  have "\<forall>b\<in>set (c_string s). b \<noteq> 0"
    by (auto simp: c_string_def dest: set_takeWhileD)
  then show ?thesis
    by (simp add: url_xml_def plain_map_chr)
qed

lemma plain_xml: "plain (xml level ds)"
  by (induction level ds rule: xml.induct)
    (auto simp: plain_scalar_xml plain_indent plain_text_value plain_url_xml Let_def)

definition bytes_of :: "string \<Rightarrow> u8 list" where
  "bytes_of s = map (\<lambda>c. of_nat (of_char c)) s"

lemma chr_bytes_of [simp]: "map chr (bytes_of s) = s"
  by (simp add: bytes_of_def comp_def)

lemma bytes_of_not_zero: "plain s \<Longrightarrow> \<forall>b\<in>set (bytes_of s). b \<noteq> 0"
  using plain_map_chr [of "bytes_of s"] by simp

text \<open>C33.
  URLs are printed unescaped: one that ends its own XML element, goes on with the XML of any
  elements and opens another URL prints exactly what a device with all those elements prints.
\<close>
theorem url_forges_elements:
  assumes url: "\<not> (t = SDP_TEXT_STR8 \<or> t = SDP_TEXT_STR16 \<or> t = SDP_TEXT_STR32)"
    and a: "0 \<notin> set a" and b: "0 \<notin> set b"
  shows "convert_raw_data_to_xml heap level
      [Sdp_str t (a @ bytes_of (''\" />\<newline>'' @ xml level ds @ indent level @ ''<url value=\"'') @ b)] =
    convert_raw_data_to_xml heap level (Sdp_str t a # ds @ [Sdp_str t b])"
proof -
  have nonzero: "\<forall>x\<in>set s. x \<noteq> 0" if "0 \<notin> set s" for s :: "u8 list"
    using that by auto
  have cs: "c_string s = s" if "\<forall>x\<in>set s. x \<noteq> 0" for s
    using that by (simp add: c_string_def takeWhile_eq_all_conv)
  define gap where "gap = bytes_of (''\" />\<newline>'' @ xml level ds @ indent level @ ''<url value=\"'')"
  have "plain (''\" />\<newline>'' @ xml level ds @ indent level @ ''<url value=\"'')"
    by (simp add: plain_xml plain_indent)
  then have "\<forall>x\<in>set gap. x \<noteq> 0"
    unfolding gap_def by (rule bytes_of_not_zero)
  then have "c_string (a @ gap @ b) = a @ gap @ b" "c_string a = a" "c_string b = b"
    using nonzero [OF a] nonzero [OF b] by (auto intro!: cs)
  moreover have "map chr gap = ''\" />\<newline>'' @ xml level ds @ indent level @ ''<url value=\"''"
    unfolding gap_def by (rule chr_bytes_of)
  ultimately show ?thesis
    unfolding gap_def [symmetric] using url by (simp add: convert_xml url_xml_def xml_append)
qed

theorem url_forges_elements_witness:
  "convert_raw_data_to_xml (\<lambda>i. 0) 2
      [Sdp_str SDP_URL_STR8 ([0x61] @ bytes_of (''\" />\<newline>'' @ xml 2 [Sdp_scalar SDP_BOOL (Val8 1)] @ indent 2 @ ''<url value=\"'') @ [0x62])] =
    convert_raw_data_to_xml (\<lambda>i. 0) 2 (Sdp_str SDP_URL_STR8 [0x61] # [Sdp_scalar SDP_BOOL (Val8 1)] @ [Sdp_str SDP_URL_STR8 [0x62]])"
  by (rule url_forges_elements) simp_all

end
