(* ===== verification/Sdp_Tool.thy ===== *)
theory Sdp_Tool
  imports Sdp_Browse Sdp_Xml_Props
begin

text \<open>
  \<open>do_search\<close> of tools/sdptool.c as \<open>sdptool browse --xml\<close> runs it on a device: a search for the
  records of a browse group, their XML, and a search of the groups that they name.  The list of
  connections is what the function meets when it connects, one after the other: no connection,
  or the contents of the heap under the response buffer and the answers of the peer.
\<close>

unbundle bit_operations_syntax

abbreviation (input) "SDP_ATTR_GROUP_ID \<equiv> (0x0200 :: u16)"

text \<open>
  \<open>sdp_get_group_id\<close>: no attribute, or the union of its value read as a UUID.  The code does
  that whatever the type of the attribute is; the model has no value for the UUID that lies in
  a number, a string or a sequence (the inner \<open>None\<close>).
\<close>

definition sdp_get_group_id :: "sdp_record \<Rightarrow> sdp_uuid option option" where
  "sdp_get_group_id rec =
     (case sdp_data_get rec SDP_ATTR_GROUP_ID of
        None \<Rightarrow> None
      | Some (Sdp_scalar t (Val_uuid u)) \<Rightarrow> Some (Some u)
      | Some d \<Rightarrow> Some None)"

text \<open>\<open>group.value.uuid16\<close>: the first two bytes of the value.\<close>

fun value_uuid16 :: "sdp_uuid \<Rightarrow> u16" where
  "value_uuid16 (SDP_uuid16 v) = v"
| "value_uuid16 (SDP_uuid32 v) = ucast v"
| "value_uuid16 (SDP_uuid128 d) = le16 (d ! 0) (d ! 1)"
| "value_uuid16 SDP_no_uuid = 0"

text \<open>
  The heap, the address and the two messages of \<open>strerror\<close> are arguments.  The output comes
  with the connections that are left.  A search of a group runs when the record that names it
  has been printed, and its result is ignored.
\<close>

record tool =
  t_reread :: bool
  t_heap :: "nat \<Rightarrow> u8"
  t_addr :: string
  t_connect_error :: string
  t_search_error :: string

type_synonym connections = "(u8 list \<times> answer list) option list"

fun do_search :: "nat \<Rightarrow> tool \<Rightarrow> sdp_uuid \<Rightarrow> connections \<Rightarrow> (string \<times> connections) option option"
  and print_records :: "nat \<Rightarrow> tool \<Rightarrow> sdp_uuid \<Rightarrow> connections \<Rightarrow> sdp_record list \<Rightarrow> (string \<times> connections) option option"
where
  "do_search 0 w grp conns = None"
| "do_search (Suc f) w grp conns =
     (case conns of
        [] \<Rightarrow> Some (Some (''Failed to connect to SDP server on '' @ t_addr w @ '': '' @ t_connect_error w @ ''\<newline>'', []))
      | None # conns' \<Rightarrow>
          Some (Some (''Failed to connect to SDP server on '' @ t_addr w @ '': '' @ t_connect_error w @ ''\<newline>'', conns'))
      | Some (rsp, answers) # conns' \<Rightarrow>
          and_then (sdp_service_search_attr_req f (t_reread w) (t_heap w) rsp 0 [grp] browse_attrids answers)
            (\<lambda>(sent, ok, recs).
              if \<not> ok then Some (Some (''Browsing '' @ t_addr w @ '' ...\<newline>'' @
                                  ''Service Search failed: '' @ t_search_error w @ ''\<newline>'', conns'))
              else and_then (print_records f w grp conns' recs) (\<lambda>(out, conns'').
                Some (Some (''Browsing '' @ t_addr w @ '' ...\<newline>'' @ out, conns'')))))"
| "print_records 0 w grp conns recs = None"
| "print_records (Suc f) w grp conns recs =
     (case recs of
        [] \<Rightarrow> Some (Some ([], conns))
      | rec # recs' \<Rightarrow>
          and_then (Some (convert_sdp_record_to_xml (t_heap w) rec)) (\<lambda>x.
            and_then (case sdp_get_group_id rec of
                        None \<Rightarrow> Some (Some ([], conns))
                      | Some None \<Rightarrow> Some None
                      | Some (Some sub) \<Rightarrow>
                          if value_uuid16 sub \<noteq> value_uuid16 grp then do_search f w sub conns else Some (Some ([], conns)))
              (\<lambda>(out1, conns1).
                and_then (print_records f w grp conns1 recs') (\<lambda>(out2, conns2).
                  Some (Some (x @ out1 @ out2, conns2))))))"

section \<open>A device without groups\<close>

definition no_subgroup :: "sdp_uuid \<Rightarrow> sdp_record \<Rightarrow> bool" where
  "no_subgroup grp rec \<longleftrightarrow> (case sdp_get_group_id rec of
     None \<Rightarrow> True | Some None \<Rightarrow> False | Some (Some u) \<Rightarrow> value_uuid16 u = value_uuid16 grp)"

lemma print_records_xml:
  "\<forall>rec\<in>set recs. no_subgroup grp rec \<Longrightarrow> length recs < f \<Longrightarrow>
     print_records f w grp conns recs = Some (Some (concat (map record_xml recs), conns))"
proof (induction recs arbitrary: f)
  case Nil
  then show ?case
    by (cases f) simp_all
next
  case (Cons rec recs)
  then obtain g where f: "f = Suc g" "length recs < g"
    by (cases f) auto
  have "(case sdp_get_group_id rec of None \<Rightarrow> Some (Some ([], conns)) | Some None \<Rightarrow> Some None
      | Some (Some sub) \<Rightarrow> if value_uuid16 sub \<noteq> value_uuid16 grp then do_search g w sub conns else Some (Some ([], conns))) =
      Some (Some ([], conns))"
    using Cons.prems(1) by (auto simp: no_subgroup_def split: option.splits)
  then show ?case
    using Cons f by (simp add: convert_sdp_record_to_xml_Some del: do_search.simps)
qed

end
