(* ===== verification/Sdp_Props.thy ===== *)
theory Sdp_Props
  imports Sdp_Tool
begin

text \<open>
  The properties of the SDP browser, with a device whose response comes in two fragments as
  the example that their witnesses run.
\<close>

unbundle bit_operations_syntax

section \<open>The example\<close>

definition port_record :: "(u16 \<times> sdp_data) list" where
  "port_record = [(0x0000, Sdp_scalar SDP_UINT32 (Val32 0x00010001)),
     (0x0001, Sdp_seq SDP_SEQ8 [Sdp_scalar SDP_UUID16 (Val_uuid (SDP_uuid16 0x1101))]),
     (0x0100, Sdp_str SDP_TEXT_STR8 [0x43, 0x4F, 0x4D])]"

definition port_response :: "u8 list" where
  "port_response = response_bytes SDP_SEQ16 [(SDP_SEQ8, port_record)]"

definition port_frags :: "(u8 list \<times> u8 list) list" where
  "port_frags = [(take 5 port_response, [0xA1, 0xA2]), (drop 5 port_response, [])]"

definition browse_body :: "u8 list" where
  "browse_body = request_body (enc (Sdp_seq SDP_SEQ8 [uuid_elem (SDP_uuid16 PUBLIC_BROWSE_GROUP)])) (enc (Sdp_seq SDP_SEQ8 browse_attrids))"

lemmas encode_simps = be_bytes16_def be_bytes32_def bytes16_def bytes32_def header_def len_bytes_def seq_code_def
  sdp_get_data_type_size_def Let_def

lemma port_bytes:
  "enc_attrs port_record = [0x09, 0, 0, 0x0A, 0, 1, 0, 1, 0x09, 0, 1, 0x35, 3, 0x19, 0x11, 1, 0x09, 1, 0, 0x25, 3, 0x43, 0x4F, 0x4D]"
  by (simp add: enc_attrs_def port_record_def encode_simps)

lemma port_record_ok: "record_ok (SDP_SEQ8, port_record)"
  unfolding record_ok_def by (simp add: port_bytes header_ok_def seq_fits_def)
    (simp add: port_record_def seq_fits_def str_fits_def encode_simps)

lemma port_response_ok: "response_ok SDP_SEQ16 [(SDP_SEQ8, port_record)]"
  using port_record_ok by (simp add: response_ok_def length_record_bytes port_bytes header_ok_def seq_fits_def)

lemma length_port_response: "length port_response = 29"
  by (simp add: port_response_def response_bytes_def length_record_bytes port_bytes encode_simps)

lemma port_frags_ok: "frags_ok port_frags"
  using length_port_response by (auto simp: port_frags_def frag_ok_def)

lemma length_browse_body: "length browse_body = 14"
  by (simp add: browse_body_def request_body_def browse_attrids_def encode_simps)

lemma browse_request_ok:
  "sdp_ok (Sdp_seq SDP_SEQ8 (map uuid_elem [SDP_uuid16 PUBLIC_BROWSE_GROUP]))" "sdp_ok (Sdp_seq SDP_SEQ8 browse_attrids)"
  by (simp_all add: browse_attrids_def seq_fits_def encode_simps)

section \<open>Browsing\<close>

lemma length_records: "\<forall>r\<in>set rs. record_ok r \<Longrightarrow> length rs \<le> length (concat (map record_bytes rs))"
proof (induction rs)
  case (Cons r rs)
  then show ?case
    using record_bytes_size [of r] by simp
qed simp

text \<open>C19.
  The search for services returns exactly the records of the peer, with their attributes, in
  however many fragments the peer sends them and whatever headers it chooses, and every request
  after the first one carries the continuation state of the response before it.
\<close>
theorem service_search_reads_records:
  assumes "length rsp = SDP_RSP_BUFFER_SIZE" "frags_ok fcs" "concat (map fst fcs) = response_bytes t rs"
    "response_ok t rs" "length (response_bytes t rs) + 1 < 2 ^ 31" "4 * (14 + length (response_bytes t rs)) \<le> f"
  shows "sdp_service_search_attr_req f reread heap rsp tid [SDP_uuid16 PUBLIC_BROWSE_GROUP] browse_attrids (answers_from tid fcs) =
    Some (Some (request_log browse_body tid [0] fcs, True, map the_record rs))"
  by (rule service_search_reads)
    (use assms browse_request_ok length_browse_body in \<open>auto simp: browse_body_def simp del: enc.simps sdp_ok.simps\<close>)

theorem service_search_reads_records_witness:
  "sdp_service_search_attr_req 200 True (\<lambda>i. 0) (replicate SDP_RSP_BUFFER_SIZE 0) 5 [SDP_uuid16 PUBLIC_BROWSE_GROUP]
      browse_attrids (answers_from 5 port_frags) =
    Some (Some ([sdp_request browse_body 5 [0], sdp_request browse_body 6 [2, 0xA1, 0xA2]], True,
      [the_record (SDP_SEQ8, port_record)]))"
proof -
  have "concat (map fst port_frags) = response_bytes SDP_SEQ16 [(SDP_SEQ8, port_record)]"
    by (simp add: port_frags_def port_response_def)
  from service_search_reads_records [OF _ port_frags_ok this port_response_ok, of "replicate SDP_RSP_BUFFER_SIZE 0" 200 True
      "\<lambda>i. 0" 5]
  show ?thesis
    using length_port_response by (simp add: port_response_def) (simp add: port_frags_def)
qed

text \<open>C18.
  Browsing a device whose records name no further group prints the XML of each of its records,
  in their order, and nothing of the heap.
\<close>
theorem browse_prints_records:
  assumes "length rsp = SDP_RSP_BUFFER_SIZE" "frags_ok fcs" "concat (map fst fcs) = response_bytes t rs"
    "response_ok t rs" "length (response_bytes t rs) + 1 < 2 ^ 31" "4 * (14 + length (response_bytes t rs)) \<le> f"
    "\<forall>r\<in>set rs. no_subgroup (SDP_uuid16 PUBLIC_BROWSE_GROUP) (the_record r)"
  shows "do_search (Suc f) w (SDP_uuid16 PUBLIC_BROWSE_GROUP) (Some (rsp, answers_from 0 fcs) # conns) =
    Some (Some (''Browsing '' @ t_addr w @ '' ...\<newline>'' @ concat (map (\<lambda>r. record_xml (the_record r)) rs), conns))"
proof -
  have "length rs < f"
    using length_records [of rs] assms(4,6) by (simp add: response_ok_def response_bytes_def Let_def)
  then have "print_records f w (SDP_uuid16 PUBLIC_BROWSE_GROUP) conns (map the_record rs) =
      Some (Some (concat (map record_xml (map the_record rs)), conns))"
    by (intro print_records_xml) (use assms(7) in auto)
  moreover note service_search_reads [OF browse_request_ok, where body = browse_body and tid = 0 and rsp = rsp and fcs = fcs
      and t = t and rs = rs and f = f and reread = "t_reread w" and heap = "t_heap w"]
  ultimately show ?thesis
    using assms(1-6) length_browse_body
    by (simp add: browse_body_def comp_def del: enc.simps print_records.simps)
qed

text \<open>The XML of the example, evaluated.\<close>

definition port_xml :: string where
  "port_xml = ''<?xml version=\"1.0\" encoding=\"UTF-8\" ?>\<newline>\<newline><record>\<newline>'' @
     tab @ ''<attribute id=\"0x0000\">\<newline>'' @ tab @ tab @ ''<uint32 value=\"0x00010001\" />\<newline>'' @ tab @ ''</attribute>\<newline>'' @
     tab @ ''<attribute id=\"0x0001\">\<newline>'' @ tab @ tab @ ''<sequence>\<newline>'' @ tab @ tab @ tab @ ''<uuid value=\"0x1101\" />\<newline>'' @ tab @ tab @ ''</sequence>\<newline>'' @ tab @ ''</attribute>\<newline>'' @
     tab @ ''<attribute id=\"0x0100\">\<newline>'' @ tab @ tab @ ''<text value=\"COM\" />\<newline>'' @ tab @ ''</attribute>\<newline></record>\<newline>''"

lemma port_attrlist: "rec_attrlist (the_record (SDP_SEQ8, port_record)) = port_record"
  using rec_attrlist_the_record [OF port_record_ok] by (simp add: port_record_def encode_simps)

lemma hex_numeral: "hex (numeral k) v = hex (pred_numeral k) (v div 16) @ [hex_digit (v mod 16)]"
  by (simp only: numeral_eq_Suc hex.simps)

lemma replicate_tabs: "replicate (numeral k) c = c # replicate (pred_numeral k) c"
  by (simp only: numeral_eq_Suc replicate_Suc)

lemma port_attrs_xml:
  "attr_xml (0x0000, Sdp_scalar SDP_UINT32 (Val32 0x00010001)) =
     tab @ ''<attribute id=\"0x0000\">\<newline>'' @ tab @ tab @ ''<uint32 value=\"0x00010001\" />\<newline>'' @ tab @ ''</attribute>\<newline>''"
  "attr_xml (0x0001, Sdp_seq SDP_SEQ8 [Sdp_scalar SDP_UUID16 (Val_uuid (SDP_uuid16 0x1101))]) =
     tab @ ''<attribute id=\"0x0001\">\<newline>'' @ tab @ tab @ ''<sequence>\<newline>'' @ tab @ tab @ tab @ ''<uuid value=\"0x1101\" />\<newline>'' @ tab @ tab @ ''</sequence>\<newline>'' @ tab @ ''</attribute>\<newline>''"
  "attr_xml (0x0100, Sdp_str SDP_TEXT_STR8 [0x43, 0x4F, 0x4D]) =
     tab @ ''<attribute id=\"0x0100\">\<newline>'' @ tab @ tab @ ''<text value=\"COM\" />\<newline>'' @ tab @ ''</attribute>\<newline>''"
  by (simp_all add: attr_xml_def scalar_xml_def indent_def capped_def sdp_is_seq_def text_value_def text_is_hex_def isprint_def
      escape_def chr_def hex_digit_def hex_numeral replicate_tabs char_of_eq_iff Let_def)

lemma port_record_xml: "record_xml (the_record (SDP_SEQ8, port_record)) = port_xml"
  by (simp add: record_xml_def port_attrlist) (simp add: port_record_def port_xml_def port_attrs_xml)

theorem browse_prints_records_witness:
  "do_search (Suc 200) \<lparr>t_reread = True, t_heap = (\<lambda>i. 0), t_addr = ''AA:BB'', t_connect_error = [], t_search_error = []\<rparr>
      (SDP_uuid16 PUBLIC_BROWSE_GROUP) [Some (replicate SDP_RSP_BUFFER_SIZE 0, answers_from 0 port_frags)] =
    Some (Some (''Browsing AA:BB ...\<newline>'' @ port_xml, []))"
proof -
  have "concat (map fst port_frags) = response_bytes SDP_SEQ16 [(SDP_SEQ8, port_record)]"
    by (simp add: port_frags_def port_response_def)
  moreover have "no_subgroup (SDP_uuid16 PUBLIC_BROWSE_GROUP) (the_record (SDP_SEQ8, port_record))"
    by (simp add: no_subgroup_def sdp_get_group_id_def sdp_data_get_def port_attrlist) (simp add: port_record_def)
  ultimately show ?thesis
    using browse_prints_records [of "replicate SDP_RSP_BUFFER_SIZE 0" port_frags SDP_SEQ16 "[(SDP_SEQ8, port_record)]" 200
        "\<lparr>t_reread = True, t_heap = (\<lambda>i. 0), t_addr = ''AA:BB'', t_connect_error = [], t_search_error = []\<rparr>" "[]"]
      port_frags_ok port_response_ok length_port_response port_record_xml
    by (simp add: port_response_def del: do_search.simps)
qed

section \<open>What is written is read\<close>

text \<open>C20.
  A record whose attributes are in ascending order and of which one is a sequence with elements
  is written inside its buffer, and reading the bytes gives its attributes back, each with the
  value it had and the size of header it was written with, whatever follows the record.
\<close>
theorem sdp_record_read_back:
  assumes "\<forall>ad\<in>set (rec_attrlist rec). sdp_ok (snd ad)" "\<exists>ad\<in>set (rec_attrlist rec). nested (snd ad)"
    "sorted_wrt (\<lambda>x y. fst x < fst y) (rec_attrlist rec)" "length (enc_attrs (rec_attrlist rec)) \<le> 65535"
    "4 * length (enc_attrs (rec_attrlist rec)) + 9 \<le> f"
  shows "\<exists>pdu rec'. sdp_gen_record_pdu reread heap f rec = Some (Some pdu) \<and>
    sdp_extract_pdu f (take (data_size pdu) (buf_data pdu) @ rest) = Some (Some (rec', int (data_size pdu))) \<and>
    rec_attrlist rec' = map (\<lambda>(a, d). (a, promote d)) (rec_attrlist rec)"
proof -
  define body where "body = enc_attrs (rec_attrlist rec)"
  define r where "r = (outer_code (length body), rec_attrlist rec)"
  obtain pdu where pdu: "sdp_gen_record_pdu reread heap f rec = Some (Some pdu)" "holds pdu body"
    using sdp_gen_record_pdu_holds [of rec f reread heap] assms by (auto simp: body_def)
  have bytes: "take (data_size pdu) (buf_data pdu) = record_bytes r" "data_size pdu = length (record_bytes r)"
    using pdu(2) by (auto simp: holds_def record_bytes_def r_def body_def Let_def)
  have r: "record_ok r" "3 * length (record_bytes r) \<le> f"
    using assms by (auto simp: record_ok_def r_def body_def header_ok_def seq_fits_def outer_code_def length_record_bytes)
  have "sdp_extract_pdu f (take (data_size pdu) (buf_data pdu) @ rest) = Some (Some (the_record r, int (data_size pdu)))"
    unfolding bytes(1) unfolding bytes(2) by (rule sdp_extract_pdu_record [OF r])
  then show ?thesis
    using pdu(1) rec_attrlist_the_record [OF r(1)] by (auto simp: r_def)
qed

theorem sdp_record_read_back_witness:
  "\<exists>pdu rec'. sdp_gen_record_pdu False (\<lambda>i. 0xAA) 200 (sdp_record_alloc\<lparr>rec_attrlist := port_record\<rparr>) = Some (Some pdu) \<and>
    sdp_extract_pdu 200 (take (data_size pdu) (buf_data pdu) @ [1, 2, 3]) = Some (Some (rec', int (data_size pdu))) \<and>
    rec_attrlist rec' = port_record"
  using sdp_record_read_back [of "sdp_record_alloc\<lparr>rec_attrlist := port_record\<rparr>" 200 False "\<lambda>i. 0xAA" "[1, 2, 3]"]
    port_record_ok port_bytes
  by (simp add: record_ok_def) (simp add: port_record_def nested_def seq_code_def)

text \<open>C21.
  A data element that its type code fits is written where the buffer has room, over nothing but
  its own bytes, and read from there as it was, with its UUIDs noted in the record.
\<close>
theorem sdp_element_read_back:
  assumes "sdp_ok d" "room buf (length (enc d))" "4 * length (enc d) \<le> f"
  shows "\<exists>buf' n. sdp_gen_pdu f buf d = Some (Some (buf', promote d, n)) \<and>
    buf_data buf' = overwrite (buf_data buf) (data_size buf) (take n (drop (data_size buf) (buf_data buf'))) \<and>
    sdp_extract_attr f (drop (data_size buf) (buf_data buf')) rec =
      Some (Some (Some (promote d), n, note_uuids (uuids d) rec))"
proof -
  have tail: "drop (data_size buf) (overwrite (buf_data buf) (data_size buf) (enc d)) =
      enc d @ drop (data_size buf + length (enc d)) (buf_data buf)"
    using assms(2) by (simp add: overwrite_def room_def)
  have "sdp_extract_attr f (enc d @ drop (data_size buf + length (enc d)) (buf_data buf)) rec =
      Some (Some (Some (promote d), length (enc d), note_uuids (uuids d) rec))"
    using assms by (intro sdp_extract_attr_enc) auto
  then show ?thesis
    using sdp_gen_pdu_writes [OF assms] by (simp add: tail)
qed

theorem sdp_element_read_back_witness:
  "\<exists>buf' n. sdp_gen_pdu 40 \<lparr>buf_data = replicate 12 0xEE, data_size = 2, buf_size = 12\<rparr>
      (Sdp_seq SDP_SEQ8 [Sdp_scalar SDP_INT16 (Val16 0xFFFE), Sdp_scalar SDP_BOOL (Val8 1)]) =
      Some (Some (buf', Sdp_seq SDP_SEQ8 [Sdp_scalar SDP_INT16 (Val16 0xFFFE), Sdp_scalar SDP_BOOL (Val8 1)], n)) \<and>
    buf_data buf' = overwrite (replicate 12 0xEE) 2 (take n (drop 2 (buf_data buf'))) \<and>
    sdp_extract_attr 40 (drop 2 (buf_data buf')) None =
      Some (Some (Some (Sdp_seq SDP_SEQ8 [Sdp_scalar SDP_INT16 (Val16 0xFFFE), Sdp_scalar SDP_BOOL (Val8 1)]), n, None))"
  using sdp_element_read_back [of "Sdp_seq SDP_SEQ8 [Sdp_scalar SDP_INT16 (Val16 0xFFFE), Sdp_scalar SDP_BOOL (Val8 1)]"
      "\<lparr>buf_data = replicate 12 0xEE, data_size = 2, buf_size = 12\<rparr>" 40 None]
  by (simp add: seq_fits_def encode_simps room_def note_uuids_def del: sdp_gen_pdu.simps sdp_extract_attr.simps replicate.simps)

section \<open>Whether the extraction returns\<close>

text \<open>C22.
  The extraction of a record returns within three steps for each byte, with the same result for
  any more fuel, unless a sequence header is cut off at the end of the response.
\<close>
theorem record_extraction_ends:
  assumes "no_cut buf"
  shows "\<exists>r. \<forall>f. 3 * length buf + 2 \<le> f \<longrightarrow> sdp_extract_pdu f buf = Some r"
proof -
  obtain r where "sdp_extract_pdu (3 * length buf + 2) buf = Some r"
    using sdp_extract_pdu_returns [OF assms] by blast
  then show ?thesis
    using sdp_extract_pdu_mono by blast
qed

theorem record_extraction_ends_witness:
  "\<exists>r. \<forall>f. 17 \<le> f \<longrightarrow> sdp_extract_pdu f [SDP_SEQ8, 9, 9, 0, 0] = Some r"
proof -
  have "no_cut [SDP_SEQ8, 9, 9, 0, 0]"
    by (simp add: no_cut_def cut_header_def sdp_is_seq_def sdp_is_alt_def)
  from record_extraction_ends [OF this] show ?thesis
    by auto
qed

text \<open>C30.
  A sequence that goes on with a header which is cut off is read for ever: the header counts
  as an element of no bytes, so the loop comes to it again with nothing changed.
\<close>
theorem cut_header_read_for_ever:
  assumes "cut_header q" "0 < k"
  shows "sdp_extract_attr f (SDP_SEQ8 # k # q) rec = None"
proof -
  obtain b bs where q: "q = b # bs"
    using assms(1) by (cases q) (auto simp: cut_header_def)
  have b: "\<not> int_code b" "\<not> sdp_is_uuid b" "\<not> str_code b" "sdp_is_seq b \<or> sdp_is_alt b"
    "sdp_extract_seqtype q 0 0 = Some (0, b, 0)"
    using assms(1) by (auto simp: q cut_header_def code_simps sdp_extract_seqtype_def Let_def split: if_splits)
  have elem: "sdp_extract_attr g q rec \<in> {None, Some (Some (Some (Sdp_seq b []), 0, rec))}" for g
    using b by (cases g; cases "g - 1") (auto simp: q)
  have loop: "extract_elems g q 0 (uint k) rec = None" for g
  proof (induction g)
    case (Suc g)
    have "0 < uint k"
      using assms(2) by (simp add: word_less_def)
    then show ?case
      using elem [of g] Suc by auto
  qed simp
  show ?thesis
    by (cases f; cases "f - 1") (auto simp: code_simps sdp_extract_seqtype_def Let_def loop)
qed

theorem cut_header_read_for_ever_witness: "sdp_extract_attr 1000000 [SDP_SEQ8, 5, SDP_SEQ16, 0] None = None"
  by (rule cut_header_read_for_ever) (simp_all add: cut_header_def sdp_is_seq_def)

section \<open>What the code does not guard against\<close>

text \<open>C31.
  The estimate forgets the header of the outer sequence: a record whose only attribute is a
  number or a UUID is written two bytes past the end of the buffer made for it.
\<close>
theorem single_value_record_overflows:
  assumes "rec_attrlist rec = [(a, Sdp_scalar t v)]" "scalar_ok t v" "t \<noteq> SDP_DATA_NIL" "4 * (1 + scalar_size t) \<le> f"
  shows "sdp_gen_record_pdu reread heap f rec = Some None"
proof -
  have len: "length (enc (Sdp_scalar t v)) = 1 + scalar_size t"
    using scalar_src_size [OF assms(2)] by (auto split: option.splits)
  have t: "sdp_get_data_type_size t = 1" "t \<noteq> SDP_SEQ8"
    using assms(2) by (cases "(t, v)" rule: scalar_ok.cases; auto simp: code_simps)+
  define n where "n = 4 + scalar_size t"
  have size: "sdp_gen_buffer reread 0 (Sdp_scalar t v) = n"
    using assms(3) t by (simp add: n_def Let_def)
  define pdu where "pdu = alloc (\<lambda>i. 0) n"
  have "sdp_append_to_pdu reread heap f pdu (a, Sdp_scalar t v) = Some (sdp_append_to_buf pdu (enc_attr (a, Sdp_scalar t v)))"
    by (rule sdp_append_to_pdu_attr) (use assms len in auto)
  moreover have "length (enc_attr (a, Sdp_scalar t v)) = n"
    using len length_enc_attr [of "(a, Sdp_scalar t v)"] by (simp add: n_def del: enc_attr.simps enc.simps)
  then have "sdp_append_to_buf pdu (enc_attr (a, Sdp_scalar t v)) = None"
    by (simp add: sdp_append_to_buf_def pdu_def alloc_def put_def n_def del: enc_attr.simps)
  ultimately show ?thesis
    using assms(1) size by (simp add: sdp_gen_record_pdu_def pdu_def del: enc_attr.simps sdp_gen_buffer.simps)
qed

theorem single_value_record_overflows_witness:
  "sdp_gen_record_pdu True (\<lambda>i. 0) 20 (sdp_record_alloc\<lparr>rec_attrlist := [(0, Sdp_scalar SDP_UINT32 (Val32 7))]\<rparr>) = Some None"
  by (rule single_value_record_overflows [where a = 0 and t = SDP_UINT32 and v = "Val32 7"]) (simp_all add: scalar_size_def)

text \<open>The answer that claims a continuation state of \<open>k\<close> bytes and sends none.\<close>

definition short_cstate :: "u16 \<Rightarrow> u8 \<Rightarrow> u8 \<Rightarrow> u8 list" where
  "short_cstate t x k = 0x07 # be_bytes16 t @ [0, 4, 0, 1, x, k]"

text \<open>C32.
  The length of a continuation state is taken from the peer and not compared with what it sent:
  a peer that announces \<open>k\<close> bytes and sends none finds \<open>k\<close> bytes of the client's heap in the
  next request.
\<close>
theorem continuation_state_leaks_heap:
  assumes "length rsp = SDP_RSP_BUFFER_SIZE" "0 < k"
  shows "search_rounds browse_body [Packet (short_cstate t x k)] 0 (search_init t rsp) =
    Some ([sdp_request browse_body t [0], sdp_request browse_body (t + 1) (k # take (unat k) (drop 9 rsp))], None)"
proof -
  obtain hi lo where t: "be_bytes16 t = [hi, lo]"
    by (simp add: be_bytes16_def bytes16_def)
  define buf where "buf = short_cstate t x k @ drop 9 rsp"
  have "length (short_cstate t x k) = 9"
    by (simp add: short_cstate_def t)
  then have put: "put rsp 0 (short_cstate t x k) = Some buf"
    using assms(1) by (simp add: put_def overwrite_def buf_def)
  have buf: "buf = [0x07, hi, lo, 0, 4, 0, 1, x, k] @ drop 9 rsp" "length buf = SDP_RSP_BUFFER_SIZE"
    using assms(1) by (simp_all add: buf_def short_cstate_def t)
  have unat: "unat k \<le> 255"
    using unsigned_less [of k, where 'a = nat] by simp
  have send: "sdp_send_req_w4_rsp (Packet (short_cstate t x k)) (sdp_request browse_body t [0]) rsp 0 = Some (True, buf, 9)"
    using put by (simp add: sdp_send_req_w4_rsp_def Let_def) (simp add: short_cstate_def t sdp_request_def buf)
  define s where "s = (search_init t rsp)\<lparr>next_tid := t + 1, requests := [sdp_request browse_body t [0]], rspbuf := buf\<rparr>"
  have "rd_be16 buf 5 = Some 1"
    by (simp add: buf be16_at_def le16_def)
  then have take: "take_response 9 s = Some (Some (s\<lparr>attr_list_len := 1, cstate := Some 8, concat_buf := [x]\<rparr>))"
    using assms(2) buf by (simp add: take_response_def s_def search_init_def Let_def)
  have copy: "copy_cstate (SDP_REQ_BUFFER_SIZE - (5 + length browse_body)) buf (Some 8) = Some (k # take (unat k) (drop 9 rsp))"
    using unat buf assms(1) by (simp add: copy_cstate_def length_browse_body Let_def)
  show ?thesis
    using send take copy by (simp add: search_init_def copy_cstate_def [of _ _ None] s_def length_browse_body Let_def)
qed

theorem continuation_state_leaks_heap_witness:
  "search_rounds browse_body [Packet (short_cstate 1 0 3)] 0 (search_init 1 ([0, 0, 0, 0, 0, 0, 0, 0, 0, 0xCA, 0xFE, 0x42] @ replicate 65523 0)) =
    Some ([sdp_request browse_body 1 [0], sdp_request browse_body 2 [3, 0xCA, 0xFE, 0x42]], None)"
  using continuation_state_leaks_heap [of "[0, 0, 0, 0, 0, 0, 0, 0, 0, 0xCA, 0xFE, 0x42] @ replicate 65523 0" 3 1 0]
  by (simp del: search_rounds.simps replicate.simps)

text \<open>
  A record whose 32-bit length is \<open>2 ^ 32 - 128\<close> moves the client before its buffer, where it
  goes on reading.
\<close>

definition before_buffer :: "(u8 list \<times> u8 list) list" where
  "before_buffer = [([SDP_SEQ8, 5], [1]), ([SDP_SEQ32, 0xFF, 0xFF, 0xFF, 0x80], [])]"

lemma negative_record_size:
  assumes "length rsp = SDP_RSP_BUFFER_SIZE" "100 \<le> f"
  shows "sdp_service_search_attr_req (Suc (Suc (Suc f))) reread heap rsp tid [SDP_uuid16 PUBLIC_BROWSE_GROUP] browse_attrids
    (answers_from tid before_buffer) = Some None"
proof -
  have gen: "gen_dataseq_pdu reread heap (Suc (Suc (Suc f))) ds =
      Some (Some (enc (Sdp_seq SDP_SEQ8 ds), length (enc (Sdp_seq SDP_SEQ8 ds))))"
    if "ds = map uuid_elem [SDP_uuid16 PUBLIC_BROWSE_GROUP] \<or> ds = browse_attrids" for ds
    using that by (intro gen_dataseq_pdu_enc) (use browse_request_ok assms(2) in \<open>auto simp: browse_attrids_def encode_simps\<close>)
  have s: "before_round browse_body tid [0] (search_init tid rsp)" "concat_buf (search_init tid rsp) = []"
    "requests (search_init tid rsp) = []" "attr_list_len (search_init tid rsp) = 0"
    using assms(1) by (simp_all add: search_init_def before_round_def copy_cstate_def)
  have "frags_ok before_buffer" "2 \<le> length before_buffer"
    by (simp_all add: before_buffer_def frag_ok_def)
  then obtain s' n where s': "search_rounds browse_body (answers_from tid before_buffer) 0 (search_init tid rsp) =
      Some (request_log browse_body tid [0] before_buffer, Some (s', n))"
    "concat_buf s' = [SDP_SEQ8, 5, SDP_SEQ32, 0xFF, 0xFF, 0xFF, 0x80]" "attr_list_len s' = 7"
    using search_rounds_split [of before_buffer browse_body tid "[0]" "search_init tid rsp" 0] s length_browse_body
    by (auto simp: before_buffer_def)
  have rec: "sdp_extract_pdu (Suc m) [SDP_SEQ32, 0xFF, 0xFF, 0xFF, 0x80] = Some (Some (sdp_record_alloc, -123))" for m
    by (simp add: sdp_extract_pdu_def sdp_extract_seqtype_def be32_at_def le32_def Let_def)
  have "read_records (Suc (Suc (Suc f))) k s' n = Some None" for k
    by (simp add: read_records_def s' bytes_at_def sdp_extract_seqtype_def rec Let_def)
  then show ?thesis
    using gen [of "map uuid_elem [SDP_uuid16 PUBLIC_BROWSE_GROUP]"] gen [of browse_attrids] s'(1)
    by (simp add: sdp_service_search_attr_req_def browse_body_def del: enc.simps search_rounds.simps)
qed

end
