(* ===== verification/Spec2Isabelle.thy ===== *)
theory Spec2Isabelle
  imports Link_Reach Host_Path Command_Props Ext_Adv Gatttool_Device Sdp_Props
begin

text \<open>
  Verification development for the C code of Blue2thprinting: the Sniffle firmware (src/Sniffle/fw, which
  runs on the CC13xx/CC26xx radio chips and records what devices send), the GATT printer (attrib/gatttool.c
  under src/bluez-5.66, which connects to a device and logs what its GATT server has) and the SDP browser
  (\<open>sdptool browse --xml\<close>, tools/sdptool.c under src/bluez-5.66, which logs the service records of a
  device), with the parts of BlueZ that they run on.  The programs share no state; all of them write
  what the Python tools read.


  \<^bold>\<open>The firmware.\<close>  Three RTOS tasks and three interrupt level handlers share static variables.
  The radio task (RadioTask.c) runs the state machine of the sniffer: it asks the radio for one
  operation after the other through RadioWrapper.c, blocks in it, and follows advertisements,
  auxiliary advertisements and connections.  Received frames come from the receive interrupt
  (RadioWrapper.c, RFQueue.c) into \<open>indicatePacket\<close> (PacketTask.c), which filters them, lets
  the radio task's code react to them and queues them.  The packet task sends the queued frames
  to the host as base64 messages (messenger.c, base64.c).  The command task (CommandTask.c)
  receives messages from the host and calls the setters and mode changes of RadioTask.c.  Two
  one-shot clocks (DelayHopTrigger.c, DelayStopTrigger.c) interrupt the radio.  Around this sit
  the data structures: the queue of connection parameter changes (conf_queue.c), the transmit
  queue (TXQueue.c), the schedule of auxiliary events (AuxAdvScheduler.c), the header cache
  (adv_header_cache.c), channel selection (csa2.c and \<open>computeMap1\<close> of RadioTask.c), and the
  resolver of private addresses (rpa_resolver.c on sw_aes128.c).


  \<^bold>\<open>The GATT printer.\<close>  After the connection gatttool.c creates an attribute channel (attrib/gattrib.c on
  src/shared/att.c) and starts four procedures of attrib/gatt.c on it: the discovery of primary services,
  of secondary services, of characteristics and of descriptors.  Each has one request in the queue of
  the channel, which sends one request at a time; the answer runs the procedure's callback in gatt.c,
  which decodes it (attrib/att.c), collects what it lists and either queues the next request behind
  those that wait or calls back into gatttool.c.  That appends lines to the log (UUIDs as text by
  lib/uuid.c) and queues a read for every characteristic that says it can be read; the parts of a
  long value are asked for one after the other, ahead of the queue.  The main loop ends with the last
  descriptor.


  \<^bold>\<open>The SDP browser.\<close>  \<open>do_search\<close> (tools/sdptool.c) asks the device for every attribute of the records of
  the public browse group.  lib/sdp.c writes the two sequences of the request, sends it, and repeats it
  with the continuation state of the last response until all fragments have arrived; then it reads the
  records from the collected bytes.  src/sdp-xml.c prints each of them, and a record that names another
  group makes \<open>do_search\<close> call itself for that group.


  \<^bold>\<open>Theories and sources of the firmware.\<close>

  \<^item> \<open>Prelude\<close>: words of C's widths, bounded reads and copies (\<open>rd\<close>, \<open>rds\<close>, \<open>overwrite\<close>), little
    endian fields, wrap-around time, sorting with a comparison (\<open>qsort\<close>), rule collections.
  \<^item> \<open>Ring\<close>: the masked ring buffer of three files as a list, and the locale \<open>bounded_fifo\<close>.
  \<^item> \<open>Radio_Types\<close>: RadioWrapper.h, RadioTask.h; the frame, modes and connection parameters.
  \<^item> \<open>Conf_Queue\<close>, \<open>Tx_Queue\<close>, \<open>Aux_Sched\<close>, \<open>Adv_Cache\<close>: conf_queue.c, TXQueue.c,
    AuxAdvScheduler.c, adv_header_cache.c.
  \<^item> \<open>Csa\<close>: csa2.c and \<open>computeMap1\<close>; the locale \<open>channel_selection\<close> is what both promise.
  \<^item> \<open>Base64\<close>, \<open>Messenger\<close>: base64.c, messenger.c.
  \<^item> \<open>Aes\<close>, \<open>Rpa\<close>: sw_aes128.c, rpa_resolver.c; the locale \<open>block_cipher\<close>.
  \<^item> \<open>Firmware_State\<close>: the static variables of PacketTask.c, the triggers, RadioWrapper.c and
    RadioTask.c in one record \<open>fw\<close>, extended layer by layer, with their initial values.
  \<^item> \<open>Triggers\<close>: DelayHopTrigger.c, DelayStopTrigger.c and the requests they make.
  \<^item> \<open>Radio_Wrapper\<close>: RFQueue.c and RadioWrapper.c.
  \<^item> \<open>Packet_Task\<close>: PacketTask.c without \<open>indicatePacket\<close>, measurements.c, debug.c.
  \<^item> \<open>Radio_Conn\<close>, \<open>Radio_React\<close>, \<open>Radio_Loop\<close>, \<open>Radio_Commands\<close>: RadioTask.c, in the order
    connections, advertisements (and \<open>indicatePacket\<close>), main loop, operations for the host.
  \<^item> \<open>Command_Task\<close>: CommandTask.c.
  \<^item> \<open>Radio_Inv\<close>, \<open>Radio_Safe\<close>, \<open>Radio_System\<close>: the invariant of the state and its preservation by
    every operation, handler and loop step.
  \<^item> \<open>Firmware_System\<close>: the tasks and handlers composed into a transition system.
  \<^item> \<open>Link_Spec\<close>, \<open>Conn_Start\<close>, \<open>Command_Props\<close>, \<open>Loop_Props\<close>, \<open>Ext_Adv\<close>: what following a
    connection, commands, the loop and extended advertising mean, and that the code does it.
  \<^item> \<open>Reach\<close>: what every operation keeps beside the invariant, namely the tables of the connection
    and the frames queued for the host; one lemma per operation, composed for every step.
  \<^item> \<open>Link_Reach\<close>, \<open>Host_Path\<close>: what follows for whole histories, about the radio's connection
    events and about the frames on their way to the host and over the serial line.


  \<^bold>\<open>Theories and sources of the GATT printer\<close> (paths under src/bluez-5.66).

  \<^item> \<open>Bt_Uuid\<close>: lib/uuid.c, the UUID type, its conversions, comparison and text.
  \<^item> \<open>Att_Pdu\<close>: attrib/att.c, every encoder and decoder of the protocol's PDUs but the signed write;
    \<open>Att_Props\<close>: what they do on buffers, shared by all later proofs.
  \<^item> \<open>Gatt\<close>: attrib/gatt.c, the callbacks of the discovery procedures, long reads and writes.  A callback
    is a function from a status, a PDU and the procedure's record to a \<open>reaction\<close>: the next
    request with the new record, or the user's function with what was found.
  \<^item> \<open>Gatt_Client\<close>, \<open>Gatt_Listing\<close>, \<open>Gatt_Read\<close>: a procedure driven by a server.  The locale
    \<open>progressing\<close> is the argument that it ends whatever the server answers, \<open>handle_listing\<close> the
    one that it finds all that a conforming server has; both are interpreted on the callbacks.
  \<^item> \<open>Gatt_Props\<close>: the theorems on single procedures.
  \<^item> \<open>Att_Chan\<close>: src/shared/att.c and attrib/gattrib.c for one LE channel: sending, resending under the id of
    the pending request, responses, requests and notifications without a handler, security retries,
    time-outs, disconnection.  Handlers are given the function that runs an operation's callback.
  \<^item> \<open>Gatttool\<close>: attrib/gatttool.c, the log, the callbacks, the connection and the main loop.
  \<^item> \<open>Att_Chan_Props\<close>, \<open>Gatttool_Typed\<close>, \<open>Gatttool_Props\<close>: what holds whatever the other side sends.  The
    locales \<open>channel_client\<close> (a client's invariant) and \<open>typed_client\<close> (well-formed operations) carry
    a property of the callbacks to every event of the channel; the printer interprets both.
  \<^item> \<open>Gatttool_Session\<close>, \<open>Gatttool_Turns\<close>, \<open>Gatttool_Refine\<close>: sessions with a device that answers.  The locale
    \<open>discovery\<close> is what the channel needs of a procedure; \<open>play\<close> is an abstract printer whose tasks
    take turns, \<open>follows\<close> the simulation relation and \<open>follows_turn\<close> the simulation of one turn.
  \<^item> \<open>Gatttool_Server\<close>: a device that answers every request from a database, and the proof that it is one
    of the devices the theorems are about.  \<open>Gatttool_Device\<close>: the theorems on whole sessions.


  \<^bold>\<open>Theories and sources of the SDP browser\<close> (paths under src/bluez-5.66).

  \<^item> \<open>Sdp_Data\<close>: lib/sdp.h and the half of lib/sdp.c that reads data elements and records;
    \<open>Sdp_Extract\<close>: what a call of it consumes and that it returns.
  \<^item> \<open>Sdp_Gen\<close>: the half of lib/sdp.c that writes: the size estimate, the generator of an element, appending
    to a buffer, the PDU of a record and of a search request.
  \<^item> \<open>Sdp_Coding\<close>: the coding \<open>enc\<close> that the protocol prescribes, and that the generator writes it;
    \<open>Sdp_Roundtrip\<close>: that the extraction reads it; \<open>Sdp_Record\<close>: both for records.
  \<^item> \<open>Sdp_Search\<close>: \<open>sdp_service_search_attr_req\<close> of lib/sdp.c with its rounds; \<open>Sdp_Browse\<close>: its run against a
    device that sends its records in fragments.
  \<^item> \<open>Sdp_Xml\<close>, \<open>Sdp_Xml_Props\<close>: the printing half of src/sdp-xml.c, and what it prints.
  \<^item> \<open>Sdp_Tool\<close>: \<open>do_search\<close> of tools/sdptool.c; \<open>Sdp_Props\<close>: the theorems.


  \<^bold>\<open>State and operations.\<close>  A static variable is a field of the same name in the record of its file
  (\<open>adv_state\<close>, \<open>conn_state\<close>, \<open>packet_state\<close>, \<open>wrapper_state\<close> are the layers of \<open>fw\<close>); an array
  is a list of its length, a pointer into an array an index or the bytes from there on.  A C
  function is a definition of the same name on the state; a long one is cut into named parts, one
  per branch.  Unsigned integers are words of their width and wrap; a signed comparison is \<open>sint\<close>
  of the difference, as the C casts do it.  Executions outside the C standard are \<open>None\<close>: reads
  and writes outside an object and division by zero.  The hardware is the list \<open>hw_trace\<close> of the
  requests the code made, and a clock whose successive readings (\<open>rf_clock\<close>) are arbitrary.


  \<^bold>\<open>What the theorems show.\<close>

  \<^item> Whole firmware (\<open>Firmware_System\<close>): in every reachable state the data structures are well
    formed, and no task or handler can read or write outside an object or divide by zero while the
    environment does what \<open>admissible\<close> asks of it: entries of the size the radio stores, a serial
    port that goes on delivering, channel maps that name a channel.  Nothing is assumed there of
    what the firmware's own code makes of the inputs; signed products that overflow wrap.  A step is one run of one task or handler; the radio task is cut at its blocking calls.  The
    two arguments are the locales \<open>step_invariant\<close> and \<open>safe_steps\<close>, interpreted on the firmware.
  \<^item> Connections (\<open>Link_Spec\<close>, \<open>Conn_Start\<close>): the code refines an abstract link with a counter, an
    unmapped channel, a time, parameters and waiting changes; a connection request makes that
    link, updates take effect at their instant, every event's channel is the specified one and is
    used, its time moves by the interval and, for a peripheral or observer, at every fourth event by
    the error of the median anchor, and termination and supervision end the link.  \<open>Link_Reach\<close> lifts
    this to histories: at every top of the loop in a connection mode the radio is asked for what the
    abstract link calls for, and every end of an event (\<open>event_end\<close>) is one step of that link or its
    supervision timeout.  The histories are those of \<open>link_step_ok\<close>: inputs are \<open>admissible\<close>, and an
    AUX_CONNECT_RSP arrives only while the tables of its request are in place (the code does not
    check this).
  \<^item> The way to the host (\<open>Host_Path\<close>): in every history of \<open>sys_step\<close>, without further conditions,
    what the host decodes is a subsequence of what the radio received, in order and unchanged;
    the packet task alone delivers whatever is queued; and what it sends crosses the serial line.
  \<^item> Host (\<open>Command_Props\<close>, \<open>Messenger\<close>, \<open>Base64\<close>, \<open>Packet_Task\<close>): malformed commands do nothing
    (a filter of the wrong length switches the address filters off), PDUs to transmit arrive in the transmit queue, a receive returns when the input is terminated,
    the frame queue drops only when it is full.
  \<^item> Radio requests (\<open>Loop_Props\<close>, \<open>Ext_Adv\<close>, \<open>Radio_Wrapper\<close>): a sniff command makes the radio
    listen on the channel, address, seed and PHY it names; the central's sweep over window offsets
    ends, except with the bound 65535; auxiliary pointers are scheduled as they are laid out.
  \<^item> Data structures: the three ring buffers refine bounded queues (interpretations of
    \<open>bounded_fifo\<close>), the schedule keeps its coverage, the cache answers with the newest header,
    both channel selections meet their specification, decryption inverts encryption, and the
    caches of the address resolver do not change its answers.


  \<^bold>\<open>What the theorems show of the GATT printer.\<close>

  \<^item> Codec (\<open>Gatt_Props\<close>): requests and list responses are decoded by the code's own decoders to what they
    were made from, and fit the MTU; values that are too long are cut to the room left.
  \<^item> Procedures (\<open>Gatt_Props\<close>): service discovery ends whatever the server answers; the other two end
    except for the answers that make them read outside an entry or start again at handle 0, which
    are named; long values are read and written whole.
  \<^item> Channel (\<open>Gatttool_Typed\<close>, \<open>Gatttool_Props\<close>): whatever arrives, the queues hold well-formed operations and
    values on the log are those of readable characteristics.
  \<^item> Sessions (\<open>Gatttool_Device\<close>), on the LE channel with its MTU of 23: with any device that answers as the protocol asks the program does what
    the abstract printer does.  It comes to its end with all descriptors on the log and nothing that
    is not the device's; it has everything unless the main loop ended before, which loses the
    values of devices whose lists fit in a response each.


  \<^bold>\<open>What the theorems show of the SDP browser.\<close>

  \<^item> Coding (\<open>Sdp_Props\<close>): an element, and a record with ascending attributes of which one is a sequence with
    elements, is written inside its buffer and read back as it was, whatever follows it.
  \<^item> Reading (\<open>Sdp_Props\<close>): the extraction returns for every response without a cut sequence header; with one
    it can run for ever.
  \<^item> Browsing (\<open>Sdp_Props\<close>): the search returns exactly the records of the device in however many fragments they
    come, and the browser prints the XML of each, in order.
  \<^item> What the code does not guard against (\<open>Sdp_Props\<close>, \<open>Sdp_Xml_Props\<close>): records of one number overflow the
    buffer that is made for them, a continuation state that is announced and not sent is filled with
    the client's heap, a record length beyond \<open>2 ^ 31\<close> moves the reader before its buffer, and a URL
    can print any elements.


  \<^bold>\<open>Bounds and loops.\<close>  Nothing of the firmware runs on fuel.  Loops are structural recursions or functions with a
  measure; the blocking receive of messenger.c recurses on the input that is left, and a receive
  that waits for ever is \<open>None\<close>, with a theorem that it returns when the input is terminated.  The
  central's loop over window offsets has its radio commands as points of the main loop.  In the GATT
  part \<open>drive\<close>, \<open>drive_read\<close> and \<open>session_with\<close> count the answers that are taken; 65537 of them are
  enough for every discovery that ends, because the first handle asked for grows with each and has
  16 bits, and the theorems on sessions state that some number is enough.  In the SDP part the functions
  that can run for ever, or that call each other, have fuel: running out is the outer \<open>None\<close>, leaving the C
  standard the inner one.  Three steps for each byte are enough to read, four for each byte to write,
  and more fuel never changes a result; the theorems on browsing ask for four steps for each byte of the
  response and the request.


  \<^bold>\<open>Assumptions.\<close>  Task and handler runs do not interleave within a run.  Signed arithmetic that
  overflows wraps, as the compiler of the firmware generates it.  The tick period of the RTOS clock
  is not zero (\<open>board_ok\<close>).  The radio, the UART driver and the clocks are parameters: the frames,
  results, bytes and times they deliver are arbitrary, within the formats they document.  The GATT
  printer runs on a host with 64-bit sizes and little-endian words, its allocations succeed, and the
  socket and the timers are parameters: results of writes, packets, security levels and the times
  at which time-outs and disconnection come are arbitrary.  The same holds for the SDP browser; its
  allocations are shorter than \<open>2 ^ 31\<close> bytes, \<open>isprint\<close> is that of the C locale, the contents of fresh memory are
  an argument (\<open>heap\<close>), and where the compiler is free to read \<open>buf_size\<close> before or after a call that changes it,
  the choice is an argument too (\<open>reread\<close>).  A group attribute that is not a UUID, whose value the code
  reads through the wrong member of a union, is \<open>None\<close>.


  \<^bold>\<open>Not modelled.\<close>  main.c and the pin and power set-up (calls into the RTOS only), the radio
  configuration under RadioWrapper's command templates (generated), \<open>vsnprintf\<close> in debug.c (its
  result is a parameter), preemption inside a task's run.  Of the GATT printer: options, sockets and the
  terminal output, the release of memory, enhanced channels, handler lists and cancelling in
  src/shared/att.c, signed writes (they need the kernel's crypto sockets), included services and SDP
  records in gatt.c, and the parser of text UUIDs; the printer does not reach them.  Of the SDP
  browser: the other views and commands of sdptool.c, inquiry, \<open>sdp_connect\<close>, service registration and the
  other requests of lib/sdp.c, and the parser of src/sdp-xml.c.  The rest of BlueZ 5.66 is vendored
  and built as it is.  The Python host programs, the scripts and the C++ Braktooth patch are not C.
\<close>

end
